(* ===== verification/Prelude.thy ===== *)
theory Prelude
  imports Complex_Main "HOL-Library.AList" "HOL-Library.Word"
begin

text \<open>
  What every component shares: results of fallible Go functions as sums, Go maps as association
  lists with distinct keys, IEEE doubles as compared by the code, \<open>time.Time\<close> with its wall and
  monotonic readings, and the lemma collections the component proofs use.
\<close>

named_theorems go_simps "evaluation rules of the Go library fragments"
named_theorems inv_intros "introduction rules that rebuild a component invariant"

section \<open>Errors\<close>

text \<open>
  The sentinel errors of the source are constructors, an \<open>errors.New\<close> with a fixed message is
  \<open>Err\<close> with that message, and the two context errors are \<open>Canceled\<close> and \<open>DeadlineExceeded\<close>.
\<close>

datatype goerror =
    Err string
  | ErrSchema
  | ErrState
  | ErrBusy
  | ErrBackpressure
  | ErrLimit
  | ErrSizeLimit
  | ErrUnsafe
  | ErrCap
  | EOF
  | Canceled
  | DeadlineExceeded

type_synonym 'a result = "goerror + 'a"

text \<open>A Go function with only an \<open>error\<close> result: \<open>None\<close> is the nil error.\<close>

type_synonym status = "goerror option"

section \<open>Go maps\<close>

text \<open>
  A Go map is an association list without duplicate keys.  The iteration order of a Go map is
  unspecified; where a definition iterates over one, the order of the list stands for the order
  the run happens to see, and the theorems hold for every list.
\<close>

type_synonym ('k, 'v) gomap = "('k \<times> 'v) list"

abbreviation mget :: "('k, 'v) gomap \<Rightarrow> 'k \<Rightarrow> 'v option" where
  "mget m k \<equiv> map_of m k"

abbreviation mput :: "'k \<Rightarrow> 'v \<Rightarrow> ('k, 'v) gomap \<Rightarrow> ('k, 'v) gomap" where
  "mput \<equiv> AList.update"

abbreviation mdel :: "'k \<Rightarrow> ('k, 'v) gomap \<Rightarrow> ('k, 'v) gomap" where
  "mdel \<equiv> AList.delete"

definition mhas :: "('k, 'v) gomap \<Rightarrow> 'k \<Rightarrow> bool" where
  "mhas m k = (map_of m k \<noteq> None)"

definition mgetd :: "'v \<Rightarrow> ('k, 'v) gomap \<Rightarrow> 'k \<Rightarrow> 'v" where
  "mgetd d m k = (case map_of m k of None \<Rightarrow> d | Some v \<Rightarrow> v)"

abbreviation wf_map :: "('k, 'v) gomap \<Rightarrow> bool" where
  "wf_map m \<equiv> distinct (map fst m)"

lemma mhas_iff: "mhas m k \<longleftrightarrow> k \<in> fst ` set m"
  by (simp add: mhas_def map_of_eq_None_iff)

lemma mget_mput [go_simps, simp]: "map_of (mput k v m) k' = (if k' = k then Some v else map_of m k')"
  by (simp add: AList.update_conv')

lemma mget_mdel [go_simps, simp]: "map_of (mdel k m) k' = (if k' = k then None else map_of m k')"
  by (simp add: AList.delete_conv')

lemma wf_mput [intro, simp]: "wf_map m \<Longrightarrow> wf_map (mput k v m)"
  by (rule AList.distinct_update)

lemma wf_mdel [intro, simp]: "wf_map m \<Longrightarrow> wf_map (mdel k m)"
  by (rule AList.distinct_delete)

lemma length_mput_new: "k \<notin> fst ` set m \<Longrightarrow> length (mput k v m) = Suc (length m)"
  by (induction m) auto

lemma length_mput_old: "k \<in> fst ` set m \<Longrightarrow> length (mput k v m) = length m"
  by (induction m) auto

lemma length_mput: "length (mput k v m) = (if mhas m k then length m else Suc (length m))"
  by (simp add: mhas_iff length_mput_new length_mput_old)

lemma mput_new: "k \<notin> fst ` set m \<Longrightarrow> mput k v m = m @ [(k, v)]"
  by (induction m) auto

lemma mdel_absent [simp]: "k \<notin> fst ` set m \<Longrightarrow> mdel k m = m"
  by (simp add: AList.delete_id)

lemma length_mdel_le: "length (mdel k m) \<le> length m"
  by (rule AList.length_delete_le)

lemma length_mdel: "wf_map m \<Longrightarrow> k \<in> fst ` set m \<Longrightarrow> Suc (length (mdel k m)) = length m"
proof (induction m)
  case Nil
  then show ?case by simp
next
  case (Cons p m)
  show ?case
  proof (cases "fst p = k")
    case True
    with Cons.prems have "k \<notin> fst ` set m" by auto
    with True show ?thesis by (cases p) simp
  next
    case False
    with Cons show ?thesis by (cases p) auto
  qed
qed

lemma set_mdel: "set (mdel k m) = {p \<in> set m. fst p \<noteq> k}"
  by (induction m) auto

lemma keys_mdel: "fst ` set (mdel k m) = fst ` set m - {k}"
  by (auto simp: set_mdel)

lemma keys_mput: "fst ` set (mput k v m) = insert k (fst ` set m)"
  by (simp add: AList.dom_update)

lemma set_mput_wf: "wf_map m \<Longrightarrow> set (mput k v m) = insert (k, v) {p \<in> set m. fst p \<noteq> k}"
proof (induction m)
  case Nil
  then show ?case by simp
next
  case (Cons p m)
  show ?case
  proof (cases "fst p = k")
    case True
    with Cons.prems have "k \<notin> fst ` set m" by auto
    with True show ?thesis by (cases p) force
  next
    case False
    with Cons show ?thesis by (cases p) auto
  qed
qed

lemma set_mputD: "p \<in> set (mput k v m) \<Longrightarrow> p = (k, v) \<or> p \<in> set m"
  by (induction m) (auto split: if_splits)

lemma mget_in_set: "wf_map m \<Longrightarrow> map_of m k = Some v \<longleftrightarrow> (k, v) \<in> set m"
  by simp

text \<open>The boolean-valued maps the source uses as sets: a key is in when its value is true.\<close>

definition mtrue :: "('k, bool) gomap \<Rightarrow> 'k \<Rightarrow> bool" where
  "mtrue m k = mgetd False m k"

section \<open>Doubles\<close>

text \<open>
  A \<open>float64\<close> is NaN, an infinity or the rational number it stands for (the two zeros are equal
  for every comparison the code makes).  Comparisons with NaN are false.
\<close>

datatype f64 = FNaN | FPosInf | FNegInf | Fin rat

fun f64_le :: "f64 \<Rightarrow> f64 \<Rightarrow> bool" where
  "f64_le FNaN _ = False"
| "f64_le _ FNaN = False"
| "f64_le FNegInf _ = True"
| "f64_le _ FPosInf = True"
| "f64_le FPosInf _ = False"
| "f64_le _ FNegInf = False"
| "f64_le (Fin a) (Fin b) = (a \<le> b)"

definition f64_lt :: "f64 \<Rightarrow> f64 \<Rightarrow> bool" where
  "f64_lt a b = (f64_le a b \<and> \<not> f64_le b a)"

definition f64_eq :: "f64 \<Rightarrow> f64 \<Rightarrow> bool" where
  "f64_eq a b = (f64_le a b \<and> f64_le b a)"

text \<open>\<open>!(v >= lo && v <= hi)\<close> is how the source rejects NaN together with the range.\<close>

definition f64_in :: "f64 \<Rightarrow> f64 \<Rightarrow> f64 \<Rightarrow> bool" where
  "f64_in lo hi v = (f64_le lo v \<and> f64_le v hi)"

lemma f64_le_refl_iff: "f64_le a a \<longleftrightarrow> a \<noteq> FNaN"
  by (cases a) auto

lemma f64_le_trans: "f64_le a b \<Longrightarrow> f64_le b c \<Longrightarrow> f64_le a c"
  by (cases a; cases b; cases c) auto

lemma f64_le_total: "a \<noteq> FNaN \<Longrightarrow> b \<noteq> FNaN \<Longrightarrow> f64_le a b \<or> f64_le b a"
  by (cases a; cases b) auto

lemma f64_le_not_nan: "f64_le a b \<Longrightarrow> a \<noteq> FNaN \<and> b \<noteq> FNaN"
  by (cases a; cases b) auto

lemma f64_in_unit_Fin: "f64_in (Fin 0) (Fin 1) v \<Longrightarrow> \<exists>q. v = Fin q \<and> 0 \<le> q \<and> q \<le> 1"
  by (cases v) (auto simp: f64_in_def)

section \<open>Time\<close>

text \<open>
  \<open>time.Time\<close>: nanoseconds of wall clock since the zero time (January 1, year 1, UTC) and, when the
  value came from \<open>time.Now\<close>, a monotonic reading in nanoseconds.  \<open>Before\<close> and \<open>Sub\<close> use the
  monotonic readings when both values have one; \<open>Round(0)\<close> strips it.
\<close>

record gotime =
  wall :: int
  mono_ns :: "int option"

definition zero_time :: gotime where
  "zero_time = \<lparr>wall = 0, mono_ns = None\<rparr>"

definition IsZero :: "gotime \<Rightarrow> bool" where
  "IsZero t = (wall t = 0)"

definition Before :: "gotime \<Rightarrow> gotime \<Rightarrow> bool" where
  "Before t u = (case (mono_ns t, mono_ns u) of (Some a, Some b) \<Rightarrow> a < b | _ \<Rightarrow> wall t < wall u)"

definition After :: "gotime \<Rightarrow> gotime \<Rightarrow> bool" where
  "After t u = Before u t"

definition Round0 :: "gotime \<Rightarrow> gotime" where
  "Round0 t = t\<lparr>mono_ns := None\<rparr>"

definition Add :: "gotime \<Rightarrow> int \<Rightarrow> gotime" where
  "Add t d = \<lparr>wall = wall t + d, mono_ns = map_option (\<lambda>m. m + d) (mono_ns t)\<rparr>"

definition Sub :: "gotime \<Rightarrow> gotime \<Rightarrow> int" where
  "Sub t u = (case (mono_ns t, mono_ns u) of (Some a, Some b) \<Rightarrow> a - b | _ \<Rightarrow> wall t - wall u)"

definition second :: int where
  "second = 1000000000"

definition unix_epoch :: int where
  "unix_epoch = 62135596800 * 1000000000"

definition Unix :: "gotime \<Rightarrow> int" where
  "Unix t = (wall t - unix_epoch) div second"

definition unix_time :: "int \<Rightarrow> gotime" where
  "unix_time s = \<lparr>wall = unix_epoch + s * second, mono_ns = None\<rparr>"

definition TruncateSecond :: "gotime \<Rightarrow> gotime" where
  "TruncateSecond t = \<lparr>wall = wall t - wall t mod second, mono_ns = None\<rparr>"

text \<open>\<open>int64(d.Seconds())\<close> of a non-negative duration: whole seconds.\<close>

definition Seconds :: "int \<Rightarrow> int" where
  "Seconds d = (if 0 \<le> d then d div second else - ((- d) div second))"

lemma mono_Round0 [simp]: "mono_ns (Round0 t) = None"
  by (simp add: Round0_def)

lemma wall_Round0 [simp]: "wall (Round0 t) = wall t"
  by (simp add: Round0_def)

lemma IsZero_Round0 [simp]: "IsZero (Round0 t) = IsZero t"
  by (simp add: IsZero_def)

lemma Before_wall: "mono_ns u = None \<Longrightarrow> Before t u \<longleftrightarrow> wall t < wall u"
  by (simp add: Before_def split: option.splits)

lemma Before_wall': "mono_ns t = None \<Longrightarrow> Before t u \<longleftrightarrow> wall t < wall u"
  by (simp add: Before_def)

lemma Before_irrefl [simp]: "\<not> Before t t"
  by (simp add: Before_def split: option.splits)

lemma Before_Add: "0 < d \<Longrightarrow> Before t (Add t d)"
  by (simp add: Before_def Add_def split: option.splits)

lemma Unix_unix_time [simp]: "Unix (unix_time s) = s"
  by (simp add: Unix_def unix_time_def second_def)

lemma second_pos [simp]: "0 < second"
  by (simp add: second_def)

section \<open>Loops that stop at the first error\<close>

text \<open>
  \<open>for _, x := range xs { if err := f(x); err != nil { return err } }\<close> over a state: the state is
  threaded and the first error ends the loop.
\<close>

fun range_err :: "('s \<Rightarrow> 'a \<Rightarrow> 's \<times> status) \<Rightarrow> 's \<Rightarrow> 'a list \<Rightarrow> 's \<times> status" where
  "range_err f s [] = (s, None)"
| "range_err f s (x # xs) =
     (case f s x of (s', None) \<Rightarrow> range_err f s' xs | (s', Some e) \<Rightarrow> (s', Some e))"

lemma range_err_append:
  "range_err f s (xs @ ys) =
     (case range_err f s xs of (s', None) \<Rightarrow> range_err f s' ys | (s', Some e) \<Rightarrow> (s', Some e))"
  by (induction xs arbitrary: s) (auto split: prod.splits option.splits)

lemma range_err_inv:
  assumes "\<And>s x s' r. P s \<Longrightarrow> x \<in> set xs \<Longrightarrow> f s x = (s', r) \<Longrightarrow> P s'"
    and "P s" and "range_err f s xs = (s', r)"
  shows "P s'"
  using assms
proof (induction xs arbitrary: s)
  case Nil
  then show ?case by simp
next
  case (Cons x xs)
  obtain t q where fx: "f s x = (t, q)" by (cases "f s x")
  with Cons.prems have "P t" by (meson list.set_intros(1))
  show ?case
  proof (cases q)
    case None
    with fx Cons.prems \<open>P t\<close> show ?thesis
      by (intro Cons.IH [of t]) (auto intro: Cons.prems(1))
  next
    case (Some e)
    with fx Cons.prems \<open>P t\<close> show ?thesis by simp
  qed
qed

end
