(* ===== verification/GoText.thy ===== *)
theory GoText
  imports Prelude "HOL-Library.Char_ord" "HOL-Library.List_Lexorder"
begin

text \<open>
  The parts of Go's \<open>strings\<close>, \<open>unicode/utf8\<close>, \<open>unicode\<close> and \<open>strconv\<close> the source uses.  A Go
  string is its bytes, so it is a \<open>string\<close>; runes are decoded from the bytes the way
  \<open>utf8.DecodeRuneInString\<close> does it.

  What the development does not compute is collected in the record \<open>std\<close>, which the definitions that
  need it take as an argument: the SHA-256 digest in hexadecimal, the text \<open>encoding/json\<close> writes
  for a number it decoded (\<open>renum\<close>), the shortest text of a double and the double of a literal
  (\<open>strconv\<close>), case mapping of non-ASCII runes, and \<open>time.Parse\<close>.  No theorem assumes
  anything about them unless it says so.
\<close>

record std =
  sha256hex :: "string \<Rightarrow> string"
  renum :: "string \<Rightarrow> string"
  fmt_f64 :: "f64 \<Rightarrow> string"
  parse_f64 :: "string \<Rightarrow> f64 option"
  lower_rune :: "nat \<Rightarrow> nat"
  parse_time :: "string \<Rightarrow> gotime option"

definition byte :: "char \<Rightarrow> nat" where
  "byte c = of_char c"

lemma byte_less [simp]: "byte c < 256"
  by (simp add: byte_def)

section \<open>Plain string operations\<close>

definition HasPrefix :: "string \<Rightarrow> string \<Rightarrow> bool" where
  "HasPrefix s p = (take (length p) s = p)"

definition HasSuffix :: "string \<Rightarrow> string \<Rightarrow> bool" where
  "HasSuffix s p = (length p \<le> length s \<and> drop (length s - length p) s = p)"

definition TrimPrefix :: "string \<Rightarrow> string \<Rightarrow> string" where
  "TrimPrefix s p = (if HasPrefix s p then drop (length p) s else s)"

fun Contains :: "string \<Rightarrow> string \<Rightarrow> bool" where
  "Contains [] p = (p = [])"
| "Contains (c # s) p = (HasPrefix (c # s) p \<or> Contains s p)"

text \<open>\<open>strings.IndexByte\<close>: \<open>None\<close> stands for -1.\<close>

fun IndexByte :: "string \<Rightarrow> char \<Rightarrow> nat option" where
  "IndexByte [] b = None"
| "IndexByte (c # s) b = (if c = b then Some 0 else map_option Suc (IndexByte s b))"

text \<open>\<open>strings.Cut(s, sep)\<close> with a one-byte separator.\<close>

definition Cut :: "string \<Rightarrow> char \<Rightarrow> string \<times> string \<times> bool" where
  "Cut s b = (case IndexByte s b of None \<Rightarrow> (s, [], False) | Some i \<Rightarrow> (take i s, drop (Suc i) s, True))"

text \<open>\<open>strings.Split(s, sep)\<close> with a one-byte separator.\<close>

fun Split :: "string \<Rightarrow> char \<Rightarrow> string list" where
  "Split [] b = [[]]"
| "Split (c # s) b =
     (if c = b then [] # Split s b
      else (case Split s b of [] \<Rightarrow> [[c]] | w # ws \<Rightarrow> (c # w) # ws))"

fun Join :: "string list \<Rightarrow> string \<Rightarrow> string" where
  "Join [] sep = []"
| "Join [s] sep = s"
| "Join (s # t # ts) sep = s @ sep @ Join (t # ts) sep"

definition TrimRightSet :: "string \<Rightarrow> char set \<Rightarrow> string" where
  "TrimRightSet s cs = rev (dropWhile (\<lambda>c. c \<in> cs) (rev s))"

fun show_nat :: "nat \<Rightarrow> string" where
  "show_nat n = (if n < 10 then [char_of (48 + n)] else show_nat (n div 10) @ [char_of (48 + n mod 10)])"

declare show_nat.simps [simp del]

definition show_int :: "int \<Rightarrow> string" where
  "show_int i = (if i < 0 then CHR ''-'' # show_nat (nat (- i)) else show_nat (nat i))"

lemma IndexByte_Some: "IndexByte s b = Some i \<Longrightarrow> i < length s \<and> s ! i = b \<and> b \<notin> set (take i s)"
proof (induction s arbitrary: i)
  case Nil
  then show ?case by simp
next
  case (Cons c s)
  show ?case
  proof (cases "c = b")
    case True
    with Cons.prems show ?thesis by simp
  next
    case False
    with Cons.prems obtain j where "IndexByte s b = Some j" "i = Suc j" by auto
    with Cons.IH [of j] False show ?thesis by simp
  qed
qed

lemma IndexByte_None: "IndexByte s b = None \<longleftrightarrow> b \<notin> set s"
  by (induction s) auto

lemma HasPrefix_append [simp]: "HasPrefix (p @ s) p"
  by (simp add: HasPrefix_def)

lemma Contains_iff: "Contains s p \<longleftrightarrow> (\<exists>a b. s = a @ p @ b)"
proof (induction s)
  case Nil
  then show ?case by auto
next
  case (Cons c s)
  have "HasPrefix (c # s) p \<longleftrightarrow> (\<exists>b. c # s = p @ b)"
    by (metis HasPrefix_append HasPrefix_def append_take_drop_id)
  with Cons.IH show ?case
    by (auto simp: Cons_eq_append_conv)
qed

section \<open>UTF-8\<close>

definition RuneError :: nat where
  "RuneError = 65533"

definition cont_byte :: "nat \<Rightarrow> bool" where
  "cont_byte b = (128 \<le> b \<and> b \<le> 191)"

text \<open>Rune and width of the first rune; an invalid byte is \<open>RuneError\<close> with width 1.\<close>

fun DecodeRune :: "string \<Rightarrow> nat \<times> nat" where
  "DecodeRune [] = (RuneError, 0)"
| "DecodeRune (c0 # s) =
     (let b0 = byte c0 in
      if b0 < 128 then (b0, 1)
      else if b0 < 194 \<or> 244 < b0 then (RuneError, 1)
      else (case s of
        [] \<Rightarrow> (RuneError, 1)
      | c1 # s1 \<Rightarrow>
         (let b1 = byte c1;
              lo = (if b0 = 224 then 160 else if b0 = 240 then 144 else 128);
              hi = (if b0 = 237 then 159 else if b0 = 244 then 143 else 191) in
          if b1 < lo \<or> hi < b1 then (RuneError, 1)
          else if b0 < 224 then ((b0 - 192) * 64 + (b1 - 128), 2)
          else (case s1 of
            [] \<Rightarrow> (RuneError, 1)
          | c2 # s2 \<Rightarrow>
             (let b2 = byte c2 in
              if \<not> cont_byte b2 then (RuneError, 1)
              else if b0 < 240 then ((b0 - 224) * 4096 + (b1 - 128) * 64 + (b2 - 128), 3)
              else (case s2 of
                [] \<Rightarrow> (RuneError, 1)
              | c3 # s3 \<Rightarrow>
                 (let b3 = byte c3 in
                  if \<not> cont_byte b3 then (RuneError, 1)
                  else ((b0 - 240) * 262144 + (b1 - 128) * 4096 + (b2 - 128) * 64 + (b3 - 128), 4))))))))"

lemma DecodeRune_width: "s \<noteq> [] \<Longrightarrow> 1 \<le> snd (DecodeRune s) \<and> snd (DecodeRune s) \<le> length s"
  by (cases s) (auto simp: Let_def split: list.splits)

lemma DecodeRune_width_4: "snd (DecodeRune s) \<le> 4"
  by (cases s) (auto simp: Let_def split: list.splits)

text \<open>The runes of a string with their bytes and whether those bytes are valid UTF-8.\<close>

function rune_chunks :: "string \<Rightarrow> (nat \<times> string \<times> bool) list" where
  "rune_chunks s =
     (if s = [] then []
      else let (r, w) = DecodeRune s in
        (r, take w s, \<not> (r = RuneError \<and> w = 1)) # rune_chunks (drop w s))"
  by pat_completeness auto
termination
proof (relation "measure length", goal_cases)
  case 1
  then show ?case by simp
next
  case (2 s x r w)
  from 2(1) have "1 \<le> snd (DecodeRune s)" using DecodeRune_width by blast
  with 2 have "1 \<le> w" by (metis snd_conv)
  with 2(1) show ?case by simp
qed

declare rune_chunks.simps [simp del]

lemma rune_chunks_Nil [simp]: "rune_chunks [] = []"
  by (simp add: rune_chunks.simps)

lemma concat_rune_chunks: "concat (map (\<lambda>(r, b, v). b) (rune_chunks s)) = s"
proof (induction s rule: rune_chunks.induct)
  case (1 s)
  show ?case
  proof (cases "s = []")
    case False
    obtain r w where rw: "DecodeRune s = (r, w)" by (cases "DecodeRune s")
    from 1 [OF False rw [symmetric] refl] False rw
    show ?thesis by (simp add: rune_chunks.simps [of s])
  qed simp
qed

text \<open>\<open>[]rune(s)\<close>.\<close>

definition runes :: "string \<Rightarrow> nat list" where
  "runes s = map fst (rune_chunks s)"

definition utf8_Valid :: "string \<Rightarrow> bool" where
  "utf8_Valid s = list_all (\<lambda>(r, b, v). v) (rune_chunks s)"

definition RuneStart :: "char \<Rightarrow> bool" where
  "RuneStart c = (\<not> cont_byte (byte c))"

definition EncodeRune :: "nat \<Rightarrow> string" where
  "EncodeRune r =
     (if r < 128 then [char_of r]
      else if r < 2048 then [char_of (192 + r div 64), char_of (128 + r mod 64)]
      else if 1114111 < r \<or> (55296 \<le> r \<and> r \<le> 57343) then [CHR 0xEF, CHR 0xBF, CHR 0xBD]
      else if r < 65536 then
        [char_of (224 + r div 4096), char_of (128 + r div 64 mod 64), char_of (128 + r mod 64)]
      else [char_of (240 + r div 262144), char_of (128 + r div 4096 mod 64),
            char_of (128 + r div 64 mod 64), char_of (128 + r mod 64)])"

definition replacement :: string where
  "replacement = [CHR 0xEF, CHR 0xBF, CHR 0xBD]"

text \<open>\<open>strings.ToValidUTF8\<close>: each maximal run of invalid bytes becomes one replacement.\<close>

fun valid_runs :: "string \<Rightarrow> bool \<Rightarrow> (nat \<times> string \<times> bool) list \<Rightarrow> string" where
  "valid_runs rep bad [] = []"
| "valid_runs rep bad ((r, b, v) # cs) =
     (if v then b @ valid_runs rep False cs
      else if bad then valid_runs rep True cs
      else rep @ valid_runs rep True cs)"

definition ToValidUTF8 :: "string \<Rightarrow> string \<Rightarrow> string" where
  "ToValidUTF8 s rep = valid_runs rep False (rune_chunks s)"

text \<open>Every invalid byte becomes U+FFFD on its own: the decoder of \<open>encoding/json\<close>.\<close>

definition sanitize :: "string \<Rightarrow> string" where
  "sanitize s = concat (map (\<lambda>(r, b, v). if v then b else replacement) (rune_chunks s))"

section \<open>Rune classes\<close>

definition IsSpace :: "nat \<Rightarrow> bool" where
  "IsSpace r = ((9 \<le> r \<and> r \<le> 13) \<or> r \<in> {32, 133, 160, 5760, 8232, 8233, 8239, 8287, 12288}
     \<or> (8192 \<le> r \<and> r \<le> 8202))"

definition IsControl :: "nat \<Rightarrow> bool" where
  "IsControl r = (r < 32 \<or> (127 \<le> r \<and> r < 160))"

definition ToLower :: "std \<Rightarrow> string \<Rightarrow> string" where
  "ToLower S s = concat (map (\<lambda>(r, b, v).
     if r < 128 then (if 65 \<le> r \<and> r \<le> 90 then [char_of (r + 32)] else b)
     else EncodeRune (lower_rune S r)) (rune_chunks s))"

definition has_control :: "string \<Rightarrow> bool" where
  "has_control s = list_ex (\<lambda>(r, b, v). IsControl r) (rune_chunks s)"

text \<open>\<open>strings.TrimSpace\<close> and \<open>strings.Fields\<close> work on Unicode white space.\<close>

definition chunk_space :: "nat \<times> string \<times> bool \<Rightarrow> bool" where
  "chunk_space c = IsSpace (fst c)"

definition unchunk :: "(nat \<times> string \<times> bool) list \<Rightarrow> string" where
  "unchunk cs = concat (map (\<lambda>(r, b, v). b) cs)"

definition TrimSpace :: "string \<Rightarrow> string" where
  "TrimSpace s = unchunk (rev (dropWhile chunk_space (rev (dropWhile chunk_space (rune_chunks s)))))"

fun field_words :: "(nat \<times> string \<times> bool) list \<Rightarrow> string \<Rightarrow> string list" where
  "field_words [] w = (if w = [] then [] else [w])"
| "field_words (c # cs) w =
     (if chunk_space c then (if w = [] then field_words cs [] else w # field_words cs [])
      else field_words cs (w @ fst (snd c)))"

definition Fields :: "string \<Rightarrow> string list" where
  "Fields s = field_words (rune_chunks s) []"

lemma unchunk_rune_chunks [simp]: "unchunk (rune_chunks s) = s"
  by (simp add: unchunk_def concat_rune_chunks)

lemma unchunk_append [simp]: "unchunk (a @ b) = unchunk a @ unchunk b"
  by (simp add: unchunk_def)

lemma TrimSpace_infix: "\<exists>a b. s = a @ TrimSpace s @ b"
proof -
  let ?d = "dropWhile chunk_space (rune_chunks s)"
  have "rune_chunks s = takeWhile chunk_space (rune_chunks s) @ ?d" by simp
  moreover have "?d = rev (dropWhile chunk_space (rev ?d)) @ rev (takeWhile chunk_space (rev ?d))"
    by (metis rev_append rev_rev_ident takeWhile_dropWhile_id)
  ultimately have "unchunk (rune_chunks s) = unchunk (takeWhile chunk_space (rune_chunks s))
      @ TrimSpace s @ unchunk (rev (takeWhile chunk_space (rev ?d)))"
    unfolding TrimSpace_def by (metis unchunk_append)
  then show ?thesis by auto
qed

end
