(* ===== verification/Json.thy ===== *)
theory Json
  imports GoText
begin

text \<open>
  The fragment of \<open>encoding/json\<close> the source uses: JSON values, \<open>json.Marshal\<close> (sorted object keys,
  HTML-safe escaping), and the scanner behind \<open>json.Valid\<close> and \<open>Decoder\<close>, which keeps object members
  in document order with their duplicates.  A number is its literal, as with \<open>UseNumber\<close>.
\<close>

datatype json =
    JNull
  | JBool bool
  | JNum string
  | JStr string
  | JArr "json list"
  | JObj "(string \<times> json) list"

type_synonym source = "(string \<times> json) list"

section \<open>Marshal\<close>

definition hexdigit :: "nat \<Rightarrow> char" where
  "hexdigit n = (if n < 10 then char_of (48 + n) else char_of (87 + n))"

text \<open>The escapes of one decoded rune: \<open>\b \f \n \r \t\<close>, quotes, the HTML characters, control
  characters, U+2028 and U+2029, and the replacement character for an invalid byte.\<close>

definition escape_chunk :: "nat \<times> string \<times> bool \<Rightarrow> string" where
  "escape_chunk ch = (case ch of (r, b, v) \<Rightarrow>
     if \<not> v then CHR 0x5C # ''ufffd''
     else if r = 34 then [CHR 0x5C, CHR 0x22]
     else if r = 92 then [CHR 0x5C, CHR 0x5C]
     else if r = 8 then CHR 0x5C # ''b''
     else if r = 12 then CHR 0x5C # ''f''
     else if r = 10 then CHR 0x5C # ''n''
     else if r = 13 then CHR 0x5C # ''r''
     else if r = 9 then CHR 0x5C # ''t''
     else if r < 32 \<or> r = 60 \<or> r = 62 \<or> r = 38
       then CHR 0x5C # ''u00'' @ [hexdigit (r div 16), hexdigit (r mod 16)]
     else if r = 8232 then CHR 0x5C # ''u2028''
     else if r = 8233 then CHR 0x5C # ''u2029''
     else b)"

definition quote :: "string \<Rightarrow> string" where
  "quote s = [CHR 0x22] @ concat (map escape_chunk (rune_chunks s)) @ [CHR 0x22]"

fun marshal :: "json \<Rightarrow> string" where
  "marshal JNull = ''null''"
| "marshal (JBool b) = (if b then ''true'' else ''false'')"
| "marshal (JNum l) = l"
| "marshal (JStr s) = quote s"
| "marshal (JArr vs) = ''['' @ Join (map marshal vs) '','' @ '']''"
| "marshal (JObj kvs) =
     CHR 0x7B # Join (map (\<lambda>(k, t). quote k @ '':'' @ t)
                  (sort_key fst (map (\<lambda>(k, v). (k, marshal v)) kvs))) '','' @ [CHR 0x7D]"

section \<open>The scanner\<close>

definition json_space :: "char \<Rightarrow> bool" where
  "json_space c = (byte c = 32 \<or> byte c = 9 \<or> byte c = 10 \<or> byte c = 13)"

definition skip_ws :: "string \<Rightarrow> string" where
  "skip_ws s = dropWhile json_space s"

definition is_digit :: "char \<Rightarrow> bool" where
  "is_digit c = (48 \<le> byte c \<and> byte c \<le> 57)"

definition hexval :: "char \<Rightarrow> nat option" where
  "hexval c =
     (let b = byte c in
      if 48 \<le> b \<and> b \<le> 57 then Some (b - 48)
      else if 97 \<le> b \<and> b \<le> 102 then Some (b - 87)
      else if 65 \<le> b \<and> b \<le> 70 then Some (b - 55)
      else None)"

definition hex4 :: "string \<Rightarrow> nat option" where
  "hex4 s = (case map hexval (take 4 s) of
     [Some a, Some b, Some c, Some d] \<Rightarrow> Some (a * 4096 + b * 256 + c * 16 + d)
   | _ \<Rightarrow> None)"

definition surrogate :: "nat \<Rightarrow> bool" where
  "surrogate r = (55296 \<le> r \<and> r \<le> 57343)"

text \<open>\<open>utf16.DecodeRune\<close>: the code point of a surrogate pair.\<close>

definition utf16_pair :: "nat \<Rightarrow> nat \<Rightarrow> nat option" where
  "utf16_pair a b =
     (if 55296 \<le> a \<and> a < 56320 \<and> 56320 \<le> b \<and> b < 57344
      then Some ((a - 55296) * 1024 + (b - 56320) + 65536) else None)"

text \<open>A string literal after its opening quote: its raw decoded bytes and what follows it.\<close>

fun scan_str :: "string \<Rightarrow> (string \<times> string) option" where
  "scan_str [] = None"
| "scan_str (c # s) =
     (if c = CHR 0x22 then Some ([], s)
      else if byte c < 32 then None
      else if c \<noteq> CHR 0x5C then map_option (\<lambda>(d, r). (c # d, r)) (scan_str s)
      else (case s of
        [] \<Rightarrow> None
      | e # s1 \<Rightarrow>
          if e = CHR ''u'' then
            (case s1 of
              h1 # h2 # h3 # h4 # s2 \<Rightarrow>
                (case hex4 [h1, h2, h3, h4] of
                  None \<Rightarrow> None
                | Some r \<Rightarrow>
                    (case s2 of
                      b # u # g1 # g2 # g3 # g4 # s3 \<Rightarrow>
                        (if surrogate r \<and> b = CHR 0x5C \<and> u = CHR ''u'' then
                          (case hex4 [g1, g2, g3, g4] of
                            None \<Rightarrow> None
                          | Some q \<Rightarrow>
                              (case utf16_pair r q of
                                Some p \<Rightarrow> map_option (\<lambda>(d, t). (EncodeRune p @ d, t)) (scan_str s3)
                              | None \<Rightarrow> map_option (\<lambda>(d, t). (replacement @ d, t)) (scan_str s2)))
                        else map_option (\<lambda>(d, t). (EncodeRune r @ d, t)) (scan_str s2))
                    | _ \<Rightarrow> map_option (\<lambda>(d, t). (EncodeRune r @ d, t)) (scan_str s2)))
            | _ \<Rightarrow> None)
          else (let rest = map_option (\<lambda>(d, r). ((if e = CHR ''b'' then CHR 0x08 else if e = CHR ''f'' then CHR 0x0C
                    else if e = CHR ''n'' then CHR 0x0A else if e = CHR ''r'' then CHR 0x0D
                    else if e = CHR ''t'' then CHR 0x09 else e) # d, r)) (scan_str s1) in
                if e \<in> {CHR ''b'', CHR ''f'', CHR ''n'', CHR ''r'', CHR ''t'', CHR 0x22, CHR 0x5C, CHR ''/''}
                then rest else None)))"

definition digits1 :: "string \<Rightarrow> (string \<times> string) option" where
  "digits1 s = (let d = takeWhile is_digit s in if d = [] then None else Some (d, dropWhile is_digit s))"

definition scan_frac :: "string \<Rightarrow> (string \<times> string) option" where
  "scan_frac s = (case s of
     c # r \<Rightarrow> (if c = CHR ''.'' then map_option (\<lambda>(d, t). (c # d, t)) (digits1 r) else Some ([], s))
   | [] \<Rightarrow> Some ([], []))"

definition scan_exp :: "string \<Rightarrow> (string \<times> string) option" where
  "scan_exp s = (case s of
     c # r \<Rightarrow>
       (if c = CHR ''e'' \<or> c = CHR ''E'' then
          (case r of
            g # r1 \<Rightarrow> (if g = CHR ''+'' \<or> g = CHR ''-'' then map_option (\<lambda>(d, t). (c # g # d, t)) (digits1 r1)
                       else map_option (\<lambda>(d, t). (c # d, t)) (digits1 r))
          | [] \<Rightarrow> None)
        else Some ([], s))
   | [] \<Rightarrow> Some ([], []))"

definition scan_int :: "string \<Rightarrow> (string \<times> string) option" where
  "scan_int s = (case s of
     c # r \<Rightarrow> (if c = CHR ''0'' then Some ([c], r) else digits1 s)
   | [] \<Rightarrow> None)"

definition scan_unsigned :: "string \<Rightarrow> (string \<times> string) option" where
  "scan_unsigned s =
     (case scan_int s of None \<Rightarrow> None | Some (i, s1) \<Rightarrow>
      (case scan_frac s1 of None \<Rightarrow> None | Some (f, s2) \<Rightarrow>
       (case scan_exp s2 of None \<Rightarrow> None | Some (e, s3) \<Rightarrow> Some (i @ f @ e, s3))))"

definition scan_num :: "string \<Rightarrow> (string \<times> string) option" where
  "scan_num s = (case s of
     c # r \<Rightarrow> (if c = CHR ''-'' then map_option (\<lambda>(d, t). (c # d, t)) (scan_unsigned r)
               else scan_unsigned s)
   | [] \<Rightarrow> None)"

text \<open>
  Values, array elements and object members.  Each step of the fuel either consumes a byte or moves
  from an element position to its value, so \<open>2 * length s + 2\<close> is enough.  The second argument is
  what is left of the scanner's nesting limit (10000 in \<open>encoding/json\<close>).
\<close>

datatype pmode = PVal | PArr "json list" | PObj "(string \<times> json) list"

primrec scan :: "nat \<Rightarrow> pmode \<Rightarrow> nat \<Rightarrow> string \<Rightarrow> (json \<times> string) option" where
  "scan 0 m d s = None"
| "scan (Suc n) m d s = (case m of
     PVal \<Rightarrow>
      (case skip_ws s of
        [] \<Rightarrow> None
      | c # r \<Rightarrow>
         if c = CHR 0x7B then
           (if d = 0 then None
            else case skip_ws r of
              [] \<Rightarrow> None
            | x # r1 \<Rightarrow> if x = CHR 0x7D then Some (JObj [], r1) else scan n (PObj []) (d - 1) r)
         else if c = CHR ''['' then
           (if d = 0 then None
            else case skip_ws r of
              [] \<Rightarrow> None
            | x # r1 \<Rightarrow> if x = CHR '']'' then Some (JArr [], r1) else scan n (PArr []) (d - 1) r)
         else if c = CHR 0x22 then map_option (\<lambda>(t, r1). (JStr (sanitize t), r1)) (scan_str r)
         else if HasPrefix (c # r) ''true'' then Some (JBool True, drop 3 r)
         else if HasPrefix (c # r) ''false'' then Some (JBool False, drop 4 r)
         else if HasPrefix (c # r) ''null'' then Some (JNull, drop 3 r)
         else map_option (\<lambda>(l, r1). (JNum l, r1)) (scan_num (c # r)))
   | PArr acc \<Rightarrow>
      (case scan n PVal d s of
        None \<Rightarrow> None
      | Some (v, r) \<Rightarrow>
         (case skip_ws r of
           [] \<Rightarrow> None
         | c # r1 \<Rightarrow>
            if c = CHR '','' then scan n (PArr (acc @ [v])) d r1
            else if c = CHR '']'' then Some (JArr (acc @ [v]), r1)
            else None))
   | PObj acc \<Rightarrow>
      (case skip_ws s of
        [] \<Rightarrow> None
      | q # r \<Rightarrow>
         if q \<noteq> CHR 0x22 then None
         else (case scan_str r of
           None \<Rightarrow> None
         | Some (k, r1) \<Rightarrow>
            (case skip_ws r1 of
              [] \<Rightarrow> None
            | e # r2 \<Rightarrow>
               if e \<noteq> CHR '':'' then None
               else (case scan n PVal d r2 of
                 None \<Rightarrow> None
               | Some (v, r3) \<Rightarrow>
                  (case skip_ws r3 of
                    [] \<Rightarrow> None
                  | c # r4 \<Rightarrow>
                     if c = CHR '','' then scan n (PObj (acc @ [(sanitize k, v)])) d r4
                     else if c = CHR 0x7D then Some (JObj (acc @ [(sanitize k, v)]), r4)
                     else None))))))"

text \<open>The whole input as one value with nothing but white space after it (\<open>json.Valid\<close>).\<close>

definition json_parse :: "string \<Rightarrow> json option" where
  "json_parse s = (case scan (2 * length s + 2) PVal 10000 s of
     None \<Rightarrow> None
   | Some (v, r) \<Rightarrow> if skip_ws r = [] then Some v else None)"

definition json_Valid :: "string \<Rightarrow> bool" where
  "json_Valid s = (json_parse s \<noteq> None)"

section \<open>Decoding into maps\<close>

text \<open>\<open>Decode\<close> into \<open>any\<close>: a later member replaces an earlier one with the same key.\<close>

fun decode_any :: "json \<Rightarrow> json" where
  "decode_any (JArr vs) = JArr (map decode_any vs)"
| "decode_any (JObj kvs) = JObj (foldl (\<lambda>m (k, v). mput k v m) [] (map (\<lambda>(k, v). (k, decode_any v)) kvs))"
| "decode_any v = v"

text \<open>Without \<open>UseNumber\<close> every number goes through \<open>float64\<close> and is written back.\<close>

fun renumber :: "std \<Rightarrow> json \<Rightarrow> json" where
  "renumber S (JNum l) = JNum (renum S l)"
| "renumber S (JArr vs) = JArr (map (renumber S) vs)"
| "renumber S (JObj kvs) = JObj (map (\<lambda>(k, v). (k, renumber S v)) kvs)"
| "renumber S v = v"

text \<open>\<open>event.Hash\<close>: the hexadecimal SHA-256 digest of the marshalled value.\<close>

definition Hash :: "std \<Rightarrow> json \<Rightarrow> string" where
  "Hash S v = sha256hex S (marshal v)"

abbreviation JNat :: "nat \<Rightarrow> json" where
  "JNat n \<equiv> JNum (show_nat n)"

abbreviation JInt :: "int \<Rightarrow> json" where
  "JInt n \<equiv> JNum (show_int n)"

definition opt_str :: "string option \<Rightarrow> json" where
  "opt_str t = (case t of None \<Rightarrow> JNull | Some s \<Rightarrow> JStr s)"

text \<open>\<open>v, _ := source[k].(string)\<close>.\<close>

definition source_text :: "source \<Rightarrow> string \<Rightarrow> string" where
  "source_text src k = (case map_of src k of Some (JStr s) \<Rightarrow> s | _ \<Rightarrow> [])"

fun json_wf :: "json \<Rightarrow> bool" where
  "json_wf (JArr vs) = list_all json_wf vs"
| "json_wf (JObj kvs) = (distinct (map fst kvs) \<and> list_all (\<lambda>(k, v). json_wf v) kvs)"
| "json_wf v = True"

lemma wf_foldl_mput: "wf_map m \<Longrightarrow> wf_map (foldl (\<lambda>m (k, v). mput k v m) m kvs)"
  by (induction kvs arbitrary: m) auto

lemma set_foldl_mput: "p \<in> set (foldl (\<lambda>m (k, v). mput k v m) m kvs) \<Longrightarrow> p \<in> set m \<or> p \<in> set kvs"
proof (induction kvs arbitrary: m)
  case Nil
  then show ?case by simp
next
  case (Cons q kvs)
  from Cons.IH [of "(\<lambda>(k, v). mput k v m) q"] Cons.prems
  have "p \<in> set ((\<lambda>(k, v). mput k v m) q) \<or> p \<in> set kvs" by simp
  then show ?case by (cases q) (auto dest: set_mputD)
qed

lemma decode_any_wf: "json_wf (decode_any v)"
proof (induction v rule: decode_any.induct)
  case (1 vs)
  then show ?case by (auto simp: list_all_iff)
next
  case (2 kvs)
  show ?case
    by (auto simp: list_all_iff intro: wf_foldl_mput dest!: set_foldl_mput) (use 2 in force)
qed simp_all

lemma foldl_mput_distinct:
  "distinct (map fst (m @ kvs)) \<Longrightarrow> foldl (\<lambda>m (k, v). mput k v m) m kvs = m @ kvs"
proof (induction kvs arbitrary: m)
  case Nil
  then show ?case by simp
next
  case (Cons p kvs)
  then have "mput (fst p) (snd p) m = m @ [p]" by (subst mput_new) auto
  then show ?case using Cons by (cases p) simp
qed

lemma decode_any_id: "json_wf v \<Longrightarrow> decode_any v = v"
proof (induction v rule: decode_any.induct)
  case (1 vs)
  then show ?case by (auto simp: list_all_iff intro: map_idI)
next
  case (2 kvs)
  then have "map (\<lambda>(k, v). (k, decode_any v)) kvs = kvs"
    by (intro map_idI) (auto simp: list_all_iff)
  with 2 show ?case by (simp add: foldl_mput_distinct [of "[]", simplified])
qed simp_all

end
