(* ===== verification/Regex.thy ===== *)
theory Regex
  imports GoText
begin

text \<open>
  The matcher behind Go's \<open>regexp\<close> for the operators the source uses.  Go reports the leftmost
  match and, among those, the one a backtracking search finds first, so \<open>ends\<close> lists the states after
  a match in that order of preference.  Matching is by bytes: every class of the source's patterns is
  a set of ASCII characters or the complement of one, so a pattern never stops inside a rune unless
  its next item would also accept the rest of that rune.
\<close>

text \<open>Reversed text before the position, text after it, and the captured groups.\<close>

type_synonym rstate = "string \<times> string \<times> (nat \<times> string) list"

datatype rx =
    REps
  | RCls "char \<Rightarrow> bool"
  | RSeq rx rx
  | RAlt rx rx
  | RStar rx
  | RCap nat rx
  | RBegin
  | REnd
  | RWordB

definition word_char :: "char \<Rightarrow> bool" where
  "word_char c = (let b = byte c in (48 \<le> b \<and> b \<le> 57) \<or> (65 \<le> b \<and> b \<le> 90) \<or> b = 95 \<or> (97 \<le> b \<and> b \<le> 122))"

definition at_word_boundary :: "string \<Rightarrow> string \<Rightarrow> bool" where
  "at_word_boundary pre s =
     ((case pre of [] \<Rightarrow> False | c # _ \<Rightarrow> word_char c) \<noteq> (case s of [] \<Rightarrow> False | c # _ \<Rightarrow> word_char c))"

definition rest_len :: "rstate \<Rightarrow> nat" where
  "rest_len st = length (fst (snd st))"

text \<open>Greedy repetition: one more round first, stopping when a round consumes nothing.\<close>

primrec star_ends :: "nat \<Rightarrow> (rstate \<Rightarrow> rstate list) \<Rightarrow> rstate \<Rightarrow> rstate list" where
  "star_ends 0 f st = [st]"
| "star_ends (Suc n) f st =
     concat (map (\<lambda>t. if rest_len t < rest_len st then star_ends n f t else []) (f st)) @ [st]"

primrec ends :: "rx \<Rightarrow> rstate \<Rightarrow> rstate list" where
  "ends REps st = [st]"
| "ends (RCls p) st =
     (case st of (pre, s, caps) \<Rightarrow>
       (case s of [] \<Rightarrow> [] | c # s' \<Rightarrow> if p c then [(c # pre, s', caps)] else []))"
| "ends (RSeq a b) st = concat (map (ends b) (ends a st))"
| "ends (RAlt a b) st = ends a st @ ends b st"
| "ends (RStar a) st = star_ends (rest_len st) (ends a) st"
| "ends (RCap n a) st =
     map (\<lambda>(pre, s, caps). (pre, s, (n, take (rest_len st - length s) (fst (snd st))) # caps)) (ends a st)"
| "ends RBegin st = (if fst st = [] then [st] else [])"
| "ends REnd st = (if fst (snd st) = [] then [st] else [])"
| "ends RWordB st = (if at_word_boundary (fst st) (fst (snd st)) then [st] else [])"

text \<open>The leftmost match from a position: where it starts and the state after it.\<close>

fun rfind :: "rx \<Rightarrow> string \<Rightarrow> string \<Rightarrow> (string \<times> string \<times> rstate) option" where
  "rfind r pre [] = (case ends r (pre, [], []) of [] \<Rightarrow> None | st # _ \<Rightarrow> Some (pre, [], st))"
| "rfind r pre (c # s) =
     (case ends r (pre, c # s, []) of
       [] \<Rightarrow> rfind r (c # pre) s
     | st # _ \<Rightarrow> Some (pre, c # s, st))"

definition MatchString :: "rx \<Rightarrow> string \<Rightarrow> bool" where
  "MatchString r s = (rfind r [] s \<noteq> None)"

definition FindString :: "rx \<Rightarrow> string \<Rightarrow> string" where
  "FindString r s = (case rfind r [] s of
     None \<Rightarrow> [] | Some (pre, s0, (pre1, s1, caps)) \<Rightarrow> take (length s0 - length s1) s0)"

definition cap :: "(nat \<times> string) list \<Rightarrow> nat \<Rightarrow> string" where
  "cap caps n = (case map_of caps n of None \<Rightarrow> [] | Some t \<Rightarrow> t)"

text \<open>Every round consumes a byte, so the length of the text is enough fuel.\<close>

primrec replace_from :: "nat \<Rightarrow> rx \<Rightarrow> ((nat \<times> string) list \<Rightarrow> string) \<Rightarrow> string \<Rightarrow> string \<Rightarrow> string" where
  "replace_from 0 r f pre s = s"
| "replace_from (Suc n) r f pre s =
     (case rfind r pre s of
       None \<Rightarrow> s
     | Some (pre0, s0, (pre1, s1, caps)) \<Rightarrow>
         take (length s - length s0) s @ f caps @
         (if length s1 < length s0 then replace_from n r f pre1 s1
          else (case s0 of [] \<Rightarrow> [] | c # t \<Rightarrow> c # replace_from n r f (c # pre0) t)))"

definition ReplaceAll :: "rx \<Rightarrow> ((nat \<times> string) list \<Rightarrow> string) \<Rightarrow> string \<Rightarrow> string" where
  "ReplaceAll r f s = replace_from (Suc (length s)) r f [] s"

text \<open>The captures of all successive matches (\<open>FindAllStringSubmatch\<close>).\<close>

primrec find_all_from :: "nat \<Rightarrow> rx \<Rightarrow> string \<Rightarrow> string \<Rightarrow> (nat \<times> string) list list" where
  "find_all_from 0 r pre s = []"
| "find_all_from (Suc n) r pre s =
     (case rfind r pre s of
       None \<Rightarrow> []
     | Some (pre0, s0, (pre1, s1, caps)) \<Rightarrow>
         caps # (if length s1 < length s0 then find_all_from n r pre1 s1
                 else (case s0 of [] \<Rightarrow> [] | c # t \<Rightarrow> find_all_from n r (c # pre0) t)))"

definition FindAll :: "rx \<Rightarrow> string \<Rightarrow> (nat \<times> string) list list" where
  "FindAll r s = find_all_from (Suc (length s)) r [] s"

section \<open>Pattern syntax\<close>

fun rseq :: "rx list \<Rightarrow> rx" where
  "rseq [] = REps"
| "rseq [r] = r"
| "rseq (r # rs) = RSeq r (rseq rs)"

fun ralt :: "rx list \<Rightarrow> rx" where
  "ralt [] = RCls (\<lambda>_. False)"
| "ralt [r] = r"
| "ralt (r # rs) = RAlt r (ralt rs)"

definition ropt :: "rx \<Rightarrow> rx" where
  "ropt r = RAlt r REps"

definition rplus :: "rx \<Rightarrow> rx" where
  "rplus r = RSeq r (RStar r)"

primrec rtimes :: "nat \<Rightarrow> rx \<Rightarrow> rx" where
  "rtimes 0 r = REps"
| "rtimes (Suc n) r = RSeq r (rtimes n r)"

primrec rupto :: "nat \<Rightarrow> rx \<Rightarrow> rx" where
  "rupto 0 r = REps"
| "rupto (Suc n) r = RAlt (RSeq r (rupto n r)) REps"

definition rchr :: "char \<Rightarrow> rx" where
  "rchr c = RCls (\<lambda>x. x = c)"

definition rlit :: "string \<Rightarrow> rx" where
  "rlit s = rseq (map rchr s)"

definition in_range :: "nat \<Rightarrow> nat \<Rightarrow> char \<Rightarrow> bool" where
  "in_range lo hi c = (lo \<le> byte c \<and> byte c \<le> hi)"

definition one_of :: "string \<Rightarrow> char \<Rightarrow> bool" where
  "one_of s c = (c \<in> set s)"

definition lower_c :: "char \<Rightarrow> bool" where "lower_c = in_range 97 122"
definition upper_c :: "char \<Rightarrow> bool" where "upper_c = in_range 65 90"
definition digit_c :: "char \<Rightarrow> bool" where "digit_c = in_range 48 57"

definition space_c :: "char \<Rightarrow> bool" where
  "space_c c = (byte c \<in> {9, 10, 12, 13, 32})"

definition rdigit :: rx where "rdigit = RCls digit_c"
definition rspace :: rx where "rspace = RCls space_c"
definition rnspace :: rx where "rnspace = RCls (\<lambda>c. \<not> space_c c)"
definition rword :: rx where "rword = RCls word_char"
definition rdot :: rx where "rdot = RCls (\<lambda>c. c \<noteq> CHR 0x0A)"

text \<open>
  Under \<open>(?i)\<close> a letter also matches its other case; \<open>k\<close> folds with the Kelvin sign U+212A and \<open>s\<close> with
  the long s U+017F.
\<close>

definition kelvin :: rx where "kelvin = rlit [CHR 0xE2, CHR 0x84, CHR 0xAA]"
definition long_s :: rx where "long_s = rlit [CHR 0xC5, CHR 0xBF]"

definition rchr_ci :: "char \<Rightarrow> rx" where
  "rchr_ci c =
     (let b = byte c in
      if (65 \<le> b \<and> b \<le> 90) \<or> (97 \<le> b \<and> b \<le> 122) then
        (let lo = (if b \<le> 90 then b + 32 else b); base = RCls (\<lambda>x. byte x = lo \<or> byte x = lo - 32) in
         if lo = 107 then RAlt base kelvin else if lo = 115 then RAlt base long_s else base)
      else rchr c)"

definition rlit_ci :: "string \<Rightarrow> rx" where
  "rlit_ci s = rseq (map rchr_ci s)"

definition rwords_ci :: "string list \<Rightarrow> rx" where
  "rwords_ci ws = ralt (map rlit_ci ws)"

section \<open>Matches consume from the left\<close>

text \<open>Every end state splits the text: what was consumed is a prefix of the rest.\<close>

definition advances :: "rstate \<Rightarrow> rstate \<Rightarrow> bool" where
  "advances st t = (\<exists>d. fst (snd st) = d @ fst (snd t) \<and> fst t = rev d @ fst st)"

lemma advances_refl: "advances st st"
  by (simp add: advances_def)

lemma advances_trans: "advances a b \<Longrightarrow> advances b c \<Longrightarrow> advances a c"
  unfolding advances_def by (metis append_assoc rev_append)

lemma star_ends_advances:
  assumes "\<And>s t. t \<in> set (f s) \<Longrightarrow> advances s t" and "t \<in> set (star_ends n f st)"
  shows "advances st t"
  using assms(2)
proof (induction n arbitrary: st)
  case 0
  then show ?case by (simp add: advances_refl)
next
  case (Suc n)
  then consider "t = st" | u where "u \<in> set (f st)" "t \<in> set (star_ends n f u)"
    by (auto split: if_splits)
  then show ?case
    by cases (auto intro: advances_refl advances_trans [OF assms(1)] Suc.IH)
qed

lemma ends_advances: "t \<in> set (ends r st) \<Longrightarrow> advances st t"
proof (induction r arbitrary: st t)
  case (RCls p)
  then show ?case by (auto simp: advances_def split: prod.splits list.splits if_splits)
next
  case (RSeq a b)
  then obtain u where "u \<in> set (ends a st)" "t \<in> set (ends b u)" by auto
  with RSeq.IH show ?case by (blast intro: advances_trans)
next
  case (RStar a)
  then have "t \<in> set (star_ends (rest_len st) (ends a) st)" by simp
  with RStar.IH show ?case by (rule star_ends_advances [where f = "ends a"])
next
  case (RCap n a)
  then obtain pre s caps where "(pre, s, caps) \<in> set (ends a st)" "fst t = pre" "fst (snd t) = s"
    by auto
  with RCap.IH [of "(pre, s, caps)" st] show ?case by (simp add: advances_def)
qed (auto simp: advances_refl split: if_splits)

lemma rfind_split:
  "rfind r pre s = Some (pre0, s0, (pre1, s1, caps)) \<Longrightarrow>
     \<exists>a d. s = a @ s0 \<and> s0 = d @ s1 \<and> (pre1, s1, caps) \<in> set (ends r (pre0, s0, []))"
proof (induction s arbitrary: pre)
  case Nil
  then show ?case
    using ends_advances [of "(pre1, s1, caps)" r "(pre, [], [])"]
    by (auto simp: advances_def split: list.splits)
next
  case (Cons c s)
  show ?case
  proof (cases "ends r (pre, c # s, [])")
    case Nil
    with Cons.prems have "rfind r (c # pre) s = Some (pre0, s0, (pre1, s1, caps))" by simp
    from Cons.IH [OF this] obtain a d where "s = a @ s0" "s0 = d @ s1"
      "(pre1, s1, caps) \<in> set (ends r (pre0, s0, []))" by blast
    then have "c # s = (c # a) @ s0" by simp
    with \<open>s0 = d @ s1\<close> \<open>(pre1, s1, caps) \<in> set (ends r (pre0, s0, []))\<close>
    show ?thesis by blast
  next
    case (Cons st sts)
    with Cons.prems have "pre0 = pre" "s0 = c # s" "st = (pre1, s1, caps)" by auto
    with Cons ends_advances [of st r "(pre, c # s, [])"] show ?thesis
      by (auto simp: advances_def)
  qed
qed

end
