(* ===== verification/Event.thy ===== *)
theory Event
  imports Json Regex
begin

text \<open>
  \<open>internal/event/event.go\<close> and \<open>json.go\<close>: the judgment and event types every component passes
  around, cache validity of a judgment, clipping, the redaction of secrets from text and JSON, and
  the local rules.  The line parser is in the theory \<open>Parser\<close>.
\<close>

definition MaxLine :: nat where "MaxLine = 65536"
definition MaxEvent :: nat where "MaxEvent = 16000"

section \<open>Judgments and events\<close>

record Judgment =
  CacheCreatedAt :: gotime
  CacheExpiresAt :: gotime
  CacheObservedAt :: gotime
  CacheDeadline :: gotime
  Importance :: string
  Severity :: string
  Category :: string
  ImportanceConfidence :: "f64 option"
  SeverityConfidence :: "f64 option"
  CategoryConfidence :: "f64 option"
  AnalysisError :: string

definition CacheValidAt :: "Judgment \<Rightarrow> gotime \<Rightarrow> bool" where
  "CacheValidAt j now =
     (let w = Round0 now in
      (IsZero (CacheCreatedAt j) \<or> \<not> Before w (Round0 (CacheCreatedAt j))) \<and>
      (IsZero (CacheObservedAt j) \<or> \<not> Before w (Round0 (CacheObservedAt j))) \<and>
      (IsZero (CacheExpiresAt j) \<or> Before w (Round0 (CacheExpiresAt j))) \<and>
      (IsZero (CacheDeadline j) \<or> Before now (CacheDeadline j)))"

definition Unknown :: "string \<Rightarrow> Judgment" where
  "Unknown reason = \<lparr>CacheCreatedAt = zero_time, CacheExpiresAt = zero_time,
     CacheObservedAt = zero_time, CacheDeadline = zero_time,
     Importance = ''unknown'', Severity = ''unknown'', Category = ''unknown'',
     ImportanceConfidence = None, SeverityConfidence = None, CategoryConfidence = None,
     AnalysisError = reason\<rparr>"

text \<open>A judgment literal that names only its three verdicts: every other field is zero.\<close>

definition verdict :: "string \<Rightarrow> string \<Rightarrow> string \<Rightarrow> Judgment" where
  "verdict i s c = (Unknown [])\<lparr>Importance := i, Severity := s, Category := c\<rparr>"

definition confidences :: "Judgment \<Rightarrow> f64 option list" where
  "confidences j = [ImportanceConfidence j, SeverityConfidence j, CategoryConfidence j]"

text \<open>The doubles nearest to the decimal constants of the source.\<close>

definition c_0_7 :: f64 where "c_0_7 = Fin (3152519739159347 / 4503599627370496)"
definition c_0_75 :: f64 where "c_0_75 = Fin (3 / 4)"
definition c_0_85 :: f64 where "c_0_85 = Fin (7656119366529843 / 9007199254740992)"

definition Reusable :: "Judgment \<Rightarrow> bool" where
  "Reusable j =
     (if AnalysisError j \<noteq> [] \<or> (Importance j \<noteq> ''routine'' \<and> Importance j \<noteq> ''important'')
         \<or> Category j = ''unknown'' \<or> Category j = ''security'' \<or> Category j = ''fraud''
      then False
      else list_all (\<lambda>c. case c of None \<Rightarrow> False | Some v \<Rightarrow> f64_in c_0_7 (Fin 1) v) (confidences j))"

record baseline =
  Important :: bool
  Signals :: "string list"

record assessment =
  as_Dispatched :: bool
  as_TemplateID :: string
  as_VersionID :: string
  as_WindowOccurrences :: nat
  as_SampleCount :: nat
  as_EvidenceLimited :: bool
  as_SamplesLimited :: bool
  as_Reason :: string

record occurrences =
  occ_Count :: nat
  occ_First :: "string option"
  occ_Last :: "string option"

record event =
  ev_Review :: "json option"
  ev_OriginalJudgment :: "Judgment option"
  ev_SearchOccurrences :: "occurrences option"
  ev_ID :: string
  ev_Source :: source
  ev_Timestamp :: "string option"
  ev_Text :: string
  ev_LineStart :: nat
  ev_LineEnd :: nat
  ev_LineCount :: nat
  ev_Truncated :: bool
  ev_Sensitive :: bool
  ev_ParseUncertain :: bool
  ev_GroupID :: string
  ev_Judgment :: Judgment
  ev_Baseline :: baseline
  ev_AnalysisReused :: bool
  ev_Assessment :: "assessment option"
  ev_RepresentativeID :: string

definition empty_event :: event where
  "empty_event = \<lparr>ev_Review = None, ev_OriginalJudgment = None, ev_SearchOccurrences = None, ev_ID = [],
     ev_Source = [], ev_Timestamp = None, ev_Text = [], ev_LineStart = 0, ev_LineEnd = 0, ev_LineCount = 0,
     ev_Truncated = False, ev_Sensitive = False, ev_ParseUncertain = False, ev_GroupID = [],
     ev_Judgment = verdict [] [] [], ev_Baseline = \<lparr>Important = False, Signals = []\<rparr>,
     ev_AnalysisReused = False, ev_Assessment = None, ev_RepresentativeID = []\<rparr>"

section \<open>Clipping\<close>

fun clip_back :: "string \<Rightarrow> nat \<Rightarrow> nat" where
  "clip_back s 0 = 0"
| "clip_back s (Suc n) = (if RuneStart (s ! Suc n) then Suc n else clip_back s n)"

definition Clip :: "string \<Rightarrow> nat \<Rightarrow> string" where
  "Clip s n = (if length s \<le> n then s else take (clip_back s n) s)"

lemma clip_back_le: "clip_back s n \<le> n"
  by (induction n) auto

lemma length_Clip: "length (Clip s n) \<le> n"
  using clip_back_le [of s n] by (auto simp: Clip_def)

lemma Clip_prefix: "\<exists>t. s = Clip s n @ t"
  by (metis Clip_def append.right_neutral append_take_drop_id)

section \<open>The patterns\<close>

definition ansi :: rx where
  "ansi = RSeq (rchr (CHR 0x1B)) (ralt
     [rseq [rchr (CHR ''[''), RStar (RCls (in_range 48 63)), RStar (RCls (in_range 32 47)), RCls (in_range 64 126)],
      rseq [rchr (CHR '']''), RStar (RCls (\<lambda>c. c \<noteq> CHR 0x07 \<and> c \<noteq> CHR 0x1B)),
            RAlt (rchr (CHR 0x07)) (rlit [CHR 0x1B, CHR 0x5C])]])"

definition stamp :: rx where
  "stamp = rseq [RBegin, rtimes 4 rdigit, rchr (CHR ''-''), rtimes 2 rdigit, rchr (CHR ''-''), rtimes 2 rdigit,
     RCls (one_of ''T ''), rplus (RCls (\<lambda>c. digit_c c \<or> one_of '':.'' c)),
     ropt (RAlt (rchr (CHR ''Z'')) (rseq [RCls (one_of ''+-''), rtimes 2 rdigit, rchr (CHR '':''), rtimes 2 rdigit])),
     RCls (\<lambda>c. c = CHR '' '' \<or> c = CHR 0x09)]"

text \<open>\<open>[\w.]+(?:Error|Exception):\<close>\<close>

definition exc_name :: rx where
  "exc_name = rseq [rplus (RCls (\<lambda>c. word_char c \<or> c = CHR ''.'')),
     RAlt (rlit ''Error'') (rlit ''Exception''), rchr (CHR '':'')]"

definition dots_more :: rx where
  "dots_more = rseq [rlit ''... '', rplus rdigit, rlit '' more'']"

definition continuation :: rx where
  "continuation = RSeq RBegin (ralt
     [RSeq (rplus rspace) rnspace, rlit ''Caused by:'', rlit ''Suppressed:'', rlit ''Traceback '',
      exc_name, RSeq (RStar rspace) dots_more])"

definition stackContinuation :: rx where
  "stackContinuation = rseq [RBegin, RStar rspace, ralt
     [rseq [rlit ''at'', rplus rspace, rnspace], RSeq (rlit ''File '') (RCls (one_of [CHR 0x22, CHR 0x27])),
      rlit ''Caused by:'', rlit ''Suppressed:'', rlit ''Traceback '', exc_name, dots_more]]"

definition pythonFrame :: rx where
  "pythonFrame = rseq [RBegin, RStar rspace, rlit ''File '', RCls (one_of [CHR 0x22, CHR 0x27]), rplus rdot,
     RCls (one_of [CHR 0x22, CHR 0x27]), rlit '', line '', rplus rdigit,
     ropt (RSeq (rlit '', in '') (rplus rdot)), REnd]"

definition stackCaret :: rx where
  "stackCaret = rseq [RBegin, rplus rspace, rplus (RCls (one_of ''~^'')), RStar (RCls (one_of ''~^ '')), REnd]"

definition dotnetDetail :: rx where
  "dotnetDetail = rseq [RBegin, rplus rspace, rlit ''--- End of '',
     RAlt (rlit ''inner exception stack trace'') (rlit ''stack trace from previous location''),
     rlit '' ---'', REnd]"

definition normalLog :: rx where
  "normalLog = rseq [RBegin, RStar rspace, rwords_ci [''TRACE'', ''DEBUG'', ''INFO'', ''NOTICE'', ''WARN'',
     ''WARNING'', ''ERROR'', ''FATAL'', ''CRITICAL''], RWordB]"

definition goHeader :: rx where
  "goHeader = rseq [RBegin, rlit ''goroutine '', rplus rdigit, rlit '' ['', rplus rdot, rlit '']:'', REnd]"

definition goFrame :: rx where
  "goFrame = rseq [RBegin, ralt
     [rseq [rplus (RCls (\<lambda>c. word_char c \<or> one_of ''./-'' c)), rchr (CHR ''.''),
        ropt (rseq [rchr (CHR ''(''), rplus (RCls (\<lambda>c. c \<noteq> CHR '' '' \<and> c \<noteq> CHR '')'')), rlit '').'']),
        rplus (RCls (\<lambda>c. word_char c \<or> one_of ''.$'' c)), rchr (CHR ''(''), RStar rdot, rchr (CHR '')'')],
      rseq [rplus rspace, rplus rnspace, rlit ''.go:'', rplus rdigit,
        ropt (RSeq (rlit '' +0x'') (rplus (RCls (\<lambda>c. digit_c c \<or> in_range 97 102 c))))],
      rseq [rlit ''created by '', rplus rnspace, rlit '' in goroutine '', rplus rdigit]], REnd]"

definition dash_us :: rx where
  "dash_us = ropt (RCls (one_of ''-_''))"

definition field :: rx where
  "field = ralt [rlit_ci ''password'', rlit_ci ''passwd'', rlit_ci ''secret'', rlit_ci ''token'',
     rlit_ci ''authorization'', rlit_ci ''cookie'', rseq [rlit_ci ''api'', dash_us, rlit_ci ''key''],
     rseq [rlit_ci ''access'', dash_us, rlit_ci ''key''], rseq [rlit_ci ''private'', dash_us, rlit_ci ''key''],
     rlit_ci ''credential'']"

definition quote_opt :: rx where
  "quote_opt = ropt (RCls (one_of [CHR 0x22, CHR 0x27]))"

definition quoted_by :: "char \<Rightarrow> rx" where
  "quoted_by q = rseq [rchr q, RStar (RAlt (RSeq (rchr (CHR 0x5C)) rdot)
     (RCls (\<lambda>c. c \<noteq> q \<and> c \<noteq> CHR 0x5C \<and> c \<noteq> CHR 0x0A))), rchr q]"

definition secret :: rx where
  "secret = RSeq (RCap 1 (rseq [quote_opt, ralt
       [rlit_ci ''password'', rlit_ci ''passwd'', rlit_ci ''secret'',
        RSeq (ropt (RAlt (rlit_ci ''access_'') (rlit_ci ''refresh_''))) (rlit_ci ''token''),
        rseq [rlit_ci ''api'', dash_us, rlit_ci ''key''],
        rseq [rlit_ci ''access'', dash_us, rlit_ci ''key'', ropt (RSeq dash_us (rlit_ci ''id''))],
        rseq [rlit_ci ''private'', dash_us, rlit_ci ''key''],
        rlit_ci ''authorization'', rlit_ci ''cookie'', RSeq (rlit_ci ''credential'') (ropt (rchr_ci (CHR ''s'')))],
       quote_opt, RStar rspace, RCls (one_of '':=''), RStar rspace]))
     (RCap 2 (ralt [quoted_by (CHR 0x22), quoted_by (CHR 0x27),
        rplus (RCls (\<lambda>c. \<not> space_c c \<and> c \<noteq> CHR '','' \<and> c \<noteq> CHR '';''))]))"

definition auth :: rx where
  "auth = rseq [RWordB, RCap 1 (RAlt (rlit_ci ''Bearer'') (rlit_ci ''Basic'')), rplus rspace,
     rplus (ralt [RCls (\<lambda>c. lower_c c \<or> upper_c c \<or> digit_c c \<or> one_of ''._~+/=-'' c), kelvin, long_s])]"

definition urlAuth :: rx where
  "urlAuth = rseq [RCap 1 (rseq [RWordB, RCls (\<lambda>c. lower_c c \<or> upper_c c),
       rupto 31 (RCls (\<lambda>c. lower_c c \<or> upper_c c \<or> digit_c c \<or> one_of ''+.-'' c)), rlit ''://'']),
     rplus (RCls (\<lambda>c. \<not> space_c c \<and> \<not> one_of ''/@:'' c)), rchr (CHR '':''),
     rplus (RCls (\<lambda>c. \<not> space_c c \<and> \<not> one_of ''/@'' c)), rchr (CHR ''@'')]"

definition jwt_part :: rx where
  "jwt_part = rplus (RCls (\<lambda>c. lower_c c \<or> upper_c c \<or> digit_c c \<or> one_of ''_-'' c))"

definition jwt :: rx where
  "jwt = rseq [RWordB, rlit ''eyJ'', jwt_part, rchr (CHR ''.''), jwt_part, rchr (CHR ''.''), jwt_part, RWordB]"

definition pem :: rx where
  "pem = rseq [rlit ''-----'', RCap 1 (RAlt (rlit ''BEGIN'') (rlit ''END'')), rchr (CHR '' ''),
     RStar (RSeq (rplus (RCls (\<lambda>c. upper_c c \<or> digit_c c))) (rchr (CHR '' ''))), rlit ''PRIVATE KEY-----'']"

definition risky :: rx where
  "risky = rseq [RWordB, rwords_ci [''error'', ''fatal'', ''panic'', ''exception'', ''critical'', ''oomkilled'',
     ''out of memory'', ''crashloopbackoff''], RWordB]"

definition warn :: rx where
  "warn = rseq [RWordB, rwords_ci [''warn'', ''warning''], RWordB]"

definition http5 :: rx where
  "http5 = rseq [RAlt
       (RSeq (rlit_ci ''status'') (rplus (RCls (\<lambda>c. c = CHR 0x22 \<or> space_c c \<or> one_of '':='' c))))
       (rseq [rlit_ci ''HTTP/'', rdigit, ropt (RSeq (rchr (CHR ''.'')) rdigit),
              rplus (RCls (\<lambda>c. c = CHR 0x22 \<or> space_c c))]),
     rchr (CHR ''5''), rdigit, rdigit, RWordB]"

definition security :: rx where
  "security = rwords_ci [''auth'', ''credential'', ''password'', ''permission'', ''privilege'', ''security'',
     ''fraud'', ''attack'', ''denied'', ''forbidden'', ''token'', ''secret'', ''payment'', ''role'']"

definition SecurityShaped :: "string \<Rightarrow> bool" where
  "SecurityShaped s = MatchString security s"

section \<open>Redaction\<close>

definition Console :: "string \<Rightarrow> string" where
  "Console s = concat (map (\<lambda>(r, b, v). if IsControl r then '' '' else if v then b else replacement)
     (rune_chunks (ReplaceAll ansi (\<lambda>_. []) s)))"

definition scrub :: "string \<Rightarrow> string" where
  "scrub s0 =
     (let s1 = ReplaceAll auth (\<lambda>c. cap c 1 @ '' [REDACTED]'') s0;
          s2 = ReplaceAll urlAuth (\<lambda>c. cap c 1 @ ''[REDACTED]@'') s1;
          s3 = ReplaceAll jwt (\<lambda>_. ''[REDACTED]'') s2
      in ReplaceAll secret (\<lambda>c. cap c 1 @ [CHR 0x22] @ ''[REDACTED]'' @ [CHR 0x22]) s3)"

fun clean :: "json \<Rightarrow> json" where
  "clean (JObj kvs) = JObj (map (\<lambda>(k, v).
     if MatchString field k then (k, JStr ''[REDACTED]'') else (k, clean v)) kvs)"
| "clean (JArr vs) = JArr (map clean vs)"
| "clean (JStr s) = JStr (scrub s)"
| "clean v = v"

text \<open>
  \<open>redactJSON\<close> walks the tokens of a document \<open>json.Valid\<close> accepts, so it is a recursion on the
  document: the text as read, the text with secrets replaced, and whether some object repeats a
  key.  \<open>None\<close> is the nesting error.
\<close>

definition redacted_json :: string where
  "redacted_json = [CHR 0x22] @ ''[REDACTED]'' @ [CHR 0x22]"

fun redactJSON :: "nat \<Rightarrow> json \<Rightarrow> (string \<times> string \<times> bool) option" where
  "redactJSON depth (JArr vs) =
     (if 128 < depth then None
      else case those (map (redactJSON (Suc depth)) vs) of
        None \<Rightarrow> None
      | Some rs \<Rightarrow>
          Some (''['' @ Join (map fst rs) '','' @ '']'', ''['' @ Join (map (fst \<circ> snd) rs) '','' @ '']'',
                list_ex (snd \<circ> snd) rs))"
| "redactJSON depth (JObj kvs) =
     (if 128 < depth then None
      else case those (map (\<lambda>(k, v). redactJSON (Suc depth) v) kvs) of
        None \<Rightarrow> None
      | Some rs \<Rightarrow>
          (let ks = map fst kvs;
               raws = map2 (\<lambda>k (r, s, d). quote k @ '':'' @ r) ks rs;
               safes = map2 (\<lambda>k (r, s, d). quote k @ '':'' @ (if MatchString field k then redacted_json else s)) ks rs
           in Some (CHR 0x7B # Join raws '','' @ [CHR 0x7D], CHR 0x7B # Join safes '','' @ [CHR 0x7D],
                    \<not> distinct ks \<or> list_ex (snd \<circ> snd) rs)))"
| "redactJSON depth v =
     (if 128 < depth then None
      else Some (marshal v, marshal (case v of JStr s \<Rightarrow> JStr (scrub s) | _ \<Rightarrow> v), False))"

text \<open>
  The redacted text, whether anything changed, and whether the framing is ambiguous (duplicate keys
  or nesting beyond the limit).  A document that is not valid JSON cannot be decoded whole, so it is
  scrubbed as text.
\<close>

definition redact :: "string \<Rightarrow> string \<times> bool \<times> bool" where
  "redact s0 =
     (let s = ReplaceAll ansi (\<lambda>_. []) s0 in
      case json_parse s of
        None \<Rightarrow> (let t = scrub s in (t, t \<noteq> s, False))
      | Some v \<Rightarrow>
         (case redactJSON 0 v of
            None \<Rightarrow> (''[REDACTED JSON: nesting limit]'', True, True)
          | Some (raw, safe, duplicate) \<Rightarrow>
             if duplicate then (safe, raw \<noteq> safe, True)
             else (let d = decode_any v; a = marshal d; b = marshal (clean d) in (b, a \<noteq> b, False))))"

definition Redact :: "string \<Rightarrow> string \<times> bool" where
  "Redact s = (case redact s of (safe, changed, _) \<Rightarrow> (safe, changed))"

definition SafeSource :: "std \<Rightarrow> source \<Rightarrow> source" where
  "SafeSource S s = (case clean (renumber S (JObj s)) of JObj kvs \<Rightarrow> kvs | _ \<Rightarrow> [])"

section \<open>Local rules\<close>

definition Rules :: "string \<Rightarrow> baseline" where
  "Rules s =
     (let signals = map fst (filter (\<lambda>(name, rx). MatchString rx s)
            [(''error_or_failure_keyword'', risky), (''http_5xx'', http5), (''warning_level'', warn)])
      in \<lparr>Important = 0 < length signals, Signals = signals\<rparr>)"

definition Offline :: "event \<Rightarrow> Judgment" where
  "Offline e =
     (if Important (ev_Baseline e) then verdict ''important'' ''degraded'' ''unknown''
      else verdict ''uncertain'' ''info'' ''unknown'')"

end
