(* ===== verification/Schema.thy ===== *)
theory Schema
  imports Event
begin

text \<open>
  \<open>internal/provider/schema.go\<close>: strict decoding of typed provider answers.  \<open>Strict\<close> is stated on the
  parsed document: no repeated key, at most 32 levels, nothing after the value; the decode into the
  target that follows it in the code is the second argument.
\<close>

fun unique :: "nat \<Rightarrow> json \<Rightarrow> bool" where
  "unique depth (JArr vs) = (depth \<le> 32 \<and> list_all (unique (Suc depth)) vs)"
| "unique depth (JObj kvs) =
     (depth \<le> 32 \<and> distinct (map fst kvs) \<and> list_all (\<lambda>(k, v). unique (Suc depth) v) kvs)"
| "unique depth v = (depth \<le> 32)"

definition StrictJson :: "(json \<Rightarrow> 'a option) \<Rightarrow> json \<Rightarrow> 'a result" where
  "StrictJson decode v =
     (if unique 0 v then (case decode v of None \<Rightarrow> Inl ErrSchema | Some a \<Rightarrow> Inr a) else Inl ErrSchema)"

definition Strict :: "(json \<Rightarrow> 'a option) \<Rightarrow> string \<Rightarrow> 'a result" where
  "Strict decode raw = (case json_parse raw of None \<Rightarrow> Inl ErrSchema | Some v \<Rightarrow> StrictJson decode v)"

section \<open>Decoding into Go types\<close>

text \<open>Struct fields match a member name exactly or up to case (\<open>k\<close> and \<open>s\<close> also match U+212A and U+017F).\<close>

definition fold_name :: "string \<Rightarrow> string" where
  "fold_name s = concat (map (\<lambda>(r, b, v).
     if 97 \<le> r \<and> r \<le> 122 then [char_of (r - 32)]
     else if r = 8490 then ''K'' else if r = 383 then ''S'' else b) (rune_chunks s))"

definition is_field :: "string \<Rightarrow> string \<Rightarrow> bool" where
  "is_field name k = (fold_name k = fold_name name)"

definition dec_string :: "string \<Rightarrow> json \<Rightarrow> string option" where
  "dec_string old v = (case v of JStr s \<Rightarrow> Some s | JNull \<Rightarrow> Some old | _ \<Rightarrow> None)"

definition dec_float_ptr :: "std \<Rightarrow> json \<Rightarrow> f64 option option" where
  "dec_float_ptr S v =
     (case v of JNull \<Rightarrow> Some None | JNum l \<Rightarrow> map_option Some (parse_f64 S l) | _ \<Rightarrow> None)"

definition literal_nat :: "string \<Rightarrow> nat option" where
  "literal_nat l = (if l \<noteq> [] \<and> list_all is_digit l
     then Some (foldl (\<lambda>n c. 10 * n + (byte c - 48)) 0 l) else None)"

definition literal_int :: "string \<Rightarrow> int option" where
  "literal_int l = (case l of
     c # r \<Rightarrow> if c = CHR ''-'' then map_option (\<lambda>n. - int n) (literal_nat r) else map_option int (literal_nat l)
   | [] \<Rightarrow> None)"

text \<open>A 64-bit signed integer; a literal outside the range is a decode error.\<close>

definition dec_int :: "int \<Rightarrow> json \<Rightarrow> int option" where
  "dec_int old v = (case v of
     JNull \<Rightarrow> Some old
   | JNum l \<Rightarrow> (case literal_int l of
        Some i \<Rightarrow> if - (2 ^ 63) \<le> i \<and> i < 2 ^ 63 then Some i else None | None \<Rightarrow> None)
   | _ \<Rightarrow> None)"

definition dec_uint :: "json \<Rightarrow> nat option" where
  "dec_uint v = (case v of
     JNull \<Rightarrow> Some 0
   | JNum l \<Rightarrow> (case literal_nat l of Some n \<Rightarrow> if n < 2 ^ 64 then Some n else None | None \<Rightarrow> None)
   | _ \<Rightarrow> None)"

text \<open>The members of an object folded into a struct; \<open>None\<close> once a member does not decode.\<close>

definition dec_struct :: "('a \<Rightarrow> string \<Rightarrow> json \<Rightarrow> 'a option) \<Rightarrow> 'a \<Rightarrow> json \<Rightarrow> 'a option" where
  "dec_struct f z v = (case v of
     JObj kvs \<Rightarrow> foldl (\<lambda>acc (k, x). case acc of None \<Rightarrow> None | Some a \<Rightarrow> f a k x) (Some z) kvs
   | JNull \<Rightarrow> Some z
   | _ \<Rightarrow> None)"

definition dec_list :: "(json \<Rightarrow> 'a option) \<Rightarrow> json \<Rightarrow> 'a list option" where
  "dec_list f v = (case v of JArr vs \<Rightarrow> those (map f vs) | JNull \<Rightarrow> Some [] | _ \<Rightarrow> None)"

text \<open>\<open>map[string]T\<close>: a nil map is the empty map.\<close>

definition dec_map :: "(json \<Rightarrow> 'a option) \<Rightarrow> json \<Rightarrow> (string, 'a) gomap option" where
  "dec_map f v = (case v of
     JObj kvs \<Rightarrow> foldl (\<lambda>acc (k, x). case acc of None \<Rightarrow> None
        | Some m \<Rightarrow> (case f x of None \<Rightarrow> None | Some a \<Rightarrow> Some (mput k a m))) (Some []) kvs
   | JNull \<Rightarrow> Some []
   | _ \<Rightarrow> None)"

text \<open>The six fields of a judgment on the wire; \<open>analysis_error\<close> belongs to the stored form only.\<close>

definition judgment_member :: "std \<Rightarrow> bool \<Rightarrow> Judgment \<Rightarrow> string \<Rightarrow> json \<Rightarrow> Judgment option" where
  "judgment_member S stored j k v =
     (if is_field ''importance'' k then map_option (\<lambda>s. j\<lparr>Importance := s\<rparr>) (dec_string (Importance j) v)
      else if is_field ''severity'' k then map_option (\<lambda>s. j\<lparr>Severity := s\<rparr>) (dec_string (Severity j) v)
      else if is_field ''category'' k then map_option (\<lambda>s. j\<lparr>Category := s\<rparr>) (dec_string (Category j) v)
      else if is_field ''importance_confidence'' k
        then map_option (\<lambda>c. j\<lparr>ImportanceConfidence := c\<rparr>) (dec_float_ptr S v)
      else if is_field ''severity_confidence'' k
        then map_option (\<lambda>c. j\<lparr>SeverityConfidence := c\<rparr>) (dec_float_ptr S v)
      else if is_field ''category_confidence'' k
        then map_option (\<lambda>c. j\<lparr>CategoryConfidence := c\<rparr>) (dec_float_ptr S v)
      else if stored \<and> is_field ''analysis_error'' k
        then map_option (\<lambda>s. j\<lparr>AnalysisError := s\<rparr>) (dec_string (AnalysisError j) v)
      else None)"

definition wireJudgment :: "std \<Rightarrow> json \<Rightarrow> Judgment option" where
  "wireJudgment S v = dec_struct (judgment_member S False) (verdict [] [] []) v"

definition stored_judgment :: "std \<Rightarrow> json \<Rightarrow> Judgment option" where
  "stored_judgment S v = dec_struct (judgment_member S True) (verdict [] [] []) v"

text \<open>\<open>json.Marshal\<close> of a judgment: fields in order, \<open>omitempty\<close> pointers and error left out.\<close>

definition opt_member :: "string \<Rightarrow> string option \<Rightarrow> string list" where
  "opt_member k t = (case t of None \<Rightarrow> [] | Some x \<Rightarrow> [quote k @ '':'' @ x])"

definition judgment_text :: "std \<Rightarrow> Judgment \<Rightarrow> string" where
  "judgment_text S j = CHR 0x7B # Join
     ([quote ''importance'' @ '':'' @ quote (Importance j), quote ''severity'' @ '':'' @ quote (Severity j),
       quote ''category'' @ '':'' @ quote (Category j)]
      @ opt_member ''importance_confidence'' (map_option (fmt_f64 S) (ImportanceConfidence j))
      @ opt_member ''severity_confidence'' (map_option (fmt_f64 S) (SeverityConfidence j))
      @ opt_member ''category_confidence'' (map_option (fmt_f64 S) (CategoryConfidence j))
      @ opt_member ''analysis_error'' (if AnalysisError j = [] then None else Some (quote (AnalysisError j)))) '','' @ [CHR 0x7D]"

section \<open>Valid judgments\<close>

definition member :: "string \<Rightarrow> string list \<Rightarrow> bool" where
  "member s choices = list_ex (\<lambda>v. v = s) choices"

definition in_unit :: "f64 option \<Rightarrow> bool" where
  "in_unit c = (case c of None \<Rightarrow> False | Some v \<Rightarrow> f64_in (Fin 0) (Fin 1) v)"

definition importances :: "string list" where
  "importances = [''important'', ''routine'', ''uncertain'']"

definition severities :: "string list" where
  "severities = [''noise'', ''info'', ''degraded'', ''impact'', ''outage'']"

definition categories :: "string list" where
  "categories = [''deploy'', ''capacity'', ''dependency'', ''security'', ''fraud'', ''data'', ''config'',
     ''transient'', ''routine'', ''unknown'']"

definition Validate :: "Judgment \<Rightarrow> status" where
  "Validate j =
     (if \<not> member (Importance j) importances \<or> \<not> member (Severity j) severities
         \<or> \<not> member (Category j) categories \<or> AnalysisError j \<noteq> []
      then Some ErrSchema
      else if list_all in_unit (confidences j) then None else Some ErrSchema)"

text \<open>Every element passes or the whole decode fails.\<close>

definition all_valid :: "Judgment list \<Rightarrow> Judgment list result" where
  "all_valid js = (if list_all (\<lambda>j. Validate j = None) js then Inr js else Inl ErrSchema)"

definition judgments_member :: "std \<Rightarrow> Judgment list \<Rightarrow> string \<Rightarrow> json \<Rightarrow> Judgment list option" where
  "judgments_member S ws k v = (if is_field ''judgments'' k then dec_list (wireJudgment S) v else None)"

definition decodeTyped :: "std \<Rightarrow> string \<Rightarrow> nat \<Rightarrow> Judgment list result" where
  "decodeTyped S raw count =
     (case Strict (dec_struct (judgments_member S) []) raw of
       Inl e \<Rightarrow> Inl ErrSchema
     | Inr js \<Rightarrow> if length js \<noteq> count then Inl ErrSchema else all_valid js)"

definition Required :: "string \<Rightarrow> string list \<Rightarrow> bool" where
  "Required raw keys =
     (case Strict (dec_map Some) raw of
       Inl e \<Rightarrow> False
     | Inr m \<Rightarrow> list_all (\<lambda>k. case mget m k of None \<Rightarrow> False | Some v \<Rightarrow> v \<noteq> JNull) keys)"

lemma member_iff: "member s cs \<longleftrightarrow> s \<in> set cs"
  by (auto simp: member_def list_ex_iff)

lemma Validate_None_iff:
  "Validate j = None \<longleftrightarrow> Importance j \<in> set importances \<and> Severity j \<in> set severities
     \<and> Category j \<in> set categories \<and> AnalysisError j = [] \<and> list_all in_unit (confidences j)"
  by (auto simp: Validate_def member_iff)

lemma all_valid_Inr: "all_valid js = Inr ws \<Longrightarrow> ws = js \<and> (\<forall>j \<in> set ws. Validate j = None)"
  by (auto simp: all_valid_def list_all_iff split: if_splits)

lemma decodeTyped_valid:
  "decodeTyped S raw n = Inr js \<Longrightarrow> length js = n \<and> (\<forall>j \<in> set js. Validate j = None)"
  by (auto simp: decodeTyped_def split: sum.splits if_splits dest: all_valid_Inr)

lemma unique_json_wf: "unique d v \<Longrightarrow> json_wf v"
  by (induction d v rule: unique.induct) (auto simp: list_all_iff)

text \<open>What a document that passes \<open>Strict\<close> looks like: no duplicate keys anywhere, at most 32 levels.\<close>

fun json_depth :: "json \<Rightarrow> nat" where
  "json_depth (JArr vs) = Suc (foldr max (map json_depth vs) 0)"
| "json_depth (JObj kvs) = Suc (foldr max (map (\<lambda>(k, v). json_depth v) kvs) 0)"
| "json_depth v = 0"

lemma foldr_max_le: "foldr max xs (0::nat) \<le> n \<longleftrightarrow> (\<forall>x \<in> set xs. x \<le> n)"
  by (induction xs) auto

lemma unique_depth: "unique d v \<Longrightarrow> d + json_depth v \<le> 33"
proof (induction d v rule: unique.induct)
  case (1 depth vs)
  then have "\<forall>v \<in> set vs. depth + json_depth v \<le> 32" by (force simp: list_all_iff)
  then have "foldr max (map json_depth vs) 0 \<le> 32 - depth" by (auto simp: foldr_max_le)
  with 1 show ?case by auto
next
  case (2 depth kvs)
  then have "\<forall>(k, v) \<in> set kvs. depth + json_depth v \<le> 32" by (force simp: list_all_iff)
  then have "foldr max (map (\<lambda>(k, v). json_depth v) kvs) 0 \<le> 32 - depth" by (force simp: foldr_max_le)
  with 2 show ?case by auto
qed auto

end
