(* ===== verification/Policy.thy ===== *)
theory Policy
  imports Schema
begin

text \<open>
  \<open>internal/controller/policy.go\<close>: which analysed events notify, which ask for a review, and when a
  policy is accepted at all.  A policy reaches the store only after \<open>Policy_Validate\<close>.
\<close>

record policy =
  p_Categories :: "string list"
  p_Severities :: "string list"
  MinConfidence :: f64
  Cooldown :: int
  Window :: int
  Recurrence :: nat
  MaxEscalation :: nat
  Abstention :: string

definition DefaultPolicy :: policy where
  "DefaultPolicy = \<lparr>p_Categories = [''security'', ''fraud''],
     p_Severities = [''degraded'', ''impact'', ''outage''], MinConfidence = c_0_85, Cooldown = 300,
     Window = 900, Recurrence = 5, MaxEscalation = 8, Abstention = ''review''\<rparr>"

definition contains :: "string list \<Rightarrow> string \<Rightarrow> bool" where
  "contains a s = list_ex (\<lambda>v. v = s) a"

definition policy_categories :: "string list" where
  "policy_categories = [''deploy'', ''capacity'', ''dependency'', ''security'', ''fraud'', ''data'',
     ''config'', ''transient'', ''routine'']"

definition policy_severities :: "string list" where
  "policy_severities = [''noise'', ''info'', ''degraded'', ''impact'', ''outage'']"

definition Policy_Validate :: "policy \<Rightarrow> status" where
  "Policy_Validate p =
     (if length (p_Categories p) = 0 \<or> 9 < length (p_Categories p) \<or> length (p_Severities p) = 0
         \<or> 5 < length (p_Severities p) \<or> \<not> f64_in (Fin 0) (Fin 1) (MinConfidence p)
         \<or> Cooldown p < 1 \<or> 86400 < Cooldown p \<or> Window p < 1 \<or> 604800 < Window p
         \<or> Recurrence p < 2 \<or> 100000 < Recurrence p \<or> MaxEscalation p < 1 \<or> 32 < MaxEscalation p
         \<or> \<not> contains [''record'', ''review''] (Abstention p)
      then Some (Err ''invalid controller policy'')
      else if \<not> list_all (contains policy_categories) (p_Categories p)
        then Some (Err ''invalid policy category'')
      else if \<not> list_all (contains policy_severities) (p_Severities p)
        then Some (Err ''invalid policy severity'')
      else None)"

definition confident :: "policy \<Rightarrow> f64 option \<Rightarrow> bool" where
  "confident p c = (case c of None \<Rightarrow> False | Some v \<Rightarrow> f64_in (MinConfidence p) (Fin 1) v)"

definition Decide :: "policy \<Rightarrow> event \<Rightarrow> string" where
  "Decide p e =
     (let review = (if Abstention p = ''review'' then ''review'' else ''abstain''); j = ev_Judgment e in
      if ev_ParseUncertain e \<or> ev_Truncated e \<or> ev_Sensitive e \<or> AnalysisError j \<noteq> []
         \<or> Importance j = ''unknown'' \<or> Importance j = ''uncertain'' then review
      else if \<not> list_all (confident p) (confidences j) then review
      else if Importance j = ''important''
         \<and> (contains (p_Categories p) (Category j) \<or> contains (p_Severities p) (Severity j)) then ''notify''
      else ''ignore'')"

lemma contains_iff [simp]: "contains a s \<longleftrightarrow> s \<in> set a"
  by (auto simp: contains_def list_ex_iff)

lemma Decide_range: "Decide p e \<in> {''notify'', ''review'', ''abstain'', ''ignore''}"
  by (simp add: Decide_def Let_def)

text \<open>Evidence the policy may act on: complete, analysed, and confident in all three verdicts.\<close>

definition complete_evidence :: "policy \<Rightarrow> event \<Rightarrow> bool" where
  "complete_evidence p e =
     (\<not> ev_ParseUncertain e \<and> \<not> ev_Truncated e \<and> \<not> ev_Sensitive e \<and> AnalysisError (ev_Judgment e) = []
      \<and> Importance (ev_Judgment e) \<noteq> ''unknown'' \<and> Importance (ev_Judgment e) \<noteq> ''uncertain''
      \<and> (\<forall>c \<in> set (confidences (ev_Judgment e)). \<exists>q. c = Some (Fin q) \<and> f64_le (MinConfidence p) (Fin q) \<and> q \<le> 1))"

lemma confident_iff:
  "MinConfidence p = Fin m \<Longrightarrow> confident p c \<longleftrightarrow> (\<exists>q. c = Some (Fin q) \<and> f64_le (MinConfidence p) (Fin q) \<and> q \<le> 1)"
proof -
  assume "MinConfidence p = Fin m"
  then show ?thesis
    by (cases c) (auto simp: confident_def f64_in_def elim: f64_le.elims)
qed

lemma Policy_Validate_confidence:
  "Policy_Validate p = None \<Longrightarrow> \<exists>m. MinConfidence p = Fin m \<and> 0 \<le> m \<and> m \<le> 1"
  using f64_in_unit_Fin by (auto simp: Policy_Validate_def split: if_splits)

lemma Policy_Validate_bounds:
  "Policy_Validate p = None \<Longrightarrow> 2 \<le> Recurrence p \<and> 1 \<le> MaxEscalation p \<and> 1 \<le> Cooldown p \<and> 1 \<le> Window p"
  by (auto simp: Policy_Validate_def split: if_splits)

lemma Decide_cases:
  assumes "Policy_Validate p = None"
  shows "Decide p e = ''notify'' \<longleftrightarrow> complete_evidence p e \<and> Importance (ev_Judgment e) = ''important''
      \<and> (Category (ev_Judgment e) \<in> set (p_Categories p) \<or> Severity (ev_Judgment e) \<in> set (p_Severities p))"
    and "Decide p e \<in> {''review'', ''abstain''} \<longleftrightarrow> \<not> complete_evidence p e"
proof -
  obtain m where "MinConfidence p = Fin m" using Policy_Validate_confidence [OF assms] by blast
  note c = confident_iff [OF this]
  show "Decide p e = ''notify'' \<longleftrightarrow> complete_evidence p e \<and> Importance (ev_Judgment e) = ''important''
      \<and> (Category (ev_Judgment e) \<in> set (p_Categories p) \<or> Severity (ev_Judgment e) \<in> set (p_Severities p))"
    by (auto simp: Decide_def Let_def complete_evidence_def list_all_iff c)
  show "Decide p e \<in> {''review'', ''abstain''} \<longleftrightarrow> \<not> complete_evidence p e"
    by (auto simp: Decide_def Let_def complete_evidence_def list_all_iff c)
qed

end
