(* ===== verification/Samples.thy ===== *)
theory Samples
  imports Event "HOL-Library.Code_Target_Nat"
begin

text \<open>
  Concrete inputs for the witnesses: a \<open>std\<close> whose digest is a toy hash of the right shape, and one
  event.  Nothing else in the development depends on these values.
\<close>

definition sample_digest :: "string \<Rightarrow> string" where
  "sample_digest s =
     (let n = foldl (\<lambda>a c. (a * 31 + byte c) mod 4294967291) 7 s in
      map (\<lambda>i. hexdigit ((n div 16 ^ i) mod 16)) [0..<64])"

definition sample_std :: std where
  "sample_std = \<lparr>sha256hex = sample_digest, renum = (\<lambda>s. s),
     fmt_f64 = (\<lambda>v. case v of Fin q \<Rightarrow> if q = 0 then ''0'' else if q = 1 then ''1'' else ''0.9'' | _ \<Rightarrow> ''0''),
     parse_f64 = (\<lambda>s. if s = ''0'' then Some (Fin 0) else if s = ''1'' then Some (Fin 1) else Some (Fin (9 / 10))),
     lower_rune = (\<lambda>r. r), parse_time = (\<lambda>s. None)\<rparr>"

definition sample_source :: source where
  "sample_source = [(''pod'', JStr ''api-0'')]"

definition sample_judgment :: Judgment where
  "sample_judgment = (verdict ''important'' ''outage'' ''data'')
     \<lparr>ImportanceConfidence := Some (Fin (9 / 10)), SeverityConfidence := Some (Fin (9 / 10)),
      CategoryConfidence := Some (Fin (9 / 10))\<rparr>"

definition sample_event :: event where
  "sample_event = empty_event\<lparr>ev_ID := ''e1'', ev_Source := sample_source, ev_Text := ''disk failed'',
     ev_Judgment := sample_judgment\<rparr>"

lemma length_sample_digest: "length (sample_digest s) = 64"
  by (simp add: sample_digest_def Let_def)

end
