(* ===== verification/Bounded.thy ===== *)
theory Bounded
  imports Prelude
begin

text \<open>
  The contract of every store with a capacity in the program: the SQLite tables of the controller, the
  partitions of the grouper and the result cache of the search.
\<close>

text \<open>
  Before a new key is put, the client asks for room; asking never breaks the store and never grows it,
  and when it succeeds there is a free place or the key is already there.  \<open>good\<close> is what the client
  promises of the values it puts.
\<close>

locale bounded_store =
  fixes inv :: "'t \<Rightarrow> bool"
    and has :: "'t \<Rightarrow> 'k \<Rightarrow> bool"
    and sz :: "'t \<Rightarrow> nat"
    and room :: "'k \<Rightarrow> 't \<Rightarrow> 't \<times> bool"
    and put :: "'k \<Rightarrow> 'v \<Rightarrow> 't \<Rightarrow> 't"
    and good :: "'v \<Rightarrow> bool"
    and cap :: nat
  assumes room_inv: "inv t \<Longrightarrow> inv (fst (room k t))"
    and room_sz: "inv t \<Longrightarrow> sz (fst (room k t)) \<le> sz t"
    and room_free: "inv t \<Longrightarrow> sz t \<le> cap \<Longrightarrow> snd (room k t) \<Longrightarrow>
      has (fst (room k t)) k \<or> sz (fst (room k t)) < cap"
    and put_inv: "inv t \<Longrightarrow> good v \<Longrightarrow> inv (put k v t)"
    and put_sz: "inv t \<Longrightarrow> sz (put k v t) = (if has t k then sz t else Suc (sz t))"
begin

definition admit :: "'k \<Rightarrow> 'v \<Rightarrow> 't \<Rightarrow> 't" where
  "admit k v t = (case room k t of (t', ok) \<Rightarrow> if ok then put k v t' else t)"

definition bounded :: "'t \<Rightarrow> bool" where
  "bounded t = (inv t \<and> sz t \<le> cap)"

lemma bounded_room: "bounded t \<Longrightarrow> bounded (fst (room k t))"
  using room_inv [of t k] room_sz [of t k] by (simp add: bounded_def)

lemma bounded_put_room:
  assumes "bounded t" and "snd (room k t)" and "good v"
  shows "bounded (put k v (fst (room k t)))"
proof -
  let ?t = "fst (room k t)"
  have "inv ?t" "sz ?t \<le> cap" using bounded_room [OF assms(1)] by (simp_all add: bounded_def)
  moreover have "has ?t k \<or> sz ?t < cap" using assms room_free [of t k] by (simp add: bounded_def)
  ultimately show ?thesis using assms(3) put_inv [of ?t v k] put_sz [of ?t k v] by (auto simp: bounded_def)
qed

lemma bounded_put_old: "bounded t \<Longrightarrow> has t k \<Longrightarrow> good v \<Longrightarrow> bounded (put k v t)"
  using put_inv [of t v k] put_sz [of t k v] by (simp add: bounded_def)

lemma bounded_admit: "bounded t \<Longrightarrow> good v \<Longrightarrow> bounded (admit k v t)"
  using bounded_put_room [of t k v] by (cases "room k t") (auto simp: admit_def)

lemma bounded_run: "bounded t \<Longrightarrow> \<forall>(k, v) \<in> set kvs. good v \<Longrightarrow> bounded (fold (\<lambda>(k, v). admit k v) kvs t)"
  by (induction kvs arbitrary: t) (auto simp: bounded_admit)

end

end
