(* ===== verification/Store.thy ===== *)
theory Store
  imports Policy Samples Bounded "HOL-Library.Product_Lexorder"
begin

text \<open>
  The SQLite state of \<open>internal/controller\<close> (\<open>store.go\<close>, \<open>capacity.go\<close>): four tables bounded by
  \<open>stateCapacity\<close>, the row and eviction counters the triggers keep, the delivery clock, and the
  transaction that applies one event.  SQLite is modelled by what each statement does to its table;
  \<open>fails\<close> says which statements fail, so every theorem holds under every combination of failures.
\<close>

definition stateCapacity :: nat where "stateCapacity = 10000"

section \<open>Statements and tables\<close>

text \<open>A statement is named by what it does and its table.\<close>

type_synonym stmt = "string \<times> string"

abbreviation SBegin :: stmt where "SBegin \<equiv> (''begin'', '''')"
abbreviation SCommit :: stmt where "SCommit \<equiv> (''commit'', '''')"
abbreviation SSeen :: stmt where "SSeen \<equiv> (''select'', ''seen'')"
abbreviation SInsertSeen :: stmt where "SInsertSeen \<equiv> (''insert'', ''seen'')"
abbreviation SIncident :: stmt where "SIncident \<equiv> (''select'', ''incidents'')"
abbreviation SUpsertIncident :: stmt where "SUpsertIncident \<equiv> (''upsert'', ''incidents'')"
abbreviation SClock :: stmt where "SClock \<equiv> (''update'', ''delivery_clock'')"
abbreviation SInsertOutbox :: stmt where "SInsertOutbox \<equiv> (''insert'', ''outbox'')"
abbreviation SUpsertVerdict :: stmt where "SUpsertVerdict \<equiv> (''upsert'', ''verdicts'')"
abbreviation SDeleteVerdict :: stmt where "SDeleteVerdict \<equiv> (''delete key'', ''verdicts'')"
abbreviation SSelectVerdict :: stmt where "SSelectVerdict \<equiv> (''select'', ''verdicts'')"
abbreviation SPending :: stmt where "SPending \<equiv> (''select pending'', ''outbox'')"
abbreviation SScan :: stmt where "SScan \<equiv> (''scan pending'', ''outbox'')"
abbreviation SKill :: stmt where "SKill \<equiv> (''update dead'', ''outbox'')"
abbreviation SClaim :: stmt where "SClaim \<equiv> (''update claim'', ''outbox'')"
abbreviation SSettle :: stmt where "SSettle \<equiv> (''update settle'', ''outbox'')"
abbreviation SCount :: stmt where "SCount \<equiv> (''select count'', ''incidents'')"
abbreviation SSum :: stmt where "SSum \<equiv> (''select sum'', ''outbox'')"
abbreviation SRecent :: stmt where "SRecent \<equiv> (''select recent'', ''incidents'')"
abbreviation SDetail :: stmt where "SDetail \<equiv> (''select detail'', ''outbox'')"
abbreviation SPayloads :: stmt where "SPayloads \<equiv> (''select payloads'', ''outbox'')"
abbreviation SPayload :: stmt where "SPayload \<equiv> (''update payload'', ''outbox'')"
abbreviation SExists :: "string \<Rightarrow> stmt" where "SExists name \<equiv> (''exists'', name)"
abbreviation SRows :: "string \<Rightarrow> stmt" where "SRows name \<equiv> (''rows'', name)"
abbreviation SDelete :: "string \<Rightarrow> stmt" where "SDelete name \<equiv> (''evict'', name)"
abbreviation SAffected :: "string \<Rightarrow> stmt" where "SAffected name \<equiv> (''affected'', name)"
abbreviation SEvicted :: "string \<Rightarrow> stmt" where "SEvicted name \<equiv> (''evicted'', name)"

record 'r table =
  t_rows :: "(string, 'r) gomap"
  t_count :: nat
  t_evicted :: nat

definition empty_table :: "'r table" where
  "empty_table = \<lparr>t_rows = [], t_count = 0, t_evicted = 0\<rparr>"

text \<open>The triggers count an insert that adds a row, and every row a delete removes.\<close>

definition t_put :: "string \<Rightarrow> 'r \<Rightarrow> 'r table \<Rightarrow> 'r table" where
  "t_put k r t = t\<lparr>t_rows := mput k r (t_rows t),
     t_count := (if mhas (t_rows t) k then t_count t else t_count t + 1)\<rparr>"

definition t_delete :: "string list \<Rightarrow> 'r table \<Rightarrow> 'r table" where
  "t_delete ks t = (let kept = filter (\<lambda>(k, r). k \<notin> set ks) (t_rows t) in
     t\<lparr>t_rows := kept, t_count := t_count t - (length (t_rows t) - length kept)\<rparr>)"

text \<open>\<open>ORDER BY order, key\<close> over the rows that satisfy the \<open>WHERE\<close> clause.\<close>

definition oldest :: "('r \<Rightarrow> int) \<Rightarrow> ('r \<Rightarrow> bool) \<Rightarrow> (string, 'r) gomap \<Rightarrow> string list" where
  "oldest order eligible rs = map fst (sort_key (\<lambda>(k, r). (order r, k)) (filter (\<lambda>(k, r). eligible r) rs))"

definition victims :: "('r \<Rightarrow> int) \<Rightarrow> ('r \<Rightarrow> bool) \<Rightarrow> 'r table \<Rightarrow> string list" where
  "victims order eligible t = take (t_count t - stateCapacity + 1) (oldest order eligible (t_rows t))"

definition evict :: "(stmt \<Rightarrow> bool) \<Rightarrow> string \<Rightarrow> ('r \<Rightarrow> int) \<Rightarrow> ('r \<Rightarrow> bool) \<Rightarrow> 'r table \<Rightarrow> 'r table \<times> status" where
  "evict fails name order eligible t =
     (let t' = t_delete (victims order eligible t) t; removed = length (t_rows t) - length (t_rows t') in
      if fails (SAffected name) then (t', Some ErrState)
      else if stateCapacity \<le> t_count t - removed then (t', Some ErrBackpressure)
      else if fails (SEvicted name) then (t', Some ErrState)
      else (t'\<lparr>t_evicted := t_evicted t' + removed\<rparr>, None))"

definition makeRoom :: "(stmt \<Rightarrow> bool) \<Rightarrow> string \<Rightarrow> ('r \<Rightarrow> int) \<Rightarrow> ('r \<Rightarrow> bool) \<Rightarrow> string \<Rightarrow> 'r table
    \<Rightarrow> 'r table \<times> status" where
  "makeRoom fails name order eligible key t =
     (if fails (SExists name) then (t, Some ErrState)
      else if mhas (t_rows t) key then (t, None)
      else if fails (SRows name) then (t, Some ErrState)
      else if t_count t < stateCapacity then (t, None)
      else if fails (SDelete name) then (t, Some ErrState)
      else evict fails name order eligible t)"

section \<open>The database\<close>

record seen_row =
  sr_at :: int
  sr_decision :: string

record incident_row =
  ir_window :: int
  ir_count :: nat
  ir_level :: nat
  ir_last :: int
  ir_sequence :: nat
  ir_touched :: int
  ir_last_decision :: "string option"

record verdict_row =
  vr_judgment :: string
  vr_created :: int
  vr_expires :: int

record outbox_row =
  or_incident :: string
  or_payload :: string
  or_status :: string
  or_attempts :: nat
  or_due :: int
  or_updated :: int

record db =
  db_seen :: "seen_row table"
  db_incidents :: "incident_row table"
  db_verdicts :: "verdict_row table"
  db_outbox :: "outbox_row table"
  db_next :: nat

definition empty_db :: db where
  "empty_db = \<lparr>db_seen = empty_table, db_incidents = empty_table, db_verdicts = empty_table,
     db_outbox = empty_table, db_next = 0\<rparr>"

definition settled :: "outbox_row \<Rightarrow> bool" where
  "settled r = (or_status r \<noteq> ''pending'')"

abbreviation room_seen where
  "room_seen fails \<equiv> makeRoom fails ''seen'' sr_at (\<lambda>r. True)"

abbreviation room_incidents where
  "room_incidents fails \<equiv> makeRoom fails ''incidents'' ir_touched (\<lambda>r. True)"

abbreviation room_verdicts where
  "room_verdicts fails \<equiv> makeRoom fails ''verdicts'' vr_expires (\<lambda>r. True)"

abbreviation room_outbox where
  "room_outbox fails \<equiv> makeRoom fails ''outbox'' or_updated settled"

section \<open>Applying an event\<close>

record notification =
  n_Schema :: int
  n_ID :: string
  n_IncidentID :: string
  n_EventID :: string
  n_SourceID :: string
  n_Decision :: string
  n_Judgment :: Judgment
  n_Occurrences :: int
  n_Created :: int

definition notification_text :: "std \<Rightarrow> notification \<Rightarrow> string" where
  "notification_text S n = CHR 0x7B # Join (map (\<lambda>(k, t). quote k @ '':'' @ t)
     [(''schema'', show_int (n_Schema n)), (''notification_id'', quote (n_ID n)),
      (''incident_id'', quote (n_IncidentID n)), (''event_id'', quote (n_EventID n)),
      (''source_id'', quote (n_SourceID n)), (''decision'', quote (n_Decision n)),
      (''judgment'', judgment_text S (n_Judgment n)), (''recurrence_count'', show_int (n_Occurrences n)),
      (''observed_at'', show_int (n_Created n))]) '','' @ [CHR 0x7D]"

definition notificationID :: "std \<Rightarrow> string \<Rightarrow> nat \<Rightarrow> string" where
  "notificationID S key seq = Hash S (JArr [JStr ''go-notification-v2'', JStr key, JNat seq])"

record applied =
  ap_Duplicate :: bool
  ap_Enqueued :: bool
  ap_Decision :: string

definition applied0 :: applied where
  "applied0 = \<lparr>ap_Duplicate = False, ap_Enqueued = False, ap_Decision = []\<rparr>"

definition incident_key :: "std \<Rightarrow> string \<Rightarrow> event \<Rightarrow> string" where
  "incident_key S contract e = Hash S (JArr [JStr ''go-v1'', JStr contract, JObj (ev_Source e), JStr (ev_Text e)])"

definition occurrence_key :: "std \<Rightarrow> string \<Rightarrow> event \<Rightarrow> string" where
  "occurrence_key S contract e =
     Hash S (JArr [JStr contract, JObj (ev_Source e), opt_str (ev_Timestamp e), JStr (ev_ID e)])"

text \<open>The row the code reads into its local variables: every column zero when there is none.\<close>

definition zero_incident :: incident_row where
  "zero_incident = \<lparr>ir_window = 0, ir_count = 0, ir_level = 0, ir_last = 0, ir_sequence = 0,
     ir_touched = 0, ir_last_decision = None\<rparr>"

definition prior_incident :: "incident_row table \<Rightarrow> string \<Rightarrow> incident_row" where
  "prior_incident t key = (case mget (t_rows t) key of None \<Rightarrow> zero_incident | Some r \<Rightarrow> r)"

text \<open>The recurrence window: a new one starts when the clock moved back or the old one ran out.\<close>

definition open_window :: "policy \<Rightarrow> int \<Rightarrow> incident_row \<Rightarrow> incident_row" where
  "open_window p now r =
     (if now < ir_window r \<or> Window p \<le> now - ir_window r
      then r\<lparr>ir_window := now, ir_count := 0, ir_level := 0\<rparr> else r)"

definition must_enqueue :: "policy \<Rightarrow> string \<Rightarrow> int \<Rightarrow> incident_row \<Rightarrow> nat \<Rightarrow> bool" where
  "must_enqueue p decision now r newLevel =
     (ir_sequence r = 0 \<or> now < ir_last r \<or> Cooldown p \<le> now - ir_last r \<or> ir_level r < newLevel
      \<or> (decision = ''notify'' \<and> ir_last_decision r \<noteq> Some ''notify''))"

definition new_notification :: "std \<Rightarrow> string \<Rightarrow> string \<Rightarrow> event \<Rightarrow> nat \<Rightarrow> int \<Rightarrow> nat \<Rightarrow> notification" where
  "new_notification S key decision e count now seq =
     \<lparr>n_Schema = 2, n_ID = notificationID S key seq, n_IncidentID = key, n_EventID = ev_ID e,
      n_SourceID = Hash S (JObj (ev_Source e)), n_Decision = decision, n_Judgment = ev_Judgment e,
      n_Occurrences = int count, n_Created = now\<rparr>"

definition pending_row :: "std \<Rightarrow> notification \<Rightarrow> outbox_row" where
  "pending_row S n = \<lparr>or_incident = n_IncidentID n, or_payload = notification_text S n,
     or_status = ''pending'', or_attempts = 0, or_due = n_Created n, or_updated = n_Created n\<rparr>"

text \<open>One pending row: its room, the next value of the clock, and the insert, which a row with the same
  primary key refuses.\<close>

definition enqueue :: "std \<Rightarrow> (stmt \<Rightarrow> bool) \<Rightarrow> string \<Rightarrow> string \<Rightarrow> event \<Rightarrow> nat \<Rightarrow> int \<Rightarrow> db \<Rightarrow> (db \<times> nat) result" where
  "enqueue S fails key decision e count now tx =
     (case room_outbox fails [] (db_outbox tx) of
       (ob, Some err) \<Rightarrow> Inl err
     | (ob, None) \<Rightarrow>
        (if fails SClock then Inl ErrState
         else (let seq = db_next tx + 1; n = new_notification S key decision e count now seq in
           if fails SInsertOutbox \<or> mhas (t_rows ob) (n_ID n) then Inl ErrState
           else Inr (tx\<lparr>db_outbox := t_put (n_ID n) (pending_row S n) ob, db_next := seq\<rparr>, seq))))"

text \<open>The part of \<open>Apply\<close> after the room for the incident: whether a notification was queued, and the
  transaction's database or the error.\<close>

definition record_incident :: "std \<Rightarrow> (stmt \<Rightarrow> bool) \<Rightarrow> string \<Rightarrow> policy \<Rightarrow> string \<Rightarrow> event \<Rightarrow> int \<Rightarrow> incident_row
    \<Rightarrow> db \<Rightarrow> bool \<times> db result" where
  "record_incident S fails key p decision e now r0 tx =
     (let r = open_window p now r0; count = ir_count r + 1;
          newLevel = min (MaxEscalation p) (count div Recurrence p);
          r1 = r\<lparr>ir_count := count, ir_level := max (ir_level r) newLevel, ir_touched := now\<rparr> in
      if must_enqueue p decision now r newLevel then
        (case enqueue S fails key decision e count now tx of
          Inl err \<Rightarrow> (False, Inl err)
        | Inr (tx', seq) \<Rightarrow>
            (True, if fails SUpsertIncident then Inl ErrState
             else Inr (tx'\<lparr>db_incidents := t_put key
                    (r1\<lparr>ir_last := now, ir_sequence := seq, ir_last_decision := Some decision\<rparr>) (db_incidents tx')\<rparr>)))
      else
        (False, if fails SUpsertIncident then Inl ErrState
         else Inr (tx\<lparr>db_incidents := t_put key r1 (db_incidents tx)\<rparr>)))"

text \<open>
  \<open>Apply\<close>: the database after the call, the \<open>Applied\<close> value (filled as far as the call got) and the
  error.  The transaction works on a copy; only a successful commit publishes it.
\<close>

definition Apply :: "std \<Rightarrow> (stmt \<Rightarrow> bool) \<Rightarrow> event \<Rightarrow> string \<Rightarrow> policy \<Rightarrow> int \<Rightarrow> db \<Rightarrow> db \<times> applied \<times> status" where
  "Apply S fails e contract p now db =
     (if fails SBegin \<or> fails SSeen then (db, applied0, Some ErrState)
      else let key = incident_key S contract e; occurrence = occurrence_key S contract e in
      if mhas (t_rows (db_seen db)) occurrence then (db, applied0\<lparr>ap_Duplicate := True\<rparr>, None)
      else case room_seen fails occurrence (db_seen db) of
        (sn, Some err) \<Rightarrow> (db, applied0, Some err)
      | (sn, None) \<Rightarrow>
         (let decision = Decide p e; result = applied0\<lparr>ap_Decision := decision\<rparr> in
          if fails SInsertSeen then (db, result, Some ErrState)
          else let tx = db\<lparr>db_seen := t_put occurrence \<lparr>sr_at = now, sr_decision = decision\<rparr> sn\<rparr> in
          if fails SIncident then (db, result, Some ErrState)
          else if decision \<noteq> ''notify'' \<and> decision \<noteq> ''review'' then
            (if fails SCommit then (db, result, Some ErrState) else (tx, result, None))
          else let r0 = prior_incident (db_incidents tx) key in
          case room_incidents fails key (db_incidents tx) of
            (ic, Some err) \<Rightarrow> (db, result, Some err)
          | (ic, None) \<Rightarrow>
             (case record_incident S fails key p decision e now r0 (tx\<lparr>db_incidents := ic\<rparr>) of
               (enqueued, Inl err) \<Rightarrow> (db, result\<lparr>ap_Enqueued := enqueued\<rparr>, Some err)
             | (enqueued, Inr tx') \<Rightarrow>
                 if fails SCommit then (db, result\<lparr>ap_Enqueued := enqueued\<rparr>, Some ErrState)
                 else (tx', result\<lparr>ap_Enqueued := enqueued\<rparr>, None))))"

section \<open>Tables are bounded stores\<close>

definition table_inv :: "'r table \<Rightarrow> bool" where
  "table_inv t = (wf_map (t_rows t) \<and> t_count t = length (t_rows t))"

definition table_ok :: "'r table \<Rightarrow> bool" where
  "table_ok t = (table_inv t \<and> length (t_rows t) \<le> stateCapacity)"

lemma table_inv_put [inv_intros]: "table_inv t \<Longrightarrow> table_inv (t_put k r t)"
  by (auto simp: table_inv_def t_put_def length_mput)

lemma table_inv_delete [inv_intros]: "table_inv t \<Longrightarrow> table_inv (t_delete ks t)"
proof -
  assume "table_inv t"
  moreover have "length (filter p xs) \<le> length xs" for p :: "'b \<Rightarrow> bool" and xs by (rule length_filter_le)
  moreover have "wf_map m \<Longrightarrow> wf_map (filter p m)" for p and m :: "(string, 'a) gomap"
    by (rule distinct_map_filter)
  ultimately show ?thesis by (simp add: table_inv_def t_delete_def Let_def)
qed

lemma t_delete_rows: "set (t_rows (t_delete ks t)) = {(k, r) \<in> set (t_rows t). k \<notin> set ks}"
  by (auto simp: t_delete_def Let_def)

lemma t_delete_le: "length (t_rows (t_delete ks t)) \<le> length (t_rows t)"
  by (simp add: t_delete_def Let_def)

lemma t_rows_evicted [simp]: "t_rows (t\<lparr>t_evicted := n\<rparr>) = t_rows t"
  by simp

lemma table_inv_evicted [simp]: "table_inv (t\<lparr>t_evicted := n\<rparr>) = table_inv t"
  by (simp add: table_inv_def)

lemma set_oldest: "set (oldest order eligible rs) = {k. \<exists>r. (k, r) \<in> set rs \<and> eligible r}"
  by (force simp: oldest_def)

text \<open>\<open>makeRoom\<close> leaves the table alone or evicts, and then the table without the victims is what is left.\<close>

lemma evict_rows: "t_rows (fst (evict fails name order eligible t)) = t_rows (t_delete (victims order eligible t) t)"
  by (simp add: evict_def Let_def)

lemma evict_inv: "table_inv t \<Longrightarrow> table_inv (fst (evict fails name order eligible t))"
  by (simp add: evict_def Let_def table_inv_delete)

lemma evict_free:
  "table_inv t \<Longrightarrow> snd (evict fails name order eligible t) = None \<Longrightarrow>
    length (t_rows (fst (evict fails name order eligible t))) < stateCapacity"
  using t_delete_le [of "victims order eligible t" t] by (simp add: evict_def Let_def table_inv_def split: if_splits)

lemma makeRoom_cases:
  "fst (makeRoom fails name order eligible key t) = t
     \<and> (snd (makeRoom fails name order eligible key t) = None \<longrightarrow> mhas (t_rows t) key \<or> t_count t < stateCapacity)
   \<or> makeRoom fails name order eligible key t = evict fails name order eligible t \<and> \<not> mhas (t_rows t) key"
  by (simp add: makeRoom_def)

lemma makeRoom_inv: "table_inv t \<Longrightarrow> table_inv (fst (makeRoom fails name order eligible key t))"
  using makeRoom_cases [of fails name order eligible key t] by (auto simp: evict_inv)

lemma makeRoom_le:
  "length (t_rows (fst (makeRoom fails name order eligible key t))) \<le> length (t_rows t)"
  using makeRoom_cases [of fails name order eligible key t] by (auto simp: evict_rows t_delete_le)

lemma makeRoom_free:
  "table_inv t \<Longrightarrow> snd (makeRoom fails name order eligible key t) = None \<Longrightarrow>
    mhas (t_rows (fst (makeRoom fails name order eligible key t))) key
    \<or> length (t_rows (fst (makeRoom fails name order eligible key t))) < stateCapacity"
  using makeRoom_cases [of fails name order eligible key t] by (auto simp: evict_free table_inv_def)

lemma makeRoom_keeps:
  assumes "wf_map (t_rows t)" and "(k, r) \<in> set (t_rows t)" and "\<not> eligible r"
  shows "(k, r) \<in> set (t_rows (fst (makeRoom fails name order eligible key t)))"
proof -
  have "k \<notin> set (oldest order eligible (t_rows t))"
    using assms by (auto simp: set_oldest dest: eq_key_imp_eq_value)
  then have "k \<notin> set (victims order eligible t)" by (auto simp: victims_def dest: in_set_takeD)
  then show ?thesis
    using assms(2) makeRoom_cases [of fails name order eligible key t] by (auto simp: evict_rows t_delete_rows)
qed

lemma makeRoom_subset: "set (t_rows (fst (makeRoom fails name order eligible key t))) \<subseteq> set (t_rows t)"
  using makeRoom_cases [of fails name order eligible key t] by (auto simp: evict_rows t_delete_rows)

lemma length_t_put: "length (t_rows (t_put k r t)) = (if mhas (t_rows t) k then length (t_rows t) else Suc (length (t_rows t)))"
  by (simp add: t_put_def length_mput)

interpretation tbl: bounded_store table_inv "\<lambda>t. mhas (t_rows t)" "\<lambda>t. length (t_rows t)"
    "\<lambda>k t. (fst (makeRoom fails name order eligible k t), snd (makeRoom fails name order eligible k t) = None)"
    t_put "\<lambda>r. True" stateCapacity
  for fails name order eligible
  by unfold_locales (auto simp: makeRoom_inv makeRoom_le makeRoom_free table_inv_put length_t_put)

lemma bounded_table_ok: "tbl.bounded t \<longleftrightarrow> table_ok t"
  by (simp add: tbl.bounded_def table_ok_def)

lemma makeRoom_ok: "table_ok t \<Longrightarrow> table_ok (fst (makeRoom fails name order eligible key t))"
  using tbl.bounded_room [of t fails name order eligible key] by (simp add: bounded_table_ok)

lemma put_room_ok:
  "table_ok t \<Longrightarrow> makeRoom fails name order eligible key t = (t', None) \<Longrightarrow> table_ok (t_put key r t')"
  using tbl.bounded_put_room [of t fails name order eligible key r] by (simp add: bounded_table_ok)

lemma put_old_ok: "table_ok t \<Longrightarrow> mhas (t_rows t) key \<Longrightarrow> table_ok (t_put key r t)"
  by (auto simp: table_ok_def table_inv_put length_t_put)

lemma delete_ok: "table_ok t \<Longrightarrow> table_ok (t_delete ks t)"
  using t_delete_le [of ks t] by (simp add: table_ok_def table_inv_delete)

section \<open>What one event does to the store\<close>

definition db_ok :: "db \<Rightarrow> bool" where
  "db_ok d = (table_ok (db_seen d) \<and> table_ok (db_incidents d) \<and> table_ok (db_verdicts d) \<and> table_ok (db_outbox d))"

lemma empty_db_ok: "db_ok empty_db"
  by (simp add: db_ok_def empty_db_def table_ok_def table_inv_def empty_table_def)

lemma room_none_put: "table_ok t \<Longrightarrow> makeRoom fails name order eligible key t = (t', None) \<Longrightarrow> table_ok t'"
  using makeRoom_ok [of t fails name order eligible key] by simp

lemma put_after_room:
  assumes "table_ok t" and "makeRoom fails name order eligible key t = (t', None)"
    and "\<not> mhas (t_rows t) key"
  shows "table_ok (t_put k r t')"
proof -
  have t': "table_ok t'" using room_none_put [OF assms(1,2)] .
  have "\<not> mhas (t_rows t') key"
    using assms(2,3) makeRoom_subset [of fails name order eligible key t] by (auto simp: mhas_iff)
  with assms(1,2) makeRoom_free [of t fails name order eligible key]
  have "length (t_rows t') < stateCapacity" by (simp add: table_ok_def)
  with t' show ?thesis by (simp add: table_ok_def table_inv_put length_t_put)
qed

lemma new_notification_ID [simp]: "n_ID (new_notification S key decision e count now seq) = notificationID S key seq"
  by (simp add: new_notification_def)

lemma enqueue_Inr:
  assumes "enqueue S fails key decision e count now tx = Inr (tx', seq)"
  shows "\<exists>ob. room_outbox fails [] (db_outbox tx) = (ob, None)
    \<and> \<not> mhas (t_rows ob) (notificationID S key seq) \<and> seq = db_next tx + 1
    \<and> tx' = tx\<lparr>db_outbox := t_put (notificationID S key seq)
         (pending_row S (new_notification S key decision e count now seq)) ob, db_next := seq\<rparr>"
proof -
  obtain ob err where r: "room_outbox fails [] (db_outbox tx) = (ob, err)" by fastforce
  from assms r have "err = None" by (simp add: enqueue_def split: option.splits)
  with r assms show ?thesis unfolding enqueue_def Let_def
    by (auto split: if_splits)
qed

lemma record_incident_Inr:
  assumes "record_incident S fails key p decision e now r0 tx = (enq, Inr tx')"
  shows "\<exists>row tx1. tx' = tx1\<lparr>db_incidents := t_put key row (db_incidents tx)\<rparr>
    \<and> (if enq then \<exists>count seq. enqueue S fails key decision e count now tx = Inr (tx1, seq) \<and> ir_sequence row = seq
       else tx1 = tx \<and> ir_sequence row = ir_sequence r0)"
proof (cases "must_enqueue p decision now (open_window p now r0)
    (min (MaxEscalation p) ((ir_count (open_window p now r0) + 1) div Recurrence p))")
  case False
  with assms show ?thesis by (auto simp: record_incident_def open_window_def Let_def split: if_splits)
next
  case True
  note must = this
  let ?q = "enqueue S fails key decision e (ir_count (open_window p now r0) + 1) now tx"
  show ?thesis
  proof (cases ?q)
    case (Inl err)
    with assms must show ?thesis by (simp add: record_incident_def Let_def)
  next
    case (Inr q)
    then obtain tx1 seq where q: "?q = Inr (tx1, seq)" by (cases q) auto
    then have "db_incidents tx1 = db_incidents tx" by (auto dest: enqueue_Inr)
    with q must assms show ?thesis
      by (auto simp: record_incident_def Let_def split: if_splits intro!: exI)
  qed
qed

text \<open>Everything a call of \<open>Apply\<close> can do.\<close>

definition outcome :: "std \<Rightarrow> (stmt \<Rightarrow> bool) \<Rightarrow> event \<Rightarrow> string \<Rightarrow> policy \<Rightarrow> int \<Rightarrow> db \<Rightarrow> db \<Rightarrow> bool \<Rightarrow> bool" where
  "outcome S fails e contract p now d d' enq =
     (\<exists>sn. room_seen fails (occurrence_key S contract e) (db_seen d) = (sn, None)
      \<and> \<not> mhas (t_rows (db_seen d)) (occurrence_key S contract e)
      \<and> (let d1 = d\<lparr>db_seen := t_put (occurrence_key S contract e) \<lparr>sr_at = now, sr_decision = Decide p e\<rparr> sn\<rparr> in
        (Decide p e \<notin> {''notify'', ''review''} \<and> \<not> enq \<and> d' = d1)
        \<or> (Decide p e \<in> {''notify'', ''review''} \<and>
          (\<exists>ic. room_incidents fails (incident_key S contract e) (db_incidents d) = (ic, None)
            \<and> record_incident S fails (incident_key S contract e) p (Decide p e) e now
                (prior_incident (db_incidents d) (incident_key S contract e)) (d1\<lparr>db_incidents := ic\<rparr>)
              = (enq, Inr d')))))"

lemma Apply_outcome:
  assumes "Apply S fails e contract p now d = (d', res, err)"
  shows "d' = d \<and> (err \<noteq> None \<or> ap_Duplicate res \<and> \<not> ap_Enqueued res \<and> mhas (t_rows (db_seen d)) (occurrence_key S contract e))
    \<or> (err = None \<and> \<not> ap_Duplicate res \<and> ap_Decision res = Decide p e
       \<and> outcome S fails e contract p now d d' (ap_Enqueued res))"
proof -
  obtain sn q where sn: "room_seen fails (occurrence_key S contract e) (db_seen d) = (sn, q)" by fastforce
  obtain ic q2 where ic: "room_incidents fails (incident_key S contract e) (db_incidents d) = (ic, q2)" by fastforce
  show ?thesis
  proof (cases "q = None \<and> \<not> mhas (t_rows (db_seen d)) (occurrence_key S contract e)")
    case False
    with assms sn show ?thesis
      by (auto simp: Apply_def Let_def applied0_def split: if_splits option.splits)
  next
    case True
    note q = this
    show ?thesis
    proof (cases "Decide p e = ''notify'' \<or> Decide p e = ''review''")
      case False
      with assms sn q show ?thesis
        by (auto simp: Apply_def Let_def applied0_def outcome_def split: if_splits)
    next
      case dec: True
      let ?d1 = "d\<lparr>db_seen := t_put (occurrence_key S contract e) \<lparr>sr_at = now, sr_decision = Decide p e\<rparr> sn\<rparr>"
      let ?r0 = "prior_incident (db_incidents d) (incident_key S contract e)"
      obtain enq x where x: "record_incident S fails (incident_key S contract e) p (Decide p e) e now ?r0
          (?d1\<lparr>db_incidents := ic\<rparr>) = (enq, x)" by fastforce
      show ?thesis
      proof (cases q2)
        case (Some err)
        with assms sn q ic dec show ?thesis
          by (auto simp: Apply_def Let_def applied0_def split: if_splits)
      next
        case None
        note q2 = this
        show ?thesis
        proof (cases x)
          case (Inl err)
          with assms sn q ic q2 dec x show ?thesis
            by (auto simp: Apply_def Let_def applied0_def split: if_splits)
        next
          case (Inr dd)
          with assms sn q ic q2 dec x Inr show ?thesis
            by (auto simp: Apply_def Let_def applied0_def outcome_def split: if_splits)
        qed
      qed
    qed
  qed
qed

text \<open>
  The store invariant: bounded tables whose counters are right, identifiers that are digests, and a
  delivery clock that is never behind a sequence in use.  SHA-256 in hexadecimal has 64 characters.
\<close>

definition digest_ok :: "std \<Rightarrow> bool" where
  "digest_ok S = (\<forall>t. length (sha256hex S t) = 64)"

definition store_inv :: "db \<Rightarrow> bool" where
  "store_inv d = (db_ok d \<and> (\<forall>k \<in> fst ` set (t_rows (db_outbox d)). length k = 64)
     \<and> (\<forall>(k, r) \<in> set (t_rows (db_incidents d)). ir_sequence r \<le> db_next d))"

lemma store_inv_empty: "store_inv empty_db"
  by (simp add: store_inv_def empty_db_ok) (simp add: empty_db_def empty_table_def)

lemma Hash_length: "digest_ok S \<Longrightarrow> length (Hash S v) = 64"
  by (simp add: digest_ok_def Hash_def)

lemma set_t_put: "table_inv t \<Longrightarrow> set (t_rows (t_put k r t)) = insert (k, r) {x \<in> set (t_rows t). fst x \<noteq> k}"
  by (simp add: t_put_def table_inv_def set_mput_wf)

lemma keys_t_put: "fst ` set (t_rows (t_put k r t)) = insert k (fst ` set (t_rows t))"
  by (simp add: t_put_def keys_mput)

lemma set_t_putD: "x \<in> set (t_rows (t_put k r t)) \<Longrightarrow> x = (k, r) \<or> x \<in> set (t_rows t)"
  by (auto simp: t_put_def dest: set_mputD)

lemma room_subset: "makeRoom fails name order eligible key t = (t', q) \<Longrightarrow> set (t_rows t') \<subseteq> set (t_rows t)"
  using makeRoom_subset [of fails name order eligible key t] by simp

lemma enqueue_inv:
  assumes "digest_ok S" and "store_inv tx" and "enqueue S fails key decision e count now tx = Inr (tx', seq)"
  shows "table_ok (db_outbox tx') \<and> (\<forall>k \<in> fst ` set (t_rows (db_outbox tx')). length k = 64)
    \<and> db_next tx' = Suc (db_next tx) \<and> seq = Suc (db_next tx)
    \<and> db_seen tx' = db_seen tx \<and> db_incidents tx' = db_incidents tx \<and> db_verdicts tx' = db_verdicts tx"
proof -
  obtain ob where ob: "room_outbox fails [] (db_outbox tx) = (ob, None)"
    and tx': "tx' = tx\<lparr>db_outbox := t_put (notificationID S key seq)
      (pending_row S (new_notification S key decision e count now seq)) ob, db_next := seq\<rparr>"
    and seq: "seq = Suc (db_next tx)"
    using enqueue_Inr [OF assms(3)] by auto
  have keys: "\<forall>k \<in> fst ` set (t_rows ob). length k = 64"
    using assms(2) room_subset [OF ob] by (auto simp: store_inv_def)
  have "\<not> mhas (t_rows (db_outbox tx)) []" using assms(2) by (force simp: store_inv_def mhas_iff)
  then have "table_ok (t_put (notificationID S key seq) (pending_row S (new_notification S key decision e count now seq)) ob)"
    using put_after_room [OF _ ob] assms(2) by (simp add: store_inv_def db_ok_def)
  with keys seq tx' show ?thesis by (auto simp: keys_t_put notificationID_def Hash_length [OF assms(1)])
qed

lemma outcome_inv:
  assumes "digest_ok S" and "store_inv d" and "outcome S fails e contract p now d d' enq"
  shows "store_inv d' \<and> db_next d' = (if enq then Suc (db_next d) else db_next d)"
proof -
  let ?o = "occurrence_key S contract e" and ?k = "incident_key S contract e"
  let ?r0 = "prior_incident (db_incidents d) ?k"
  obtain sn where sn: "room_seen fails ?o (db_seen d) = (sn, None)"
    and cases: "let d1 = d\<lparr>db_seen := t_put ?o \<lparr>sr_at = now, sr_decision = Decide p e\<rparr> sn\<rparr> in
        (Decide p e \<notin> {''notify'', ''review''} \<and> \<not> enq \<and> d' = d1)
        \<or> (Decide p e \<in> {''notify'', ''review''} \<and>
          (\<exists>ic. room_incidents fails ?k (db_incidents d) = (ic, None)
            \<and> record_incident S fails ?k p (Decide p e) e now ?r0 (d1\<lparr>db_incidents := ic\<rparr>) = (enq, Inr d')))"
    using assms(3) unfolding outcome_def by blast
  let ?d1 = "d\<lparr>db_seen := t_put ?o \<lparr>sr_at = now, sr_decision = Decide p e\<rparr> sn\<rparr>"
  have ok1: "store_inv ?d1"
    using assms(2) put_room_ok [OF _ sn] by (simp add: store_inv_def db_ok_def)
  from cases consider (quiet) "\<not> enq" "d' = ?d1"
    | (loud) ic where "room_incidents fails ?k (db_incidents d) = (ic, None)"
        "record_incident S fails ?k p (Decide p e) e now ?r0 (?d1\<lparr>db_incidents := ic\<rparr>) = (enq, Inr d')"
    unfolding Let_def by blast
  then show ?thesis
  proof cases
    case quiet
    with ok1 show ?thesis by simp
  next
    case loud
    let ?tx = "?d1\<lparr>db_incidents := ic\<rparr>"
    have okt: "store_inv ?tx"
      using ok1 room_none_put [OF _ loud(1)] room_subset [OF loud(1)] by (auto simp: store_inv_def db_ok_def)
    obtain row tx1 where d': "d' = tx1\<lparr>db_incidents := t_put ?k row (db_incidents ?tx)\<rparr>"
      and e: "if enq then \<exists>count seq. enqueue S fails ?k (Decide p e) e count now ?tx = Inr (tx1, seq) \<and> ir_sequence row = seq
         else tx1 = ?tx \<and> ir_sequence row = ir_sequence ?r0"
      using record_incident_Inr [OF loud(2)] by blast
    have t: "table_ok (t_put ?k row (db_incidents ?tx))"
      using ok1 put_room_ok [OF _ loud(1)] by (simp add: store_inv_def db_ok_def)
    show ?thesis
    proof (cases enq)
      case True
      with e obtain count seq where q: "enqueue S fails ?k (Decide p e) e count now ?tx = Inr (tx1, seq)"
        and "ir_sequence row = seq" by auto
      with enqueue_inv [OF assms(1) okt q] okt t d' True show ?thesis
        by (auto simp: store_inv_def db_ok_def dest!: set_t_putD)
    next
      case False
      have "ir_sequence ?r0 \<le> db_next d"
        using assms(2) by (auto simp: prior_incident_def zero_incident_def store_inv_def dest: map_of_SomeD split: option.splits)
      with e okt t d' False show ?thesis
        by (auto simp: store_inv_def db_ok_def dest!: set_t_putD)
    qed
  qed
qed

lemma t_put_keeps: "x \<in> set (t_rows t) \<Longrightarrow> fst x \<noteq> k \<Longrightarrow> x \<in> set (t_rows (t_put k r t))"
proof -
  have "x \<in> set m \<Longrightarrow> fst x \<noteq> k \<Longrightarrow> x \<in> set (mput k r m)" for m
    by (induction m) auto
  then show "x \<in> set (t_rows t) \<Longrightarrow> fst x \<noteq> k \<Longrightarrow> x \<in> set (t_rows (t_put k r t))"
    by (simp add: t_put_def)
qed

lemma t_put_keeps_new: "(k', r') \<in> set (t_rows t) \<Longrightarrow> \<not> mhas (t_rows t) k \<Longrightarrow> (k', r') \<in> set (t_rows (t_put k r t))"
  by (rule t_put_keeps) (auto simp: mhas_iff image_iff)

lemma mhas_t_put [simp]: "mhas (t_rows (t_put k r t)) j \<longleftrightarrow> j = k \<or> mhas (t_rows t) j"
  by (auto simp: t_put_def mhas_def)

lemma record_incident_outbox:
  assumes "record_incident S fails key p decision e now r0 tx = (enq, Inr tx')"
  shows "if enq then \<exists>count seq tx1. enqueue S fails key decision e count now tx = Inr (tx1, seq)
        \<and> db_outbox tx' = db_outbox tx1 \<and> db_next tx' = db_next tx1 \<and> db_seen tx' = db_seen tx
    else db_outbox tx' = db_outbox tx \<and> db_next tx' = db_next tx \<and> db_seen tx' = db_seen tx"
proof -
  obtain row tx1 where "tx' = tx1\<lparr>db_incidents := t_put key row (db_incidents tx)\<rparr>"
    and e: "if enq then \<exists>count seq. enqueue S fails key decision e count now tx = Inr (tx1, seq) \<and> ir_sequence row = seq
       else tx1 = tx \<and> ir_sequence row = ir_sequence r0"
    using record_incident_Inr [OF assms] by blast
  moreover have "db_seen tx1 = db_seen tx" if "enqueue S fails key decision e count now tx = Inr (tx1, seq)" for count seq
    using enqueue_Inr [OF that] by auto
  ultimately show ?thesis by (cases enq) (simp_all, blast+)
qed

text \<open>The outbox and the clock after an event that went through.\<close>

lemma outcome_outbox:
  assumes "outcome S fails e contract p now d d' enq"
  shows "mhas (t_rows (db_seen d')) (occurrence_key S contract e)
    \<and> (if enq then \<exists>count ob. room_outbox fails [] (db_outbox d) = (ob, None)
           \<and> (let seq = Suc (db_next d); n = new_notification S (incident_key S contract e) (Decide p e) e count now seq in
             \<not> mhas (t_rows ob) (n_ID n) \<and> db_next d' = seq \<and> Decide p e \<in> {''notify'', ''review''}
             \<and> db_outbox d' = t_put (n_ID n) (pending_row S n) ob)
        else db_outbox d' = db_outbox d \<and> db_next d' = db_next d)"
proof -
  let ?o = "occurrence_key S contract e" and ?k = "incident_key S contract e"
  let ?r0 = "prior_incident (db_incidents d) ?k"
  obtain sn where cases: "let d1 = d\<lparr>db_seen := t_put ?o \<lparr>sr_at = now, sr_decision = Decide p e\<rparr> sn\<rparr> in
        (Decide p e \<notin> {''notify'', ''review''} \<and> \<not> enq \<and> d' = d1)
        \<or> (Decide p e \<in> {''notify'', ''review''} \<and>
          (\<exists>ic. room_incidents fails ?k (db_incidents d) = (ic, None)
            \<and> record_incident S fails ?k p (Decide p e) e now ?r0 (d1\<lparr>db_incidents := ic\<rparr>) = (enq, Inr d')))"
    using assms unfolding outcome_def by blast
  let ?d1 = "d\<lparr>db_seen := t_put ?o \<lparr>sr_at = now, sr_decision = Decide p e\<rparr> sn\<rparr>"
  from cases consider (quiet) "\<not> enq" "d' = ?d1"
    | (loud) ic where "Decide p e \<in> {''notify'', ''review''}"
        "record_incident S fails ?k p (Decide p e) e now ?r0 (?d1\<lparr>db_incidents := ic\<rparr>) = (enq, Inr d')"
    unfolding Let_def by blast
  then show ?thesis
  proof cases
    case quiet
    then show ?thesis by simp
  next
    case loud
    note o = record_incident_outbox [OF loud(2)]
    show ?thesis
    proof (cases enq)
      case False
      with o show ?thesis by simp
    next
      case True
      with o obtain count seq tx1 where
        q: "enqueue S fails ?k (Decide p e) e count now (?d1\<lparr>db_incidents := ic\<rparr>) = Inr (tx1, seq)"
        and eqs: "db_outbox d' = db_outbox tx1" "db_next d' = db_next tx1" "db_seen d' = db_seen ?d1" by auto
      from enqueue_Inr [OF q] eqs True loud(1) show ?thesis by (auto simp: Let_def)
    qed
  qed
qed

lemma outcome_pending:
  assumes "store_inv d" and "outcome S fails e contract p now d d' enq"
    and "(k, r) \<in> set (t_rows (db_outbox d))" and "or_status r = ''pending''"
  shows "(k, r) \<in> set (t_rows (db_outbox d'))"
proof (cases enq)
  case False
  with outcome_outbox [OF assms(2)] assms(3) show ?thesis by simp
next
  case True
  then obtain count ob where ob: "room_outbox fails [] (db_outbox d) = (ob, None)"
    and new: "let n = new_notification S (incident_key S contract e) (Decide p e) e count now (Suc (db_next d)) in
      \<not> mhas (t_rows ob) (n_ID n) \<and> db_outbox d' = t_put (n_ID n) (pending_row S n) ob"
    using outcome_outbox [OF assms(2)] by (auto simp: Let_def)
  have "(k, r) \<in> set (t_rows ob)"
    using makeRoom_keeps [of "db_outbox d" k r settled fails "''outbox''" or_updated "[]"] ob assms
    by (simp add: settled_def store_inv_def db_ok_def table_ok_def table_inv_def)
  with new show ?thesis by (simp add: Let_def t_put_keeps_new)
qed

text \<open>The rows a successful eviction removes are the oldest of the eligible ones.\<close>

lemma sorted_take_drop:
  assumes "sorted xs" and "x \<in> set (take n xs)" and "y \<in> set (drop n xs)"
  shows "x \<le> (y :: 'b :: linorder)"
  using assms sorted_append [of "take n xs" "drop n xs"] by simp

lemma victims_oldest:
  assumes "wf_map (t_rows t)" and "(k, r) \<in> set (t_rows t)" and "(k', r') \<in> set (t_rows t)" and "eligible r'"
    and "k \<in> set (victims order eligible t)" and "k' \<notin> set (victims order eligible t)"
  shows "(order r, k) \<le> (order r', k')"
proof -
  let ?key = "\<lambda>(k, r). (order r, k)" and ?n = "t_count t - stateCapacity + 1"
  let ?xs = "sort_key ?key (filter (\<lambda>(k, r). eligible r) (t_rows t))"
  have sorted: "sorted (map ?key ?xs)" by (rule sorted_sort_key)
  have v: "victims order eligible t = map fst (take ?n ?xs)"
    by (simp add: victims_def oldest_def take_map)
  obtain r1 where r1: "(k, r1) \<in> set (take ?n ?xs)" using assms(5) unfolding v by auto
  then have "(k, r1) \<in> set (t_rows t)" by (auto dest: in_set_takeD)
  with assms(1,2) have "r1 = r" by (auto dest: eq_key_imp_eq_value)
  with r1 have a: "(order r, k) \<in> set (take ?n (map ?key ?xs))" by (force simp: take_map)
  have "(k', r') \<in> set ?xs" using assms(3,4) by simp
  moreover have "(k', r') \<notin> set (take ?n ?xs)" using assms(6) unfolding v by force
  ultimately have "(k', r') \<in> set (drop ?n ?xs)" by (metis Un_iff append_take_drop_id set_append)
  then have "(order r', k') \<in> set (drop ?n (map ?key ?xs))" by (force simp: drop_map)
  with sorted a show ?thesis by (rule sorted_take_drop)
qed

section \<open>Properties of the store\<close>

type_synonym apply_call = "(stmt \<Rightarrow> bool) \<times> event \<times> string \<times> policy \<times> int"

definition apply_run :: "std \<Rightarrow> apply_call list \<Rightarrow> db \<Rightarrow> db" where
  "apply_run S calls d = fold (\<lambda>(fails, e, contract, p, now) d. fst (Apply S fails e contract p now d)) calls d"

lemma Apply_inv: "digest_ok S \<Longrightarrow> store_inv d \<Longrightarrow> store_inv (fst (Apply S fails e contract p now d))"
  using Apply_outcome [of S fails e contract p now d] outcome_inv [of S d fails e contract p now]
  by (metis prod.collapse)

lemma apply_run_inv: "digest_ok S \<Longrightarrow> store_inv d \<Longrightarrow> store_inv (apply_run S calls d)"
  by (induction calls arbitrary: d) (auto simp: apply_run_def Apply_inv)

lemma sample_digest_ok: "digest_ok sample_std"
  by (simp add: digest_ok_def sample_std_def length_sample_digest)

lemmas apply_eval = Apply_def makeRoom_def record_incident_def enqueue_def open_window_def must_enqueue_def
  prior_incident_def empty_db_def empty_table_def zero_incident_def applied0_def mhas_def Let_def stateCapacity_def

lemma Decide_sample: "Decide DefaultPolicy sample_event = ''notify''"
  by code_simp

lemma Apply_empty_sample:
  "Apply sample_std (\<lambda>_. False) sample_event ''c'' DefaultPolicy 1000 empty_db =
     (let o' = occurrence_key sample_std ''c'' sample_event; k = incident_key sample_std ''c'' sample_event;
          n = new_notification sample_std k ''notify'' sample_event 1 1000 1 in
      (empty_db\<lparr>db_seen := t_put o' \<lparr>sr_at = 1000, sr_decision = ''notify''\<rparr> empty_table,
         db_incidents := t_put k \<lparr>ir_window = 1000, ir_count = 1, ir_level = 0, ir_last = 1000,
           ir_sequence = 1, ir_touched = 1000, ir_last_decision = Some ''notify''\<rparr> empty_table,
         db_outbox := t_put (n_ID n) (pending_row sample_std n) empty_table, db_next := 1\<rparr>,
       \<lparr>ap_Duplicate = False, ap_Enqueued = True, ap_Decision = ''notify''\<rparr>, None))"
  by (simp add: apply_eval Decide_sample) (simp add: DefaultPolicy_def)

text \<open>
  C1: after any sequence of events, under any policy, clock and pattern of failing SQL statements,
  each of the four tables holds at most 10,000 rows, the maintained counters equal the numbers of
  rows, and no incident carries a sequence the delivery clock has not issued.
\<close>

theorem apply_run_bounded:
  assumes "digest_ok S"
  shows "let d = apply_run S calls empty_db in
    length (t_rows (db_seen d)) \<le> 10000 \<and> t_count (db_seen d) = length (t_rows (db_seen d))
    \<and> length (t_rows (db_incidents d)) \<le> 10000 \<and> t_count (db_incidents d) = length (t_rows (db_incidents d))
    \<and> length (t_rows (db_outbox d)) \<le> 10000 \<and> t_count (db_outbox d) = length (t_rows (db_outbox d))
    \<and> length (t_rows (db_verdicts d)) \<le> 10000 \<and> t_count (db_verdicts d) = length (t_rows (db_verdicts d))
    \<and> (\<forall>(k, r) \<in> set (t_rows (db_incidents d)). ir_sequence r \<le> db_next d)"
  using apply_run_inv [OF assms store_inv_empty, of calls]
  by (simp add: Let_def store_inv_def db_ok_def table_ok_def table_inv_def stateCapacity_def)

theorem apply_run_bounded_witness:
  "let d = apply_run sample_std [(\<lambda>_. False, sample_event, ''c'', DefaultPolicy, 1000)] empty_db in
    length (t_rows (db_seen d)) \<le> 10000 \<and> t_count (db_seen d) = length (t_rows (db_seen d))
    \<and> length (t_rows (db_incidents d)) \<le> 10000 \<and> t_count (db_incidents d) = length (t_rows (db_incidents d))
    \<and> length (t_rows (db_outbox d)) \<le> 10000 \<and> t_count (db_outbox d) = length (t_rows (db_outbox d))
    \<and> length (t_rows (db_verdicts d)) \<le> 10000 \<and> t_count (db_verdicts d) = length (t_rows (db_verdicts d))
    \<and> (\<forall>(k, r) \<in> set (t_rows (db_incidents d)). ir_sequence r \<le> db_next d)"
  by (rule apply_run_bounded [OF sample_digest_ok])

text \<open>
  C20: applying an event is atomic and idempotent: a call that returns an error leaves the database
  exactly as it was, and once a call succeeded, any later event with the same source, timestamp and
  identity is reported as a duplicate, queues nothing and changes nothing.
\<close>

theorem apply_atomic_once:
  assumes "Apply S fails e contract p now d = (d', res, err)"
    and "ev_Source e' = ev_Source e" and "ev_Timestamp e' = ev_Timestamp e" and "ev_ID e' = ev_ID e"
    and "\<not> fails' SBegin" and "\<not> fails' SSeen"
  shows "if err \<noteq> None then d' = d
    else Apply S fails' e' contract p' now' d' = (d', \<lparr>ap_Duplicate = True, ap_Enqueued = False, ap_Decision = []\<rparr>, None)"
proof (cases err)
  case (Some x)
  with Apply_outcome [OF assms(1)] show ?thesis by auto
next
  case None
  have k: "occurrence_key S contract e' = occurrence_key S contract e"
    using assms by (simp add: occurrence_key_def)
  have "mhas (t_rows (db_seen d')) (occurrence_key S contract e)"
    using Apply_outcome [OF assms(1)] outcome_outbox [of S fails e contract p now d d'] None by auto
  with k None assms show ?thesis by (simp add: Apply_def Let_def applied0_def)
qed

theorem apply_atomic_once_witness:
  "let (d, res, err) = Apply sample_std (\<lambda>_. False) sample_event ''c'' DefaultPolicy 1000 empty_db in
   err = None \<and> ap_Enqueued res \<and>
   Apply sample_std (\<lambda>_. False) sample_event ''c'' DefaultPolicy 2000 d
     = (d, \<lparr>ap_Duplicate = True, ap_Enqueued = False, ap_Decision = []\<rparr>, None)"
proof -
  obtain d res err where a: "Apply sample_std (\<lambda>_. False) sample_event ''c'' DefaultPolicy 1000 empty_db = (d, res, err)"
    by (metis prod_cases3)
  have "case Apply sample_std (\<lambda>_. False) sample_event ''c'' DefaultPolicy 1000 empty_db of
    (d, res, err) \<Rightarrow> err = None \<and> ap_Enqueued res"
    by (simp add: Apply_empty_sample Let_def)
  with a apply_atomic_once [OF a, of sample_event "\<lambda>_. False" DefaultPolicy 2000] show ?thesis by simp
qed

text \<open>
  C15: a notification that still waits for delivery is never lost: whatever event is applied, whatever
  has to be evicted and whichever statements fail, every pending outbox row is still there unchanged.
\<close>

theorem apply_keeps_pending:
  assumes "store_inv d" and "(k, r) \<in> set (t_rows (db_outbox d))" and "or_status r = ''pending''"
  shows "(k, r) \<in> set (t_rows (db_outbox (fst (Apply S fails e contract p now d))))"
proof -
  obtain d' res err where a: "Apply S fails e contract p now d = (d', res, err)" by (metis prod_cases3)
  from Apply_outcome [OF a] show ?thesis
    using outcome_pending [OF assms(1) _ assms(2,3)] assms(2) by (auto simp: a)
qed

definition sample_pending_db :: db where
  "sample_pending_db = empty_db\<lparr>db_outbox := \<lparr>t_rows = [(replicate 64 (CHR ''a''),
     \<lparr>or_incident = ''i'', or_payload = ''p'', or_status = ''pending'', or_attempts = 0, or_due = 5, or_updated = 5\<rparr>)],
     t_count = 1, t_evicted = 0\<rparr>\<rparr>"

lemma sample_pending_db_inv: "store_inv sample_pending_db"
  by (simp add: store_inv_def db_ok_def table_ok_def table_inv_def sample_pending_db_def empty_db_def
      empty_table_def stateCapacity_def)

theorem apply_keeps_pending_witness:
  "(replicate 64 (CHR ''a''),
     \<lparr>or_incident = ''i'', or_payload = ''p'', or_status = ''pending'', or_attempts = 0, or_due = 5, or_updated = 5\<rparr>)
   \<in> set (t_rows (db_outbox (fst (Apply sample_std (\<lambda>s. s = SCommit) sample_event ''c'' DefaultPolicy 1000
      sample_pending_db))))"
  by (rule apply_keeps_pending [OF sample_pending_db_inv]) (simp_all add: sample_pending_db_def)

text \<open>
  A call that reports a queued notification took the next value of the delivery clock, its identity
  is derived from that value and was not in the table before, it is pending with no attempts, and the
  policy decided \<open>notify\<close> or \<open>review\<close>; a call that reports none leaves the outbox and the clock alone.
\<close>

theorem apply_enqueues:
  assumes "Apply S fails e contract p now d = (d', res, None)"
  shows "if ap_Enqueued res
    then db_next d' = db_next d + 1 \<and> Decide p e \<in> {''notify'', ''review''}
      \<and> (\<exists>row. mget (t_rows (db_outbox d')) (notificationID S (incident_key S contract e) (db_next d + 1)) = Some row
           \<and> or_status row = ''pending'' \<and> or_attempts row = 0 \<and> or_due row = now
           \<and> or_incident row = incident_key S contract e)
    else db_next d' = db_next d \<and> db_outbox d' = db_outbox d"
proof (cases "ap_Enqueued res")
  case True
  with Apply_outcome [OF assms] have "outcome S fails e contract p now d d' True" by auto
  from outcome_outbox [OF this] True show ?thesis
    by (auto simp: Let_def t_put_def pending_row_def new_notification_def)
next
  case False
  with Apply_outcome [OF assms] outcome_outbox [of S fails e contract p now d d' False] show ?thesis by auto
qed

theorem apply_enqueues_witness:
  "\<exists>d' res. Apply sample_std (\<lambda>_. False) sample_event ''c'' DefaultPolicy 1000 empty_db = (d', res, None)
    \<and> ap_Enqueued res \<and> db_next d' = 1
    \<and> mhas (t_rows (db_outbox d')) (notificationID sample_std (incident_key sample_std ''c'' sample_event) 1)"
proof -
  obtain d' res where a: "Apply sample_std (\<lambda>_. False) sample_event ''c'' DefaultPolicy 1000 empty_db = (d', res, None)"
    and q: "ap_Enqueued res" by (simp add: Apply_empty_sample Let_def)
  from apply_enqueues [OF a] q show ?thesis using a by (auto simp: empty_db_def mhas_def)
qed

text \<open>
  Eviction is oldest-first: when \<open>makeRoom\<close> succeeds by evicting, every row it removed was
  eligible and, in the order of its column and then its key, no younger than any eligible row it kept,
  and the table has room for the new key.
\<close>

theorem makeRoom_oldest_first:
  assumes "table_inv t" and "makeRoom fails name order eligible key t = (t', None)"
  shows "(mhas (t_rows t') key \<or> length (t_rows t') < stateCapacity)
    \<and> (\<forall>(k, r) \<in> set (t_rows t) - set (t_rows t'). eligible r
        \<and> (\<forall>(k', r') \<in> set (t_rows t'). eligible r' \<longrightarrow> (order r, k) \<le> (order r', k')))"
proof -
  have wf: "wf_map (t_rows t)" using assms(1) by (simp add: table_inv_def)
  have free: "mhas (t_rows t') key \<or> length (t_rows t') < stateCapacity"
    using makeRoom_free [OF assms(1), of fails name order eligible key] assms(2) by simp
  from makeRoom_cases [of fails name order eligible key t] assms(2)
  consider "t' = t" | "t_rows t' = t_rows (t_delete (victims order eligible t) t)"
    using evict_rows [of fails name order eligible t] by (metis fst_conv)
  then show ?thesis
  proof cases
    case 1
    with free show ?thesis by simp
  next
    case 2
    have el: "eligible r" if "k \<in> set (victims order eligible t)" "(k, r) \<in> set (t_rows t)" for k r
      using that wf set_oldest [of order eligible "t_rows t"]
      by (auto simp: victims_def dest!: in_set_takeD dest: eq_key_imp_eq_value)
    have "(order r, k) \<le> (order r', k')" if "k \<in> set (victims order eligible t)" "(k, r) \<in> set (t_rows t)"
      "(k', r') \<in> set (t_rows t)" "eligible r'" "k' \<notin> set (victims order eligible t)" for k r k' r'
      using victims_oldest [OF wf that(2,3,4,1,5)] .
    with el free 2 show ?thesis by (auto simp: t_delete_rows simp del: less_eq_prod_simp)
  qed
qed

text \<open>A table of 10,000 rows, the smallest one that has to evict.\<close>

definition full_table :: "'r \<Rightarrow> 'r table" where
  "full_table r = \<lparr>t_rows = map (\<lambda>i. (replicate (Suc i) (CHR ''a''), r)) [0..<10000], t_count = 10000, t_evicted = 0\<rparr>"

lemma full_table_key: "mhas (t_rows (full_table r)) k \<Longrightarrow> k \<noteq> [] \<and> set k = {CHR ''a''}"
  by (auto simp: mhas_iff full_table_def)

lemma full_table_inv: "table_inv (full_table r)"
  by (simp add: table_inv_def full_table_def distinct_map inj_on_def comp_def)

lemma full_table_length: "length (t_rows (full_table r)) = stateCapacity"
  by (simp add: full_table_def stateCapacity_def)

lemma t_delete_one:
  assumes "wf_map (t_rows t)" and "mhas (t_rows t) k"
  shows "Suc (length (t_rows (t_delete [k] t))) = length (t_rows t)"
proof -
  have "t_rows (t_delete [k] t) = mdel k (t_rows t)"
    by (simp add: t_delete_def Let_def AList.delete_eq) (rule filter_cong, auto)
  with assms show ?thesis by (simp add: length_mdel mhas_iff)
qed

lemma full_makeRoom:
  assumes "table_inv t" and "length (t_rows t) = stateCapacity" and "\<not> mhas (t_rows t) key"
  shows "snd (makeRoom (\<lambda>_. False) name order eligible key t) =
    (if \<exists>(k, r) \<in> set (t_rows t). eligible r then None else Some ErrBackpressure)"
proof -
  have n: "t_count t = stateCapacity" using assms by (simp add: table_inv_def)
  have m: "makeRoom (\<lambda>_. False) name order eligible key t = evict (\<lambda>_. False) name order eligible t"
    using assms(3) n by (simp add: makeRoom_def)
  have v: "victims order eligible t = take 1 (oldest order eligible (t_rows t))" using n by (simp add: victims_def)
  show ?thesis
  proof (cases "oldest order eligible (t_rows t)")
    case Nil
    then have "\<not> (\<exists>(k, r) \<in> set (t_rows t). eligible r)" using set_oldest [of order eligible "t_rows t"] by auto
    moreover have "t_rows (t_delete [] t) = t_rows t" by (simp add: t_delete_def Let_def)
    ultimately show ?thesis using m v n Nil by (simp add: evict_def Let_def)
  next
    case (Cons k ks)
    then have "k \<in> {k. \<exists>r. (k, r) \<in> set (t_rows t) \<and> eligible r}"
      using set_oldest [of order eligible "t_rows t"] by (metis list.set_intros(1))
    then obtain r where "(k, r) \<in> set (t_rows t)" "eligible r" by blast
    moreover from this have "Suc (length (t_rows (t_delete [k] t))) = length (t_rows t)"
      using assms(1) by (intro t_delete_one) (force simp: table_inv_def mhas_iff)+
    moreover have "0 < stateCapacity" by (simp add: stateCapacity_def)
    ultimately show ?thesis using m v n Cons assms(2) by (auto simp: evict_def Let_def)
  qed
qed

theorem makeRoom_oldest_first_witness:
  "\<exists>t'. makeRoom (\<lambda>_. False) ''seen'' sr_at (\<lambda>r. True) ''zz'' (full_table \<lparr>sr_at = 3, sr_decision = ''ignore''\<rparr>) = (t', None)
    \<and> length (t_rows t') < stateCapacity"
proof -
  let ?t = "full_table \<lparr>sr_at = 3, sr_decision = ''ignore''\<rparr>"
  have new: "\<not> mhas (t_rows ?t) ''zz''" using full_table_key [of "\<lparr>sr_at = 3, sr_decision = ''ignore''\<rparr>" "''zz''"] by auto
  have "(\<exists>(k, r) \<in> set (t_rows ?t). True) = True" by (auto simp: full_table_def)
  then obtain t' where t': "makeRoom (\<lambda>_. False) ''seen'' sr_at (\<lambda>r. True) ''zz'' ?t = (t', None)"
    using full_makeRoom [OF full_table_inv full_table_length new, of "''seen''" sr_at "\<lambda>r. True"]
    by (metis (no_types, lifting) prod.collapse)
  have "\<not> mhas (t_rows t') ''zz''"
    using new room_subset [OF t'] by (auto simp: mhas_iff)
  with makeRoom_oldest_first [OF full_table_inv t'] t' show ?thesis by blast
qed

text \<open>
  backpressure: when the outbox holds 10,000 rows that all still wait for delivery, an event that
  must be notified is refused with \<open>ErrBackpressure\<close> and the database stays as it was, so the event can
  be applied again later.
\<close>

theorem apply_backpressure:
  assumes "table_inv (db_outbox d)" and "length (t_rows (db_outbox d)) = stateCapacity"
    and "\<forall>(k, r) \<in> set (t_rows (db_outbox d)). or_status r = ''pending''" and "\<not> mhas (t_rows (db_outbox d)) []"
    and "t_count (db_seen d) < stateCapacity" and "t_count (db_incidents d) < stateCapacity"
    and "\<not> mhas (t_rows (db_seen d)) (occurrence_key S contract e)"
    and "\<not> mhas (t_rows (db_incidents d)) (incident_key S contract e)"
    and "Decide p e \<in> {''notify'', ''review''}"
  shows "Apply S (\<lambda>_. False) e contract p now d
    = (d, \<lparr>ap_Duplicate = False, ap_Enqueued = False, ap_Decision = Decide p e\<rparr>, Some ErrBackpressure)"
proof -
  have "\<not> (\<exists>(k, r) \<in> set (t_rows (db_outbox d)). settled r)" using assms(3) by (auto simp: settled_def)
  then obtain ob where ob: "room_outbox (\<lambda>_. False) [] (db_outbox d) = (ob, Some ErrBackpressure)"
    using full_makeRoom [OF assms(1,2,4), of "''outbox''" or_updated settled] by (metis prod.collapse)
  have room: "makeRoom (\<lambda>_. False) name order eligible k t = (t, None)" if "\<not> mhas (t_rows t) k" "t_count t < stateCapacity"
    for name order eligible k and t :: "'x table" using that by (simp add: makeRoom_def)
  obtain D where D: "Decide p e = D" "D = ''notify'' \<or> D = ''review''" using assms(9) by blast
  have r0: "prior_incident (db_incidents d) (incident_key S contract e) = zero_incident"
    using assms(8) by (simp add: prior_incident_def mhas_def)
  have must: "must_enqueue p D now (open_window p now zero_incident) n" for n
    by (simp add: must_enqueue_def open_window_def zero_incident_def)
  have q: "enqueue S (\<lambda>_. False) k D e c now (d\<lparr>db_seen := sn\<rparr>) = Inl ErrBackpressure" for k c sn
    using ob by (simp add: enqueue_def)
  have "record_incident S (\<lambda>_. False) k p D e now zero_incident (d\<lparr>db_seen := sn\<rparr>) = (False, Inl ErrBackpressure)" for k sn
    by (simp add: record_incident_def Let_def must q)
  with D(2) show ?thesis
    using assms(5-8) by (auto simp: Apply_def Let_def room r0 D(1) applied0_def)
qed

definition sample_full_db :: db where
  "sample_full_db = empty_db\<lparr>db_outbox := full_table
     \<lparr>or_incident = ''i'', or_payload = ''p'', or_status = ''pending'', or_attempts = 0, or_due = 5, or_updated = 5\<rparr>\<rparr>"

theorem apply_backpressure_witness:
  "Apply sample_std (\<lambda>_. False) sample_event ''c'' DefaultPolicy 1000 sample_full_db
    = (sample_full_db, \<lparr>ap_Duplicate = False, ap_Enqueued = False, ap_Decision = Decide DefaultPolicy sample_event\<rparr>,
       Some ErrBackpressure)"
proof (rule apply_backpressure)
  show "\<not> mhas (t_rows (db_outbox sample_full_db)) []"
    using full_table_key [of _ "[]"] by (auto simp: sample_full_db_def)
  show "\<forall>(k, r) \<in> set (t_rows (db_outbox sample_full_db)). or_status r = ''pending''"
    by (auto simp: sample_full_db_def full_table_def)
qed (simp_all add: sample_full_db_def full_table_inv full_table_length Decide_sample, simp_all add: empty_db_def
    empty_table_def mhas_def stateCapacity_def)

text \<open>
  under a policy that passed validation an event notifies exactly when its evidence is complete and
  confident in all three verdicts, it was judged important, and its category or severity is listed;
  and it is put up for review (or abstained from) exactly when the evidence is not complete.
\<close>

theorem decide_exact:
  assumes "Policy_Validate p = None"
  shows "(Decide p e = ''notify'' \<longleftrightarrow> complete_evidence p e \<and> Importance (ev_Judgment e) = ''important''
      \<and> (Category (ev_Judgment e) \<in> set (p_Categories p) \<or> Severity (ev_Judgment e) \<in> set (p_Severities p)))
    \<and> (Decide p e \<in> {''review'', ''abstain''} \<longleftrightarrow> \<not> complete_evidence p e)"
  using Decide_cases [OF assms] by blast

theorem decide_exact_witness:
  "Policy_Validate DefaultPolicy = None \<and> complete_evidence DefaultPolicy sample_event
    \<and> Decide DefaultPolicy (sample_event\<lparr>ev_Truncated := True\<rparr>) \<in> {''review'', ''abstain''}"
proof -
  have v: "Policy_Validate DefaultPolicy = None"
    by (simp add: Policy_Validate_def DefaultPolicy_def contains_def policy_categories_def policy_severities_def
        f64_in_def c_0_85_def)
  have "\<not> complete_evidence DefaultPolicy (sample_event\<lparr>ev_Truncated := True\<rparr>)" by (simp add: complete_evidence_def)
  with v decide_exact [OF v] Decide_sample show ?thesis by blast
qed

end
