(* ===== verification/Float64.thy ===== *)
theory Float64
  imports Prelude "HOL-Library.Log_Nat"
begin

text \<open>
  The double arithmetic of the budget and search code: the exact rational result rounded to the
  nearest double, ties to even, with overflow to infinity and gradual underflow.
\<close>

definition pow2 :: "int \<Rightarrow> rat" where
  "pow2 e = (if 0 \<le> e then 2 ^ nat e else 1 / 2 ^ nat (- e))"

definition floor_log2 :: "rat \<Rightarrow> int" where
  "floor_log2 q =
     (let (n, d) = quotient_of q; e = bitlen n - bitlen d in if pow2 e \<le> q then e else e - 1)"

definition rnd_even :: "rat \<Rightarrow> int" where
  "rnd_even x =
     (let f = \<lfloor>x\<rfloor>; r = x - of_int f in
      if r < 1 / 2 then f else if 1 / 2 < r then f + 1 else if even f then f else f + 1)"

definition rnd64 :: "rat \<Rightarrow> f64" where
  "rnd64 q =
     (if q = 0 then Fin 0
      else let u = pow2 (max (floor_log2 \<bar>q\<bar> - 52) (- 1074));
               v = of_int (rnd_even (\<bar>q\<bar> / u)) * u in
        if 2 ^ 1024 \<le> v then (if q < 0 then FNegInf else FPosInf)
        else Fin (if q < 0 then - v else v))"

fun fadd :: "f64 \<Rightarrow> f64 \<Rightarrow> f64" where
  "fadd (Fin a) (Fin b) = rnd64 (a + b)"
| "fadd FNaN _ = FNaN"
| "fadd _ FNaN = FNaN"
| "fadd FPosInf FNegInf = FNaN"
| "fadd FNegInf FPosInf = FNaN"
| "fadd FPosInf _ = FPosInf"
| "fadd _ FPosInf = FPosInf"
| "fadd FNegInf _ = FNegInf"
| "fadd _ FNegInf = FNegInf"

fun fneg :: "f64 \<Rightarrow> f64" where
  "fneg FNaN = FNaN"
| "fneg FPosInf = FNegInf"
| "fneg FNegInf = FPosInf"
| "fneg (Fin a) = Fin (- a)"

fun fmul :: "f64 \<Rightarrow> f64 \<Rightarrow> f64" where
  "fmul (Fin a) (Fin b) = rnd64 (a * b)"
| "fmul FNaN _ = FNaN"
| "fmul _ FNaN = FNaN"
| "fmul (Fin a) b = (if a = 0 then FNaN else if 0 < a then b else fneg b)"
| "fmul a (Fin b) = (if b = 0 then FNaN else if 0 < b then a else fneg a)"
| "fmul FPosInf b = b"
| "fmul FNegInf b = fneg b"

text \<open>Division by a finite non-zero constant.\<close>

fun fdiv_const :: "f64 \<Rightarrow> rat \<Rightarrow> f64" where
  "fdiv_const (Fin a) d = rnd64 (a / d)"
| "fdiv_const x d = (if 0 < d then x else fneg x)"

definition f64_of_nat :: "nat \<Rightarrow> f64" where
  "f64_of_nat n = rnd64 (of_nat n)"

text \<open>Non-negative and not NaN: what every cost in the program is.\<close>

fun nonneg :: "f64 \<Rightarrow> bool" where
  "nonneg (Fin a) = (0 \<le> a)"
| "nonneg FPosInf = True"
| "nonneg _ = False"

lemma pow2_pos [simp]: "0 < pow2 e"
  by (simp add: pow2_def)

lemma rnd_even_nonneg: "0 \<le> x \<Longrightarrow> 0 \<le> rnd_even x"
  by (auto simp: rnd_even_def Let_def)

lemma rnd64_nonneg: "0 \<le> q \<Longrightarrow> nonneg (rnd64 q)"
proof (cases "q = 0")
  case False
  moreover assume "0 \<le> q"
  ultimately have "0 < q" by simp
  let ?u = "pow2 (max (floor_log2 \<bar>q\<bar> - 52) (- 1074))"
  have "0 \<le> \<bar>q\<bar> / ?u" by (simp add: less_imp_le)
  then have "0 \<le> (of_int (rnd_even (\<bar>q\<bar> / ?u)) * ?u :: rat)"
    by (simp add: rnd_even_nonneg less_imp_le)
  with \<open>0 < q\<close> show ?thesis by (simp add: rnd64_def Let_def)
qed (simp add: rnd64_def)

lemma fadd_nonneg: "nonneg a \<Longrightarrow> nonneg b \<Longrightarrow> nonneg (fadd a b)"
  by (cases a; cases b) (auto intro: rnd64_nonneg)

lemma fmul_nonneg: "0 \<le> a \<Longrightarrow> 0 \<le> b \<Longrightarrow> nonneg (fmul (Fin a) (Fin b))"
  by (simp add: rnd64_nonneg)

lemma fdiv_nonneg: "nonneg a \<Longrightarrow> 0 < d \<Longrightarrow> nonneg (fdiv_const a d)"
  by (cases a) (auto intro: rnd64_nonneg)

lemma f64_of_nat_nonneg: "nonneg (f64_of_nat n)"
  by (simp add: f64_of_nat_def rnd64_nonneg)

lemma nonneg_le_Fin: "nonneg a \<Longrightarrow> f64_le a (Fin b) \<Longrightarrow> \<exists>q. a = Fin q \<and> 0 \<le> q \<and> q \<le> b"
  by (cases a) auto

lemma nonneg_not_gt: "nonneg a \<Longrightarrow> \<not> f64_lt (Fin b) a \<Longrightarrow> f64_le a (Fin b)"
  by (cases a) (auto simp: f64_lt_def)

lemma pow2_mono: "a \<le> b \<Longrightarrow> pow2 a \<le> pow2 b"
proof -
  assume "a \<le> b"
  consider "0 \<le> a" | "a < 0" "0 \<le> b" | "b < 0" by linarith
  then show ?thesis
  proof cases
    case 1
    with \<open>a \<le> b\<close> show ?thesis by (simp add: pow2_def power_increasing nat_mono)
  next
    case 2
    then have "(1::rat) \<le> 2 ^ nat b" by simp
    moreover have "1 / (2 ^ nat (- a)) \<le> (1::rat)" by simp
    ultimately have "1 / (2 ^ nat (- a)) \<le> (2::rat) ^ nat b" by (rule order_trans [rotated])
    then show ?thesis using 2 by (simp add: pow2_def)
  next
    case 3
    with \<open>a \<le> b\<close> have "(2::rat) ^ nat (- b) \<le> 2 ^ nat (- a)" by (intro power_increasing) auto
    with 3 \<open>a \<le> b\<close> show ?thesis by (simp add: pow2_def frac_le)
  qed
qed

lemma rnd_even_le: "of_int (rnd_even x) \<le> x + 1"
proof -
  have "of_int \<lfloor>x\<rfloor> \<le> x" "of_int \<lfloor>x\<rfloor> \<le> x + 1"
    by (simp_all add: add_increasing2)
  then show ?thesis by (auto simp: rnd_even_def Let_def)
qed

lemma f64_of_nat_Fin: "n < 2 ^ 50 \<Longrightarrow> \<exists>q. f64_of_nat n = Fin q \<and> 0 \<le> q"
proof -
  assume n: "n < 2 ^ 50"
  let ?q = "of_nat n :: rat"
  have "bitlen (int n) \<le> 50"
    using n bitlen_le_iff_power [of "int n" 50] by simp
  have "quotient_of ?q = (int n, 1)" by (metis of_int_of_nat_eq Rat.of_int_def quotient_of_int)
  then have "floor_log2 ?q \<le> 50" using \<open>bitlen (int n) \<le> 50\<close> bitlen_nonneg [of 1]
    by (auto simp: floor_log2_def Let_def)
  then have u: "pow2 (max (floor_log2 \<bar>?q\<bar> - 52) (- 1074)) \<le> pow2 0"
    by (intro pow2_mono) simp
  let ?u = "pow2 (max (floor_log2 \<bar>?q\<bar> - 52) (- 1074))"
  have "of_int (rnd_even (\<bar>?q\<bar> / ?u)) * ?u \<le> (\<bar>?q\<bar> / ?u + 1) * ?u"
    by (intro mult_right_mono rnd_even_le) (simp add: less_imp_le)
  also have "\<dots> = ?q + ?u" using pow2_pos [of "max (floor_log2 \<bar>?q\<bar> - 52) (- 1074)"] by (simp add: distrib_right less_imp_neq [symmetric])
  also have "\<dots> < 2 ^ 50 + 1" using n u by (simp add: pow2_def) 
  also have "\<dots> \<le> 2 ^ 1024" by simp
  finally have "\<not> 2 ^ 1024 \<le> of_int (rnd_even (\<bar>?q\<bar> / ?u)) * ?u" by simp
  then have "\<exists>q. f64_of_nat n = Fin q" by (auto simp: f64_of_nat_def rnd64_def Let_def)
  with f64_of_nat_nonneg [of n] show ?thesis by (auto)
qed

end
