(* ===== verification/Provider.thy ===== *)
theory Provider
  imports Schema Float64 Samples
begin

text \<open>
  \<open>internal/provider\<close>: dossiers of evidence, the decoding of the three provider protocols, the budget
  of a client (\<open>reserve\<close>, \<open>record\<close>, \<open>send\<close>) and the parallel judge.  The HTTP exchange is a
  parameter: for each attempt, what the context, the transport and the server did.
\<close>

definition MaxResponse :: nat where "MaxResponse = 1048576"

section \<open>Dossiers\<close>

datatype CacheMode = CacheDefault | CacheRefresh | CacheBypass

record dossier =
  d_CacheMode :: CacheMode
  d_TemplateID :: string
  d_VersionID :: string
  d_ScopeID :: string
  d_Source :: string
  d_SourceMetadata :: source
  d_WindowOccurrences :: nat
  d_LifetimeOccurrences :: "nat option"
  d_Samples :: "string list"
  d_BaselineImportant :: bool
  d_LocalRisk :: bool
  d_SecuritySignal :: bool
  d_Truncated :: bool
  d_Sensitive :: bool
  d_EvidenceLimited :: bool
  d_SamplesLimited :: bool
  d_Reason :: string
  d_EvidenceID :: string

definition Dossier_Observe :: "dossier \<Rightarrow> event \<Rightarrow> dossier" where
  "Dossier_Observe d e =
     (let (s, changed) = Redact (ev_Text e);
          d1 = d\<lparr>d_WindowOccurrences := d_WindowOccurrences d + 1,
                 d_BaselineImportant := d_BaselineImportant d \<or> Important (ev_Baseline e),
                 d_LocalRisk := d_LocalRisk d \<or> Important (ev_Baseline e),
                 d_SecuritySignal := d_SecuritySignal d \<or> SecurityShaped (ev_Text e),
                 d_Truncated := d_Truncated d \<or> ev_Truncated e,
                 d_Sensitive := d_Sensitive d \<or> ev_Sensitive e \<or> changed,
                 d_EvidenceLimited := d_EvidenceLimited d \<or> 2048 < length s \<or> ev_Truncated e
                   \<or> ev_ParseUncertain e\<rparr>;
          c = Clip s 2048
      in if c \<in> set (d_Samples d1) then d1
         else if length (d_Samples d1) < 8 then d1\<lparr>d_Samples := d_Samples d1 @ [c]\<rparr>
         else d1\<lparr>d_SamplesLimited := True\<rparr>)"

text \<open>Evidence that may neither be served from nor published to a verdict cache.\<close>

definition unsafe_dossier :: "dossier \<Rightarrow> bool" where
  "unsafe_dossier d = (d_Sensitive d \<or> d_Truncated d \<or> d_EvidenceLimited d \<or> d_SamplesLimited d
     \<or> d_SecuritySignal d)"

section \<open>Configuration\<close>

record config =
  MaxBatches :: nat
  Kind :: string
  Model :: string
  InputPrice :: f64
  OutputPrice :: f64
  MaxCost :: f64
  MaxAttempts :: nat

definition endpoints :: "(string, string) gomap" where
  "endpoints = [(''typesafe'', ''https://api.typesafe.ai/v1/systemone''),
     (''openai'', ''https://api.openai.com/v1/responses''),
     (''anthropic'', ''https://api.anthropic.com/v1/messages'')]"

definition modelID :: rx where
  "modelID = rseq [RBegin, (let r = RCls (\<lambda>c. lower_c c \<or> upper_c c \<or> digit_c c \<or> one_of ''._:/-'' c) in
     RSeq r (rupto 127 r)), REnd]"

text \<open>\<open>math.IsNaN(v) || math.IsInf(v, 0) || v < 0\<close> negated.\<close>

definition price_ok :: "f64 \<Rightarrow> bool" where
  "price_ok v = (case v of Fin q \<Rightarrow> 0 \<le> q | _ \<Rightarrow> False)"

definition Config_Validate :: "config \<Rightarrow> status" where
  "Config_Validate c =
     (if \<not> mhas endpoints (Kind c) then Some (Err ''invalid risk provider'')
      else if \<not> MatchString modelID (Model c) then Some (Err ''invalid provider model'')
      else if \<not> list_all price_ok [InputPrice c, OutputPrice c, MaxCost c]
        then Some (Err ''invalid provider price or budget'')
      else if MaxAttempts c < 1 \<or> 100000 < MaxAttempts c then Some (Err ''invalid provider attempt limit'')
      else None)"

definition valid_key :: "string \<Rightarrow> bool" where
  "valid_key key = (key \<noteq> [] \<and> length key \<le> 16384 \<and> list_all (\<lambda>(r, b, v). \<not> (r < 32 \<or> r = 127)) (rune_chunks key))"

record usage =
  u_Batches :: nat
  u_Attempts :: nat
  u_Finished :: nat
  u_Metered :: nat
  u_Unmetered :: nat
  u_Input :: nat
  u_Output :: nat
  u_Cost :: f64
  u_Reserved :: f64
  u_Complete :: bool
  u_Breaker :: string

definition usage0 :: usage where
  "usage0 = \<lparr>u_Batches = 0, u_Attempts = 0, u_Finished = 0, u_Metered = 0, u_Unmetered = 0, u_Input = 0,
     u_Output = 0, u_Cost = Fin 0, u_Reserved = Fin 0, u_Complete = True, u_Breaker = []\<rparr>"

record client =
  cl_config :: config
  cl_key :: string
  cl_usage :: usage

definition Client_New :: "config \<Rightarrow> string \<Rightarrow> client result" where
  "Client_New c key0 =
     (case Config_Validate c of
       Some e \<Rightarrow> Inl e
     | None \<Rightarrow> (let key = TrimSpace key0 in
         if \<not> valid_key key then Inl (Err ''invalid provider key configuration'')
         else Inr \<lparr>cl_config = c, cl_key = key, cl_usage = usage0\<rparr>))"

text \<open>\<open>lookup\<close> is the environment and \<open>readFile\<close> the bounded read of a key file.\<close>

definition credential_names :: "(string, string list) gomap" where
  "credential_names =
     [(''typesafe'', [''TYPESAFE_API_KEY'', ''TYPESAFEAI_API_KEY'', ''TYPESAFE_API_KEY_FILE'']),
      (''openai'', [''OPENAI_API_KEY'', ''OPENAI_API_KEY_FILE'']),
      (''anthropic'', [''ANTHROPIC_API_KEY'', ''ANTHROPIC_API_KEY_FILE''])]"

fun first_credential :: "(string \<Rightarrow> string) \<Rightarrow> (string \<Rightarrow> string result) \<Rightarrow> string list \<Rightarrow> string result" where
  "first_credential lookup readFile [] = Inl (Err ''selected provider key missing; use --offline for local rules'')"
| "first_credential lookup readFile (n # ns) =
     (if lookup n = [] then first_credential lookup readFile ns
      else case (if HasSuffix n ''_FILE'' then readFile (lookup n) else Inr (lookup n)) of
        Inl e \<Rightarrow> Inl (Err ''cannot read provider key file'')
      | Inr b \<Rightarrow> (let v = TrimSpace b in
          if valid_key v then Inr v else Inl (Err ''invalid provider key configuration'')))"

definition CredentialContext :: "string \<Rightarrow> (string \<Rightarrow> string) \<Rightarrow> (string \<Rightarrow> string result) \<Rightarrow> string result" where
  "CredentialContext kind lookup readFile = first_credential lookup readFile (mgetd [] credential_names kind)"

section \<open>Decoding answers\<close>

record choiceAnswer =
  ca_Type :: string
  ca_Choice :: string
  ca_Confidence :: "f64 option"
  ca_Probabilities :: "(string, f64) gomap"

definition choice_member :: "std \<Rightarrow> choiceAnswer \<Rightarrow> string \<Rightarrow> json \<Rightarrow> choiceAnswer option" where
  "choice_member S a k v =
     (if is_field ''type'' k then map_option (\<lambda>s. a\<lparr>ca_Type := s\<rparr>) (dec_string (ca_Type a) v)
      else if is_field ''choice'' k then map_option (\<lambda>s. a\<lparr>ca_Choice := s\<rparr>) (dec_string (ca_Choice a) v)
      else if is_field ''confidence'' k then map_option (\<lambda>c. a\<lparr>ca_Confidence := c\<rparr>) (dec_float_ptr S v)
      else if is_field ''probabilities'' k then map_option (\<lambda>m. a\<lparr>ca_Probabilities := m\<rparr>)
        (dec_map (\<lambda>x. map_option (\<lambda>c. case c of None \<Rightarrow> Fin 0 | Some p \<Rightarrow> p) (dec_float_ptr S x)) v)
      else None)"

definition dec_choice :: "std \<Rightarrow> json \<Rightarrow> choiceAnswer option" where
  "dec_choice S v = dec_struct (choice_member S)
     \<lparr>ca_Type = [], ca_Choice = [], ca_Confidence = None, ca_Probabilities = []\<rparr> v"

definition choice_Validate :: "choiceAnswer \<Rightarrow> status" where
  "choice_Validate a =
     (if ca_Type a \<noteq> ''choice'' \<or> \<not> in_unit (ca_Confidence a) then Some ErrSchema
      else if list_all (\<lambda>(k, p). f64_in (Fin 0) (Fin 1) p) (ca_Probabilities a) then None else Some ErrSchema)"

definition group_key :: "nat \<Rightarrow> string \<Rightarrow> string" where
  "group_key i name = ''g'' @ show_nat i @ ''_'' @ name"

text \<open>The judgment of group \<open>i\<close>, or \<open>None\<close> for a missing or invalid answer.\<close>

definition typesafe_judgment :: "(string, choiceAnswer) gomap \<Rightarrow> nat \<Rightarrow> Judgment option" where
  "typesafe_judgment answers i =
     (case (mget answers (group_key i ''importance''), mget answers (group_key i ''severity''),
            mget answers (group_key i ''category'')) of
       (Some a, Some b, Some c) \<Rightarrow>
         if choice_Validate a \<noteq> None \<or> choice_Validate b \<noteq> None \<or> choice_Validate c \<noteq> None then None
         else (let j = (verdict (ca_Choice a) (ca_Choice b) (ca_Choice c))
                    \<lparr>ImportanceConfidence := ca_Confidence a, SeverityConfidence := ca_Confidence b,
                     CategoryConfidence := ca_Confidence c\<rparr>
               in if Validate j = None then Some j else None)
     | _ \<Rightarrow> None)"

definition raw_str :: "(string, json) gomap \<Rightarrow> string \<Rightarrow> string" where
  "raw_str m k = (case mget m k of Some (JStr s) \<Rightarrow> s | _ \<Rightarrow> [])"

text \<open>\<open>len(v[k]) > 0 && string(v[k]) != "null"\<close>.\<close>

definition present :: "(string, json) gomap \<Rightarrow> string \<Rightarrow> bool" where
  "present m k = (case mget m k of None \<Rightarrow> False | Some v \<Rightarrow> v \<noteq> JNull)"

definition raw_objects :: "json option \<Rightarrow> (string, json) gomap list option" where
  "raw_objects v = (case v of None \<Rightarrow> None | Some x \<Rightarrow> dec_list (dec_map Some) x)"

fun openai_text :: "(string, json) gomap list \<Rightarrow> string \<Rightarrow> string result" where
  "openai_text [] text = Inr text"
| "openai_text (b # bs) text =
     (if raw_str b ''type'' = ''reasoning'' then openai_text bs text
      else if raw_str b ''type'' \<noteq> ''message'' \<or> raw_str b ''role'' \<noteq> ''assistant''
        \<or> raw_str b ''status'' \<noteq> ''completed'' then Inl ErrSchema
      else case raw_objects (mget b ''content'') of
        Some [c] \<Rightarrow> if raw_str c ''type'' \<noteq> ''output_text'' \<or> text \<noteq> [] then Inl ErrSchema
                  else openai_text bs (raw_str c ''text'')
      | _ \<Rightarrow> Inl ErrSchema)"

fun anthropic_text :: "(string, json) gomap list \<Rightarrow> string \<Rightarrow> string result" where
  "anthropic_text [] text = Inr text"
| "anthropic_text (b # bs) text =
     (let t = raw_str b ''type'' in
      if t = ''thinking'' \<or> t = ''redacted_thinking'' then anthropic_text bs text
      else if t = ''text'' then
        (if text \<noteq> [] then Inl ErrSchema else anthropic_text bs (raw_str b ''text''))
      else Inl ErrSchema)"

definition Output :: "string \<Rightarrow> string \<Rightarrow> string result" where
  "Output kind raw =
     (if MaxResponse < length raw then Inl ErrSchema
      else case Strict (dec_map Some) raw of
        Inl e \<Rightarrow> Inl ErrSchema
      | Inr v \<Rightarrow>
         if kind = ''openai'' then
           (if raw_str v ''status'' \<noteq> ''completed'' \<or> present v ''error'' \<or> present v ''incomplete_details''
            then Inl ErrSchema
            else case raw_objects (mget v ''output'') of
              None \<Rightarrow> Inl ErrSchema | Some blocks \<Rightarrow> openai_text blocks [])
         else if kind = ''anthropic'' then
           (if raw_str v ''type'' \<noteq> ''message'' \<or> raw_str v ''role'' \<noteq> ''assistant''
              \<or> raw_str v ''stop_reason'' \<noteq> ''end_turn'' then Inl ErrSchema
            else case raw_objects (mget v ''content'') of
              None \<Rightarrow> Inl ErrSchema | Some blocks \<Rightarrow> anthropic_text blocks [])
         else Inl ErrSchema)"

definition Decode :: "std \<Rightarrow> string \<Rightarrow> string \<Rightarrow> nat \<Rightarrow> Judgment list result" where
  "Decode S kind raw count =
     (if MaxResponse < length raw then Inl ErrSchema
      else case Strict (dec_map Some) raw of
        Inl e \<Rightarrow> Inl ErrSchema
      | Inr v \<Rightarrow>
         if kind = ''typesafe'' then
           (case mget v ''answers'' of
             None \<Rightarrow> Inl ErrSchema
           | Some av \<Rightarrow>
              (case StrictJson (dec_map (dec_choice S)) av of
                Inl e \<Rightarrow> Inl ErrSchema
              | Inr answers \<Rightarrow>
                 if length answers \<noteq> count * 3 then Inl ErrSchema
                 else (case those (map (typesafe_judgment answers) [0..<count]) of
                   None \<Rightarrow> Inl ErrSchema | Some js \<Rightarrow> Inr js)))
         else (case Output kind raw of Inl e \<Rightarrow> Inl e | Inr output \<Rightarrow> decodeTyped S output count))"

definition sample_answer :: string where
  "sample_answer = concat (map (\<lambda>c. if c = CHR ''~'' then [CHR 0x22] else [c])
     ''{~judgments~:[{~importance~:~routine~,~severity~:~info~,~category~:~data~,~importance_confidence~:1,~severity_confidence~:1,~category_confidence~:1}]}'')"

definition sample_response :: string where
  "sample_response = marshal (JObj [(''status'', JStr ''completed''),
     (''output'', JArr [JObj [(''type'', JStr ''message''), (''role'', JStr ''assistant''), (''status'', JStr ''completed''),
       (''content'', JArr [JObj [(''type'', JStr ''output_text''), (''text'', JStr sample_answer)]])]])])"

definition sample_dossier :: dossier where
  "sample_dossier = \<lparr>d_CacheMode = CacheDefault, d_TemplateID = ''t1'', d_VersionID = ''v1'', d_ScopeID = ''s1'',
     d_Source = ''pod'', d_SourceMetadata = sample_source, d_WindowOccurrences = 1, d_LifetimeOccurrences = None,
     d_Samples = [''disk failed''], d_BaselineImportant = False, d_LocalRisk = False, d_SecuritySignal = False,
     d_Truncated = False, d_Sensitive = True, d_EvidenceLimited = False, d_SamplesLimited = False,
     d_Reason = [], d_EvidenceID = ''e1''\<rparr>"

section \<open>What a decoded answer is\<close>

lemma typesafe_judgment_valid: "typesafe_judgment answers i = Some j \<Longrightarrow> Validate j = None"
  by (auto simp: typesafe_judgment_def Let_def split: option.splits if_splits)

lemma those_map_Some: "those (map f xs) = Some ys \<Longrightarrow> length ys = length xs \<and> (\<forall>y \<in> set ys. \<exists>x \<in> set xs. f x = Some y)"
proof (induction xs arbitrary: ys)
  case Nil
  then show ?case by simp
next
  case (Cons x xs)
  then obtain y zs where "f x = Some y" "those (map f xs) = Some zs" "ys = y # zs" by (auto split: option.splits)
  with Cons.IH [of zs] show ?case by auto
qed

lemma in_unit_D: "in_unit c \<Longrightarrow> \<exists>q. c = Some (Fin q) \<and> 0 \<le> q \<and> q \<le> 1"
  by (auto simp: in_unit_def dest: f64_in_unit_Fin split: option.splits)

text \<open>
  C38: whatever bytes a provider returns, a decoded answer has exactly one judgment per group asked
  about, each with known verdicts, no error text, and three confidences that are numbers from 0 to 1.
\<close>

theorem decode_complete:
  assumes "Decode S kind raw n = Inr js"
  shows "length js = n \<and> length raw \<le> 1048576 \<and> (\<forall>j \<in> set js. Importance j \<in> set importances
    \<and> Severity j \<in> set severities \<and> Category j \<in> set categories \<and> AnalysisError j = []
    \<and> (\<forall>c \<in> set (confidences j). \<exists>q. c = Some (Fin q) \<and> 0 \<le> q \<and> q \<le> 1))"
proof -
  have raw: "length raw \<le> 1048576" using assms by (auto simp: Decode_def MaxResponse_def split: if_splits)
  have v: "length js = n \<and> (\<forall>j \<in> set js. Validate j = None)"
  proof (cases "kind = ''typesafe''")
    case True
    with assms show ?thesis
      by (auto simp: Decode_def split: if_splits sum.splits option.splits
          dest!: those_map_Some [of "typesafe_judgment _"] dest: typesafe_judgment_valid)
  next
    case False
    with assms show ?thesis
      using decodeTyped_valid by (auto simp: Decode_def split: if_splits sum.splits)
  qed
  with raw show ?thesis by (auto simp: Validate_None_iff list_all_iff dest: in_unit_D)
qed

theorem decode_complete_witness:
  "\<exists>j. Decode sample_std ''openai'' sample_response 1 = Inr [j] \<and> AnalysisError j = []"
proof -
  have "case Decode sample_std ''openai'' sample_response 1 of Inl e \<Rightarrow> False | Inr js \<Rightarrow> True"
    by code_simp
  then obtain js where d: "Decode sample_std ''openai'' sample_response 1 = Inr js" by (auto split: sum.splits)
  from decode_complete [OF d] d show ?thesis by (auto simp: length_Suc_conv)
qed

end
