(* ===== verification/Budget.thy ===== *)
theory Budget
  imports Provider Samples "HOL-Library.Multiset"
begin

text \<open>
  The spending side of \<open>internal/provider/provider.go\<close>: \<open>reserve\<close>, \<open>record\<close> and \<open>send\<close>, and
  \<open>parallel.go\<close>.  \<open>reserve\<close> and \<open>record\<close> run under the client's mutex, so concurrent calls interleave
  at their boundaries: \<open>client_run\<close> runs any such interleaving, \<open>send\<close> is one call on its own.
\<close>

section \<open>Admission\<close>

text \<open>\<open>(float64(size)*InputPrice + 16384*OutputPrice) / 1e6\<close>.\<close>

definition reservation :: "config \<Rightarrow> nat \<Rightarrow> f64" where
  "reservation c sz =
     fdiv_const (fadd (fmul (f64_of_nat sz) (InputPrice c)) (fmul (Fin 16384) (OutputPrice c))) 1000000"

definition client_reserve :: "config \<Rightarrow> nat \<Rightarrow> usage \<Rightarrow> usage \<times> status" where
  "client_reserve c sz u =
     (let r = reservation c sz in
      if u_Breaker u \<noteq> [] \<or> MaxAttempts c \<le> u_Attempts u \<or> f64_lt (MaxCost c) (fadd (u_Reserved u) r)
      then (u\<lparr>u_Breaker := ''budget exhausted''\<rparr>, Some (Err ''provider budget exhausted''))
      else (u\<lparr>u_Attempts := u_Attempts u + 1, u_Reserved := fadd (u_Reserved u) r\<rparr>, None))"

section \<open>Metering\<close>

text \<open>The \<open>usage\<close> object of a response; repeated members merge into the same map.\<close>

definition usage_member :: "(string, json) gomap option \<Rightarrow> string \<times> json \<Rightarrow> (string, json) gomap option" where
  "usage_member acc kv =
     (case acc of None \<Rightarrow> None
      | Some m \<Rightarrow>
         (if is_field ''usage'' (fst kv) then
            (case snd kv of JNull \<Rightarrow> Some []
             | JObj kvs \<Rightarrow> Some (foldl (\<lambda>m (k, v). mput k v m) m kvs)
             | _ \<Rightarrow> None)
          else Some m))"

definition usage_map :: "string option \<Rightarrow> (string, json) gomap" where
  "usage_map raw = (case raw of None \<Rightarrow> [] | Some r \<Rightarrow>
     (case json_parse r of
       Some (JObj kvs) \<Rightarrow> (case foldl usage_member (Some []) kvs of None \<Rightarrow> [] | Some m \<Rightarrow> m)
     | _ \<Rightarrow> []))"

definition max_tokens :: nat where "max_tokens = 1099511627776"

definition read_tokens :: "(string, json) gomap \<Rightarrow> string \<Rightarrow> nat \<times> bool" where
  "read_tokens m k =
     (case mget m k of None \<Rightarrow> (0, False)
      | Some v \<Rightarrow> (case dec_uint v of None \<Rightarrow> (0, False)
          | Some n \<Rightarrow> if max_tokens < n then (0, False) else (n, True)))"

definition add_cached :: "(string, json) gomap \<Rightarrow> string \<Rightarrow> nat \<times> bool \<Rightarrow> nat \<times> bool" where
  "add_cached m k acc =
     (if mhas m k then (let (n, valid) = read_tokens m k in (fst acc + n, snd acc \<and> valid)) else acc)"

definition input_tokens :: "config \<Rightarrow> (string, json) gomap \<Rightarrow> nat \<times> bool" where
  "input_tokens c m =
     (let i = read_tokens m ''input_tokens'' in
      if Kind c = ''anthropic''
      then add_cached m ''cache_read_input_tokens'' (add_cached m ''cache_creation_input_tokens'' i)
      else i)"

definition client_record :: "config \<Rightarrow> string option \<Rightarrow> f64 \<Rightarrow> usage \<Rightarrow> usage" where
  "client_record c raw reserved u0 =
     (let u = u0\<lparr>u_Finished := u_Finished u0 + 1\<rparr>;
          m = usage_map raw;
          (inp, ok) = input_tokens c m;
          (out, ok2) = read_tokens m ''output_tokens'' in
      if \<not> ok \<or> \<not> ok2 then
        u\<lparr>u_Unmetered := u_Unmetered u + 1, u_Complete := False, u_Breaker := ''usage incomplete''\<rparr>
      else
        (let cost = fdiv_const (fadd (fmul (f64_of_nat inp) (InputPrice c)) (fmul (f64_of_nat out) (OutputPrice c))) 1000000;
             v = u\<lparr>u_Metered := u_Metered u + 1, u_Input := u_Input u + inp, u_Output := u_Output u + out,
                   u_Cost := fadd (u_Cost u) cost\<rparr> in
         if f64_lt reserved cost then v\<lparr>u_Breaker := ''reservation underestimated'', u_Complete := False\<rparr>
         else v))"

section \<open>One call\<close>

text \<open>
  What the outside did in one attempt: the context before it, the exchange (an error, or a status,
  a body read up to the limit and whether that read failed), and the wait before the next attempt.
\<close>

record attempt =
  at_ctx :: status
  at_response :: "(nat \<times> string \<times> bool) option"
  at_wait :: status

definition retryable :: "nat \<Rightarrow> bool" where
  "retryable code = (code \<in> {429, 500, 502, 503, 504})"

text \<open>The loop of \<open>send\<close> over its (at most three) attempts.\<close>

fun send_attempts :: "config \<Rightarrow> nat \<Rightarrow> attempt list \<Rightarrow> usage \<Rightarrow> usage \<times> string result" where
  "send_attempts c sz [] u = (u, Inl (Err ''provider retries exhausted''))"
| "send_attempts c sz (a # as) u =
     (case at_ctx a of
       Some e \<Rightarrow> (u, Inl e)
     | None \<Rightarrow>
        (case client_reserve c sz u of
          (u1, Some e) \<Rightarrow> (u1, Inl e)
        | (u1, None) \<Rightarrow>
           (case at_response a of
             None \<Rightarrow> (client_record c None (reservation c sz) u1, Inl (Err ''provider request failed''))
           | Some (code, body, readErr) \<Rightarrow>
              (let u2 = client_record c (Some body) (reservation c sz) u1 in
               if readErr \<or> MaxResponse < length body
               then (u2, Inl (Err ''provider response exceeds limit or failed''))
               else if code = 200 then (u2, Inr body)
               else if \<not> retryable code then (u2, Inl (Err ''provider request rejected''))
               else (case at_wait a of
                 Some e \<Rightarrow> (u2, Inl e)
               | None \<Rightarrow> send_attempts c sz as u2)))))"

text \<open>The batch admission at the head of \<open>send\<close>.\<close>

definition batch_cap :: "config \<Rightarrow> nat" where
  "batch_cap c = (if MaxBatches c = 0 then MaxAttempts c else MaxBatches c)"

definition client_batch :: "config \<Rightarrow> usage \<Rightarrow> usage \<times> status" where
  "client_batch c u =
     (if batch_cap c \<le> u_Batches u then (u, Some (Err ''provider batch budget exhausted''))
      else (u\<lparr>u_Batches := u_Batches u + 1\<rparr>, None))"

definition client_send :: "config \<Rightarrow> nat \<Rightarrow> attempt list \<Rightarrow> usage \<Rightarrow> usage \<times> string result" where
  "client_send c sz as u =
     (case client_batch c u of
       (u1, Some e) \<Rightarrow> (u1, Inl e)
     | (u1, None) \<Rightarrow>
        (if MaxResponse < sz then (u1, Inl (Err ''provider request exceeds limit''))
         else send_attempts c sz (take 3 as) u1))"

text \<open>\<open>sz\<close> is the length of the marshalled request for these groups.\<close>

definition Client_Judge :: "std \<Rightarrow> config \<Rightarrow> nat \<Rightarrow> attempt list \<Rightarrow> dossier list \<Rightarrow> usage \<Rightarrow> usage \<times> Judgment list result" where
  "Client_Judge S c sz as groups u =
     (if length groups < 1 \<or> 64 < length groups then (u, Inl ErrSchema)
      else case client_send c sz as u of
        (u1, Inl e) \<Rightarrow> (u1, Inl e)
      | (u1, Inr raw) \<Rightarrow> (u1, Decode S (Kind c) raw (length groups)))"

section \<open>Interleaved calls\<close>

text \<open>The client's critical sections, as concurrent \<open>send\<close>s take them.\<close>

datatype client_op =
    OpBatch
  | OpReserve nat
  | OpRecord "string option" f64

definition client_step :: "config \<Rightarrow> client_op \<Rightarrow> usage \<Rightarrow> usage" where
  "client_step c x u = (case x of
     OpBatch \<Rightarrow> fst (client_batch c u)
   | OpReserve sz \<Rightarrow> fst (client_reserve c sz u)
   | OpRecord raw r \<Rightarrow> client_record c raw r u)"

definition client_run :: "config \<Rightarrow> client_op list \<Rightarrow> usage \<Rightarrow> usage" where
  "client_run c ops u = fold (client_step c) ops u"

section \<open>The budget invariant\<close>

text \<open>
  Reserved money is a number between 0 and the cap, attempts and batches stay under theirs, and the
  64-bit token counters cannot wrap: each metered answer adds at most three times \<open>2^40\<close>.
\<close>

definition usage_inv :: "config \<Rightarrow> usage \<Rightarrow> bool" where
  "usage_inv c u =
     (nonneg (u_Reserved u) \<and> f64_le (u_Reserved u) (MaxCost c) \<and> u_Attempts u \<le> MaxAttempts c
      \<and> u_Batches u \<le> batch_cap c \<and> u_Finished u = u_Metered u + u_Unmetered u
      \<and> u_Input u \<le> 3 * max_tokens * u_Metered u \<and> u_Output u \<le> max_tokens * u_Metered u
      \<and> (0 < u_Unmetered u \<longrightarrow> \<not> u_Complete u \<and> u_Breaker u \<noteq> []))"

lemma valid_config_prices:
  "Config_Validate c = None \<Longrightarrow> \<exists>i x m. InputPrice c = Fin i \<and> OutputPrice c = Fin x \<and> MaxCost c = Fin m
     \<and> 0 \<le> i \<and> 0 \<le> x \<and> 0 \<le> m"
  by (auto simp: Config_Validate_def price_ok_def split: if_splits f64.splits)

text \<open>Every request of \<open>send\<close> is at most \<open>MaxResponse\<close> bytes long when it reaches \<open>reserve\<close>.\<close>

lemma reservation_nonneg:
  assumes "Config_Validate c = None" and "sz \<le> MaxResponse"
  shows "nonneg (reservation c sz)"
proof -
  obtain i x where p: "InputPrice c = Fin i" "OutputPrice c = Fin x" "0 \<le> i" "0 \<le> x"
    using valid_config_prices [OF assms(1)] by blast
  have "sz < 2 ^ 50" using assms(2) by (simp add: MaxResponse_def)
  from f64_of_nat_Fin [OF this] obtain q where "f64_of_nat sz = Fin q" "0 \<le> q" by blast
  with p show ?thesis
    by (simp add: reservation_def fdiv_nonneg fadd_nonneg fmul_nonneg rnd64_nonneg)
qed

lemma usage_inv_usage0: "Config_Validate c = None \<Longrightarrow> usage_inv c usage0"
  using valid_config_prices [of c] by (auto simp: usage_inv_def usage0_def)

lemma client_reserve_inv:
  assumes "Config_Validate c = None" and "sz \<le> MaxResponse" and "usage_inv c u"
  shows "usage_inv c (fst (client_reserve c sz u))"
proof -
  obtain m where m: "MaxCost c = Fin m" using valid_config_prices [OF assms(1)] by blast
  have n: "nonneg (fadd (u_Reserved u) (reservation c sz))"
    using assms by (intro fadd_nonneg reservation_nonneg) (auto simp: usage_inv_def)
  have "f64_le (fadd (u_Reserved u) (reservation c sz)) (MaxCost c)"
    if "\<not> f64_lt (MaxCost c) (fadd (u_Reserved u) (reservation c sz))"
    using that n unfolding m by (rule nonneg_not_gt [rotated])
  with n assms(3) show ?thesis
    by (auto simp: client_reserve_def Let_def usage_inv_def)
qed

lemma read_tokens_le: "fst (read_tokens m k) \<le> max_tokens"
  by (simp add: read_tokens_def split: option.splits)

lemma input_tokens_le: "fst (input_tokens c m) \<le> 3 * max_tokens"
proof -
  have a: "fst (add_cached m k acc) \<le> max_tokens + fst acc" for k acc
    using read_tokens_le [of m k] by (auto simp: add_cached_def split: prod.splits)
  have i: "fst (read_tokens m ''input_tokens'') \<le> max_tokens" by (rule read_tokens_le)
  show ?thesis
    unfolding input_tokens_def Let_def
    using i a [of "''cache_read_input_tokens''" "add_cached m ''cache_creation_input_tokens'' (read_tokens m ''input_tokens'')"]
      a [of "''cache_creation_input_tokens''" "read_tokens m ''input_tokens''"]
    by simp
qed

lemma client_record_inv: "usage_inv c u \<Longrightarrow> usage_inv c (client_record c raw r u)"
  using input_tokens_le [of c "usage_map raw"] read_tokens_le [of "usage_map raw" "''output_tokens''"]
  by (auto simp: client_record_def usage_inv_def Let_def split: prod.splits)

lemma client_batch_inv: "usage_inv c u \<Longrightarrow> usage_inv c (fst (client_batch c u))"
  by (simp add: client_batch_def usage_inv_def)

definition op_ok :: "client_op \<Rightarrow> bool" where
  "op_ok x = (case x of OpReserve sz \<Rightarrow> sz \<le> MaxResponse | _ \<Rightarrow> True)"

lemma client_step_inv:
  "Config_Validate c = None \<Longrightarrow> op_ok x \<Longrightarrow> usage_inv c u \<Longrightarrow> usage_inv c (client_step c x u)"
  by (simp add: client_step_def op_ok_def client_batch_inv client_record_inv client_reserve_inv
      split: client_op.splits)

lemma client_run_inv:
  "Config_Validate c = None \<Longrightarrow> list_all op_ok ops \<Longrightarrow> usage_inv c u \<Longrightarrow> usage_inv c (client_run c ops u)"
  by (induction ops arbitrary: u) (simp_all add: client_run_def client_step_inv)

text \<open>A tripped breaker stays tripped and nothing is admitted any more.\<close>

lemma client_step_broken:
  "u_Breaker u \<noteq> [] \<Longrightarrow> u_Breaker (client_step c x u) \<noteq> [] \<and> u_Attempts (client_step c x u) = u_Attempts u
     \<and> u_Reserved (client_step c x u) = u_Reserved u"
  by (auto simp: client_step_def client_batch_def client_reserve_def client_record_def Let_def
      split: client_op.splits prod.splits)

lemma client_run_broken:
  "u_Breaker u \<noteq> [] \<Longrightarrow> u_Breaker (client_run c ops u) \<noteq> [] \<and> u_Attempts (client_run c ops u) = u_Attempts u
     \<and> u_Reserved (client_run c ops u) = u_Reserved u"
proof (induction ops arbitrary: u)
  case Nil
  then show ?case by (simp add: client_run_def)
next
  case (Cons x xs)
  from client_step_broken [OF Cons.prems] Cons.IH [of "client_step c x u"] show ?case
    by (simp add: client_run_def)
qed

lemma client_reserve_broken: "u_Breaker u \<noteq> [] \<Longrightarrow> snd (client_reserve c sz u) \<noteq> None"
  by (simp add: client_reserve_def Let_def)

lemma send_attempts_inv:
  assumes "Config_Validate c = None" and "sz \<le> MaxResponse"
  shows "usage_inv c u \<Longrightarrow> usage_inv c (fst (send_attempts c sz as u))
    \<and> u_Attempts (fst (send_attempts c sz as u)) \<le> u_Attempts u + length as"
proof (induction as arbitrary: u)
  case Nil
  then show ?case by simp
next
  case (Cons a as)
  obtain u1 e where r: "client_reserve c sz u = (u1, e)" by fastforce
  have i1: "usage_inv c u1" using client_reserve_inv [OF assms Cons.prems] by (simp add: r)
  have n1: "u_Attempts u1 \<le> Suc (u_Attempts u)"
    using r by (auto simp: client_reserve_def Let_def split: if_splits)
  have n2: "u_Attempts (client_record c raw x v) = u_Attempts v" for raw x v
    by (auto simp: client_record_def Let_def split: prod.splits)
  have IH: "usage_inv c (fst (send_attempts c sz as (client_record c raw x u1)))
     \<and> u_Attempts (fst (send_attempts c sz as (client_record c raw x u1))) \<le> Suc (u_Attempts u + length as)" for raw x
    using Cons.IH [OF client_record_inv [OF i1], of raw x] n1 by (simp add: n2)
  show ?case
  proof (cases "at_ctx a")
    case (Some x)
    with Cons.prems show ?thesis by simp
  next
    case None
    note ctx = this
    show ?thesis
    proof (cases e)
      case (Some x)
      with ctx r i1 n1 show ?thesis by simp
    next
      case None
      with ctx r i1 n1 IH client_record_inv [OF i1] show ?thesis
        by (auto simp: Let_def n2 split: option.splits prod.splits intro: order_trans)
    qed
  qed
qed

lemma client_send_inv:
  assumes "Config_Validate c = None" and "usage_inv c u"
  shows "usage_inv c (fst (client_send c sz as u)) \<and> u_Attempts (fst (client_send c sz as u)) \<le> u_Attempts u + 3"
proof -
  obtain u1 e where b: "client_batch c u = (u1, e)" by fastforce
  have i1: "usage_inv c u1" using client_batch_inv [OF assms(2)] by (simp add: b)
  have n1: "u_Attempts u1 = u_Attempts u" using b by (auto simp: client_batch_def split: if_splits)
  show ?thesis
  proof (cases "e = None \<and> sz \<le> MaxResponse")
    case True
    then have "sz \<le> MaxResponse" by simp
    from send_attempts_inv [OF assms(1) this i1, of "take 3 as"] True b n1 show ?thesis
      by (auto simp: client_send_def)
  next
    case False
    with i1 n1 b show ?thesis by (auto simp: client_send_def split: option.splits)
  qed
qed

section \<open>Parallel judging\<close>

text \<open>
  \<open>parallel.go\<close>.  \<open>answer start slice\<close> is what \<open>Next.Judge\<close> returned for the job that begins at
  \<open>start\<close>; \<open>order\<close> is the order in which the workers finished the jobs, each of which writes only
  its own positions of \<open>out\<close>.
\<close>

record parallel =
  Workers :: nat
  BatchSize :: nat

definition job_starts :: "nat \<Rightarrow> nat \<Rightarrow> nat list" where
  "job_starts b n = map (\<lambda>i. b * i) [0..<(n + b - 1) div b]"

definition job_values :: "parallel \<Rightarrow> dossier list \<Rightarrow> (nat \<Rightarrow> dossier list \<Rightarrow> Judgment list result) \<Rightarrow> nat \<Rightarrow> Judgment list" where
  "job_values p groups answer start =
     (let slice = take (BatchSize p) (drop start groups) in
      case answer start slice of
        Inr values \<Rightarrow> if length values = length slice then values
          else replicate (length slice) (Unknown ''provider analysis unavailable'')
      | Inl e \<Rightarrow> replicate (length slice) (Unknown ''provider analysis unavailable''))"

definition write_job :: "nat \<Rightarrow> 'a list \<Rightarrow> 'a list \<Rightarrow> 'a list" where
  "write_job start values out = take start out @ values @ drop (start + length values) out"

definition ParallelJudge :: "parallel \<Rightarrow> dossier list \<Rightarrow> (nat \<Rightarrow> dossier list \<Rightarrow> Judgment list result) \<Rightarrow> nat list
    \<Rightarrow> Judgment \<Rightarrow> Judgment list result" where
  "ParallelJudge p groups answer order zero =
     (if Workers p < 1 \<or> 16 < Workers p \<or> BatchSize p < 1 \<or> 64 < BatchSize p then Inl ErrSchema
      else if length groups \<le> BatchSize p then answer 0 groups
      else Inr (fold (\<lambda>start. write_job start (job_values p groups answer start)) order
        (replicate (length groups) zero)))"

lemma length_job_values: "length (job_values p groups answer start) = length (take (BatchSize p) (drop start groups))"
  by (auto simp: job_values_def Let_def split: sum.splits)

lemma length_write_job: "start + length vs \<le> length out \<Longrightarrow> length (write_job start vs out) = length out"
  by (simp add: write_job_def)

lemma nth_write_job:
  "start + length vs \<le> length out \<Longrightarrow> i < length out \<Longrightarrow>
    write_job start vs out ! i = (if start \<le> i \<and> i < start + length vs then vs ! (i - start) else out ! i)"
  by (auto simp: write_job_def nth_append)

lemma job_fits: "start < length groups \<Longrightarrow> start + length (job_values p groups answer start) \<le> length groups"
  by (simp add: length_job_values)

lemma div_eq_iff:
  fixes b :: nat
  assumes "1 \<le> b"
  shows "i div b = k \<longleftrightarrow> b * k \<le> i \<and> i < b * k + b"
proof
  assume "i div b = k"
  moreover have "b * (i div b) + i mod b = i" "i mod b < b"
    using assms by (simp_all add: mult_div_mod_eq)
  ultimately show "b * k \<le> i \<and> i < b * k + b" by auto
next
  assume "b * k \<le> i \<and> i < b * k + b"
  then show "i div b = k" by (intro div_nat_eqI) (auto simp: algebra_simps)
qed

text \<open>Which job wrote position \<open>i\<close>, when every job is aligned to the batch size.\<close>

lemma fold_jobs:
  assumes "1 \<le> BatchSize p" and "\<forall>s\<in>set order. s < length groups \<and> BatchSize p dvd s"
    and "length out = length groups" and "i < length groups"
  shows "length (fold (\<lambda>start. write_job start (job_values p groups answer start)) order out) = length groups \<and>
    fold (\<lambda>start. write_job start (job_values p groups answer start)) order out ! i = (let s = BatchSize p * (i div BatchSize p) in
      if s \<in> set order then job_values p groups answer s ! (i - s) else out ! i)"
  using assms(2,3)
proof (induction order arbitrary: out)
  case Nil
  then show ?case by simp
next
  case (Cons s order)
  let ?B = "BatchSize p" and ?vs = "job_values p groups answer s"
  let ?o = "write_job s ?vs out"
  have s: "s < length groups" "?B dvd s" using Cons.prems by auto
  have fit: "s + length ?vs \<le> length out" using job_fits [OF s(1)] Cons.prems by simp
  have "length ?o = length groups" using length_write_job [OF fit] Cons.prems by simp
  note IH = Cons.IH [OF _ this]
  obtain k where k: "s = ?B * k" using s(2) by blast
  let ?s = "?B * (i div ?B)"
  have "s \<le> i \<and> i < s + length ?vs \<longleftrightarrow> s \<le> i \<and> i < s + ?B"
    using assms(4) by (auto simp: length_job_values)
  also have "\<dots> \<longleftrightarrow> i div ?B = k" unfolding k by (rule div_eq_iff [OF assms(1), symmetric])
  also have "\<dots> \<longleftrightarrow> s = ?s" using k assms(1) by auto
  finally have "?o ! i = (if s = ?s then ?vs ! (i - s) else out ! i)"
    using nth_write_job [OF fit] Cons.prems assms(4) by simp
  moreover have "\<forall>t\<in>set order. t < length groups \<and> ?B dvd t" using Cons.prems by simp
  ultimately show ?case using IH by (cases "?s \<in> set order") (simp_all add: Let_def)
qed

lemma job_index_iff: "1 \<le> b \<Longrightarrow> i < (n + b - 1) div b \<longleftrightarrow> b * i < (n::nat)"
proof -
  assume "1 \<le> b"
  then obtain c where c: "b = Suc c" by (cases b) auto
  have "i < (n + b - 1) div b \<longleftrightarrow> Suc i * b \<le> n + c"
    unfolding Suc_le_eq [symmetric] using c less_eq_div_iff_mult_less_eq [of b "Suc i" "n + c"] by simp
  also have "\<dots> \<longleftrightarrow> i * b < n" unfolding c mult_Suc by linarith
  finally show ?thesis by (simp only: mult.commute)
qed

lemma job_starts_iff: "1 \<le> b \<Longrightarrow> s \<in> set (job_starts b n) \<longleftrightarrow> b dvd s \<and> s < n"
proof -
  assume b: "1 \<le> b"
  have "s \<in> set (job_starts b n) \<longleftrightarrow> (\<exists>i. i < (n + b - 1) div b \<and> s = b * i)"
    unfolding job_starts_def by auto
  also have "\<dots> \<longleftrightarrow> (\<exists>i. b * i < n \<and> s = b * i)" unfolding job_index_iff [OF b] ..
  also have "\<dots> \<longleftrightarrow> b dvd s \<and> s < n" by (auto simp only: dvd_def)
  finally show ?thesis .
qed

lemma ParallelJudge_any_order:
  assumes "mset order = mset (job_starts (BatchSize p) (length groups))"
    and "1 \<le> Workers p" "Workers p \<le> 16" "1 \<le> BatchSize p" "BatchSize p \<le> 64" "BatchSize p < length groups"
  shows "ParallelJudge p groups answer order zero =
    Inr (map (\<lambda>i. job_values p groups answer (BatchSize p * (i div BatchSize p)) ! (i mod BatchSize p))
      [0..<length groups])"
proof -
  let ?B = "BatchSize p" and ?out = "replicate (length groups) zero"
  let ?F = "fold (\<lambda>start. write_job start (job_values p groups answer start)) order ?out"
  have set: "s \<in> set order \<longleftrightarrow> ?B dvd s \<and> s < length groups" for s
    using mset_eq_setD [OF assms(1)] job_starts_iff [OF assms(4)] by simp
  have "length ?F = length groups"
    using fold_jobs [of p order groups ?out 0 answer] assms(4) set assms(6) by (cases "groups = []") simp_all
  moreover have "?F ! i = job_values p groups answer (?B * (i div ?B)) ! (i mod ?B)" if "i < length groups" for i
  proof -
    have "?B * (i div ?B) \<le> i" by simp
    then have "?B * (i div ?B) < length groups" using that by (rule le_less_trans)
    then have "?B * (i div ?B) \<in> set order" by (simp add: set)
    moreover have "i - ?B * (i div ?B) = i mod ?B" by (simp add: minus_mult_div_eq_mod)
    ultimately show ?thesis
      using fold_jobs [of p order groups ?out i answer] assms(4) set that by (simp add: Let_def)
  qed
  ultimately have "?F = map (\<lambda>i. job_values p groups answer (?B * (i div ?B)) ! (i mod ?B)) [0..<length groups]"
    by (intro nth_equalityI) simp_all
  with assms show ?thesis by (simp add: ParallelJudge_def)
qed

section \<open>Properties of the client\<close>

definition sample_config :: config where
  "sample_config = \<lparr>MaxBatches = 0, Kind = ''openai'', Model = ''m'', InputPrice = Fin 1, OutputPrice = Fin 2,
     MaxCost = Fin 5, MaxAttempts = 3\<rparr>"

lemma sample_config_valid: "Config_Validate sample_config = None"
  by (simp add: Config_Validate_def sample_config_def price_ok_def mhas_def endpoints_def) code_simp

text \<open>
  C28: the money a client reserves never exceeds its cap: after any interleaving of the critical
  sections of concurrent calls, whatever the server reports, the reserved amount is a number between 0
  and the configured maximum, the attempts and batches are within theirs, an unmetered answer leaves
  the breaker tripped, and the token counters are far from wrapping.
\<close>

theorem client_within_budget:
  assumes "Config_Validate c = None" and "list_all op_ok ops"
  shows "let u = client_run c ops usage0 in
    (\<exists>q m. u_Reserved u = Fin q \<and> MaxCost c = Fin m \<and> 0 \<le> q \<and> q \<le> m)
    \<and> u_Attempts u \<le> MaxAttempts c \<and> u_Batches u \<le> batch_cap c
    \<and> u_Finished u = u_Metered u + u_Unmetered u
    \<and> u_Input u \<le> 3 * 2 ^ 40 * u_Metered u \<and> u_Output u \<le> 2 ^ 40 * u_Metered u
    \<and> (0 < u_Unmetered u \<longrightarrow> \<not> u_Complete u \<and> u_Breaker u \<noteq> [])"
proof -
  have i: "usage_inv c (client_run c ops usage0)"
    using client_run_inv [OF assms usage_inv_usage0 [OF assms(1)]] .
  obtain m where m: "MaxCost c = Fin m" using valid_config_prices [OF assms(1)] by blast
  obtain q where "u_Reserved (client_run c ops usage0) = Fin q" "0 \<le> q" "q \<le> m"
    using i m nonneg_le_Fin by (auto simp: usage_inv_def)
  with i m show ?thesis by (simp add: usage_inv_def Let_def max_tokens_def)
qed

theorem client_within_budget_witness:
  "let u = client_run sample_config [OpBatch, OpReserve 1000, OpRecord None (Fin 1), OpReserve 1000] usage0 in
    (\<exists>q m. u_Reserved u = Fin q \<and> MaxCost sample_config = Fin m \<and> 0 \<le> q \<and> q \<le> m)
    \<and> u_Attempts u \<le> 3"
  using client_within_budget [OF sample_config_valid, of "[OpBatch, OpReserve 1000, OpRecord None (Fin 1), OpReserve 1000]"]
  by (simp add: op_ok_def MaxResponse_def Let_def sample_config_def)

text \<open>
  The breaker is final: once it tripped, no later interleaving of calls admits another request or
  reserves more money, and a call that asks is refused.
\<close>

theorem client_breaker_final:
  assumes "u_Breaker u \<noteq> []"
  shows "u_Breaker (client_run c ops u) \<noteq> [] \<and> u_Attempts (client_run c ops u) = u_Attempts u
    \<and> u_Reserved (client_run c ops u) = u_Reserved u
    \<and> snd (client_reserve c sz (client_run c ops u)) = Some (Err ''provider budget exhausted'')"
  using client_run_broken [OF assms, of c ops] by (simp add: client_reserve_def Let_def)

theorem client_breaker_final_witness:
  "u_Attempts (client_run sample_config [OpReserve 10, OpRecord (Some ''{}'') (Fin 1), OpBatch]
     (usage0\<lparr>u_Breaker := ''usage incomplete''\<rparr>)) = 0"
  using client_breaker_final [of "usage0\<lparr>u_Breaker := ''usage incomplete''\<rparr>" sample_config
    "[OpReserve 10, OpRecord (Some ''{}'') (Fin 1), OpBatch]"] by (simp add: usage0_def)

text \<open>
  One call of \<open>send\<close> makes at most three requests and keeps the budget invariant, however the
  context, the transport and the server behave in each of them.
\<close>

theorem client_send_bounded:
  assumes "Config_Validate c = None" and "usage_inv c u"
  shows "usage_inv c (fst (client_send c sz as u)) \<and> u_Attempts (fst (client_send c sz as u)) \<le> u_Attempts u + 3"
  by (rule client_send_inv [OF assms])

theorem client_send_bounded_witness:
  "u_Attempts (fst (client_send sample_config 10
     (replicate 5 \<lparr>at_ctx = None, at_response = Some (500, ''{}'', False), at_wait = None\<rparr>) usage0)) \<le> 3"
  using client_send_bounded [OF sample_config_valid usage_inv_usage0 [OF sample_config_valid]]
  by (simp add: usage0_def)

text \<open>
  the parallel judge gives the same answer whatever order its workers finish in: the result has one
  judgment per group, in the order of the groups, each taken from the answer to the batch of its group,
  and \<open>Unknown\<close> for every group of a batch whose call failed or answered with the wrong length.
\<close>

theorem parallel_order_independent:
  assumes "mset order = mset (job_starts (BatchSize p) (length groups))"
    and "1 \<le> Workers p" and "Workers p \<le> 16" and "1 \<le> BatchSize p" and "BatchSize p \<le> 64"
    and "BatchSize p < length groups"
  shows "ParallelJudge p groups answer order zero =
    Inr (map (\<lambda>i. let start = BatchSize p * (i div BatchSize p); batch = take (BatchSize p) (drop start groups) in
        (case answer start batch of
          Inl e \<Rightarrow> Unknown ''provider analysis unavailable''
        | Inr js \<Rightarrow> if length js = length batch then js ! (i mod BatchSize p)
            else Unknown ''provider analysis unavailable'')) [0..<length groups])"
proof -
  have pos: "i mod BatchSize p < length (take (BatchSize p) (drop (BatchSize p * (i div BatchSize p)) groups))"
    if "i < length groups" for i
  proof -
    have "BatchSize p * (i div BatchSize p) + i mod BatchSize p = i" by (rule mult_div_mod_eq)
    moreover have "i mod BatchSize p < BatchSize p" using assms(4) by simp
    ultimately show ?thesis using that unfolding length_take length_drop by linarith
  qed
  show ?thesis
    unfolding ParallelJudge_any_order [OF assms]
    using pos by (auto simp: job_values_def Let_def split: sum.splits)
qed

theorem parallel_order_independent_witness:
  "ParallelJudge \<lparr>Workers = 2, BatchSize = 1\<rparr> [sample_dossier, sample_dossier] (\<lambda>s gs. if s = 1 then Inl ErrSchema else Inr [sample_judgment])
     [1, 0] (Unknown []) = Inr [sample_judgment, Unknown ''provider analysis unavailable'']"
proof -
  have "mset [1, 0] = mset (job_starts (BatchSize \<lparr>Workers = 2, BatchSize = 1\<rparr>) (length [sample_dossier, sample_dossier]))"
    by (simp add: job_starts_def upt_rec)
  from parallel_order_independent [OF this, of "\<lambda>s gs. if s = 1 then Inl ErrSchema else Inr [sample_judgment]" "Unknown []"]
  show ?thesis by (simp add: upt_rec Let_def)
qed

end
