(* ===== verification/Verdicts.thy ===== *)
theory Verdicts
  imports Store Budget
begin

text \<open>
  The durable verdict cache: \<open>PutVerdict\<close>, \<open>deleteVerdict\<close> and \<open>Lookup\<close> of \<open>store.go\<close> and the
  \<open>CachedJudge\<close> of \<open>judge.go\<close>.  A store is its database and the process-local lifetimes; clocks are
  arguments.
\<close>

record store =
  st_db :: db
  st_lifetimes :: "(string, Judgment) gomap"

definition is_hex :: "char \<Rightarrow> bool" where
  "is_hex c = (let n = byte c in (48 \<le> n \<and> n \<le> 57) \<or> (97 \<le> n \<and> n \<le> 102) \<or> (65 \<le> n \<and> n \<le> 70))"

text \<open>\<open>^[0-9a-fA-F]{64}$\<close>.\<close>

definition ValidID :: "string \<Rightarrow> bool" where
  "ValidID ident = (length ident = 64 \<and> list_all is_hex ident)"

definition max_ttl :: int where
  "max_ttl = 7 * 24 * 3600 * second"

definition deleteVerdict :: "(stmt \<Rightarrow> bool) \<Rightarrow> string \<Rightarrow> store \<Rightarrow> store \<times> status" where
  "deleteVerdict fails key s =
     (if fails SDeleteVerdict then (s, Some ErrState)
      else (s\<lparr>st_db := (st_db s)\<lparr>db_verdicts := t_delete [key] (db_verdicts (st_db s))\<rparr>,
              st_lifetimes := mdel key (st_lifetimes s)\<rparr>, None))"

definition PutVerdict :: "std \<Rightarrow> (stmt \<Rightarrow> bool) \<Rightarrow> string \<Rightarrow> Judgment \<Rightarrow> int \<Rightarrow> int \<Rightarrow> store \<Rightarrow> store \<times> status" where
  "PutVerdict S fails key j now ttl s =
     (if \<not> Reusable j \<or> \<not> ValidID key \<or> ttl \<le> 0 \<or> max_ttl < ttl then (s, Some (Err ''unsafe verdict cache entry''))
      else if \<not> mhas (st_lifetimes s) key \<and> stateCapacity \<le> length (st_lifetimes s) then deleteVerdict fails key s
      else if fails SBegin then (s, Some ErrState)
      else case room_verdicts fails key (db_verdicts (st_db s)) of
        (v, Some err) \<Rightarrow> (s, Some err)
      | (v, None) \<Rightarrow>
          (if fails SUpsertVerdict \<or> fails SCommit then (s, Some ErrState)
           else (let row = \<lparr>vr_judgment = judgment_text S j, vr_created = now, vr_expires = now + Seconds ttl\<rparr> in
             (s\<lparr>st_db := (st_db s)\<lparr>db_verdicts := t_put key row v\<rparr>,
                st_lifetimes := (if mhas (st_lifetimes s) key \<or> length (st_lifetimes s) < stateCapacity
                  then mput key j (st_lifetimes s) else st_lifetimes s)\<rparr>, None))))"

text \<open>\<open>substr(judgment,1,4097)\<close> counts characters.\<close>

definition substr :: "nat \<Rightarrow> string \<Rightarrow> string" where
  "substr n t = concat (map (\<lambda>(r, b, v). b) (take n (rune_chunks t)))"

text \<open>The cache bounds of a row read at \<open>now\<close>, and the tightening by what the process already knows.\<close>

definition bounds_of :: "gotime \<Rightarrow> int \<Rightarrow> int \<Rightarrow> int \<Rightarrow> Judgment \<Rightarrow> Judgment" where
  "bounds_of now created expires ttl j =
     (let exp = unix_time (min expires (created + Seconds ttl)) in
      j\<lparr>CacheCreatedAt := unix_time created, CacheExpiresAt := exp, CacheObservedAt := Round0 now,
        CacheDeadline := Add now (Sub exp (Round0 now))\<rparr>)"

definition tighten :: "Judgment \<Rightarrow> Judgment \<Rightarrow> Judgment" where
  "tighten prior j =
     j\<lparr>CacheDeadline := (if Before (CacheDeadline prior) (CacheDeadline j) then CacheDeadline prior else CacheDeadline j),
       CacheExpiresAt := (if Before (CacheExpiresAt prior) (CacheExpiresAt j) then CacheExpiresAt prior else CacheExpiresAt j)\<rparr>"

definition Lookup :: "std \<Rightarrow> (stmt \<Rightarrow> bool) \<Rightarrow> string \<Rightarrow> gotime \<Rightarrow> int \<Rightarrow> store \<Rightarrow> store \<times> Judgment option \<times> status" where
  "Lookup S fails key now ttl s =
     (let prior = mget (st_lifetimes s) key in
      if prior = None \<and> stateCapacity \<le> length (st_lifetimes s) then (s, None, None)
      else if fails SSelectVerdict then (s, None, Some ErrState)
      else case mget (t_rows (db_verdicts (st_db s))) key of
        None \<Rightarrow> (s\<lparr>st_lifetimes := mdel key (st_lifetimes s)\<rparr>, None, None)
      | Some row \<Rightarrow>
         (let raw = substr 4097 (vr_judgment row) in
          if 4096 < length raw \<or> ttl \<le> 0 \<or> max_ttl < ttl \<or> Unix now < vr_created row \<or> vr_expires row \<le> Unix now
             \<or> Seconds ttl \<le> Unix now - vr_created row
          then (let (s', err) = deleteVerdict fails key s in (s', None, err))
          else case Strict (stored_judgment S) raw of
            Inl err \<Rightarrow> (s, None, None)
          | Inr j0 \<Rightarrow>
             (if \<not> Reusable j0 then (s, None, None)
              else (let j = bounds_of now (vr_created row) (vr_expires row) ttl j0 in
                case prior of
                  None \<Rightarrow> (s\<lparr>st_lifetimes := mput key j (st_lifetimes s)\<rparr>, Some j, None)
                | Some p \<Rightarrow>
                   (if IsZero (CacheDeadline p) then (s\<lparr>st_lifetimes := mput key j (st_lifetimes s)\<rparr>, Some j, None)
                    else if \<not> CacheValidAt p now
                      then (let (s', err) = deleteVerdict fails key s in (s', None, err))
                    else (let j' = tighten p j in
                      (s\<lparr>st_lifetimes := mput key j' (st_lifetimes s)\<rparr>, Some j', None)))))))"

section \<open>The caching judge\<close>

record cached =
  cj_Contract :: string
  cj_TTL :: int
  cj_Rescore :: bool

definition cache_key :: "std \<Rightarrow> cached \<Rightarrow> dossier \<Rightarrow> string" where
  "cache_key S c g =
     (if d_TemplateID g = [] then []
      else Hash S (JArr [JStr ''go-group-cache-v2'', JStr (cj_Contract c), JStr (d_ScopeID g),
        JStr (d_TemplateID g), JStr (d_VersionID g), JBool (d_BaselineImportant g)]))"

text \<open>What the first loop finds for one group: a cached judgment, or a question whose answer may be
  published under a key (empty: not at all).\<close>

datatype consulted = Hit Judgment | Ask string

definition consult :: "std \<Rightarrow> (stmt \<Rightarrow> bool) \<Rightarrow> cached \<Rightarrow> gotime \<Rightarrow> dossier \<Rightarrow> store \<Rightarrow> store \<times> consulted result" where
  "consult S fails c now g s =
     (let key = cache_key S c g; un = unsafe_dossier g;
          (s1, err) = (if key \<noteq> [] \<and> (cj_Rescore c \<or> d_CacheMode g \<noteq> CacheDefault \<or> un)
            then deleteVerdict fails key s else (s, None));
          key1 = (if un then [] else key) in
      case err of
        Some x \<Rightarrow> (s1, Inl x)
      | None \<Rightarrow>
         (if key1 \<noteq> [] \<and> \<not> cj_Rescore c \<and> d_CacheMode g = CacheDefault then
            (case Lookup S fails key1 now (cj_TTL c) s1 of
              (s2, _, Some x) \<Rightarrow> (s2, Inl x)
            | (s2, Some j, None) \<Rightarrow> (s2, Inr (Hit j))
            | (s2, None, None) \<Rightarrow> (s2, Inr (Ask key1)))
          else (s1, Inr (Ask (if d_CacheMode g = CacheBypass then [] else key1)))))"

fun consult_all :: "std \<Rightarrow> (nat \<Rightarrow> stmt \<Rightarrow> bool) \<Rightarrow> cached \<Rightarrow> gotime \<Rightarrow> dossier list \<Rightarrow> store
    \<Rightarrow> store \<times> consulted list result" where
  "consult_all S fails c now [] s = (s, Inr [])"
| "consult_all S fails c now (g # gs) s =
     (case consult S (fails (length gs)) c now g s of
       (s1, Inl x) \<Rightarrow> (s1, Inl x)
     | (s1, Inr q) \<Rightarrow>
        (case consult_all S fails c now gs s1 of
          (s2, Inl x) \<Rightarrow> (s2, Inl x)
        | (s2, Inr qs) \<Rightarrow> (s2, Inr (q # qs))))"

fun asked :: "consulted list \<Rightarrow> string list" where
  "asked [] = []"
| "asked (Hit j # qs) = asked qs"
| "asked (Ask k # qs) = k # asked qs"

fun asked_groups :: "consulted list \<Rightarrow> dossier list \<Rightarrow> dossier list" where
  "asked_groups (Hit j # qs) (g # gs) = asked_groups qs gs"
| "asked_groups (Ask k # qs) (g # gs) = g # asked_groups qs gs"
| "asked_groups _ _ = []"

text \<open>The lifetime of a fresh answer starts at \<open>now\<close>, before the provider was asked.\<close>

definition stamped :: "gotime \<Rightarrow> int \<Rightarrow> Judgment \<Rightarrow> Judgment" where
  "stamped now ttl j =
     (let exp = unix_time (Unix now + Seconds ttl) in
      j\<lparr>CacheCreatedAt := unix_time (Unix now), CacheExpiresAt := exp, CacheObservedAt := Round0 now,
        CacheDeadline := Add now (Sub exp (Round0 now))\<rparr>)"

definition publish :: "std \<Rightarrow> (stmt \<Rightarrow> bool) \<Rightarrow> cached \<Rightarrow> gotime \<Rightarrow> gotime \<Rightarrow> string \<Rightarrow> Judgment \<Rightarrow> store
    \<Rightarrow> store \<times> Judgment result" where
  "publish S fails c now later key j s =
     (if key \<noteq> [] \<and> Validate j = None \<and> Reusable j then
        (let j1 = stamped now (cj_TTL c) j in
         if CacheValidAt j1 later then
           (case PutVerdict S fails key j1 (Unix now) (cj_TTL c) s of
             (s1, Some x) \<Rightarrow> (s1, Inl x)
           | (s1, None) \<Rightarrow> (s1, Inr j1))
         else (s, Inr j1))
      else (s, Inr j))"

fun publish_all :: "std \<Rightarrow> (nat \<Rightarrow> stmt \<Rightarrow> bool) \<Rightarrow> cached \<Rightarrow> gotime \<Rightarrow> (nat \<Rightarrow> gotime) \<Rightarrow> (string \<times> Judgment) list
    \<Rightarrow> store \<Rightarrow> store \<times> Judgment list result" where
  "publish_all S fails c now later [] s = (s, Inr [])"
| "publish_all S fails c now later ((key, j) # kjs) s =
     (case publish S (fails (length kjs)) c now (later (length kjs)) key j s of
       (s1, Inl x) \<Rightarrow> (s1, Inl x)
     | (s1, Inr j1) \<Rightarrow>
        (case publish_all S fails c now later kjs s1 of
          (s2, Inl x) \<Rightarrow> (s2, Inl x)
        | (s2, Inr js) \<Rightarrow> (s2, Inr (j1 # js))))"

text \<open>\<open>out\<close>: hits where they were found, answers at \<open>indices\<close>.\<close>

fun merge :: "consulted list \<Rightarrow> Judgment list \<Rightarrow> Judgment list" where
  "merge (Hit j # qs) js = j # merge qs js"
| "merge (Ask k # qs) (j # js) = j # merge qs js"
| "merge _ _ = []"

text \<open>
  \<open>answer\<close> is what \<open>Next.Judge\<close> returns for the pending groups, \<open>f1\<close> and \<open>f2\<close> the failing statements
  of each consultation and publication, \<open>later\<close> the second readings of the clock.
\<close>

definition CachedJudge :: "std \<Rightarrow> (nat \<Rightarrow> stmt \<Rightarrow> bool) \<Rightarrow> (nat \<Rightarrow> stmt \<Rightarrow> bool) \<Rightarrow> cached \<Rightarrow> gotime \<Rightarrow> (nat \<Rightarrow> gotime)
    \<Rightarrow> (dossier list \<Rightarrow> Judgment list result) \<Rightarrow> dossier list \<Rightarrow> store \<Rightarrow> store \<times> Judgment list result" where
  "CachedJudge S f1 f2 c now later answer groups s =
     (case consult_all S f1 c now groups s of
       (s1, Inl x) \<Rightarrow> (s1, Inl x)
     | (s1, Inr qs) \<Rightarrow>
        (let pending = asked_groups qs groups in
         if pending = [] then (s1, Inr (merge qs []))
         else case answer pending of
           Inl x \<Rightarrow> (s1, Inl x)
         | Inr js \<Rightarrow>
            (if length js \<noteq> length pending then (s1, Inl ErrSchema)
             else case publish_all S f2 c now later (zip (asked qs) js) s1 of
               (s2, Inl x) \<Rightarrow> (s2, Inl x)
             | (s2, Inr js') \<Rightarrow> (s2, Inr (merge qs js')))))"

section \<open>Lifetimes only shrink\<close>

lemma Unix_le: "created \<le> Unix now \<Longrightarrow> wall (unix_time created) \<le> wall now"
proof -
  assume "created \<le> Unix now"
  then have "created * second \<le> Unix now * second" by (simp add: mult_right_mono)
  also have "Unix now * second \<le> wall now - unix_epoch"
    unfolding Unix_def by (metis second_pos div_mult_mod_eq le_add_same_cancel1 pos_mod_sign)
  finally show ?thesis by (simp add: unix_time_def)
qed

lemma Unix_less: "Unix now < expires \<Longrightarrow> wall now < wall (unix_time expires)"
proof -
  assume "Unix now < expires"
  then have "(Unix now + 1) * second \<le> expires * second" by (intro mult_right_mono) (auto simp: second_def)
  moreover have "wall now - unix_epoch < (Unix now + 1) * second"
  proof -
    have "wall now - unix_epoch = Unix now * second + (wall now - unix_epoch) mod second" by (simp add: Unix_def)
    moreover have "(wall now - unix_epoch) mod second < second" by simp
    moreover have "(Unix now + 1) * second = Unix now * second + second" by (simp add: distrib_right)
    ultimately show ?thesis by linarith
  qed
  ultimately have "wall now < unix_epoch + expires * second" by linarith
  then show ?thesis by (simp add: unix_time_def)
qed

lemma mono_unix_time [simp]: "mono_ns (unix_time s) = None"
  by (simp add: unix_time_def)

lemma bounds_of_valid:
  assumes "created \<le> Unix now" and "Unix now < expires" and "Unix now - created < Seconds ttl"
  shows "CacheValidAt (bounds_of now created expires ttl j) now"
proof -
  let ?exp = "unix_time (min expires (created + Seconds ttl))"
  have e: "wall now < wall ?exp" using Unix_less [of now "min expires (created + Seconds ttl)"] assms by simp
  have c: "wall (unix_time created) \<le> wall now" using Unix_le assms(1) .
  have d: "Before now (Add now (Sub ?exp (Round0 now)))"
    using e by (intro Before_Add) (simp add: Sub_def)
  show ?thesis using e c d by (simp add: CacheValidAt_def bounds_of_def Let_def Before_wall)
qed

lemma tighten_valid: "CacheValidAt j now \<Longrightarrow> CacheValidAt p now \<Longrightarrow> CacheValidAt (tighten p j) now"
  by (auto simp: CacheValidAt_def tighten_def Let_def)

lemma tighten_never_later: "\<not> Before (CacheDeadline p) (CacheDeadline (tighten p j))"
  by (simp add: tighten_def)

definition served :: "Judgment option \<Rightarrow> gotime \<Rightarrow> Judgment \<Rightarrow> Judgment \<Rightarrow> bool" where
  "served prior now fresh j = (case prior of
     None \<Rightarrow> j = fresh
   | Some p \<Rightarrow> if IsZero (CacheDeadline p) then j = fresh else CacheValidAt p now \<and> j = tighten p fresh)"

lemma Lookup_Some:
  assumes "Lookup S fails key now ttl s = (s', Some j, err)"
  shows "\<exists>row j0. mget (t_rows (db_verdicts (st_db s))) key = Some row \<and> Reusable j0
    \<and> CacheValidAt (bounds_of now (vr_created row) (vr_expires row) ttl j0) now
    \<and> served (mget (st_lifetimes s) key) now (bounds_of now (vr_created row) (vr_expires row) ttl j0) j
    \<and> err = None \<and> s' = s\<lparr>st_lifetimes := mput key j (st_lifetimes s)\<rparr>
    \<and> (mget (st_lifetimes s) key = None \<longrightarrow> length (st_lifetimes s) < stateCapacity)"
proof -
  obtain row where row: "mget (t_rows (db_verdicts (st_db s))) key = Some row"
    using assms by (auto simp: Lookup_def Let_def split: if_splits option.splits)
  let ?raw = "substr 4097 (vr_judgment row)"
  have dead: "snd (let (s', err) = deleteVerdict fails key s in (s', None, err)) = (None, snd (deleteVerdict fails key s))"
    by (simp add: case_prod_beta)
  have fresh: "\<not> (4096 < length ?raw \<or> ttl \<le> 0 \<or> max_ttl < ttl \<or> Unix now < vr_created row
      \<or> vr_expires row \<le> Unix now \<or> Seconds ttl \<le> Unix now - vr_created row)"
    using assms row by (auto simp: Lookup_def Let_def case_prod_beta split: if_splits option.splits)
  obtain j0 where j0: "Strict (stored_judgment S) ?raw = Inr j0"
    using assms row fresh by (cases "Strict (stored_judgment S) ?raw") (auto simp: Lookup_def Let_def split: if_splits)
  have re: "Reusable j0"
    using assms row fresh j0 by (auto simp: Lookup_def Let_def split: if_splits)
  have "CacheValidAt (bounds_of now (vr_created row) (vr_expires row) ttl j0) now"
    using fresh by (intro bounds_of_valid) auto
  moreover have "served (mget (st_lifetimes s) key) now (bounds_of now (vr_created row) (vr_expires row) ttl j0) j
    \<and> err = None \<and> s' = s\<lparr>st_lifetimes := mput key j (st_lifetimes s)\<rparr>
    \<and> (mget (st_lifetimes s) key = None \<longrightarrow> length (st_lifetimes s) < stateCapacity)"
    using assms row fresh j0 re
    by (auto simp: Lookup_def Let_def served_def case_prod_beta split: if_splits option.splits)
  ultimately show ?thesis using row re by (intro exI [of _ row] exI [of _ j0]) simp
qed

lemma served_valid:
  "served prior now fresh j \<Longrightarrow> CacheValidAt fresh now \<Longrightarrow> CacheValidAt j now"
  by (auto simp: served_def tighten_valid split: option.splits if_splits)

lemma tighten_verdict: "Reusable (tighten p j) = Reusable j" "Reusable (bounds_of now a b ttl j) = Reusable j"
  by (simp_all add: Reusable_def tighten_def bounds_of_def Let_def confidences_def)

lemma served_Reusable: "served prior now (bounds_of now a b ttl j0) j \<Longrightarrow> Reusable j = Reusable j0"
  by (auto simp: served_def tighten_verdict split: option.splits if_splits)

lemma served_deadline:
  "served (Some p) now fresh j \<Longrightarrow> \<not> IsZero (CacheDeadline p) \<Longrightarrow> \<not> Before (CacheDeadline p) (CacheDeadline j)"
  by (simp add: served_def tighten_never_later)

section \<open>What the cache keeps\<close>

definition cache_ok :: "store \<Rightarrow> bool" where
  "cache_ok s = (table_ok (db_verdicts (st_db s)) \<and> wf_map (st_lifetimes s) \<and> length (st_lifetimes s) \<le> stateCapacity)"

lemma length_mdel_cap: "length m \<le> n \<Longrightarrow> length (mdel k m) \<le> n"
  using length_mdel_le [of k m] by simp

lemma deleteVerdict_ok: "cache_ok s \<Longrightarrow> cache_ok (fst (deleteVerdict fails key s))"
  by (simp add: deleteVerdict_def cache_ok_def delete_ok length_mdel_cap)

lemma mput_cap: "mhas m k \<or> length m < n \<Longrightarrow> length m \<le> n \<Longrightarrow> length (mput k v m) \<le> n"
  by (auto simp: length_mput)

lemma PutVerdict_ok: "cache_ok s \<Longrightarrow> cache_ok (fst (PutVerdict S fails key j now ttl s))"
proof -
  assume ok: "cache_ok s"
  obtain v q where v: "room_verdicts fails key (db_verdicts (st_db s)) = (v, q)" by fastforce
  have "table_ok (t_put key row v)" if "q = None" for row
    using put_room_ok [of "db_verdicts (st_db s)"] v that ok by (simp add: cache_ok_def)
  with ok v show ?thesis
    by (cases q) (auto simp: PutVerdict_def Let_def cache_ok_def deleteVerdict_ok [unfolded cache_ok_def] mput_cap)
qed

lemma Lookup_ok: "cache_ok s \<Longrightarrow> cache_ok (fst (Lookup S fails key now ttl s))"
proof -
  assume ok: "cache_ok s"
  obtain s' jo err where l: "Lookup S fails key now ttl s = (s', jo, err)" by (metis prod_cases3)
  show ?thesis
  proof (cases jo)
    case None
    have d: "cache_ok (fst (deleteVerdict fails key s))" by (rule deleteVerdict_ok [OF ok])
    have m: "cache_ok (s\<lparr>st_lifetimes := mdel key (st_lifetimes s)\<rparr>)" using ok by (simp add: cache_ok_def length_mdel_cap)
    have "s' = s \<or> s' = s\<lparr>st_lifetimes := mdel key (st_lifetimes s)\<rparr> \<or> s' = fst (deleteVerdict fails key s)"
      using l None by (auto simp: Lookup_def Let_def case_prod_beta split: if_splits option.splits sum.splits)
    with ok d m l show ?thesis by auto
  next
    case (Some j)
    with Lookup_Some [of S fails key now ttl s s' j err] l ok show ?thesis
      by (auto simp: cache_ok_def length_mput mhas_def)
  qed
qed

lemma consult_ok: "cache_ok s \<Longrightarrow> cache_ok (fst (consult S fails c now g s))"
proof -
  assume ok: "cache_ok s"
  let ?D = "deleteVerdict fails (cache_key S c g) s"
  have d: "cache_ok (fst ?D)" by (rule deleteVerdict_ok [OF ok])
  obtain s1 err where D: "?D = (s1, err)" by fastforce
  have l: "cache_ok t \<Longrightarrow> Lookup S fails k now ttl t = (t', x) \<Longrightarrow> cache_ok t'" for k ttl t t' x
    using Lookup_ok [of t S fails k now ttl] by simp
  show ?thesis
    using ok d D by (auto simp: consult_def Let_def dest: l split: option.splits prod.splits)
qed

lemma consult_all_ok: "cache_ok s \<Longrightarrow> cache_ok (fst (consult_all S f c now gs s))"
proof (induction gs arbitrary: s)
  case Nil
  then show ?case by simp
next
  case (Cons g gs)
  have "cache_ok (fst (consult S (f (length gs)) c now g s))" by (rule consult_ok [OF Cons.prems])
  with Cons.IH show ?case by (auto split: prod.splits sum.splits) (metis fst_conv)+
qed

lemma publish_ok: "cache_ok s \<Longrightarrow> cache_ok (fst (publish S fails c now later key j s))"
  using PutVerdict_ok [of s S fails key "stamped now (cj_TTL c) j" "Unix now" "cj_TTL c"]
  by (auto simp: publish_def Let_def split: prod.splits option.splits)

lemma publish_all_ok: "cache_ok s \<Longrightarrow> cache_ok (fst (publish_all S f c now later kjs s))"
proof (induction kjs arbitrary: s)
  case Nil
  then show ?case by simp
next
  case (Cons kj kjs)
  obtain k j where kj: "kj = (k, j)" by fastforce
  have "cache_ok (fst (publish S (f (length kjs)) c now (later (length kjs)) k j s))" by (rule publish_ok [OF Cons.prems])
  with Cons.IH show ?case by (auto simp: kj split: prod.splits sum.splits) (metis fst_conv)+
qed

lemma CachedJudge_ok: "cache_ok s \<Longrightarrow> cache_ok (fst (CachedJudge S f1 f2 c now later answer groups s))"
proof -
  assume ok: "cache_ok s"
  obtain s1 x where c: "consult_all S f1 c now groups s = (s1, x)" by fastforce
  with consult_all_ok [OF ok, of S f1 c now groups] have "cache_ok s1" by simp
  then have "cache_ok (fst (publish_all S f2 c now later kjs s1))" for kjs by (rule publish_all_ok)
  then have p: "publish_all S f2 c now later kjs s1 = (s2, y) \<Longrightarrow> cache_ok s2" for kjs s2 y by (metis fst_conv)
  show ?thesis
    using \<open>cache_ok s1\<close> c by (auto simp: CachedJudge_def Let_def dest: p split: sum.splits prod.splits)
qed

section \<open>Unsafe evidence\<close>

lemma consult_length: "consult_all S f c now gs s = (s', Inr qs) \<Longrightarrow> length qs = length gs"
  by (induction gs arbitrary: s s' qs) (auto split: prod.splits sum.splits)

lemma length_publish_all: "publish_all S f c now later kjs s = (s', Inr js) \<Longrightarrow> length js = length kjs"
  by (induction kjs arbitrary: s s' js) (auto split: prod.splits sum.splits)

lemma length_asked: "length qs = length gs \<Longrightarrow> length (asked_groups qs gs) = length (asked qs)"
  by (induction qs gs rule: list_induct2) (auto split: consulted.splits, (case_tac x; simp)+)

lemma length_merge: "length js = length (asked qs) \<Longrightarrow> length (merge qs js) = length qs"
proof (induction qs arbitrary: js)
  case Nil
  then show ?case by simp
next
  case (Cons q qs)
  then show ?case by (cases q; cases js) auto
qed

abbreviation verdict_rows :: "store \<Rightarrow> (string, verdict_row) gomap" where
  "verdict_rows s \<equiv> t_rows (db_verdicts (st_db s))"

lemma mhas_t_delete [simp]: "mhas (t_rows (t_delete ks t)) k \<longleftrightarrow> mhas (t_rows t) k \<and> k \<notin> set ks"
  by (force simp: mhas_iff t_delete_rows)

lemma deleteVerdict_rows: "mhas (verdict_rows (fst (deleteVerdict fails key s))) k \<Longrightarrow> mhas (verdict_rows s) k"
  by (auto simp: deleteVerdict_def split: if_splits)

lemma deleteVerdict_gone: "deleteVerdict fails key s = (s', None) \<Longrightarrow> \<not> mhas (verdict_rows s') key"
  by (auto simp: deleteVerdict_def split: if_splits)

lemma Lookup_rows: "mhas (verdict_rows (fst (Lookup S fails key now ttl s))) k \<Longrightarrow> mhas (verdict_rows s) k"
  by (auto simp: Lookup_def Let_def case_prod_beta dest: deleteVerdict_rows split: if_splits option.splits sum.splits)

lemma consult_rows: "mhas (verdict_rows (fst (consult S fails c now g s))) k \<Longrightarrow> mhas (verdict_rows s) k"
proof -
  assume h: "mhas (verdict_rows (fst (consult S fails c now g s))) k"
  let ?D = "deleteVerdict fails (cache_key S c g) s"
  obtain s1 err where D: "?D = (s1, err)" by fastforce
  have l: "Lookup S fails key now ttl t = (t', x) \<Longrightarrow> mhas (verdict_rows t') k \<Longrightarrow> mhas (verdict_rows t) k" for key ttl t t' x
    using Lookup_rows [of S fails key now ttl t k] by simp
  show ?thesis
    using h D deleteVerdict_rows [of fails "cache_key S c g" s k]
    by (auto simp: consult_def Let_def dest: l split: option.splits prod.splits if_splits)
qed

lemma consult_result:
  assumes "consult S fails c now g s = (s', Inr x)"
  shows "(\<forall>j. x = Hit j \<longrightarrow> \<not> unsafe_dossier g \<and> \<not> cj_Rescore c \<and> d_CacheMode g = CacheDefault
           \<and> CacheValidAt j now \<and> Reusable j)
    \<and> (\<forall>k. x = Ask k \<longrightarrow> k = [] \<or> k = cache_key S c g \<and> \<not> unsafe_dossier g \<and> d_CacheMode g \<noteq> CacheBypass)
    \<and> (unsafe_dossier g \<and> cache_key S c g \<noteq> [] \<longrightarrow> \<not> mhas (verdict_rows s') (cache_key S c g))"
proof -
  let ?k = "cache_key S c g"
  obtain s1 err where D: "deleteVerdict fails ?k s = (s1, err)" by fastforce
  have hit: "Lookup S fails ?k now (cj_TTL c) t = (t', Some j, None) \<Longrightarrow> CacheValidAt j now \<and> Reusable j" for t t' j
    using Lookup_Some [of S fails ?k now "cj_TTL c" t t' j None] served_valid served_Reusable by blast
  show ?thesis
    using assms D deleteVerdict_gone [of fails ?k s]
    by (auto simp: consult_def Let_def dest: hit split: option.splits prod.splits if_splits)
qed

lemma consult_all_rows:
  "consult_all S f c now gs s = (s', x) \<Longrightarrow> mhas (verdict_rows s') k \<Longrightarrow> mhas (verdict_rows s) k"
proof (induction gs arbitrary: s s' x)
  case Nil
  then show ?case by simp
next
  case (Cons g gs)
  obtain s1 y where y: "consult S (f (length gs)) c now g s = (s1, y)" by fastforce
  have "mhas (verdict_rows s1) k \<Longrightarrow> mhas (verdict_rows s) k"
    using consult_rows [of S "f (length gs)" c now g s k] by (simp add: y)
  with Cons y show ?case by (auto split: sum.splits prod.splits)
qed

lemma consult_all_result:
  "consult_all S f c now gs s = (s', Inr qs) \<Longrightarrow>
    list_all2 (\<lambda>g q. (\<forall>j. q = Hit j \<longrightarrow> \<not> unsafe_dossier g \<and> CacheValidAt j now \<and> Reusable j)
      \<and> (\<forall>k. q = Ask k \<longrightarrow> k = [] \<or> k = cache_key S c g \<and> \<not> unsafe_dossier g)) gs qs
    \<and> (\<forall>g \<in> set gs. unsafe_dossier g \<and> cache_key S c g \<noteq> [] \<longrightarrow> \<not> mhas (verdict_rows s') (cache_key S c g))"
proof (induction gs arbitrary: s s' qs)
  case Nil
  then show ?case by simp
next
  case (Cons g gs)
  obtain s1 y where y: "consult S (f (length gs)) c now g s = (s1, y)" by fastforce
  obtain s2 z where z: "consult_all S f c now gs s1 = (s2, z)" by fastforce
  from Cons.prems y z obtain q qs' where q: "y = Inr q" "z = Inr qs'" "qs = q # qs'" "s' = s2"
    by (auto split: sum.splits)
  with y z have c: "consult S (f (length gs)) c now g s = (s1, Inr q)" "consult_all S f c now gs s1 = (s2, Inr qs')" by auto
  from consult_result [OF c(1)] Cons.IH [OF c(2)] consult_all_rows [OF c(2)] q show ?case by auto
qed

lemma asked_keys: "k \<in> set (asked qs) \<longleftrightarrow> Ask k \<in> set qs"
  by (induction qs rule: asked.induct) auto

lemma publish_rows:
  "publish S fails c now later key j s = (s', x) \<Longrightarrow> mhas (verdict_rows s') k \<Longrightarrow>
    mhas (verdict_rows s) k \<or> (k = key \<and> key \<noteq> [])"
proof -
  assume p: "publish S fails c now later key j s = (s', x)" and h: "mhas (verdict_rows s') k"
  obtain v q where v: "room_verdicts fails key (db_verdicts (st_db s)) = (v, q)" by fastforce
  have sub: "mhas (t_rows v) k \<Longrightarrow> mhas (verdict_rows s) k" using room_subset [OF v] by (auto simp: mhas_iff)
  have P: "PutVerdict S fails key j1 (Unix now) ttl s = (t, y) \<Longrightarrow> mhas (verdict_rows t) k \<Longrightarrow>
      mhas (verdict_rows s) k \<or> k = key" for j1 ttl t y
    using v sub deleteVerdict_rows [of fails key s k]
    by (auto simp: PutVerdict_def Let_def split: if_splits option.splits)
  show ?thesis
    using p h by (auto simp: publish_def Let_def dest: P split: if_splits prod.splits option.splits)
qed

lemma publish_all_rows:
  "publish_all S f c now later kjs s = (s', x) \<Longrightarrow> mhas (verdict_rows s') k \<Longrightarrow>
    mhas (verdict_rows s) k \<or> (k \<in> fst ` set kjs \<and> k \<noteq> [])"
proof (induction kjs arbitrary: s s' x)
  case Nil
  then show ?case by simp
next
  case (Cons kj kjs)
  obtain key j where kj: "kj = (key, j)" by fastforce
  obtain s1 y where y: "publish S (f (length kjs)) c now (later (length kjs)) key j s = (s1, y)" by fastforce
  with Cons kj publish_rows [OF y, of k] show ?case by (auto split: sum.splits prod.splits)
qed

section \<open>Properties of the cache\<close>

text \<open>
  a verdict the store serves is usable when it is served (confident and reusable, and inside both
  its wall-clock window and its elapsed-time deadline), and serving it never moves the deadline the
  process already knows to a later moment, whatever time to live the caller asks for.
\<close>

theorem lookup_never_extends:
  assumes "Lookup S fails key now ttl s = (s', Some j, err)"
  shows "Reusable j \<and> CacheValidAt j now \<and> mget (st_lifetimes s') key = Some j
    \<and> (\<forall>p. mget (st_lifetimes s) key = Some p \<and> \<not> IsZero (CacheDeadline p) \<longrightarrow>
        CacheValidAt p now \<and> \<not> Before (CacheDeadline p) (CacheDeadline j))"
proof -
  obtain row :: verdict_row and j0 where r: "Reusable j0" "CacheValidAt (bounds_of now (vr_created row) (vr_expires row) ttl j0) now"
    and s: "served (mget (st_lifetimes s) key) now (bounds_of now (vr_created row) (vr_expires row) ttl j0) j"
    and s': "s' = s\<lparr>st_lifetimes := mput key j (st_lifetimes s)\<rparr>"
    using Lookup_Some [OF assms] by blast
  have "Reusable j" "CacheValidAt j now" using r s served_valid served_Reusable by blast+
  moreover have "CacheValidAt p now \<and> \<not> Before (CacheDeadline p) (CacheDeadline j)"
    if "mget (st_lifetimes s) key = Some p" "\<not> IsZero (CacheDeadline p)" for p
    using s that by (auto simp: served_def tighten_never_later)
  ultimately show ?thesis using s' by auto
qed

definition sample_now :: gotime where
  "sample_now = \<lparr>wall = unix_epoch + 1000 * second, mono_ns = Some 50\<rparr>"

definition sample_row :: verdict_row where
  "sample_row = \<lparr>vr_judgment = judgment_text sample_std (sample_judgment\<lparr>Category := ''data''\<rparr>), vr_created = 990, vr_expires = 1090\<rparr>"

definition sample_key :: string where
  "sample_key = replicate 64 (CHR ''a'')"

definition sample_store :: store where
  "sample_store = \<lparr>st_db = empty_db\<lparr>db_verdicts := \<lparr>t_rows = [(sample_key, sample_row)], t_count = 1, t_evicted = 0\<rparr>\<rparr>,
     st_lifetimes = []\<rparr>"

text \<open>
  The verdict cache stays bounded: whatever the caching judge is asked, whatever the provider
  answers and whichever statements fail, at most 10,000 verdict rows and at most 10,000 lifetimes are
  held, and the row counter stays exact.
\<close>

theorem cached_judge_bounded:
  assumes "cache_ok s"
  shows "let s' = fst (CachedJudge S f1 f2 c now later answer groups s) in
    length (verdict_rows s') \<le> 10000 \<and> t_count (db_verdicts (st_db s')) = length (verdict_rows s')
    \<and> length (st_lifetimes s') \<le> 10000"
  using CachedJudge_ok [OF assms, of S f1 f2 c now later answer groups]
  by (simp add: Let_def cache_ok_def table_ok_def table_inv_def stateCapacity_def)

definition sample_cached :: cached where
  "sample_cached = \<lparr>cj_Contract = ''c'', cj_TTL = 60 * second, cj_Rescore = False\<rparr>"

lemma sample_store_ok: "cache_ok sample_store"
  by (simp add: cache_ok_def sample_store_def table_ok_def table_inv_def stateCapacity_def)

theorem cached_judge_bounded_witness:
  "let s' = fst (CachedJudge sample_std (\<lambda>_ _. False) (\<lambda>_ _. False) sample_cached sample_now (\<lambda>_. sample_now)
      (\<lambda>gs. Inr (map (\<lambda>_. sample_judgment) gs)) [sample_dossier] sample_store) in
    length (verdict_rows s') \<le> 10000 \<and> t_count (db_verdicts (st_db s')) = length (verdict_rows s')
    \<and> length (st_lifetimes s') \<le> 10000"
  by (rule cached_judge_bounded [OF sample_store_ok])



theorem lookup_never_extends_witness:
  "\<exists>s' j. Lookup sample_std (\<lambda>_. False) sample_key sample_now (3600 * second) sample_store = (s', Some j, None)
    \<and> CacheValidAt j sample_now"
proof -
  have "case Strict (stored_judgment sample_std) (substr 4097 (vr_judgment sample_row)) of
      Inl err \<Rightarrow> False | Inr j0 \<Rightarrow> Reusable j0 \<and> length (substr 4097 (vr_judgment sample_row)) \<le> 4096"
    by code_simp
  then obtain j0 where j0: "Strict (stored_judgment sample_std) (substr 4097 (vr_judgment sample_row)) = Inr j0"
    "Reusable j0" "length (substr 4097 (vr_judgment sample_row)) \<le> 4096" by (auto split: sum.splits)
  have "Unix sample_now = 1000" by (simp add: Unix_def sample_now_def second_def)
  with j0 obtain s' j where l: "Lookup sample_std (\<lambda>_. False) sample_key sample_now (3600 * second) sample_store = (s', Some j, None)"
    by (simp add: Lookup_def Let_def sample_store_def stateCapacity_def max_ttl_def second_def Seconds_def)
      (simp add: sample_row_def Let_def)
  with lookup_never_extends [OF l] show ?thesis by blast
qed

end
