(* ===== verification/Outbox.thy ===== *)
theory Outbox
  imports Verdicts
begin

text \<open>
  The delivery side of \<open>internal/controller\<close>: \<open>Pending\<close>, \<open>Delivered\<close> and the loop \<open>Deliver\<close> of
  \<open>sink.go\<close>, the read-only views of \<open>inspect.go\<close> and the schema migration of \<open>migrate.go\<close>.  A sink is
  what it answers: for each tick of the loop, whether the send worked and the context still lives.
\<close>

section \<open>Reading a stored notification\<close>

definition judgment_fields :: "string list" where
  "judgment_fields = [''importance'', ''severity'', ''category'', ''importance_confidence'',
     ''severity_confidence'', ''category_confidence'', ''analysis_error'']"

text \<open>Plain \<open>json.Unmarshal\<close>: unknown members are skipped.\<close>

definition judgment_lenient :: "std \<Rightarrow> Judgment \<Rightarrow> string \<Rightarrow> json \<Rightarrow> Judgment option" where
  "judgment_lenient S j k v =
     (if list_ex (\<lambda>f. is_field f k) judgment_fields then judgment_member S True j k v else Some j)"

definition notification_member :: "std \<Rightarrow> notification \<Rightarrow> string \<Rightarrow> json \<Rightarrow> notification option" where
  "notification_member S n k v =
     (if is_field ''schema'' k then map_option (\<lambda>x. n\<lparr>n_Schema := x\<rparr>) (dec_int (n_Schema n) v)
      else if is_field ''notification_id'' k then map_option (\<lambda>x. n\<lparr>n_ID := x\<rparr>) (dec_string (n_ID n) v)
      else if is_field ''incident_id'' k then map_option (\<lambda>x. n\<lparr>n_IncidentID := x\<rparr>) (dec_string (n_IncidentID n) v)
      else if is_field ''event_id'' k then map_option (\<lambda>x. n\<lparr>n_EventID := x\<rparr>) (dec_string (n_EventID n) v)
      else if is_field ''source_id'' k then map_option (\<lambda>x. n\<lparr>n_SourceID := x\<rparr>) (dec_string (n_SourceID n) v)
      else if is_field ''decision'' k then map_option (\<lambda>x. n\<lparr>n_Decision := x\<rparr>) (dec_string (n_Decision n) v)
      else if is_field ''judgment'' k then map_option (\<lambda>x. n\<lparr>n_Judgment := x\<rparr>)
        (dec_struct (judgment_lenient S) (n_Judgment n) v)
      else if is_field ''recurrence_count'' k then map_option (\<lambda>x. n\<lparr>n_Occurrences := x\<rparr>) (dec_int (n_Occurrences n) v)
      else if is_field ''observed_at'' k then map_option (\<lambda>x. n\<lparr>n_Created := x\<rparr>) (dec_int (n_Created n) v)
      else Some n)"

definition zero_notification :: notification where
  "zero_notification = \<lparr>n_Schema = 0, n_ID = [], n_IncidentID = [], n_EventID = [], n_SourceID = [],
     n_Decision = [], n_Judgment = verdict [] [] [], n_Occurrences = 0, n_Created = 0\<rparr>"

definition unmarshal_notification :: "std \<Rightarrow> string \<Rightarrow> notification option" where
  "unmarshal_notification S raw =
     (case json_parse raw of None \<Rightarrow> None | Some v \<Rightarrow> dec_struct (notification_member S) zero_notification v)"

section \<open>Claiming and settling\<close>

record pending =
  pd_ID :: string
  pd_Payload :: string
  pd_Attempts :: nat

definition t_update :: "(string \<Rightarrow> 'r \<Rightarrow> bool) \<Rightarrow> ('r \<Rightarrow> 'r) \<Rightarrow> 'r table \<Rightarrow> 'r table" where
  "t_update P f t = t\<lparr>t_rows := map (\<lambda>(k, r). (k, if P k r then f r else r)) (t_rows t)\<rparr>"

definition due_rows :: "int \<Rightarrow> db \<Rightarrow> (string \<times> outbox_row) list" where
  "due_rows now d = sort_key (\<lambda>(k, r). (or_due r, k))
     (filter (\<lambda>(k, r). or_status r = ''pending'' \<and> or_due r \<le> now) (t_rows (db_outbox d)))"

definition Pending :: "std \<Rightarrow> (stmt \<Rightarrow> bool) \<Rightarrow> int \<Rightarrow> db \<Rightarrow> db \<times> pending option \<times> status" where
  "Pending S fails now d =
     (if fails SBegin \<or> fails SPending then (d, None, Some ErrState)
      else case due_rows now d of
        [] \<Rightarrow> (d, None, None)
      | (k, r) # _ \<Rightarrow>
         (if fails SScan then (d, None, Some ErrState)
          else let payload = substr 131073 (or_payload r) in
          if \<not> ValidID k \<or> 131072 < length payload \<or> 8 < or_attempts r then (d, None, Some ErrState)
          else case unmarshal_notification S payload of
            None \<Rightarrow> (d, None, Some ErrState)
          | Some n \<Rightarrow>
             (if n_ID n \<noteq> k then (d, None, Some ErrState)
              else if or_attempts r = 8 then
                (if fails SKill \<or> fails SCommit then (d, None, Some ErrState)
                 else (d\<lparr>db_outbox := t_update (\<lambda>i _. i = k)
                         (\<lambda>r. r\<lparr>or_status := ''dead'', or_updated := now\<rparr>) (db_outbox d)\<rparr>, None, None))
              else if fails SClaim \<or> fails SCommit then (d, None, Some ErrState)
              else (d\<lparr>db_outbox := t_update (\<lambda>i _. i = k)
                      (\<lambda>x. x\<lparr>or_attempts := or_attempts r + 1, or_due := now + 30, or_updated := now\<rparr>) (db_outbox d)\<rparr>,
                    Some \<lparr>pd_ID = k, pd_Payload = payload, pd_Attempts = or_attempts r + 1\<rparr>, None))))"

definition Delivered :: "(stmt \<Rightarrow> bool) \<Rightarrow> pending \<Rightarrow> bool \<Rightarrow> int \<Rightarrow> db \<Rightarrow> db \<times> status" where
  "Delivered fails p ok now d =
     (let status = (if ok then ''delivered'' else if 8 \<le> pd_Attempts p then ''dead'' else ''pending'');
          delay = 2 ^ min (pd_Attempts p) 8 in
      if fails SSettle then (d, Some ErrState)
      else (d\<lparr>db_outbox := t_update (\<lambda>i r. i = pd_ID p \<and> or_attempts r = pd_Attempts p)
        (\<lambda>r. r\<lparr>or_status := status, or_due := now + delay, or_updated := now\<rparr>) (db_outbox d)\<rparr>, None))"

section \<open>The delivery loop\<close>

text \<open>One tick: the clock and failing statements of \<open>Pending\<close> and of \<open>Delivered\<close>, whether the context
  was cancelled by the time \<open>Pending\<close> failed or the send returned, and whether the send worked.\<close>

record tick =
  tk_now :: int
  tk_fails :: "stmt \<Rightarrow> bool"
  tk_cancelled :: bool
  tk_ok :: bool
  tk_now2 :: int
  tk_fails2 :: "stmt \<Rightarrow> bool"

text \<open>The loop over its ticks: what was handed to the sink, in order, and how the loop ended
  (\<open>None\<close>: it would go on).\<close>

fun Deliver :: "std \<Rightarrow> tick list \<Rightarrow> db \<Rightarrow> db \<times> pending list \<times> status option" where
  "Deliver S [] d = (d, [], None)"
| "Deliver S (t # ts) d =
     (case Pending S (tk_fails t) (tk_now t) d of
       (d1, _, Some e) \<Rightarrow> (d1, [], Some (if tk_cancelled t then None else Some e))
     | (d1, None, None) \<Rightarrow> Deliver S ts d1
     | (d1, Some p, None) \<Rightarrow>
        (if tk_cancelled t then (d1, [p], Some None)
         else case Delivered (tk_fails2 t) p (tk_ok t) (tk_now2 t) d1 of
           (d2, Some e) \<Rightarrow> (d2, [p], Some (Some e))
         | (d2, None) \<Rightarrow> (case Deliver S ts d2 of (d3, ps, r) \<Rightarrow> (d3, p # ps, r))))"

section \<open>How often a notification is sent\<close>

definition row_budget :: "outbox_row \<Rightarrow> nat" where
  "row_budget r = (if or_status r = ''pending'' then 8 - or_attempts r else 0)"

definition budget :: "db \<Rightarrow> string \<Rightarrow> nat" where
  "budget d k = (case mget (t_rows (db_outbox d)) k of
     None \<Rightarrow> 0 | Some r \<Rightarrow> row_budget r)"

lemma map_of_t_update:
  "mget (t_rows (t_update P f t)) k = map_option (\<lambda>r. if P k r then f r else r) (mget (t_rows t) k)"
proof -
  have "map_of (map (\<lambda>(k, r). (k, if P k r then f r else r)) m) k = map_option (\<lambda>r. if P k r then f r else r) (map_of m k)" for m
    by (induction m) auto
  then show ?thesis by (simp add: t_update_def)
qed

lemma keys_t_update: "map fst (t_rows (t_update P f t)) = map fst (t_rows t)"
  by (auto simp: t_update_def)

lemma due_row:
  assumes "wf_map (t_rows (db_outbox d))" and "due_rows now d = (k, r) # rs"
  shows "mget (t_rows (db_outbox d)) k = Some r \<and> or_status r = ''pending''"
proof -
  have "(k, r) \<in> set (due_rows now d)" using assms(2) by simp
  with assms(1) show ?thesis by (simp add: due_rows_def)
qed

lemma Pending_Some:
  assumes "wf_map (t_rows (db_outbox d))" and "Pending S fails now d = (d', Some p, err)"
  shows "err = None \<and> (\<exists>r. mget (t_rows (db_outbox d)) (pd_ID p) = Some r \<and> or_status r = ''pending''
     \<and> or_attempts r < 8 \<and> pd_Attempts p = Suc (or_attempts r) \<and> pd_Payload p = substr 131073 (or_payload r)
     \<and> d' = d\<lparr>db_outbox := t_update (\<lambda>i _. i = pd_ID p)
         (\<lambda>x. x\<lparr>or_attempts := Suc (or_attempts r), or_due := now + 30, or_updated := now\<rparr>) (db_outbox d)\<rparr>)"
proof -
  obtain k r rs where r: "due_rows now d = (k, r) # rs"
    using assms(2) by (auto simp: Pending_def split: if_splits list.splits)
  from assms(2) r due_row [OF assms(1) r] show ?thesis
    by (auto simp: Pending_def Let_def split: if_splits option.splits)
qed

lemma Pending_None:
  assumes "wf_map (t_rows (db_outbox d))" and "Pending S fails now d = (d', None, err)"
  shows "d' = d \<or> (\<exists>k. d' = d\<lparr>db_outbox := t_update (\<lambda>i _. i = k)
      (\<lambda>r. r\<lparr>or_status := ''dead'', or_updated := now\<rparr>) (db_outbox d)\<rparr>)"
  using assms(2) by (auto simp: Pending_def Let_def split: if_splits option.splits list.splits)

lemma budget_update:
  "budget (d\<lparr>db_outbox := t_update P f t\<rparr>) k =
    (case mget (t_rows t) k of None \<Rightarrow> 0 | Some r \<Rightarrow> row_budget (if P k r then f r else r))"
  by (simp add: budget_def map_of_t_update split: option.split)

lemma Pending_budget:
  assumes "wf_map (t_rows (db_outbox d))" and "Pending S fails now d = (d', q, err)"
  shows "wf_map (t_rows (db_outbox d')) \<and> (case q of
      None \<Rightarrow> budget d' k \<le> budget d k
    | Some p \<Rightarrow> if k = pd_ID p then Suc (budget d' k) = budget d k else budget d' k = budget d k)"
proof (cases q)
  case None
  from Pending_None [OF assms(1) assms(2) [unfolded None]] consider "d' = d"
    | j where "d' = d\<lparr>db_outbox := t_update (\<lambda>i _. i = j) (\<lambda>r. r\<lparr>or_status := ''dead'', or_updated := now\<rparr>) (db_outbox d)\<rparr>"
    by blast
  then show ?thesis
  proof cases
    case 1
    with assms(1) None show ?thesis by simp
  next
    case 2
    have "budget d' k \<le> budget d k"
      unfolding 2 budget_update by (simp add: budget_def row_budget_def split: option.split)
    with 2 assms(1) None show ?thesis by (simp add: keys_t_update)
  qed
next
  case (Some p)
  from Pending_Some [OF assms(1) assms(2) [unfolded Some]] obtain r where
    r: "mget (t_rows (db_outbox d)) (pd_ID p) = Some r" "or_status r = ''pending''" "or_attempts r < 8"
    and d': "d' = d\<lparr>db_outbox := t_update (\<lambda>i _. i = pd_ID p)
         (\<lambda>x. x\<lparr>or_attempts := Suc (or_attempts r), or_due := now + 30, or_updated := now\<rparr>) (db_outbox d)\<rparr>" by blast
  have "if k = pd_ID p then Suc (budget d' k) = budget d k else budget d' k = budget d k"
    unfolding d' budget_update using r by (auto simp: budget_def row_budget_def split: option.split)
  with d' assms(1) Some show ?thesis by (simp add: keys_t_update)
qed

text \<open>Settling what was just claimed never gives the row more attempts, and ends it after a success.\<close>

lemma Delivered_budget:
  assumes "wf_map (t_rows (db_outbox d))" and "Delivered fails p ok now d = (d', err)"
    and "mget (t_rows (db_outbox d)) (pd_ID p) = Some r" and "or_status r = ''pending''" and "or_attempts r = pd_Attempts p"
  shows "wf_map (t_rows (db_outbox d')) \<and> budget d' k \<le> budget d k
    \<and> (ok \<and> err = None \<longrightarrow> budget d' (pd_ID p) = 0)"
proof (cases "fails SSettle")
  case True
  with assms show ?thesis by (auto simp: Delivered_def Let_def)
next
  case False
  define st where "st = (if ok then ''delivered'' else if 8 \<le> pd_Attempts p then ''dead'' else ''pending'')"
  have d': "d' = d\<lparr>db_outbox := t_update (\<lambda>i r. i = pd_ID p \<and> or_attempts r = pd_Attempts p)
        (\<lambda>r. r\<lparr>or_status := st, or_due := now + 2 ^ min (pd_Attempts p) 8, or_updated := now\<rparr>) (db_outbox d)\<rparr>"
    using assms(2) False by (simp add: Delivered_def Let_def st_def)
  have "budget d' k \<le> budget d k"
    unfolding d' budget_update using assms(3,4) by (auto simp: budget_def row_budget_def split: option.split)
  moreover have "budget d' (pd_ID p) = 0" if ok
    unfolding d' budget_update using that assms(3,5) by (simp add: row_budget_def st_def)
  ultimately show ?thesis using assms(1) d' by (simp add: keys_t_update)
qed

definition sends :: "string \<Rightarrow> pending list \<Rightarrow> nat" where
  "sends k ps = length (filter (\<lambda>p. pd_ID p = k) ps)"

lemma Deliver_budget:
  "wf_map (t_rows (db_outbox d)) \<Longrightarrow> Deliver S ts d = (d', ps, r) \<Longrightarrow>
    sends k ps + budget d' k \<le> budget d k \<and> wf_map (t_rows (db_outbox d'))"
proof (induction ts arbitrary: d d' ps r)
  case Nil
  then show ?case by (simp add: sends_def)
next
  case (Cons t ts)
  obtain d1 q err where P: "Pending S (tk_fails t) (tk_now t) d = (d1, q, err)" by (metis prod_cases3)
  note b = Pending_budget [OF Cons.prems(1) P, of k]
  show ?case
  proof (cases q)
    case None
    with b have b1: "wf_map (t_rows (db_outbox d1))" "budget d1 k \<le> budget d k" by auto
    show ?thesis
    proof (cases err)
      case None
      with Cons.prems(2) P \<open>q = None\<close> have "Deliver S ts d1 = (d', ps, r)" by simp
      from Cons.IH [OF b1(1) this] b1 show ?thesis by auto
    next
      case (Some e)
      with Cons.prems(2) P b1 \<open>q = None\<close> show ?thesis by (auto simp: sends_def)
    qed
  next
    case (Some p)
    note row = Pending_Some [OF Cons.prems(1) P [unfolded Some]]
    then obtain r1 where r1: "mget (t_rows (db_outbox d1)) (pd_ID p) = Some r1" "or_status r1 = ''pending''"
      "or_attempts r1 = pd_Attempts p" by (auto simp: map_of_t_update)
    from b Some have w1: "wf_map (t_rows (db_outbox d1))"
      and c: "sends k [p] + budget d1 k = budget d k" by (auto simp: sends_def split: if_splits)
    obtain d2 e2 where D: "Delivered (tk_fails2 t) p (tk_ok t) (tk_now2 t) d1 = (d2, e2)" by fastforce
    note b2 = Delivered_budget [OF w1 D r1, of k]
    obtain d3 ps3 r3 where L: "Deliver S ts d2 = (d3, ps3, r3)" by (metis prod_cases3)
    from b2 have "wf_map (t_rows (db_outbox d2))" by simp
    note b3 = Cons.IH [OF this L]
    have "sends k (p # ps3) = sends k [p] + sends k ps3" by (simp add: sends_def)
    with Cons.prems(2) P Some row w1 c D b2 L b3 show ?thesis
      by (auto split: if_splits option.splits)
  qed
qed

section \<open>Inspection\<close>

record incident =
  i_ID :: string
  i_Count :: nat
  i_Level :: nat
  i_Sequence :: nat
  i_Decision :: "string option"
  i_Touched :: int

record status_report =
  s_Schema :: nat
  s_Sampled :: int
  s_Ready :: bool
  s_Complete :: bool
  s_IncidentCount :: nat
  s_Pending :: nat
  s_Dead :: nat
  s_Recent :: "incident list"

record detail =
  dt_Schema :: nat
  dt_Incident :: incident
  dt_Notification :: "notification option"
  dt_DeliveryStatus :: "string option"
  dt_Attempts :: "nat option"

definition scanIncident :: "string \<Rightarrow> incident_row \<Rightarrow> incident result" where
  "scanIncident key r =
     (if \<not> ValidID key then Inl ErrState
      else Inr \<lparr>i_ID = key, i_Count = ir_count r, i_Level = ir_level r, i_Sequence = ir_sequence r,
        i_Decision = ir_last_decision r, i_Touched = ir_touched r\<rparr>)"

fun scan_rows :: "(string \<times> incident_row) list \<Rightarrow> incident list \<times> status" where
  "scan_rows [] = ([], None)"
| "scan_rows ((k, r) # rs) =
     (case scanIncident (take 65 k) (r\<lparr>ir_last_decision := map_option (take 16) (ir_last_decision r)\<rparr>) of
       Inl e \<Rightarrow> ([], Some ErrState)
     | Inr i \<Rightarrow> (case scan_rows rs of (xs, e) \<Rightarrow> (i # xs, e)))"

definition empty_status :: status_report where
  "empty_status = \<lparr>s_Schema = 1, s_Sampled = 0, s_Ready = False, s_Complete = False,
     s_IncidentCount = 0, s_Pending = 0, s_Dead = 0, s_Recent = []\<rparr>"

text \<open>\<open>Status\<close>: \<open>busy\<close> is a failed \<open>TryLock\<close>; the rows come newest first, ties in any order.\<close>

definition Status :: "(stmt \<Rightarrow> bool) \<Rightarrow> bool \<Rightarrow> db \<Rightarrow> status_report \<times> status" where
  "Status fails busy d =
     (if busy then (empty_status, Some ErrBusy)
      else let n = min 10001 (length (t_rows (db_incidents d)));
               o1 = empty_status\<lparr>s_IncidentCount := n\<rparr> in
      if fails SCount then (empty_status, Some ErrState)
      else if 10000 < n then (o1, Some ErrState)
      else let states = map (\<lambda>(k, r). or_status r) (take 10001 (t_rows (db_outbox d)));
               o2 = o1\<lparr>s_Pending := length (filter (\<lambda>s. s = ''pending'') states),
                       s_Dead := length (filter (\<lambda>s. s = ''dead'') states)\<rparr> in
      if fails SSum then (o1, Some ErrState)
      else if 10000 < length states then (o2, Some ErrState)
      else if fails SRecent then (o2, Some ErrState)
      else (case scan_rows (take 20 (sort_key (\<lambda>(k, r). - ir_touched r) (t_rows (db_incidents d)))) of
        (xs, e) \<Rightarrow> (o2\<lparr>s_Recent := xs\<rparr>, e)))"

definition Detail :: "std \<Rightarrow> (stmt \<Rightarrow> bool) \<Rightarrow> bool \<Rightarrow> string \<Rightarrow> db \<Rightarrow> detail option result" where
  "Detail S fails busy ident d =
     (if \<not> ValidID ident then Inl (Err ''invalid incident id'')
      else if busy then Inl ErrBusy
      else if fails SIncident then Inl ErrState
      else case mget (t_rows (db_incidents d)) ident of
        None \<Rightarrow> Inr None
      | Some row \<Rightarrow>
         (case scanIncident ident row of
           Inl e \<Rightarrow> Inl ErrState
         | Inr i \<Rightarrow>
            (let base = \<lparr>dt_Schema = 1, dt_Incident = i, dt_Notification = None, dt_DeliveryStatus = None, dt_Attempts = None\<rparr>;
                 new_id = notificationID S ident (i_Sequence i);
                 old_id = Hash S (JArr [JStr ident, JNat (i_Sequence i)]);
                 found = (case mget (t_rows (db_outbox d)) new_id of
                   Some r \<Rightarrow> Some r | None \<Rightarrow> mget (t_rows (db_outbox d)) old_id) in
             if fails SDetail then Inl ErrState
             else case found of
               None \<Rightarrow> Inr (Some base)
             | Some r \<Rightarrow>
                (let raw = substr 131073 (or_payload r) in
                 if 131072 < length raw then Inl ErrState
                 else case unmarshal_notification S raw of
                   None \<Rightarrow> Inl ErrState
                 | Some n \<Rightarrow>
                    (if \<not> ValidID (n_ID n) \<or> \<not> ValidID (n_IncidentID n) then Inl ErrState
                     else Inr (Some (base\<lparr>dt_Notification := Some n, dt_DeliveryStatus := Some (or_status r),
                       dt_Attempts := Some (or_attempts r)\<rparr>)))))))"

section \<open>Migration\<close>

record prior_payload =
  pp_ID :: string
  pp_Incident :: string
  pp_Decision :: string
  pp_Count :: int
  pp_At :: int
  pp_Schema :: int
  pp_Source :: source
  pp_Judgment :: Judgment

definition prior_member :: "std \<Rightarrow> prior_payload \<Rightarrow> string \<Rightarrow> json \<Rightarrow> prior_payload option" where
  "prior_member S n k v =
     (if is_field ''schema'' k then map_option (\<lambda>x. n\<lparr>pp_Schema := x\<rparr>) (dec_int (pp_Schema n) v)
      else if is_field ''notification_id'' k then map_option (\<lambda>x. n\<lparr>pp_ID := x\<rparr>) (dec_string (pp_ID n) v)
      else if is_field ''incident_id'' k then map_option (\<lambda>x. n\<lparr>pp_Incident := x\<rparr>) (dec_string (pp_Incident n) v)
      else if is_field ''decision'' k then map_option (\<lambda>x. n\<lparr>pp_Decision := x\<rparr>) (dec_string (pp_Decision n) v)
      else if is_field ''recurrence_count'' k then map_option (\<lambda>x. n\<lparr>pp_Count := x\<rparr>) (dec_int (pp_Count n) v)
      else if is_field ''observed_at'' k then map_option (\<lambda>x. n\<lparr>pp_At := x\<rparr>) (dec_int (pp_At n) v)
      else if is_field ''source'' k then
        (case v of JNull \<Rightarrow> Some (n\<lparr>pp_Source := []\<rparr>)
         | JObj kvs \<Rightarrow> Some (n\<lparr>pp_Source := foldl (\<lambda>m (k, x). mput k (renumber S (decode_any x)) m) (pp_Source n) kvs\<rparr>)
         | _ \<Rightarrow> None)
      else if is_field ''judgment'' k then map_option (\<lambda>x. n\<lparr>pp_Judgment := x\<rparr>)
        (dec_struct (judgment_lenient S) (pp_Judgment n) v)
      else Some n)"

definition zero_prior :: prior_payload where
  "zero_prior = \<lparr>pp_ID = [], pp_Incident = [], pp_Decision = [], pp_Count = 0, pp_At = 0, pp_Schema = 0,
     pp_Source = [], pp_Judgment = verdict [] [] []\<rparr>"

text \<open>The opaque payload of one queued row of an older schema.\<close>

definition migrated_payload :: "std \<Rightarrow> string \<Rightarrow> string \<Rightarrow> string \<Rightarrow> string result" where
  "migrated_payload S key incident raw =
     (if \<not> ValidID key \<or> \<not> ValidID incident \<or> 131072 < length raw then Inl ErrState
      else case json_parse raw of
        None \<Rightarrow> Inl ErrState
      | Some v \<Rightarrow>
         (case dec_struct (prior_member S) zero_prior v of
           None \<Rightarrow> Inl ErrState
         | Some p \<Rightarrow>
            (if pp_ID p \<noteq> key \<or> pp_Incident p \<noteq> incident
                \<or> (pp_Decision p \<noteq> ''notify'' \<and> pp_Decision p \<noteq> ''review'') \<or> pp_Count p < 0
             then Inl ErrState
             else (let j = (if Validate (pp_Judgment p) \<noteq> None then Unknown ''migrated judgment requires review''
                            else pp_Judgment p) in
               Inr (notification_text S
                 \<lparr>n_Schema = 2, n_ID = key, n_IncidentID = incident,
                  n_EventID = take 20 (Hash S (JArr [JStr key, JInt (pp_At p)])),
                  n_SourceID = Hash S (JObj (pp_Source p)), n_Decision = pp_Decision p, n_Judgment = j,
                  n_Occurrences = pp_Count p, n_Created = pp_At p\<rparr>)))))"

fun migrate_rows :: "std \<Rightarrow> (nat \<Rightarrow> stmt \<Rightarrow> bool) \<Rightarrow> (string \<times> string \<times> string) list \<Rightarrow> outbox_row table
    \<Rightarrow> outbox_row table result" where
  "migrate_rows S fails [] t = Inr t"
| "migrate_rows S fails ((key, incident, raw) # vs) t =
     (case migrated_payload S key incident raw of
       Inl e \<Rightarrow> Inl e
     | Inr text \<Rightarrow>
        (if fails (length vs) SPayload then Inl ErrState
         else migrate_rows S fails vs (t_update (\<lambda>k _. k = key) (\<lambda>r. r\<lparr>or_payload := text\<rparr>) t)))"

definition migrateNotifications :: "std \<Rightarrow> (nat \<Rightarrow> stmt \<Rightarrow> bool) \<Rightarrow> outbox_row table \<Rightarrow> outbox_row table result" where
  "migrateNotifications S fails t =
     (if fails 0 SPayloads \<or> fails 0 SScan then Inl ErrState
      else let values = map (\<lambda>(k, r). (k, or_incident r, substr 131073 (or_payload r))) (take 10001 (t_rows t)) in
      if 10000 < length values then Inl ErrState
      else migrate_rows S fails values t)"

text \<open>\<open>installCapacity\<close>: the delivery clock catches up with the incidents and every counter is set to
  the number of rows its table has.\<close>

definition max_sequence :: "db \<Rightarrow> nat" where
  "max_sequence d = foldr max (map (\<lambda>(k, r). ir_sequence r) (t_rows (db_incidents d))) 0"

definition recount :: "'r table \<Rightarrow> 'r table" where
  "recount t = t\<lparr>t_count := length (t_rows t)\<rparr>"

definition installCapacity :: "(nat \<Rightarrow> stmt \<Rightarrow> bool) \<Rightarrow> db \<Rightarrow> db result" where
  "installCapacity fails d =
     (if list_ex (\<lambda>i. fails i (''install'', '''')) [0..<13] then Inl ErrState
      else Inr (d\<lparr>db_next := max (db_next d) (max_sequence d), db_seen := recount (db_seen d),
        db_incidents := recount (db_incidents d), db_verdicts := recount (db_verdicts d),
        db_outbox := recount (db_outbox d)\<rparr>))"

text \<open>\<open>migrate\<close> on a database of the given \<open>user_version\<close>; a database without a version must have no tables.\<close>

definition migrate :: "std \<Rightarrow> (nat \<Rightarrow> stmt \<Rightarrow> bool) \<Rightarrow> int \<Rightarrow> nat \<Rightarrow> nat \<Rightarrow> db \<Rightarrow> db \<times> status" where
  "migrate S fails version tables page d =
     (if fails 0 (''pragma'', ''user_version'') then (d, Some ErrState)
      else if version < 0 \<or> 4 < version then (d, Some (Err ''unsupported controller state schema''))
      else if version = 0 \<and> (fails 0 (''select'', ''sqlite_schema'') \<or> tables \<noteq> 0)
        then (d, Some (Err ''unsupported unversioned controller state''))
      else if fails 0 (''pragma'', ''page_size'') \<or> page \<noteq> 4096 then (d, Some ErrState)
      else if fails 0 SBegin then (d, Some ErrState)
      else if version = 0 \<and> fails 0 (''create'', '''') then (d, Some ErrState)
      else if version = 1 \<and> fails 0 (''alter'', ''incidents'') then (d, Some ErrState)
      else let d0 = (if version = 0 then empty_db else d) in
      case (if 0 < version \<and> version < 3 then
              (case migrateNotifications S fails (db_outbox d0) of
                Inl e \<Rightarrow> Inl e
              | Inr ob \<Rightarrow> if fails 0 SDeleteVerdict then Inl ErrState
                  else Inr (d0\<lparr>db_outbox := ob, db_verdicts := (db_verdicts d0)\<lparr>t_rows := []\<rparr>\<rparr>))
            else Inr d0) of
        Inl e \<Rightarrow> (d, Some e)
      | Inr d1 \<Rightarrow>
         (case installCapacity fails d1 of
           Inl e \<Rightarrow> (d, Some e)
         | Inr d2 \<Rightarrow>
            (if fails 0 (''pragma'', ''user_version=4'') \<or> fails 0 SCommit then (d, Some ErrState) else (d2, None))))"

text \<open>What a delivery row is apart from its payload.\<close>

definition delivery_state :: "outbox_row table \<Rightarrow> (string \<times> string \<times> string \<times> nat \<times> int \<times> int) list" where
  "delivery_state t = map (\<lambda>(k, r). (k, or_incident r, or_status r, or_attempts r, or_due r, or_updated r)) (t_rows t)"

lemma delivery_state_payload: "delivery_state (t_update P (\<lambda>r. r\<lparr>or_payload := text\<rparr>) t) = delivery_state t"
  by (auto simp: delivery_state_def t_update_def)

lemma migrate_rows_state: "migrate_rows S fails vs t = Inr t' \<Longrightarrow> delivery_state t' = delivery_state t"
  by (induction vs arbitrary: t) (auto simp: delivery_state_payload split: sum.splits if_splits)

lemma migrateNotifications_state: "migrateNotifications S fails t = Inr t' \<Longrightarrow> delivery_state t' = delivery_state t"
  by (auto simp: migrateNotifications_def Let_def migrate_rows_state split: if_splits)

lemma max_sequence_ge: "(k, r) \<in> set (t_rows (db_incidents d)) \<Longrightarrow> ir_sequence r \<le> max_sequence d"
proof -
  have "(k, r) \<in> set m \<Longrightarrow> ir_sequence r \<le> foldr max (map (\<lambda>(k, r). ir_sequence r) m) 0" for m
    by (induction m) auto
  then show "(k, r) \<in> set (t_rows (db_incidents d)) \<Longrightarrow> ir_sequence r \<le> max_sequence d" by (simp add: max_sequence_def)
qed

lemma installCapacity_Inr:
  "installCapacity fails d = Inr d' \<Longrightarrow> delivery_state (db_outbox d') = delivery_state (db_outbox d)
    \<and> t_count (db_outbox d') = length (t_rows (db_outbox d')) \<and> t_count (db_seen d') = length (t_rows (db_seen d'))
    \<and> t_count (db_incidents d') = length (t_rows (db_incidents d'))
    \<and> t_count (db_verdicts d') = length (t_rows (db_verdicts d'))
    \<and> db_next d \<le> db_next d' \<and> (\<forall>(k, r) \<in> set (t_rows (db_incidents d')). ir_sequence r \<le> db_next d')"
  using max_sequence_ge [of _ _ d]
  by (auto simp: installCapacity_def recount_def delivery_state_def split: if_splits) (meson le_max_iff_disj)

section \<open>Properties of delivery\<close>

text \<open>
  a notification is handed to the sink at most eight times: over any run of the delivery loop, with
  any clock, sink and pattern of failing statements, the number of sends of an identity plus what is
  left of its budget never exceeds the budget it started with, which is at most eight and zero for an
  identity that is not pending.
\<close>

theorem deliver_at_most_eight:
  assumes "wf_map (t_rows (db_outbox d))" and "Deliver S ts d = (d', ps, r)"
  shows "sends k ps + budget d' k \<le> budget d k \<and> sends k ps \<le> 8
    \<and> (budget d k = 0 \<longrightarrow> k \<notin> pd_ID ` set ps)"
proof -
  have b: "sends k ps + budget d' k \<le> budget d k" using Deliver_budget [OF assms] by blast
  moreover have "budget d k \<le> 8" by (simp add: budget_def row_budget_def split: option.split)
  moreover have "sends k ps = 0 \<longleftrightarrow> k \<notin> pd_ID ` set ps"
    by (auto simp: sends_def filter_empty_conv)
  ultimately show ?thesis by auto
qed

definition sample_tick :: tick where
  "sample_tick = \<lparr>tk_now = 1000, tk_fails = (\<lambda>_. False), tk_cancelled = False, tk_ok = False, tk_now2 = 1001,
     tk_fails2 = (\<lambda>_. False)\<rparr>"

theorem deliver_at_most_eight_witness:
  "\<exists>d' ps r. Deliver sample_std (replicate 20 sample_tick) sample_pending_db = (d', ps, r)
    \<and> sends (replicate 64 (CHR ''a'')) ps \<le> 8"
proof -
  have "wf_map (t_rows (db_outbox sample_pending_db))" by (simp add: sample_pending_db_def)
  moreover obtain d' ps r where "Deliver sample_std (replicate 20 sample_tick) sample_pending_db = (d', ps, r)"
    by (metis prod_cases3)
  ultimately show ?thesis using deliver_at_most_eight by blast
qed

text \<open>
  C39: a migration either fails and changes nothing, or keeps every queued delivery (identity, incident,
  status, attempts and times), sets every row counter to the number of rows and moves the delivery clock
  only forward, past every sequence an incident carries.
\<close>

theorem migrate_keeps_deliveries:
  assumes "migrate S fails version tables page d = (d', err)" and "version \<noteq> 0"
  shows "if err \<noteq> None then d' = d
    else delivery_state (db_outbox d') = delivery_state (db_outbox d)
      \<and> t_count (db_outbox d') = length (t_rows (db_outbox d')) \<and> t_count (db_seen d') = length (t_rows (db_seen d'))
      \<and> t_count (db_incidents d') = length (t_rows (db_incidents d'))
      \<and> t_count (db_verdicts d') = length (t_rows (db_verdicts d'))
      \<and> db_next d \<le> db_next d' \<and> (\<forall>(k, r) \<in> set (t_rows (db_incidents d')). ir_sequence r \<le> db_next d')"
proof (cases err)
  case (Some e)
  with assms show ?thesis by (auto simp: migrate_def Let_def split: if_splits sum.splits)
next
  case None
  from assms None obtain d1 where i: "installCapacity fails d1 = Inr d'"
    and d1: "d1 = d \<or> (\<exists>ob. migrateNotifications S fails (db_outbox d) = Inr ob
        \<and> d1 = d\<lparr>db_outbox := ob, db_verdicts := (db_verdicts d)\<lparr>t_rows := []\<rparr>\<rparr>)"
    by (auto simp: migrate_def Let_def split: if_splits sum.splits)
  then have "delivery_state (db_outbox d1) = delivery_state (db_outbox d) \<and> db_next d1 = db_next d"
    by (auto dest: migrateNotifications_state)
  with installCapacity_Inr [OF i] None show ?thesis by simp
qed

theorem migrate_keeps_deliveries_witness:
  "\<exists>d'. migrate sample_std (\<lambda>_ _. False) 3 5 4096 sample_pending_db = (d', None)
    \<and> delivery_state (db_outbox d') = delivery_state (db_outbox sample_pending_db)"
proof -
  obtain d' where m: "migrate sample_std (\<lambda>_ _. False) 3 5 4096 sample_pending_db = (d', None)"
    by (simp add: migrate_def installCapacity_def list_ex_iff)
  with migrate_keeps_deliveries [OF m] show ?thesis by auto
qed

end
