(* ===== verification/Templates.thy ===== *)
theory Templates
  imports Provider
begin

text \<open>
  \<open>internal/analysis\<close>, the stateless part: which events may share a verdict (\<open>Eligible\<close>), how the
  drain strategy masks a text into its template (\<open>group.go\<close>), and the reviewed rules (\<open>rules.go\<close>).
\<close>

section \<open>Protected fields and opaque values\<close>

definition protected_words :: "string list" where
  "protected_words = [''status'', ''code'', ''level'', ''error'', ''auth'', ''role'', ''security'', ''fraud'',
     ''permission'', ''success'', ''fail'', ''result'', ''outcome'', ''severity'', ''payment'', ''amount'',
     ''balance'', ''backup'', ''bytes'', ''count'', ''denied'', ''permit'', ''privilege'', ''access'',
     ''allow'', ''grant'', ''acl'', ''response'', ''password'', ''secret'', ''token'', ''credential'',
     ''cookie'', ''deny'', ''category'', ''importance'', ''operation'', ''messagekind'', ''duration'',
     ''latency'', ''identity'', ''tenant'', ''username'']"

definition alnum_c :: "char \<Rightarrow> bool" where
  "alnum_c c = (lower_c c \<or> upper_c c \<or> digit_c c)"

definition protectedField :: "string \<Rightarrow> bool" where
  "protectedField s = MatchString (rwords_ci protected_words)
     (concat (map (\<lambda>(r, b, v). if list_all alnum_c b then b else []) (rune_chunks s)))"

definition rhex :: rx where
  "rhex = RCls (\<lambda>c. digit_c c \<or> in_range 97 102 c \<or> in_range 65 70 c)"

definition opaque :: rx where
  "opaque = rseq [RBegin, RAlt
     (RSeq (rtimes 16 rhex) (rupto 48 rhex))
     (rseq [rtimes 8 rhex, rtimes 3 (RSeq (rchr (CHR ''-'')) (rtimes 4 rhex)), rchr (CHR ''-''), rtimes 12 rhex]), REnd]"

definition idField :: rx where
  "idField = rseq [RBegin, ralt (map (\<lambda>w. rseq [rlit_ci w, ropt (RCls (one_of ''_-'')), rlit_ci ''id''])
     [''request'', ''trace'', ''span'', ''correlation'', ''session'']), REnd]"

definition number :: rx where
  "number = rseq [RBegin, ropt (RCls (one_of ''+-'')), rplus rdigit, ropt (RSeq (rchr (CHR ''.'')) (rplus rdigit)), REnd]"

definition ip :: rx where
  "ip = rseq [RBegin, RSeq rdigit (rupto 2 rdigit),
     rtimes 3 (RSeq (rchr (CHR ''.'')) (RSeq rdigit (rupto 2 rdigit))), REnd]"

definition clock :: rx where
  "clock = rseq [RBegin, rtimes 2 rdigit, rchr (CHR '':''), rtimes 2 rdigit, rchr (CHR '':''), rtimes 2 rdigit,
     ropt (RSeq (rchr (CHR ''.'')) (rplus rdigit)), REnd]"

definition plain_value :: "string \<Rightarrow> bool" where
  "plain_value v = (MatchString number v \<or> MatchString ip v \<or> MatchString clock v)"

definition opaque_id :: "string \<Rightarrow> string \<Rightarrow> bool" where
  "opaque_id k v = (MatchString idField k \<and> MatchString opaque v)"

section \<open>Eligibility and scope\<close>

definition Eligible :: "event \<Rightarrow> bool" where
  "Eligible e = (\<not> ev_ParseUncertain e \<and> \<not> ev_Truncated e \<and> \<not> ev_Sensitive e \<and> \<not> SecurityShaped (ev_Text e)
     \<and> length (ev_Text e) \<le> 2048 \<and> \<not> Contains (ev_Text e) [CHR 0x0A] \<and> length (Fields (ev_Text e)) \<le> 128)"

definition scope_keys :: "string list" where
  "scope_keys = [''type'', ''cluster_id'', ''context'', ''namespace'', ''container'', ''kind'', ''previous'', ''restart_count'']"

definition Scope :: "event \<Rightarrow> bool \<Rightarrow> source" where
  "Scope e drain =
     (if \<not> drain \<or> mget (ev_Source e) ''type'' \<noteq> Some (JStr ''kubernetes'') then ev_Source e
      else foldl (\<lambda>s k. case mget (ev_Source e) k of None \<Rightarrow> s | Some v \<Rightarrow> mput k v s) [] scope_keys)"

section \<open>Masking\<close>

fun maskedValue :: "string \<Rightarrow> json \<Rightarrow> bool \<Rightarrow> json" where
  "maskedValue key (JObj kvs) classic =
     (if protectedField key then JObj kvs else JObj (map (\<lambda>(k, v). (k, maskedValue k v classic)) kvs))"
| "maskedValue key (JStr x) classic =
     (if protectedField key then JStr x
      else if opaque_id key x then JStr ''<id>''
      else if classic \<and> plain_value x then JStr ''<value>'' else JStr x)"
| "maskedValue key (JNum x) classic =
     (if protectedField key then JNum x else if classic then JStr ''<number>'' else JNum x)"
| "maskedValue key v classic = v"

text \<open>One token, given the token before it as the loop left it.\<close>

definition mask_token :: "bool \<Rightarrow> string option \<Rightarrow> string \<Rightarrow> string" where
  "mask_token classic prev t =
     (case Cut t (CHR ''='') of
       (k, v, True) \<Rightarrow>
         (if protectedField k then t
          else if opaque_id k v then k @ ''=<id>''
          else if classic \<and> plain_value v then k @ ''=<value>'' else t)
     | (_, _, False) \<Rightarrow>
        (if \<not> classic then t
         else if (case prev of None \<Rightarrow> False
              | Some p \<Rightarrow> protectedField p \<or> HasPrefix p ''HTTP/'' \<or> p = ''Completed'') then t
         else if length t = 3 \<and> in_range 49 53 (hd t) \<and> MatchString number t then t
         else if plain_value t then ''<value>'' else t))"

fun mask_tokens :: "bool \<Rightarrow> string option \<Rightarrow> string list \<Rightarrow> string list" where
  "mask_tokens classic prev [] = []"
| "mask_tokens classic prev (t # ts) = (let m = mask_token classic prev t in m # mask_tokens classic (Some m) ts)"

definition Template :: "string \<Rightarrow> bool \<Rightarrow> string" where
  "Template text classic =
     (case json_parse text of
       Some (JObj kvs) \<Rightarrow> marshal (maskedValue [] (decode_any (JObj kvs)) classic)
     | _ \<Rightarrow> Join (mask_tokens classic None (Fields text)) '' '')"

section \<open>What masking may change\<close>

lemma length_mask_tokens: "length (mask_tokens classic prev ts) = length ts"
  by (induction ts arbitrary: prev) (simp_all add: Let_def)

lemma Cut_True: "Cut t b = (k, v, True) \<Longrightarrow> t = k @ b # v"
  by (auto simp: Cut_def dest: IndexByte_Some split: option.splits) (metis IndexByte_Some id_take_nth_drop)

lemma strict_token:
  "mask_token False prev t = t \<or> (\<exists>k v. t = k @ ''='' @ v \<and> opaque_id k v \<and> \<not> protectedField k
     \<and> mask_token False prev t = k @ ''=<id>'')"
  using Cut_True [of t "CHR ''=''"] by (auto simp: mask_token_def split: prod.splits bool.splits)

lemma nth_mask_tokens:
  "i < length ts \<Longrightarrow> \<exists>prev. mask_tokens classic p ts ! i = mask_token classic prev (ts ! i)"
  by (induction ts arbitrary: p i) (auto simp: Let_def nth_Cons split: nat.splits)

text \<open>
  strict masking only ever replaces an opaque identifier in an identifier field: two texts that are
  not JSON objects have the same strict tokens only when, token by token, they are equal or both carry
  an opaque value in an identifier field whose name is not protected.
\<close>

theorem strict_masking_only_ids:
  assumes "mask_tokens False None (Fields s) = mask_tokens False None (Fields t)"
  shows "length (Fields s) = length (Fields t) \<and> (\<forall>i < length (Fields s).
    Fields s ! i = Fields t ! i
    \<or> (\<exists>k v w. Fields s ! i = k @ ''='' @ v \<and> opaque_id k v \<and> \<not> protectedField k
         \<and> (Fields t ! i = k @ ''='' @ w \<and> opaque_id k w \<or> Fields t ! i = k @ ''=<id>''))
    \<or> (\<exists>k w. Fields s ! i = k @ ''=<id>'' \<and> Fields t ! i = k @ ''='' @ w \<and> opaque_id k w \<and> \<not> protectedField k))"
proof (intro conjI allI impI)
  show len: "length (Fields s) = length (Fields t)"
    using arg_cong [OF assms, of length] by (simp add: length_mask_tokens)
  fix i
  assume i: "i < length (Fields s)"
  obtain p q where p: "mask_tokens False None (Fields s) ! i = mask_token False p (Fields s ! i)"
    and q: "mask_tokens False None (Fields t) ! i = mask_token False q (Fields t ! i)"
    using nth_mask_tokens [OF i, of False None] nth_mask_tokens [of i "Fields t" False None] i len by auto
  have eq: "mask_token False p (Fields s ! i) = mask_token False q (Fields t ! i)" using assms p q by simp
  let ?s = "Fields s ! i" and ?t = "Fields t ! i"
  show "?s = ?t
    \<or> (\<exists>k v w. ?s = k @ ''='' @ v \<and> opaque_id k v \<and> \<not> protectedField k
         \<and> (?t = k @ ''='' @ w \<and> opaque_id k w \<or> ?t = k @ ''=<id>''))
    \<or> (\<exists>k w. ?s = k @ ''=<id>'' \<and> ?t = k @ ''='' @ w \<and> opaque_id k w \<and> \<not> protectedField k)"
  proof (cases "mask_token False p ?s = ?s")
    case True
    with strict_token [of q ?t] eq show ?thesis by metis
  next
    case False
    with strict_token [of p ?s] obtain k v where k: "?s = k @ ''='' @ v" "opaque_id k v" "\<not> protectedField k"
      "mask_token False p ?s = k @ ''=<id>''" by metis
    show ?thesis
    proof (cases "mask_token False q ?t = ?t")
      case True
      with k eq show ?thesis by metis
    next
      case False
      with strict_token [of q ?t] obtain k' w where t: "?t = k' @ ''='' @ w" "opaque_id k' w"
        "mask_token False q ?t = k' @ ''=<id>''" by metis
      with k eq have "k' = k" by simp
      with k t show ?thesis by metis
    qed
  qed
qed

text \<open>The values under protected names survive masking, at every depth of a document.\<close>

lemma masked_protected: "protectedField key \<Longrightarrow> maskedValue key v classic = v"
  by (cases v) auto

lemma masked_keys:
  "maskedValue key (JObj kvs) classic = JObj kvs' \<Longrightarrow> map fst kvs' = map fst kvs"
  by (auto split: if_splits)

theorem strict_masking_only_ids_witness:
  "length (Fields ''span_id=aaaaaaaaaaaaaaaa ok'') = length (Fields ''span_id=bbbbbbbbbbbbbbbb ok'')"
proof -
  have "mask_tokens False None (Fields ''span_id=aaaaaaaaaaaaaaaa ok'') = mask_tokens False None (Fields ''span_id=bbbbbbbbbbbbbbbb ok'')"
    by code_simp
  from strict_masking_only_ids [OF this] show ?thesis by blast
qed

end
