(* ===== verification/Teacher.thy ===== *)
theory Teacher
  imports Budget Templates
begin

text \<open>
  \<open>internal/provider/template.go\<close> and \<open>search.go\<close>: what a teacher may propose or review about a
  template, and the relevance answers of a search.  Both go through the budgeted \<open>send\<close> of the client;
  the request text is a parameter (its length).
\<close>

record template_evidence =
  te_ScopeID :: string
  te_TemplateID :: string
  te_Samples :: "string list"
  te_Occurrences :: nat
  te_Current :: Judgment

record proposal =
  pr_Name :: string
  pr_Version :: int
  pr_Required :: "string list"
  pr_Normalize :: "string list"
  pr_Protected :: "string list"
  pr_Cacheable :: bool
  pr_Confidence :: "f64 option"
  pr_Explanation :: string

record review =
  rv_Fields :: "string list"
  rv_Importance :: string
  rv_Category :: string
  rv_Severity :: string
  rv_Confidence :: "f64 option"
  rv_Explanation :: string

definition proposalName :: rx where
  "proposalName = rseq [RBegin, (let r = RCls (\<lambda>c. alnum_c c \<or> one_of ''_-'' c) in RSeq r (rupto 63 r)), REnd]"

definition pointer :: rx where
  "pointer = rseq [RBegin, rchr (CHR ''/''), (let r = RCls (\<lambda>c. alnum_c c \<or> one_of ''_/-'' c) in RSeq r (rupto 126 r)), REnd]"

fun valid_paths :: "string list \<Rightarrow> string list \<Rightarrow> bool" where
  "valid_paths seen [] = True"
| "valid_paths seen (p # ps) = (MatchString pointer p \<and> p \<notin> set seen \<and> valid_paths (p # seen) ps)"

definition Proposal_Validate :: "proposal \<Rightarrow> status" where
  "Proposal_Validate p =
     (if \<not> MatchString proposalName (pr_Name p) \<or> pr_Version p \<noteq> 1 \<or> \<not> in_unit (pr_Confidence p)
         \<or> \<not> member (pr_Explanation p) [''opaque_identifiers'', ''stable_structure'', ''insufficient_evidence'']
         \<or> length (pr_Required p) = 0
      then Some ErrSchema
      else if list_all (\<lambda>paths. length paths \<le> 32 \<and> valid_paths [] paths) [pr_Required p, pr_Normalize p, pr_Protected p]
      then None else Some ErrSchema)"

definition review_explanations :: "string list" where
  "review_explanations = [''no_change'', ''free_text'', ''pattern_burst'', ''authentication_failures'',
     ''privileged_action'', ''credential_material'', ''scanning'', ''upstream_failure'', ''resource_exhaustion'',
     ''insufficient_evidence'']"

definition Review_Validate :: "review \<Rightarrow> status" where
  "Review_Validate r =
     (if \<not> in_unit (rv_Confidence r) \<or> 32 < length (rv_Fields r) \<or> \<not> member (rv_Importance r) importances
         \<or> \<not> member (rv_Severity r) (severities @ [''unknown'']) \<or> \<not> member (rv_Category r) categories
         \<or> \<not> member (rv_Explanation r) review_explanations
      then Some ErrSchema
      else if list_all (\<lambda>f. MatchString pointer (''/'' @ f)) (rv_Fields r) then None else Some ErrSchema)"

section \<open>Decoding\<close>

definition dec_bool :: "bool \<Rightarrow> json \<Rightarrow> bool option" where
  "dec_bool old v = (case v of JBool b \<Rightarrow> Some b | JNull \<Rightarrow> Some old | _ \<Rightarrow> None)"

definition proposal_member :: "std \<Rightarrow> proposal \<Rightarrow> string \<Rightarrow> json \<Rightarrow> proposal option" where
  "proposal_member S p k v =
     (if is_field ''name'' k then map_option (\<lambda>x. p\<lparr>pr_Name := x\<rparr>) (dec_string (pr_Name p) v)
      else if is_field ''version'' k then map_option (\<lambda>x. p\<lparr>pr_Version := x\<rparr>) (dec_int (pr_Version p) v)
      else if is_field ''required_paths'' k then map_option (\<lambda>x. p\<lparr>pr_Required := x\<rparr>) (dec_list (dec_string []) v)
      else if is_field ''normalize_paths'' k then map_option (\<lambda>x. p\<lparr>pr_Normalize := x\<rparr>) (dec_list (dec_string []) v)
      else if is_field ''protected_paths'' k then map_option (\<lambda>x. p\<lparr>pr_Protected := x\<rparr>) (dec_list (dec_string []) v)
      else if is_field ''cacheable'' k then map_option (\<lambda>x. p\<lparr>pr_Cacheable := x\<rparr>) (dec_bool (pr_Cacheable p) v)
      else if is_field ''confidence'' k then map_option (\<lambda>x. p\<lparr>pr_Confidence := x\<rparr>) (dec_float_ptr S v)
      else if is_field ''explanation'' k then map_option (\<lambda>x. p\<lparr>pr_Explanation := x\<rparr>) (dec_string (pr_Explanation p) v)
      else None)"

definition zero_proposal :: proposal where
  "zero_proposal = \<lparr>pr_Name = [], pr_Version = 0, pr_Required = [], pr_Normalize = [], pr_Protected = [],
     pr_Cacheable = False, pr_Confidence = None, pr_Explanation = []\<rparr>"

definition review_fields_member :: "std \<Rightarrow> review \<Rightarrow> string \<Rightarrow> json \<Rightarrow> review option" where
  "review_fields_member S r k v =
     (if is_field ''free_text_fields'' k then map_option (\<lambda>x. r\<lparr>rv_Fields := x\<rparr>) (dec_list (dec_string []) v)
      else if is_field ''importance'' k then map_option (\<lambda>x. r\<lparr>rv_Importance := x\<rparr>) (dec_string (rv_Importance r) v)
      else if is_field ''category'' k then map_option (\<lambda>x. r\<lparr>rv_Category := x\<rparr>) (dec_string (rv_Category r) v)
      else if is_field ''severity'' k then map_option (\<lambda>x. r\<lparr>rv_Severity := x\<rparr>) (dec_string (rv_Severity r) v)
      else if is_field ''confidence'' k then map_option (\<lambda>x. r\<lparr>rv_Confidence := x\<rparr>) (dec_float_ptr S v)
      else if is_field ''explanation'' k then map_option (\<lambda>x. r\<lparr>rv_Explanation := x\<rparr>) (dec_string (rv_Explanation r) v)
      else None)"

definition zero_review :: review where
  "zero_review = \<lparr>rv_Fields = [], rv_Importance = [], rv_Category = [], rv_Severity = [], rv_Confidence = None,
     rv_Explanation = []\<rparr>"

text \<open>\<open>structured\<close> refuses evidence that still carries something the redaction would remove.\<close>

definition sample_clean :: "string \<Rightarrow> bool" where
  "sample_clean s = (case Redact s of (safe, changed) \<Rightarrow>
     \<not> (2048 < length s \<or> changed \<or> (safe \<noteq> s \<and> \<not> json_Valid s)))"

definition structured :: "config \<Rightarrow> nat \<Rightarrow> attempt list \<Rightarrow> template_evidence \<Rightarrow> usage \<Rightarrow> usage \<times> string result" where
  "structured c sz as e u =
     (if Kind c = ''typesafe'' \<or> 8 < length (te_Samples e) \<or> \<not> list_all sample_clean (te_Samples e)
      then (u, Inl ErrSchema)
      else case client_send c sz as u of
        (u1, Inl err) \<Rightarrow> (u1, Inl err)
      | (u1, Inr raw) \<Rightarrow> (u1, Output (Kind c) raw))"

definition Propose :: "std \<Rightarrow> config \<Rightarrow> nat \<Rightarrow> attempt list \<Rightarrow> template_evidence \<Rightarrow> usage \<Rightarrow> usage \<times> proposal result" where
  "Propose S c sz as e u =
     (case structured c sz as e u of
       (u1, Inl err) \<Rightarrow> (u1, Inl err)
     | (u1, Inr raw) \<Rightarrow>
        (if 8192 < length raw \<or> \<not> Required raw [''name'', ''version'', ''required_paths'', ''normalize_paths'',
              ''protected_paths'', ''cacheable'', ''confidence'', ''explanation'']
         then (u1, Inl ErrSchema)
         else case Strict (dec_struct (proposal_member S) zero_proposal) raw of
           Inl err \<Rightarrow> (u1, Inl ErrSchema)
         | Inr p \<Rightarrow> (u1, if Proposal_Validate p = None then Inr p else Inl ErrSchema)))"

definition Review :: "std \<Rightarrow> config \<Rightarrow> nat \<Rightarrow> attempt list \<Rightarrow> template_evidence \<Rightarrow> usage \<Rightarrow> usage \<times> review result" where
  "Review S c sz as e u =
     (case structured c sz as e u of
       (u1, Inl err) \<Rightarrow> (u1, Inl err)
     | (u1, Inr raw) \<Rightarrow>
        (if 8192 < length raw \<or> \<not> Required raw [''free_text_fields'', ''importance'', ''category'', ''severity'',
              ''confidence'', ''explanation'']
         then (u1, Inl ErrSchema)
         else case Strict (dec_struct (review_fields_member S) zero_review) raw of
           Inl err \<Rightarrow> (u1, Inl ErrSchema)
         | Inr r \<Rightarrow> (u1, if Review_Validate r = None then Inr r else Inl ErrSchema)))"

section \<open>Relevance\<close>

record relevance =
  rl_Relevance :: string
  rl_Confidence :: "f64 option"
  rl_Error :: string

definition relevance_of :: "(string, choiceAnswer) gomap \<Rightarrow> nat \<Rightarrow> event \<Rightarrow> relevance option" where
  "relevance_of answers i e =
     (case mget answers (''e'' @ show_nat i @ ''_relevance'') of
       None \<Rightarrow> None
     | Some a \<Rightarrow>
        (if choice_Validate a \<noteq> None \<or> ca_Choice a \<notin> {''match'', ''possible'', ''unrelated''} then None
         else Some \<lparr>rl_Relevance = (if (case ca_Confidence a of None \<Rightarrow> True | Some v \<Rightarrow> f64_lt v c_0_7)
               \<or> ev_Truncated e \<or> ev_ParseUncertain e then ''possible'' else ca_Choice a),
             rl_Confidence = ca_Confidence a, rl_Error = []\<rparr>))"

definition Client_Search :: "std \<Rightarrow> config \<Rightarrow> nat \<Rightarrow> attempt list \<Rightarrow> event list \<Rightarrow> usage \<Rightarrow> usage \<times> relevance list result" where
  "Client_Search S c sz as events u =
     (if Kind c \<noteq> ''typesafe'' \<or> length events < 1 \<or> 8 < length events then (u, Inl ErrSchema)
      else case client_send c sz as u of
        (u1, Inl err) \<Rightarrow> (u1, Inl err)
      | (u1, Inr raw) \<Rightarrow>
         (u1, case Strict (dec_map Some) raw of
            Inl err \<Rightarrow> Inl ErrSchema
          | Inr body \<Rightarrow>
             (case mget body ''answers'' of
               None \<Rightarrow> Inl ErrSchema
             | Some av \<Rightarrow>
                (case StrictJson (dec_map (dec_choice S)) av of
                  Inl err \<Rightarrow> Inl ErrSchema
                | Inr answers \<Rightarrow>
                   (if length answers \<noteq> length events then Inl ErrSchema
                    else case those (map2 (relevance_of answers) [0..<length events] events) of
                      None \<Rightarrow> Inl ErrSchema | Some rs \<Rightarrow> Inr rs)))))"

lemma valid_paths_distinct: "valid_paths seen ps \<Longrightarrow> distinct ps \<and> set ps \<inter> set seen = {} \<and> (\<forall>p \<in> set ps. MatchString pointer p)"
proof (induction ps arbitrary: seen)
  case Nil
  then show ?case by simp
next
  case (Cons p ps)
  with Cons.IH [of "p # seen"] show ?case by auto
qed

lemma Review_Validate_None:
  "Review_Validate r = None \<Longrightarrow> (\<exists>q. rv_Confidence r = Some (Fin q) \<and> 0 \<le> q \<and> q \<le> 1)
    \<and> rv_Importance r \<in> set importances \<and> rv_Category r \<in> set categories \<and> rv_Severity r \<in> set (severities @ [''unknown''])"
  by (auto simp: Review_Validate_def member_iff dest: in_unit_D split: if_splits)

end
