(* ===== verification/GoSort.thy ===== *)
theory GoSort
  imports Prelude "HOL-Library.Multiset"
begin

text \<open>
  \<open>sort.SliceStable\<close> for a comparison function, as the stable insertion sort.  For a comparison that is a
  strict weak order the stable result is unique, so every stable sort computes the same list; the locale
  \<open>strict_weak\<close> is the contract the callers' comparisons must meet.
\<close>

fun insert_stable :: "('a \<Rightarrow> 'a \<Rightarrow> bool) \<Rightarrow> 'a \<Rightarrow> 'a list \<Rightarrow> 'a list" where
  "insert_stable lt x [] = [x]"
| "insert_stable lt x (y # ys) = (if lt y x then y # insert_stable lt x ys else x # y # ys)"

definition sort_stable :: "('a \<Rightarrow> 'a \<Rightarrow> bool) \<Rightarrow> 'a list \<Rightarrow> 'a list" where
  "sort_stable lt xs = foldr (insert_stable lt) xs []"

lemma sort_stable_simps [simp]: "sort_stable lt [] = []" "sort_stable lt (x # xs) = insert_stable lt x (sort_stable lt xs)"
  by (simp_all add: sort_stable_def)

lemma mset_insert_stable [simp]: "mset (insert_stable lt x ys) = add_mset x (mset ys)"
  by (induction ys) auto

lemma mset_sort_stable [simp]: "mset (sort_stable lt xs) = mset xs"
  by (induction xs) auto

lemma set_insert_stable [simp]: "set (insert_stable lt x ys) = insert x (set ys)"
  by (induction ys) auto

lemma set_sort_stable [simp]: "set (sort_stable lt xs) = set xs"
  by (induction xs) auto

lemma length_insert_stable [simp]: "length (insert_stable lt x ys) = Suc (length ys)"
  by (induction ys) auto

lemma length_sort_stable [simp]: "length (sort_stable lt xs) = length xs"
  by (induction xs) auto

text \<open>No element stands behind one it must precede.\<close>

abbreviation ordered_by :: "('a \<Rightarrow> 'a \<Rightarrow> bool) \<Rightarrow> 'a list \<Rightarrow> bool" where
  "ordered_by lt xs \<equiv> sorted_wrt (\<lambda>a b. \<not> lt b a) xs"

locale strict_weak =
  fixes good :: "'a \<Rightarrow> bool" and lt :: "'a \<Rightarrow> 'a \<Rightarrow> bool"
  assumes asym: "good a \<Longrightarrow> good b \<Longrightarrow> lt a b \<Longrightarrow> \<not> lt b a"
    and weak: "good a \<Longrightarrow> good b \<Longrightarrow> good c \<Longrightarrow> \<not> lt b a \<Longrightarrow> \<not> lt c b \<Longrightarrow> \<not> lt c a"
begin

lemma insert_ordered:
  "ordered_by lt ys \<Longrightarrow> good x \<Longrightarrow> \<forall>y \<in> set ys. good y \<Longrightarrow> ordered_by lt (insert_stable lt x ys)"
proof (induction ys)
  case Nil
  then show ?case by simp
next
  case (Cons y ys)
  show ?case
  proof (cases "lt y x")
    case True
    with Cons asym [of y x] show ?thesis by simp
  next
    case False
    with Cons.prems weak [of x y] show ?thesis by auto
  qed
qed

lemma sort_ordered: "\<forall>x \<in> set xs. good x \<Longrightarrow> ordered_by lt (sort_stable lt xs)"
  by (induction xs) (auto intro: insert_ordered)

text \<open>Equal elements keep their order.\<close>

definition tied :: "'a \<Rightarrow> 'a \<Rightarrow> bool" where
  "tied a b = (\<not> lt a b \<and> \<not> lt b a)"

lemma insert_tied:
  "good k \<Longrightarrow> good x \<Longrightarrow> \<forall>y \<in> set ys. good y \<Longrightarrow>
    filter (tied k) (insert_stable lt x ys) = filter (tied k) (x # ys)"
proof (induction ys)
  case Nil
  then show ?case by simp
next
  case (Cons y ys)
  have "\<not> (tied k x \<and> tied k y)" if "lt y x"
    using that weak [of x k y] Cons.prems by (auto simp: tied_def)
  with Cons show ?case by auto
qed

lemma sort_keeps_ties: "good k \<Longrightarrow> \<forall>x \<in> set xs. good x \<Longrightarrow> filter (tied k) (sort_stable lt xs) = filter (tied k) xs"
  by (induction xs) (simp_all add: insert_tied)

end

text \<open>A comparison by a key is such an order.\<close>

locale key_order =
  fixes good :: "'a \<Rightarrow> bool" and lt :: "'a \<Rightarrow> 'a \<Rightarrow> bool" and key :: "'a \<Rightarrow> 'k :: linorder"
  assumes by_key: "good a \<Longrightarrow> good b \<Longrightarrow> lt a b \<longleftrightarrow> key a < key b"

sublocale key_order \<subseteq> strict_weak good lt
  by unfold_locales (auto simp: by_key)

text \<open>Where no two elements share a key, the result does not depend on the order of the input.\<close>

context key_order
begin

lemma sort_sorted_keys: "\<forall>x \<in> set xs. good x \<Longrightarrow> sorted (map key (sort_stable lt xs))"
proof -
  assume g: "\<forall>x \<in> set xs. good x"
  from sort_ordered [OF g] have "sorted_wrt (\<lambda>a b. key a \<le> key b) (sort_stable lt xs)"
    by (rule sorted_wrt_mono_rel [rotated]) (use g in \<open>auto simp: by_key not_less\<close>)
  then show ?thesis by (simp add: sorted_map)
qed

lemma sort_order_free:
  assumes "mset xs = mset ys" and "\<forall>x \<in> set xs. good x" and "inj_on key (set xs)"
  shows "sort_stable lt xs = sort_stable lt ys"
proof (rule map_inj_on)
  have set: "set ys = set xs" using assms(1) by (metis set_mset_mset)
  have "mset (map key (sort_stable lt xs)) = mset (map key (sort_stable lt ys))" using assms(1) by simp
  moreover have "sorted (map key (sort_stable lt xs))" "sorted (map key (sort_stable lt ys))"
    using sort_sorted_keys assms(2) set by simp_all
  ultimately show "map key (sort_stable lt xs) = map key (sort_stable lt ys)"
    by (metis properties_for_sort)
  show "inj_on key (set (sort_stable lt xs) \<union> set (sort_stable lt ys))" using assms(3) set by simp
qed

end

end
