(* ===== verification/Search.thy ===== *)
theory Search
  imports Teacher Bounded GoSort
begin

text \<open>
  \<open>internal/search/search.go\<close>: the search over a frozen window of events.  Groups of identical evidence,
  the bounded result cache, the literal and the semantic pass, the ranking of candidates and the snapshot.
  The client is a state with a search operation and a usage reading; \<open>tick n\<close> is the \<open>n\<close>-th reading of
  the clock and \<open>live n\<close> says whether the context lives at the \<open>n\<close>-th look.
\<close>

section \<open>The result cache\<close>

type_synonym cache = "(string, gotime \<times> relevance) gomap"

definition cache_ttl :: int where
  "cache_ttl = 5 * 60 * second"

definition zero_relevance :: relevance where
  "zero_relevance = \<lparr>rl_Relevance = [], rl_Confidence = None, rl_Error = []\<rparr>"

definition cache_get :: "gotime \<Rightarrow> string \<Rightarrow> cache \<Rightarrow> cache \<times> relevance option" where
  "cache_get now key c =
     (case mget c key of
       Some (t, v) \<Rightarrow> if Sub now t < cache_ttl then (c, Some v) else (mdel key c, None)
     | None \<Rightarrow> (mdel key c, None))"

text \<open>The loop over the map keeps the first entry that is strictly older than all it has seen; the empty
  key never wins against a later one.\<close>

definition oldest_key :: "cache \<Rightarrow> string" where
  "oldest_key c = fst (foldl (\<lambda>(old, low) (k, t, v). if old = [] \<or> Before t low then (k, t) else (old, low)) ([], zero_time) c)"

definition cache_room :: "nat \<Rightarrow> cache \<Rightarrow> cache" where
  "cache_room n c = (if n \<le> length c then mdel (oldest_key c) c else c)"

definition cache_put :: "gotime \<Rightarrow> string \<Rightarrow> relevance \<Rightarrow> cache \<Rightarrow> cache" where
  "cache_put now key v c = mput key (now, v) (cache_room 2048 c)"

section \<open>The frozen window\<close>

record search_result =
  sr_GroupID :: string
  sr_EventID :: string
  sr_Count :: nat
  sr_Cached :: bool
  sr_Relevance :: relevance

record run =
  rn_ID :: string
  rn_Query :: string
  rn_Mode :: string
  rn_Events :: "event list"
  rn_groups :: "event list"
  rn_results :: "search_result list"
  rn_status :: string
  rn_message :: string
  rn_checked :: nat
  rn_failed :: nat
  rn_hits :: nat
  rn_candidates :: nat
  rn_started :: gotime
  rn_finished :: gotime
  rn_usage :: usage
  rn_cache :: cache
  rn_budget :: nat

definition evidence_key :: "std \<Rightarrow> event \<Rightarrow> string" where
  "evidence_key S e = Hash S (JArr [JObj (ev_Source e), JStr (ev_Text e), JBool (ev_Truncated e), JBool (ev_Sensitive e),
     JBool (ev_ParseUncertain e)])"

definition min_stamp :: "string \<Rightarrow> string option \<Rightarrow> string option" where
  "min_stamp t o' = (case o' of None \<Rightarrow> Some t | Some f \<Rightarrow> if t < f then Some t else Some f)"

definition max_stamp :: "string \<Rightarrow> string option \<Rightarrow> string option" where
  "max_stamp t o' = (case o' of None \<Rightarrow> Some t | Some l \<Rightarrow> if l < t then Some t else Some l)"

definition count_occurrence :: "string option \<Rightarrow> occurrences \<Rightarrow> occurrences" where
  "count_occurrence ts o' =
     (let o1 = o'\<lparr>occ_Count := occ_Count o' + 1\<rparr> in
      case ts of None \<Rightarrow> o1
      | Some t \<Rightarrow> o1\<lparr>occ_First := min_stamp t (occ_First o1), occ_Last := max_stamp t (occ_Last o1)\<rparr>)"

definition no_occurrences :: occurrences where
  "no_occurrences = \<lparr>occ_Count = 0, occ_First = None, occ_Last = None\<rparr>"

definition occurrences_of :: "event \<Rightarrow> occurrences" where
  "occurrences_of e = (case ev_SearchOccurrences e of None \<Rightarrow> no_occurrences | Some o' \<Rightarrow> o')"

definition bump :: "string option \<Rightarrow> event \<Rightarrow> event" where
  "bump ts g = g\<lparr>ev_SearchOccurrences := Some (count_occurrence ts (occurrences_of g))\<rparr>"

text \<open>\<open>by\<close> maps a key to its group; the group carries that key as its identity.\<close>

definition add_group :: "std \<Rightarrow> event \<Rightarrow> event list \<Rightarrow> event list" where
  "add_group S e0 gs =
     (let e = e0\<lparr>ev_Text := fst (Redact (ev_Text e0))\<rparr>; key = evidence_key S e in
      if list_ex (\<lambda>g. ev_GroupID g = key) gs
      then map (\<lambda>g. if ev_GroupID g = key then bump (ev_Timestamp e) g else g) gs
      else gs @ [bump (ev_Timestamp e) (e\<lparr>ev_GroupID := key, ev_SearchOccurrences := Some no_occurrences\<rparr>)])"

fun group_events :: "std \<Rightarrow> string list \<Rightarrow> event list \<Rightarrow> event list \<Rightarrow> event list" where
  "group_events S seen [] gs = gs"
| "group_events S seen (e # es) gs =
     (if ev_ID e \<in> set seen then group_events S seen es gs
      else group_events S (ev_ID e # seen) es (add_group S e gs))"

definition usage_complete :: usage where
  "usage_complete = usage0\<lparr>u_Complete := True\<rparr>"

definition Search_New :: "std \<Rightarrow> gotime \<Rightarrow> event list \<Rightarrow> string \<Rightarrow> string \<Rightarrow> int \<Rightarrow> cache option \<Rightarrow> run result" where
  "Search_New S now events query0 mode budget cache =
     (let query = TrimSpace query0 in
      if length (runes query) < 1 \<or> 500 < length (runes query) \<or> has_control query \<or> (mode \<noteq> ''literal'' \<and> mode \<noteq> ''jev'')
         \<or> budget < 1 \<or> 64 < budget \<or> 100000 < length events
      then Inl (Err ''invalid search options'')
      else let q = fst (Redact query); groups = group_events S [] events [] in
        Inr \<lparr>rn_ID = Hash S (JArr [JInt (wall now - unix_epoch), JStr q]), rn_Query = q, rn_Mode = mode, rn_Events = events,
          rn_groups = groups, rn_results = [], rn_status = ''running'',
          rn_message = ''Searching the frozen log window'' @ [CHR 0xE2, CHR 0x80, CHR 0xA6],
          rn_checked = 0, rn_failed = 0, rn_hits = 0, rn_candidates = length groups, rn_started = now,
          rn_finished = zero_time, rn_usage = usage_complete, rn_cache = (case cache of None \<Rightarrow> [] | Some c \<Rightarrow> c),
          rn_budget = nat budget\<rparr>)"

section \<open>Recording\<close>

definition occurrences_json :: "occurrences \<Rightarrow> json" where
  "occurrences_json o' =
     (let stamp = (\<lambda>t. case t of None \<Rightarrow> JNull | Some s \<Rightarrow> JStr s) in
      JObj [(''count'', JInt (int (occ_Count o'))), (''first_seen'', stamp (occ_First o')), (''last_seen'', stamp (occ_Last o'))])"

definition run_key :: "std \<Rightarrow> run \<Rightarrow> event \<Rightarrow> string" where
  "run_key S r e = Hash S (JArr [JStr ''go-search-v1'', JStr ''jev-latest'', JStr (rn_Query r), JStr (ev_GroupID e),
     occurrences_json (occurrences_of e)])"

definition record_result :: "event \<Rightarrow> relevance \<Rightarrow> bool \<Rightarrow> run \<Rightarrow> run" where
  "record_result e v cached r =
     r\<lparr>rn_checked := rn_checked r + 1, rn_hits := rn_hits r + (if cached then 1 else 0),
       rn_failed := rn_failed r + (if rl_Relevance v = ''unknown'' then 1 else 0),
       rn_results := (if rl_Relevance v \<noteq> ''unrelated''
         then rn_results r @ [\<lparr>sr_GroupID = ev_GroupID e, sr_EventID = ev_ID e, sr_Count = occ_Count (occurrences_of e),
                              sr_Cached = cached, sr_Relevance = v\<rparr>]
         else rn_results r)\<rparr>"

section \<open>Ranking\<close>

definition find_all_strings :: "rx \<Rightarrow> string \<Rightarrow> string list" where
  "find_all_strings r s = map (\<lambda>c. cap c 0) (FindAll (RCap 0 r) s)"

definition words_rx :: rx where
  "words_rx = rplus (RCls (\<lambda>c. lower_c c \<or> digit_c c \<or> c = CHR ''_''))"

definition stop_words :: "string list" where
  "stop_words = Fields ''a an the me find show get all logs log lines line events event requests request against from for to with ip address major issue issues any are there what which is in of and''"

definition aliases :: "string list list" where
  "aliases = [Fields ''db database postgres postgresql mysql sql mongo mongodb redis'',
     Fields ''error errors failure failed failing unavailable exhausted deadlock timeout timeouts issue issues'']"

definition rank_terms :: "std \<Rightarrow> string \<Rightarrow> string list" where
  "rank_terms S query =
     foldl (\<lambda>terms alias. if list_ex (\<lambda>w. w \<in> set terms) alias then terms @ alias else terms)
       (filter (\<lambda>w. w \<notin> set stop_words) (find_all_strings words_rx (ToLower S query))) aliases"

definition rank :: "std \<Rightarrow> string \<Rightarrow> string \<Rightarrow> nat" where
  "rank S text' query = (let t = ToLower S text' in length (filter (Contains t) (remdups (rank_terms S query))))"

definition rank_order :: "std \<Rightarrow> string \<Rightarrow> event list \<Rightarrow> event list" where
  "rank_order S query es =
     (let score = (\<lambda>e. rank S (ev_Text e @ marshal (JObj (ev_Source e))) query) in
      sort_stable (\<lambda>a b. score b < score a) es)"

section \<open>Execution\<close>

record 'c search_client =
  sc_Search :: "string \<Rightarrow> event list \<Rightarrow> 'c \<Rightarrow> 'c \<times> relevance list result"
  sc_Usage :: "'c \<Rightarrow> usage"

definition literal_verdict :: "std \<Rightarrow> run \<Rightarrow> event \<Rightarrow> relevance" where
  "literal_verdict S r e = zero_relevance\<lparr>rl_Relevance :=
     (if Contains (ToLower S (ev_Text e)) (ToLower S (rn_Query r)) then ''match'' else ''unrelated'')\<rparr>"

text \<open>The first pass: literal verdicts and cache hits; the rest is pending.  The flag says that the pass
  was not cancelled.\<close>

fun first_pass :: "std \<Rightarrow> (nat \<Rightarrow> bool) \<Rightarrow> (nat \<Rightarrow> gotime) \<Rightarrow> nat \<Rightarrow> event list \<Rightarrow> run \<Rightarrow> event list \<Rightarrow> run \<times> event list \<times> bool" where
  "first_pass S live tick i [] r pending = (r, pending, True)"
| "first_pass S live tick i (e # es) r pending =
     (if \<not> live i then (r, pending, False)
      else if rn_Mode r = ''literal'' then
        first_pass S live tick (Suc i) es (record_result e (literal_verdict S r e) False r) pending
      else case cache_get (tick i) (run_key S r e) (rn_cache r) of
        (c, Some v) \<Rightarrow> first_pass S live tick (Suc i) es (record_result e v True (r\<lparr>rn_cache := c\<rparr>)) pending
      | (c, None) \<Rightarrow> first_pass S live tick (Suc i) es (r\<lparr>rn_cache := c\<rparr>) (pending @ [e]))"

definition failed_verdict :: relevance where
  "failed_verdict = \<lparr>rl_Relevance = ''unknown'', rl_Confidence = None, rl_Error = ''Search could not evaluate this evidence''\<rparr>"

fun record_batch :: "std \<Rightarrow> (nat \<Rightarrow> gotime) \<Rightarrow> nat \<Rightarrow> (event \<times> relevance) list \<Rightarrow> run \<Rightarrow> run" where
  "record_batch S tick i [] r = r"
| "record_batch S tick i ((e, v) # evs) r =
     (let r1 = (if rl_Relevance v \<noteq> ''unknown'' then r\<lparr>rn_cache := cache_put (tick i) (run_key S r e) v (rn_cache r)\<rparr> else r) in
      record_batch S tick (Suc i) evs (record_result e v False r1))"

definition batch_verdicts :: "event list \<Rightarrow> relevance list result \<Rightarrow> (event \<times> relevance) list" where
  "batch_verdicts batch answer = zip batch
     (case answer of
       Inr vs \<Rightarrow> if length vs = length batch then vs else map (\<lambda>_. failed_verdict) batch
     | Inl e \<Rightarrow> map (\<lambda>_. failed_verdict) batch)"

text \<open>Every round consumes up to eight pending groups.\<close>

function (sequential) second_pass :: "std \<Rightarrow> (nat \<Rightarrow> bool) \<Rightarrow> (nat \<Rightarrow> gotime) \<Rightarrow> nat \<Rightarrow> ('c search_client \<times> 'c) option \<Rightarrow> event list \<Rightarrow> run
    \<Rightarrow> ('c search_client \<times> 'c) option \<times> run" where
  "second_pass S live tick i client [] r = (client, r)"
| "second_pass S live tick i client (p # pending) r =
     (if \<not> live i then (client, r)
      else let batch = take 8 (p # pending); rest = drop 8 (p # pending) in
        case client of
          None \<Rightarrow> second_pass S live tick (i + length batch) None rest
            (record_batch S tick i (batch_verdicts batch (Inl (Err ''semantic search credentials unavailable''))) r)
        | Some (C, c) \<Rightarrow>
            (case sc_Search C (rn_Query r) batch c of
              (c1, answer) \<Rightarrow>
                (let r1 = (record_batch S tick i (batch_verdicts batch answer) r)\<lparr>rn_usage := sc_Usage C c1\<rparr> in
                 if u_Breaker (sc_Usage C c1) \<noteq> [] then (Some (C, c1), r1)
                 else second_pass S live tick (i + length batch) (Some (C, c1)) rest r1)))"
  by pat_completeness auto
termination
  by (relation "measure (\<lambda>(S, live, tick, i, client, pending, r). length pending)") auto

definition finish_run :: "gotime \<Rightarrow> bool \<Rightarrow> ('c search_client \<times> 'c) option \<Rightarrow> run \<Rightarrow> run" where
  "finish_run now alive client r =
     r\<lparr>rn_finished := now, rn_status := (if alive then ''complete'' else ''cancelled''),
       rn_message := (if \<not> alive then ''Search stopped; completed results preserved.''
         else if rn_checked r < length (rn_groups r) \<or> 0 < rn_failed r then ''Partial search: some groups were not evaluated.''
         else ''Finished searching the frozen log window.''),
       rn_usage := (case client of None \<Rightarrow> rn_usage r | Some (C, c) \<Rightarrow> sc_Usage C c)\<rparr>"

definition Execute :: "std \<Rightarrow> (nat \<Rightarrow> bool) \<Rightarrow> (nat \<Rightarrow> gotime) \<Rightarrow> gotime \<Rightarrow> bool \<Rightarrow> ('c search_client \<times> 'c) option \<Rightarrow> run
    \<Rightarrow> ('c search_client \<times> 'c) option \<times> run" where
  "Execute S live tick now alive client r =
     (case first_pass S live tick 0 (rn_groups r) r [] of
       (r1, pending, passed) \<Rightarrow>
         (if \<not> passed \<or> rn_Mode r = ''literal'' then (client, finish_run now alive client r1)
          else let sent = take (rn_budget r * 8) (rank_order S (rn_Query r) pending);
                   r2 = r1\<lparr>rn_candidates := rn_checked r1 + length sent\<rparr> in
            case second_pass S live tick (length (rn_groups r)) client sent r2 of
              (client', r3) \<Rightarrow> (client', finish_run now alive client' r3)))"

section \<open>The snapshot\<close>

definition relevance_rank :: "string \<Rightarrow> nat" where
  "relevance_rank v = (if v = ''match'' then 0 else if v = ''possible'' then 1 else if v = ''unknown'' then 2 else 0)"

definition result_before :: "search_result \<Rightarrow> search_result \<Rightarrow> bool" where
  "result_before a b =
     (let ra = relevance_rank (rl_Relevance (sr_Relevance a)); rb = relevance_rank (rl_Relevance (sr_Relevance b)) in
      if ra \<noteq> rb then ra < rb
      else case (rl_Confidence (sr_Relevance a), rl_Confidence (sr_Relevance b)) of
        (Some x, Some y) \<Rightarrow>
          (if \<not> f64_eq x y then f64_lt y x
           else if sr_Count a \<noteq> sr_Count b then sr_Count b < sr_Count a else sr_GroupID a < sr_GroupID b)
      | _ \<Rightarrow> if sr_Count a \<noteq> sr_Count b then sr_Count b < sr_Count a else sr_GroupID a < sr_GroupID b)"

record snapshot =
  sn_ID :: string
  sn_query :: string
  sn_mode :: string
  sn_status :: string
  sn_message :: string
  sn_total_events :: nat
  sn_total_groups :: nat
  sn_candidates :: nat
  sn_examined :: nat
  sn_unexamined :: nat
  sn_failed :: nat
  sn_hits :: nat
  sn_matched :: nat
  sn_possible :: nat
  sn_instances :: nat
  sn_partial :: bool
  sn_usage :: usage
  sn_elapsed :: int
  sn_result_count :: nat
  sn_offset :: nat
  sn_results :: "search_result list"

definition with_relevance :: "string \<Rightarrow> search_result list \<Rightarrow> search_result list" where
  "with_relevance v rs = filter (\<lambda>x. rl_Relevance (sr_Relevance x) = v) rs"

definition Snapshot :: "gotime \<Rightarrow> int \<Rightarrow> run \<Rightarrow> snapshot" where
  "Snapshot now offset0 r =
     (let results = sort_stable result_before (rn_results r);
          offset = nat (max 0 (min offset0 (int (length results))));
          end_time = (if IsZero (rn_finished r) then now else rn_finished r) in
      \<lparr>sn_ID = rn_ID r, sn_query = rn_Query r, sn_mode = rn_Mode r, sn_status = rn_status r, sn_message = rn_message r,
       sn_total_events = length (rn_Events r), sn_total_groups = length (rn_groups r), sn_candidates = rn_candidates r,
       sn_examined = rn_checked r, sn_unexamined = length (rn_groups r) - rn_checked r, sn_failed = rn_failed r,
       sn_hits = rn_hits r, sn_matched = length (with_relevance ''match'' results),
       sn_possible = length (with_relevance ''possible'' results),
       sn_instances = sum_list (map sr_Count (with_relevance ''match'' results)),
       sn_partial = (rn_checked r < length (rn_groups r) \<or> 0 < rn_failed r), sn_usage = rn_usage r,
       sn_elapsed = Sub end_time (rn_started r), sn_result_count = length results, sn_offset = offset,
       sn_results = take 20 (drop offset results)\<rparr>)"

end
