(* ===== verification/SearchSafety.thy ===== *)
theory SearchSafety
  imports Search "HOL-Library.Product_Lexorder"
begin

text \<open>
  What the search guarantees: the groups account for every event once, the literal pass is exact, the
  semantic pass stays within its budget, the cache is bounded and never serves a failure, and the snapshot
  is a ranking of the results.
\<close>

section \<open>Groups account for every event\<close>

definition group_counts :: "event list \<Rightarrow> nat" where
  "group_counts gs = sum_list (map (\<lambda>g. occ_Count (occurrences_of g)) gs)"

definition groups_ok :: "std \<Rightarrow> event list \<Rightarrow> bool" where
  "groups_ok S gs = (distinct (map ev_GroupID gs) \<and> (\<forall>g \<in> set gs. ev_GroupID g = evidence_key S g \<and> 1 \<le> occ_Count (occurrences_of g)))"

lemma bump_fields [simp]: "ev_GroupID (bump t g) = ev_GroupID g" "evidence_key S (bump t g) = evidence_key S g"
  "occ_Count (occurrences_of (bump t g)) = Suc (occ_Count (occurrences_of g))"
  by (simp_all add: bump_def evidence_key_def occurrences_of_def count_occurrence_def Let_def split: option.split)

lemma sum_bump_one:
  "distinct (map ev_GroupID gs) \<Longrightarrow> k \<in> ev_GroupID ` set gs \<Longrightarrow>
    group_counts (map (\<lambda>g. if ev_GroupID g = k then bump t g else g) gs) = Suc (group_counts gs)"
proof (induction gs)
  case Nil
  then show ?case by simp
next
  case (Cons g gs)
  show ?case
  proof (cases "ev_GroupID g = k")
    case True
    with Cons.prems have "k \<notin> ev_GroupID ` set gs" by auto
    then have "map (\<lambda>g. if ev_GroupID g = k then bump t g else g) gs = gs" by (intro map_idI) auto
    with True show ?thesis by (simp add: group_counts_def)
  next
    case False
    with Cons show ?thesis by (simp add: group_counts_def)
  qed
qed

lemma add_group_ok:
  assumes "groups_ok S gs"
  shows "groups_ok S (add_group S e gs) \<and> group_counts (add_group S e gs) = Suc (group_counts gs)
    \<and> ev_GroupID ` set gs \<subseteq> ev_GroupID ` set (add_group S e gs)"
proof -
  let ?e = "e\<lparr>ev_Text := fst (Redact (ev_Text e))\<rparr>"
  let ?k = "evidence_key S ?e"
  show ?thesis
  proof (cases "?k \<in> ev_GroupID ` set gs")
    case True
    then have a: "add_group S e gs = map (\<lambda>g. if ev_GroupID g = ?k then bump (ev_Timestamp e) g else g) gs"
      by (auto simp: add_group_def Let_def list_ex_iff)
    have m: "map ev_GroupID (add_group S e gs) = map ev_GroupID gs" by (simp add: a)
    then have s: "ev_GroupID ` set (add_group S e gs) = ev_GroupID ` set gs" by (metis set_map)
    show ?thesis
      using assms True sum_bump_one [of gs ?k "ev_Timestamp e"] m s unfolding groups_ok_def m by (auto simp: a)
  next
    case False
    then have "\<not> list_ex (\<lambda>g. ev_GroupID g = ?k) gs" by (force simp: list_ex_iff)
    then have a: "add_group S e gs = gs @ [bump (ev_Timestamp e) (?e\<lparr>ev_GroupID := ?k, ev_SearchOccurrences := Some no_occurrences\<rparr>)]"
      by (simp add: add_group_def Let_def)
    have "evidence_key S (?e\<lparr>ev_GroupID := k, ev_SearchOccurrences := o'\<rparr>) = ?k" for k o' by (simp add: evidence_key_def)
    with assms False show ?thesis
      by (auto simp: a groups_ok_def group_counts_def) (simp add: occurrences_of_def no_occurrences_def)
  qed
qed

lemma group_events_ok:
  "groups_ok S gs \<Longrightarrow> groups_ok S (group_events S seen es gs)
    \<and> group_counts (group_events S seen es gs) = group_counts gs + card (ev_ID ` set es - set seen)"
proof (induction S seen es gs rule: group_events.induct)
  case (1 S seen gs)
  then show ?case by simp
next
  case (2 S seen e es gs)
  show ?case
  proof (cases "ev_ID e \<in> set seen")
    case True
    then have "ev_ID ` set (e # es) - set seen = ev_ID ` set es - set seen" by auto
    with 2 True show ?thesis by simp
  next
    case False
    have "ev_ID ` set (e # es) - set seen = insert (ev_ID e) (ev_ID ` set es - set (ev_ID e # seen))" using False by auto
    moreover have "ev_ID e \<notin> ev_ID ` set es - set (ev_ID e # seen)" by simp
    ultimately have "card (ev_ID ` set (e # es) - set seen) = Suc (card (ev_ID ` set es - set (ev_ID e # seen)))"
      by (simp del: set_simps)
    with 2(2) False add_group_ok [OF 2(3), of e] show ?thesis by simp
  qed
qed

text \<open>
  grouping the frozen window loses and duplicates nothing: every group stands under the key of its own
  redacted evidence, no two groups share a key, and the occurrence counts of the groups add up to the number
  of distinct events of the window.
\<close>

theorem search_groups_account:
  assumes "Search_New S now events query mode budget cache = Inr r"
  shows "distinct (map ev_GroupID (rn_groups r)) \<and> (\<forall>g \<in> set (rn_groups r). ev_GroupID g = evidence_key S g)
    \<and> sum_list (map (\<lambda>g. occ_Count (occurrences_of g)) (rn_groups r)) = card (set (map ev_ID events))
    \<and> length (rn_groups r) \<le> card (set (map ev_ID events)) \<and> 1 \<le> rn_budget r \<and> rn_budget r \<le> 64"
proof -
  have r: "rn_groups r = group_events S [] events []" "1 \<le> rn_budget r" "rn_budget r \<le> 64"
    using assms by (auto simp: Search_New_def Let_def split: if_splits)
  have "groups_ok S []" by (simp add: groups_ok_def)
  from group_events_ok [OF this, of "[]" events]
  have ok: "groups_ok S (rn_groups r)" "group_counts (rn_groups r) = card (ev_ID ` set events)"
    by (simp_all add: r group_counts_def)
  have "length xs \<le> sum_list (map f xs)" if "\<forall>x \<in> set xs. (1::nat) \<le> f x" for f and xs :: "event list"
    using that by (induction xs) auto
  with ok have "length (rn_groups r) \<le> card (ev_ID ` set events)" unfolding group_counts_def groups_ok_def by metis
  with ok r(2,3) show ?thesis by (simp add: groups_ok_def group_counts_def)
qed

section \<open>The literal pass\<close>

definition literal_hit :: "std \<Rightarrow> string \<Rightarrow> event \<Rightarrow> bool" where
  "literal_hit S query e = Contains (ToLower S (ev_Text e)) (ToLower S query)"

definition hit_result :: "event \<Rightarrow> search_result" where
  "hit_result e = \<lparr>sr_GroupID = ev_GroupID e, sr_EventID = ev_ID e, sr_Count = occ_Count (occurrences_of e), sr_Cached = False,
     sr_Relevance = zero_relevance\<lparr>rl_Relevance := ''match''\<rparr>\<rparr>"

lemma record_result_fields [simp]:
  "rn_Mode (record_result e v c r) = rn_Mode r" "rn_Query (record_result e v c r) = rn_Query r"
  "rn_groups (record_result e v c r) = rn_groups r" "rn_cache (record_result e v c r) = rn_cache r"
  "rn_budget (record_result e v c r) = rn_budget r" "rn_checked (record_result e v c r) = Suc (rn_checked r)"
  by (simp_all add: record_result_def)

lemma first_pass_literal:
  "rn_Mode r = ''literal'' \<Longrightarrow> (\<forall>k < length es. live (i + k)) \<Longrightarrow> \<exists>r'. first_pass S live tick i es r pending = (r', pending, True)
    \<and> rn_results r' = rn_results r @ map hit_result (filter (literal_hit S (rn_Query r)) es)
    \<and> rn_checked r' = rn_checked r + length es \<and> rn_failed r' = rn_failed r \<and> rn_groups r' = rn_groups r"
proof (induction es arbitrary: i r)
  case Nil
  then show ?case by simp
next
  case (Cons e es)
  let ?r = "record_result e (literal_verdict S r e) False r"
  have l: "live i" using Cons.prems(2) by (metis add.right_neutral length_greater_0_conv list.discI)
  have "\<forall>k < length es. live (Suc i + k)" using Cons.prems(2) by auto
  from Cons.IH [OF _ this, of ?r] Cons.prems(1) obtain r' where r':
    "first_pass S live tick (Suc i) es ?r pending = (r', pending, True)"
    "rn_results r' = rn_results ?r @ map hit_result (filter (literal_hit S (rn_Query r)) es)"
    "rn_checked r' = Suc (rn_checked r) + length es" "rn_failed r' = rn_failed ?r" "rn_groups r' = rn_groups r" by auto
  have res: "rn_results ?r = rn_results r @ map hit_result (filter (literal_hit S (rn_Query r)) [e])" "rn_failed ?r = rn_failed r"
    by (cases "literal_hit S (rn_Query r) e";
        simp add: record_result_def literal_verdict_def hit_result_def zero_relevance_def; simp add: literal_hit_def)+
  from l Cons.prems(1) r'(1) have "first_pass S live tick i (e # es) r pending = (r', pending, True)" by simp
  with r' res show ?case by (intro exI [of _ r']) simp
qed

text \<open>
  a literal search that is not cancelled is exact: it examines every group, its results are exactly the
  groups whose redacted text contains the query up to case, in the order of the window, and it ends complete
  and without failures.
\<close>

theorem search_literal_exact:
  assumes "Search_New S now events query ''literal'' budget cache = Inr r" and "\<forall>i < length (rn_groups r). live i"
    and "Execute S live tick done_at True client r = (client', r')"
  shows "rn_results r' = map hit_result (filter (literal_hit S (rn_Query r)) (rn_groups r))
    \<and> rn_checked r' = length (rn_groups r) \<and> rn_failed r' = 0 \<and> rn_status r' = ''complete''
    \<and> rn_message r' = ''Finished searching the frozen log window.''"
proof -
  have r: "rn_Mode r = ''literal''" "rn_results r = []" "rn_checked r = 0" "rn_failed r = 0"
    using assms(1) by (auto simp: Search_New_def Let_def split: if_splits)
  from first_pass_literal [OF r(1), of "rn_groups r" live 0 S tick "[]"] assms(2) r obtain r1 where
    "first_pass S live tick 0 (rn_groups r) r [] = (r1, [], True)"
    "rn_results r1 = map hit_result (filter (literal_hit S (rn_Query r)) (rn_groups r))"
    "rn_checked r1 = length (rn_groups r)" "rn_failed r1 = 0" "rn_groups r1 = rn_groups r" by auto
  note r1 = this
  have "finish_run done_at True client r1 = r'" using assms(3) r(1) r1(1) by (auto simp: Execute_def)
  with r1 show ?thesis by (auto simp: finish_run_def)
qed

section \<open>The semantic pass\<close>

text \<open>A client that keeps a log of the batches it was sent.\<close>

definition logged :: "'c search_client \<Rightarrow> (event list list \<times> 'c) search_client" where
  "logged C = \<lparr>sc_Search = (\<lambda>q b (lg, c). case sc_Search C q b c of (c', a) \<Rightarrow> ((lg @ [b], c'), a)),
     sc_Usage = (\<lambda>(lg, c). sc_Usage C c)\<rparr>"

lemma record_batch_fields:
  "rn_groups (record_batch S tick i evs r) = rn_groups r \<and> rn_Query (record_batch S tick i evs r) = rn_Query r
    \<and> rn_checked (record_batch S tick i evs r) = rn_checked r + length evs"
  by (induction S tick i evs r rule: record_batch.induct) (auto simp: Let_def)

lemma length_batch_verdicts [simp]: "length (batch_verdicts b a) = length b"
  by (auto simp: batch_verdicts_def split: sum.split)

lemma second_pass_log:
  "second_pass S live tick i (Some (logged C, (lg, c))) pending r = (client', r') \<Longrightarrow> length pending \<le> 8 * n \<Longrightarrow>
    \<exists>sent lg' c'. client' = Some (logged C, (lg @ lg', c')) \<and> length lg' \<le> n \<and> (\<forall>b \<in> set lg'. 1 \<le> length b \<and> length b \<le> 8)
      \<and> pending = concat lg' @ sent \<and> rn_checked r' = rn_checked r + length (concat lg') \<and> rn_groups r' = rn_groups r"
proof (induction "length pending" arbitrary: pending i lg c r n rule: less_induct)
  case less
  show ?case
  proof (cases pending)
    case Nil
    with less.prems show ?thesis by auto
  next
    case (Cons p ps)
    show ?thesis
    proof (cases "live i")
      case False
      with Cons less.prems show ?thesis by auto
    next
      case True
      let ?b = "take 8 pending" and ?rest = "drop 8 pending"
      obtain c1 a where s: "sc_Search C (rn_Query r) ?b c = (c1, a)" by fastforce
      then have sl: "sc_Search (logged C) (rn_Query r) ?b (lg, c) = ((lg @ [?b], c1), a)" by (simp add: logged_def)
      let ?r1 = "(record_batch S tick i (batch_verdicts ?b a) r)\<lparr>rn_usage := sc_Usage (logged C) (lg @ [?b], c1)\<rparr>"
      have r1: "rn_checked ?r1 = rn_checked r + length ?b" "rn_groups ?r1 = rn_groups r"
        using record_batch_fields [of S tick i "batch_verdicts ?b a" r] by simp_all
      obtain m where n: "n = Suc m" using less.prems(2) Cons by (cases n) auto
      have bl: "1 \<le> length ?b" "length ?b \<le> 8" using Cons by auto
      have pend: "pending = ?b @ ?rest" by simp
      show ?thesis
      proof (cases "u_Breaker (sc_Usage (logged C) (lg @ [?b], c1)) = []")
        case False
        then have res: "client' = Some (logged C, (lg @ [?b], c1))" "r' = ?r1"
          using less.prems(1) True Cons sl by (simp_all add: Let_def)
        have "pending = concat [?b] @ ?rest" by simp
        with res r1 bl n show ?thesis
          by (intro exI [of _ ?rest] exI [of _ "[?b]"] exI [of _ c1]) auto
      next
        case go: True
        have "second_pass S live tick (i + length ?b) (Some (logged C, (lg @ [?b], c1))) ?rest ?r1 = (client', r')"
          using less.prems(1) True Cons sl go by (simp add: Let_def)
        moreover have "length ?rest < length pending" using Cons by simp
        moreover have "length ?rest \<le> 8 * m" using less.prems(2) n by simp
        ultimately obtain sent lg' c' where ih: "client' = Some (logged C, ((lg @ [?b]) @ lg', c'))" "length lg' \<le> m"
          "\<forall>b \<in> set lg'. 1 \<le> length b \<and> length b \<le> 8" "?rest = concat lg' @ sent"
          "rn_checked r' = rn_checked ?r1 + length (concat lg')" "rn_groups r' = rn_groups ?r1"
          using less.hyps by blast
        have "pending = concat (?b # lg') @ sent" using pend ih(4) by simp
        with ih r1 bl n show ?thesis
          by (intro exI [of _ sent] exI [of _ "?b # lg'"] exI [of _ c']) auto
      qed
    qed
  qed
qed

lemma first_pass_pending:
  "first_pass S live tick i es r pending = (r', pending', ok) \<Longrightarrow> \<exists>kept skipped. pending' = pending @ kept \<and> mset es = mset kept + mset skipped
    \<and> rn_checked r' + length kept \<le> rn_checked r + length es \<and> rn_groups r' = rn_groups r \<and> rn_budget r' = rn_budget r \<and> rn_Query r' = rn_Query r"
proof (induction S live tick i es r pending arbitrary: r' pending' ok rule: first_pass.induct)
  case (1 S live tick i r pending)
  then show ?case by (intro exI [of _ "[]"]) auto
next
  case (2 S live tick i e es r pending)
  let ?skip = "\<lambda>kept. \<exists>skipped. mset (e # es) = mset kept + mset skipped"
  have skip: "mset es = mset k + mset s \<Longrightarrow> mset (e # es) = mset k + mset (e # s)" for k s by simp
  have keep: "mset es = mset k + mset s \<Longrightarrow> mset (e # es) = mset (e # k) + mset s" for k s by simp
  consider "\<not> live i" | "live i" "rn_Mode r = ''literal''"
    | c v where "live i" "rn_Mode r \<noteq> ''literal''" "cache_get (tick i) (run_key S r e) (rn_cache r) = (c, Some v)"
    | c where "live i" "rn_Mode r \<noteq> ''literal''" "cache_get (tick i) (run_key S r e) (rn_cache r) = (c, None)"
    by (metis (no_types) option.exhaust prod.exhaust)
  then show ?case
  proof cases
    case 1
    with 2(4) show ?thesis by (intro exI [of _ "[]"] exI [of _ "e # es"]) auto
  next
    case lit: 2
    with 2(4) have "first_pass S live tick (Suc i) es (record_result e (literal_verdict S r e) False r) pending = (r', pending', ok)" by simp
    from 2(1) [OF _ lit(2) this] lit(1) obtain k s where "pending' = pending @ k" "mset es = mset k + mset s"
      "rn_checked r' + length k \<le> Suc (rn_checked r) + length es" "rn_groups r' = rn_groups r" "rn_budget r' = rn_budget r" "rn_Query r' = rn_Query r" by auto
    with skip show ?thesis by (intro exI [of _ k] exI [of _ "e # s"]) auto
  next
    case (3 c v)
    with 2(4) have "first_pass S live tick (Suc i) es (record_result e v True (r\<lparr>rn_cache := c\<rparr>)) pending = (r', pending', ok)" by simp
    from 2(3) [OF _ 3(2) 3(3) [symmetric] refl this] 3(1) obtain k s where "pending' = pending @ k" "mset es = mset k + mset s"
      "rn_checked r' + length k \<le> Suc (rn_checked r) + length es" "rn_groups r' = rn_groups r" "rn_budget r' = rn_budget r" "rn_Query r' = rn_Query r" by auto
    with skip show ?thesis by (intro exI [of _ k] exI [of _ "e # s"]) auto
  next
    case (4 c)
    with 2(4) have "first_pass S live tick (Suc i) es (r\<lparr>rn_cache := c\<rparr>) (pending @ [e]) = (r', pending', ok)" by simp
    from 2(2) [OF _ 4(2) 4(3) [symmetric] refl this] 4(1) obtain k s where "pending' = (pending @ [e]) @ k" "mset es = mset k + mset s"
      "rn_checked r' + length k \<le> rn_checked r + length es" "rn_groups r' = rn_groups r" "rn_budget r' = rn_budget r" "rn_Query r' = rn_Query r" by auto
    with keep show ?thesis by (intro exI [of _ "e # k"] exI [of _ s]) auto
  qed
qed

text \<open>
  a semantic search never exceeds its budget: whatever the client answers, it is called at most \<open>budget\<close>
  times, each call carries between one and eight groups of the window (what \<open>Client.Search\<close> demands), no
  group is sent twice, and never more groups count as examined than there are.
\<close>

theorem search_within_budget:
  assumes "Search_New S now events query mode budget cache = Inr r"
    and "Execute S live tick done_at alive (Some (logged C, ([], c))) r = (client', r')"
  shows "\<exists>lg c'. client' = Some (logged C, (lg, c')) \<and> int (length lg) \<le> budget
    \<and> (\<forall>b \<in> set lg. 1 \<le> length b \<and> length b \<le> 8) \<and> set (concat lg) \<subseteq> set (rn_groups r)
    \<and> distinct (map ev_GroupID (concat lg)) \<and> rn_checked r' \<le> length (rn_groups r')"
proof -
  have r: "rn_checked r = 0" "rn_groups r = group_events S [] events []" "int (rn_budget r) = budget"
    using assms(1) by (auto simp: Search_New_def Let_def split: if_splits)
  have dist: "distinct (map ev_GroupID (rn_groups r))" using search_groups_account [OF assms(1)] by blast
  obtain r1 pending ok where f: "first_pass S live tick 0 (rn_groups r) r [] = (r1, pending, ok)" by (metis prod_cases3)
  from first_pass_pending [OF f] r(1) obtain skipped where p: "mset (rn_groups r) = mset pending + mset skipped"
    "rn_checked r1 + length pending \<le> length (rn_groups r)" "rn_groups r1 = rn_groups r" "rn_budget r1 = rn_budget r" by auto
  show ?thesis
  proof (cases "\<not> ok \<or> rn_Mode r = ''literal''")
    case True
    with assms(2) f have "client' = Some (logged C, ([], c))" "r' = finish_run done_at alive (Some (logged C, ([], c))) r1"
      by (auto simp: Execute_def)
    with p r(3) show ?thesis by (intro exI [of _ "[]"] exI [of _ c]) (auto simp: finish_run_def)
  next
    case False
    let ?ranked = "rank_order S (rn_Query r) pending"
    let ?sent = "take (rn_budget r * 8) ?ranked"
    let ?r2 = "r1\<lparr>rn_candidates := rn_checked r1 + length ?sent\<rparr>"
    obtain cl r3 where s: "second_pass S live tick (length (rn_groups r)) (Some (logged C, ([], c))) ?sent ?r2 = (cl, r3)" by fastforce
    have res: "client' = cl" "r' = finish_run done_at alive cl r3" using assms(2) False f s by (auto simp: Execute_def)
    have m: "mset ?ranked = mset pending" by (simp add: rank_order_def)
    have "length ?sent \<le> 8 * rn_budget r" by simp
    from second_pass_log [OF s this] obtain rest lg c' where L: "cl = Some (logged C, (lg, c'))" "length lg \<le> rn_budget r"
      "\<forall>b \<in> set lg. 1 \<le> length b \<and> length b \<le> 8" "?sent = concat lg @ rest" "rn_checked r3 = rn_checked r1 + length (concat lg)"
      "rn_groups r3 = rn_groups r1" by auto
    have ranked: "?ranked = concat lg @ (rest @ drop (rn_budget r * 8) ?ranked)" using L(4) by (metis append.assoc append_take_drop_id)
    then have le: "length (concat lg) \<le> length pending" using mset_eq_length [OF m] by (metis length_append le_add1)
    have sub: "set (concat lg) \<subseteq> set (rn_groups r)"
    proof -
      have "set (concat lg) \<subseteq> set ?ranked" using ranked by (metis Un_upper1 set_append)
      also have "set ?ranked = set pending" using mset_eq_setD [OF m] .
      also have "set pending \<subseteq> set (rn_groups r)" by (metis p(1) set_mset_mset set_mset_union Un_upper1)
      finally show ?thesis .
    qed
    have "mset (map ev_GroupID (rn_groups r)) = mset (map ev_GroupID pending) + mset (map ev_GroupID skipped)" using p(1) by simp
    then have "distinct (map ev_GroupID pending @ map ev_GroupID skipped)" using dist by (metis mset_append mset_eq_imp_distinct_iff)
    then have "distinct (map ev_GroupID pending)" by simp
    then have "distinct (map ev_GroupID ?ranked)" using m by (metis mset_map mset_eq_imp_distinct_iff)
    then have "distinct (map ev_GroupID (concat lg))" using ranked by (metis distinct_append map_append)
    with L(1-3) sub le p(2,3) L(5,6) r(3) res show ?thesis
      by (intro exI [of _ lg] exI [of _ c']) (auto simp: finish_run_def)
  qed
qed

section \<open>The cache is a bounded store\<close>

definition cache_inv :: "cache \<Rightarrow> bool" where
  "cache_inv c = (wf_map c \<and> (\<forall>(k, t, v) \<in> set c. rl_Relevance v \<noteq> ''unknown''))"

lemma oldest_key_in: "c \<noteq> [] \<Longrightarrow> oldest_key c \<in> fst ` set c"
proof -
  let ?F = "foldl (\<lambda>(old, low) (k, t, v). if old = [] \<or> Before t low then (k, t) else (old, low))"
  have in_: "fst (?F (o', l) c) \<in> insert o' (fst ` set c)" for o' l c
  proof (induction c arbitrary: o' l)
    case Nil
    then show ?case by simp
  next
    case (Cons x xs)
    show ?case using Cons [of "fst x" "fst (snd x)"] Cons [of o' l] by (cases x) auto
  qed
  assume "c \<noteq> []"
  then obtain k t v c' where "c = (k, t, v) # c'" by (cases c) auto
  with in_ [of k t c'] show ?thesis by (simp add: oldest_key_def)
qed

interpretation results: bounded_store cache_inv mhas length "\<lambda>k c. (cache_room (Suc n) c, True)" mput
    "\<lambda>(t, v). rl_Relevance v \<noteq> ''unknown''" "Suc n"
  for n
proof unfold_locales
  fix t :: cache and k :: string
  show "cache_inv t \<Longrightarrow> cache_inv (fst (cache_room (Suc n) t, True))" by (auto simp: cache_inv_def cache_room_def set_mdel)
  show "length (fst (cache_room (Suc n) t, True)) \<le> length t" by (simp add: cache_room_def length_mdel_le)
  show "mhas (fst (cache_room (Suc n) t, True)) k \<or> length (fst (cache_room (Suc n) t, True)) < Suc n"
    if "cache_inv t" "length t \<le> Suc n"
  proof (cases "Suc n \<le> length t")
    case True
    then have "oldest_key t \<in> fst ` set t" by (intro oldest_key_in) auto
    then have "Suc (length (mdel (oldest_key t) t)) = length t" using that(1) by (intro length_mdel) (auto simp: cache_inv_def)
    with True that(2) show ?thesis by (simp add: cache_room_def)
  qed (simp add: cache_room_def)
qed (auto simp: cache_inv_def length_mput dest!: set_mputD)

definition cache_ok :: "cache \<Rightarrow> bool" where
  "cache_ok c = (cache_inv c \<and> length c \<le> 2048)"

lemma cache_ok_bounded: "cache_ok c = results.bounded 2047 c"
  unfolding cache_ok_def results.bounded_def by simp

lemma cache_put_ok: "cache_ok c \<Longrightarrow> rl_Relevance v \<noteq> ''unknown'' \<Longrightarrow> cache_ok (cache_put now k v c)"
  using results.bounded_put_room [where n = 2047 and t = c and k = k and v = "(now, v)"]
  unfolding cache_ok_bounded cache_put_def by simp

lemma cache_get_ok:
  "cache_get now k c = (c', v) \<Longrightarrow> cache_ok c \<Longrightarrow> cache_ok c'
    \<and> (\<forall>x. v = Some x \<longrightarrow> rl_Relevance x \<noteq> ''unknown'' \<and> (\<exists>t. mget c k = Some (t, x) \<and> Sub now t < cache_ttl))"
  using length_mdel_le [of k c]
  by (fastforce simp: cache_get_def cache_ok_def cache_inv_def set_mdel dest: map_of_SomeD split: option.splits if_splits)

lemma first_pass_cache:
  "first_pass S live tick i es r pending = (r', pending', ok) \<Longrightarrow> cache_ok (rn_cache r) \<Longrightarrow> cache_ok (rn_cache r')"
proof (induction S live tick i es r pending arbitrary: r' pending' ok rule: first_pass.induct)
  case (1 S live tick i r pending)
  then show ?case by simp
next
  case (2 S live tick i e es r pending)
  obtain c v where c: "cache_get (tick i) (run_key S r e) (rn_cache r) = (c, v)" by fastforce
  have c': "cache_ok c" using cache_get_ok [OF c 2(5)] by blast
  show ?case
  proof (cases "live i \<and> rn_Mode r \<noteq> ''literal''")
    case False
    with 2(1) 2(4,5) show ?thesis by (auto split: if_splits)
  next
    case True
    with 2(2,3) [OF _ _ c [symmetric]] 2(4) c c' show ?thesis by (cases v) auto
  qed
qed

lemma record_batch_cache: "cache_ok (rn_cache r) \<Longrightarrow> cache_ok (rn_cache (record_batch S tick i evs r))"
  by (induction S tick i evs r rule: record_batch.induct) (auto simp: Let_def cache_put_ok)

lemma second_pass_cache:
  "second_pass S live tick i client pending r = (client', r') \<Longrightarrow> cache_ok (rn_cache r) \<Longrightarrow> cache_ok (rn_cache r')"
proof (induction S live tick i client pending r arbitrary: client' r' rule: second_pass.induct)
  case (1 S live tick i client r)
  then show ?case by simp
next
  case (2 S live tick i client p pending r)
  let ?b = "take 8 (p # pending)"
  show ?case
  proof (cases "live i")
    case False
    with 2(3,4) show ?thesis by auto
  next
    case True
    show ?thesis
    proof (cases client)
      case None
      with 2(1) [OF _ refl refl None] True 2(3,4) record_batch_cache [OF 2(4)] show ?thesis by (auto simp: Let_def)
    next
      case (Some Cc)
      obtain C c where Cc: "Cc = (C, c)" by fastforce
      obtain c1 a where s: "sc_Search C (rn_Query r) ?b c = (c1, a)" by fastforce
      let ?r1 = "(record_batch S tick i (batch_verdicts ?b a) r)\<lparr>rn_usage := sc_Usage C c1\<rparr>"
      have ok: "cache_ok (rn_cache ?r1)" using record_batch_cache [OF 2(4)] by simp
      show ?thesis
      proof (cases "u_Breaker (sc_Usage C c1) = []")
        case False
        with 2(3) True Some Cc s ok show ?thesis by (auto simp: Let_def)
      next
        case go: True
        have "second_pass S live tick (i + length ?b) (Some (C, c1)) (drop 8 (p # pending)) ?r1 = (client', r')"
          using 2(3) True Some Cc s go by (simp add: Let_def)
        with 2(2) [OF _ refl refl _ refl s [symmetric] refl] True Some Cc go ok show ?thesis by auto
      qed
    qed
  qed
qed

text \<open>
  the search cache stays sound: from a sound cache every search leaves one, of at most 2048 entries and
  without any failure verdict, and a lookup serves only an entry stored under that key less than five
  minutes ago.
\<close>

theorem search_cache_sound:
  assumes "cache_ok (rn_cache r)" and "Execute S live tick done_at alive client r = (client', r')"
  shows "length (rn_cache r') \<le> 2048 \<and> (\<forall>(k, t, v) \<in> set (rn_cache r'). rl_Relevance v \<noteq> ''unknown'')
    \<and> (\<forall>now k c v. cache_get now k (rn_cache r') = (c, Some v) \<longrightarrow>
        rl_Relevance v \<noteq> ''unknown'' \<and> (\<exists>t. mget (rn_cache r') k = Some (t, v) \<and> Sub now t < 5 * 60 * second))"
proof -
  obtain r1 pending ok where f: "first_pass S live tick 0 (rn_groups r) r [] = (r1, pending, ok)" by (metis prod_cases3)
  have c1: "cache_ok (rn_cache r1)" using first_pass_cache [OF f assms(1)] .
  have "cache_ok (rn_cache r')"
  proof (cases "\<not> ok \<or> rn_Mode r = ''literal''")
    case True
    with assms(2) f c1 show ?thesis by (auto simp: Execute_def finish_run_def)
  next
    case False
    let ?sent = "take (rn_budget r * 8) (rank_order S (rn_Query r) pending)"
    let ?r2 = "r1\<lparr>rn_candidates := rn_checked r1 + length ?sent\<rparr>"
    obtain cl r3 where s: "second_pass S live tick (length (rn_groups r)) client ?sent ?r2 = (cl, r3)" by fastforce
    have "cache_ok (rn_cache r3)" using second_pass_cache [OF s] c1 by simp
    moreover have "r' = finish_run done_at alive cl r3" using assms(2) False f s by (auto simp: Execute_def)
    ultimately show ?thesis by (simp add: finish_run_def)
  qed
  note ok = this
  have "rl_Relevance v \<noteq> ''unknown'' \<and> (\<exists>t. mget (rn_cache r') k = Some (t, v) \<and> Sub now t < 5 * 60 * second)"
    if "cache_get now k (rn_cache r') = (c, Some v)" for now k c v
    using cache_get_ok [OF that ok] unfolding cache_ttl_def by blast
  with ok show ?thesis unfolding cache_ok_def cache_inv_def by blast
qed

section \<open>The snapshot is a ranking\<close>

definition result_rank :: "search_result \<Rightarrow> nat" where
  "result_rank x = relevance_rank (rl_Relevance (sr_Relevance x))"

definition conf_key :: "f64 option \<Rightarrow> rat" where
  "conf_key c = (case c of Some (Fin q) \<Rightarrow> - q | _ \<Rightarrow> 0)"

definition result_key :: "search_result \<Rightarrow> nat \<times> rat \<times> int \<times> string" where
  "result_key x = (result_rank x, conf_key (rl_Confidence (sr_Relevance x)), - int (sr_Count x), sr_GroupID x)"

text \<open>The results of a semantic search carry a confidence unless the evidence could not be evaluated; those
  of a literal search carry none.\<close>

definition graded :: "search_result \<Rightarrow> bool" where
  "graded x = (if result_rank x = 2 then rl_Confidence (sr_Relevance x) = None
     else (case rl_Confidence (sr_Relevance x) of Some (Fin q) \<Rightarrow> True | _ \<Rightarrow> False))"

definition ungraded :: "search_result \<Rightarrow> bool" where
  "ungraded x = (rl_Confidence (sr_Relevance x) = None)"

lemma f64_eq_Fin [simp]: "f64_eq (Fin a) (Fin b) \<longleftrightarrow> a = b" "f64_lt (Fin a) (Fin b) \<longleftrightarrow> a < b"
  by (auto simp: f64_eq_def f64_lt_def)

interpretation graded: key_order graded result_before result_key
  by unfold_locales
    (auto simp: graded_def result_before_def result_key_def conf_key_def result_rank_def [symmetric] Let_def
      split: option.splits f64.splits if_splits)

interpretation ungraded: key_order ungraded result_before result_key
  by unfold_locales
    (auto simp: ungraded_def result_before_def result_key_def conf_key_def result_rank_def [symmetric] Let_def
      split: option.splits f64.splits if_splits)

definition page :: "run \<Rightarrow> gotime \<Rightarrow> nat \<Rightarrow> search_result list" where
  "page r now i = sn_results (Snapshot now (int (20 * i)) r)"

lemma clamp_offset: "nat (max 0 (min (int k) (int (length xs)))) = min k (length xs)"
  by simp

lemma page_eq: "page r now i = take 20 (drop (20 * i) (sort_stable result_before (rn_results r)))"
  unfolding page_def Snapshot_def Let_def clamp_offset snapshot.select_convs by (simp add: min_def)

lemma concat_pages: "concat (map (page r now) [0..<n]) = take (20 * n) (sort_stable result_before (rn_results r))"
proof (induction n)
  case 0
  then show ?case by simp
next
  case (Suc n)
  have "take (20 * Suc n) xs = take (20 * n) xs @ take 20 (drop (20 * n) xs)" for xs :: "search_result list"
    using take_add [of "20 * n" 20 xs] by (simp add: add.commute)
  with Suc show ?case by (simp add: page_eq)
qed

text \<open>
  the snapshot ranks: reading the pages one after another gives every result exactly once, best first.
  No result stands behind one it precedes: matches before possible matches before failures, then by falling
  confidence, then by falling count, then by group.
\<close>

theorem snapshot_pages_rank:
  assumes "(\<forall>x \<in> set (rn_results r). graded x) \<or> (\<forall>x \<in> set (rn_results r). ungraded x)" and "length (rn_results r) \<le> 20 * n"
  shows "mset (concat (map (\<lambda>i. sn_results (Snapshot now (int (20 * i)) r)) [0..<n])) = mset (rn_results r)
    \<and> sorted_wrt (\<lambda>a b. \<not> result_before b a) (concat (map (\<lambda>i. sn_results (Snapshot now (int (20 * i)) r)) [0..<n]))"
proof -
  have "concat (map (\<lambda>i. sn_results (Snapshot now (int (20 * i)) r)) [0..<n]) = sort_stable result_before (rn_results r)"
    using concat_pages [of r now n] assms(2) by (simp add: page_def [abs_def])
  moreover have "ordered_by result_before (sort_stable result_before (rn_results r))"
    using assms(1) graded.sort_ordered ungraded.sort_ordered by blast
  ultimately show ?thesis by simp
qed

section \<open>Witnesses\<close>

lemma sample_query: "length (runes (TrimSpace ''disk'')) = 4" "runes (TrimSpace ''disk'') \<noteq> []" "\<not> has_control (TrimSpace ''disk'')"
  by code_simp+

lemma sample_run:
  "mode = ''literal'' \<or> mode = ''jev'' \<Longrightarrow> length es \<le> 100000 \<Longrightarrow>
    \<exists>r. Search_New sample_std (unix_time 1) es ''disk'' mode 2 None = Inr r"
  by (auto simp: Search_New_def Let_def sample_query)

theorem search_groups_account_witness:
  "\<exists>r. Search_New sample_std (unix_time 1) [sample_event, sample_event] ''disk'' ''literal'' 2 None = Inr r
    \<and> sum_list (map (\<lambda>g. occ_Count (occurrences_of g)) (rn_groups r)) = 1"
proof -
  obtain r where r: "Search_New sample_std (unix_time 1) [sample_event, sample_event] ''disk'' ''literal'' 2 None = Inr r"
    using sample_run [of "''literal''" "[sample_event, sample_event]"] by auto
  from search_groups_account [OF r] r show ?thesis by simp
qed

theorem search_literal_exact_witness:
  "\<exists>r c r'. Search_New sample_std (unix_time 1) [sample_event] ''disk'' ''literal'' 2 None = Inr r
    \<and> Execute sample_std (\<lambda>_. True) (\<lambda>n. unix_time 2) (unix_time 3) True (None :: (unit search_client \<times> unit) option) r = (c, r')
    \<and> rn_status r' = ''complete'' \<and> rn_checked r' = length (rn_groups r)"
proof -
  obtain r where r: "Search_New sample_std (unix_time 1) [sample_event] ''disk'' ''literal'' 2 None = Inr r" using sample_run [where es = "[sample_event]"] by auto
  obtain c r' where e: "Execute sample_std (\<lambda>_. True) (\<lambda>n. unix_time 2) (unix_time 3) True (None :: (unit search_client \<times> unit) option) r = (c, r')"
    by fastforce
  from search_literal_exact [OF r _ e] r e show ?thesis by blast
qed

definition failing_client :: "unit search_client" where
  "failing_client = \<lparr>sc_Search = (\<lambda>q b c. (c, Inl ErrSchema)), sc_Usage = (\<lambda>c. usage0)\<rparr>"

theorem search_within_budget_witness:
  "\<exists>r lg r'. Search_New sample_std (unix_time 1) [sample_event] ''disk'' ''jev'' 2 None = Inr r
    \<and> Execute sample_std (\<lambda>_. True) (\<lambda>n. unix_time 2) (unix_time 3) True (Some (logged failing_client, ([], ()))) r
        = (Some (logged failing_client, (lg, ())), r') \<and> length lg \<le> 2"
proof -
  obtain r where r: "Search_New sample_std (unix_time 1) [sample_event] ''disk'' ''jev'' 2 None = Inr r" using sample_run [where es = "[sample_event]"] by auto
  obtain c r' where e: "Execute sample_std (\<lambda>_. True) (\<lambda>n. unix_time 2) (unix_time 3) True (Some (logged failing_client, ([], ()))) r = (c, r')"
    by fastforce
  from search_within_budget [OF r e] obtain lg where "c = Some (logged failing_client, (lg, ()))" "int (length lg) \<le> 2" by auto
  with r e show ?thesis by (intro exI [of _ r] exI [of _ lg] exI [of _ r']) simp
qed

theorem search_cache_sound_witness:
  "\<exists>r c r'. Search_New sample_std (unix_time 1) [sample_event] ''disk'' ''jev'' 2 None = Inr r
    \<and> Execute sample_std (\<lambda>_. True) (\<lambda>n. unix_time 2) (unix_time 3) True (Some (failing_client, ())) r = (c, r')
    \<and> length (rn_cache r') \<le> 2048"
proof -
  obtain r where r: "Search_New sample_std (unix_time 1) [sample_event] ''disk'' ''jev'' 2 None = Inr r" using sample_run [where es = "[sample_event]"] by auto
  obtain c r' where e: "Execute sample_std (\<lambda>_. True) (\<lambda>n. unix_time 2) (unix_time 3) True (Some (failing_client, ())) r = (c, r')"
    by fastforce
  have "cache_ok (rn_cache r)" using r by (auto simp: Search_New_def Let_def cache_ok_def cache_inv_def split: if_splits)
  from search_cache_sound [OF this e] r e show ?thesis by blast
qed

definition sample_results :: "search_result list" where
  "sample_results =
    [\<lparr>sr_GroupID = ''a'', sr_EventID = ''e1'', sr_Count = 1, sr_Cached = False,
        sr_Relevance = \<lparr>rl_Relevance = ''possible'', rl_Confidence = Some (Fin (4 / 5)), rl_Error = []\<rparr>\<rparr>,
     \<lparr>sr_GroupID = ''b'', sr_EventID = ''e2'', sr_Count = 3, sr_Cached = False,
        sr_Relevance = \<lparr>rl_Relevance = ''match'', rl_Confidence = Some (Fin (9 / 10)), rl_Error = []\<rparr>\<rparr>]"

theorem snapshot_pages_rank_witness:
  "\<exists>r. rn_results r = sample_results \<and> mset (sn_results (Snapshot (unix_time 5) 0 r)) = mset sample_results"
proof -
  obtain r0 where "Search_New sample_std (unix_time 1) [sample_event] ''disk'' ''jev'' 2 None = Inr r0" using sample_run [where es = "[sample_event]"] by auto
  let ?r = "r0\<lparr>rn_results := sample_results\<rparr>"
  have "\<forall>x \<in> set (rn_results ?r). graded x" by (simp add: sample_results_def graded_def result_rank_def relevance_rank_def)
  moreover have "length (rn_results ?r) \<le> 20 * 1" by (simp add: sample_results_def)
  ultimately have "mset (concat (map (\<lambda>i. sn_results (Snapshot (unix_time 5) (int (20 * i)) ?r)) [0..<1])) = mset (rn_results ?r)"
    using snapshot_pages_rank [of ?r 1 "unix_time 5"] by blast
  then show ?thesis by (intro exI [of _ ?r]) simp
qed

end
