(* ===== verification/Parser.thy ===== *)
theory Parser
  imports Samples
begin

text \<open>
  The line parser of \<open>internal/event/event.go\<close>: \<open>Feed\<close>, \<open>finishLine\<close>, \<open>Preview\<close>, \<open>Flush\<close>,
  \<open>Finish\<close> and the reading loop \<open>Read\<close>.  \<open>AcceptLine\<close> is a closure of the producer, so it is an
  argument with a state of its own; the running digest is the text written since its last reset.
\<close>

type_synonym 's accept = "(gotime option \<Rightarrow> string \<Rightarrow> bool \<Rightarrow> 's \<Rightarrow> 's \<times> bool) option"

record parser =
  ps_source :: source
  ps_sourceSensitive :: bool
  ps_pending :: "event option"
  ps_line :: nat
  ps_inKey :: bool
  ps_buffer :: string
  ps_truncated :: bool
  ps_private :: bool
  ps_marker :: string
  ps_transport :: bool
  ps_stack :: bool
  ps_pythonSource :: bool
  ps_goStack :: bool
  ps_digest :: string

definition NewParser :: "std \<Rightarrow> source \<Rightarrow> parser" where
  "NewParser S s =
     (let safe = SafeSource S s in
      \<lparr>ps_source = safe, ps_sourceSensitive = (Hash S (JObj s) \<noteq> Hash S (JObj safe)), ps_pending = None, ps_line = 0,
       ps_inKey = False, ps_buffer = [], ps_truncated = False, ps_private = False, ps_marker = [],
       ps_transport = (mget s ''type'' = Some (JStr ''kubernetes'')), ps_stack = False, ps_pythonSource = False,
       ps_goStack = False, ps_digest = []\<rparr>)"

section \<open>Identities and flushing\<close>

definition stamp_json :: "string option \<Rightarrow> json" where
  "stamp_json t = (case t of None \<Rightarrow> JNull | Some s \<Rightarrow> JStr s)"

definition event_id :: "std \<Rightarrow> event \<Rightarrow> string" where
  "event_id S e = take 20 (Hash S (JArr [JObj (ev_Source e), stamp_json (ev_Timestamp e), JInt (int (ev_LineStart e)), JStr (ev_Text e)]))"

definition group_id :: "std \<Rightarrow> event \<Rightarrow> string" where
  "group_id S e = take 20 (Hash S (JArr [JObj (ev_Source e), JStr (ev_Text e)]))"

definition finalize :: "std \<Rightarrow> event \<Rightarrow> event" where
  "finalize S e = e\<lparr>ev_Baseline := Rules (ev_Text e), ev_ID := event_id S e, ev_GroupID := group_id S e\<rparr>"

definition Flush :: "std \<Rightarrow> parser \<Rightarrow> parser \<times> event option" where
  "Flush S p = (p\<lparr>ps_pending := None, ps_stack := False, ps_pythonSource := False, ps_goStack := False\<rparr>,
     map_option (finalize S) (ps_pending p))"

definition Preview :: "std \<Rightarrow> parser \<Rightarrow> event option" where
  "Preview S p = (case ps_pending p of
     None \<Rightarrow> None
   | Some e0 \<Rightarrow>
       let e = e0\<lparr>ev_Source := SafeSource S (ev_Source e0)\<rparr> in
       Some (e\<lparr>ev_ID := event_id S e, ev_Judgment := verdict ''pending'' ''unknown'' ''unknown''\<rparr>))"

section \<open>One physical line\<close>

text \<open>The transport stamp of a Kubernetes log line: the raw stamp, its time and the rest of the line.\<close>

definition transport_stamp :: "std \<Rightarrow> string \<Rightarrow> (string \<times> gotime \<times> string) option" where
  "transport_stamp S text =
     (case IndexByte text (CHR '' '') of
       None \<Rightarrow> None
     | Some i \<Rightarrow> if 0 < i then (case parse_time S (take i text) of
           None \<Rightarrow> None | Some t \<Rightarrow> Some (take i text, t, drop (Suc i) text)) else None)"

text \<open>What \<open>AcceptLine\<close> decides, with the stamp it was shown: \<open>None\<close> drops the line.\<close>

definition accept_stamp :: "std \<Rightarrow> 's accept \<Rightarrow> bool \<Rightarrow> parser \<Rightarrow> string \<Rightarrow> 's \<Rightarrow> 's \<times> (string option \<times> bool \<times> string) option" where
  "accept_stamp S accept part p text s =
     (if \<not> ps_transport p then (s, Some (None, False, text))
      else case transport_stamp S text of
        Some (raw, t, rest) \<Rightarrow>
          (case accept of
            None \<Rightarrow> (s, Some (Some raw, True, rest))
          | Some f \<Rightarrow> (case f (Some t) (sha256hex S (ps_digest p)) part s of
              (s', ok) \<Rightarrow> (s', if ok then Some (Some raw, True, rest) else None)))
      | None \<Rightarrow>
          (case accept of
            None \<Rightarrow> (s, Some (None, False, text))
          | Some f \<Rightarrow> (fst (f None (sha256hex S (ps_digest p)) part s), Some (None, False, text))))"

definition inner_stamp :: "string option \<times> bool \<times> string \<Rightarrow> string option \<times> bool \<times> string" where
  "inner_stamp x = (case x of (ts, transportStamp, text) \<Rightarrow>
     let prefix = FindString stamp text in
     if prefix \<noteq> [] \<and> \<not> transportStamp then (Some (TrimSpace prefix), transportStamp, drop (length prefix) text) else x)"

definition go_start :: "string \<Rightarrow> bool" where
  "go_start text = (HasPrefix text ''panic: '' \<or> HasPrefix text ''fatal error: '')"

definition is_continuation :: "parser \<Rightarrow> string option \<Rightarrow> string \<Rightarrow> bool" where
  "is_continuation p ts text =
     (let explicit = MatchString stackContinuation text;
          goDetail = (ps_goStack p \<and> (MatchString goHeader text \<or> MatchString goFrame text));
          detail = (ps_stack p \<and> (MatchString stackCaret text \<or> MatchString dotnetDetail text)
             \<or> ps_pythonSource p \<and> (HasPrefix text ''    '' \<or> HasPrefix text [CHR 0x09]) \<and> \<not> MatchString normalLog text)
      in if ts \<noteq> None then explicit \<or> detail \<or> goDetail else MatchString continuation text \<or> goDetail)"

definition private_key_text :: string where
  "private_key_text = ''[REDACTED PRIVATE KEY]''"

text \<open>Appending a continuation line to the pending event.\<close>

definition extend_event :: "nat \<Rightarrow> bool \<Rightarrow> bool \<Rightarrow> bool \<Rightarrow> string \<Rightarrow> event \<Rightarrow> event" where
  "extend_event line changed uncertain trunc safe e =
     e\<lparr>ev_LineEnd := line, ev_LineCount := ev_LineCount e + 1, ev_Sensitive := ev_Sensitive e \<or> changed,
       ev_ParseUncertain := ev_ParseUncertain e \<or> uncertain,
       ev_Truncated := ev_Truncated e \<or> trunc \<or> MaxEvent < length (ev_Text e) + 1 + length safe,
       ev_Text := Clip (ev_Text e @ [CHR 0x0A] @ safe) MaxEvent\<rparr>"

definition fresh_event :: "source \<Rightarrow> nat \<Rightarrow> string option \<Rightarrow> bool \<Rightarrow> bool \<Rightarrow> bool \<Rightarrow> string \<Rightarrow> event" where
  "fresh_event src line ts changed uncertain trunc safe =
     empty_event\<lparr>ev_Source := src, ev_Timestamp := ts, ev_Text := Clip safe MaxEvent, ev_LineStart := line,
       ev_LineEnd := line, ev_LineCount := 1, ev_Truncated := trunc \<or> MaxEvent < length safe, ev_Sensitive := changed,
       ev_ParseUncertain := uncertain, ev_Judgment := Unknown []\<rparr>"

text \<open>The line is complete: the text after its stamps joins the pending event or starts a new one.\<close>

definition place_line :: "std \<Rightarrow> bool \<Rightarrow> bool \<Rightarrow> bool \<Rightarrow> bool \<Rightarrow> string option \<times> bool \<times> string \<Rightarrow> parser \<Rightarrow> parser \<times> event option" where
  "place_line S part invalid trunc private x p = (case x of (ts, transportStamp, text) \<Rightarrow>
     if text = [] \<and> \<not> private \<and> \<not> trunc then (p, None)
     else case redact text of (safe0, changed0, ambiguous) \<Rightarrow>
       let safe = (if private then private_key_text else safe0);
           changed = (private \<or> changed0);
           explicit = MatchString stackContinuation text;
           uncertain = (part \<or> invalid \<or> ambiguous \<or> ps_transport p \<and> \<not> transportStamp);
           joined = is_continuation p ts text in
       case (joined, ps_pending p) of
         (True, Some e) \<Rightarrow> (p\<lparr>ps_stack := ps_stack p \<or> explicit, ps_pythonSource := MatchString pythonFrame text,
             ps_pending := Some (extend_event (ps_line p) changed uncertain trunc safe e)\<rparr>, None)
       | _ \<Rightarrow> (case Flush S p of (p1, prev) \<Rightarrow>
           (p1\<lparr>ps_stack := explicit, ps_pythonSource := MatchString pythonFrame text,
               ps_goStack := go_start text \<or> MatchString goHeader text,
               ps_pending := Some (fresh_event (ps_source p) (ps_line p) ts (changed \<or> ps_sourceSensitive p)
                 (uncertain \<or> joined) trunc safe)\<rparr>, prev)))"

definition line_text :: "string \<Rightarrow> string" where
  "line_text b = ReplaceAll ansi (\<lambda>_. []) (ToValidUTF8 (TrimRightSet b {CHR 0x0D, CHR 0x0A}) replacement)"

definition begin_line :: "parser \<Rightarrow> parser" where
  "begin_line p = p\<lparr>ps_line := ps_line p + 1, ps_buffer := [], ps_truncated := False, ps_private := ps_inKey p, ps_marker := []\<rparr>"

definition finishLine :: "std \<Rightarrow> 's accept \<Rightarrow> bool \<Rightarrow> parser \<Rightarrow> 's \<Rightarrow> parser \<times> 's \<times> event option" where
  "finishLine S accept part p s =
     (let p1 = begin_line p in
      case accept_stamp S accept part p1 (line_text (ps_buffer p)) s of
        (s', None) \<Rightarrow> (p1\<lparr>ps_digest := []\<rparr>, s', None)
      | (s', Some x) \<Rightarrow>
         (case place_line S part (\<not> utf8_Valid (ps_buffer p)) (ps_truncated p \<or> part) (ps_private p) (inner_stamp x)
             (p1\<lparr>ps_digest := []\<rparr>) of (p2, e) \<Rightarrow> (p2, s', e)))"

section \<open>Feeding bytes\<close>

definition last_bytes :: "nat \<Rightarrow> string \<Rightarrow> string" where
  "last_bytes n s = (if n < length s then drop (length s - n) s else s)"

text \<open>The state after the PEM markers of a chunk: the last one decides whether a key is open.\<close>

definition scan_keys :: "string \<Rightarrow> parser \<Rightarrow> parser" where
  "scan_keys window p =
     foldl (\<lambda>p m. p\<lparr>ps_private := True, ps_inKey := (cap m 1 = ''BEGIN'')\<rparr>) (p\<lparr>ps_private := ps_private p \<or> ps_inKey p\<rparr>)
       (FindAll pem window)"

definition feed_chunk :: "string \<Rightarrow> parser \<Rightarrow> parser" where
  "feed_chunk chunk p =
     (let window = ps_marker p @ chunk;
          p1 = scan_keys window (p\<lparr>ps_digest := ps_digest p @ chunk\<rparr>);
          room = MaxLine - length (ps_buffer p);
          n = min room (length chunk)
      in p1\<lparr>ps_marker := last_bytes 128 window, ps_buffer := ps_buffer p @ take n chunk,
            ps_truncated := ps_truncated p \<or> n < length chunk\<rparr>)"

definition opt_list :: "'a option \<Rightarrow> 'a list" where
  "opt_list x = (case x of None \<Rightarrow> [] | Some a \<Rightarrow> [a])"

text \<open>Every round takes the data up to its first newline.\<close>

function Feed :: "std \<Rightarrow> 's accept \<Rightarrow> string \<Rightarrow> parser \<Rightarrow> 's \<Rightarrow> parser \<times> 's \<times> event list" where
  "Feed S accept data p s =
     (if data = [] then (p, s, [])
      else case IndexByte data (CHR 0x0A) of
        None \<Rightarrow> (feed_chunk data p, s, [])
      | Some n \<Rightarrow>
         (case finishLine S accept False (feed_chunk (take (Suc n) data) p) s of
           (p1, s1, e) \<Rightarrow> (case Feed S accept (drop (Suc n) data) p1 s1 of
             (p2, s2, es) \<Rightarrow> (p2, s2, opt_list e @ es))))"
  by pat_completeness auto
termination
  by (relation "measure (\<lambda>(S, accept, data, p, s). length data)") auto

declare Feed.simps [simp del]

definition Finish :: "std \<Rightarrow> 's accept \<Rightarrow> bool \<Rightarrow> parser \<Rightarrow> 's \<Rightarrow> parser \<times> 's \<times> event list" where
  "Finish S accept part p s =
     (case (if ps_buffer p \<noteq> [] then
              finishLine S accept (part \<or> ps_transport p) (p\<lparr>ps_truncated := ps_truncated p \<or> part\<rparr>) s
            else (p, s, None)) of
       (p1, s1, e) \<Rightarrow>
         (let p2 = (if part then p1\<lparr>ps_pending := map_option (\<lambda>e. e\<lparr>ev_Truncated := True, ev_ParseUncertain := True\<rparr>)
                     (ps_pending p1)\<rparr> else p1) in
          case Flush S p2 of (p3, f) \<Rightarrow> (p3, s1, opt_list e @ opt_list f)))"

section \<open>Reading\<close>

text \<open>
  \<open>Read\<close> takes the reader, the sink and the context as arguments: \<open>rd n r\<close> is one call of the buffered
  reader with room for \<open>n\<close> bytes, \<open>emit\<close> may fail, \<open>ctx k\<close> is the context's error in the round
  that leaves \<open>k\<close> rounds of fuel.  The loop ends when the reader says so, so it is run with fuel.
\<close>

definition emit_all :: "(event \<Rightarrow> 'o \<Rightarrow> 'o \<times> status) \<Rightarrow> event list \<Rightarrow> 'o \<Rightarrow> 'o \<times> status" where
  "emit_all emit es o' = range_err (\<lambda>o' e. emit e o') o' es"

primrec read_loop :: "nat \<Rightarrow> std \<Rightarrow> (nat \<Rightarrow> 'r \<Rightarrow> 'r \<times> string \<times> goerror option) \<Rightarrow> (event \<Rightarrow> 'o \<Rightarrow> 'o \<times> status)
    \<Rightarrow> (nat \<Rightarrow> goerror option) \<Rightarrow> nat \<Rightarrow> nat \<Rightarrow> parser \<Rightarrow> 'r \<Rightarrow> 'o \<Rightarrow> ('o \<times> status) option" where
  "read_loop 0 S rd emit ctx maxBytes sofar p r o' = None"
| "read_loop (Suc fuel) S rd emit ctx maxBytes sofar p r o' =
     (case ctx fuel of
       Some err \<Rightarrow> Some (o', Some err)
     | None \<Rightarrow>
        (case rd (min 8192 (maxBytes - sofar + 1)) r of
          (r1, data, err) \<Rightarrow>
            (if maxBytes < length data + sofar then
               (case Feed S None (take (maxBytes - sofar) data) p () of
                 (p1, _, es) \<Rightarrow> (case emit_all emit es o' of
                   (o1, Some e) \<Rightarrow> Some (o1, Some e)
                 | (o1, None) \<Rightarrow> (case Finish S None True p1 () of
                     (p2, _, fs) \<Rightarrow> (case emit_all emit fs o1 of
                       (o2, Some e) \<Rightarrow> Some (o2, Some e)
                     | (o2, None) \<Rightarrow> Some (o2, Some ErrLimit)))))
             else
               (case Feed S None data p () of
                 (p1, _, es) \<Rightarrow> (case emit_all emit es o' of
                   (o1, Some e) \<Rightarrow> Some (o1, Some e)
                 | (o1, None) \<Rightarrow>
                    (case err of
                      None \<Rightarrow> read_loop fuel S rd emit ctx maxBytes (sofar + length data) p1 r1 o1
                    | Some x \<Rightarrow> (case Finish S None (x \<noteq> EOF) p1 () of
                        (p2, _, fs) \<Rightarrow> (case emit_all emit fs o1 of
                          (o2, Some e) \<Rightarrow> Some (o2, Some e)
                        | (o2, None) \<Rightarrow> Some (o2, if x = EOF then None else Some (Err ''input read failed''))))))))))"

definition Read :: "nat \<Rightarrow> std \<Rightarrow> (nat \<Rightarrow> 'r \<Rightarrow> 'r \<times> string \<times> goerror option) \<Rightarrow> (event \<Rightarrow> 'o \<Rightarrow> 'o \<times> status)
    \<Rightarrow> (nat \<Rightarrow> goerror option) \<Rightarrow> source \<Rightarrow> int \<Rightarrow> 'r \<Rightarrow> 'o \<Rightarrow> ('o \<times> status) option" where
  "Read fuel S rd emit ctx src maxBytes r o' =
     (if maxBytes < 1 then Some (o', Some (Err ''invalid input byte limit''))
      else read_loop fuel S rd emit ctx (nat maxBytes) 0 (NewParser S src) r o')"

section \<open>Bounds and order of lines\<close>

lemma MaxEvent_pos: "0 < MaxEvent"
  by (simp add: MaxEvent_def)

definition event_ok :: "nat \<Rightarrow> nat \<Rightarrow> event \<Rightarrow> bool" where
  "event_ok b n e = (length (ev_Text e) \<le> MaxEvent \<and> b < ev_LineStart e \<and> ev_LineStart e \<le> ev_LineEnd e \<and> ev_LineEnd e \<le> n
     \<and> 1 \<le> ev_LineCount e \<and> ev_LineStart e + ev_LineCount e \<le> ev_LineEnd e + 1)"

definition parser_ok :: "nat \<Rightarrow> parser \<Rightarrow> bool" where
  "parser_ok b p = (length (ps_buffer p) \<le> MaxLine \<and> length (ps_marker p) \<le> 128 \<and> b \<le> ps_line p
     \<and> (\<forall>e. ps_pending p = Some e \<longrightarrow> event_ok b (ps_line p) e))"

text \<open>Events of disjoint line ranges, in order, all after line \<open>b\<close> and none past line \<open>b'\<close>.\<close>

fun in_order :: "nat \<Rightarrow> event list \<Rightarrow> nat \<Rightarrow> bool" where
  "in_order b [] b' = (b \<le> b')"
| "in_order b (e # es) b' = (event_ok b b' e \<and> in_order (ev_LineEnd e) es b')"

lemma in_order_le: "in_order b es b' \<Longrightarrow> b \<le> b'"
  by (induction b es b' rule: in_order.induct) (auto simp: event_ok_def)

lemma event_ok_mono: "event_ok b n e \<Longrightarrow> n \<le> m \<Longrightarrow> event_ok b m e"
  by (simp add: event_ok_def)

lemma in_order_append: "in_order b xs m \<Longrightarrow> in_order m ys b' \<Longrightarrow> in_order b (xs @ ys) b'"
proof (induction b xs m rule: in_order.induct)
  case (1 b m)
  then show ?case
    by (cases ys) (auto simp: event_ok_def)
next
  case (2 b e es m)
  with in_order_le [of m ys b'] show ?case by (auto intro: event_ok_mono)
qed

text \<open>One step emits at most what was pending, so its events end where the new bound begins.\<close>

definition step_ok :: "nat \<Rightarrow> parser \<Rightarrow> event list \<Rightarrow> bool" where
  "step_ok b p es = (\<exists>b'. in_order b es b' \<and> parser_ok b' p)"

lemma finalize_ok [simp]: "event_ok b n (finalize S e) = event_ok b n e" "ev_LineEnd (finalize S e) = ev_LineEnd e"
  "ev_LineStart (finalize S e) = ev_LineStart e" "ev_LineCount (finalize S e) = ev_LineCount e" "ev_Text (finalize S e) = ev_Text e"
  "ev_Sensitive (finalize S e) = ev_Sensitive e" "ev_Truncated (finalize S e) = ev_Truncated e"
  "ev_ParseUncertain (finalize S e) = ev_ParseUncertain e"
  by (simp_all add: event_ok_def finalize_def)

lemma begin_line_ok: "parser_ok b p \<Longrightarrow> parser_ok b (begin_line p\<lparr>ps_digest := d\<rparr>)"
  by (auto simp: parser_ok_def begin_line_def intro: event_ok_mono)

lemma extend_event_ok: "event_ok b n e \<Longrightarrow> n < m \<Longrightarrow> event_ok b m (extend_event m c u t safe e)"
  by (auto simp: event_ok_def extend_event_def length_Clip)

lemma fresh_event_ok: "b < n \<Longrightarrow> event_ok b n (fresh_event src n ts c u t safe)"
  by (auto simp: event_ok_def fresh_event_def length_Clip)

lemma place_line_ok:
  assumes "place_line S part invalid trunc private x p = (p', e)" and "parser_ok b p" and "b < ps_line p"
    and "\<forall>e. ps_pending p = Some e \<longrightarrow> ev_LineEnd e < ps_line p"
  shows "step_ok b p' (opt_list e)"
proof -
  obtain ts stamped tx where x: "x = (ts, stamped, tx)" by (cases x) auto
  obtain safe changed amb where r: "redact tx = (safe, changed, amb)" by (metis prod_cases3)
  show ?thesis
  proof (cases "tx = [] \<and> \<not> private \<and> \<not> trunc")
    case True
    with assms(1) have "p' = p" "e = None" by (simp_all add: place_line_def x)
    with assms(2,3) show ?thesis unfolding step_ok_def opt_list_def by (intro exI [of _ b]) simp
  next
    case False
    show ?thesis
    proof (cases "is_continuation p ts tx \<and> ps_pending p \<noteq> None")
      case True
      then obtain e0 where e0: "ps_pending p = Some e0" by blast
      have ok: "event_ok b (ev_LineEnd e0) e0" using assms(2) e0 by (auto simp: parser_ok_def event_ok_def)
      have ext: "event_ok b (ps_line p) (extend_event (ps_line p) c u trunc sf e0)" for c u sf
        using extend_event_ok [OF ok] assms(4) e0 by blast
      have "e = None" and "parser_ok b p'"
        using assms(1,2) False True e0 r ext by (auto simp: place_line_def x Let_def parser_ok_def)
      with \<open>e = None\<close> show ?thesis unfolding step_ok_def opt_list_def by (intro exI [of _ b]) simp
    next
      case new: False
      have e: "e = map_option (finalize S) (ps_pending p)"
        using assms(1) False new r by (auto simp: place_line_def x Let_def Flush_def split: option.splits bool.splits)
      define b' where "b' = (case ps_pending p of None \<Rightarrow> b | Some e0 \<Rightarrow> ev_LineEnd e0)"
      have b': "b' < ps_line p" "in_order b (opt_list e) b'"
        using assms(2-4) by (auto simp: b'_def e opt_list_def parser_ok_def event_ok_def split: option.splits)
      have "parser_ok b' p'"
        using assms(1,2) False new r b'(1) fresh_event_ok [OF b'(1)]
        by (auto simp: place_line_def x Let_def Flush_def parser_ok_def split: option.splits bool.splits)
      with b'(2) show ?thesis unfolding step_ok_def by blast
    qed
  qed
qed

lemma finishLine_ok:
  assumes "finishLine S accept part p s = (p', s', e)" and "parser_ok b p"
  shows "step_ok b p' (opt_list e)"
proof -
  let ?p1 = "begin_line p"
  obtain s1 x where a: "accept_stamp S accept part ?p1 (line_text (ps_buffer p)) s = (s1, x)" by fastforce
  have ok: "parser_ok b (?p1\<lparr>ps_digest := []\<rparr>)" using assms(2) by (rule begin_line_ok)
  have line: "ps_line ?p1 = ps_line p + 1" "ps_pending ?p1 = ps_pending p" by (simp_all add: begin_line_def)
  show ?thesis
  proof (cases x)
    case None
    with assms(1) a ok show ?thesis
      unfolding step_ok_def opt_list_def by (intro exI [of _ b]) (auto simp: finishLine_def Let_def parser_ok_def)
  next
    case (Some y)
    obtain p2 e2 where pl: "place_line S part (\<not> utf8_Valid (ps_buffer p)) (ps_truncated p \<or> part) (ps_private p) (inner_stamp y)
        (?p1\<lparr>ps_digest := []\<rparr>) = (p2, e2)" by fastforce
    from assms(1) a Some pl have "p' = p2" "e = e2" by (simp_all add: finishLine_def)
    moreover have "step_ok b p2 (opt_list e2)"
      by (rule place_line_ok [OF pl ok]) (use assms(2) line in \<open>auto simp: parser_ok_def event_ok_def\<close>)
    ultimately show ?thesis by simp
  qed
qed

lemma scan_keys_fields [simp]:
  "ps_line (scan_keys w p) = ps_line p" "ps_pending (scan_keys w p) = ps_pending p" "ps_buffer (scan_keys w p) = ps_buffer p"
  "ps_digest (scan_keys w p) = ps_digest p" "ps_transport (scan_keys w p) = ps_transport p" "ps_truncated (scan_keys w p) = ps_truncated p"
proof -
  have f: "ps_line (foldl F q ms) = ps_line q \<and> ps_pending (foldl F q ms) = ps_pending q \<and> ps_buffer (foldl F q ms) = ps_buffer q
      \<and> ps_digest (foldl F q ms) = ps_digest q \<and> ps_transport (foldl F q ms) = ps_transport q \<and> ps_truncated (foldl F q ms) = ps_truncated q"
    if "F = (\<lambda>p m. p\<lparr>ps_private := True, ps_inKey := (cap m 1 = ''BEGIN'')\<rparr>)" for F q ms
    by (induction ms arbitrary: q) (simp_all add: that)
  from f [OF refl, of "p\<lparr>ps_private := ps_private p \<or> ps_inKey p\<rparr>" "FindAll pem w"]
  show "ps_line (scan_keys w p) = ps_line p" "ps_pending (scan_keys w p) = ps_pending p" "ps_buffer (scan_keys w p) = ps_buffer p"
    "ps_digest (scan_keys w p) = ps_digest p" "ps_transport (scan_keys w p) = ps_transport p" "ps_truncated (scan_keys w p) = ps_truncated p"
    by (simp_all add: scan_keys_def)
qed

lemma feed_chunk_ok: "parser_ok b p \<Longrightarrow> parser_ok b (feed_chunk c p)"
  by (auto simp: parser_ok_def feed_chunk_def Let_def last_bytes_def)

lemma step_ok_trans: "step_ok b p es \<Longrightarrow> (\<And>b'. parser_ok b' p \<Longrightarrow> step_ok b' q fs) \<Longrightarrow> step_ok b q (es @ fs)"
  unfolding step_ok_def by (meson in_order_append)

lemma Feed_end: "data = [] \<Longrightarrow> Feed S accept data p s = (p, s, [])"
    "data \<noteq> [] \<Longrightarrow> IndexByte data (CHR 0x0A) = None \<Longrightarrow> Feed S accept data p s = (feed_chunk data p, s, [])"
  by (subst Feed.simps, simp)+

lemma Feed_line:
  "IndexByte data (CHR 0x0A) = Some n \<Longrightarrow> Feed S accept data p s =
     (case finishLine S accept False (feed_chunk (take (Suc n) data) p) s of
        (p1, s1, e) \<Rightarrow> (case Feed S accept (drop (Suc n) data) p1 s1 of (p2, s2, es) \<Rightarrow> (p2, s2, opt_list e @ es)))"
  by (subst Feed.simps) (auto split: prod.split)

lemma Feed_ok: "Feed S accept data p s = (p', s', es) \<Longrightarrow> parser_ok b p \<Longrightarrow> step_ok b p' es"
proof (induction S accept data p s arbitrary: p' s' es b rule: Feed.induct)
  case (1 S accept data p s)
  show ?case
  proof (cases "data = [] \<or> IndexByte data (CHR 0x0A) = None")
    case True
    with 1(2,3) feed_chunk_ok [OF 1(3), of data] show ?thesis
      unfolding step_ok_def by (intro exI [of _ b]) (cases "data = []"; auto simp: Feed_end)
  next
    case False
    then obtain n where n: "data \<noteq> []" "IndexByte data (CHR 0x0A) = Some n" by blast
    obtain p1 s1 e where f: "finishLine S accept False (feed_chunk (take (Suc n) data) p) s = (p1, s1, e)" by (metis prod_cases3)
    obtain p2 s2 fs where r: "Feed S accept (drop (Suc n) data) p1 s1 = (p2, s2, fs)" by (metis prod_cases3)
    have res: "p' = p2" "es = opt_list e @ fs" using 1(2) f r by (simp_all add: Feed_line [OF n(2)])
    show ?thesis
      unfolding res
      by (rule step_ok_trans [OF finishLine_ok [OF f feed_chunk_ok [OF 1(3)]]])
        (rule 1(1) [OF n(1,2) f [symmetric] refl r])
  qed
qed

lemma Flush_ok:
  assumes "Flush S p = (p', e)" and "parser_ok b p"
  shows "step_ok b p' (opt_list e)"
proof -
  have "in_order b (opt_list e) (ps_line p)"
    using assms by (cases "ps_pending p") (auto simp: Flush_def opt_list_def parser_ok_def, auto simp: event_ok_def)
  moreover have "parser_ok (ps_line p) p'" using assms by (auto simp: Flush_def parser_ok_def)
  ultimately show ?thesis unfolding step_ok_def by blast
qed

lemma Finish_ok:
  assumes "Finish S accept part p s = (p', s', es)" and "parser_ok b p"
  shows "step_ok b p' es"
proof -
  obtain p1 s1 e where f: "(if ps_buffer p \<noteq> [] then finishLine S accept (part \<or> ps_transport p)
      (p\<lparr>ps_truncated := ps_truncated p \<or> part\<rparr>) s else (p, s, None)) = (p1, s1, e)" by (metis prod_cases3)
  let ?p2 = "if part then p1\<lparr>ps_pending := map_option (\<lambda>e. e\<lparr>ev_Truncated := True, ev_ParseUncertain := True\<rparr>) (ps_pending p1)\<rparr> else p1"
  obtain p3 l where fl: "Flush S ?p2 = (p3, l)" by fastforce
  have res: "p' = p3" "es = opt_list e @ opt_list l" using assms(1) f fl by (simp_all add: Finish_def Let_def)
  have ok: "parser_ok b (p\<lparr>ps_truncated := t\<rparr>)" for t using assms(2) by (simp add: parser_ok_def)
  have "step_ok b p1 (opt_list e)"
  proof (cases "ps_buffer p = []")
    case True
    with f assms(2) show ?thesis unfolding step_ok_def opt_list_def by (intro exI [of _ b]) auto
  next
    case False
    with f finishLine_ok [OF _ ok] show ?thesis by simp
  qed
  moreover have "parser_ok b' ?p2" if "parser_ok b' p1" for b'
    using that by (auto simp: parser_ok_def event_ok_def)
  ultimately show ?thesis unfolding res by (elim step_ok_trans) (rule Flush_ok [OF fl], blast)
qed

end
