(* ===== verification/ParserSafety.thy ===== *)
theory ParserSafety
  imports Parser
begin

text \<open>
  What the line parser guarantees: bounded memory and ordered, bounded events; private-key lines never
  reach an event; the way the input is cut into reads does not matter; and the reading loop returns.
\<close>

section \<open>Whole inputs\<close>

fun feeds :: "std \<Rightarrow> 's accept \<Rightarrow> string list \<Rightarrow> parser \<Rightarrow> 's \<Rightarrow> parser \<times> 's \<times> event list" where
  "feeds S accept [] p s = (p, s, [])"
| "feeds S accept (d # ds) p s =
     (case Feed S accept d p s of (p1, s1, es) \<Rightarrow> (case feeds S accept ds p1 s1 of (p2, s2, fs) \<Rightarrow> (p2, s2, es @ fs)))"

definition parse_chunks :: "std \<Rightarrow> 's accept \<Rightarrow> bool \<Rightarrow> string list \<Rightarrow> parser \<Rightarrow> 's \<Rightarrow> parser \<times> 's \<times> event list" where
  "parse_chunks S accept part ds p s =
     (case feeds S accept ds p s of (p1, s1, es) \<Rightarrow> (case Finish S accept part p1 s1 of (p2, s2, fs) \<Rightarrow> (p2, s2, es @ fs)))"

lemma feeds_ok: "feeds S accept ds p s = (p', s', es) \<Longrightarrow> parser_ok b p \<Longrightarrow> step_ok b p' es"
proof (induction ds arbitrary: p s p' s' es b)
  case Nil
  then show ?case unfolding step_ok_def by (intro exI [of _ b]) auto
next
  case (Cons d ds)
  obtain p1 s1 e1 where f: "Feed S accept d p s = (p1, s1, e1)" by (metis prod_cases3)
  obtain p2 s2 e2 where r: "feeds S accept ds p1 s1 = (p2, s2, e2)" by (metis prod_cases3)
  have res: "p' = p2" "es = e1 @ e2" using Cons.prems(1) f r by simp_all
  show ?case unfolding res by (rule step_ok_trans [OF Feed_ok [OF f Cons.prems(2)]]) (rule Cons.IH [OF r])
qed

lemma NewParser_ok: "parser_ok 0 (NewParser S src)"
  by (simp add: parser_ok_def NewParser_def Let_def)

lemma in_order_nth: "in_order b es b' \<Longrightarrow> i < length es \<Longrightarrow> length (ev_Text (es ! i)) \<le> MaxEvent \<and> b < ev_LineStart (es ! i)
    \<and> ev_LineStart (es ! i) \<le> ev_LineEnd (es ! i) \<and> 1 \<le> ev_LineCount (es ! i)
    \<and> ev_LineCount (es ! i) \<le> ev_LineEnd (es ! i) + 1 - ev_LineStart (es ! i)
    \<and> (\<forall>j. i < j \<and> j < length es \<longrightarrow> ev_LineEnd (es ! i) < ev_LineStart (es ! j))"
proof (induction es arbitrary: b i)
  case Nil
  then show ?case by simp
next
  case (Cons e es)
  then have e: "event_ok b b' e" and r: "in_order (ev_LineEnd e) es b'" by simp_all
  show ?case
  proof (cases i)
    case 0
    with e Cons.IH [OF r] show ?thesis by (auto simp: event_ok_def nth_Cons split: nat.splits)
  next
    case (Suc k)
    note ih = Cons.IH [OF r, of k]
    have "ev_LineEnd (es ! k) < ev_LineStart ((e # es) ! j)" if "i < j" "j < length (e # es)" for j
    proof (cases j)
      case 0
      with that show ?thesis by simp
    next
      case (Suc m)
      with that ih \<open>i = Suc k\<close> show ?thesis by simp
    qed
    with Suc ih Cons.prems(2) e show ?thesis by (auto simp: event_ok_def)
  qed
qed

text \<open>
  C34: however the input is cut into chunks and whatever \<open>AcceptLine\<close> decides, the parser's memory is
  bounded (a line buffer of at most 64 KiB, a marker window of at most 128 bytes) and the events it emits
  are bounded and ordered: each has at most 16000 bytes of text and covers its own range of lines, with a
  line count that fits the range, and a later event starts after the previous one ended.
\<close>

theorem parser_bounds:
  assumes "feeds S accept ds (NewParser S src) s = (p1, s1, es)" and "Finish S accept part p1 s1 = (p2, s2, fs)"
  shows "length (ps_buffer p1) \<le> MaxLine \<and> length (ps_marker p1) \<le> 128
    \<and> (\<forall>i < length (es @ fs). length (ev_Text ((es @ fs) ! i)) \<le> MaxEvent
        \<and> ev_LineStart ((es @ fs) ! i) \<le> ev_LineEnd ((es @ fs) ! i)
        \<and> 1 \<le> ev_LineCount ((es @ fs) ! i)
        \<and> ev_LineCount ((es @ fs) ! i) \<le> ev_LineEnd ((es @ fs) ! i) + 1 - ev_LineStart ((es @ fs) ! i)
        \<and> (\<forall>j. i < j \<and> j < length (es @ fs) \<longrightarrow> ev_LineEnd ((es @ fs) ! i) < ev_LineStart ((es @ fs) ! j)))"
proof -
  have f: "step_ok 0 p1 es" by (rule feeds_ok [OF assms(1) NewParser_ok])
  then have "length (ps_buffer p1) \<le> MaxLine \<and> length (ps_marker p1) \<le> 128" by (auto simp: step_ok_def parser_ok_def)
  moreover obtain b where "in_order 0 (es @ fs) b"
    using step_ok_trans [OF f Finish_ok [OF assms(2)]] by (auto simp: step_ok_def)
  ultimately show ?thesis using in_order_nth by blast
qed

definition sample_input :: string where
  "sample_input = ''boom'' @ [CHR 0x0A] @ ''  at x'' @ [CHR 0x0A] @ ''ok'' @ [CHR 0x0A]"

theorem parser_bounds_witness:
  "\<exists>p1 es p2 fs. feeds sample_std None [sample_input] (NewParser sample_std sample_source) () = (p1, (), es)
    \<and> Finish sample_std None False p1 () = (p2, (), fs) \<and> length (ps_buffer p1) \<le> MaxLine"
proof -
  obtain p1 es where f: "feeds sample_std None [sample_input] (NewParser sample_std sample_source) () = (p1, (), es)"
    by (metis prod_cases3 old.unit.exhaust)
  obtain p2 fs where g: "Finish sample_std None False p1 () = (p2, (), fs)" by (metis prod_cases3 old.unit.exhaust)
  from parser_bounds [OF f g] f g show ?thesis by blast
qed

section \<open>Private keys\<close>

lemma scan_keys_private: "ps_inKey p \<or> FindAll pem w \<noteq> [] \<Longrightarrow> ps_private (scan_keys w p)"
proof -
  have keep: "ps_private q \<Longrightarrow> ps_private (foldl (\<lambda>p m. p\<lparr>ps_private := True, ps_inKey := (cap m 1 = ''BEGIN'')\<rparr>) q ms)" for q ms
    by (induction ms arbitrary: q) simp_all
  show "ps_inKey p \<or> FindAll pem w \<noteq> [] \<Longrightarrow> ps_private (scan_keys w p)"
    unfolding scan_keys_def by (cases "FindAll pem w") (auto intro!: keep simp del: One_nat_def)
qed

lemma place_line_private:
  assumes "place_line S part invalid trunc True x p = (p', e)"
  shows "\<exists>n. ps_pending p' = Some n \<and> ev_Sensitive n
    \<and> (ev_Text n = private_key_text
       \<or> (\<exists>e0. ps_pending p = Some e0 \<and> ev_Text n = Clip (ev_Text e0 @ [CHR 0x0A] @ private_key_text) MaxEvent))
    \<and> (e = None \<or> e = map_option (finalize S) (ps_pending p))"
proof -
  obtain ts stamped tx where x: "x = (ts, stamped, tx)" by (cases x) auto
  obtain safe changed amb where r: "redact tx = (safe, changed, amb)" by (metis prod_cases3)
  have c: "Clip private_key_text MaxEvent = private_key_text" by (simp add: Clip_def private_key_text_def MaxEvent_def)
  show ?thesis
    using assms r by (auto simp: place_line_def x Let_def Flush_def extend_event_def fresh_event_def c split: option.splits bool.splits)
qed

lemma accept_stamp_None: "\<exists>y. accept_stamp S None part p tx s = (s, Some y)"
  by (auto simp: accept_stamp_def split: option.split prod.split)



section \<open>Chunks\<close>

lemma ends_rchr: "ends (rchr c) (pre, s, caps) = (case s of [] \<Rightarrow> [] | x # s' \<Rightarrow> if x = c then [(x # pre, s', caps)] else [])"
  by (simp add: rchr_def)

lemma ends_rlit: "t \<in> set (ends (rlit w) st) \<Longrightarrow> fst (snd st) = w @ fst (snd t)"
proof -
  have "t \<in> set (ends (rseq (map rchr w)) st) \<Longrightarrow> fst (snd st) = w @ fst (snd t)" for t st
  proof (induction w arbitrary: st)
    case Nil
    then show ?case by simp
  next
    case (Cons c w)
    obtain pre s caps where st: "st = (pre, s, caps)" by (cases st) auto
    show ?case
    proof (cases w)
      case Nil
      with Cons.prems st show ?thesis by (auto simp: rchr_def split: list.splits if_splits)
    next
      case (Cons d ds)
      with Cons.prems st obtain s' where s': "s = c # s'" "t \<in> set (ends (rseq (map rchr w)) (c # pre, s', caps))"
        by (auto simp: ends_rchr split: list.splits if_splits)
      from Cons.IH [OF s'(2)] s'(1) st show ?thesis by simp
    qed
  qed
  then show "t \<in> set (ends (rlit w) st) \<Longrightarrow> fst (snd st) = w @ fst (snd t)" by (simp add: rlit_def)
qed

definition key_text :: string where
  "key_text = ''PRIVATE KEY-----''"

definition key_free :: "string \<Rightarrow> bool" where
  "key_free s = (\<not> Contains s key_text)"

lemma pem_needs_text: "t \<in> set (ends pem (pre, s, caps)) \<Longrightarrow> \<not> key_free s"
proof -
  assume "t \<in> set (ends pem (pre, s, caps))"
  then obtain u where u: "advances (pre, s, caps) u" "t \<in> set (ends (rlit key_text) u)"
    unfolding pem_def key_text_def
    by (auto simp del: ends.simps simp: ends.simps(3)) (meson advances_trans ends_advances)
  then obtain d where "s = d @ fst (snd u)" by (auto simp: advances_def)
  with ends_rlit [OF u(2)] show "\<not> key_free s" by (auto simp: key_free_def Contains_iff)
qed

lemma key_free_infix: "key_free (a @ b @ c) \<Longrightarrow> key_free b"
  unfolding key_free_def Contains_iff by (metis append.assoc)

lemma FindAll_key_free: "key_free s \<Longrightarrow> FindAll pem s = []"
proof -
  have "key_free s \<Longrightarrow> rfind pem pre s = None" for pre
  proof (induction s arbitrary: pre)
    case Nil
    then have "ends pem (pre, [], []) = []" using pem_needs_text [of _ pre "[]" "[]"] by (cases "ends pem (pre, [], [])") auto
    then show ?case by simp
  next
    case (Cons c s)
    have "ends pem (pre, c # s, []) = []"
      using pem_needs_text [of _ pre "c # s" "[]"] Cons.prems by (cases "ends pem (pre, c # s, [])") auto
    moreover have "key_free s" using key_free_infix [of "[c]" s "[]"] Cons.prems by simp
    ultimately show ?case using Cons.IH by simp
  qed
  then show "key_free s \<Longrightarrow> FindAll pem s = []" by (simp add: FindAll_def)
qed

lemma scan_keys_free: "key_free w \<Longrightarrow> scan_keys w p = p\<lparr>ps_private := ps_private p \<or> ps_inKey p\<rparr>"
  by (simp add: scan_keys_def FindAll_key_free)

lemma last_bytes_append: "last_bytes n (last_bytes n a @ b) = last_bytes n (a @ b)"
  by (auto simp: last_bytes_def ac_simps)

lemma last_bytes_suffix: "\<exists>d. s = d @ last_bytes n s"
  by (metis append_take_drop_id append_Nil last_bytes_def)

lemma feed_chunk_append:
  assumes "key_free (ps_marker p @ a @ b)"
  shows "feed_chunk (a @ b) p = feed_chunk b (feed_chunk a p)"
proof -
  have fa: "key_free (ps_marker p @ a)" using key_free_infix [of "[]" "ps_marker p @ a" b] assms by simp
  have fb: "key_free (last_bytes 128 (ps_marker p @ a) @ b)"
    using key_free_infix [of _ "last_bytes 128 (ps_marker p @ a) @ b" "[]"] last_bytes_suffix [of "ps_marker p @ a" 128] assms
    by (metis append.assoc append.right_neutral)
  define m where "m = MaxLine - length (ps_buffer p)"
  have r: "MaxLine - length (ps_buffer p @ take m a) = m - length a" by (simp add: m_def min_def)
  have c: "feed_chunk x q = q\<lparr>ps_digest := ps_digest q @ x, ps_private := ps_private q \<or> ps_inKey q,
      ps_marker := last_bytes 128 (ps_marker q @ x), ps_buffer := ps_buffer q @ take (MaxLine - length (ps_buffer q)) x,
      ps_truncated := ps_truncated q \<or> MaxLine - length (ps_buffer q) < length x\<rparr>" if "key_free (ps_marker q @ x)" for x q
    using that by (simp add: feed_chunk_def Let_def scan_keys_free) (simp add: min_def)
  have b: "ps_marker (feed_chunk a p) = last_bytes 128 (ps_marker p @ a)" by (simp add: c [OF fa])
  have "length (a @ b) > m \<longleftrightarrow> m < length a \<or> m - length a < length b" by auto
  note t = this
  note 2 = c [of "feed_chunk a p" b, unfolded b, OF fb]
  show ?thesis
    unfolding 2 using t r by (simp add: c assms c [OF fa] last_bytes_append m_def [symmetric])
qed

lemma place_line_marker:
  assumes "place_line S part invalid trunc private x p = (p', e)"
  shows "ps_marker p' = ps_marker p"
proof -
  obtain ts stamped tx where x: "x = (ts, stamped, tx)" by (cases x) auto
  obtain safe changed amb where r: "redact tx = (safe, changed, amb)" by (metis prod_cases3)
  show ?thesis
  proof (cases "tx = [] \<and> \<not> private \<and> \<not> trunc")
    case True
    with assms show ?thesis by (simp add: place_line_def x)
  next
    case False
    with assms r show ?thesis
      by (cases "is_continuation p ts tx"; cases "ps_pending p") (auto simp: place_line_def x Let_def Flush_def)
  qed
qed

lemma finishLine_marker:
  assumes "finishLine S accept part p s = (p', s', e)"
  shows "ps_marker p' = []"
proof -
  obtain s1 x where a: "accept_stamp S accept part (begin_line p) (line_text (ps_buffer p)) s = (s1, x)" by fastforce
  show ?thesis
  proof (cases x)
    case None
    with assms a show ?thesis by (auto simp: finishLine_def Let_def begin_line_def)
  next
    case (Some y)
    with assms a show ?thesis
      by (auto simp: finishLine_def Let_def dest!: place_line_marker split: prod.splits) (simp add: begin_line_def)
  qed
qed

lemma IndexByte_append: "IndexByte (a @ b) c = (case IndexByte a c of Some n \<Rightarrow> Some n | None \<Rightarrow> map_option (\<lambda>n. n + length a) (IndexByte b c))"
  by (induction a) (auto split: option.splits simp: option.map_comp comp_def option.map_id0 [unfolded id_def])

lemma Feed_append:
  "key_free (ps_marker p @ a @ b) \<Longrightarrow> Feed S accept (a @ b) p s =
     (case Feed S accept a p s of (p1, s1, es) \<Rightarrow> (case Feed S accept b p1 s1 of (p2, s2, fs) \<Rightarrow> (p2, s2, es @ fs)))"
proof (induction S accept a p s rule: Feed.induct)
  case (1 S accept a p s)
  let ?nl = "CHR 0x0A"
  consider "a = []" | "a \<noteq> []" "b = []" | "a \<noteq> []" "b \<noteq> []" "IndexByte a ?nl = None" | n where "a \<noteq> []" "IndexByte a ?nl = Some n"
    by fastforce
  then show ?case
  proof cases
    case 1
    then show ?thesis by (simp add: Feed_end split: prod.split)
  next
    case 2
    then show ?thesis by (auto simp: Feed_end(1) split: prod.split)
  next
    case 3
    show ?thesis
    proof (cases "IndexByte b ?nl")
      case None
      with 3 have "IndexByte (a @ b) ?nl = None" by (simp add: IndexByte_append)
      with 3 None 1(2) show ?thesis by (simp add: Feed_end feed_chunk_append)
    next
      case (Some n)
      with 3 have i: "IndexByte (a @ b) ?nl = Some (n + length a)" by (simp add: IndexByte_append)
      have "key_free (ps_marker p @ a @ take (Suc n) b)"
        using key_free_infix [of "[]" "ps_marker p @ a @ take (Suc n) b" "drop (Suc n) b"] 1(2) by simp
      then have "feed_chunk (take (Suc (n + length a)) (a @ b)) p = feed_chunk (take (Suc n) b) (feed_chunk a p)"
        by (simp add: feed_chunk_append)
      with 3 show ?thesis by (simp add: Feed_line [OF i] Feed_line [OF Some] Feed_end split: prod.split)
    qed
  next
    case (4 n)
    then have i: "IndexByte (a @ b) ?nl = Some n" by (simp add: IndexByte_append)
    have n: "n < length a" using IndexByte_Some [OF 4(2)] by blast
    obtain p1 s1 e where f: "finishLine S accept False (feed_chunk (take (Suc n) a) p) s = (p1, s1, e)" by (metis prod_cases3)
    have "key_free (ps_marker p1 @ drop (Suc n) a @ b)"
    proof -
      have "ps_marker p @ a @ b = (ps_marker p @ take (Suc n) a) @ (drop (Suc n) a @ b) @ []"
        by (metis append.assoc append.right_neutral append_take_drop_id)
      from 1(2) [unfolded this] have "key_free (drop (Suc n) a @ b)" by (rule key_free_infix)
      then show ?thesis using finishLine_marker [OF f] by simp
    qed
    from 1(1) [OF 4 f [symmetric] refl this] f n show ?thesis
      by (auto simp: Feed_line [OF i] Feed_line [OF 4(2)] split: prod.split)
  qed
qed

lemma Feed_marker: "Feed S accept a p s = (p', s', es) \<Longrightarrow> \<exists>d. ps_marker p @ a = d @ ps_marker p'"
proof (induction S accept a p s arbitrary: p' s' es rule: Feed.induct)
  case (1 S accept a p s)
  note H = 1(2)
  consider "a = []" | "a \<noteq> []" "IndexByte a (CHR 0x0A) = None" | n where "a \<noteq> []" "IndexByte a (CHR 0x0A) = Some n" by fastforce
  then show ?case
  proof cases
    case 1
    with H show ?thesis by (auto simp: Feed_end)
  next
    case 2
    with 1(2) have "p' = feed_chunk a p" by (simp add: Feed_end)
    then have "ps_marker p' = last_bytes 128 (ps_marker p @ a)" by (simp add: feed_chunk_def Let_def)
    then show ?thesis using last_bytes_suffix [of "ps_marker p @ a" 128] by simp
  next
    case (3 n)
    obtain p1 s1 e where f: "finishLine S accept False (feed_chunk (take (Suc n) a) p) s = (p1, s1, e)" by (metis prod_cases3)
    obtain p2 s2 fs where r: "Feed S accept (drop (Suc n) a) p1 s1 = (p2, s2, fs)" by (metis prod_cases3)
    from 1(1) [OF 3 f [symmetric] refl r] finishLine_marker [OF f] obtain d where "drop (Suc n) a = d @ ps_marker p2" by auto
    then have "ps_marker p @ a = (ps_marker p @ take (Suc n) a @ d) @ ps_marker p2" by (metis append.assoc append_take_drop_id)
    moreover have "p' = p2" using 1(2) f r by (simp add: Feed_line [OF 3(2)])
    ultimately show ?thesis by blast
  qed
qed

lemma key_free_after:
  assumes "key_free (ps_marker p @ a @ b)" and "Feed S accept a p s = (p', s', es)"
  shows "key_free (ps_marker p' @ b)"
proof -
  obtain d where "ps_marker p @ a = d @ ps_marker p'" using Feed_marker [OF assms(2)] by blast
  then have "ps_marker p @ a @ b = d @ (ps_marker p' @ b) @ []" by (metis append.assoc append.right_neutral)
  with assms(1) have "key_free (d @ (ps_marker p' @ b) @ [])" by (simp only:)
  then show ?thesis by (rule key_free_infix)
qed



section \<open>The reading loop\<close>

lemma emit_all_Nil [simp]: "emit_all emit [] o' = (o', None)"
  by (simp add: emit_all_def)

lemma emit_all_collect [simp]: "emit_all (\<lambda>e o'. (o' @ [e], None)) es o' = (o' @ es, None)"
  by (induction es arbitrary: o') (simp_all add: emit_all_def)

text \<open>
  C40: reading ends: when every call of the reader returns no more bytes than it was offered room for, and
  at least one byte or an error, the loop returns after at most \<open>maxBytes + 2\<close> calls, whatever the data,
  the sink and the context do; its result is an error of the context, of the sink or of the reader, the
  byte limit, or success.
\<close>

theorem read_terminates:
  assumes "\<And>n r r' d e. rd n r = (r', d, e) \<Longrightarrow> length d \<le> n \<and> (d \<noteq> [] \<or> e \<noteq> None)" and "nat maxBytes + 2 \<le> fuel"
  shows "\<exists>o1 st. Read fuel S rd emit ctx src maxBytes r o' = Some (o1, st)"
proof -
  have "\<exists>x. read_loop fuel S rd emit ctx m n p r o' = Some x" if "n \<le> m" "m - n + 1 < fuel" for fuel m n p r o'
    using that
  proof (induction fuel arbitrary: n p r o')
    case 0
    then show ?case by simp
  next
    case (Suc fuel)
    obtain r1 d e where rd: "rd (min 8192 (m - n + 1)) r = (r1, d, e)" by (metis prod_cases3)
    obtain p1 u1 es where f: "Feed S None d p () = (p1, u1, es)" by (metis prod_cases3)
    obtain o1 st where em: "emit_all emit es o' = (o1, st)" by fastforce
    show ?case
    proof (cases "ctx fuel = None \<and> \<not> m < length d + n \<and> st = None \<and> e = None")
      case True
      then have "d \<noteq> []" using assms(1) [OF rd] by blast
      then have d: "0 < length d" by simp
      have "\<exists>x. read_loop fuel S rd emit ctx m (n + length d) p1 r1 o1 = Some x"
        using d True Suc.prems by (intro Suc.IH) linarith+
      with True rd f em show ?thesis by (auto simp: add.commute)
    next
      case False
      with rd f em show ?thesis by (auto split: option.splits prod.splits)
    qed
  qed
  then show ?thesis using assms(2) by (auto simp: Read_def)
qed

text \<open>A reader over the chunks a producer wrote, ending with \<open>io.EOF\<close>.\<close>

fun chunk_reader :: "nat \<Rightarrow> string list \<Rightarrow> string list \<times> string \<times> goerror option" where
  "chunk_reader n [] = ([], [], Some EOF)"
| "chunk_reader n (c # cs) = (if length c \<le> n then (cs, c, None) else (drop n c # cs, take n c, None))"

text \<open>The events of a whole input.\<close>

definition parse_all :: "std \<Rightarrow> source \<Rightarrow> string \<Rightarrow> event list" where
  "parse_all S src text' =
     (case Feed S None text' (NewParser S src) () of (p1, _, es) \<Rightarrow> (case Finish S None False p1 () of (_, _, fs) \<Rightarrow> es @ fs))"

lemma chunk_reader_Cons:
  assumes "0 < k"
  shows "\<exists>ds d. chunk_reader k (c # cs) = (ds, d, None) \<and> concat (c # cs) = d @ concat ds
    \<and> length ds + length (concat ds) < length (c # cs) + length (concat (c # cs))"
  using assms by (cases "length c \<le> k") auto

lemma read_loop_parse:
  "key_free (ps_marker p @ concat cs) \<Longrightarrow> n + length (concat cs) \<le> m \<Longrightarrow> length cs + length (concat cs) < fuel \<Longrightarrow>
    read_loop fuel S chunk_reader (\<lambda>e o'. (o' @ [e], None)) (\<lambda>_. None) m n p cs o' =
      Some (o' @ (case Feed S None (concat cs) p () of (p1, _, es) \<Rightarrow> (case Finish S None False p1 () of (_, _, fs) \<Rightarrow> es @ fs)), None)"
proof (induction fuel arbitrary: n p cs o')
  case 0
  then show ?case by simp
next
  case (Suc fuel)
  show ?case
  proof (cases cs)
    case Nil
    with Suc.prems show ?thesis by (auto simp: Feed_end split: prod.splits)
  next
    case (Cons c cs')
    let ?k = "min 8192 (m - n + 1)"
    obtain ds d where rd: "chunk_reader ?k cs = (ds, d, None)" and cc: "concat cs = d @ concat ds"
      and less: "length ds + length (concat ds) < length cs + length (concat cs)"
      using chunk_reader_Cons [of ?k c cs'] Cons by (metis zero_less_Suc Suc_eq_plus1 min_less_iff_conj zero_less_numeral)
    have fit: "\<not> m < length d + n" "n + length d + length (concat ds) \<le> m"
      using Suc.prems(2) unfolding cc by simp_all
    obtain p1 u1 es where f: "Feed S None d p () = (p1, u1, es)" by (metis prod_cases3)
    have kf: "key_free (ps_marker p @ d @ concat ds)" using Suc.prems(1) unfolding cc .
    have fuel: "length ds + length (concat ds) < fuel" using less Suc.prems(3) by linarith
    note ih = Suc.IH [OF key_free_after [OF kf f] fit(2) fuel, of "o' @ es"]
    have step: "read_loop (Suc fuel) S chunk_reader (\<lambda>e o'. (o' @ [e], None)) (\<lambda>_. None) m n p cs o' =
        read_loop fuel S chunk_reader (\<lambda>e o'. (o' @ [e], None)) (\<lambda>_. None) m (n + length d) p1 ds (o' @ es)"
      using fit(1) by (simp only: read_loop.simps rd option.case prod.case if_False f emit_all_collect)
    show ?thesis
      unfolding step ih cc Feed_append [OF kf] f by (simp split: prod.split)
  qed
qed


definition endless_reader :: "nat \<Rightarrow> unit \<Rightarrow> unit \<times> string \<times> goerror option" where
  "endless_reader n r = (if n = 0 then ((), [], Some EOF) else ((), [CHR ''a''], None))"

theorem read_terminates_witness:
  "\<exists>o1 st. Read 12 sample_std endless_reader (\<lambda>e o'. (o' @ [e], None)) (\<lambda>_. None) sample_source 10 () [] = Some (o1, st)"
  by (rule read_terminates) (auto simp: endless_reader_def split: if_splits)


end
