(* ===== verification/Cursor.thy ===== *)
theory Cursor
  imports ParserSafety "HOL-Library.Multiset"
begin

text \<open>
  \<open>internal/kube/cursor.go\<close>: the cursor that recognises, after a reconnect, the log lines it has already
  let through.  It is the \<open>AcceptLine\<close> of the parser; the reasons it reports to \<open>gap\<close> are collected in order.
\<close>

record cursor =
  cu_last :: "gotime option"
  cu_replaying :: bool
  cu_counts :: "(string, nat) gomap"
  cu_replay :: "(string, nat) gomap"
  cu_gaps :: "string list"

definition cursorCapacity :: nat where
  "cursorCapacity = 4096"

definition max_count :: nat where
  "max_count = 2 ^ 64 - 1"

definition newCursor :: cursor where
  "newCursor = \<lparr>cu_last = None, cu_replaying = False, cu_counts = [], cu_replay = [], cu_gaps = []\<rparr>"

definition reconnect :: "cursor \<Rightarrow> cursor" where
  "reconnect c = c\<lparr>cu_replaying := (cu_last c \<noteq> None), cu_replay := cu_counts c\<rparr>"

definition gap :: "string \<Rightarrow> cursor \<Rightarrow> cursor" where
  "gap reason c = c\<lparr>cu_gaps := cu_gaps c @ [reason]\<rparr>"

text \<open>A line later than the cursor moves it.\<close>

definition advance :: "gotime \<Rightarrow> cursor \<Rightarrow> cursor" where
  "advance t c = (if cu_last c = None \<or> (\<exists>l. cu_last c = Some l \<and> After t l)
     then c\<lparr>cu_last := Some t, cu_counts := [], cu_replay := [], cu_replaying := False\<rparr> else c)"

definition consume_replay :: "string \<Rightarrow> cursor \<Rightarrow> cursor" where
  "consume_replay digest c =
     (let n = mgetd 0 (cu_replay c) digest - 1;
          m = (if n = 0 then mdel digest (cu_replay c) else mput digest n (cu_replay c))
      in c\<lparr>cu_replay := m, cu_replaying := (cu_replaying c \<and> m \<noteq> [])\<rparr>)"

definition count_line :: "string \<Rightarrow> cursor \<Rightarrow> cursor \<times> bool" where
  "count_line digest c =
     (if \<not> mhas (cu_counts c) digest \<and> cursorCapacity \<le> length (cu_counts c) then (gap ''cursor_overflow'' c, True)
      else if mgetd 0 (cu_counts c) digest = max_count then (gap ''cursor_overflow'' c, True)
      else (c\<lparr>cu_counts := mput digest (mgetd 0 (cu_counts c) digest + 1) (cu_counts c)\<rparr>, True))"

definition cursor_accept :: "gotime option \<Rightarrow> string \<Rightarrow> bool \<Rightarrow> cursor \<Rightarrow> cursor \<times> bool" where
  "cursor_accept t digest part c =
     (case t of
       None \<Rightarrow> (gap ''cursor_untimestamped'' c, True)
     | Some t \<Rightarrow>
        (if part then (gap ''cursor_truncated'' c, True)
         else if (case cu_last c of None \<Rightarrow> False | Some l \<Rightarrow> Before t l) then
           (if cu_replaying c \<and> (case cu_last c of None \<Rightarrow> False | Some l \<Rightarrow> \<not> Before t (TruncateSecond l)) then (c, False)
            else (gap ''cursor_out_of_order'' c, True))
         else let c1 = advance t c in
           if 0 < mgetd 0 (cu_replay c1) digest then (consume_replay digest c1, False)
           else count_line digest c1))"

section \<open>Memory\<close>

text \<open>The counters never exceed the capacity.\<close>

lemma count_line_bounded: "length (cu_counts c) \<le> cursorCapacity \<Longrightarrow> length (cu_counts (fst (count_line d c))) \<le> cursorCapacity"
  by (auto simp: count_line_def gap_def length_mput)

lemma accept_bounded:
  assumes "length (cu_counts c) \<le> cursorCapacity"
  shows "length (cu_counts (fst (cursor_accept t d part c))) \<le> cursorCapacity"
proof -
  have "length (cu_counts (advance x c)) \<le> cursorCapacity" for x using assms by (simp add: advance_def)
  with assms show ?thesis
    by (auto simp: cursor_accept_def gap_def consume_replay_def Let_def count_line_bounded split: option.split)
qed

section \<open>Counting maps as multisets\<close>

definition counts_of :: "(string, nat) gomap \<Rightarrow> string multiset \<Rightarrow> bool" where
  "counts_of m M = (wf_map m \<and> (\<forall>d. mgetd 0 m d = count M d) \<and> (\<forall>(d, n) \<in> set m. 0 < n))"

lemma counts_of_empty [simp]: "counts_of [] M \<longleftrightarrow> M = {#}"
  by (auto simp: counts_of_def mgetd_def multiset_eq_iff)

lemma counts_of_Nil: "counts_of m {#} \<Longrightarrow> m = []"
proof (rule ccontr)
  assume c: "counts_of m {#}" and "m \<noteq> []"
  then obtain d n m' where m: "m = (d, n) # m'" by (cases m) auto
  with c have "0 < n" "mgetd 0 m d = 0" by (auto simp: counts_of_def)
  with m show False by (simp add: mgetd_def)
qed

lemma counts_of_mhas: "counts_of m M \<Longrightarrow> mhas m d \<longleftrightarrow> d \<in># M"
proof -
  assume c: "counts_of m M"
  then have m: "mgetd 0 m d = count M d" by (simp add: counts_of_def)
  show ?thesis
  proof (cases "map_of m d")
    case None
    with m have "count M d = 0" by (simp add: mgetd_def)
    with None show ?thesis by (simp add: mhas_def not_in_iff)
  next
    case (Some n)
    then have "(d, n) \<in> set m" by (rule map_of_SomeD)
    with c have "0 < n" by (auto simp: counts_of_def)
    with m Some have "0 < count M d" by (simp add: mgetd_def)
    with Some show ?thesis by (simp add: mhas_def)
  qed
qed

lemma card_set_le_size: "card (set_mset M) \<le> size (M :: 'a multiset)"
proof -
  have "card (set_mset M) = (\<Sum>x \<in> set_mset M. 1)" by simp
  also have "\<dots> \<le> (\<Sum>x \<in> set_mset M. count M x)" by (intro sum_mono) (simp add: Suc_le_eq)
  finally show ?thesis by (simp add: size_multiset_overloaded_eq)
qed

lemma counts_of_length: "counts_of m M \<Longrightarrow> length m \<le> size M"
proof -
  assume c: "counts_of m M"
  then have "fst ` set m = set_mset M" using counts_of_mhas [OF c] by (auto simp: mhas_iff)
  then have "card (fst ` set m) = card (set_mset M)" by simp
  moreover have "length m = card (fst ` set m)" using c by (metis counts_of_def distinct_card length_map set_map)
  ultimately show ?thesis using card_set_le_size [of M] by simp
qed

lemma counts_of_add: "counts_of m M \<Longrightarrow> counts_of (mput d (mgetd 0 m d + 1) m) (add_mset d M)"
  by (auto simp: counts_of_def mgetd_def dest!: set_mputD)

lemma counts_of_remove:
  assumes "counts_of m M" and "d \<in># M"
  shows "counts_of (if mgetd 0 m d - 1 = 0 then mdel d m else mput d (mgetd 0 m d - 1) m) (M - {#d#})"
  using assms by (auto simp: counts_of_def mgetd_def set_mdel dest!: set_mputD split: option.splits)

section \<open>Exactly once\<close>

type_synonym line = "gotime \<times> string"

fun deliver :: "cursor \<Rightarrow> line list \<Rightarrow> cursor \<times> line list" where
  "deliver c [] = (c, [])"
| "deliver c (x # xs) =
     (case cursor_accept (Some (fst x)) (snd x) False c of
       (c1, ok) \<Rightarrow> (case deliver c1 xs of (c2, ys) \<Rightarrow> (c2, if ok then x # ys else ys)))"

text \<open>What the API server sends on a connection: everything at or after the second of the cursor (\<open>SinceTime\<close>
  has whole seconds), which the collector has partly seen, and then what is new.\<close>

definition server_lines :: "cursor \<Rightarrow> line list \<Rightarrow> line list \<Rightarrow> line list" where
  "server_lines c seen fresh =
     (case cu_last c of None \<Rightarrow> fresh | Some l \<Rightarrow> filter (\<lambda>x. \<not> Before (fst x) (TruncateSecond l)) seen @ fresh)"

definition open_connection :: "cursor \<Rightarrow> cursor" where
  "open_connection c = (if cu_last c \<noteq> None then reconnect c else c)"

text \<open>A stream followed over several connections: the lines the parser gets to keep.\<close>

fun follow_lines :: "cursor \<Rightarrow> line list \<Rightarrow> line list list \<Rightarrow> line list" where
  "follow_lines c seen [] = []"
| "follow_lines c seen (ys # yss) =
     (case deliver (open_connection c) (server_lines c seen ys) of
       (c1, kept) \<Rightarrow> kept @ follow_lines c1 (seen @ ys) yss)"

definition at_time :: "int \<Rightarrow> line list \<Rightarrow> string multiset" where
  "at_time w xs = mset (map snd (filter (\<lambda>x. wall (fst x) = w) xs))"

definition stream_ok :: "line list \<Rightarrow> bool" where
  "stream_ok xs = (sorted_wrt (\<lambda>a b. wall (fst a) \<le> wall (fst b)) xs \<and> (\<forall>x \<in> set xs. mono_ns (fst x) = None)
     \<and> (\<forall>x \<in> set xs. size (at_time (wall (fst x)) xs) \<le> cursorCapacity))"

definition synced :: "cursor \<Rightarrow> line list \<Rightarrow> bool" where
  "synced c xs = (if xs = [] then cu_last c = None \<and> cu_counts c = []
     else (\<exists>l. cu_last c = Some l \<and> mono_ns l = None \<and> wall l = wall (fst (last xs)) \<and> counts_of (cu_counts c) (at_time (wall l) xs)))"

lemma at_time_snoc: "at_time w (xs @ [x]) = (if wall (fst x) = w then add_mset (snd x) (at_time w xs) else at_time w xs)"
  by (simp add: at_time_def)

lemma at_time_later: "\<forall>x \<in> set xs. wall (fst x) < w \<Longrightarrow> at_time w xs = {#}"
  by (auto simp: at_time_def filter_empty_conv)

lemma sorted_last: "sorted_wrt (\<lambda>a b. wall (fst a) \<le> wall (fst b)) xs \<Longrightarrow> x \<in> set xs \<Longrightarrow> wall (fst x) \<le> wall (fst (last xs))"
  by (induction xs) auto

lemma fresh_line:
  assumes "synced c xs" and "stream_ok (xs @ [x])" and "cu_replay c = []"
  shows "\<exists>c'. cursor_accept (Some (fst x)) (snd x) False c = (c', True) \<and> synced c' (xs @ [x]) \<and> cu_replay c' = []"
proof -
  let ?t = "fst x" and ?d = "snd x"
  have mono: "mono_ns ?t = None" and cap: "size (at_time (wall ?t) (xs @ [x])) \<le> cursorCapacity"
    and sorted: "\<forall>y \<in> set xs. wall (fst y) \<le> wall ?t"
    using assms(2) by (auto simp: stream_ok_def sorted_wrt_append)
  have new: "count_line ?d (advance ?t c) = ((advance ?t c)\<lparr>cu_counts := [(?d, 1)]\<rparr>, True)"
    if "cu_last c = None \<or> (\<exists>l. cu_last c = Some l \<and> After ?t l)"
    using that by (auto simp: advance_def count_line_def cursorCapacity_def mhas_def mgetd_def max_count_def)
  have one: "counts_of [(?d, 1)] {#?d#}" by (auto simp: counts_of_def mgetd_def)
  show ?thesis
  proof (cases "cu_last c")
    case None
    then have xs: "xs = []" using assms(1) by (auto simp: synced_def split: if_splits)
    from None new one mono show ?thesis
      by (auto simp: cursor_accept_def Let_def advance_def mgetd_def synced_def xs at_time_def)
  next
    case (Some l)
    then have ne: "xs \<noteq> []" and l: "mono_ns l = None" "wall l = wall (fst (last xs))" and cnt: "counts_of (cu_counts c) (at_time (wall l) xs)"
      using assms(1) by (auto simp: synced_def split: if_splits)
    have le: "wall l \<le> wall ?t" using sorted ne l(2) by simp
    show ?thesis
    proof (cases "wall l < wall ?t")
      case True
      then have a: "After ?t l" by (simp add: After_def Before_wall' l(1))
      have before: "\<not> Before ?t l" using le by (simp add: Before_wall l(1))
      have "\<forall>y \<in> set xs. wall (fst y) < wall ?t"
        using sorted_last [of xs] assms(2) True l(2) by (fastforce simp: stream_ok_def sorted_wrt_append)
      then have "at_time (wall ?t) xs = {#}" by (rule at_time_later)
      with Some a before new one mono show ?thesis
        by (auto simp: cursor_accept_def Let_def advance_def mgetd_def synced_def at_time_snoc)
    next
      case False
      with le have w: "wall ?t = wall l" by simp
      have before: "\<not> Before ?t l" "\<not> After ?t l" using w l(1) mono by (simp_all add: Before_wall After_def)
      have adv: "advance ?t c = c" using Some before by (simp add: advance_def)
      have sz: "size (at_time (wall l) xs) < cursorCapacity" using cap by (simp add: at_time_snoc w)
      have "length (cu_counts c) < cursorCapacity" using counts_of_length [OF cnt] sz by simp
      moreover have "mgetd 0 (cu_counts c) ?d \<noteq> max_count"
      proof -
        have "count (at_time (wall l) xs) ?d \<le> size (at_time (wall l) xs)" by (rule count_le_size)
        then have "mgetd 0 (cu_counts c) ?d < cursorCapacity" using cnt sz by (simp add: counts_of_def)
        then show ?thesis by (simp add: cursorCapacity_def max_count_def)
      qed
      ultimately have cl: "count_line ?d c = (c\<lparr>cu_counts := mput ?d (mgetd 0 (cu_counts c) ?d + 1) (cu_counts c)\<rparr>, True)"
        by (simp add: count_line_def)
      have "counts_of (mput ?d (mgetd 0 (cu_counts c) ?d + 1) (cu_counts c)) (at_time (wall l) (xs @ [x]))"
        using counts_of_add [OF cnt] by (simp add: at_time_snoc w)
      with Some before adv cl assms(3) w l(1) show ?thesis
        by (auto simp: cursor_accept_def Let_def mgetd_def synced_def)
    qed
  qed
qed

lemma stream_ok_prefix: "stream_ok (xs @ ys) \<Longrightarrow> stream_ok xs"
  unfolding stream_ok_def
proof (elim conjE, intro conjI ballI)
  fix x assume cap: "\<forall>x \<in> set (xs @ ys). size (at_time (wall (fst x)) (xs @ ys)) \<le> cursorCapacity" and x: "x \<in> set xs"
  then have "size (at_time (wall (fst x)) (xs @ ys)) \<le> cursorCapacity" by simp
  then show "size (at_time (wall (fst x)) xs) \<le> cursorCapacity" by (simp add: at_time_def)
qed (auto simp: sorted_wrt_append)

lemma fresh_lines:
  "synced c xs \<Longrightarrow> stream_ok (xs @ ys) \<Longrightarrow> cu_replay c = [] \<Longrightarrow>
    \<exists>c'. deliver c ys = (c', ys) \<and> synced c' (xs @ ys)"
proof (induction ys arbitrary: c xs)
  case Nil
  then show ?case by simp
next
  case (Cons y ys)
  have s: "stream_ok ((xs @ [y]) @ ys)" using Cons.prems(2) by simp
  from fresh_line [OF Cons.prems(1) stream_ok_prefix [OF s] Cons.prems(3)] obtain c1 where
    c1: "cursor_accept (Some (fst y)) (snd y) False c = (c1, True)" "synced c1 (xs @ [y])" "cu_replay c1 = []" by blast
  from Cons.IH [OF c1(2) s c1(3)] c1(1) show ?case by auto
qed

text \<open>Replayed lines of the cursor's second but before its time change nothing.\<close>

lemma earlier_lines:
  assumes "cu_last c = Some l" and "cu_replaying c" and "\<forall>z \<in> set zs. Before (fst z) l \<and> \<not> Before (fst z) (TruncateSecond l)"
  shows "deliver c (zs @ ys) = deliver c ys"
  using assms(3)
proof (induction zs)
  case Nil
  then show ?case by simp
next
  case (Cons z zs)
  then have "cursor_accept (Some (fst z)) (snd z) False c = (c, False)" by (simp add: cursor_accept_def assms(1,2))
  with Cons show ?case by (simp add: case_prod_beta)
qed

lemma replayed_lines:
  assumes "cu_last c = Some l" and "mono_ns l = None" and "\<forall>z \<in> set zs. wall (fst z) = wall l \<and> mono_ns (fst z) = None"
    and "counts_of (cu_replay c) (mset (map snd zs))"
  shows "\<exists>c'. deliver c (zs @ ys) = deliver c' ys \<and> cu_replay c' = [] \<and> cu_last c' = cu_last c \<and> cu_counts c' = cu_counts c"
  using assms
proof (induction zs arbitrary: c)
  case Nil
  then show ?case by (auto simp: counts_of_Nil)
next
  case (Cons z zs)
  let ?d = "snd z" and ?c = "consume_replay (snd z) c"
  have b: "\<not> Before (fst z) l" "\<not> After (fst z) l" using Cons.prems(2,3) by (simp_all add: Before_wall After_def)
  have adv: "advance (fst z) c = c" using b Cons.prems(1) by (simp add: advance_def)
  have "mgetd 0 (cu_replay c) ?d = count (mset (map snd (z # zs))) ?d" using Cons.prems(4) by (simp add: counts_of_def)
  then have pos: "0 < mgetd 0 (cu_replay c) ?d" by simp
  have acc: "cursor_accept (Some (fst z)) ?d False c = (?c, False)"
    using b adv pos Cons.prems(1) by (simp add: cursor_accept_def)
  have "counts_of (cu_replay ?c) (mset (map snd (z # zs)) - {#?d#})"
    using counts_of_remove [OF Cons.prems(4), of ?d] unfolding consume_replay_def Let_def by simp
  then have "counts_of (cu_replay ?c) (mset (map snd zs))" by simp
  moreover have "cu_last ?c = cu_last c" "cu_counts ?c = cu_counts c" by (simp_all add: consume_replay_def Let_def)
  ultimately obtain c' where "deliver ?c (zs @ ys) = deliver c' ys" "cu_replay c' = []" "cu_last c' = cu_last c" "cu_counts c' = cu_counts c"
    using Cons.IH [of ?c] Cons.prems(1-3) by auto
  with acc show ?case by (auto simp: case_prod_beta)
qed

lemma filter_split_last:
  assumes "sorted_wrt (\<lambda>a b. wall (fst a) \<le> wall (fst b)) zs" and "\<forall>z \<in> set zs. wall (fst z) \<le> w"
    and "\<forall>z \<in> set zs. wall (fst z) = w \<longrightarrow> P z"
  shows "filter P zs = filter (\<lambda>x. P x \<and> wall (fst x) < w) zs @ filter (\<lambda>x. wall (fst x) = w) (zs :: line list)"
  using assms
proof (induction zs)
  case Nil
  then show ?case by simp
next
  case (Cons z zs)
  show ?case
  proof (cases "wall (fst z) < w")
    case True
    with Cons show ?thesis by simp
  next
    case False
    with Cons.prems have w: "wall (fst z) = w" "P z" "\<forall>y \<in> set zs. wall (fst y) = w" by (simp, simp, force)
    have "filter (\<lambda>x. P x \<and> wall (fst x) < w) zs = []" using w(3) by (auto simp: filter_empty_conv)
    moreover have "filter P zs = filter (\<lambda>x. wall (fst x) = w) zs"
      using Cons.prems(3) w(3) by (intro filter_cong) auto
    ultimately show ?thesis using w by simp
  qed
qed

lemma connection_lines:
  assumes "synced c xs" and "stream_ok (xs @ ys)" and "xs = [] \<longrightarrow> cu_replay c = []"
  shows "\<exists>c'. deliver (open_connection c) (server_lines c xs ys) = (c', ys) \<and> synced c' (xs @ ys)"
proof (cases "xs = []")
  case True
  with assms have "cu_last c = None" by (simp add: synced_def)
  with fresh_lines [OF assms(1,2)] assms(3) True show ?thesis by (simp add: open_connection_def server_lines_def)
next
  case False
  then obtain l where l: "cu_last c = Some l" "mono_ns l = None" "wall l = wall (fst (last xs))"
    and cnt: "counts_of (cu_counts c) (at_time (wall l) xs)" using assms(1) by (auto simp: synced_def)
  have sorted: "sorted_wrt (\<lambda>a b. wall (fst a) \<le> wall (fst b)) xs" and mono: "\<forall>x \<in> set xs. mono_ns (fst x) = None"
    using stream_ok_prefix [OF assms(2)] by (simp_all add: stream_ok_def)
  let ?early = "filter (\<lambda>x. \<not> Before (fst x) (TruncateSecond l) \<and> wall (fst x) < wall l) xs"
    and ?same = "filter (\<lambda>x. wall (fst x) = wall l) xs"
  have trunc: "wall (TruncateSecond l) \<le> wall l" "mono_ns (TruncateSecond l) = None"
    by (simp_all add: TruncateSecond_def second_def)
  have split: "filter (\<lambda>x. \<not> Before (fst x) (TruncateSecond l)) xs = ?early @ ?same"
  proof (rule filter_split_last [OF sorted])
    show "\<forall>z \<in> set xs. wall (fst z) \<le> wall l" using sorted_last [OF sorted] l(3) by simp
    show "\<forall>z \<in> set xs. wall (fst z) = wall l \<longrightarrow> \<not> Before (fst z) (TruncateSecond l)" using trunc by (simp add: Before_wall)
  qed
  let ?c = "open_connection c"
  have oc: "?c = reconnect c" using l(1) by (simp add: open_connection_def)
  have "deliver ?c (server_lines c xs ys) = deliver ?c (?early @ (?same @ ys))"
    by (simp add: server_lines_def l(1) split)
  also have "\<dots> = deliver ?c (?same @ ys)"
    by (rule earlier_lines [of _ l]) (auto simp: oc reconnect_def l Before_wall)
  finally have d: "deliver ?c (server_lines c xs ys) = deliver ?c (?same @ ys)" .
  have same: "counts_of (cu_replay ?c) (mset (map snd ?same))" using cnt by (simp add: oc reconnect_def at_time_def)
  have stamps: "\<forall>z \<in> set ?same. wall (fst z) = wall l \<and> mono_ns (fst z) = None" using mono by simp
  have here: "cu_last ?c = Some l" using l(1) by (simp add: oc reconnect_def)
  obtain c' where c': "deliver ?c (?same @ ys) = deliver c' ys" "cu_replay c' = []" "cu_last c' = cu_last ?c" "cu_counts c' = cu_counts ?c"
    using replayed_lines [OF here l(2) stamps same, of ys] by (elim exE conjE) (rule that)
  have "synced c' xs" using assms(1) c'(3,4) False by (simp add: synced_def oc reconnect_def)
  from fresh_lines [OF this assms(2) c'(2)] d c'(1) show ?thesis by simp
qed

text \<open>
  C5: a followed stream is delivered exactly once: however often the connection breaks, when the server sends
  again everything since the second of the last line the collector saw, the cursor drops exactly the lines
  that were already let through and lets every new line through, in order, including identical lines with the
  same timestamp.  The transport stamps must not go backwards and at most 4096 lines may share one.
\<close>

theorem reconnect_exactly_once:
  assumes "stream_ok (concat segments)"
  shows "follow_lines newCursor [] segments = concat segments"
proof -
  have "synced c xs \<Longrightarrow> stream_ok (xs @ concat segments) \<Longrightarrow> (xs = [] \<longrightarrow> cu_replay c = []) \<Longrightarrow>
      follow_lines c xs segments = concat segments" for c xs
  proof (induction segments arbitrary: c xs)
    case Nil
    then show ?case by simp
  next
    case (Cons ys yss)
    have s: "stream_ok (xs @ ys)" using Cons.prems(2) stream_ok_prefix [of "xs @ ys" "concat yss"] by simp
    from connection_lines [OF Cons.prems(1) s Cons.prems(3)] obtain c1 where
      c1: "deliver (open_connection c) (server_lines c xs ys) = (c1, ys)" "synced c1 (xs @ ys)" by blast
    have "xs @ ys = [] \<longrightarrow> cu_replay c1 = []"
    proof
      assume "xs @ ys = []"
      with Cons.prems c1(1) show "cu_replay c1 = []" by (auto simp: synced_def open_connection_def server_lines_def)
    qed
    with Cons.IH [OF c1(2)] Cons.prems(2) c1(1) show ?case by simp
  qed
  from this [of newCursor "[]"] assms show ?thesis by (simp add: synced_def newCursor_def)
qed

theorem reconnect_exactly_once_witness:
  "follow_lines newCursor [] [[(unix_time 5, ''a''), (unix_time 5, ''a''), (unix_time 6, ''b'')], [(unix_time 6, ''b''), (unix_time 7, ''c'')]]
    = [(unix_time 5, ''a''), (unix_time 5, ''a''), (unix_time 6, ''b''), (unix_time 6, ''b''), (unix_time 7, ''c'')]"
proof -
  have "stream_ok (concat [[(unix_time 5, ''a''), (unix_time 5, ''a''), (unix_time 6, ''b'')], [(unix_time 6, ''b''), (unix_time 7, ''c'')]])"
    by (simp add: stream_ok_def unix_time_def second_def at_time_def cursorCapacity_def)
  from reconnect_exactly_once [OF this] show ?thesis by simp
qed

end
