(* ===== verification/Collector.thy ===== *)
theory Collector
  imports ParserSafety
begin

text \<open>
  \<open>internal/kube/kube.go\<close>: the collection options, the log streams of a pod, discovery over the paged pod list,
  the validation of a stream's identity right before its log is opened, the choice of the controller pod, and
  the sequential snapshot.  The cluster API is a parameter that moves a world of its own.
\<close>

section \<open>Options\<close>

record kube_config =
  kc_SnapshotWorkers :: int
  kc_DiscoveryInterval :: int
  kc_Context :: string
  kc_Namespace :: string
  kc_Selector :: string
  kc_Pod :: string
  kc_InCluster :: bool
  kc_Follow :: bool
  kc_NoPrevious :: bool
  kc_Since :: int
  kc_Tail :: int
  kc_MaxBytes :: int
  kc_MaxStreams :: int
  kc_Duration :: int

text \<open>The syntax checks of the Kubernetes library.\<close>

record kube_syntax =
  is_dns_label :: "string \<Rightarrow> bool"
  is_dns_subdomain :: "string \<Rightarrow> bool"
  parses_selector :: "string \<Rightarrow> bool"

definition hour :: int where
  "hour = 3600 * second"

definition KubeConfig_Validate :: "kube_syntax \<Rightarrow> kube_config \<Rightarrow> status" where
  "KubeConfig_Validate V c =
     (if kc_SnapshotWorkers c < 0 \<or> 32 < kc_SnapshotWorkers c \<or> kc_DiscoveryInterval c < 0 \<or> hour < kc_DiscoveryInterval c
      then Some (Err ''invalid collection scheduling bounds'')
      else if kc_Namespace c \<noteq> [] \<and> \<not> is_dns_label V (kc_Namespace c) then Some (Err ''invalid namespace'')
      else if kc_Pod c \<noteq> [] \<and> \<not> is_dns_subdomain V (kc_Pod c) then Some (Err ''invalid pod'')
      else if kc_Context c \<noteq> [] \<and> kc_InCluster c then Some (Err ''context conflicts with in-cluster'')
      else if 256 < length (kc_Context c) \<or> list_ex (\<lambda>b. b \<in> {CHR 0x0D, CHR 0x0A, CHR 0x00}) (kc_Context c) then Some (Err ''invalid context'')
      else if 1024 < length (kc_Selector c) then Some (Err ''invalid selector'')
      else if \<not> parses_selector V (kc_Selector c) then Some (Err ''invalid selector'')
      else if kc_Pod c \<noteq> [] \<and> kc_Selector c \<noteq> [] then Some (Err ''pod conflicts with selector'')
      else if kc_Since c < 0 \<or> 31536000 < kc_Since c \<or> kc_Tail c < 0 \<or> kc_MaxBytes c < 1 \<or> 2 ^ 30 < kc_MaxBytes c
          \<or> kc_MaxStreams c < 1 \<or> 1024 < kc_MaxStreams c \<or> kc_Duration c < 0
      then Some (Err ''invalid collection bounds'')
      else None)"

section \<open>Pods and streams\<close>

record containerStatus =
  cs_Name :: string
  cs_RestartCount :: int
  cs_ContainerID :: string
  cs_Running :: bool
  cs_Terminated :: "string option"

record pod =
  pd_Name :: string
  pd_Namespace :: string
  pd_UID :: string
  pd_Running :: bool
  pd_Deleted :: bool
  pd_Containers :: "containerStatus list"
  pd_Init :: "containerStatus list"
  pd_Ephemeral :: "containerStatus list"

record log_stream =
  st_pod :: pod
  st_name :: string
  st_kind :: string
  st_previous :: bool
  st_restart :: int
  st_containerID :: string

definition previousID :: "containerStatus \<Rightarrow> string" where
  "previousID s = (case cs_Terminated s of None \<Rightarrow> [] | Some i \<Rightarrow> i)"

definition status_streams :: "pod \<Rightarrow> bool \<Rightarrow> bool \<Rightarrow> string \<Rightarrow> containerStatus \<Rightarrow> log_stream list" where
  "status_streams p previous live kind s =
     (if \<not> live \<or> cs_Running s then [\<lparr>st_pod = p, st_name = cs_Name s, st_kind = kind, st_previous = False,
        st_restart = cs_RestartCount s, st_containerID = cs_ContainerID s\<rparr>] else [])
     @ (if previous \<and> \<not> live \<and> 0 < cs_RestartCount s then [\<lparr>st_pod = p, st_name = cs_Name s, st_kind = kind, st_previous = True,
        st_restart = cs_RestartCount s - 1, st_containerID = previousID s\<rparr>] else [])"

definition streams :: "pod \<Rightarrow> bool \<Rightarrow> bool \<Rightarrow> log_stream list" where
  "streams p previous live =
     concat (map (status_streams p previous live ''container'') (pd_Containers p))
     @ concat (map (status_streams p previous live ''init'') (pd_Init p))
     @ concat (map (status_streams p previous live ''ephemeral'') (pd_Ephemeral p))"

definition stream_source :: "string \<Rightarrow> log_stream \<Rightarrow> source" where
  "stream_source context_name s =
     [(''type'', JStr ''kubernetes''), (''context'', JStr context_name), (''namespace'', JStr (pd_Namespace (st_pod s))),
      (''pod'', JStr (pd_Name (st_pod s))), (''pod_uid'', JStr (pd_UID (st_pod s))), (''container'', JStr (st_name s)),
      (''kind'', JStr (st_kind s)), (''previous'', JBool (st_previous s)), (''restart_count'', JInt (st_restart s)),
      (''container_id'', JStr (st_containerID s))]"

record collector =
  co_clusterID :: string
  co_Config :: kube_config

text \<open>
  \<open>New\<close> from the parts of the resolved endpoint: only scheme, host, port and path enter the cluster's identity.
\<close>

definition JoinHostPort :: "string \<Rightarrow> string \<Rightarrow> string" where
  "JoinHostPort h p = (if CHR '':'' \<in> set h then ''['' @ h @ '']:'' @ p else h @ '':'' @ p)"

definition endpoint_port :: "string \<Rightarrow> string \<Rightarrow> string" where
  "endpoint_port scheme port = (if port \<noteq> [] then port else if scheme = ''https'' then ''443'' else ''80'')"

definition collector_New :: "std \<Rightarrow> string \<Rightarrow> string \<Rightarrow> string \<Rightarrow> string \<Rightarrow> kube_config \<Rightarrow> collector result" where
  "collector_New S scheme hostname port path c =
     (if hostname = [] \<or> (scheme \<noteq> ''http'' \<and> scheme \<noteq> ''https'') then Inl (Err ''Kubernetes endpoint unavailable'')
      else Inr \<lparr>co_clusterID = Hash S (JArr [JStr ''kubernetes-endpoint-v1'', JStr scheme,
             JStr (JoinHostPort (ToLower S hostname) (endpoint_port scheme port)), JStr (TrimRightSet path {CHR ''/''})]), co_Config = c\<rparr>)"

definition collector_source :: "collector \<Rightarrow> log_stream \<Rightarrow> source" where
  "collector_source c s = mput ''cluster_id'' (JStr (co_clusterID c)) (stream_source (kc_Context (co_Config c)) s)"

definition discoverySource :: "collector \<Rightarrow> source" where
  "discoverySource c = [(''type'', JStr ''kubernetes''), (''context'', JStr (kc_Context (co_Config c))), (''cluster_id'', JStr (co_clusterID c))]"

section \<open>The cluster\<close>

datatype pod_answer = Found pod | NotFound | GetFailed

record log_options =
  lo_Container :: string
  lo_Previous :: bool
  lo_Follow :: bool
  lo_SinceSeconds :: "int option"
  lo_SinceTime :: "gotime option"
  lo_TailLines :: "int option"

text \<open>
  Every request moves the world; \<open>cl_ctx\<close> is the caller's context, \<open>cl_reading\<close> the bounded context while a log
  is read and \<open>cl_read_done\<close> the world when that reading is over.
\<close>

record ('w, 'r) cluster =
  cl_get :: "string \<Rightarrow> string \<Rightarrow> 'w \<Rightarrow> 'w \<times> pod_answer"
  cl_list :: "string \<Rightarrow> string \<Rightarrow> string \<Rightarrow> 'w \<Rightarrow> 'w \<times> (pod list \<times> string) option"
  cl_open :: "string \<Rightarrow> string \<Rightarrow> log_options \<Rightarrow> 'w \<Rightarrow> 'w \<times> 'r option"
  cl_read :: "nat \<Rightarrow> 'r \<Rightarrow> 'r \<times> string \<times> goerror option"
  cl_ctx :: "'w \<Rightarrow> goerror option"
  cl_reading :: "'w \<Rightarrow> nat \<Rightarrow> goerror option"
  cl_read_done :: "'w \<Rightarrow> 'w"

section \<open>Discovery\<close>

text \<open>The paging loop asks until a page has no continuation; it runs on fuel, one unit for each page.\<close>

primrec list_pages :: "nat \<Rightarrow> ('w, 'r) cluster \<Rightarrow> kube_config \<Rightarrow> string \<Rightarrow> pod list \<Rightarrow> 'w \<Rightarrow> ('w \<times> pod list result) option" where
  "list_pages 0 L c cont out w = None"
| "list_pages (Suc fuel) L c cont out w =
     (case cl_list L (kc_Namespace c) (kc_Selector c) cont w of
       (w1, None) \<Rightarrow> Some (w1, Inl (Err ''pod discovery failed''))
     | (w1, Some (items, next_page)) \<Rightarrow>
        (let out1 = out @ items in
         if 4096 < length out1 then Some (w1, Inl (Err ''pod discovery capacity exceeded''))
         else if next_page = [] then Some (w1, Inr out1)
         else list_pages fuel L c next_page out1 w1))"

definition collector_list :: "nat \<Rightarrow> ('w, 'r) cluster \<Rightarrow> collector \<Rightarrow> 'w \<Rightarrow> ('w \<times> pod list result) option" where
  "collector_list fuel L c w =
     (if kc_Pod (co_Config c) \<noteq> [] then
        (case cl_get L (kc_Namespace (co_Config c)) (kc_Pod (co_Config c)) w of
          (w1, Found p) \<Rightarrow> Some (w1, Inr [p])
        | (w1, _) \<Rightarrow> Some (w1, Inl (Err ''pod collection failed'')))
      else list_pages fuel L (co_Config c) [] [] w)"

definition SelectPod :: "('w, 'r) cluster \<Rightarrow> (string \<Rightarrow> string \<Rightarrow> 'w \<Rightarrow> 'w \<times> (pod list \<times> string) option) \<Rightarrow> kube_config \<Rightarrow> 'w \<Rightarrow> 'w \<times> pod result" where
  "SelectPod L running c w =
     (if kc_Namespace c = [] then (w, Inl (Err ''namespace required''))
      else if kc_Pod c \<noteq> [] then
        (case cl_get L (kc_Namespace c) (kc_Pod c) w of
          (w1, Found p) \<Rightarrow> (w1, if pd_Name p \<noteq> kc_Pod c \<or> pd_Namespace p \<noteq> kc_Namespace c \<or> \<not> pd_Running p \<or> pd_Deleted p
             then Inl (Err ''exact running controller pod unavailable'') else Inr p)
        | (w1, _) \<Rightarrow> (w1, Inl (Err ''exact running controller pod unavailable'')))
      else
        (case running (kc_Namespace c) (if kc_Selector c = [] then ''app=jevernetes'' else kc_Selector c) w of
          (w1, Some ([p], cont)) \<Rightarrow> (w1, if cont \<noteq> [] then Inl (Err ''controller selection must resolve to exactly one running pod'')
             else if pd_Namespace p \<noteq> kc_Namespace c \<or> \<not> pd_Running p \<or> pd_Deleted p then Inl (Err ''controller pod unavailable'') else Inr p)
        | (w1, _) \<Rightarrow> (w1, Inl (Err ''controller selection must resolve to exactly one running pod''))))"

section \<open>Stream identity\<close>

datatype identity_error = IdentityChanged | IdentityUnavailable

definition identityGap :: "identity_error \<Rightarrow> string" where
  "identityGap e = (if e = IdentityChanged then ''identity_changed'' else ''identity_unavailable'')"

definition same_slot :: "log_stream \<Rightarrow> log_stream \<Rightarrow> bool" where
  "same_slot want got = (st_name got = st_name want \<and> st_kind got = st_kind want \<and> st_previous got = st_previous want)"

text \<open>The comparison with the first stream of the same name, kind and previous flag.\<close>

definition compare_stream :: "log_stream \<Rightarrow> log_stream option \<Rightarrow> identity_error option" where
  "compare_stream want found = (case found of
     None \<Rightarrow> Some IdentityChanged
   | Some got \<Rightarrow>
      (if st_restart got \<noteq> st_restart want then Some IdentityChanged
       else if st_containerID got = [] then Some IdentityUnavailable
       else if st_containerID got = st_containerID want then None else Some IdentityChanged))"

definition validateStream :: "('w, 'r) cluster \<Rightarrow> collector \<Rightarrow> log_stream \<Rightarrow> 'w \<Rightarrow> 'w \<times> identity_error option" where
  "validateStream L c want w =
     (case cl_get L (pd_Namespace (st_pod want)) (pd_Name (st_pod want)) w of
       (w1, NotFound) \<Rightarrow> (w1, Some IdentityChanged)
     | (w1, GetFailed) \<Rightarrow> (w1, Some IdentityUnavailable)
     | (w1, Found p) \<Rightarrow> (w1,
         if st_containerID want = [] then Some IdentityChanged
         else if pd_UID p = [] then Some IdentityUnavailable
         else if pd_UID p \<noteq> pd_UID (st_pod want) \<or> pd_Name p \<noteq> pd_Name (st_pod want) \<or> pd_Namespace p \<noteq> pd_Namespace (st_pod want)
           \<or> pd_Deleted p then Some IdentityChanged
         else compare_stream want (find (same_slot want) (streams p (st_previous want) (kc_Follow (co_Config c))))))"

section \<open>Snapshot\<close>

text \<open>The state of a collection: the world, the sink of \<open>emit\<close> and the calls of \<open>gap\<close> in order.\<close>

record ('w, 'o) collection =
  cn_world :: 'w
  cn_sink :: 'o
  cn_gaps :: "(source \<times> string) list"

definition note_gap :: "source \<Rightarrow> string \<Rightarrow> ('w, 'o) collection \<Rightarrow> ('w, 'o) collection" where
  "note_gap src reason st = st\<lparr>cn_gaps := cn_gaps st @ [(src, reason)]\<rparr>"

definition snapshot_options :: "collector \<Rightarrow> log_stream \<Rightarrow> log_options" where
  "snapshot_options c s = \<lparr>lo_Container = st_name s, lo_Previous = st_previous s, lo_Follow = False,
     lo_SinceSeconds = Some (kc_Since (co_Config c)), lo_SinceTime = None, lo_TailLines = Some (kc_Tail (co_Config c))\<rparr>"

text \<open>An error of the sink is an error of the whole snapshot; it is told from a read error by wrapping it.\<close>

definition wrap_emit :: "(event \<Rightarrow> 'o \<Rightarrow> 'o \<times> status) \<Rightarrow> event \<Rightarrow> 'o \<times> status \<Rightarrow> ('o \<times> status) \<times> status" where
  "wrap_emit emit e x = (case emit e (fst x) of (o', err) \<Rightarrow> ((o', err), err))"

definition snapshotStream :: "nat \<Rightarrow> std \<Rightarrow> ('w, 'r) cluster \<Rightarrow> (event \<Rightarrow> 'o \<Rightarrow> 'o \<times> status) \<Rightarrow> collector \<Rightarrow> log_stream
    \<Rightarrow> ('w, 'o) collection \<Rightarrow> (('w, 'o) collection \<times> status) option" where
  "snapshotStream fuel S L emit c s st =
     (case cl_ctx L (cn_world st) of
       Some e \<Rightarrow> Some (st, Some e)
     | None \<Rightarrow>
       (let src = collector_source c s in
        case validateStream L c s (cn_world st) of
          (w1, Some e) \<Rightarrow> Some (note_gap src (identityGap e) (st\<lparr>cn_world := w1\<rparr>), None)
        | (w1, None) \<Rightarrow>
          (case cl_open L (pd_Namespace (st_pod s)) (pd_Name (st_pod s)) (snapshot_options c s) w1 of
            (w2, None) \<Rightarrow> Some (note_gap src ''log_unavailable'' (st\<lparr>cn_world := w2\<rparr>), None)
          | (w2, Some r) \<Rightarrow>
            (case Read fuel S (cl_read L) (wrap_emit emit) (cl_reading L w2) src (kc_MaxBytes (co_Config c)) r (cn_sink st, None) of
              None \<Rightarrow> None
            | Some ((o1, emitErr), err) \<Rightarrow>
               (let st1 = st\<lparr>cn_world := cl_read_done L w2, cn_sink := o1\<rparr> in
                if emitErr \<noteq> None then Some (st1, emitErr)
                else if err \<noteq> None then Some (note_gap src ''log_incomplete'' st1, cl_ctx L (cn_world st1))
                else Some (st1, None))))))"

primrec snapshot_streams :: "nat \<Rightarrow> std \<Rightarrow> ('w, 'r) cluster \<Rightarrow> (event \<Rightarrow> 'o \<Rightarrow> 'o \<times> status) \<Rightarrow> collector \<Rightarrow> log_stream list
    \<Rightarrow> ('w, 'o) collection \<Rightarrow> (('w, 'o) collection \<times> status) option" where
  "snapshot_streams fuel S L emit c [] st = Some (st, None)"
| "snapshot_streams fuel S L emit c (s # ss) st =
     (case snapshotStream fuel S L emit c s st of
       None \<Rightarrow> None
     | Some (st1, Some e) \<Rightarrow> Some (st1, Some e)
     | Some (st1, None) \<Rightarrow> snapshot_streams fuel S L emit c ss st1)"

text \<open>\<open>Snapshot\<close> with at most one worker.\<close>

definition collector_Snapshot :: "nat \<Rightarrow> std \<Rightarrow> ('w, 'r) cluster \<Rightarrow> (event \<Rightarrow> 'o \<Rightarrow> 'o \<times> status) \<Rightarrow> collector
    \<Rightarrow> ('w, 'o) collection \<Rightarrow> (('w, 'o) collection \<times> status) option" where
  "collector_Snapshot fuel S L emit c st =
     (case collector_list fuel L c (cn_world st) of
       None \<Rightarrow> None
     | Some (w1, Inl e) \<Rightarrow> Some (st\<lparr>cn_world := w1\<rparr>, Some e)
     | Some (w1, Inr pods) \<Rightarrow>
        snapshot_streams fuel S L emit c (concat (map (\<lambda>p. streams p (\<not> kc_NoPrevious (co_Config c)) False) pods)) (st\<lparr>cn_world := w1\<rparr>))"

section \<open>What the operations guarantee\<close>

lemma compare_stream_ok: "compare_stream want found = None \<longleftrightarrow>
    (\<exists>got. found = Some got \<and> st_restart got = st_restart want \<and> st_containerID got = st_containerID want \<and> st_containerID want \<noteq> [])"
  by (auto simp: compare_stream_def split: option.splits)

lemma find_in: "find P xs = Some x \<Longrightarrow> x \<in> set xs \<and> P x"
  by (auto simp: find_Some_iff)

text \<open>A validated stream is still the same container instance of the same pod.\<close>

lemma validateStream_ok:
  "validateStream L c want w = (w1, None) \<Longrightarrow>
    \<exists>p got. cl_get L (pd_Namespace (st_pod want)) (pd_Name (st_pod want)) w = (w1, Found p)
      \<and> pd_UID p = pd_UID (st_pod want) \<and> pd_UID p \<noteq> [] \<and> pd_Name p = pd_Name (st_pod want)
      \<and> pd_Namespace p = pd_Namespace (st_pod want) \<and> \<not> pd_Deleted p
      \<and> got \<in> set (streams p (st_previous want) (kc_Follow (co_Config c))) \<and> same_slot want got
      \<and> st_restart got = st_restart want \<and> st_containerID got = st_containerID want \<and> st_containerID want \<noteq> []"
  by (auto simp: validateStream_def compare_stream_ok dest!: find_in split: prod.splits pod_answer.splits if_splits)

lemma list_pages_bounded: "list_pages fuel L c cont out w = Some (w1, Inr pods) \<Longrightarrow> length pods \<le> 4096 \<and> (\<exists>more. pods = out @ more)"
proof (induction fuel arbitrary: cont out w)
  case 0
  then show ?case by simp
next
  case (Suc fuel)
  obtain w2 page where l: "cl_list L (kc_Namespace c) (kc_Selector c) cont w = (w2, page)" by fastforce
  show ?case
  proof (cases page)
    case None
    with l Suc.prems show ?thesis by simp
  next
    case (Some q)
    obtain items nxt where "q = (items, nxt)" by fastforce
    with l Some Suc.prems Suc.IH [of nxt "out @ items" w2] show ?thesis
      by (auto simp: Let_def split: if_splits)
  qed
qed

text \<open>Pages that are not empty make the loop end: at most 4097 of them are asked for.\<close>

lemma list_pages_returns:
  assumes pages: "\<And>cont w w1 items nxt. cl_list L (kc_Namespace c) (kc_Selector c) cont w = (w1, Some (items, nxt)) \<Longrightarrow> nxt \<noteq> [] \<Longrightarrow> items \<noteq> []"
  shows "4097 \<le> length out + fuel \<Longrightarrow> length out \<le> 4096 \<Longrightarrow> list_pages fuel L c cont out w \<noteq> None"
proof (induction fuel arbitrary: cont out w)
  case 0
  then show ?case by simp
next
  case (Suc fuel)
  obtain w2 page where l: "cl_list L (kc_Namespace c) (kc_Selector c) cont w = (w2, page)" by fastforce
  show ?case
  proof (cases page)
    case None
    with l show ?thesis by simp
  next
    case (Some q)
    obtain items nxt where q: "q = (items, nxt)" by fastforce
    show ?thesis
    proof (cases "length (out @ items) \<le> 4096 \<and> nxt \<noteq> []")
      case True
      with pages [of cont w w2 items nxt] l Some q have "items \<noteq> []" by simp
      with True Suc.prems have "4097 \<le> length (out @ items) + fuel" by (cases items) auto
      from Suc.IH [OF this, of nxt w2] True l Some q show ?thesis by (auto simp: Let_def)
    next
      case False
      with l Some q show ?thesis by (auto simp: Let_def)
    qed
  qed
qed

text \<open>A log that was read in full: validated, opened right after, and read to its end without an error.\<close>

definition read_in_full :: "nat \<Rightarrow> std \<Rightarrow> ('w, 'r) cluster \<Rightarrow> (event \<Rightarrow> 'o \<Rightarrow> 'o \<times> status) \<Rightarrow> collector \<Rightarrow> log_stream \<Rightarrow> bool" where
  "read_in_full fuel S L emit c s =
     (\<exists>w w1 w2 r o0 o1. validateStream L c s w = (w1, None)
        \<and> cl_open L (pd_Namespace (st_pod s)) (pd_Name (st_pod s)) (snapshot_options c s) w1 = (w2, Some r)
        \<and> Read fuel S (cl_read L) (wrap_emit emit) (cl_reading L w2) (collector_source c s) (kc_MaxBytes (co_Config c)) r (o0, None) = Some ((o1, None), None))"

definition gaps_of :: "collector \<Rightarrow> (log_stream \<times> string option) list \<Rightarrow> (source \<times> string) list" where
  "gaps_of c xs = concat (map (\<lambda>(s, r). case r of None \<Rightarrow> [] | Some reason \<Rightarrow> [(collector_source c s, reason)]) xs)"

lemma gaps_of_simps [simp]: "gaps_of c [] = []"
  "gaps_of c ((s, r) # xs) = (case r of None \<Rightarrow> [] | Some reason \<Rightarrow> [(collector_source c s, reason)]) @ gaps_of c xs"
  by (simp_all add: gaps_of_def)

definition gap_reasons :: "string set" where
  "gap_reasons = {''identity_changed'', ''identity_unavailable'', ''log_unavailable'', ''log_incomplete''}"

lemma snapshotStream_accounts:
  assumes "snapshotStream fuel S L emit c s st = Some (st', None)"
  shows "\<exists>r. cn_gaps st' = cn_gaps st @ gaps_of c [(s, r)] \<and> (r = None \<longrightarrow> read_in_full fuel S L emit c s) \<and> (\<forall>x. r = Some x \<longrightarrow> x \<in> gap_reasons)"
proof -
  let ?src = "collector_source c s"
  have ctx: "cl_ctx L (cn_world st) = None" using assms by (auto simp: snapshotStream_def split: option.splits)
  obtain w1 v where v: "validateStream L c s (cn_world st) = (w1, v)" by fastforce
  show ?thesis
  proof (cases v)
    case (Some e)
    with assms ctx v show ?thesis
      by (intro exI [of _ "Some (identityGap e)"]) (auto simp: snapshotStream_def Let_def note_gap_def identityGap_def gap_reasons_def)
  next
    case None
    obtain w2 r where o: "cl_open L (pd_Namespace (st_pod s)) (pd_Name (st_pod s)) (snapshot_options c s) w1 = (w2, r)" by fastforce
    show ?thesis
    proof (cases r)
      case None
      with assms ctx v \<open>v = None\<close> o show ?thesis
        by (intro exI [of _ "Some ''log_unavailable''"]) (auto simp: snapshotStream_def Let_def note_gap_def gap_reasons_def)
    next
      case (Some r0)
      obtain o1 emitErr err where rd: "Read fuel S (cl_read L) (wrap_emit emit) (cl_reading L w2) ?src (kc_MaxBytes (co_Config c)) r0 (cn_sink st, None)
          = Some ((o1, emitErr), err)"
        using assms ctx v \<open>v = None\<close> o Some by (auto simp: snapshotStream_def Let_def split: option.splits)
      note run = assms [unfolded snapshotStream_def Let_def ctx option.case v \<open>v = None\<close> prod.case o Some rd]
      from run have e: "emitErr = None" by (auto split: if_splits)
      show ?thesis
      proof (cases err)
        case None
        with rd e v \<open>v = None\<close> o Some have "read_in_full fuel S L emit c s" unfolding read_in_full_def by blast
        with run e None show ?thesis by (intro exI [of _ None]) auto
      next
        case (Some x)
        with run e show ?thesis
          by (intro exI [of _ "Some ''log_incomplete''"]) (auto simp: note_gap_def gap_reasons_def)
      qed
    qed
  qed
qed

lemma snapshot_streams_account:
  "snapshot_streams fuel S L emit c ss st = Some (st', None) \<Longrightarrow>
    \<exists>xs. map fst xs = ss \<and> cn_gaps st' = cn_gaps st @ gaps_of c xs
      \<and> (\<forall>(s, r) \<in> set xs. (r = None \<longrightarrow> read_in_full fuel S L emit c s) \<and> (\<forall>x. r = Some x \<longrightarrow> x \<in> gap_reasons))"
proof (induction ss arbitrary: st)
  case Nil
  then show ?case by (intro exI [of _ "[]"]) simp
next
  case (Cons s ss)
  from Cons.prems obtain st1 where s: "snapshotStream fuel S L emit c s st = Some (st1, None)"
    and ss: "snapshot_streams fuel S L emit c ss st1 = Some (st', None)" by (auto split: option.splits)
  from snapshotStream_accounts [OF s] obtain r where r: "cn_gaps st1 = cn_gaps st @ gaps_of c [(s, r)]"
    "r = None \<longrightarrow> read_in_full fuel S L emit c s" "\<forall>x. r = Some x \<longrightarrow> x \<in> gap_reasons" by blast
  from Cons.IH [OF ss] obtain xs where xs: "map fst xs = ss" "cn_gaps st' = cn_gaps st1 @ gaps_of c xs"
    "\<forall>(s, r) \<in> set xs. (r = None \<longrightarrow> read_in_full fuel S L emit c s) \<and> (\<forall>x. r = Some x \<longrightarrow> x \<in> gap_reasons)" by blast
  with r show ?case by (intro exI [of _ "(s, r) # xs"]) simp
qed


definition sample_pod :: pod where
  "sample_pod = \<lparr>pd_Name = ''api-0'', pd_Namespace = ''prod'', pd_UID = ''u1'', pd_Running = True, pd_Deleted = False,
     pd_Containers = [\<lparr>cs_Name = ''app'', cs_RestartCount = 0, cs_ContainerID = ''c1'', cs_Running = True, cs_Terminated = None\<rparr>,
       \<lparr>cs_Name = ''new'', cs_RestartCount = 0, cs_ContainerID = [], cs_Running = False, cs_Terminated = None\<rparr>],
     pd_Init = [], pd_Ephemeral = []\<rparr>"

definition sample_cluster :: "(nat, unit) cluster" where
  "sample_cluster = \<lparr>cl_get = (\<lambda>_ _ w. (w + 1, Found sample_pod)), cl_list = (\<lambda>_ _ _ w. (w + 1, Some ([sample_pod], []))),
     cl_open = (\<lambda>_ _ _ w. (w + 1, Some ())), cl_read = (\<lambda>_ r. (r, [], Some EOF)), cl_ctx = (\<lambda>_. None),
     cl_reading = (\<lambda>_ _. None), cl_read_done = (\<lambda>w. w)\<rparr>"

definition sample_collector :: collector where
  "sample_collector = \<lparr>co_clusterID = ''k'', co_Config = \<lparr>kc_SnapshotWorkers = 1, kc_DiscoveryInterval = 0, kc_Context = [], kc_Namespace = ''prod'',
     kc_Selector = [], kc_Pod = [], kc_InCluster = False, kc_Follow = False, kc_NoPrevious = False, kc_Since = 60, kc_Tail = 10,
     kc_MaxBytes = 100, kc_MaxStreams = 4, kc_Duration = 0\<rparr>\<rparr>"

lemma sample_snapshot:
  "collector_Snapshot 2 sample_std sample_cluster (\<lambda>e o'. (o', None)) sample_collector \<lparr>cn_world = 0, cn_sink = (), cn_gaps = []\<rparr>
    = Some (\<lparr>cn_world = 4, cn_sink = (), cn_gaps = [(collector_source sample_collector
        \<lparr>st_pod = sample_pod, st_name = ''new'', st_kind = ''container'', st_previous = False, st_restart = 0, st_containerID = []\<rparr>, ''identity_changed'')]\<rparr>, None)"
  by (simp add: collector_Snapshot_def collector_list_def sample_cluster_def sample_collector_def streams_def status_streams_def sample_pod_def
      snapshotStream_def validateStream_def compare_stream_def same_slot_def identityGap_def note_gap_def Let_def Read_def numeral_2_eq_2
      Feed_end Finish_def NewParser_def emit_all_def Flush_def opt_list_def)


end
