(* ===== verification/Live.thy ===== *)
theory Live
  imports Cursor Collector
begin

text \<open>
  \<open>internal/kube/live.go\<close>, one stream: reading a live log with cancellation (\<open>readLiveObserved\<close>) and following it
  over reconnects (\<open>followStreamWithFinalizer\<close>).  Cancellation is asynchronous: the context is read off the state
  behind the sink, and the chunks the joined reader has read come as a list, each with whether the loop had
  noticed the cancellation before it took the chunk.
\<close>

section \<open>Admission\<close>

record 'o admission =
  ad_emit :: "event \<Rightarrow> 'o \<Rightarrow> 'o \<times> status"
  ad_finalize :: "event \<Rightarrow> 'o \<Rightarrow> 'o \<times> status"
  ad_ctx :: "'o \<Rightarrow> goerror option"

definition context_error :: "goerror \<Rightarrow> bool" where
  "context_error e = (e = Canceled \<or> e = DeadlineExceeded)"

definition live_deliver :: "'o admission \<Rightarrow> event \<Rightarrow> 'o \<Rightarrow> 'o \<times> status" where
  "live_deliver A e o' =
     (if ad_ctx A o' \<noteq> None then ad_finalize A e o'
      else case ad_emit A e o' of (o1, err) \<Rightarrow>
        (if ad_ctx A o1 \<noteq> None \<and> (\<exists>x. err = Some x \<and> context_error x) then ad_finalize A e o1 else (o1, err)))"

definition live_deliver_all :: "'o admission \<Rightarrow> event list \<Rightarrow> 'o \<Rightarrow> 'o \<times> status" where
  "live_deliver_all A es o' = range_err (\<lambda>o' e. live_deliver A e o') o' es"

definition finalize_all :: "'o admission \<Rightarrow> event list \<Rightarrow> 'o \<Rightarrow> 'o \<times> status" where
  "finalize_all A es o' = range_err (\<lambda>o' e. ad_finalize A e o') o' es"

section \<open>One connection\<close>

record ('s, 'o) live =
  lv_parser :: parser
  lv_accept :: 's
  lv_sink :: 'o
  lv_previews :: "event option list"

datatype live_end = ConsumerFailed goerror | StreamRead | ContextDone

type_synonym chunk = "bool \<times> string \<times> goerror option"

abbreviation chunk_data :: "chunk \<Rightarrow> string" where
  "chunk_data x \<equiv> fst (snd x)"

text \<open>\<open>finishReads\<close>: the chunks already read are fed and their events finalized.\<close>

fun finish_reads :: "std \<Rightarrow> 's accept \<Rightarrow> 'o admission \<Rightarrow> string list \<Rightarrow> ('s, 'o) live \<Rightarrow> ('s, 'o) live \<times> live_end" where
  "finish_reads S accept A [] v = (v, ContextDone)"
| "finish_reads S accept A (d # ds) v =
     (case Feed S accept d (lv_parser v) (lv_accept v) of
       (p1, s1, es) \<Rightarrow> (case finalize_all A es (lv_sink v) of
         (o1, Some err) \<Rightarrow> (v\<lparr>lv_parser := p1, lv_accept := s1, lv_sink := o1\<rparr>, ConsumerFailed err)
       | (o1, None) \<Rightarrow> finish_reads S accept A ds (v\<lparr>lv_parser := p1, lv_accept := s1, lv_sink := o1\<rparr>)))"

fun live_loop :: "std \<Rightarrow> 's accept \<Rightarrow> 'o admission \<Rightarrow> chunk list \<Rightarrow> ('s, 'o) live \<Rightarrow> ('s, 'o) live \<times> live_end" where
  "live_loop S accept A [] v = (v, ContextDone)"
| "live_loop S accept A ((seen, d, err) # xs) v =
     (if seen \<or> ad_ctx A (lv_sink v) \<noteq> None then finish_reads S accept A (d # map chunk_data xs) v
      else case Feed S accept d (lv_parser v) (lv_accept v) of
        (p1, s1, es) \<Rightarrow> (case live_deliver_all A es (lv_sink v) of
          (o1, Some e) \<Rightarrow> (v\<lparr>lv_parser := p1, lv_accept := s1, lv_sink := o1\<rparr>, ConsumerFailed e)
        | (o1, None) \<Rightarrow>
           (let v1 = v\<lparr>lv_parser := p1, lv_accept := s1, lv_sink := o1, lv_previews := lv_previews v @ [Preview S p1]\<rparr> in
            case err of
              None \<Rightarrow> live_loop S accept A xs v1
            | Some x \<Rightarrow>
               (case Finish S accept (x \<noteq> EOF \<or> ad_ctx A o1 \<noteq> None) p1 s1 of
                 (p2, s2, fs) \<Rightarrow> (case live_deliver_all A fs o1 of
                   (o2, Some e) \<Rightarrow> (v1\<lparr>lv_parser := p2, lv_accept := s2, lv_sink := o2\<rparr>, ConsumerFailed e)
                 | (o2, None) \<Rightarrow> (v1\<lparr>lv_parser := p2, lv_accept := s2, lv_sink := o2\<rparr>, StreamRead))))))"

text \<open>\<open>defer pending(nil)\<close>: the last preview is always the empty one.\<close>

definition readLive :: "std \<Rightarrow> 's accept \<Rightarrow> 'o admission \<Rightarrow> chunk list \<Rightarrow> ('s, 'o) live \<Rightarrow> ('s, 'o) live \<times> live_end" where
  "readLive S accept A xs v = (case live_loop S accept A xs v of (v1, e) \<Rightarrow> (v1\<lparr>lv_previews := lv_previews v1 @ [None]\<rparr>, e))"

section \<open>Following a stream\<close>

text \<open>
  One round of the loop: where the context is seen done (at its start, after the validation, after the read,
  in the wait for the next round), the outcome of the validation and the chunks of the connection, if it opened.
\<close>

record follow_round =
  fr_stop_start :: bool
  fr_identity :: "identity_error option"
  fr_stop_open :: bool
  fr_chunks :: "chunk list option"
  fr_stop_read :: bool
  fr_stop_wait :: bool

datatype follow_end = FollowFailed goerror | FollowCtx | FollowGone

record 'o following =
  fo_live :: "(cursor, 'o) live"
  fo_gaps :: "string list"
  fo_opened :: "log_options list"
  fo_waits :: "int list"

definition ms :: int where
  "ms = 1000000"

definition next_delay :: "int \<Rightarrow> int" where
  "next_delay d = min (2 * d) (5 * second)"

definition live_options :: "kube_config \<Rightarrow> log_stream \<Rightarrow> cursor \<Rightarrow> log_options" where
  "live_options cfg s c = (case cu_last c of
     None \<Rightarrow> \<lparr>lo_Container = st_name s, lo_Previous = False, lo_Follow = True, lo_SinceSeconds = Some (kc_Since cfg),
       lo_SinceTime = None, lo_TailLines = Some (kc_Tail cfg)\<rparr>
   | Some t \<Rightarrow> \<lparr>lo_Container = st_name s, lo_Previous = False, lo_Follow = True, lo_SinceSeconds = None,
       lo_SinceTime = Some t, lo_TailLines = None\<rparr>)"

definition live_read_round :: "std \<Rightarrow> 'o admission \<Rightarrow> chunk list option \<Rightarrow> (cursor, 'o) live \<Rightarrow> (cursor, 'o) live \<times> live_end" where
  "live_read_round S A chunks v = (case chunks of None \<Rightarrow> (v, StreamRead) | Some xs \<Rightarrow> readLive S (Some cursor_accept) A xs v)"

fun follow_rounds :: "std \<Rightarrow> 'o admission \<Rightarrow> kube_config \<Rightarrow> log_stream \<Rightarrow> int \<Rightarrow> follow_round list \<Rightarrow> 'o following \<Rightarrow> ('o following \<times> follow_end) option" where
  "follow_rounds S A cfg s delay [] f = None"
| "follow_rounds S A cfg s delay (a # as) f =
     (if fr_stop_start a then Some (f, FollowCtx)
      else
        let opts = live_options cfg s (lv_accept (fo_live f));
            f1 = f\<lparr>fo_live := (fo_live f)\<lparr>lv_accept := open_connection (lv_accept (fo_live f))\<rparr>\<rparr> in
        case fr_identity a of
          Some e \<Rightarrow>
            (let f2 = f1\<lparr>fo_gaps := fo_gaps f1 @ [identityGap e]\<rparr> in
             if e = IdentityChanged then Some (f2, FollowGone)
             else if fr_stop_wait a then Some (f2\<lparr>fo_waits := fo_waits f2 @ [delay]\<rparr>, FollowCtx)
             else follow_rounds S A cfg s (next_delay delay) as (f2\<lparr>fo_waits := fo_waits f2 @ [delay]\<rparr>))
        | None \<Rightarrow>
            (if fr_stop_open a then Some (f1, FollowCtx)
             else case live_read_round S A (fr_chunks a) (fo_live f1) of
               (v, fin) \<Rightarrow>
                (let f2 = f1\<lparr>fo_live := v, fo_opened := fo_opened f1 @ [opts]\<rparr> in
                 case fin of
                   ConsumerFailed e \<Rightarrow> Some (f2, FollowFailed e)
                 | ContextDone \<Rightarrow> Some (f2, FollowCtx)
                 | StreamRead \<Rightarrow>
                    (if fr_stop_read a then Some (f2, FollowCtx)
                     else let f3 = f2\<lparr>fo_gaps := fo_gaps f2 @ [''stream_reconnect''], fo_waits := fo_waits f2 @ [second]\<rparr> in
                       if fr_stop_wait a then Some (f3, FollowCtx) else follow_rounds S A cfg s (100 * ms) as f3))))"

text \<open>The deferred end: after a cancellation the open event is finished and finalized.\<close>

definition follow_deferred :: "std \<Rightarrow> 'o admission \<Rightarrow> 'o following \<times> follow_end \<Rightarrow> 'o following \<times> follow_end" where
  "follow_deferred S A x = (case x of (f, fin) \<Rightarrow>
     if fin = FollowCtx \<or> ad_ctx A (lv_sink (fo_live f)) \<noteq> None then
       (case Finish S (Some cursor_accept) True (lv_parser (fo_live f)) (lv_accept (fo_live f)) of
         (p, c, es) \<Rightarrow> (case finalize_all A es (lv_sink (fo_live f)) of
           (o1, err) \<Rightarrow> (f\<lparr>fo_live := (fo_live f)\<lparr>lv_parser := p, lv_accept := c, lv_sink := o1\<rparr>\<rparr>,
             case err of None \<Rightarrow> fin | Some e \<Rightarrow> FollowFailed e)))
     else (f, fin))"

definition followStream :: "std \<Rightarrow> 'o admission \<Rightarrow> collector \<Rightarrow> log_stream \<Rightarrow> follow_round list \<Rightarrow> 'o \<Rightarrow> ('o following \<times> follow_end) option" where
  "followStream S A c s rounds o' =
     map_option (follow_deferred S A)
       (follow_rounds S A (co_Config c) s (100 * ms) rounds
         \<lparr>fo_live = \<lparr>lv_parser = NewParser S (collector_source c s), lv_accept = newCursor, lv_sink = o', lv_previews = []\<rparr>,
          fo_gaps = [], fo_opened = [], fo_waits = []\<rparr>)"

section \<open>Nothing read is lost\<close>

text \<open>A sink that remembers what it admitted: an accepted event is appended, a refused one is not.\<close>

definition records :: "'o admission \<Rightarrow> ('o \<Rightarrow> event list) \<Rightarrow> bool" where
  "records A lg = (\<forall>e o1 o2 err. ad_emit A e o1 = (o2, err) \<or> ad_finalize A e o1 = (o2, err) \<longrightarrow>
     lg o2 = (if err = None then lg o1 @ [e] else lg o1))"

lemma records_emit: "records A lg \<Longrightarrow> ad_emit A e o1 = (o2, err) \<Longrightarrow> lg o2 = (if err = None then lg o1 @ [e] else lg o1)"
  and records_finalize: "records A lg \<Longrightarrow> ad_finalize A e o1 = (o2, err) \<Longrightarrow> lg o2 = (if err = None then lg o1 @ [e] else lg o1)"
  unfolding records_def by blast+

lemma live_deliver_records:
  assumes "records A lg" and "live_deliver A e o1 = (o2, None)"
  shows "lg o2 = lg o1 @ [e]"
proof (cases "ad_ctx A o1 = None")
  case True
  obtain o3 err where em: "ad_emit A e o1 = (o3, err)" by fastforce
  note lg = records_emit [OF assms(1) em]
  note run = assms(2) [unfolded live_deliver_def em prod.case]
  show ?thesis
  proof (cases err)
    case None
    with run lg True show ?thesis by simp
  next
    case (Some x)
    with run True have "ad_finalize A e o3 = (o2, None)" by (simp split: if_splits)
    with records_finalize [OF assms(1) this] lg Some show ?thesis by simp
  qed
next
  case False
  with assms(2) have "ad_finalize A e o1 = (o2, None)" by (simp add: live_deliver_def)
  with records_finalize [OF assms(1) this] show ?thesis by simp
qed

lemma range_err_records:
  assumes "\<And>o1 e o2. f o1 e = (o2, None) \<Longrightarrow> lg o2 = lg o1 @ [e]"
  shows "range_err f o1 es = (o2, None) \<Longrightarrow> lg o2 = lg o1 @ es"
proof (induction es arbitrary: o1)
  case Nil
  then show ?case by simp
next
  case (Cons e es)
  then obtain o3 where o3: "f o1 e = (o3, None)" "range_err f o3 es = (o2, None)"
    by (auto split: prod.splits option.splits)
  from assms [OF o3(1)] Cons.IH [OF o3(2)] show ?case by simp
qed

lemma deliver_all_records: "records A lg \<Longrightarrow> live_deliver_all A es o1 = (o2, None) \<Longrightarrow> lg o2 = lg o1 @ es"
  unfolding live_deliver_all_def by (erule range_err_records [where lg = lg, rotated]) (rule live_deliver_records)

lemma finalize_all_records: "records A lg \<Longrightarrow> finalize_all A es o1 = (o2, None) \<Longrightarrow> lg o2 = lg o1 @ es"
  unfolding finalize_all_def by (erule range_err_records [where lg = lg, rotated]) (simp add: records_finalize)

lemma finish_reads_feeds:
  assumes "records A lg" and "finish_reads S accept A ds v = (v', fin)" and "\<forall>e. fin \<noteq> ConsumerFailed e"
    and "feeds S accept ds (lv_parser v) (lv_accept v) = (p, s, es)"
  shows "fin = ContextDone \<and> lv_parser v' = p \<and> lv_accept v' = s \<and> lg (lv_sink v') = lg (lv_sink v) @ es"
  using assms(2-)
proof (induction ds arbitrary: v es)
  case Nil
  then show ?case by auto
next
  case (Cons d ds)
  obtain p1 s1 fs where f: "Feed S accept d (lv_parser v) (lv_accept v) = (p1, s1, fs)" by (metis prod_cases3)
  obtain p2 s2 gs where g: "feeds S accept ds p1 s1 = (p2, s2, gs)" by (metis prod_cases3)
  obtain o1 err where e: "finalize_all A fs (lv_sink v) = (o1, err)" by fastforce
  show ?case
  proof (cases err)
    case None
    have "lg o1 = lg (lv_sink v) @ fs"
      using e None by (intro finalize_all_records [OF assms(1)]) simp
    with Cons.IH [of "v\<lparr>lv_parser := p1, lv_accept := s1, lv_sink := o1\<rparr>" gs] Cons.prems f g e None show ?thesis by auto
  next
    case (Some x)
    with Cons.prems(1,2) f e show ?thesis by auto
  qed
qed

definition script_ok :: "chunk list \<Rightarrow> bool" where
  "script_ok xs = (\<forall>x \<in> set (butlast xs). snd (snd x) = None)"

text \<open>
  C26: cancelling a live stream loses nothing that was read: unless the consumer itself fails, the events admitted
  are exactly those of feeding every chunk read, in order, whether the loop or the final drain took it; the
  pending event is finished exactly when the connection ended by itself and is otherwise still in the parser.
\<close>

theorem live_read_no_loss:
  assumes "records A lg" and "script_ok xs" and "readLive S accept A xs v = (v', fin)" and "\<forall>e. fin \<noteq> ConsumerFailed e"
    and "feeds S accept (map chunk_data xs) (lv_parser v) (lv_accept v) = (p, s, es)"
  shows "(fin = ContextDone \<longrightarrow> lv_parser v' = p \<and> lv_accept v' = s \<and> lg (lv_sink v') = lg (lv_sink v) @ es)
    \<and> (fin = StreamRead \<longrightarrow> (\<exists>part fs. Finish S accept part p s = (lv_parser v', lv_accept v', fs) \<and> lg (lv_sink v') = lg (lv_sink v) @ es @ fs))"
proof -
  have main: "live_loop S accept A xs v = (w, fin) \<Longrightarrow> script_ok xs \<Longrightarrow> feeds S accept (map chunk_data xs) (lv_parser v) (lv_accept v) = (p, s, es) \<Longrightarrow>
      (fin = ContextDone \<longrightarrow> lv_parser w = p \<and> lv_accept w = s \<and> lg (lv_sink w) = lg (lv_sink v) @ es)
      \<and> (fin = StreamRead \<longrightarrow> (\<exists>part fs. Finish S accept part p s = (lv_parser w, lv_accept w, fs) \<and> lg (lv_sink w) = lg (lv_sink v) @ es @ fs))"
    for w v es
  proof (induction xs arbitrary: v es)
    case Nil
    then show ?case by auto
  next
    case (Cons x xs)
    obtain seen d err where x: "x = (seen, d, err)" by (metis prod_cases3)
    show ?case
    proof (cases "seen \<or> ad_ctx A (lv_sink v) \<noteq> None")
      case True
      with Cons.prems x finish_reads_feeds [OF assms(1) _ assms(4), of S accept "map chunk_data (x # xs)" v w p s es] show ?thesis by auto
    next
      case False
      obtain p1 s1 fs where f: "Feed S accept d (lv_parser v) (lv_accept v) = (p1, s1, fs)" by (metis prod_cases3)
      obtain p2 s2 gs where g: "feeds S accept (map chunk_data xs) p1 s1 = (p2, s2, gs)" by (metis prod_cases3)
      obtain o1 r where e: "live_deliver_all A fs (lv_sink v) = (o1, r)" by fastforce
      note run = Cons.prems(1) [unfolded x live_loop.simps Let_def if_not_P [OF False] f e prod.case]
      from run assms(4) have r: "r = None" by (cases r) auto
      with e have lg1: "lg o1 = lg (lv_sink v) @ fs" by (intro deliver_all_records [OF assms(1)]) simp
      from Cons.prems(3) f g x have pse: "p = p2" "s = s2" "es = fs @ gs" by auto
      let ?v1 = "v\<lparr>lv_parser := p1, lv_accept := s1, lv_sink := o1, lv_previews := lv_previews v @ [Preview S p1]\<rparr>"
      show ?thesis
      proof (cases err)
        case None
        have "script_ok xs" using Cons.prems(2) by (cases xs) (auto simp: script_ok_def)
        with Cons.IH [of ?v1 gs] run r None g lg1 pse show ?thesis by auto
      next
        case (Some y)
        then have xs: "xs = []" using Cons.prems(2) x by (cases xs) (auto simp: script_ok_def)
        with g have g': "gs = []" "p2 = p1" "s2 = s1" by auto
        obtain p3 s3 hs where h: "Finish S accept (y \<noteq> EOF \<or> ad_ctx A o1 \<noteq> None) p1 s1 = (p3, s3, hs)" by (metis prod_cases3)
        obtain o2 q where q: "live_deliver_all A hs o1 = (o2, q)" by fastforce
        from run r Some h q assms(4) have "q = None" and w: "w = ?v1\<lparr>lv_parser := p3, lv_accept := s3, lv_sink := o2\<rparr>" "fin = StreamRead"
          by (cases q; auto)+
        with q have "lg o2 = lg o1 @ hs" by (intro deliver_all_records [OF assms(1)]) simp
        with h w g' pse lg1 show ?thesis by auto
      qed
    qed
  qed
  obtain w where w: "live_loop S accept A xs v = (w, fin)" "v' = w\<lparr>lv_previews := lv_previews w @ [None]\<rparr>"
    using assms(3) by (auto simp: readLive_def split: prod.splits)
  from main [OF w(1) assms(2,5)] w(2) show ?thesis by simp
qed

definition sample_admission :: "event list admission" where
  "sample_admission = \<lparr>ad_emit = (\<lambda>e o'. (o' @ [e], None)), ad_finalize = (\<lambda>e o'. (o' @ [e], None)), ad_ctx = (\<lambda>_. None)\<rparr>"

lemma sample_finalize_all: "finalize_all sample_admission es o' = (o' @ es, None)"
  by (induction es arbitrary: o') (simp_all add: finalize_all_def sample_admission_def)

theorem live_read_no_loss_witness:
  "\<exists>v' p s es. readLive sample_std (Some cursor_accept) sample_admission [(True, ''boom'' @ [CHR 0x0A], None)]
      \<lparr>lv_parser = NewParser sample_std sample_source, lv_accept = newCursor, lv_sink = [], lv_previews = []\<rparr> = (v', ContextDone)
    \<and> feeds sample_std (Some cursor_accept) [''boom'' @ [CHR 0x0A]] (NewParser sample_std sample_source) newCursor = (p, s, es) \<and> lv_sink v' = es"
proof -
  let ?xs = "[(True, ''boom'' @ [CHR 0x0A], None)] :: chunk list"
    and ?v = "\<lparr>lv_parser = NewParser sample_std sample_source, lv_accept = newCursor, lv_sink = [] :: event list, lv_previews = []\<rparr>"
  obtain p1 s1 es1 where f: "Feed sample_std (Some cursor_accept) (''boom'' @ [CHR 0x0A]) (NewParser sample_std sample_source) newCursor = (p1, s1, es1)"
    by (metis prod_cases3)
  obtain v' where run: "readLive sample_std (Some cursor_accept) sample_admission ?xs ?v = (v', ContextDone)"
    using f by (simp add: readLive_def sample_finalize_all)
  obtain p s es where fs: "feeds sample_std (Some cursor_accept) (map chunk_data ?xs) (lv_parser ?v) (lv_accept ?v) = (p, s, es)" by (metis prod_cases3)
  have "records sample_admission (\<lambda>o'. o')" by (auto simp: records_def sample_admission_def)
  moreover have "script_ok ?xs" by (simp add: script_ok_def)
  ultimately have "lv_sink v' = es" using live_read_no_loss [OF _ _ run _ fs, of "\<lambda>o'. o'"] by simp
  with run fs show ?thesis by auto
qed

section \<open>The pace of reconnects\<close>

lemma next_delay_range: "100 * ms \<le> d \<Longrightarrow> d \<le> 5 * second \<Longrightarrow> 100 * ms \<le> next_delay d \<and> next_delay d \<le> 5 * second"
  by (simp add: next_delay_def ms_def second_def)

text \<open>Between two attempts the follower always waits, at least 100 milliseconds and at most five seconds.\<close>

lemma follow_rounds_waits:
  "follow_rounds S A cfg s delay rounds f = Some (f', fin) \<Longrightarrow> 100 * ms \<le> delay \<Longrightarrow> delay \<le> 5 * second \<Longrightarrow>
    \<forall>d \<in> set (fo_waits f). 100 * ms \<le> d \<and> d \<le> 5 * second \<Longrightarrow>
    \<forall>d \<in> set (fo_waits f'). 100 * ms \<le> d \<and> d \<le> 5 * second"
proof (induction rounds arbitrary: delay f)
  case Nil
  then show ?case by simp
next
  case (Cons a rounds)
  let ?f1 = "f\<lparr>fo_live := (fo_live f)\<lparr>lv_accept := open_connection (lv_accept (fo_live f))\<rparr>\<rparr>"
  have range: "100 * ms \<le> second" "second \<le> 5 * second" "100 * ms \<le> 5 * second" by (simp_all add: ms_def second_def)
  show ?case
  proof (cases "fr_stop_start a")
    case True
    with Cons.prems show ?thesis by auto
  next
    case go: False
    show ?thesis
    proof (cases "fr_identity a")
      case (Some e)
      let ?f2 = "?f1\<lparr>fo_gaps := fo_gaps ?f1 @ [identityGap e], fo_waits := fo_waits ?f1 @ [delay]\<rparr>"
      from Cons.IH [of "next_delay delay" ?f2] Cons.prems go Some next_delay_range [of delay] show ?thesis
        by (auto simp: Let_def split: if_splits)
    next
      case None
      obtain v fin1 where v: "live_read_round S A (fr_chunks a) (fo_live ?f1) = (v, fin1)" by fastforce
      show ?thesis
      proof (cases "fr_stop_open a \<or> fin1 \<noteq> StreamRead")
        case True
        with Cons.prems go None v show ?thesis by (cases fin1) (auto simp: Let_def split: if_splits)
      next
        case False
        let ?f3 = "?f1\<lparr>fo_live := v, fo_opened := fo_opened ?f1 @ [live_options cfg s (lv_accept (fo_live f))],
          fo_gaps := fo_gaps ?f1 @ [''stream_reconnect''], fo_waits := fo_waits ?f1 @ [second]\<rparr>"
        from Cons.IH [of "100 * ms" ?f3] Cons.prems go None v False range show ?thesis
          by (auto simp: Let_def split: if_splits)
      qed
    qed
  qed
qed

end
