(* ===== verification/Follow.thy ===== *)
theory Follow
  imports Collector "HOL-Library.Multiset"
begin

text \<open>
  \<open>internal/kube/live.go\<close>, all streams: \<open>follow\<close> discovers streams on every tick, keeps at most \<open>MaxStreams\<close>
  readers, frees a slot only when its reader has joined, and on cancellation returns after all readers.  The
  readers, the ticker and the caller run concurrently, so the program is a step relation; one reader's own
  life is \<open>Live.followStream\<close>.
\<close>

datatype phase = Looping | Leaving goerror | Returned goerror

record discovery =
  dy_active :: "(string, bool) gomap"
  dy_running :: "string list"
  dy_done :: "string list"
  dy_fatal :: "goerror option"
  dy_ctx :: "goerror option"
  dy_omitted :: nat
  dy_gaps :: "(source \<times> string) list"
  dy_stats :: "(nat \<times> nat) list"
  dy_phase :: phase

text \<open>The value of an active stream: its \<open>stop\<close> was called.\<close>

definition stream_id :: "std \<Rightarrow> collector \<Rightarrow> log_stream \<Rightarrow> string" where
  "stream_id S c s = Hash S (JObj (collector_source c s))"

definition max_streams :: "collector \<Rightarrow> nat" where
  "max_streams c = nat (kc_MaxStreams (co_Config c))"

definition publish_stats :: "discovery \<Rightarrow> discovery" where
  "publish_stats d = d\<lparr>dy_stats := dy_stats d @ [(length (dy_active d), dy_omitted d)]\<rparr>"

section \<open>Discovery\<close>

definition offer_stream :: "std \<Rightarrow> collector \<Rightarrow> discovery \<Rightarrow> log_stream \<Rightarrow> discovery" where
  "offer_stream S c d s =
     (let i = stream_id S c s in
      if mhas (dy_active d) i then d
      else if max_streams c \<le> length (dy_active d) then
        d\<lparr>dy_omitted := dy_omitted d + 1, dy_gaps := dy_gaps d @ [(collector_source c s, ''stream_capacity'')]\<rparr>
      else d\<lparr>dy_active := mput i False (dy_active d), dy_running := dy_running d @ [i]\<rparr>)"

definition stop_absent :: "collector \<Rightarrow> string list \<Rightarrow> discovery \<Rightarrow> discovery" where
  "stop_absent c present d = d\<lparr>
     dy_active := map (\<lambda>(i, stopped). (i, stopped \<or> i \<notin> set present)) (dy_active d),
     dy_gaps := dy_gaps d @ map (\<lambda>_. (discoverySource c, ''stream_removed'')) (filter (\<lambda>(i, _). i \<notin> set present) (dy_active d))\<rparr>"

definition live_streams :: "pod list \<Rightarrow> log_stream list" where
  "live_streams pods = concat (map (\<lambda>p. streams p False True) pods)"

definition discover :: "std \<Rightarrow> collector \<Rightarrow> pod list \<Rightarrow> discovery \<Rightarrow> discovery" where
  "discover S c pods d =
     publish_stats (stop_absent c (map (stream_id S c) (live_streams pods))
       (foldl (offer_stream S c) (d\<lparr>dy_omitted := 0\<rparr>) (live_streams pods)))"

definition discovery_start :: discovery where
  "discovery_start = \<lparr>dy_active = [], dy_running = [], dy_done = [], dy_fatal = None, dy_ctx = None, dy_omitted = 0,
     dy_gaps = [], dy_stats = [], dy_phase = Looping\<rparr>"

section \<open>Steps\<close>

text \<open>A reader ends with an error or without; an error of a reader nobody stopped is fatal and cancels all.\<close>

definition end_reader :: "string \<Rightarrow> goerror option \<Rightarrow> discovery \<Rightarrow> discovery" where
  "end_reader i err d =
     (let d1 = d\<lparr>dy_running := remove1 i (dy_running d)\<rparr> in
      if err \<noteq> None \<and> mget (dy_active d) i \<noteq> Some True \<and> dy_ctx d = None then
        d1\<lparr>dy_fatal := (if dy_fatal d = None then err else dy_fatal d), dy_ctx := Some Canceled\<rparr>
      else d1)"

definition returned_error :: "discovery \<Rightarrow> goerror" where
  "returned_error d = (case dy_fatal d of Some e \<Rightarrow> e | None \<Rightarrow> (case dy_ctx d of Some e \<Rightarrow> e | None \<Rightarrow> Canceled))"

inductive follow_step :: "std \<Rightarrow> collector \<Rightarrow> discovery \<Rightarrow> discovery \<Rightarrow> bool" for S c where
  tick: "dy_phase d = Looping \<Longrightarrow> follow_step S c d (discover S c pods d)"
| tick_failed: "dy_phase d = Looping \<Longrightarrow>
    follow_step S c d (d\<lparr>dy_gaps := dy_gaps d @ [(discoverySource c, ''discovery_unavailable'')]\<rparr>)"
| collect: "dy_phase d = Looping \<Longrightarrow> dy_done d = i # rest \<Longrightarrow>
    follow_step S c d (publish_stats (d\<lparr>dy_active := mdel i (dy_active d), dy_done := rest\<rparr>))"
| reader_sends: "\<forall>e. dy_phase d \<noteq> Returned e \<Longrightarrow> i \<in> set (dy_running d) \<Longrightarrow> length (dy_done d) < max_streams c \<Longrightarrow>
    follow_step S c d ((end_reader i err d)\<lparr>dy_done := dy_done d @ [i]\<rparr>)"
| reader_leaves: "\<forall>e. dy_phase d \<noteq> Returned e \<Longrightarrow> i \<in> set (dy_running d) \<Longrightarrow> dy_ctx (end_reader i err d) \<noteq> None \<Longrightarrow>
    follow_step S c d (end_reader i err d)"
| cancelled: "dy_ctx d = None \<Longrightarrow> follow_step S c d (d\<lparr>dy_ctx := Some e\<rparr>)"
| leave: "dy_phase d = Looping \<Longrightarrow> dy_ctx d \<noteq> None \<Longrightarrow>
    follow_step S c d (d\<lparr>dy_phase := Leaving (returned_error d), dy_stats := dy_stats d @ [(0, 0)]\<rparr>)"
| joined: "dy_phase d = Leaving e \<Longrightarrow> dy_running d = [] \<Longrightarrow> follow_step S c d (d\<lparr>dy_phase := Returned e\<rparr>)"

inductive_cases leaving_step: "follow_step S c d d'"

text \<open>The states \<open>follow\<close> reaches from the first successful discovery.\<close>

inductive follow_reachable :: "std \<Rightarrow> collector \<Rightarrow> discovery \<Rightarrow> bool" for S c where
  start: "follow_reachable S c (discover S c pods discovery_start)"
| step: "follow_reachable S c d \<Longrightarrow> follow_step S c d d' \<Longrightarrow> follow_reachable S c d'"

section \<open>The invariant\<close>

definition readers_ok :: "collector \<Rightarrow> discovery \<Rightarrow> bool" where
  "readers_ok c d = (wf_map (dy_active d) \<and> length (dy_active d) \<le> max_streams c
     \<and> mset (dy_running d) + mset (dy_done d) \<subseteq># mset (map fst (dy_active d))
     \<and> (dy_ctx d = None \<longrightarrow> mset (dy_running d) + mset (dy_done d) = mset (map fst (dy_active d)))
     \<and> (dy_phase d \<noteq> Looping \<longrightarrow> dy_ctx d \<noteq> None))"

lemma mset_keys_mdel: "wf_map m \<Longrightarrow> i \<in> fst ` set m \<Longrightarrow> add_mset i (mset (map fst (mdel i m))) = mset (map fst m)"
  by (simp add: AList.delete_keys distinct_remove1_removeAll [symmetric] del: mset_map)

lemma offer_stream_ok: "readers_ok c d \<Longrightarrow> readers_ok c (offer_stream S c d s)"
  by (auto simp: readers_ok_def offer_stream_def Let_def mhas_iff mput_new)

lemma offer_streams_ok: "readers_ok c d \<Longrightarrow> readers_ok c (foldl (offer_stream S c) d ss)"
  by (induction ss arbitrary: d) (simp_all add: offer_stream_ok)

lemma stop_absent_keys: "map fst (dy_active (stop_absent c present d)) = map fst (dy_active d)"
  by (simp add: stop_absent_def case_prod_beta comp_def)

lemma stop_absent_ok: "readers_ok c (stop_absent c present d) = readers_ok c d"
proof -
  have "length (dy_active (stop_absent c present d)) = length (dy_active d)" by (simp add: stop_absent_def)
  then show ?thesis unfolding readers_ok_def stop_absent_keys by (simp add: stop_absent_def)
qed

lemma publish_stats_ok: "readers_ok c (publish_stats d) = readers_ok c d"
  by (simp add: readers_ok_def publish_stats_def)

lemma discover_ok: "readers_ok c d \<Longrightarrow> readers_ok c (discover S c pods d)"
  unfolding discover_def publish_stats_ok stop_absent_ok by (rule offer_streams_ok) (simp add: readers_ok_def)

lemma end_reader_fields [simp]:
  "dy_active (end_reader i err d) = dy_active d" "dy_running (end_reader i err d) = remove1 i (dy_running d)"
  "dy_done (end_reader i err d) = dy_done d" "dy_phase (end_reader i err d) = dy_phase d"
  by (simp_all add: end_reader_def Let_def)

lemma end_reader_ctx: "dy_ctx (end_reader i err d) = None \<Longrightarrow> dy_ctx d = None" "dy_ctx d = Some e \<Longrightarrow> dy_ctx (end_reader i err d) = Some e"
  by (auto simp: end_reader_def Let_def split: if_splits)

lemma add_mset_subD: "add_mset i A \<subseteq># B \<Longrightarrow> A \<subseteq># B"
  by (metis add_mset_add_single mset_subset_eq_add_left subset_mset.order_trans)

lemma distinct_submset:
  assumes "mset xs \<subseteq># mset ys" and "distinct ys"
  shows "distinct xs"
  unfolding distinct_count_atmost_1
proof
  fix a
  have "count (mset xs) a \<le> count (mset ys) a" using assms(1) by (simp add: subseteq_mset_def)
  also have "\<dots> \<le> 1" using assms(2) by (simp add: distinct_count_atmost_1)
  finally have le: "count (mset xs) a \<le> 1" .
  show "count (mset xs) a = (if a \<in> set xs then 1 else 0)"
  proof (cases "a \<in> set xs")
    case True
    then have "0 < count (mset xs) a" by simp
    with le have "count (mset xs) a = 1" by linarith
    with True show ?thesis by simp
  next
    case False
    then show ?thesis by (simp add: count_mset_0_iff)
  qed
qed

lemma follow_step_ok:
  assumes "follow_step S c d d'" and "readers_ok c d"
  shows "readers_ok c d'"
  using assms
proof cases
  case (tick pods)
  with assms(2) show ?thesis by (simp add: discover_ok)
next
  case (collect i rest)
  have "i \<in># mset (map fst (dy_active d))"
    by (rule mset_subset_eqD [of "mset (dy_running d) + mset (dy_done d)"]) (use assms(2) collect(3) in \<open>simp_all add: readers_ok_def\<close>)
  then have "i \<in> fst ` set (dy_active d)" by simp
  with assms(2) have keys: "mset (map fst (dy_active d)) = add_mset i (mset (map fst (mdel i (dy_active d))))"
    by (simp add: mset_keys_mdel readers_ok_def del: mset_map)
  have "length (mdel i (dy_active d)) \<le> max_streams c"
    using assms(2) length_mdel_le [of i "dy_active d"] by (simp add: readers_ok_def)
  with assms(2) collect(2,3) show ?thesis
    unfolding collect(1) readers_ok_def keys by (auto simp: publish_stats_def simp del: mset_map)
next
  case (reader_sends i err)
  then have run: "mset (dy_running d) = add_mset i (mset (remove1 i (dy_running d)))" by simp
  from assms(2) reader_sends show ?thesis
    unfolding readers_ok_def by (auto simp: run end_reader_ctx(2) simp del: mset_remove1 dest: end_reader_ctx(1))
next
  case (reader_leaves i err)
  have run: "mset (dy_running d) = add_mset i (mset (remove1 i (dy_running d)))" using reader_leaves(3) by simp
  have "mset (dy_running d) + mset (dy_done d) \<subseteq># mset (map fst (dy_active d))" using assms(2) by (simp add: readers_ok_def)
  then have "add_mset i (mset (remove1 i (dy_running d)) + mset (dy_done d)) \<subseteq># mset (map fst (dy_active d))"
    unfolding run by (simp only: union_mset_add_mset_left)
  then have sub: "mset (remove1 i (dy_running d)) + mset (dy_done d) \<subseteq># mset (map fst (dy_active d))" by (rule add_mset_subD)
  obtain e where "dy_ctx (end_reader i err d) = Some e" using reader_leaves(4) by blast
  with sub assms(2) show ?thesis unfolding reader_leaves(1) readers_ok_def by simp
qed (use assms(2) in \<open>auto simp: readers_ok_def\<close>)

lemma reachable_ok: "follow_reachable S c d \<Longrightarrow> readers_ok c d"
proof (induction rule: follow_reachable.induct)
  case (start pods)
  have "readers_ok c discovery_start" by (simp add: readers_ok_def discovery_start_def)
  then show ?case by (rule discover_ok)
next
  case (step d d')
  then show ?case by (blast intro: follow_step_ok)
qed

text \<open>
  C25: following a cluster stays within its bounds: in every state the discovery and its readers can reach there
  are at most \<open>MaxStreams\<close> slots, every running reader and every finished one not yet collected owns a slot of
  its own, so no stream is ever read twice at a time and no slot is freed before its reader has joined; and
  a reader that ends always finds room to report it, so no reader blocks on the channel.
\<close>

theorem follow_bounded:
  assumes "follow_reachable S c d"
  shows "length (dy_active d) \<le> max_streams c \<and> distinct (dy_running d @ dy_done d)
    \<and> set (dy_running d @ dy_done d) \<subseteq> fst ` set (dy_active d)
    \<and> (dy_ctx d = None \<longrightarrow> set (dy_running d @ dy_done d) = fst ` set (dy_active d))
    \<and> (dy_running d \<noteq> [] \<longrightarrow> length (dy_done d) < max_streams c)"
proof -
  from reachable_ok [OF assms] have wf: "wf_map (dy_active d)" and le: "length (dy_active d) \<le> max_streams c"
    and sub: "mset (dy_running d @ dy_done d) \<subseteq># mset (map fst (dy_active d))"
    and eq: "dy_ctx d = None \<longrightarrow> mset (dy_running d @ dy_done d) = mset (map fst (dy_active d))"
    by (simp_all add: readers_ok_def)
  have "distinct (dy_running d @ dy_done d)" using distinct_submset [OF sub] wf by blast
  moreover have "set (dy_running d @ dy_done d) \<subseteq> set (map fst (dy_active d))" using set_mset_mono [OF sub] unfolding set_mset_mset .
  moreover have "dy_ctx d = None \<longrightarrow> set (dy_running d @ dy_done d) = set (map fst (dy_active d))" using eq by (metis mset_eq_setD)
  moreover have "length (dy_running d) + length (dy_done d) \<le> max_streams c" using size_mset_mono [OF sub] le by simp
  ultimately show ?thesis using le by (cases "dy_running d") auto
qed

theorem follow_bounded_witness:
  "length (dy_active (discover sample_std sample_collector [sample_pod] discovery_start)) \<le> 4
    \<and> distinct (dy_running (discover sample_std sample_collector [sample_pod] discovery_start) @ dy_done (discover sample_std sample_collector [sample_pod] discovery_start))"
  using follow_bounded [OF follow_reachable.start, of sample_std sample_collector "[sample_pod]"]
  by (simp add: max_streams_def sample_collector_def)

section \<open>No stream is forgotten\<close>

lemma offer_streams_cover:
  "\<exists>skipped. set skipped \<subseteq> set ss \<and> (\<forall>s \<in> set ss. mhas (dy_active (foldl (offer_stream S c) d ss)) (stream_id S c s) \<or> s \<in> set skipped)
    \<and> dy_omitted (foldl (offer_stream S c) d ss) = dy_omitted d + length skipped
    \<and> (skipped \<noteq> [] \<longrightarrow> max_streams c \<le> length (dy_active (foldl (offer_stream S c) d ss)))
    \<and> dy_gaps (foldl (offer_stream S c) d ss) = dy_gaps d @ map (\<lambda>s. (collector_source c s, ''stream_capacity'')) skipped"
proof (induction ss rule: rev_induct)
  case Nil
  then show ?case by (intro exI [of _ "[]"]) simp
next
  case (snoc s ss)
  define d1 where "d1 = foldl (offer_stream S c) d ss"
  from snoc obtain skipped where sk: "set skipped \<subseteq> set ss" "\<forall>s \<in> set ss. mhas (dy_active d1) (stream_id S c s) \<or> s \<in> set skipped"
    "dy_omitted d1 = dy_omitted d + length skipped" "skipped \<noteq> [] \<longrightarrow> max_streams c \<le> length (dy_active d1)"
    "dy_gaps d1 = dy_gaps d @ map (\<lambda>s. (collector_source c s, ''stream_capacity'')) skipped" unfolding d1_def by blast
  have d2: "foldl (offer_stream S c) d (ss @ [s]) = offer_stream S c d1 s" by (simp add: d1_def)
  consider (known) "mhas (dy_active d1) (stream_id S c s)" | (full) "\<not> mhas (dy_active d1) (stream_id S c s)" "max_streams c \<le> length (dy_active d1)"
    | (room) "\<not> mhas (dy_active d1) (stream_id S c s)" "length (dy_active d1) < max_streams c" by linarith
  then show ?case
  proof cases
    case known
    then have "offer_stream S c d1 s = d1" by (simp add: offer_stream_def Let_def)
    with known sk show ?thesis unfolding d2 by (intro exI [of _ skipped]) auto
  next
    case full
    then have "offer_stream S c d1 s = d1\<lparr>dy_omitted := dy_omitted d1 + 1, dy_gaps := dy_gaps d1 @ [(collector_source c s, ''stream_capacity'')]\<rparr>"
      by (simp add: offer_stream_def Let_def)
    with full sk show ?thesis unfolding d2 by (intro exI [of _ "skipped @ [s]"]) auto
  next
    case room
    then have o: "offer_stream S c d1 s = d1\<lparr>dy_active := mput (stream_id S c s) False (dy_active d1), dy_running := dy_running d1 @ [stream_id S c s]\<rparr>"
      by (simp add: offer_stream_def Let_def)
    from room sk(4) have "skipped = []" by auto
    with room sk show ?thesis unfolding d2 o by (intro exI [of _ "[]"]) (auto simp: mhas_def)
  qed
qed

lemma mhas_stop_absent [simp]: "mhas (dy_active (stop_absent c present d)) i = mhas (dy_active d) i"
proof -
  have "fst ` set (dy_active (stop_absent c present d)) = fst ` set (dy_active d)"
    using arg_cong [OF stop_absent_keys [of c present d], of set] by simp
  then show ?thesis by (simp add: mhas_iff)
qed

lemma stop_absent_fields [simp]: "length (dy_active (stop_absent c present d)) = length (dy_active d)"
  "dy_omitted (stop_absent c present d) = dy_omitted d"
  by (simp_all add: stop_absent_def)

lemma publish_stats_fields [simp]: "dy_active (publish_stats d) = dy_active d" "dy_omitted (publish_stats d) = dy_omitted d"
  "dy_gaps (publish_stats d) = dy_gaps d"
  by (simp_all add: publish_stats_def)

text \<open>
  discovery forgets no stream: after every successful discovery each live stream of the listed pods has a slot
  or stands with its source among the capacity gaps of this round; \<open>unfollowed_streams\<close> counts exactly those,
  none is skipped while a slot is free, and nothing else is reported but one removal for each slot whose
  stream is no longer listed.
\<close>

theorem discover_covers:
  "\<exists>skipped k. set skipped \<subseteq> set (live_streams pods)
    \<and> (\<forall>s \<in> set (live_streams pods). mhas (dy_active (discover S c pods d)) (stream_id S c s) \<or> s \<in> set skipped)
    \<and> dy_omitted (discover S c pods d) = length skipped
    \<and> (skipped = [] \<or> max_streams c \<le> length (dy_active (discover S c pods d)))
    \<and> dy_gaps (discover S c pods d) = dy_gaps d @ map (\<lambda>s. (collector_source c s, ''stream_capacity'')) skipped
        @ replicate k (discoverySource c, ''stream_removed'')
    \<and> k = length (filter (\<lambda>i. i \<notin> set (map (stream_id S c) (live_streams pods))) (map fst (dy_active (discover S c pods d))))"
proof -
  let ?ss = "live_streams pods"
  let ?d = "foldl (offer_stream S c) (d\<lparr>dy_omitted := 0\<rparr>) ?ss" and ?present = "map (stream_id S c) (live_streams pods)"
  have "dy_omitted (d\<lparr>dy_omitted := 0\<rparr>) = 0" "dy_gaps (d\<lparr>dy_omitted := 0\<rparr>) = dy_gaps d" by simp_all
  with offer_streams_cover [of "?ss" S c "d\<lparr>dy_omitted := 0\<rparr>"] obtain skipped where sk: "set skipped \<subseteq> set ?ss"
    "\<forall>s \<in> set ?ss. mhas (dy_active ?d) (stream_id S c s) \<or> s \<in> set skipped" "dy_omitted ?d = length skipped"
    "skipped = [] \<or> max_streams c \<le> length (dy_active ?d)"
    "dy_gaps ?d = dy_gaps d @ map (\<lambda>s. (collector_source c s, ''stream_capacity'')) skipped" by (simp only: add_0) metis
  let ?k = "length (filter (\<lambda>i. i \<notin> set ?present) (map fst (dy_active (discover S c pods d))))"
  have keys: "map fst (dy_active (discover S c pods d)) = map fst (dy_active ?d)"
    unfolding discover_def publish_stats_fields by (rule stop_absent_keys)
  have k: "?k = length (filter (\<lambda>(i, _). i \<notin> set ?present) (dy_active ?d))"
    unfolding keys by (simp add: filter_map comp_def case_prod_unfold)
  have "dy_gaps (discover S c pods d) = dy_gaps ?d @ replicate (length (filter (\<lambda>(i, _). i \<notin> set ?present) (dy_active ?d))) (discoverySource c, ''stream_removed'')"
    unfolding discover_def publish_stats_fields by (simp add: stop_absent_def map_replicate_const)
  then have "dy_gaps (discover S c pods d) = dy_gaps ?d @ replicate ?k (discoverySource c, ''stream_removed'')" unfolding k .
  moreover have "mhas (dy_active (discover S c pods d)) i = mhas (dy_active ?d) i" for i by (simp add: discover_def)
  moreover have "length (dy_active (discover S c pods d)) = length (dy_active ?d)" "dy_omitted (discover S c pods d) = dy_omitted ?d"
    by (simp_all add: discover_def)
  ultimately show ?thesis using sk by (intro exI [of _ skipped] exI [of _ ?k] conjI) (simp_all only: append_assoc refl simp_thms)
qed

theorem discover_covers_witness:
  "\<exists>skipped k. dy_omitted (discover sample_std sample_collector [sample_pod] discovery_start) = length skipped
    \<and> set skipped \<subseteq> set (live_streams [sample_pod])
    \<and> dy_gaps (discover sample_std sample_collector [sample_pod] discovery_start) =
      map (\<lambda>s. (collector_source sample_collector s, ''stream_capacity'')) skipped @ replicate k (discoverySource sample_collector, ''stream_removed'')"
proof -
  have "dy_gaps discovery_start = []" by (simp add: discovery_start_def)
  with discover_covers [of "[sample_pod]" sample_std sample_collector discovery_start] show ?thesis by (metis append_Nil)
qed

section \<open>Returning\<close>

lemma leaving_step_shape:
  assumes "follow_step S c d d'" and "dy_phase d = Leaving e" and "dy_ctx d \<noteq> None"
  shows "dy_phase d' = Leaving e \<and> dy_ctx d' \<noteq> None \<and> Suc (length (dy_running d')) = length (dy_running d)
    \<or> dy_running d = [] \<and> dy_running d' = [] \<and> dy_phase d' = Returned e"
  using assms
proof cases
  case (reader_sends i err)
  then have "0 < length (dy_running d)" by (auto simp: length_pos_if_in_set)
  with reader_sends assms(2,3) show ?thesis by (auto simp: length_remove1 end_reader_ctx(2))
next
  case (reader_leaves i err)
  then have "0 < length (dy_running d)" by (auto simp: length_pos_if_in_set)
  with reader_leaves assms(2,3) show ?thesis by (auto simp: length_remove1)
qed auto

lemma leaving_progress:
  assumes "dy_phase d = Leaving e" and "dy_ctx d \<noteq> None"
  shows "\<exists>d'. follow_step S c d d'"
proof (cases "dy_running d")
  case Nil
  with joined [OF assms(1)] show ?thesis by blast
next
  case (Cons i rest)
  obtain x where "dy_ctx d = Some x" using assms(2) by blast
  then have "dy_ctx (end_reader i None d) \<noteq> None" by (simp add: end_reader_ctx(2))
  with reader_leaves [of d i None] Cons assms(1) show ?thesis by auto
qed

lemma leaving_run:
  "(follow_step S c ^^ n) d d' \<Longrightarrow> dy_phase d = Leaving e \<Longrightarrow> dy_ctx d \<noteq> None \<Longrightarrow> n \<le> Suc (length (dy_running d)) \<Longrightarrow>
    (if n = Suc (length (dy_running d)) then dy_phase d' = Returned e \<and> dy_running d' = []
     else dy_phase d' = Leaving e \<and> dy_ctx d' \<noteq> None)"
proof (induction n arbitrary: d)
  case 0
  then show ?case by simp
next
  case (Suc n)
  from relpowp_Suc_D2 [OF Suc.prems(1)] obtain d1 where d1: "follow_step S c d d1" "(follow_step S c ^^ n) d1 d'" by blast
  from leaving_step_shape [OF d1(1) Suc.prems(2,3)] show ?case
  proof (elim disjE conjE)
    assume l: "dy_phase d1 = Leaving e" "dy_ctx d1 \<noteq> None" "Suc (length (dy_running d1)) = length (dy_running d)"
    with Suc.IH [OF d1(2) l(1,2)] Suc.prems(4) show ?thesis by (auto split: if_splits)
  next
    assume r: "dy_running d = []" "dy_running d1 = []" "dy_phase d1 = Returned e"
    with Suc.prems(4) have "n = 0" by simp
    with d1(2) r show ?thesis by simp
  qed
qed

text \<open>
  C30: after a cancellation \<open>follow\<close> returns and leaves no reader behind: a cancelled loop can always leave; from
  then on it is never stuck, and after exactly one step for each reader that still runs and one more it has
  returned with the error it left with and no reader running, whatever the order the readers end in.
\<close>

theorem follow_returns:
  assumes "follow_reachable S c d"
  shows "(dy_phase d = Looping \<and> dy_ctx d \<noteq> None \<longrightarrow> (\<exists>d'. follow_step S c d d' \<and> dy_phase d' = Leaving (returned_error d)))
    \<and> (dy_phase d = Leaving e \<longrightarrow>
        (\<forall>n \<le> length (dy_running d). \<forall>d'. (follow_step S c ^^ n) d d' \<longrightarrow> dy_phase d' = Leaving e \<and> (\<exists>d''. follow_step S c d' d''))
        \<and> (\<forall>d'. (follow_step S c ^^ Suc (length (dy_running d))) d d' \<longrightarrow> dy_phase d' = Returned e \<and> dy_running d' = []))"
proof (intro conjI impI allI)
  assume "dy_phase d = Looping \<and> dy_ctx d \<noteq> None"
  then show "\<exists>d'. follow_step S c d d' \<and> dy_phase d' = Leaving (returned_error d)" using leave [of d S c] by fastforce
next
  assume l: "dy_phase d = Leaving e"
  then have ctx: "dy_ctx d \<noteq> None" using reachable_ok [OF assms] by (simp add: readers_ok_def)
  fix n d' assume n: "n \<le> length (dy_running d)" and run: "(follow_step S c ^^ n) d d'"
  with leaving_run [OF run l ctx] have "dy_phase d' = Leaving e" "dy_ctx d' \<noteq> None" by auto
  with leaving_progress show "dy_phase d' = Leaving e" "\<exists>d''. follow_step S c d' d''" by blast+
next
  assume l: "dy_phase d = Leaving e"
  then have ctx: "dy_ctx d \<noteq> None" using reachable_ok [OF assms] by (simp add: readers_ok_def)
  fix d' assume run: "(follow_step S c ^^ Suc (length (dy_running d))) d d'"
  from leaving_run [OF run l ctx] show "dy_phase d' = Returned e" "dy_running d' = []" by auto
qed

lemma discovery_start_fields: "dy_ctx discovery_start = None" "dy_phase discovery_start = Looping" "dy_fatal discovery_start = None"
  by (simp_all add: discovery_start_def)

lemma discover_frame: "dy_ctx (discover S c [] d) = dy_ctx d" "dy_phase (discover S c [] d) = dy_phase d" "dy_fatal (discover S c [] d) = dy_fatal d"
  unfolding discover_def live_streams_def publish_stats_def stop_absent_def by simp_all

theorem follow_returns_witness:
  "\<exists>d d'. follow_reachable sample_std sample_collector d \<and> dy_ctx d = Some Canceled \<and> follow_step sample_std sample_collector d d'
    \<and> dy_phase d' = Leaving Canceled"
proof -
  let ?d0 = "discover sample_std sample_collector [] discovery_start"
  let ?d = "?d0\<lparr>dy_ctx := Some Canceled\<rparr>"
  have r: "follow_reachable sample_std sample_collector ?d"
    by (rule follow_reachable.step [OF follow_reachable.start cancelled]) (simp add: discover_frame discovery_start_fields)
  have "dy_phase ?d = Looping \<and> dy_ctx ?d \<noteq> None" "returned_error ?d = Canceled"
    by (simp_all add: returned_error_def discover_frame discovery_start_fields)
  with follow_returns [OF r] obtain d' where "follow_step sample_std sample_collector ?d d'" "dy_phase d' = Leaving Canceled" by metis
  with r show ?thesis by (intro exI [of _ ?d] exI [of _ d']) simp
qed

end
