(* ===== verification/Bodies.thy ===== *)
theory Bodies
  imports GoText
begin

text \<open>
  What bounds the bytes a hostile API server can make the program hold: the response bodies of
  \<open>internal/kube/response.go\<close>, the rejected upgrade bodies and the upgrade header reader of
  \<open>internal/kube/upgrade.go\<close>.  The transport is a stream of bytes that arrives in arbitrary portions.
\<close>

section \<open>Transport streams\<close>

text \<open>
  The bytes still to come, how many of them the next calls find available (afterwards all of them), whether the
  closing error comes with the last bytes or after them, and that error.
\<close>

record net =
  nt_data :: string
  nt_cuts :: "nat list"
  nt_eager :: bool
  nt_end :: goerror

definition net_avail :: "net \<Rightarrow> nat" where
  "net_avail r = (case nt_cuts r of [] \<Rightarrow> length (nt_data r) | c # _ \<Rightarrow> min c (length (nt_data r)))"

definition net_Read :: "nat \<Rightarrow> net \<Rightarrow> net \<times> string \<times> status" where
  "net_Read n r =
     (let k = min n (net_avail r); r' = r\<lparr>nt_data := drop k (nt_data r), nt_cuts := tl (nt_cuts r)\<rparr> in
      (r', take k (nt_data r),
       if nt_data r' = [] \<and> nt_cuts r' = [] \<and> (nt_eager r \<or> nt_data r = []) then Some (nt_end r) else None))"

text \<open>\<open>io.ReadAll\<close>: the buffer offers \<open>room\<close> bytes, more than none, until an error; \<open>EOF\<close> is its success.\<close>

primrec read_all :: "nat \<Rightarrow> (nat \<Rightarrow> nat) \<Rightarrow> (nat \<Rightarrow> 'r \<Rightarrow> 'r \<times> string \<times> status) \<Rightarrow> 'r \<Rightarrow> string \<Rightarrow> (string \<times> goerror) option" where
  "read_all 0 room rd r got = None"
| "read_all (Suc fuel) room rd r got =
     (case rd (Suc (room (length got))) r of
       (r', data, Some err) \<Rightarrow> Some (got @ data, err)
     | (r', data, None) \<Rightarrow> read_all fuel room rd r' (got @ data))"

section \<open>Bounded bodies\<close>

record body =
  bd_inner :: net
  bd_remaining :: int

definition limit_read :: "goerror \<Rightarrow> nat \<Rightarrow> body \<Rightarrow> body \<times> string \<times> status" where
  "limit_read tooLarge n b =
     (if bd_remaining b < 0 then (b, [], Some tooLarge)
      else let m = (if bd_remaining b + 1 < int n then nat (bd_remaining b + 1) else n) in
        case net_Read m (bd_inner b) of (r', data, err) \<Rightarrow>
          let b' = b\<lparr>bd_inner := r', bd_remaining := bd_remaining b - int (length data)\<rparr> in
          (b', data, if bd_remaining b' < 0 then Some tooLarge else err))"

definition errAPIResponseTooLarge :: goerror where
  "errAPIResponseTooLarge = Err ''Kubernetes response too large''"

definition errUpgradeResponseTooLarge :: goerror where
  "errUpgradeResponseTooLarge = Err ''upgrade error response too large''"

definition apiResponseBody_Read :: "nat \<Rightarrow> body \<Rightarrow> body \<times> string \<times> status" where
  "apiResponseBody_Read = limit_read errAPIResponseTooLarge"

definition rejectedUpgradeBody_Read :: "nat \<Rightarrow> body \<Rightarrow> body \<times> string \<times> status" where
  "rejectedUpgradeBody_Read = limit_read errUpgradeResponseTooLarge"

definition maxMetadataBytes :: nat where
  "maxMetadataBytes = 8 * 2 ^ 20"

definition maxAPIErrorBytes :: nat where
  "maxAPIErrorBytes = 64 * 2 ^ 10"

definition maxUpgradeErrorBytes :: nat where
  "maxUpgradeErrorBytes = 64 * 2 ^ 10"

text \<open>The limit \<open>RoundTrip\<close> puts on a body; \<open>podLog\<close>: the path matches \<open>podLogPath\<close>.  \<open>None\<close>: unlimited.\<close>

definition body_limit :: "nat \<Rightarrow> string \<Rightarrow> bool \<Rightarrow> nat option" where
  "body_limit statusCode httpMethod podLog =
     (if statusCode < 200 \<or> 300 \<le> statusCode then Some maxAPIErrorBytes
      else if httpMethod = ''GET'' \<and> podLog then None else Some maxMetadataBytes)"

section \<open>The contract of a bounded reader\<close>

text \<open>\<open>pos r\<close> bytes of the text \<open>whole r\<close> are read; the reader may cut the text at \<open>limit\<close> with its own error.\<close>

locale bounded_reader =
  fixes rd :: "nat \<Rightarrow> 'r \<Rightarrow> 'r \<times> string \<times> status" and inv :: "'r \<Rightarrow> bool"
    and rest :: "'r \<Rightarrow> string" and finish :: "'r \<Rightarrow> goerror" and steps :: "'r \<Rightarrow> nat"
  assumes more: "inv r \<Longrightarrow> rd (Suc n) r = (r', data, None) \<Longrightarrow> inv r' \<and> rest r = data @ rest r' \<and> finish r' = finish r \<and> steps r' < steps r"
    and ends: "inv r \<Longrightarrow> rd (Suc n) r = (r', data, Some err) \<Longrightarrow> data = rest r \<and> err = finish r"
begin

lemma read_all_exact: "inv r \<Longrightarrow> steps r < fuel \<Longrightarrow> read_all fuel room rd r got = Some (got @ rest r, finish r)"
proof (induction fuel arbitrary: r got)
  case 0
  then show ?case by simp
next
  case (Suc fuel)
  obtain r' data err where c: "rd (Suc (room (length got))) r = (r', data, err)" by (metis prod_cases3)
  show ?case
  proof (cases err)
    case None
    from more [OF Suc.prems(1)] c None have r': "inv r'" "rest r = data @ rest r'" "finish r' = finish r" "steps r' < steps r" by blast+
    with Suc.IH [of r' "got @ data"] Suc.prems(2) c None show ?thesis by simp
  next
    case (Some e)
    with ends [OF Suc.prems(1)] c have "data = rest r" "e = finish r" by blast+
    with c Some show ?thesis by simp
  qed
qed

end

definition net_steps :: "net \<Rightarrow> nat" where
  "net_steps r = length (nt_data r) + length (nt_cuts r) + (if nt_data r = [] \<and> nt_cuts r = [] then 0 else 1)"

lemma net_Read_step:
  assumes "net_Read (Suc n) r = (r', data, err)"
  shows "nt_data r = data @ nt_data r' \<and> nt_end r' = nt_end r \<and> length data \<le> Suc n
    \<and> (err = None \<longrightarrow> net_steps r' < net_steps r) \<and> (\<forall>e. err = Some e \<longrightarrow> nt_data r' = [] \<and> e = nt_end r)"
proof (cases "nt_cuts r")
  case Nil
  with assms show ?thesis by (auto simp: net_Read_def net_avail_def Let_def net_steps_def min_def split: if_splits)
next
  case (Cons c cs)
  with assms show ?thesis by (auto simp: net_Read_def net_avail_def Let_def net_steps_def min_def split: if_splits)
qed

interpretation net: bounded_reader net_Read "\<lambda>_. True" nt_data nt_end net_steps
  by unfold_locales (use net_Read_step in fastforce)+

text \<open>What a bounded body delivers: the text, or one byte more than the limit and the error.\<close>

definition body_rest :: "body \<Rightarrow> string" where
  "body_rest b = take (nat (bd_remaining b + 1)) (nt_data (bd_inner b))"

definition body_finish :: "goerror \<Rightarrow> body \<Rightarrow> goerror" where
  "body_finish tooLarge b = (if bd_remaining b < int (length (nt_data (bd_inner b))) then tooLarge else nt_end (bd_inner b))"

lemma limit_read_step:
  assumes "limit_read tooLarge (Suc n) b = (b', data, err)" and "0 \<le> bd_remaining b"
  shows "(err = None \<longrightarrow> 0 \<le> bd_remaining b' \<and> body_rest b = data @ body_rest b' \<and> body_finish tooLarge b' = body_finish tooLarge b
        \<and> net_steps (bd_inner b') < net_steps (bd_inner b))
    \<and> (\<forall>e. err = Some e \<longrightarrow> data = body_rest b \<and> e = body_finish tooLarge b)"
proof -
  define m where "m = (if bd_remaining b + 1 < int (Suc n) then nat (bd_remaining b) else n)"
  obtain r' d e where r: "net_Read (Suc m) (bd_inner b) = (r', d, e)" by (metis prod_cases3)
  have m: "(if bd_remaining b + 1 < int (Suc n) then nat (bd_remaining b + 1) else Suc n) = Suc m"
    using assms(2) by (simp add: m_def nat_add_distrib)
  from assms m r have b': "b' = b\<lparr>bd_inner := r', bd_remaining := bd_remaining b - int (length d)\<rparr>" "data = d"
    and err: "err = (if bd_remaining b < int (length d) then Some tooLarge else e)"
    by (auto simp: limit_read_def Let_def)
  from net_Read_step [OF r] have inner: "nt_data (bd_inner b) = d @ nt_data r'" "nt_end r' = nt_end (bd_inner b)"
    "e = None \<longrightarrow> net_steps r' < net_steps (bd_inner b)" "\<forall>x. e = Some x \<longrightarrow> nt_data r' = [] \<and> x = nt_end (bd_inner b)"
    and len: "length d \<le> Suc m" by auto
  have "int (length d) \<le> bd_remaining b + 1" using len assms(2) by (auto simp: m_def split: if_splits)
  then have full: "bd_remaining b < int (length d) \<Longrightarrow> length d = nat (bd_remaining b + 1)" using assms(2) by linarith
  have k: "bd_remaining b \<ge> int (length d) \<Longrightarrow> nat (bd_remaining b + 1) - length d = nat (bd_remaining b - int (length d) + 1)"
    by linarith
  show ?thesis
  proof (cases "bd_remaining b < int (length d)")
    case True
    with full inner err b' show ?thesis by (auto simp: body_rest_def body_finish_def)
  next
    case False
    then have "length d \<le> nat (bd_remaining b + 1)" by linarith
    with False k inner err b' show ?thesis by (auto simp: body_rest_def body_finish_def)
  qed
qed

interpretation api_body: bounded_reader apiResponseBody_Read "\<lambda>b. 0 \<le> bd_remaining b" body_rest
    "body_finish errAPIResponseTooLarge" "\<lambda>b. net_steps (bd_inner b)"
  unfolding apiResponseBody_Read_def by unfold_locales (use limit_read_step in fastforce)+

interpretation upgrade_body: bounded_reader rejectedUpgradeBody_Read "\<lambda>b. 0 \<le> bd_remaining b" body_rest
    "body_finish errUpgradeResponseTooLarge" "\<lambda>b. net_steps (bd_inner b)"
  unfolding rejectedUpgradeBody_Read_def by unfold_locales (use limit_read_step in fastforce)+

text \<open>
  response bodies are bounded and never truncated silently: however the transport cuts the stream and whatever
  room the reader of the body offers, reading it to its end (enough calls always get there) gives the whole
  body with the transport's own end when it has at most \<open>limit\<close> bytes, and otherwise \<open>limit + 1\<close> bytes and the
  fixed error, never \<open>EOF\<close>.  It holds for API responses and for rejected upgrades.
\<close>

theorem body_limit_exact:
  assumes "net_steps r < fuel"
  shows "read_all fuel room apiResponseBody_Read \<lparr>bd_inner = r, bd_remaining = int limit\<rparr> [] =
      Some (if length (nt_data r) \<le> limit then (nt_data r, nt_end r) else (take (limit + 1) (nt_data r), errAPIResponseTooLarge))
    \<and> read_all fuel room rejectedUpgradeBody_Read \<lparr>bd_inner = r, bd_remaining = int limit\<rparr> [] =
      Some (if length (nt_data r) \<le> limit then (nt_data r, nt_end r) else (take (limit + 1) (nt_data r), errUpgradeResponseTooLarge))"
  using api_body.read_all_exact [of "\<lparr>bd_inner = r, bd_remaining = int limit\<rparr>" fuel room "[]"]
    upgrade_body.read_all_exact [of "\<lparr>bd_inner = r, bd_remaining = int limit\<rparr>" fuel room "[]"] assms
  by (auto simp: body_rest_def body_finish_def nat_add_distrib)

theorem body_limit_exact_witness:
  "read_all 9 (\<lambda>_. 1) apiResponseBody_Read \<lparr>bd_inner = \<lparr>nt_data = ''abcd'', nt_cuts = [1, 0], nt_eager = True, nt_end = EOF\<rparr>, bd_remaining = int 2\<rparr> []
    = Some (''abc'', errAPIResponseTooLarge)"
  using body_limit_exact [of "\<lparr>nt_data = ''abcd'', nt_cuts = [1, 0], nt_eager = True, nt_end = EOF\<rparr>" 9 "\<lambda>_. 1" 2]
  by (simp add: net_steps_def)

section \<open>Upgrade headers\<close>

record header_reader =
  hr_reader :: net
  hr_read :: nat
  hr_lineBytes :: nat
  hr_last :: char
  hr_done :: bool

definition maxUpgradeHeaderBytes :: nat where
  "maxUpgradeHeaderBytes = 64 * 2 ^ 10"

definition errUpgradeHeadersTooLarge :: goerror where
  "errUpgradeHeadersTooLarge = Err ''upgrade response headers too large''"

text \<open>The bytes of one read: \<open>None\<close> when the limit is passed.\<close>

fun count_header :: "string \<Rightarrow> header_reader \<Rightarrow> header_reader option" where
  "count_header [] h = Some h"
| "count_header (b # bs) h =
     (let h1 = h\<lparr>hr_read := hr_read h + 1\<rparr> in
      if maxUpgradeHeaderBytes < hr_read h1 then None
      else if b = CHR 0x0A then
        (if hr_lineBytes h1 = 0 \<or> hr_lineBytes h1 = 1 \<and> hr_last h1 = CHR 0x0D then Some (h1\<lparr>hr_done := True\<rparr>)
         else count_header bs (h1\<lparr>hr_lineBytes := 0, hr_last := b\<rparr>))
      else count_header bs (h1\<lparr>hr_lineBytes := hr_lineBytes h1 + 1, hr_last := b\<rparr>))"

text \<open>After the limit is passed the counter stands one above it, whatever else the chunk held.\<close>

definition upgradeHeaderReader_Read :: "nat \<Rightarrow> header_reader \<Rightarrow> header_reader \<times> string \<times> status" where
  "upgradeHeaderReader_Read n h =
     (if hr_done h then (case net_Read n (hr_reader h) of (r', data, err) \<Rightarrow> (h\<lparr>hr_reader := r'\<rparr>, data, err))
      else if maxUpgradeHeaderBytes < hr_read h then (h, [], Some errUpgradeHeadersTooLarge)
      else
        let m = min n (maxUpgradeHeaderBytes + 1 - hr_read h) in
        case net_Read m (hr_reader h) of (r', data, err) \<Rightarrow>
          (case count_header data h of
            None \<Rightarrow> (h\<lparr>hr_reader := r', hr_read := maxUpgradeHeaderBytes + 1\<rparr>, [], Some errUpgradeHeadersTooLarge)
          | Some h' \<Rightarrow> (h'\<lparr>hr_reader := r'\<rparr>, data, err)))"

definition new_header_reader :: "net \<Rightarrow> header_reader" where
  "new_header_reader r = \<lparr>hr_reader = r, hr_read = 0, hr_lineBytes = 0, hr_last = CHR 0x00, hr_done = False\<rparr>"

text \<open>The header section of a text, up to and with its first blank line.\<close>

definition blank_line :: "string \<Rightarrow> bool" where
  "blank_line l = (l = [] \<or> l = [CHR 0x0D])"

fun header_section :: "string \<Rightarrow> string \<Rightarrow> string" where
  "header_section line [] = []"
| "header_section line (b # bs) =
     (if b = CHR 0x0A then (if blank_line line then [b] else b # header_section [] bs) else b # header_section (line @ [b]) bs)"

text \<open>What \<open>readUpgradeResponse\<close> makes of the HTTP parser's answer, given the reader it has used.\<close>

definition readUpgradeResponse :: "header_reader \<Rightarrow> 'a result \<Rightarrow> 'a result" where
  "readUpgradeResponse limited response =
     (if maxUpgradeHeaderBytes < hr_read limited then Inl errUpgradeHeadersTooLarge else response)"

text \<open>The reader has seen the bytes \<open>line\<close> of the current line.\<close>

definition in_line :: "string \<Rightarrow> header_reader \<Rightarrow> bool" where
  "in_line line h = (\<not> hr_done h \<and> hr_lineBytes h = length line \<and> (line \<noteq> [] \<longrightarrow> hr_last h = last line))"

lemma in_line_blank: "in_line line h \<Longrightarrow> blank_line line \<longleftrightarrow> hr_lineBytes h = 0 \<or> hr_lineBytes h = 1 \<and> hr_last h = CHR 0x0D"
  by (cases line) (auto simp: in_line_def blank_line_def)

lemma header_section_le: "length (header_section line bs) \<le> length bs"
  by (induction line bs rule: header_section.induct) (auto split: if_splits)

text \<open>A read either ends the section, or continues the current line, or passes the limit.\<close>

lemma count_header_cases:
  "in_line line h \<Longrightarrow> hr_read h \<le> maxUpgradeHeaderBytes \<Longrightarrow>
    (case count_header bs h of
       None \<Rightarrow> maxUpgradeHeaderBytes < hr_read h + length (header_section line bs)
     | Some h' \<Rightarrow> hr_read h + length (header_section line bs) \<le> maxUpgradeHeaderBytes \<and>
         (if hr_done h' then \<forall>more. header_section line (bs @ more) = header_section line bs
          else hr_read h' = hr_read h + length bs \<and> (\<exists>line'. in_line line' h' \<and> (\<forall>more. header_section line (bs @ more) = bs @ header_section line' more))))"
proof (induction bs arbitrary: line h)
  case Nil
  then show ?case by (auto simp: in_line_def)
next
  case (Cons b bs)
  let ?h1 = "h\<lparr>hr_read := hr_read h + 1\<rparr>"
  note blank = in_line_blank [OF Cons.prems(1)]
  consider (over) "hr_read h = maxUpgradeHeaderBytes" | (blank) "hr_read h < maxUpgradeHeaderBytes" "b = CHR 0x0A" "blank_line line"
    | (next_line) "hr_read h < maxUpgradeHeaderBytes" "b = CHR 0x0A" "\<not> blank_line line" | (same) "hr_read h < maxUpgradeHeaderBytes" "b \<noteq> CHR 0x0A"
    using Cons.prems(2) by fastforce
  then show ?case
  proof cases
    case over
    then show ?thesis by (simp add: Let_def)
  next
    case blank
    with \<open>blank_line line \<longleftrightarrow> _\<close> show ?thesis by (auto simp: Let_def)
  next
    case next_line
    let ?h2 = "?h1\<lparr>hr_lineBytes := 0, hr_last := b\<rparr>"
    have "in_line [] ?h2" using Cons.prems(1) by (simp add: in_line_def)
    from Cons.IH [OF this] next_line blank show ?thesis
      by (auto simp: Let_def split: option.splits if_splits)
  next
    case same
    let ?h2 = "?h1\<lparr>hr_lineBytes := hr_lineBytes h + 1, hr_last := b\<rparr>"
    have "in_line (line @ [b]) ?h2" using Cons.prems(1) by (simp add: in_line_def)
    from Cons.IH [OF this] same show ?thesis
      by (auto simp: Let_def split: option.splits if_splits)
  qed
qed

definition header_within :: "header_reader \<Rightarrow> bool" where
  "header_within h = (hr_done h \<or> (\<exists>line. in_line line h \<and>
     hr_read h + length (header_section line (nt_data (hr_reader h))) \<le> maxUpgradeHeaderBytes))"

definition header_over :: "header_reader \<Rightarrow> bool" where
  "header_over h = (\<exists>line. in_line line h \<and> hr_read h \<le> maxUpgradeHeaderBytes \<and>
     maxUpgradeHeaderBytes < hr_read h + length (header_section line (nt_data (hr_reader h))))"

lemma header_section_mono: "length (header_section line bs) \<le> length (header_section line (bs @ cs))"
  by (induction line bs rule: header_section.induct) auto

lemma in_line_reader [simp]: "in_line line (h\<lparr>hr_reader := r\<rparr>) = in_line line h"
  by (simp add: in_line_def)

text \<open>One read inside the section, by what the transport delivered.\<close>

lemma header_read_cases:
  assumes "in_line line h" and "hr_read h \<le> maxUpgradeHeaderBytes" and "upgradeHeaderReader_Read (Suc n) h = (h', data, err)"
  obtains (over) "data = []" "err = Some errUpgradeHeadersTooLarge"
      "maxUpgradeHeaderBytes < hr_read h + length (header_section line (nt_data (hr_reader h)))"
  | (passed) r' where "net_Read (Suc (min n (maxUpgradeHeaderBytes - hr_read h))) (hr_reader h) = (r', data, err)" "hr_done h'" "hr_reader h' = r'"
      "hr_read h + length (header_section line (nt_data (hr_reader h))) \<le> maxUpgradeHeaderBytes"
  | (inside) r' line' where "net_Read (Suc (min n (maxUpgradeHeaderBytes - hr_read h))) (hr_reader h) = (r', data, err)" "in_line line' h'" "hr_reader h' = r'"
      "hr_read h' = hr_read h + length data" "hr_read h' \<le> maxUpgradeHeaderBytes"
      "header_section line (nt_data (hr_reader h)) = data @ header_section line' (nt_data r')"
proof -
  let ?m = "min n (maxUpgradeHeaderBytes - hr_read h)"
  obtain r' d e where r: "net_Read (Suc ?m) (hr_reader h) = (r', d, e)" by (metis prod_cases3)
  have m: "min (Suc n) (maxUpgradeHeaderBytes + 1 - hr_read h) = Suc ?m" using assms(2) by (simp add: Suc_diff_le)
  have whole: "nt_data (hr_reader h) = d @ nt_data r'" using net_Read_step [OF r] by simp
  have below: "\<not> maxUpgradeHeaderBytes < hr_read h" using assms(2) by simp
  have not_done: "\<not> hr_done h" using assms(1) by (simp add: in_line_def)
  have eq: "(case count_header d h of
            None \<Rightarrow> (h\<lparr>hr_reader := r', hr_read := maxUpgradeHeaderBytes + 1\<rparr>, [], Some errUpgradeHeadersTooLarge)
          | Some h1 \<Rightarrow> (h1\<lparr>hr_reader := r'\<rparr>, d, e)) = (h', data, err)"
    using assms(3) [unfolded upgradeHeaderReader_Read_def Let_def m r prod.case] not_done below by (simp only: if_False)
  note c = count_header_cases [OF assms(1,2), of d]
  show ?thesis
  proof (cases "count_header d h")
    case None
    with c header_section_mono [of line d "nt_data r'"] whole
    have "maxUpgradeHeaderBytes < hr_read h + length (header_section line (nt_data (hr_reader h)))" by (auto intro: less_le_trans)
    with eq None show ?thesis by (intro over) auto
  next
    case (Some h1)
    with eq have h': "h' = h1\<lparr>hr_reader := r'\<rparr>" "data = d" "err = e" by auto
    show ?thesis
    proof (cases "hr_done h1")
      case True
      with c Some h' r whole show ?thesis by (intro passed [of r']) auto
    next
      case False
      with c Some obtain line' where l: "in_line line' h1" "\<forall>more. header_section line (d @ more) = d @ header_section line' more"
          "hr_read h1 = hr_read h + length d" "hr_read h + length (header_section line d) \<le> maxUpgradeHeaderBytes" by auto
      from l(2) [rule_format, of "[]"] have "header_section line d = d" by simp
      with l(3,4) have "hr_read h1 \<le> maxUpgradeHeaderBytes" by simp
      with l h' r whole show ?thesis by (intro inside [of r' line']) simp_all
    qed
  qed
qed

lemma header_within_step:
  assumes "header_within h" and "upgradeHeaderReader_Read (Suc n) h = (h', data, err)"
  shows "(err = None \<longrightarrow> header_within h' \<and> nt_data (hr_reader h) = data @ nt_data (hr_reader h') \<and> nt_end (hr_reader h') = nt_end (hr_reader h)
      \<and> net_steps (hr_reader h') < net_steps (hr_reader h))
    \<and> (\<forall>e. err = Some e \<longrightarrow> data = nt_data (hr_reader h) \<and> e = nt_end (hr_reader h))"
proof (cases "hr_done h")
  case True
  obtain r' d e where r: "net_Read (Suc n) (hr_reader h) = (r', d, e)" by (metis prod_cases3)
  with True assms(2) have "h' = h\<lparr>hr_reader := r'\<rparr>" "data = d" "err = e" by (auto simp: upgradeHeaderReader_Read_def)
  with True net_Read_step [OF r] show ?thesis by (auto simp: header_within_def)
next
  case False
  with assms(1) obtain line where l: "in_line line h" and le: "hr_read h + length (header_section line (nt_data (hr_reader h))) \<le> maxUpgradeHeaderBytes"
    by (auto simp: header_within_def)
  then have "hr_read h \<le> maxUpgradeHeaderBytes" by simp
  from l this assms(2) show ?thesis
  proof (cases rule: header_read_cases)
    case over
    with le show ?thesis by simp
  next
    case (passed r')
    with net_Read_step [OF passed(1)] show ?thesis by (auto simp: header_within_def)
  next
    case (inside r' line')
    with le have "header_within h'" by (auto simp: header_within_def)
    with net_Read_step [OF inside(1)] inside(3) show ?thesis by auto
  qed
qed

interpretation header_body: bounded_reader upgradeHeaderReader_Read header_within "\<lambda>h. nt_data (hr_reader h)"
    "\<lambda>h. nt_end (hr_reader h)" "\<lambda>h. net_steps (hr_reader h)"
  by unfold_locales (use header_within_step in fastforce)+

lemma header_over_step:
  assumes "header_over h" and "upgradeHeaderReader_Read (Suc n) h = (h', data, err)"
  shows "data = [] \<and> err = Some errUpgradeHeadersTooLarge
    \<or> err = None \<and> header_over h' \<and> nt_data (hr_reader h) = data @ nt_data (hr_reader h') \<and> hr_read h' = hr_read h + length data
      \<and> net_steps (hr_reader h') < net_steps (hr_reader h)"
proof -
  obtain line where l: "in_line line h" "hr_read h \<le> maxUpgradeHeaderBytes"
    and gt: "maxUpgradeHeaderBytes < hr_read h + length (header_section line (nt_data (hr_reader h)))"
    using assms(1) by (auto simp: header_over_def)
  from l assms(2) show ?thesis
  proof (cases rule: header_read_cases)
    case over
    then show ?thesis by simp
  next
    case (passed r')
    with gt show ?thesis by simp
  next
    case (inside r' line')
    from net_Read_step [OF inside(1)] have step: "nt_data (hr_reader h) = data @ nt_data r'"
      "err = None \<longrightarrow> net_steps r' < net_steps (hr_reader h)" "\<forall>e. err = Some e \<longrightarrow> nt_data r' = []" by auto
    have err: "err = None"
    proof (rule ccontr)
      assume "err \<noteq> None"
      with step(3) have "nt_data r' = []" by blast
      with inside(4-6) gt show False by simp
    qed
    have "header_over h'" unfolding header_over_def
      by (intro exI [of _ line']) (use inside gt in simp)
    with err step inside show ?thesis by simp
  qed
qed

lemma read_all_over:
  "header_over h \<Longrightarrow> net_steps (hr_reader h) < fuel \<Longrightarrow>
    \<exists>part. read_all fuel room upgradeHeaderReader_Read h got = Some (got @ part, errUpgradeHeadersTooLarge)
      \<and> hr_read h + length part \<le> maxUpgradeHeaderBytes \<and> (\<exists>z. nt_data (hr_reader h) = part @ z)"
proof (induction fuel arbitrary: h got)
  case 0
  then show ?case by simp
next
  case (Suc fuel)
  obtain h' data err where c: "upgradeHeaderReader_Read (Suc (room (length got))) h = (h', data, err)" by (metis prod_cases3)
  have le: "hr_read h \<le> maxUpgradeHeaderBytes" using Suc.prems(1) by (auto simp: header_over_def)
  from header_over_step [OF Suc.prems(1) c] show ?case
  proof (elim disjE conjE)
    assume "data = []" "err = Some errUpgradeHeadersTooLarge"
    with c le show ?thesis by auto
  next
    assume *: "err = None" "header_over h'" "nt_data (hr_reader h) = data @ nt_data (hr_reader h')" "hr_read h' = hr_read h + length data"
      "net_steps (hr_reader h') < net_steps (hr_reader h)"
    with Suc.IH [of h' "got @ data"] Suc.prems(2) obtain part z where
      "read_all fuel room upgradeHeaderReader_Read h' (got @ data) = Some (got @ data @ part, errUpgradeHeadersTooLarge)"
      "hr_read h' + length part \<le> maxUpgradeHeaderBytes" "nt_data (hr_reader h') = part @ z" by auto
    with * c show ?thesis by (intro exI [of _ "data @ part"]) simp
  qed
qed

text \<open>
  the header section of an upgrade response is bounded to 64 KiB and nothing else is: when the text up to and
  with its first blank line (ended by LF or CRLF) fits, the whole stream passes unchanged however long the
  rest is; otherwise the reader fails with the fixed error after at most 64 KiB of it.  How the transport
  cuts the bytes and how the caller asks for them makes no difference.
\<close>

theorem header_limit_exact:
  assumes "net_steps r < fuel"
  shows "if length (header_section [] (nt_data r)) \<le> maxUpgradeHeaderBytes
    then read_all fuel room upgradeHeaderReader_Read (new_header_reader r) [] = Some (nt_data r, nt_end r)
    else (\<exists>part z. read_all fuel room upgradeHeaderReader_Read (new_header_reader r) [] = Some (part, errUpgradeHeadersTooLarge)
      \<and> length part \<le> maxUpgradeHeaderBytes \<and> nt_data r = part @ z)"
proof -
  have start: "in_line [] (new_header_reader r)" "hr_reader (new_header_reader r) = r" "hr_read (new_header_reader r) = 0"
    by (simp_all add: in_line_def new_header_reader_def)
  show ?thesis
  proof (cases "length (header_section [] (nt_data r)) \<le> maxUpgradeHeaderBytes")
    case True
    then have "header_within (new_header_reader r)" unfolding header_within_def using start by (intro disjI2 exI [of _ "[]"]) simp
    from header_body.read_all_exact [OF this, of fuel room "[]"] assms start(2) True show ?thesis by simp
  next
    case False
    then have "header_over (new_header_reader r)" unfolding header_over_def using start by (intro exI [of _ "[]"]) simp
    from read_all_over [OF this, of fuel room "[]"] assms start(2,3) False show ?thesis by auto
  qed
qed

theorem header_limit_exact_witness:
  "read_all 9 (\<lambda>_. 1) upgradeHeaderReader_Read (new_header_reader \<lparr>nt_data = [CHR 0x61, CHR 0x0A, CHR 0x0D, CHR 0x0A, CHR 0x62], nt_cuts = [3], nt_eager = False, nt_end = EOF\<rparr>) []
    = Some ([CHR 0x61, CHR 0x0A, CHR 0x0D, CHR 0x0A, CHR 0x62], EOF)"
  using header_limit_exact [of "\<lparr>nt_data = [CHR 0x61, CHR 0x0A, CHR 0x0D, CHR 0x0A, CHR 0x62], nt_cuts = [3], nt_eager = False, nt_end = EOF\<rparr>" 9 "\<lambda>_. 1"]
  by (simp add: net_steps_def blank_line_def maxUpgradeHeaderBytes_def)

end
