(* ===== verification/ReviewedRules.thy ===== *)
theory ReviewedRules
  imports Templates
begin

text \<open>
  \<open>internal/analysis/rules.go\<close>: reviewed normalization rules, what \<open>LoadRules\<close> accepts and how an
  accepted rule turns an event into a template.  A document is flattened by \<open>walk\<close> into the shape and
  the value of every JSON pointer.
\<close>

record rule =
  r_ID :: string
  r_Version :: int
  r_Expires :: int
  r_Scope :: "(string, json) gomap"
  r_Shape :: "(string, string) gomap"
  r_Literals :: "(string, json) gomap"
  r_Normalize :: "string list"
  r_Protected :: "(string, json) gomap"
  r_Reviewer :: string
  r_ReviewID :: string
  r_Compiler :: string
  r_At :: int
  r_PrefixText :: string
  r_PrefixClock :: string

record rules =
  rs_Artifact :: int
  rs_Schema :: int
  rs_Rules :: "rule list"

definition zero_rule :: rule where
  "zero_rule = \<lparr>r_ID = [], r_Version = 0, r_Expires = 0, r_Scope = [], r_Shape = [], r_Literals = [],
     r_Normalize = [], r_Protected = [], r_Reviewer = [], r_ReviewID = [], r_Compiler = [], r_At = 0,
     r_PrefixText = [], r_PrefixClock = []\<rparr>"

section \<open>Decoding\<close>

definition dec_anymap :: "std \<Rightarrow> (string, json) gomap \<Rightarrow> json \<Rightarrow> (string, json) gomap option" where
  "dec_anymap S old v = (case v of
     JNull \<Rightarrow> Some []
   | JObj kvs \<Rightarrow> Some (foldl (\<lambda>m (k, x). mput k (renumber S (decode_any x)) m) old kvs)
   | _ \<Rightarrow> None)"

definition dec_strmap :: "(string, string) gomap \<Rightarrow> json \<Rightarrow> (string, string) gomap option" where
  "dec_strmap old v = (case v of
     JNull \<Rightarrow> Some []
   | JObj kvs \<Rightarrow> foldl (\<lambda>acc (k, x). case (acc, dec_string [] x) of (Some m, Some s) \<Rightarrow> Some (mput k s m) | _ \<Rightarrow> None) (Some old) kvs
   | _ \<Rightarrow> None)"

definition review_member :: "rule \<Rightarrow> string \<Rightarrow> json \<Rightarrow> rule option" where
  "review_member r k v =
     (if is_field ''reviewer'' k then map_option (\<lambda>x. r\<lparr>r_Reviewer := x\<rparr>) (dec_string (r_Reviewer r) v)
      else if is_field ''review_id'' k then map_option (\<lambda>x. r\<lparr>r_ReviewID := x\<rparr>) (dec_string (r_ReviewID r) v)
      else if is_field ''compiler'' k then map_option (\<lambda>x. r\<lparr>r_Compiler := x\<rparr>) (dec_string (r_Compiler r) v)
      else if is_field ''reviewed_at'' k then map_option (\<lambda>x. r\<lparr>r_At := x\<rparr>) (dec_int (r_At r) v)
      else None)"

definition prefix_member :: "rule \<Rightarrow> string \<Rightarrow> json \<Rightarrow> rule option" where
  "prefix_member r k v =
     (if is_field ''text'' k then map_option (\<lambda>x. r\<lparr>r_PrefixText := x\<rparr>) (dec_string (r_PrefixText r) v)
      else if is_field ''clock_grammar'' k then map_option (\<lambda>x. r\<lparr>r_PrefixClock := x\<rparr>) (dec_string (r_PrefixClock r) v)
      else None)"

definition rule_member :: "std \<Rightarrow> rule \<Rightarrow> string \<Rightarrow> json \<Rightarrow> rule option" where
  "rule_member S r k v =
     (if is_field ''id'' k then map_option (\<lambda>x. r\<lparr>r_ID := x\<rparr>) (dec_string (r_ID r) v)
      else if is_field ''version'' k then map_option (\<lambda>x. r\<lparr>r_Version := x\<rparr>) (dec_int (r_Version r) v)
      else if is_field ''expires_at'' k then map_option (\<lambda>x. r\<lparr>r_Expires := x\<rparr>) (dec_int (r_Expires r) v)
      else if is_field ''source_scope'' k then map_option (\<lambda>x. r\<lparr>r_Scope := x\<rparr>) (dec_anymap S (r_Scope r) v)
      else if is_field ''shape'' k then map_option (\<lambda>x. r\<lparr>r_Shape := x\<rparr>) (dec_strmap (r_Shape r) v)
      else if is_field ''required_literals'' k then map_option (\<lambda>x. r\<lparr>r_Literals := x\<rparr>) (dec_anymap S (r_Literals r) v)
      else if is_field ''normalize_paths'' k then map_option (\<lambda>x. r\<lparr>r_Normalize := x\<rparr>) (dec_list (dec_string []) v)
      else if is_field ''protected_literals'' k then map_option (\<lambda>x. r\<lparr>r_Protected := x\<rparr>) (dec_anymap S (r_Protected r) v)
      else if is_field ''review'' k then dec_struct review_member r v
      else if is_field ''prefix_identity'' k then dec_struct prefix_member r v
      else None)"

definition rules_member :: "std \<Rightarrow> rules \<Rightarrow> string \<Rightarrow> json \<Rightarrow> rules option" where
  "rules_member S r k v =
     (if is_field ''artifact_version'' k then map_option (\<lambda>x. r\<lparr>rs_Artifact := x\<rparr>) (dec_int (rs_Artifact r) v)
      else if is_field ''schema_version'' k then map_option (\<lambda>x. r\<lparr>rs_Schema := x\<rparr>) (dec_int (rs_Schema r) v)
      else if is_field ''rules'' k then map_option (\<lambda>x. r\<lparr>rs_Rules := x\<rparr>) (dec_list (dec_struct (rule_member S) zero_rule) v)
      else None)"

section \<open>Loading\<close>

fun load_paths :: "rule \<Rightarrow> string list \<Rightarrow> string list \<Rightarrow> status" where
  "load_paths r seen [] = None"
| "load_paths r seen (p # ps) =
     (if p \<in> set seen \<or> 128 < length p then Some (Err ''invalid reviewed paths'')
      else if \<not> HasPrefix p ''/'' \<or> protectedField p \<or> mgetd [] (r_Shape r) p \<noteq> ''string''
        then Some (Err ''unsafe reviewed normalization'')
      else if mhas (r_Protected r) p then Some (Err ''unsafe reviewed normalization'')
      else if mhas (r_Literals r) p then Some (Err ''unsafe reviewed normalization'')
      else load_paths r (p # seen) ps)"

fun load_rules :: "int \<Rightarrow> string list \<Rightarrow> rule list \<Rightarrow> status" where
  "load_rules now ids [] = None"
| "load_rules now ids (r # rs) =
     (if r_ID r = [] \<or> 128 < length (r_ID r) \<or> r_ID r \<in> set ids \<or> r_Version r < 1 \<or> r_Expires r \<le> now
         \<or> r_At r \<le> 0 \<or> now < r_At r \<or> r_Compiler r = [] \<or> r_Reviewer r = [] \<or> r_ReviewID r = []
         \<or> length (r_Scope r) = 0 \<or> length (r_Shape r) = 0 \<or> 64 < length (r_Normalize r)
      then Some (Err ''invalid or expired reviewed rule'')
      else if r_PrefixClock r \<noteq> [] then Some (Err ''reviewed logger-clock prefix normalization is unsupported'')
      else case load_paths r [] (r_Normalize r) of
        Some e \<Rightarrow> Some e
      | None \<Rightarrow> load_rules now (r_ID r # ids) rs)"

definition LoadRules :: "std \<Rightarrow> string \<Rightarrow> gotime \<Rightarrow> rules result" where
  "LoadRules S raw now =
     (if 1048576 < length raw then Inl (Err ''invalid reviewed rules'')
      else case Strict (dec_struct (rules_member S) \<lparr>rs_Artifact = 0, rs_Schema = 0, rs_Rules = []\<rparr>) raw of
        Inl e \<Rightarrow> Inl (Err ''invalid reviewed rules'')
      | Inr r \<Rightarrow>
         (if rs_Artifact r \<noteq> 2 \<or> rs_Schema r \<noteq> 1 \<or> 256 < length (rs_Rules r) then Inl (Err ''invalid reviewed rules'')
          else case load_rules (Unix now) [] (rs_Rules r) of Some e \<Rightarrow> Inl e | None \<Rightarrow> Inr r))"

section \<open>Applying\<close>

text \<open>JSON pointer escapes: \<open>~\<close> first, then \<open>/\<close>.\<close>

definition pointer_key :: "string \<Rightarrow> string" where
  "pointer_key k = concat (map (\<lambda>c. if c = CHR ''~'' then ''~0'' else if c = CHR ''/'' then ''~1'' else [c]) k)"

definition shape_kind :: "json \<Rightarrow> string" where
  "shape_kind v = (case v of JObj _ \<Rightarrow> ''object'' | JArr _ \<Rightarrow> ''array'' | JStr _ \<Rightarrow> ''string''
     | JNum _ \<Rightarrow> ''number'' | JBool _ \<Rightarrow> ''boolean'' | JNull \<Rightarrow> ''null'')"

text \<open>Every path with its value, in the order \<open>walk\<close> visits them.\<close>

fun walk :: "json \<Rightarrow> string \<Rightarrow> (string \<times> json) list" where
  "walk (JObj kvs) path = (path, JObj kvs) # concat (map (\<lambda>(k, v). walk v (path @ ''/'' @ pointer_key k)) kvs)"
| "walk (JArr vs) path = (path, JArr vs) # concat (map2 (\<lambda>i f. f (path @ ''/'' @ show_nat i)) [0..<length vs] (map walk vs))"
| "walk v path = [(path, v)]"

definition as_map :: "('k \<times> 'v) list \<Rightarrow> ('k, 'v) gomap" where
  "as_map kvs = foldl (\<lambda>m (k, v). mput k v m) [] kvs"

definition walk_values :: "json \<Rightarrow> (string, json) gomap" where
  "walk_values v = as_map (walk v [])"

definition walk_shape :: "json \<Rightarrow> (string, string) gomap" where
  "walk_shape v = as_map (map (\<lambda>(p, x). (p, shape_kind x)) (walk v []))"

definition strmap_json :: "(string, string) gomap \<Rightarrow> json" where
  "strmap_json m = JObj (map (\<lambda>(k, s). (k, JStr s)) m)"

definition value_at :: "(string, json) gomap \<Rightarrow> string \<Rightarrow> json" where
  "value_at m k = mgetd JNull m k"

definition same_values :: "std \<Rightarrow> (string, json) gomap \<Rightarrow> (string, json) gomap \<Rightarrow> bool" where
  "same_values S wanted actual = list_all (\<lambda>(k, l). Hash S (value_at actual k) = Hash S l) wanted"

fun normalize_paths :: "string list \<Rightarrow> string list \<Rightarrow> (string, json) gomap \<Rightarrow> (string, json) gomap option" where
  "normalize_paths seen [] leaves = Some leaves"
| "normalize_paths seen (p # ps) leaves =
     (if p \<in> set seen \<or> 128 < length p then None
      else normalize_paths (p # seen) ps (mput p (JStr ''<reviewed>'') leaves))"

definition is_leaf :: "json \<Rightarrow> bool" where
  "is_leaf v = (case v of JObj _ \<Rightarrow> False | JArr _ \<Rightarrow> False | _ \<Rightarrow> True)"

text \<open>The document of an event under a rule, when the rule applies to it.\<close>

definition rule_document :: "std \<Rightarrow> rule \<Rightarrow> event \<Rightarrow> gotime \<Rightarrow> json option" where
  "rule_document S r e now =
     (if r_Expires r \<le> Unix now \<or> \<not> same_values S (r_Scope r) (ev_Source e) \<or> \<not> HasPrefix (ev_Text e) (r_PrefixText r)
      then None
      else case json_parse (TrimPrefix (ev_Text e) (r_PrefixText r)) of
        None \<Rightarrow> None
      | Some v0 \<Rightarrow>
         (if \<not> unique 0 v0 then None
          else (let v = decode_any v0; values = walk_values v in
            if Hash S (strmap_json (walk_shape v)) = Hash S (strmap_json (r_Shape r))
               \<and> same_values S (r_Literals r) values \<and> same_values S (r_Protected r) values
            then Some v else None)))"

fun rules_template :: "std \<Rightarrow> rule list \<Rightarrow> event \<Rightarrow> gotime \<Rightarrow> string option" where
  "rules_template S [] e now = None"
| "rules_template S (r # rs) e now =
     (case rule_document S r e now of
       None \<Rightarrow> rules_template S rs e now
     | Some v \<Rightarrow>
        (case normalize_paths [] (r_Normalize r) (filter (\<lambda>(p, x). is_leaf x) (walk_values v)) of
          None \<Rightarrow> None
        | Some leaves \<Rightarrow> Some (Hash S (JArr [JStr (r_ID r), JInt (r_Version r), JObj (r_Scope r),
            strmap_json (walk_shape v), JObj leaves]))))"

definition Rules_Template :: "std \<Rightarrow> rules \<Rightarrow> event \<Rightarrow> gotime \<Rightarrow> string option" where
  "Rules_Template S r e now = (if \<not> Eligible e then None else rules_template S (rs_Rules r) e now)"

section \<open>What an accepted set of rules guarantees\<close>

definition rule_ok :: "int \<Rightarrow> rule \<Rightarrow> bool" where
  "rule_ok now r = (now < r_Expires r \<and> 0 < r_At r \<and> r_At r \<le> now \<and> 1 \<le> r_Version r \<and> r_Scope r \<noteq> []
     \<and> distinct (r_Normalize r) \<and> length (r_Normalize r) \<le> 64
     \<and> (\<forall>p \<in> set (r_Normalize r). length p \<le> 128 \<and> \<not> protectedField p \<and> mget (r_Shape r) p = Some ''string''
          \<and> \<not> mhas (r_Protected r) p \<and> \<not> mhas (r_Literals r) p))"

lemma load_paths_None:
  "load_paths r seen ps = None \<Longrightarrow> distinct ps \<and> set ps \<inter> set seen = {} \<and>
    (\<forall>p \<in> set ps. length p \<le> 128 \<and> \<not> protectedField p \<and> mget (r_Shape r) p = Some ''string''
      \<and> \<not> mhas (r_Protected r) p \<and> \<not> mhas (r_Literals r) p)"
proof (induction ps arbitrary: seen)
  case Nil
  then show ?case by simp
next
  case (Cons p ps)
  then have "load_paths r (p # seen) ps = None" by (simp split: if_splits)
  from Cons.IH [OF this] Cons.prems show ?case
    by (auto simp: mgetd_def split: if_splits option.splits)
qed

lemma load_rules_None:
  "load_rules now ids rs = None \<Longrightarrow> distinct (map r_ID rs) \<and> set (map r_ID rs) \<inter> set ids = {} \<and> list_all (rule_ok now) rs"
proof (induction rs arbitrary: ids)
  case Nil
  then show ?case by simp
next
  case (Cons r rs)
  then have p: "load_paths r [] (r_Normalize r) = None" and l: "load_rules now (r_ID r # ids) rs = None"
    by (auto split: if_splits option.splits)
  from load_paths_None [OF p] Cons.IH [OF l] Cons.prems show ?case
    by (auto simp: rule_ok_def split: if_splits)
qed

lemma normalize_paths_accepted:
  "distinct ps \<Longrightarrow> set ps \<inter> set seen = {} \<Longrightarrow> \<forall>p \<in> set ps. length p \<le> 128 \<Longrightarrow>
    normalize_paths seen ps leaves = Some (fold (\<lambda>p. mput p (JStr ''<reviewed>'')) ps leaves)"
  by (induction ps arbitrary: seen leaves) auto

lemma fold_normalize_get:
  "map_of (fold (\<lambda>p. mput p x) ps m) k = (if k \<in> set ps then Some x else map_of m k)"
  by (induction ps arbitrary: m) auto

text \<open>
  rules are accepted only when every one of them is unexpired, reviewed in the past and unique, and
  normalizes only distinct string paths that are neither protected nor pinned by a literal; a template
  then keeps every other leaf of the document, so an accepted rule never merges two documents that
  differ anywhere else.
\<close>

theorem loaded_rules_safe:
  assumes "LoadRules S raw now = Inr r"
  shows "rs_Artifact r = 2 \<and> length (rs_Rules r) \<le> 256 \<and> distinct (map r_ID (rs_Rules r))
    \<and> (\<forall>q \<in> set (rs_Rules r). rule_ok (Unix now) q
        \<and> (\<forall>leaves. \<exists>out. normalize_paths [] (r_Normalize q) leaves = Some out
            \<and> (\<forall>p. mget out p = (if p \<in> set (r_Normalize q) then Some (JStr ''<reviewed>'') else mget leaves p))))"
proof -
  have l: "load_rules (Unix now) [] (rs_Rules r) = None" and a: "rs_Artifact r = 2" "length (rs_Rules r) \<le> 256"
    using assms by (auto simp: LoadRules_def split: if_splits sum.splits option.splits)
  note ok = load_rules_None [OF l]
  have "\<exists>out. normalize_paths [] (r_Normalize q) leaves = Some out
      \<and> (\<forall>p. mget out p = (if p \<in> set (r_Normalize q) then Some (JStr ''<reviewed>'') else mget leaves p))"
    if "rule_ok (Unix now) q" for q leaves
    using that normalize_paths_accepted [of "r_Normalize q" "[]" leaves]
    by (auto simp: rule_ok_def fold_normalize_get)
  with ok a show ?thesis by (auto simp: list_all_iff)
qed

definition sample_rules :: string where
  "sample_rules = map (\<lambda>c. if c = CHR ''~'' then CHR 0x22 else c)
     ''{~artifact_version~:2,~schema_version~:1,~rules~:[{~id~:~a~,~version~:1,~expires_at~:2000,~source_scope~:{~pod~:~x~},~shape~:{~/n~:~string~},~normalize_paths~:[~/n~],~review~:{~reviewer~:~r~,~review_id~:~i~,~compiler~:~c~,~reviewed_at~:900}}]}''"

theorem loaded_rules_safe_witness:
  "\<exists>r q. LoadRules sample_std sample_rules (unix_time 1000) = Inr r \<and> rs_Rules r = [q] \<and> rule_ok 1000 q"
proof -
  have "case LoadRules sample_std sample_rules (unix_time 1000) of Inl e \<Rightarrow> False | Inr r \<Rightarrow> length (rs_Rules r) = 1"
    by code_simp
  then obtain r where r: "LoadRules sample_std sample_rules (unix_time 1000) = Inr r" "length (rs_Rules r) = 1"
    by (auto split: sum.splits)
  then obtain q where "rs_Rules r = [q]" by (auto simp: length_Suc_conv)
  with loaded_rules_safe [OF r(1)] r show ?thesis by auto
qed

end
