(* ===== verification/Grouper.thy ===== *)
theory Grouper
  imports ReviewedRules Bounded
begin

text \<open>
  The grouper of \<open>internal/analysis/group.go\<close>: one partition per template with its ticket, its verdict
  and the bounds of that verdict, at most \<open>capacity\<close> partitions with least-recently-seen eviction.
  Sequence and generation numbers are Go \<open>uint64\<close>; they count events, so they are naturals here and the
  one place where \<open>2^64 - 1\<close> is visible (the start of the eviction loop) is written out.
\<close>

record ticket =
  tk_Key :: string
  tk_TemplateID :: string
  tk_VersionID :: string
  tk_Generation :: nat

definition no_ticket :: ticket where
  "no_ticket = \<lparr>tk_Key = [], tk_TemplateID = [], tk_VersionID = [], tk_Generation = 0\<rparr>"

record partition =
  pt_ticket :: ticket
  pt_seen :: nat
  pt_verdict :: Judgment
  pt_expires :: gotime
  pt_observed :: gotime
  pt_refresh :: bool
  pt_representative :: string
  pt_last :: nat
  pt_auditAt :: nat
  pt_interval :: nat

record grouper =
  g_strategy :: string
  g_masking :: string
  g_capacity :: nat
  g_ttl :: int
  g_entries :: "(string, partition) gomap"
  g_generation :: nat
  g_sequence :: nat
  g_adaptive :: bool
  g_maxInterval :: nat
  g_review :: "string list"
  g_rules :: "rules option"
  g_observed :: gotime

definition NewGrouper :: "string \<Rightarrow> string \<Rightarrow> nat \<Rightarrow> int \<Rightarrow> bool \<Rightarrow> nat \<Rightarrow> grouper" where
  "NewGrouper strategy masking capacity ttl adaptive maxInterval =
     \<lparr>g_strategy = strategy, g_masking = masking, g_capacity = capacity, g_ttl = ttl, g_entries = [],
      g_generation = 0, g_sequence = 0, g_adaptive = adaptive, g_maxInterval = maxInterval, g_review = [],
      g_rules = None, g_observed = zero_time\<rparr>"

definition Veto :: "string list \<Rightarrow> grouper \<Rightarrow> grouper" where
  "Veto ids g = g\<lparr>g_review := fold List.insert ids (g_review g)\<rparr>"

section \<open>Finding the partition\<close>

text \<open>The template of an event with its kind and scope, or why it has none.\<close>

definition rules_template_of :: "std \<Rightarrow> grouper \<Rightarrow> event \<Rightarrow> gotime \<Rightarrow> string option" where
  "rules_template_of S g e now = (case g_rules g of None \<Rightarrow> None | Some r \<Rightarrow> Rules_Template S r e now)"

definition normalize_event :: "std \<Rightarrow> grouper \<Rightarrow> event \<Rightarrow> gotime \<Rightarrow> string + (string \<times> string \<times> source)" where
  "normalize_event S g e now =
     (if g_strategy g = ''off'' \<or> \<not> Eligible e then Inl ''ineligible''
      else if g_strategy g = ''semantic'' \<and> g_rules g = None then Inl ''shadow_only''
      else if g_strategy g = ''semantic'' \<and> rules_template_of S g e now = None then Inl ''reviewed_miss''
      else case rules_template_of S g e now of
        Some t \<Rightarrow> Inr (t, ''reviewed'', ev_Source e)
      | None \<Rightarrow> Inr (if g_strategy g = ''drain'' then Template (ev_Text e) (g_masking g = ''classic'') else ev_Text e,
                   g_strategy g, Scope e (g_strategy g = ''drain'')))"

definition version_id :: "std \<Rightarrow> grouper \<Rightarrow> string \<Rightarrow> string \<Rightarrow> string" where
  "version_id S g kind template =
     Hash S (JArr [JStr ''go-template-version-v2'', JStr (g_strategy g), JStr (g_masking g), JStr kind, JStr template])"

definition template_key :: "std \<Rightarrow> source \<Rightarrow> string \<Rightarrow> bool \<Rightarrow> string" where
  "template_key S scope version important =
     Hash S (JArr [JStr ''go-template-v2'', JObj scope, JStr version, JBool important])"

definition max_uint64 :: nat where
  "max_uint64 = 2 ^ 64 - 1"

text \<open>The least recently seen partition, as the loop over the map finds it.\<close>

definition oldest_entry :: "(string, partition) gomap \<Rightarrow> string" where
  "oldest_entry m = fst (foldl (\<lambda>(o', low) (k, p). if pt_last p < low then (k, pt_last p) else (o', low)) ([], max_uint64) m)"

definition make_place :: "nat \<Rightarrow> string \<Rightarrow> (string, partition) gomap \<Rightarrow> (string, partition) gomap" where
  "make_place capacity key m =
     (if mhas m key then m else if capacity \<le> length m then mdel (oldest_entry m) m else m)"

definition fresh_partition :: "string \<Rightarrow> string \<Rightarrow> nat \<Rightarrow> partition" where
  "fresh_partition key version gen =
     \<lparr>pt_ticket = \<lparr>tk_Key = key, tk_TemplateID = key, tk_VersionID = version, tk_Generation = gen\<rparr>,
      pt_seen = 0, pt_verdict = verdict [] [] [], pt_expires = zero_time, pt_observed = zero_time,
      pt_refresh = False, pt_representative = [], pt_last = 0, pt_auditAt = 0, pt_interval = 16\<rparr>"

definition find_partition :: "string \<Rightarrow> string \<Rightarrow> grouper \<Rightarrow> grouper \<times> partition" where
  "find_partition key version g =
     (let g1 = g\<lparr>g_sequence := g_sequence g + 1\<rparr> in
      case mget (g_entries g) key of
        Some p \<Rightarrow> (g1, p)
      | None \<Rightarrow>
         (let p = fresh_partition key version (g_generation g + 1) in
          (g1\<lparr>g_generation := g_generation g + 1,
              g_entries := mput key p (make_place (g_capacity g) key (g_entries g))\<rparr>, p)))"

section \<open>Serving a verdict\<close>

definition Abandon :: "partition \<Rightarrow> partition" where
  "Abandon p = p\<lparr>pt_verdict := Unknown []\<rparr>"

text \<open>The rest of \<open>Observe\<close>, on a partition whose counters were updated.\<close>

definition serve :: "grouper \<Rightarrow> partition \<Rightarrow> gotime \<Rightarrow> grouper \<times> partition \<times> Judgment option \<times> string" where
  "serve g p now =
     (if tk_TemplateID (pt_ticket p) \<in> set (g_review g) then (g, Abandon p, None, ''review_required'')
      else let wall_now = Round0 now;
               rollback = (\<not> IsZero (g_observed g) \<and> Before wall_now (g_observed g));
               g1 = (if IsZero (g_observed g) \<or> After wall_now (g_observed g) then g\<lparr>g_observed := wall_now\<rparr> else g);
               p1 = p\<lparr>pt_observed := wall_now\<rparr> in
      if rollback then (g1, Abandon (p1\<lparr>pt_refresh := True\<rparr>), None, ''clock_rollback'')
      else if pt_refresh p1 \<or> (Reusable (pt_verdict p1) \<and>
                (\<not> Before now (pt_expires p1) \<or> \<not> CacheValidAt (pt_verdict p1) now))
        then (g1, Abandon (p1\<lparr>pt_refresh := True\<rparr>), None, ''cache_expired'')
      else if Reusable (pt_verdict p1) then
        (if \<not> g_adaptive g \<or> pt_seen p1 < pt_auditAt p1 then (g1, p1, Some (pt_verdict p1), ''cached'')
         else (g1, Abandon p1, None, ''stable_audit''))
      else (g1, p1, None, ''new_or_expired''))"

definition Observe :: "std \<Rightarrow> grouper \<Rightarrow> event \<Rightarrow> gotime \<Rightarrow> grouper \<times> ticket \<times> Judgment option \<times> string" where
  "Observe S g e now =
     (case normalize_event S g e now of
       Inl reason \<Rightarrow> (g, no_ticket, None, reason)
     | Inr (template, kind, scope) \<Rightarrow>
        (let version = version_id S g kind template;
             key = template_key S scope version (Important (ev_Baseline e));
             (g1, p) = find_partition key version g;
             p1 = p\<lparr>pt_last := g_sequence g1, pt_seen := pt_seen p + 1\<rparr>;
             (g2, p2, cached, reason) = serve g1 p1 now in
         (g2\<lparr>g_entries := mput key p2 (g_entries g2)\<rparr>, pt_ticket p2, cached, reason)))"

definition Current :: "ticket \<Rightarrow> grouper \<Rightarrow> bool" where
  "Current t g = (case mget (g_entries g) (tk_Key t) of None \<Rightarrow> False | Some p \<Rightarrow> pt_ticket p = t)"

definition Invalidate :: "ticket \<Rightarrow> grouper \<Rightarrow> grouper" where
  "Invalidate t g = (case mget (g_entries g) (tk_Key t) of
     None \<Rightarrow> g
   | Some p \<Rightarrow> if pt_ticket p = t then g\<lparr>g_entries := mput (tk_Key t) (Abandon p) (g_entries g)\<rparr> else g)"

section \<open>Publishing a verdict\<close>

definition minTime :: "gotime \<Rightarrow> gotime \<Rightarrow> gotime" where
  "minTime a b = (if Before a b then a else b)"

definition publish_in :: "grouper \<Rightarrow> partition \<Rightarrow> Judgment \<Rightarrow> string \<Rightarrow> gotime \<Rightarrow> partition \<times> bool" where
  "publish_in g p j representative now =
     (if \<not> Reusable j then ((Abandon p)\<lparr>pt_interval := 16\<rparr>, False)
      else if (\<not> IsZero (pt_observed p) \<and> Before (Round0 now) (pt_observed p)) \<or> \<not> CacheValidAt j now
        then ((Abandon p)\<lparr>pt_refresh := True\<rparr>, False)
      else let e0 = Add now (g_ttl g);
               expires = (if IsZero (CacheDeadline j) then e0 else minTime e0 (CacheDeadline j));
               interval = (if Importance j = ''routine'' then min (g_maxInterval g) (max 32 (pt_interval p * 2)) else 32) in
        (p\<lparr>pt_refresh := False, pt_verdict := j, pt_observed := Round0 now, pt_representative := representative,
           pt_expires := expires, pt_interval := interval, pt_auditAt := pt_seen p + interval\<rparr>, True))"

definition Publish :: "ticket \<Rightarrow> Judgment \<Rightarrow> string \<Rightarrow> gotime \<Rightarrow> grouper \<Rightarrow> grouper \<times> bool" where
  "Publish t j representative now g =
     (case mget (g_entries g) (tk_Key t) of
       None \<Rightarrow> (g, False)
     | Some p \<Rightarrow>
        (if pt_ticket p \<noteq> t \<or> tk_TemplateID t \<in> set (g_review g) then (g, False)
         else (case publish_in g p j representative now of
           (p', ok) \<Rightarrow> (g\<lparr>g_entries := mput (tk_Key t) p' (g_entries g)\<rparr>, ok))))"

record checkpoint_row =
  ck_TemplateID :: string
  ck_VersionID :: string
  ck_Seen :: nat
  ck_Generation :: nat

definition Checkpoint :: "grouper \<Rightarrow> checkpoint_row list" where
  "Checkpoint g = sort_key ck_TemplateID (map (\<lambda>(k, p).
     \<lparr>ck_TemplateID = tk_TemplateID (pt_ticket p), ck_VersionID = tk_VersionID (pt_ticket p),
      ck_Seen = pt_seen p, ck_Generation = tk_Generation (pt_ticket p)\<rparr>) (g_entries g))"

section \<open>Partitions are a bounded store\<close>

definition entries_inv :: "(string, partition) gomap \<Rightarrow> bool" where
  "entries_inv m = (wf_map m \<and> (\<forall>(k, p) \<in> set m. pt_last p < max_uint64))"

lemma oldest_fold:
  "snd (foldl (\<lambda>(o', low) (k, p). if pt_last p < low then (k, pt_last p) else (o', low)) (o0, n) m) < n
    \<Longrightarrow> fst (foldl (\<lambda>(o', low) (k, p). if pt_last p < low then (k, pt_last p) else (o', low)) (o0, n) m) \<in> fst ` set m"
proof (induction m arbitrary: o0 n)
  case Nil
  then show ?case by simp
next
  case (Cons kp m)
  obtain k p where kp: "kp = (k, p)" by fastforce
  let ?F = "foldl (\<lambda>(o', low) (k, p). if pt_last p < low then (k, pt_last p) else (o', low))"
  show ?case
  proof (cases "pt_last p < n")
    case False
    with Cons.prems Cons.IH [of o0 n] show ?thesis by (simp add: kp)
  next
    case True
    show ?thesis
    proof (cases "snd (?F (k, pt_last p) m) < pt_last p")
      case less: True
      with Cons.IH [of k "pt_last p"] True show ?thesis by (simp add: kp)
    next
      case False
      have "snd (?F (o1, l) m) \<le> l \<and> (snd (?F (o1, l) m) = l \<longrightarrow> ?F (o1, l) m = (o1, l))" for o1 l
      proof (induction m arbitrary: o1 l)
        case Nil
        then show ?case by simp
      next
        case (Cons y ys)
        show ?case using Cons [of "fst y" "pt_last (snd y)"] Cons [of o1 l] by (cases y) auto
      qed
      from this [of k "pt_last p"] False have "?F (k, pt_last p) m = (k, pt_last p)" by auto
      with True show ?thesis by (simp add: kp)
    qed
  qed
qed

lemma oldest_entry_in:
  assumes "m \<noteq> []" and "\<forall>(k, p) \<in> set m. pt_last p < max_uint64"
  shows "oldest_entry m \<in> fst ` set m"
proof -
  let ?F = "foldl (\<lambda>(o', low) (k, p). if pt_last p < low then (k, pt_last p) else (o', low))"
  have le: "snd (?F (o1, l) m) \<le> l" for o1 l m
  proof (induction m arbitrary: o1 l)
    case Nil
    then show ?case by simp
  next
    case (Cons y ys)
    show ?case using Cons [of "fst y" "pt_last (snd y)"] Cons [of o1 l] by (cases y) auto
  qed
  obtain k p m' where m: "m = (k, p) # m'" using assms(1) by (cases m) auto
  have "pt_last p < max_uint64" using assms(2) m by auto
  then have "snd (?F ([], max_uint64) m) < max_uint64" using le [of k "pt_last p" m'] by (simp add: m)
  from oldest_fold [OF this] show ?thesis by (simp add: oldest_entry_def)
qed

lemma make_place_inv: "entries_inv m \<Longrightarrow> entries_inv (make_place c key m)"
  by (auto simp: entries_inv_def make_place_def set_mdel)

lemma make_place_le: "length (make_place c key m) \<le> length m"
  by (simp add: make_place_def length_mdel_le)

lemma make_place_free:
  assumes "entries_inv m" and "length m \<le> Suc n"
  shows "mhas (make_place (Suc n) key m) key \<or> length (make_place (Suc n) key m) < Suc n"
proof (cases "\<not> mhas m key \<and> Suc n \<le> length m")
  case True
  then have "m \<noteq> []" by auto
  with assms(1) have "oldest_entry m \<in> fst ` set m" by (intro oldest_entry_in) (auto simp: entries_inv_def)
  with assms(1) have "Suc (length (mdel (oldest_entry m) m)) = length m" by (simp add: length_mdel entries_inv_def)
  with True assms(2) show ?thesis by (simp add: make_place_def)
next
  case False
  then show ?thesis by (auto simp: make_place_def)
qed

lemma entries_inv_put: "entries_inv m \<Longrightarrow> pt_last p < max_uint64 \<Longrightarrow> entries_inv (mput k p m)"
  by (auto simp: entries_inv_def set_mput_wf)

interpretation parts: bounded_store entries_inv mhas length "\<lambda>k m. (make_place (Suc n) k m, True)" mput
    "\<lambda>p. pt_last p < max_uint64" "Suc n"
  for n
  by unfold_locales (auto simp: make_place_inv make_place_le make_place_free entries_inv_put length_mput)

section \<open>The grouper invariant\<close>

definition partition_ok :: "nat \<Rightarrow> nat \<Rightarrow> string \<times> partition \<Rightarrow> bool" where
  "partition_ok gen seq kp = (case kp of (k, p) \<Rightarrow> tk_Key (pt_ticket p) = k \<and> tk_TemplateID (pt_ticket p) = k
     \<and> 1 \<le> tk_Generation (pt_ticket p) \<and> tk_Generation (pt_ticket p) \<le> gen \<and> pt_last p \<le> seq)"

definition grouper_inv :: "grouper \<Rightarrow> bool" where
  "grouper_inv g =
     (1 \<le> g_capacity g \<and> g_sequence g < max_uint64 \<and> wf_map (g_entries g) \<and> length (g_entries g) \<le> g_capacity g
      \<and> (\<forall>kp \<in> set (g_entries g). partition_ok (g_generation g) (g_sequence g) kp)
      \<and> (\<forall>(k, p) \<in> set (g_entries g). \<forall>(k', p') \<in> set (g_entries g).
           tk_Generation (pt_ticket p) = tk_Generation (pt_ticket p') \<longrightarrow> k = k'))"

lemma grouper_inv_entries: "grouper_inv g \<Longrightarrow> entries_inv (g_entries g)"
  by (force simp: grouper_inv_def entries_inv_def partition_ok_def)

lemma grouper_inv_New: "1 \<le> capacity \<Longrightarrow> grouper_inv (NewGrouper strategy masking capacity ttl adaptive maxInterval)"
  by (simp add: grouper_inv_def NewGrouper_def max_uint64_def)

lemma grouper_invI:
  assumes "1 \<le> g_capacity g'" and "g_sequence g' < max_uint64" and "wf_map m" and "length m \<le> g_capacity g"
    and "\<forall>kp \<in> set m. partition_ok n l kp"
    and "\<forall>(k, p) \<in> set m. \<forall>(k', p') \<in> set m. tk_Generation (pt_ticket p) = tk_Generation (pt_ticket p') \<longrightarrow> k = k'"
    and "g_entries g' = m" and "g_capacity g' = g_capacity g" and "g_generation g' = n" and "g_sequence g' = l"
  shows "grouper_inv g'"
  unfolding grouper_inv_def assms(7-10) using assms(1-6) unfolding assms(7-10) by blast

lemma generation_unique:
  "grouper_inv g \<Longrightarrow> (k1, p1) \<in> set (g_entries g) \<Longrightarrow> (k2, p2) \<in> set (g_entries g) \<Longrightarrow>
    tk_Generation (pt_ticket p1) = tk_Generation (pt_ticket p2) \<Longrightarrow> k1 = k2"
  unfolding grouper_inv_def by fast

text \<open>Replacing a partition by one with the same ticket.\<close>

lemma grouper_inv_update:
  assumes "grouper_inv g" and "mget (g_entries g) k = Some p" and "pt_ticket p' = pt_ticket p" and "pt_last p' \<le> g_sequence g"
  shows "grouper_inv (g\<lparr>g_entries := mput k p' (g_entries g)\<rparr>)"
proof -
  have wf: "wf_map (g_entries g)" using assms(1) by (simp add: grouper_inv_def)
  have in_: "(k, p) \<in> set (g_entries g)" using assms(2) by (rule map_of_SomeD)
  then have has: "mhas (g_entries g) k" by (force simp: mhas_iff)
  have set: "set (mput k p' (g_entries g)) = insert (k, p') {x \<in> set (g_entries g). fst x \<noteq> k}"
    using wf by (rule set_mput_wf)
  have u: "k1 = k2" if "(k1, p1) \<in> set (g_entries g)" "(k2, p2) \<in> set (g_entries g)"
    "tk_Generation (pt_ticket p1) = tk_Generation (pt_ticket p2)" for k1 p1 k2 p2
    using assms(1) that unfolding grouper_inv_def by fast
  have gen: "k1 = k2" if "(k1, p1) \<in> set (mput k p' (g_entries g))" "(k2, p2) \<in> set (mput k p' (g_entries g))"
    "tk_Generation (pt_ticket p1) = tk_Generation (pt_ticket p2)" for k1 p1 k2 p2
    using that unfolding set by (auto simp: assms(3) dest: u [OF _ in_] u [OF in_] u)
  have ok: "partition_ok (g_generation g) (g_sequence g) kp" if "kp \<in> set (mput k p' (g_entries g))" for kp
    using that assms(1,3,4) in_ unfolding set by (auto simp: grouper_inv_def partition_ok_def)
  show ?thesis
    using assms(1) has wf gen ok by (auto simp: grouper_inv_def length_mput)
qed

lemma grouper_inv_observed [simp]: "grouper_inv (g\<lparr>g_observed := t\<rparr>) = grouper_inv g"
  by (simp add: grouper_inv_def)

lemma grouper_inv_sequence:
  "grouper_inv g \<Longrightarrow> g_sequence g + 1 < max_uint64 \<Longrightarrow> grouper_inv (g\<lparr>g_sequence := g_sequence g + 1\<rparr>)"
  by (force simp: grouper_inv_def partition_ok_def)

lemma grouper_inv_insert:
  assumes "grouper_inv g" and "mget (g_entries g) key = None"
  shows "grouper_inv (g\<lparr>g_generation := g_generation g + 1,
     g_entries := mput key (fresh_partition key version (g_generation g + 1)) (make_place (g_capacity g) key (g_entries g))\<rparr>)"
proof -
  let ?m = "make_place (g_capacity g) key (g_entries g)" and ?p = "fresh_partition key version (g_generation g + 1)"
  obtain n where n: "g_capacity g = Suc n" using assms(1) by (cases "g_capacity g") (auto simp: grouper_inv_def)
  have e: "parts.bounded n (g_entries g)"
    using grouper_inv_entries [OF assms(1)] assms(1) n by (simp add: parts.bounded_def grouper_inv_def)
  have b: "parts.bounded n (mput key ?p ?m)"
    using parts.bounded_put_room [OF e, of key ?p] by (simp add: n fresh_partition_def max_uint64_def)
  have sub: "set ?m \<subseteq> set (g_entries g)" by (auto simp: make_place_def set_mdel)
  have wf: "wf_map ?m" using assms(1) by (auto simp: make_place_def grouper_inv_def)
  have set: "set (mput key ?p ?m) = insert (key, ?p) {x \<in> set ?m. fst x \<noteq> key}" using wf by (rule set_mput_wf)
  have old: "tk_Generation (pt_ticket p) \<le> g_generation g" if "(k, p) \<in> set ?m" for k p
    using assms(1) that sub by (auto simp: grouper_inv_def partition_ok_def)
  have u: "k1 = k2" if "(k1, p1) \<in> set ?m" "(k2, p2) \<in> set ?m"
    "tk_Generation (pt_ticket p1) = tk_Generation (pt_ticket p2)" for k1 p1 k2 p2
    using generation_unique [OF assms(1) subsetD [OF sub that(1)] subsetD [OF sub that(2)] that(3)] .
  have fresh: "tk_Generation (pt_ticket ?p) = Suc (g_generation g)" by (simp add: fresh_partition_def)
  have gen: "k1 = k2" if "(k1, p1) \<in> set (mput key ?p ?m)" "(k2, p2) \<in> set (mput key ?p ?m)"
    "tk_Generation (pt_ticket p1) = tk_Generation (pt_ticket p2)" for k1 p1 k2 p2
  proof -
    from that(1,2) consider "k1 = key" "k2 = key" | "p1 = ?p" "(k2, p2) \<in> set ?m" | "p2 = ?p" "(k1, p1) \<in> set ?m"
      | "(k1, p1) \<in> set ?m" "(k2, p2) \<in> set ?m" unfolding set by auto
    then show ?thesis
    proof cases
      case 2
      with old [of k2 p2] that(3) fresh show ?thesis by simp
    next
      case 3
      with old [of k1 p1] that(3) fresh show ?thesis by simp
    next
      case 4
      with u that(3) show ?thesis by blast
    qed simp
  qed
  have ok: "partition_ok (g_generation g + 1) (g_sequence g) kp" if "kp \<in> set (mput key ?p ?m)" for kp
  proof -
    from that consider "kp = (key, ?p)" | "kp \<in> set (g_entries g)" unfolding set using sub by auto
    then show ?thesis
    proof cases
      case 1
      then show ?thesis by (simp add: partition_ok_def fresh_partition_def)
    next
      case 2
      then have "partition_ok (g_generation g) (g_sequence g) kp" using assms(1) by (simp add: grouper_inv_def)
      then show ?thesis by (auto simp: partition_ok_def)
    qed
  qed
  have cap: "length (mput key ?p ?m) \<le> g_capacity g" using b n by (simp add: parts.bounded_def)
  have uniq: "\<forall>(k, p) \<in> set (mput key ?p ?m). \<forall>(k', p') \<in> set (mput key ?p ?m).
      tk_Generation (pt_ticket p) = tk_Generation (pt_ticket p') \<longrightarrow> k = k'"
    by (intro ballI case_prodI2 impI) (use gen in blast)
  have ok': "\<forall>kp \<in> set (mput key ?p ?m). partition_ok (g_generation g + 1) (g_sequence g) kp" using ok by blast
  have wf': "wf_map (mput key ?p ?m)" using wf by simp
  have base: "1 \<le> g_capacity g" "g_sequence g < max_uint64" using assms(1) by (simp_all add: grouper_inv_def)
  show ?thesis
    by (rule grouper_invI [OF _ _ wf' cap ok' uniq]) (use base in simp_all)
qed

section \<open>Steps\<close>

lemma serve_facts:
  assumes "serve g p now = (g', p', cached, reason)"
  shows "(g' = g \<or> g' = g\<lparr>g_observed := Round0 now\<rparr>) \<and> pt_ticket p' = pt_ticket p \<and> pt_last p' = pt_last p
    \<and> (\<forall>j. cached = Some j \<longrightarrow> reason = ''cached'' \<and> j = pt_verdict p \<and> pt_verdict p' = j \<and> Reusable j
         \<and> CacheValidAt j now \<and> Before now (pt_expires p) \<and> \<not> pt_refresh p
         \<and> tk_TemplateID (pt_ticket p) \<notin> set (g_review g)
         \<and> (IsZero (g_observed g) \<or> \<not> Before (Round0 now) (g_observed g)))
    \<and> (cached = None \<longrightarrow> reason \<noteq> ''cached'')"
  using assms by (auto simp: serve_def Let_def Abandon_def split: if_splits)

lemma find_partition_facts:
  assumes "grouper_inv g" and "g_sequence g + 1 < max_uint64" and "find_partition key version g = (g', p)"
  shows "grouper_inv g' \<and> mget (g_entries g') key = Some p \<and> g_sequence g' = g_sequence g + 1
    \<and> g_generation g \<le> g_generation g' \<and> g_review g' = g_review g \<and> g_observed g' = g_observed g
    \<and> g_capacity g' = g_capacity g
    \<and> (mget (g_entries g) key = Some p \<and> g_generation g' = g_generation g \<and> g_entries g' = g_entries g
       \<or> mget (g_entries g) key = None \<and> p = fresh_partition key version (g_generation g + 1)
         \<and> g_generation g' = g_generation g + 1
         \<and> set (g_entries g') \<subseteq> insert (key, p) (set (g_entries g)))"
proof (cases "mget (g_entries g) key")
  case None
  let ?p = "fresh_partition key version (g_generation g + 1)"
  let ?g = "g\<lparr>g_generation := g_generation g + 1, g_entries := mput key ?p (make_place (g_capacity g) key (g_entries g))\<rparr>"
  have g': "g' = ?g\<lparr>g_sequence := g_sequence ?g + 1\<rparr>" and p: "p = ?p"
    using assms(3) None by (auto simp: find_partition_def Let_def)
  have inv: "grouper_inv ?g" by (rule grouper_inv_insert [OF assms(1) None])
  have "g_sequence ?g + 1 < max_uint64" using assms(2) by simp
  from grouper_inv_sequence [OF inv this] have inv': "grouper_inv g'" by (simp only: g')
  have "set (g_entries g') \<subseteq> insert (key, p) (set (g_entries g))"
    using g' p by (auto dest!: set_mputD simp: make_place_def set_mdel split: if_splits)
  with inv' g' p None show ?thesis by simp
next
  case (Some q)
  with assms grouper_inv_sequence [OF assms(1,2)] show ?thesis
    by (auto simp: find_partition_def Let_def)
qed

lemma Observe_facts:
  assumes "grouper_inv g" and "g_sequence g + 1 < max_uint64" and "Observe S g e now = (g', t, cached, reason)"
  shows "grouper_inv g' \<and> g_generation g \<le> g_generation g' \<and> g_capacity g' = g_capacity g
    \<and> (\<forall>t0. tk_Generation t0 \<le> g_generation g \<longrightarrow> Current t0 g' \<longrightarrow> Current t0 g)
    \<and> (tk_Key t \<noteq> [] \<longrightarrow> Current t g')"
proof (cases "normalize_event S g e now")
  case (Inl r)
  with assms show ?thesis by (auto simp: Observe_def no_ticket_def)
next
  case (Inr x)
  obtain template kind scope where x: "x = (template, kind, scope)" by (cases x) auto
  let ?v = "version_id S g kind template"
  let ?k = "template_key S scope ?v (Important (ev_Baseline e))"
  obtain g1 p where f: "find_partition ?k ?v g = (g1, p)" by fastforce
  let ?p1 = "p\<lparr>pt_last := g_sequence g1, pt_seen := pt_seen p + 1\<rparr>"
  obtain g2 p2 c r where s: "serve g1 ?p1 now = (g2, p2, c, r)" by (metis prod_cases4)
  have o: "g' = g2\<lparr>g_entries := mput ?k p2 (g_entries g2)\<rparr>" "t = pt_ticket p2" "cached = c" "reason = r"
    using assms(3) Inr x f s by (simp_all add: Observe_def Let_def)
  note F = find_partition_facts [OF assms(1,2) f]
  note G = serve_facts [OF s]
  have m2: "mget (g_entries g2) ?k = Some p" "g_sequence g2 = g_sequence g1" "grouper_inv g2" "g_entries g2 = g_entries g1"
    "g_generation g2 = g_generation g1" "g_capacity g2 = g_capacity g1"
  proof -
    have f1: "mget (g_entries g1) ?k = Some p" "grouper_inv g1" using F by blast+
    have "g2 = g1 \<or> g2 = g1\<lparr>g_observed := Round0 now\<rparr>" using G by blast
    then have e: "g_entries g2 = g_entries g1" "g_sequence g2 = g_sequence g1" "g_generation g2 = g_generation g1"
      "g_capacity g2 = g_capacity g1" and i: "grouper_inv g2 = grouper_inv g1" by (elim disjE; simp)+
    show "mget (g_entries g2) ?k = Some p" "grouper_inv g2" "g_sequence g2 = g_sequence g1"
      "g_entries g2 = g_entries g1" "g_generation g2 = g_generation g1" "g_capacity g2 = g_capacity g1"
      using f1 e i by (simp_all only:)
  qed
  have inv: "grouper_inv g'"
    unfolding o(1) using grouper_inv_update [OF m2(3,1)] G m2(2) by simp
  have cur: "Current t0 g" if "tk_Generation t0 \<le> g_generation g" "Current t0 g'" for t0
  proof -
    have "mget (mput ?k p2 (g_entries g2)) (tk_Key t0) = Some q \<Longrightarrow> pt_ticket q = t0 \<Longrightarrow>
        \<exists>q'. mget (g_entries g1) (tk_Key t0) = Some q' \<and> pt_ticket q' = t0" for q
      using m2(1,4) G by (auto split: if_splits)
    with that(2) o(1) obtain q' where q': "mget (g_entries g1) (tk_Key t0) = Some q'" "pt_ticket q' = t0"
      by (auto simp: Current_def split: option.splits)
    have wf: "wf_map (g_entries g)" using assms(1) by (simp add: grouper_inv_def)
    from F show ?thesis
    proof (elim conjE disjE)
      assume "g_entries g1 = g_entries g"
      with q' show ?thesis by (simp add: Current_def)
    next
      assume new: "p = fresh_partition ?k ?v (g_generation g + 1)"
        and sub: "set (g_entries g1) \<subseteq> insert (?k, p) (set (g_entries g))"
      have "(tk_Key t0, q') \<noteq> (?k, p)" using q'(2) new that(1) by (auto simp: fresh_partition_def)
      with q'(1) sub have "(tk_Key t0, q') \<in> set (g_entries g)" by (auto dest!: map_of_SomeD)
      with wf q'(2) show ?thesis by (simp add: Current_def)
    qed
  qed
  have "tk_Key (pt_ticket p) = ?k"
    using m2(1,3) by (auto simp: grouper_inv_def partition_ok_def dest!: map_of_SomeD)
  then have "Current t g'" using o G by (simp add: Current_def)
  with inv cur F m2 o show ?thesis by auto
qed

section \<open>Reachable groupers\<close>

text \<open>One call of the grouper's interface; the guard says the 64-bit event counter has not run out.\<close>

inductive gstep :: "std \<Rightarrow> grouper \<Rightarrow> grouper \<Rightarrow> bool" for S :: std where
  observe: "g_sequence g + 1 < max_uint64 \<Longrightarrow> Observe S g e now = (g', t, cached, reason) \<Longrightarrow> gstep S g g'"
| publish: "Publish t j r now g = (g', ok) \<Longrightarrow> gstep S g g'"
| invalidate: "gstep S g (Invalidate t g)"
| veto: "gstep S g (Veto ids g)"

inductive_cases gstepE: "gstep S g g'"

lemma publish_in_ticket: "pt_ticket (fst (publish_in g p j r now)) = pt_ticket p \<and> pt_last (fst (publish_in g p j r now)) = pt_last p"
  by (simp add: publish_in_def Abandon_def Let_def)

lemma grouper_inv_last: "grouper_inv g \<Longrightarrow> mget (g_entries g) k = Some p \<Longrightarrow> pt_last p \<le> g_sequence g"
  by (auto simp: grouper_inv_def partition_ok_def dest!: map_of_SomeD)

lemma Publish_inv:
  assumes "grouper_inv g"
  shows "grouper_inv (fst (Publish t j r now g))"
proof (cases "mget (g_entries g) (tk_Key t)")
  case None
  with assms show ?thesis by (simp add: Publish_def)
next
  case (Some p)
  with grouper_inv_update [OF assms Some, of "fst (publish_in g p j r now)"] publish_in_ticket [of g p j r now]
    grouper_inv_last [OF assms Some] assms
  show ?thesis by (simp add: Publish_def case_prod_beta)
qed

lemma Invalidate_inv:
  assumes "grouper_inv g"
  shows "grouper_inv (Invalidate t g)"
proof (cases "mget (g_entries g) (tk_Key t)")
  case None
  with assms show ?thesis by (simp add: Invalidate_def)
next
  case (Some p)
  with grouper_inv_update [OF assms Some, of "Abandon p"] grouper_inv_last [OF assms Some] assms
  show ?thesis by (simp add: Invalidate_def Abandon_def)
qed

lemma Veto_inv: "grouper_inv (Veto ids g) = grouper_inv g"
  by (simp add: Veto_def grouper_inv_def)

lemma gstep_inv: "gstep S g g' \<Longrightarrow> grouper_inv g \<Longrightarrow> grouper_inv g'"
proof (induction rule: gstep.induct)
  case (observe g e now g' t cached reason)
  from Observe_facts [OF observe(3,1,2)] show ?case by blast
next
  case (publish t j r now g g' ok)
  with Publish_inv [of g t j r now] show ?case by simp
qed (simp_all add: Invalidate_inv Veto_inv)

lemma gsteps_inv: "(gstep S)\<^sup>*\<^sup>* g g' \<Longrightarrow> grouper_inv g \<Longrightarrow> grouper_inv g'"
  by (induction rule: rtranclp_induct) (auto intro: gstep_inv)

text \<open>Tickets of older generations never become current again.\<close>

lemma Current_update: "mget (g_entries g) k = Some p \<Longrightarrow> pt_ticket p' = pt_ticket p \<Longrightarrow>
    Current t (g\<lparr>g_entries := mput k p' (g_entries g)\<rparr>) = Current t g"
  by (simp add: Current_def split: option.splits)

lemma Publish_Current: "Current t0 (fst (Publish t j r now g)) = Current t0 g"
  using publish_in_ticket [of g _ j r now]
  by (auto simp: Publish_def case_prod_beta Current_update split: option.splits)

lemma Invalidate_Current: "Current t0 (Invalidate t g) = Current t0 g"
  by (auto simp: Invalidate_def Abandon_def Current_update split: option.splits)

lemma Publish_generation: "g_generation (fst (Publish t j r now g)) = g_generation g"
  by (simp add: Publish_def case_prod_beta split: option.splits)

lemma gstep_stale:
  "gstep S g g' \<Longrightarrow> grouper_inv g \<Longrightarrow> tk_Generation t \<le> g_generation g \<Longrightarrow> \<not> Current t g
    \<Longrightarrow> \<not> Current t g' \<and> g_generation g \<le> g_generation g'"
proof (induction rule: gstep.induct)
  case (observe g e now g' t' cached reason)
  from Observe_facts [OF observe(3,1,2)] observe(4,5) show ?case by blast
next
  case (publish t' j r now g g' ok)
  then have "g' = fst (Publish t' j r now g)" by simp
  with publish show ?case by (simp add: Publish_Current Publish_generation)
next
  case (invalidate g t')
  then show ?case by (simp add: Invalidate_Current) (simp add: Invalidate_def split: option.splits)
next
  case (veto g ids)
  then show ?case by (simp add: Veto_def Current_def)
qed

lemma gsteps_stale:
  "(gstep S)\<^sup>*\<^sup>* g g' \<Longrightarrow> grouper_inv g \<Longrightarrow> tk_Generation t \<le> g_generation g \<Longrightarrow> \<not> Current t g
    \<Longrightarrow> \<not> Current t g' \<and> g_generation g \<le> g_generation g'"
proof (induction rule: rtranclp_induct)
  case base
  then show ?case by simp
next
  case (step y z)
  with gsteps_inv [OF step(1)] have "grouper_inv y" "\<not> Current t y" "tk_Generation t \<le> g_generation y" by auto
  with gstep_stale [OF step(2)] step show ?case by fastforce
qed

section \<open>Properties of the grouper\<close>

text \<open>
  the grouper stays bounded and its tickets identify partitions: after any sequence of calls there
  are at most \<open>capacity\<close> partitions, each under the key of its own ticket, and no two partitions share a
  generation.
\<close>

theorem grouper_bounded:
  assumes "(gstep S)\<^sup>*\<^sup>* (NewGrouper strategy masking capacity ttl adaptive maxInterval) g" and "1 \<le> capacity"
  shows "length (g_entries g) \<le> g_capacity g \<and> wf_map (g_entries g)
    \<and> (\<forall>(k, p) \<in> set (g_entries g). tk_Key (pt_ticket p) = k \<and> tk_Generation (pt_ticket p) \<le> g_generation g
        \<and> (\<forall>(k', p') \<in> set (g_entries g). tk_Generation (pt_ticket p) = tk_Generation (pt_ticket p') \<longrightarrow> k = k'))"
proof -
  have i: "grouper_inv g" using gsteps_inv [OF assms(1) grouper_inv_New [OF assms(2)]] .
  then have p: "\<forall>kp \<in> set (g_entries g). partition_ok (g_generation g) (g_sequence g) kp"
    and b: "length (g_entries g) \<le> g_capacity g" "wf_map (g_entries g)"
    by (simp_all add: grouper_inv_def)
  show ?thesis
    using b p generation_unique [OF i] by (auto simp: partition_ok_def)
qed

definition sample_grouper :: grouper where
  "sample_grouper = NewGrouper ''exact'' ''strict'' 2 (60 * second) False 32"

theorem grouper_bounded_witness:
  "length (g_entries (fst (Observe sample_std sample_grouper sample_event (unix_time 1000)))) \<le>
    g_capacity (fst (Observe sample_std sample_grouper sample_event (unix_time 1000)))"
proof -
  obtain g t c r where o: "Observe sample_std sample_grouper sample_event (unix_time 1000) = (g, t, c, r)"
    by (metis prod_cases4)
  have "g_sequence sample_grouper + 1 < max_uint64" by (simp add: sample_grouper_def NewGrouper_def max_uint64_def)
  from gstep.observe [OF this o] have "(gstep sample_std)\<^sup>*\<^sup>* sample_grouper g" by blast
  from grouper_bounded [OF this [unfolded sample_grouper_def]] show ?thesis by (simp add: o)
qed

text \<open>
  a verdict is served from the grouper only while it may be: it is confident and reusable, inside its
  cache lifetime and before its expiry, its template is not vetoed by a review, and the wall clock has
  not moved back behind the latest time the grouper has seen.
\<close>

theorem observe_serves_valid:
  assumes "Observe S g e now = (g', t, Some j, reason)"
  shows "Reusable j \<and> CacheValidAt j now \<and> reason = ''cached'' \<and> Eligible e
    \<and> tk_TemplateID t \<notin> set (g_review g) \<and> \<not> (\<not> IsZero (g_observed g) \<and> Before (Round0 now) (g_observed g))"
proof -
  obtain template kind scope where n: "normalize_event S g e now = Inr (template, kind, scope)"
    using assms by (auto simp: Observe_def split: sum.splits)
  then have el: "Eligible e" by (auto simp: normalize_event_def split: if_splits)
  let ?v = "version_id S g kind template"
  let ?k = "template_key S scope ?v (Important (ev_Baseline e))"
  obtain g1 p where f: "find_partition ?k ?v g = (g1, p)" by fastforce
  let ?p1 = "p\<lparr>pt_last := g_sequence g1, pt_seen := pt_seen p + 1\<rparr>"
  obtain g2 p2 c r where s: "serve g1 ?p1 now = (g2, p2, c, r)" by (metis prod_cases4)
  have "t = pt_ticket p2" "c = Some j" "r = reason" using assms n f s by (simp_all add: Observe_def Let_def)
  moreover have "g_review g1 = g_review g" "g_observed g1 = g_observed g"
    using f by (auto simp: find_partition_def Let_def split: option.splits)
  ultimately show ?thesis using serve_facts [OF s] el by auto
qed

text \<open>
  a stale ticket is powerless: once a partition was evicted, its ticket never becomes current again,
  whatever is observed later, and publishing or invalidating with it changes nothing.
\<close>

theorem stale_ticket_powerless:
  assumes "(gstep S)\<^sup>*\<^sup>* g g'" and "grouper_inv g" and "tk_Generation t \<le> g_generation g" and "\<not> Current t g"
  shows "\<not> Current t g' \<and> Publish t j r now g' = (g', False) \<and> Invalidate t g' = g'"
proof -
  have "\<not> Current t g'" using gsteps_stale [OF assms] by blast
  then show ?thesis by (auto simp: Current_def Publish_def Invalidate_def split: option.splits)
qed

theorem stale_ticket_powerless_witness:
  "Publish no_ticket sample_judgment ''r'' (unix_time 5) (Veto [''x''] sample_grouper) = (Veto [''x''] sample_grouper, False)"
proof -
  have "grouper_inv sample_grouper" unfolding sample_grouper_def by (rule grouper_inv_New) simp
  moreover have "(gstep sample_std)\<^sup>*\<^sup>* sample_grouper (Veto [''x''] sample_grouper)" using gstep.veto by blast
  moreover have "\<not> Current no_ticket sample_grouper" by (simp add: Current_def sample_grouper_def NewGrouper_def)
  moreover have "tk_Generation no_ticket \<le> g_generation sample_grouper" by (simp add: no_ticket_def)
  ultimately show ?thesis using stale_ticket_powerless by blast
qed

lemma sample_normalize:
  "g_strategy g = ''exact'' \<Longrightarrow> g_rules g = None \<Longrightarrow>
    normalize_event sample_std g sample_event now = Inr (ev_Text sample_event, ''exact'', ev_Source sample_event)"
proof -
  have "Eligible sample_event" by code_simp
  then show "g_strategy g = ''exact'' \<Longrightarrow> g_rules g = None \<Longrightarrow>
    normalize_event sample_std g sample_event now = Inr (ev_Text sample_event, ''exact'', ev_Source sample_event)"
    by (simp add: normalize_event_def rules_template_of_def Scope_def)
qed

lemma sample_Reusable: "Reusable sample_judgment"
  by code_simp

theorem observe_serves_valid_witness:
  "\<exists>g1 t r1 g2 g3 r3. Observe sample_std sample_grouper sample_event (unix_time 1000) = (g1, t, None, r1)
    \<and> Publish t sample_judgment ''e1'' (unix_time 1001) g1 = (g2, True)
    \<and> Observe sample_std g2 sample_event (unix_time 1002) = (g3, t, Some sample_judgment, r3) \<and> r3 = ''cached''"
proof -
  let ?v = "version_id sample_std sample_grouper ''exact'' (ev_Text sample_event)"
  let ?k = "template_key sample_std (ev_Source sample_event) ?v (Important (ev_Baseline sample_event))"
  let ?p = "(fresh_partition ?k ?v 1)\<lparr>pt_last := 1, pt_seen := 1, pt_observed := unix_time 1000\<rparr>"
  let ?g1 = "sample_grouper\<lparr>g_sequence := 1, g_generation := 1, g_observed := unix_time 1000, g_entries := [(?k, ?p)]\<rparr>"
  have sel: "g_strategy sample_grouper = ''exact''" "g_rules sample_grouper = None" "g_entries sample_grouper = []"
    "g_sequence sample_grouper = 0" "g_generation sample_grouper = 0" "g_review sample_grouper = []" "g_capacity sample_grouper = 2"
    "g_observed sample_grouper = zero_time" "g_adaptive sample_grouper = False" "g_ttl sample_grouper = 60 * second"
    by (simp_all add: sample_grouper_def NewGrouper_def)
  have time: "Round0 (unix_time n) = unix_time n" "Before (unix_time m) (unix_time n) \<longleftrightarrow> m < n"
    "Add (unix_time n) (60 * second) = unix_time (n + 60)" "IsZero zero_time" for m n
    by (simp_all add: Round0_def Before_def unix_time_def Add_def IsZero_def zero_time_def second_def)
  have nz: "\<not> IsZero (unix_time 1000)" "\<not> IsZero (unix_time 1001)"
    by (simp_all add: IsZero_def unix_time_def unix_epoch_def second_def)
  have no: "\<not> Reusable (verdict [] [] [])" by (simp add: Reusable_def verdict_def Unknown_def)
  have valid: "CacheValidAt sample_judgment now" for now
    by (simp add: CacheValidAt_def sample_judgment_def verdict_def Unknown_def time Let_def)
  have dl: "CacheDeadline sample_judgment = zero_time" "Importance sample_judgment = ''important''"
    by (simp_all add: sample_judgment_def verdict_def Unknown_def)
  have o1: "Observe sample_std sample_grouper sample_event (unix_time 1000) = (?g1, pt_ticket ?p, None, ''new_or_expired'')"
    by (simp add: Observe_def sample_normalize [OF sel(1,2)] find_partition_def serve_def Let_def sel fresh_partition_def
        make_place_def mhas_def no time)
  let ?q = "?p\<lparr>pt_verdict := sample_judgment, pt_observed := unix_time 1001, pt_representative := ''e1'',
      pt_expires := unix_time 1061, pt_interval := 32, pt_auditAt := 33\<rparr>"
  let ?g2 = "?g1\<lparr>g_entries := [(?k, ?q)]\<rparr>"
  have p2: "Publish (pt_ticket ?p) sample_judgment ''e1'' (unix_time 1001) ?g1 = (?g2, True)"
    by (simp add: Publish_def publish_in_def Let_def sample_Reusable valid dl time nz fresh_partition_def sel)
  have v2: "version_id sample_std (sample_grouper\<lparr>g_sequence := a, g_generation := b, g_observed := c, g_entries := d\<rparr>) k t
      = version_id sample_std sample_grouper k t" for a b c d k t
    by (simp add: version_id_def)
  obtain g3 where o3: "Observe sample_std ?g2 sample_event (unix_time 1002) = (g3, pt_ticket ?p, Some sample_judgment, ''cached'')"
    by (simp add: Observe_def sample_normalize v2 find_partition_def serve_def Let_def sample_Reusable
        fresh_partition_def time nz valid sel After_def)
  from observe_serves_valid [OF o3] o1 p2 o3 show ?thesis by blast
qed

end
