(* ===== verification/Engine.thy ===== *)
theory Engine
  imports Grouper Teacher
begin

text \<open>
  The analysis engine of \<open>internal/analysis/engine.go\<close>: one batch of events is grouped, judged and
  published.  The judge, the human review and the readings of the clock are arguments; the counters of
  \<open>Metrics\<close>, which nothing reads back, are left out.  \<open>teach\<close>, which runs on the way out, is in
  \<open>Learning\<close>.
\<close>

record engine_config =
  ec_HumanReview :: "(event \<Rightarrow> event \<times> bool) option"
  ec_Teacher :: bool
  ec_TemplateMinSamples :: nat
  ec_TemplateCapacity :: nat
  ec_TemplateConfidence :: f64
  ec_TemplateTTL :: int
  ec_Offline :: bool
  ec_Strategy :: string
  ec_Masking :: string
  ec_Capacity :: nat
  ec_BatchSize :: nat
  ec_TTL :: int
  ec_Adaptive :: bool
  ec_NormalInterval :: nat
  ec_ReviewIDs :: "string list"
  ec_Rules :: "rules option"

definition hex_lower :: "char \<Rightarrow> bool" where
  "hex_lower c = (digit_c c \<or> in_range 97 102 c)"

text \<open>\<open>^[0-9a-f]{64}$\<close>.\<close>

definition opaqueID :: "string \<Rightarrow> bool" where
  "opaqueID s = (length s = 64 \<and> list_all hex_lower s)"

definition Engine_Validate :: "engine_config \<Rightarrow> status" where
  "Engine_Validate c =
     (if \<not> list_all opaqueID (ec_ReviewIDs c) then Some (Err ''invalid review identity'')
      else if ec_Teacher c \<and> (ec_TemplateMinSamples c < 2 \<or> 16 < ec_TemplateMinSamples c \<or> ec_TemplateCapacity c < 1
          \<or> 256 < ec_TemplateCapacity c \<or> ec_TemplateTTL c < second \<or> 3600 * second < ec_TemplateTTL c
          \<or> \<not> f64_in (Fin 0) (Fin 1) (ec_TemplateConfidence c))
        then Some (Err ''invalid template learning bounds'')
      else if ec_Strategy c \<noteq> ''exact'' \<and> ec_Strategy c \<noteq> ''off'' \<and> ec_Strategy c \<noteq> ''drain'' \<and> ec_Strategy c \<noteq> ''semantic''
        then Some (Err ''invalid grouping strategy'')
      else if ec_Masking c \<noteq> ''strict'' \<and> ec_Masking c \<noteq> ''classic'' then Some (Err ''invalid drain masking'')
      else if ec_Capacity c < 1 \<or> 8192 < ec_Capacity c \<or> ec_BatchSize c < 1 \<or> 64 < ec_BatchSize c \<or> ec_TTL c \<le> 0
          \<or> 7 * 24 * 3600 * second < ec_TTL c
        then Some (Err ''invalid analysis bounds'')
      else if ec_Adaptive c \<and> (ec_Offline c \<or> ec_Strategy c \<noteq> ''drain'')
        then Some (Err ''adaptive scheduling requires online drain grouping'')
      else if ec_NormalInterval c < 32 \<or> 4096 < ec_NormalInterval c \<or> 256 < length (ec_ReviewIDs c)
        then Some (Err ''invalid adaptive bounds'')
      else None)"

definition Engine_New :: "engine_config \<Rightarrow> bool \<Rightarrow> grouper result" where
  "Engine_New c judge =
     (case Engine_Validate c of
       Some e \<Rightarrow> Inl e
     | None \<Rightarrow>
        (if \<not> ec_Offline c \<and> \<not> judge then Inl (Err ''provider required'')
         else Inr ((Veto (ec_ReviewIDs c) (NewGrouper (ec_Strategy c) (ec_Masking c) (ec_Capacity c) (ec_TTL c)
           (ec_Adaptive c) (ec_NormalInterval c)))\<lparr>g_rules := ec_Rules c\<rparr>)))"

section \<open>Grouping a batch\<close>

record group =
  gr_ticket :: ticket
  gr_d :: dossier
  gr_indices :: "nat list"
  gr_eligible :: bool

definition cache_mode :: "string \<Rightarrow> CacheMode" where
  "cache_mode reason =
     (if reason \<in> {''stable_audit'', ''clock_rollback'', ''cache_expired''} then CacheRefresh
      else if reason = ''review_required'' then CacheBypass else CacheDefault)"

definition new_dossier :: "std \<Rightarrow> ticket \<Rightarrow> event \<Rightarrow> string \<Rightarrow> dossier" where
  "new_dossier S t e reason =
     \<lparr>d_CacheMode = cache_mode reason, d_TemplateID = tk_TemplateID t, d_VersionID = tk_VersionID t,
      d_ScopeID = Hash S (JObj (Scope e True)), d_Source = Hash S (JObj (ev_Source e)),
      d_SourceMetadata = SafeSource S (ev_Source e), d_WindowOccurrences = 0, d_LifetimeOccurrences = None,
      d_Samples = [], d_BaselineImportant = False, d_LocalRisk = False, d_SecuritySignal = False,
      d_Truncated = False, d_Sensitive = False, d_EvidenceLimited = False, d_SamplesLimited = False,
      d_Reason = reason, d_EvidenceID = ev_ID e\<rparr>"

definition cached_event :: "ticket \<Rightarrow> Judgment \<Rightarrow> event \<Rightarrow> event" where
  "cached_event t j e = e\<lparr>ev_Judgment := j, ev_AnalysisReused := True,
     ev_Assessment := Some \<lparr>as_Dispatched = False, as_TemplateID = tk_TemplateID t, as_VersionID = tk_VersionID t,
       as_WindowOccurrences = 1, as_SampleCount = 0, as_EvidenceLimited = False, as_SamplesLimited = False,
       as_Reason = ''cached''\<rparr>\<rparr>"

text \<open>\<open>byTicket\<close>: the group an eligible ticket opened.\<close>

definition join_group :: "ticket \<Rightarrow> nat \<Rightarrow> event \<Rightarrow> group list \<Rightarrow> group list" where
  "join_group t i e gs = map (\<lambda>g. if gr_eligible g \<and> gr_ticket g = t
     then g\<lparr>gr_indices := gr_indices g @ [i], gr_d := Dossier_Observe (gr_d g) e\<rparr> else g) gs"

definition collect_one :: "std \<Rightarrow> gotime \<Rightarrow> nat \<Rightarrow> bool \<Rightarrow> event \<Rightarrow> grouper \<Rightarrow> group list \<Rightarrow> grouper \<times> group list \<times> event" where
  "collect_one S now i reviewed e g gs =
     (if reviewed then (g, gs, e)
      else case Observe S g e now of
        (g1, t, Some j, reason) \<Rightarrow> (g1, gs, cached_event t j e)
      | (g1, t, None, reason) \<Rightarrow>
         (let eligible = (tk_Key t \<noteq> []) in
          if eligible \<and> list_ex (\<lambda>x. gr_eligible x \<and> gr_ticket x = t) gs then (g1, join_group t i e gs, e)
          else (g1, gs @ [\<lparr>gr_ticket = t, gr_d = Dossier_Observe (new_dossier S t e reason) e, gr_indices = [i],
                 gr_eligible = eligible\<rparr>], e)))"

fun collect :: "std \<Rightarrow> gotime \<Rightarrow> nat \<Rightarrow> (event \<times> bool) list \<Rightarrow> grouper \<Rightarrow> group list \<Rightarrow> grouper \<times> group list \<times> event list" where
  "collect S now i [] g gs = (g, gs, [])"
| "collect S now i ((e, reviewed) # es) g gs =
     (case collect_one S now i reviewed e g gs of
       (g1, gs1, e1) \<Rightarrow> (case collect S now (Suc i) es g1 gs1 of (g2, gs2, out) \<Rightarrow> (g2, gs2, e1 # out)))"

section \<open>Judging and publishing\<close>

definition bypass_evicted :: "grouper \<Rightarrow> group \<Rightarrow> dossier" where
  "bypass_evicted g x = (if gr_eligible x \<and> \<not> Current (gr_ticket x) g then (gr_d x)\<lparr>d_CacheMode := CacheBypass\<rparr> else gr_d x)"

text \<open>The judgment the engine accepts for a group: invalid answers are unknown, unsafe or unconfident
  evidence is never routine, and a stale generation is never used.\<close>

definition accept_judgment :: "grouper \<Rightarrow> group \<Rightarrow> Judgment result \<Rightarrow> Judgment" where
  "accept_judgment g x answer =
     (let j0 = (case answer of
            Inl e \<Rightarrow> Unknown ''provider analysis unavailable''
          | Inr j \<Rightarrow> if Validate j \<noteq> None then Unknown ''invalid provider judgment'' else j);
          j1 = (if unsafe_dossier (gr_d x) \<and> Importance j0 = ''routine'' then j0\<lparr>Importance := ''uncertain''\<rparr> else j0);
          j2 = (if Importance j1 = ''routine'' \<and> (case ImportanceConfidence j1 of None \<Rightarrow> True | Some v \<Rightarrow> f64_lt v c_0_7)
                then j1\<lparr>Importance := ''uncertain''\<rparr> else j1) in
      if gr_eligible x \<and> \<not> Current (gr_ticket x) g then Unknown ''stale template generation'' else j2)"

definition stamp_judgment :: "gotime \<Rightarrow> int \<Rightarrow> Judgment \<Rightarrow> Judgment" where
  "stamp_judgment now ttl j =
     (if IsZero (CacheExpiresAt j)
      then j\<lparr>CacheCreatedAt := Round0 now, CacheExpiresAt := Add (Round0 now) ttl, CacheObservedAt := Round0 now,
             CacheDeadline := Add now ttl\<rparr>
      else j)"

definition settle_group :: "int \<Rightarrow> gotime \<Rightarrow> gotime \<Rightarrow> string \<Rightarrow> group \<Rightarrow> Judgment result \<Rightarrow> grouper \<Rightarrow> grouper \<times> Judgment \<times> bool" where
  "settle_group ttl now later firstID x answer g =
     (let j = accept_judgment g x answer in
      if \<not> unsafe_dossier (gr_d x) \<and> gr_eligible x \<and> Current (gr_ticket x) g \<and> Reusable j then
        (let j' = stamp_judgment now ttl j in
         case Publish (gr_ticket x) j' firstID later g of (g', ok) \<Rightarrow> (g', j', ok))
      else if gr_eligible x then (Invalidate (gr_ticket x) g, j, False)
      else (g, j, False))"

definition member_event :: "bool \<Rightarrow> group \<Rightarrow> Judgment \<Rightarrow> bool \<Rightarrow> string \<Rightarrow> bool \<Rightarrow> event \<Rightarrow> event" where
  "member_event live x j reusable firstID is_first e =
     (let d = gr_d x in
      e\<lparr>ev_Judgment := (if \<not> is_first \<and> \<not> reusable then Unknown ''group verdict requires independent review'' else j),
        ev_AnalysisReused := (\<not> is_first \<and> reusable),
        ev_RepresentativeID := (if \<not> is_first \<and> reusable then firstID else ev_RepresentativeID e),
        ev_Assessment := Some \<lparr>as_Dispatched = live, as_TemplateID = tk_TemplateID (gr_ticket x),
          as_VersionID = tk_VersionID (gr_ticket x), as_WindowOccurrences = d_WindowOccurrences d,
          as_SampleCount = length (d_Samples d), as_EvidenceLimited = d_EvidenceLimited d,
          as_SamplesLimited = d_SamplesLimited d, as_Reason = d_Reason d\<rparr>\<rparr>)"

definition assign_group :: "bool \<Rightarrow> group \<Rightarrow> Judgment \<Rightarrow> bool \<Rightarrow> string \<Rightarrow> event list \<Rightarrow> event list" where
  "assign_group live x j reusable firstID out =
     foldl (\<lambda>o' i. o'[i := member_event live x j reusable firstID (i = hd (gr_indices x)) (o' ! i)]) out (gr_indices x)"

fun settle_all :: "int \<Rightarrow> gotime \<Rightarrow> (nat \<Rightarrow> gotime) \<Rightarrow> bool \<Rightarrow> (group \<times> Judgment result) list \<Rightarrow> grouper \<Rightarrow> event list
    \<Rightarrow> grouper \<times> event list" where
  "settle_all ttl now later live [] g out = (g, out)"
| "settle_all ttl now later live ((x, answer) # xs) g out =
     (let firstID = ev_ID (out ! hd (gr_indices x)) in
      case settle_group ttl now (later (length xs)) firstID x answer g of
        (g1, j, reusable) \<Rightarrow> settle_all ttl now later live xs g1 (assign_group live x j reusable firstID out))"

definition answers_for :: "goerror option \<Rightarrow> (dossier list \<Rightarrow> Judgment list result) \<Rightarrow> grouper \<Rightarrow> group list \<Rightarrow> Judgment result list" where
  "answers_for cancelled judge g gs =
     (case (case cancelled of Some e \<Rightarrow> Inl e | None \<Rightarrow> judge (map (bypass_evicted g) gs)) of
       Inl e \<Rightarrow> map (\<lambda>_. Inl e) gs
     | Inr js \<Rightarrow> if length js = length gs then map Inr js else map (\<lambda>_. Inl ErrSchema) gs)"

definition human_reviewed :: "engine_config \<Rightarrow> event list \<Rightarrow> (event \<times> bool) list" where
  "human_reviewed c events = (case ec_HumanReview c of None \<Rightarrow> map (\<lambda>e. (e, False)) events | Some f \<Rightarrow> map f events)"

text \<open>\<open>cancelled\<close> is the context's error at dispatch, \<open>live\<close> whether it still lives at the end.\<close>

definition judge_batch :: "std \<Rightarrow> engine_config \<Rightarrow> gotime \<Rightarrow> (nat \<Rightarrow> gotime) \<Rightarrow> goerror option \<Rightarrow> bool
    \<Rightarrow> (dossier list \<Rightarrow> Judgment list result) \<Rightarrow> event list \<Rightarrow> grouper \<Rightarrow> grouper \<times> event list" where
  "judge_batch S c now later cancelled live judge events g =
     (let es = human_reviewed c events in
      if ec_Offline c then (g, map (\<lambda>(e, reviewed). if reviewed then e else e\<lparr>ev_Judgment := Offline e\<rparr>) es)
      else case collect S now 0 es g [] of
        (g1, gs, out) \<Rightarrow>
          if gs = [] then (g1, out)
          else settle_all (ec_TTL c) now later live (zip gs (answers_for cancelled judge g1 gs)) g1 out)"

end
