(* ===== verification/Learning.thy ===== *)
theory Learning
  imports Engine
begin

text \<open>
  \<open>internal/analysis/learning.go\<close>: the teacher lane that runs on the way out of every batch, and the
  whole operation \<open>Engine.Batch\<close>.  A teacher is a function of the number of the call in this batch, so
  that its answers may change from call to call; at most two calls are made per batch.  The 64-bit
  occurrence counters are natural numbers.
\<close>

record learning_decision =
  ld_TemplateID :: string
  ld_VersionID :: string
  ld_Seen :: nat
  ld_Outcome :: string
  ld_Proposal :: "proposal option"
  ld_Review :: "review option"

record learned =
  ln_evidence :: template_evidence
  ln_version :: string
  ln_expires :: gotime
  ln_escalation :: "Judgment option"
  ln_next :: nat

record learning =
  le_observed :: gotime
  le_entries :: "(string, learned) gomap"
  le_decisions :: "learning_decision list"
  le_minSamples :: nat
  le_confidence :: f64
  le_ttl :: int
  le_capacity :: nat

record teacher =
  t_Propose :: "nat \<Rightarrow> template_evidence \<Rightarrow> proposal result"
  t_Review :: "nat \<Rightarrow> template_evidence \<Rightarrow> review result"

definition newLearning :: "engine_config \<Rightarrow> learning option" where
  "newLearning c =
     (if \<not> ec_Teacher c \<or> ec_Offline c then None
      else Some \<lparr>le_observed = zero_time, le_entries = [], le_decisions = [], le_minSamples = ec_TemplateMinSamples c,
        le_confidence = ec_TemplateConfidence c, le_ttl = ec_TemplateTTL c, le_capacity = ec_TemplateCapacity c\<rparr>)"

record learning_report =
  lr_decisions :: "learning_decision list"
  lr_active :: nat

definition LearningReport :: "learning option \<Rightarrow> learning_report option" where
  "LearningReport l = map_option (\<lambda>l. \<lparr>lr_decisions = le_decisions l, lr_active = length (le_entries l)\<rparr>) l"

section \<open>Replaying a proposal\<close>

definition shapeOf :: "std \<Rightarrow> string \<Rightarrow> (string \<times> (string, json) gomap) option" where
  "shapeOf S text =
     (case json_parse text of
       None \<Rightarrow> None
     | Some v0 \<Rightarrow> (case decode_any v0 of
         JObj kvs \<Rightarrow> Some (Hash S (strmap_json (walk_shape (JObj kvs))), walk_values (JObj kvs))
       | _ \<Rightarrow> None))"

definition normalizes_id :: "(string, json) gomap \<Rightarrow> string \<Rightarrow> bool" where
  "normalizes_id values path =
     (case mget values path of
       Some (JStr value) \<Rightarrow> \<not> protectedField path \<and> MatchString idField (last (Split path (CHR ''/''))) \<and> MatchString opaque value
     | _ \<Rightarrow> False)"

fun replay :: "std \<Rightarrow> proposal \<Rightarrow> string \<Rightarrow> string list \<Rightarrow> bool" where
  "replay S p first [] = True"
| "replay S p first (s # ss) =
     (case shapeOf S s of
       None \<Rightarrow> False
     | Some (shape, values) \<Rightarrow>
        (if first \<noteq> [] \<and> shape \<noteq> first then False
         else if \<not> list_all (mhas values) (pr_Required p @ pr_Protected p) then False
         else if \<not> list_all (normalizes_id values) (pr_Normalize p) then False
         else replay S p (if first = [] then shape else first) ss))"

definition ValidateProposal :: "std \<Rightarrow> proposal \<Rightarrow> string list \<Rightarrow> bool" where
  "ValidateProposal S p samples =
     (if Proposal_Validate p \<noteq> None \<or> length samples < 2 then False else replay S p [] samples)"

section \<open>Escalation\<close>

definition conf_lt :: "f64 option \<Rightarrow> f64 \<Rightarrow> bool" where
  "conf_lt c x = (case c of None \<Rightarrow> False | Some v \<Rightarrow> f64_lt v x)"

definition Escalation :: "Judgment \<Rightarrow> review \<Rightarrow> Judgment option" where
  "Escalation current r =
     (if Review_Validate r \<noteq> None \<or> Importance current = ''important'' \<or> rv_Importance r \<noteq> ''important''
         \<or> conf_lt (rv_Confidence r) c_0_75 \<or> rv_Category r = ''routine'' \<or> rv_Category r = ''unknown''
         \<or> rv_Severity r = ''noise'' \<or> rv_Severity r = ''unknown'' \<or> rv_Explanation r = ''pattern_burst''
         \<or> rv_Explanation r = ''no_change'' \<or> rv_Explanation r = ''free_text'' \<or> rv_Explanation r = ''insufficient_evidence''
      then None
      else Some ((verdict (rv_Importance r) (rv_Severity r) (rv_Category r))
        \<lparr>ImportanceConfidence := rv_Confidence r, SeverityConfidence := rv_Confidence r, CategoryConfidence := rv_Confidence r\<rparr>))"

section \<open>Teaching\<close>

definition learningEligible :: "grouper \<Rightarrow> event \<Rightarrow> bool" where
  "learningEligible g e =
     (if ev_Review e \<noteq> None then False
      else if \<not> Eligible e \<or> AnalysisError (ev_Judgment e) = ''stale template generation'' then False
      else case ev_Assessment e of
        None \<Rightarrow> True
      | Some a \<Rightarrow> as_Reason a \<noteq> ''review_required'' \<and> as_TemplateID a \<notin> set (g_review g)
          \<and> \<not> as_EvidenceLimited a \<and> \<not> as_SamplesLimited a)"

text \<open>The family an event is learnt under: its key and version.\<close>

definition family :: "std \<Rightarrow> string \<Rightarrow> event \<Rightarrow> (string \<times> string) option" where
  "family S strategy e =
     (if strategy = ''semantic'' then
        (case shapeOf S (ev_Text e) of
          None \<Rightarrow> None
        | Some (shape, values) \<Rightarrow>
            Some (Hash S (JArr [JObj (Scope e True), JStr shape, JBool (Important (ev_Baseline e))]), shape))
      else case ev_Assessment e of
        None \<Rightarrow> None
      | Some a \<Rightarrow> if as_TemplateID a = [] then None else Some (as_TemplateID a, as_VersionID a))"

definition fresh_learned :: "std \<Rightarrow> gotime \<Rightarrow> int \<Rightarrow> event \<Rightarrow> string \<Rightarrow> string \<Rightarrow> learned" where
  "fresh_learned S now ttl e key version =
     \<lparr>ln_evidence = \<lparr>te_ScopeID = Hash S (JObj (Scope e True)), te_TemplateID = key, te_Samples = [],
        te_Occurrences = 0, te_Current = verdict [] [] []\<rparr>,
      ln_version = version, ln_expires = Add now ttl, ln_escalation = None, ln_next = 0\<rparr>"

definition learn_sample :: "event \<Rightarrow> learned \<Rightarrow> learned" where
  "learn_sample e p =
     (let ev = ln_evidence p in
      p\<lparr>ln_evidence := ev\<lparr>te_Occurrences := te_Occurrences ev + 1, te_Current := ev_Judgment e,
        te_Samples := (if ev_Text e \<notin> set (te_Samples ev) \<and> length (te_Samples ev) < 8 then te_Samples ev @ [ev_Text e]
                       else te_Samples ev)\<rparr>\<rparr>)"

definition apply_escalation :: "learned \<Rightarrow> event \<Rightarrow> event" where
  "apply_escalation p e =
     (case ln_escalation p of
       Some j \<Rightarrow> if Importance (ev_Judgment e) \<noteq> ''important'' then e\<lparr>ev_Judgment := j\<rparr> else e
     | None \<Rightarrow> e)"

definition observe_one :: "std \<Rightarrow> string \<Rightarrow> grouper \<Rightarrow> gotime \<Rightarrow> event \<Rightarrow> learning \<Rightarrow> string list \<Rightarrow> learning \<times> string list \<times> event" where
  "observe_one S strategy g now e l touched =
     (if \<not> learningEligible g e then (l, touched, e)
      else case family S strategy e of
        None \<Rightarrow> (l, touched, e)
      | Some (key, version) \<Rightarrow>
         (if mget (le_entries l) key = None \<and> le_capacity l \<le> length (le_entries l) then (l, touched, e)
          else let p0 = (case mget (le_entries l) key of None \<Rightarrow> fresh_learned S now (le_ttl l) e key version | Some p \<Rightarrow> p) in
            if ln_version p0 \<noteq> version then (l\<lparr>le_entries := mput key p0 (le_entries l)\<rparr>, touched, e)
            else let p = learn_sample e p0 in
              (l\<lparr>le_entries := mput key p (le_entries l)\<rparr>, if key \<in> set touched then touched else touched @ [key],
               apply_escalation p e)))"

fun observe_all :: "std \<Rightarrow> string \<Rightarrow> grouper \<Rightarrow> gotime \<Rightarrow> event list \<Rightarrow> learning \<Rightarrow> string list \<Rightarrow> learning \<times> string list \<times> event list" where
  "observe_all S strategy g now [] l touched = (l, touched, [])"
| "observe_all S strategy g now (e # es) l touched =
     (case observe_one S strategy g now e l touched of
       (l1, t1, e1) \<Rightarrow> (case observe_all S strategy g now es l1 t1 of (l2, t2, es2) \<Rightarrow> (l2, t2, e1 # es2)))"

definition record_decision :: "learning_decision \<Rightarrow> learning \<Rightarrow> learning" where
  "record_decision d l =
     l\<lparr>le_decisions := (if length (le_decisions l) = 1000 then tl (le_decisions l) else le_decisions l) @ [d]\<rparr>"

definition escalate_family :: "grouper \<Rightarrow> string \<Rightarrow> string \<Rightarrow> Judgment \<Rightarrow> event \<Rightarrow> event" where
  "escalate_family g key version j e =
     (if (case ev_Assessment e of None \<Rightarrow> False | Some a \<Rightarrow> as_TemplateID a = key \<and> as_VersionID a = version)
         \<and> learningEligible g e \<and> Importance (ev_Judgment e) \<noteq> ''important''
      then e\<lparr>ev_Judgment := j\<rparr> else e)"

text \<open>One consultation of the teacher about a family: the decision and the escalation, if any.\<close>

definition consult_semantic :: "std \<Rightarrow> f64 \<Rightarrow> learned \<Rightarrow> learning_decision \<Rightarrow> proposal result \<Rightarrow> learning_decision" where
  "consult_semantic S confidence p d answer =
     (case answer of
       Inl e \<Rightarrow> d
     | Inr pr \<Rightarrow>
        (if (case pr_Confidence pr of None \<Rightarrow> False | Some v \<Rightarrow> f64_le confidence v)
            \<and> ValidateProposal S pr (te_Samples (ln_evidence p))
         then d\<lparr>ld_Proposal := Some pr, ld_Outcome := ''shadow_replay_passed''\<rparr> else d))"

definition consult_review :: "learned \<Rightarrow> learning_decision \<Rightarrow> review result \<Rightarrow> learning_decision \<times> Judgment option" where
  "consult_review p d answer =
     (case answer of
       Inl e \<Rightarrow> (d, None)
     | Inr r \<Rightarrow>
        (if Review_Validate r \<noteq> None then (d, None)
         else let d1 = d\<lparr>ld_Review := Some r, ld_Outcome := ''reviewed_fields_require_artifact''\<rparr> in
           case Escalation (te_Current (ln_evidence p)) r of
             None \<Rightarrow> (d1, None)
           | Some j \<Rightarrow> (d1\<lparr>ld_Outcome := ''escalated''\<rparr>, Some j)))"

definition thresholds :: "learning \<Rightarrow> nat list" where
  "thresholds l = [le_minSamples l, 32, 256, 2048]"

definition due :: "learning \<Rightarrow> nat \<Rightarrow> learned \<Rightarrow> bool" where
  "due l reviews p = (\<not> (length (thresholds l) \<le> ln_next p
     \<or> te_Occurrences (ln_evidence p) < thresholds l ! ln_next p \<or> 2 \<le> reviews))"

definition review_one :: "std \<Rightarrow> string \<Rightarrow> grouper \<Rightarrow> teacher \<Rightarrow> string \<Rightarrow> learning \<Rightarrow> nat \<Rightarrow> event list \<Rightarrow> learning \<times> nat \<times> event list" where
  "review_one S strategy g T key l reviews es =
     (case mget (le_entries l) key of
       None \<Rightarrow> (l, reviews, es)
     | Some p0 \<Rightarrow>
        (if \<not> due l reviews p0 then (l, reviews, es)
         else let p = p0\<lparr>ln_next := ln_next p0 + 1\<rparr>;
                  d = \<lparr>ld_TemplateID = key, ld_VersionID = ln_version p, ld_Seen = te_Occurrences (ln_evidence p),
                       ld_Outcome = ''rejected'', ld_Proposal = None, ld_Review = None\<rparr> in
           if strategy = ''semantic'' then
             (record_decision (consult_semantic S (le_confidence l) p d (t_Propose T reviews (ln_evidence p)))
                (l\<lparr>le_entries := mput key p (le_entries l)\<rparr>), reviews + 1, es)
           else (case consult_review p d (t_Review T reviews (ln_evidence p)) of
             (d1, None) \<Rightarrow> (record_decision d1 (l\<lparr>le_entries := mput key p (le_entries l)\<rparr>), reviews + 1, es)
           | (d1, Some j) \<Rightarrow>
               (record_decision d1 (l\<lparr>le_entries := mput key (p\<lparr>ln_escalation := Some j\<rparr>) (le_entries l)\<rparr>), reviews + 1,
                map (escalate_family g key (ln_version p) j) es))))"

fun review_all :: "std \<Rightarrow> string \<Rightarrow> grouper \<Rightarrow> teacher \<Rightarrow> string list \<Rightarrow> learning \<Rightarrow> nat \<Rightarrow> event list \<Rightarrow> learning \<times> nat \<times> event list" where
  "review_all S strategy g T [] l reviews es = (l, reviews, es)"
| "review_all S strategy g T (k # ks) l reviews es =
     (case review_one S strategy g T k l reviews es of (l1, r1, es1) \<Rightarrow> review_all S strategy g T ks l1 r1 es1)"

definition expire :: "gotime \<Rightarrow> learning \<Rightarrow> learning" where
  "expire now l =
     (let m = (if \<not> IsZero (le_observed l) \<and> Before now (le_observed l) then [] else le_entries l) in
      l\<lparr>le_observed := now, le_entries := filter (\<lambda>(k, p). Before now (ln_expires p)) m\<rparr>)"

definition teach :: "std \<Rightarrow> string \<Rightarrow> grouper \<Rightarrow> teacher \<Rightarrow> bool \<Rightarrow> gotime \<Rightarrow> learning option \<Rightarrow> event list \<Rightarrow> learning option \<times> event list" where
  "teach S strategy g T live now lopt es =
     (case lopt of
       None \<Rightarrow> (None, es)
     | Some l \<Rightarrow>
        (if \<not> live then (lopt, es)
         else case observe_all S strategy g now es (expire now l) [] of
           (l1, touched, es1) \<Rightarrow>
             (case review_all S strategy g T touched l1 0 es1 of (l2, reviews, es2) \<Rightarrow> (Some l2, es2))))"

section \<open>The whole batch\<close>

definition Batch :: "std \<Rightarrow> engine_config \<Rightarrow> gotime \<Rightarrow> (nat \<Rightarrow> gotime) \<Rightarrow> gotime \<Rightarrow> goerror option \<Rightarrow> bool
    \<Rightarrow> (dossier list \<Rightarrow> Judgment list result) \<Rightarrow> teacher \<Rightarrow> event list \<Rightarrow> grouper \<times> learning option
    \<Rightarrow> (grouper \<times> learning option) \<times> event list" where
  "Batch S c now later last_now cancelled live judge T events st =
     (case judge_batch S c now later cancelled live judge events (fst st) of
       (g, out) \<Rightarrow> (case teach S (ec_Strategy c) g T live last_now (snd st) out of (l, out') \<Rightarrow> ((g, l), out')))"

end
