(* ===== verification/EngineSafety.thy ===== *)
theory EngineSafety
  imports Learning
begin

text \<open>
  What one batch of the engine guarantees: which fields of an event it may write, what a routine
  verdict rests on, and what the teacher lane may still change afterwards.
\<close>

section \<open>Fields a batch writes\<close>

definition same_evidence :: "event \<Rightarrow> event \<Rightarrow> bool" where
  "same_evidence a b = (b = a\<lparr>ev_Judgment := ev_Judgment b, ev_AnalysisReused := ev_AnalysisReused b,
     ev_Assessment := ev_Assessment b, ev_RepresentativeID := ev_RepresentativeID b\<rparr>)"

lemma same_evidence_refl [simp]: "same_evidence a a"
  by (simp add: same_evidence_def)

lemma same_evidence_iff:
  "same_evidence a b \<longleftrightarrow> ev_Review b = ev_Review a \<and> ev_OriginalJudgment b = ev_OriginalJudgment a
     \<and> ev_SearchOccurrences b = ev_SearchOccurrences a \<and> ev_ID b = ev_ID a \<and> ev_Source b = ev_Source a
     \<and> ev_Timestamp b = ev_Timestamp a \<and> ev_Text b = ev_Text a \<and> ev_LineStart b = ev_LineStart a
     \<and> ev_LineEnd b = ev_LineEnd a \<and> ev_LineCount b = ev_LineCount a \<and> ev_Truncated b = ev_Truncated a
     \<and> ev_Sensitive b = ev_Sensitive a \<and> ev_ParseUncertain b = ev_ParseUncertain a \<and> ev_GroupID b = ev_GroupID a
     \<and> ev_Baseline b = ev_Baseline a"
  by (cases a; cases b) (auto simp: same_evidence_def)

lemma same_evidence_trans: "same_evidence a b \<Longrightarrow> same_evidence b c \<Longrightarrow> same_evidence a c"
  by (simp add: same_evidence_iff)

lemma same_evidence_writes [simp]:
  "same_evidence e (e\<lparr>ev_Judgment := j\<rparr>)" "same_evidence e (member_event live x j r f b e)" "same_evidence e (cached_event t j e)"
  "same_evidence e (apply_escalation p e)" "same_evidence e (escalate_family g k v j e)"
  by (simp_all add: same_evidence_iff member_event_def cached_event_def apply_escalation_def escalate_family_def Let_def
      split: option.split)

definition pointwise :: "(event \<Rightarrow> event \<Rightarrow> bool) \<Rightarrow> event list \<Rightarrow> event list \<Rightarrow> bool" where
  "pointwise R xs ys = list_all2 R xs ys"

section \<open>What a routine verdict rests on\<close>

text \<open>Evidence that must never be called routine.\<close>

definition risky_event :: "event \<Rightarrow> bool" where
  "risky_event e = (ev_Sensitive e \<or> ev_Truncated e \<or> ev_ParseUncertain e \<or> SecurityShaped (ev_Text e))"

definition sound_verdict :: "event \<Rightarrow> Judgment \<Rightarrow> bool" where
  "sound_verdict e j = (Importance j = ''routine'' \<longrightarrow>
     \<not> risky_event e \<and> (\<exists>v. ImportanceConfidence j = Some v \<and> f64_in c_0_7 (Fin 1) v))"

lemma Dossier_Observe_risky: "risky_event e \<Longrightarrow> unsafe_dossier (Dossier_Observe d e)"
  by (auto simp: risky_event_def unsafe_dossier_def Dossier_Observe_def Let_def split: prod.split)

lemma Dossier_Observe_mono: "unsafe_dossier d \<Longrightarrow> unsafe_dossier (Dossier_Observe d e)"
  by (auto simp: unsafe_dossier_def Dossier_Observe_def Let_def split: prod.split)

lemma Unknown_not_routine [simp]: "Importance (Unknown r) = ''unknown''" "Importance (Unknown r) \<noteq> ''routine''"
  by (simp_all add: Unknown_def)

lemma not_lt_c07: "in_unit c \<Longrightarrow> (case c of None \<Rightarrow> True | Some v \<Rightarrow> f64_lt v c_0_7) = False \<Longrightarrow> \<exists>v. c = Some v \<and> f64_in c_0_7 (Fin 1) v"
  by (auto simp: c_0_7_def f64_lt_def f64_in_def dest!: in_unit_D)

lemma Validate_in_unit: "Validate j = None \<Longrightarrow> in_unit (ImportanceConfidence j)"
  by (simp add: Validate_None_iff confidences_def)

lemma accept_judgment_sound:
  assumes "risky_event e \<Longrightarrow> unsafe_dossier (gr_d x)"
  shows "sound_verdict e (accept_judgment g x a)"
proof -
  define j0 where "j0 = (case a of Inl er \<Rightarrow> Unknown ''provider analysis unavailable''
     | Inr j \<Rightarrow> if Validate j \<noteq> None then Unknown ''invalid provider judgment'' else j)"
  have j0: "Importance j0 = ''routine'' \<Longrightarrow> in_unit (ImportanceConfidence j0)"
    by (auto simp: j0_def Validate_in_unit split: sum.splits if_splits)
  show ?thesis
    using not_lt_c07 [OF j0] assms
    unfolding accept_judgment_def j0_def [symmetric] by (auto simp: sound_verdict_def Let_def)
qed

section \<open>Collecting\<close>

text \<open>Every event of the batch is reviewed, served a reusable verdict, or waits in a group whose dossier
  has seen it.\<close>

definition collected :: "(event \<times> bool) list \<Rightarrow> nat \<Rightarrow> group list \<Rightarrow> event list \<Rightarrow> bool" where
  "collected es off gs out =
     (length out = length es \<and> (\<forall>i < length es. same_evidence (fst (es ! i)) (out ! i)
        \<and> (snd (es ! i) \<longrightarrow> out ! i = fst (es ! i))
        \<and> (\<not> snd (es ! i) \<longrightarrow> (\<exists>x \<in> set gs. off + i \<in> set (gr_indices x))
             \<or> Reusable (ev_Judgment (out ! i)) \<and> Eligible (fst (es ! i)))))"

definition groups_saw :: "(nat \<Rightarrow> event option) \<Rightarrow> group list \<Rightarrow> bool" where
  "groups_saw E gs = (\<forall>x \<in> set gs. gr_indices x \<noteq> [] \<and> (\<forall>i \<in> set (gr_indices x).
     \<exists>e. E i = Some e \<and> (risky_event e \<longrightarrow> unsafe_dossier (gr_d x))))"

definition keeps :: "group list \<Rightarrow> group list \<Rightarrow> bool" where
  "keeps gs gs' = (\<forall>x \<in> set gs. \<exists>x' \<in> set gs'. set (gr_indices x) \<subseteq> set (gr_indices x'))"

lemma groups_saw_map:
  assumes "groups_saw E gs"
    and "\<And>x. f x = x \<or> (\<exists>i e. E i = Some e \<and> f x = x\<lparr>gr_indices := gr_indices x @ [i], gr_d := Dossier_Observe (gr_d x) e\<rparr>)"
  shows "groups_saw E (map f gs)"
  unfolding groups_saw_def set_map ball_simps
proof (intro ballI conjI)
  fix x assume x: "x \<in> set gs"
  show "gr_indices (f x) \<noteq> []" using assms(2) [of x] assms(1) x by (auto simp: groups_saw_def)
  fix i assume i: "i \<in> set (gr_indices (f x))"
  show "\<exists>e. E i = Some e \<and> (risky_event e \<longrightarrow> unsafe_dossier (gr_d (f x)))"
    using assms(2) [of x]
  proof
    assume "f x = x"
    with assms(1) x i show ?thesis by (simp add: groups_saw_def)
  next
    assume "\<exists>i e. E i = Some e \<and> f x = x\<lparr>gr_indices := gr_indices x @ [i], gr_d := Dossier_Observe (gr_d x) e\<rparr>"
    then obtain k e where k: "E k = Some e" "f x = x\<lparr>gr_indices := gr_indices x @ [k], gr_d := Dossier_Observe (gr_d x) e\<rparr>" by blast
    show ?thesis
    proof (cases "i = k")
      case True
      with k show ?thesis by (simp add: Dossier_Observe_risky)
    next
      case False
      with i k have "i \<in> set (gr_indices x)" by auto
      with assms(1) x obtain e' where "E i = Some e'" "risky_event e' \<longrightarrow> unsafe_dossier (gr_d x)" unfolding groups_saw_def by blast
      with k show ?thesis by (auto intro: Dossier_Observe_mono)
    qed
  qed
qed

lemma keeps_trans: "keeps a b \<Longrightarrow> keeps b c \<Longrightarrow> keeps a c"
  unfolding keeps_def by (meson subset_trans)

lemma keeps_map: "(\<And>x. set (gr_indices x) \<subseteq> set (gr_indices (f x))) \<Longrightarrow> keeps gs (map f gs)"
  unfolding keeps_def by simp blast

lemma keeps_join: "keeps gs (join_group t i e gs)"
  unfolding join_group_def by (rule keeps_map) auto

lemma keeps_append: "keeps gs (gs @ xs)"
  by (auto simp: keeps_def)

lemma Observe_Eligible: "Observe S g e now = (g1, t, Some j, r) \<Longrightarrow> Reusable j \<and> Eligible e"
  by (auto simp: Observe_def Let_def normalize_event_def serve_def split: sum.splits prod.splits if_splits)

lemma collect_one_facts:
  assumes "collect_one S now i hr e g gs = (g1, gs1, e1)" and "groups_saw E gs" and "\<not> hr \<Longrightarrow> E i = Some e"
  shows "groups_saw E gs1 \<and> keeps gs gs1 \<and> same_evidence e e1 \<and> (hr \<longrightarrow> e1 = e)
    \<and> (\<not> hr \<longrightarrow> (\<exists>x \<in> set gs1. i \<in> set (gr_indices x)) \<or> Reusable (ev_Judgment e1) \<and> Eligible e)"
proof (cases hr)
  case True
  with assms show ?thesis by (auto simp: collect_one_def keeps_def)
next
  case False
  note ei = assms(3) [OF False]
  obtain g2 t c r where o: "Observe S g e now = (g2, t, c, r)" by (metis prod_cases4)
  show ?thesis
  proof (cases c)
    case (Some j)
    with o False assms(1,2) Observe_Eligible [of S g e now g2 t j r] show ?thesis
      by (auto simp: collect_one_def keeps_def cached_event_def same_evidence_iff)
  next
    case None
    show ?thesis
    proof (cases "tk_Key t \<noteq> [] \<and> list_ex (\<lambda>x. gr_eligible x \<and> gr_ticket x = t) gs")
      case True
      with o None False assms(1) have r: "gs1 = join_group t i e gs" "e1 = e" by (auto simp: collect_one_def)
      have "groups_saw E gs1"
        unfolding r join_group_def by (rule groups_saw_map [OF assms(2)]) (use ei in auto)
      moreover have "\<exists>x \<in> set gs1. i \<in> set (gr_indices x)"
      proof -
        from True obtain x where x: "x \<in> set gs" "gr_eligible x \<and> gr_ticket x = t" by (auto simp: list_ex_iff)
        from x(2) imageI [OF x(1), of "\<lambda>g. if gr_eligible g \<and> gr_ticket g = t
            then g\<lparr>gr_indices := gr_indices g @ [i], gr_d := Dossier_Observe (gr_d g) e\<rparr> else g"]
        show ?thesis unfolding r join_group_def set_map by (intro bexI) auto
      qed
      ultimately show ?thesis using False by (simp add: r keeps_join)
    next
      case join: False
      with o None False assms(1) have r: "e1 = e" "gs1 = gs @ [\<lparr>gr_ticket = t, gr_d = Dossier_Observe (new_dossier S t e r) e,
          gr_indices = [i], gr_eligible = (tk_Key t \<noteq> [])\<rparr>]" by (auto simp: collect_one_def Let_def split: if_splits)
      with assms(2) ei False show ?thesis by (auto simp: groups_saw_def keeps_append Dossier_Observe_risky)
    qed
  qed
qed

lemma collect_facts:
  "collect S now off es g gs = (g1, gs1, out) \<Longrightarrow> groups_saw E gs \<Longrightarrow> (\<And>i. i < length es \<Longrightarrow> \<not> snd (es ! i) \<Longrightarrow> E (off + i) = Some (fst (es ! i)))
    \<Longrightarrow> groups_saw E gs1 \<and> keeps gs gs1 \<and> collected es off gs1 out"
proof (induction es arbitrary: off g gs g1 gs1 out)
  case Nil
  then show ?case by (simp add: keeps_def collected_def) blast
next
  case (Cons er es)
  obtain e hr where er: "er = (e, hr)" by fastforce
  obtain g2 gs2 e2 where one: "collect_one S now off hr e g gs = (g2, gs2, e2)" by (metis prod_cases3)
  obtain g3 gs3 out3 where rest: "collect S now (Suc off) es g2 gs2 = (g3, gs3, out3)" by (metis prod_cases3)
  have r: "gs1 = gs3" "out = e2 # out3" using Cons.prems(1) one rest by (simp_all add: er)
  have "\<not> hr \<Longrightarrow> E off = Some e" using Cons.prems(3) [of 0] by (simp add: er)
  note F = collect_one_facts [OF one Cons.prems(2) this]
  have "E (Suc off + i) = Some (fst (es ! i))" if "i < length es" "\<not> snd (es ! i)" for i
    using Cons.prems(3) [of "Suc i"] that by (simp add: er)
  with Cons.IH [OF rest] F have I: "groups_saw E gs3" "keeps gs2 gs3" "collected es (Suc off) gs3 out3" by blast+
  have "\<exists>x \<in> set gs3. off \<in> set (gr_indices x)" if "\<exists>x \<in> set gs2. off \<in> set (gr_indices x)"
    using that I(2) unfolding keeps_def by blast
  with I(3) F have "collected ((e, hr) # es) off gs3 (e2 # out3)"
    unfolding collected_def by (auto simp: nth_Cons split: nat.splits)
  with I(1,2) F keeps_trans show ?case by (simp add: r er) blast
qed

section \<open>Settling\<close>

lemma Publish_judgment_sound: "sound_verdict e (stamp_judgment now ttl j) = sound_verdict e j"
  by (simp add: sound_verdict_def stamp_judgment_def)

lemma settle_group_sound:
  assumes "settle_group ttl now later f x a g = (g', j, ok)" and "risky_event e \<Longrightarrow> unsafe_dossier (gr_d x)"
  shows "sound_verdict e j"
  using assms accept_judgment_sound [where x = x and g = g and a = a, OF assms(2)]
  by (auto simp: settle_group_def Let_def Publish_judgment_sound split: if_splits prod.splits)

lemma sound_member:
  "sound_verdict e j \<Longrightarrow> sound_verdict e (ev_Judgment (member_event live x j r f b o'))"
  by (auto simp: member_event_def sound_verdict_def Let_def)

lemma assign_list_facts:
  "length (foldl (\<lambda>o' i. o'[i := F i (o' ! i)]) out is) = length out"
  "i < length out \<Longrightarrow> (\<And>i e. same_evidence e (F i e)) \<Longrightarrow> same_evidence (out ! i) (foldl (\<lambda>o' i. o'[i := F i (o' ! i)]) out is ! i)"
  "i < length out \<Longrightarrow> i \<notin> set is \<Longrightarrow> foldl (\<lambda>o' i. o'[i := F i (o' ! i)]) out is ! i = out ! i"
  "i < length out \<Longrightarrow> i \<in> set is \<Longrightarrow> \<exists>e. foldl (\<lambda>o' i. o'[i := F i (o' ! i)]) out is ! i = F i e"
proof (induction "is" arbitrary: out)
  case (Cons k ks)
  { case 1 then show ?case by (simp add: Cons.IH) next
    case 2
    have "same_evidence (out ! i) (out[k := F k (out ! k)] ! i)" using 2 by (cases "i = k") auto
    with Cons.IH(2) [of "out[k := F k (out ! k)]"] 2 show ?case by (auto intro: same_evidence_trans) next
    case 3 then show ?case by (simp add: Cons.IH) next
    case 4
    show ?case
    proof (cases "i \<in> set ks")
      case True
      with Cons.IH(4) [of "out[k := F k (out ! k)]"] 4 show ?thesis by simp
    next
      case False
      with 4 Cons.IH(3) [of "out[k := F k (out ! k)]"] show ?thesis by auto
    qed }
qed simp_all

lemma settle_all_facts:
  assumes "settle_all ttl now later live xs g out = (g', out')" and "groups_saw E (map fst xs)" and "i < length out"
  shows "length out' = length out \<and> same_evidence (out ! i) (out' ! i)
    \<and> ((\<forall>(x, a) \<in> set xs. i \<notin> set (gr_indices x)) \<longrightarrow> out' ! i = out ! i)
    \<and> (\<forall>e. E i = Some e \<longrightarrow> (\<exists>(x, a) \<in> set xs. i \<in> set (gr_indices x)) \<longrightarrow> sound_verdict e (ev_Judgment (out' ! i)))"
  using assms
proof (induction xs arbitrary: g out)
  case Nil
  then show ?case by simp
next
  case (Cons xa xs)
  obtain x a where xa: "xa = (x, a)" by fastforce
  let ?f = "ev_ID (out ! hd (gr_indices x))"
  obtain g1 j ok where s: "settle_group ttl now (later (length xs)) ?f x a g = (g1, j, ok)" by (metis prod_cases3)
  let ?o = "assign_group live x j ok ?f out"
  have rest: "settle_all ttl now later live xs g1 ?o = (g', out')" using Cons.prems(1) s by (simp add: xa)
  have len: "length ?o = length out" and ev: "same_evidence (out ! i) (?o ! i)"
    and keep: "i \<notin> set (gr_indices x) \<Longrightarrow> ?o ! i = out ! i"
    unfolding assign_group_def by (rule assign_list_facts(1) assign_list_facts(2) assign_list_facts(3); simp add: Cons.prems(3))+
  have new: "sound_verdict e (ev_Judgment (?o ! i))" if "i \<in> set (gr_indices x)" "E i = Some e" for e
  proof -
    have "risky_event e \<longrightarrow> unsafe_dossier (gr_d x)" using Cons.prems(2) that by (auto simp: xa groups_saw_def)
    then have j: "sound_verdict e j" using settle_group_sound [OF s] by blast
    have "\<exists>o'. ?o ! i = member_event live x j ok ?f (i = hd (gr_indices x)) o'"
      unfolding assign_group_def by (rule assign_list_facts(4) [OF Cons.prems(3) that(1)])
    with sound_member [OF j] show ?thesis by metis
  qed
  have "groups_saw E (map fst xs)" using Cons.prems(2) by (simp add: groups_saw_def)
  with Cons.IH [OF rest] Cons.prems(3) len have I: "length out' = length out" "same_evidence (?o ! i) (out' ! i)"
    "(\<forall>(x, a) \<in> set xs. i \<notin> set (gr_indices x)) \<longrightarrow> out' ! i = ?o ! i"
    "\<forall>e. E i = Some e \<longrightarrow> (\<exists>(x, a) \<in> set xs. i \<in> set (gr_indices x)) \<longrightarrow> sound_verdict e (ev_Judgment (out' ! i))"
    by simp_all
  show ?case
  proof (cases "\<exists>(x, a) \<in> set xs. i \<in> set (gr_indices x)")
    case True
    with I same_evidence_trans [OF ev] show ?thesis by (auto simp: xa)
  next
    case False
    then have "out' ! i = ?o ! i" using I(3) by blast
    with I(1) ev keep new False show ?thesis by (auto simp: xa)
  qed
qed

lemma length_assign_group [simp]: "length (assign_group live x j r f out) = length out"
  unfolding assign_group_def by (rule assign_list_facts(1))

lemma settle_all_length:
  "settle_all ttl now later live xs g out = (g', out') \<Longrightarrow> length out' = length out"
  by (induction ttl now later live xs g out rule: settle_all.induct)
    (auto simp: Let_def split: prod.splits)

section \<open>One batch\<close>

lemma Reusable_sound: "Reusable j \<Longrightarrow> Eligible e \<Longrightarrow> sound_verdict e j"
  by (auto simp: sound_verdict_def Reusable_def confidences_def risky_event_def Eligible_def split: if_splits option.splits)

lemma Offline_sound: "sound_verdict e (Offline x)"
  by (simp add: sound_verdict_def Offline_def verdict_def Unknown_def)

lemma set_zip_answers:
  "length as = length gs \<Longrightarrow> map fst (zip gs as) = gs"
  by simp

lemma length_answers_for [simp]: "length (answers_for cancelled judge g gs) = length gs"
  by (simp add: answers_for_def split: option.splits sum.splits)

lemma length_human_reviewed [simp]: "length (human_reviewed c events) = length events"
  by (simp add: human_reviewed_def split: option.splits)

text \<open>What \<open>judge_batch\<close> promises for the event at one position.\<close>

definition judged_ok :: "event \<times> bool \<Rightarrow> event \<Rightarrow> bool" where
  "judged_ok er e' = (same_evidence (fst er) e' \<and> (if snd er then e' = fst er else sound_verdict (fst er) (ev_Judgment e')))"

lemma judge_batch_ok:
  assumes "judge_batch S c now later cancelled live judge events g = (g', out)"
  shows "length out = length events \<and> (\<forall>i < length events. judged_ok (human_reviewed c events ! i) (out ! i))"
proof (cases "ec_Offline c")
  case True
  with assms show ?thesis
    by (auto simp: judge_batch_def Let_def judged_ok_def Offline_sound split: prod.splits)
next
  case False
  let ?es = "human_reviewed c events"
  define E where "E i = (if i < length ?es \<and> \<not> snd (?es ! i) then Some (fst (?es ! i)) else None)" for i
  obtain g1 gs out1 where col: "collect S now 0 ?es g [] = (g1, gs, out1)" by (metis prod_cases3)
  have C: "groups_saw E gs" "collected ?es 0 gs out1"
    using collect_facts [OF col, of E] by (auto simp: groups_saw_def E_def)
  show ?thesis
  proof (cases "gs = []")
    case True
    with assms False col have "out = out1" by (simp add: judge_batch_def)
    with C(2) True show ?thesis by (auto simp: collected_def judged_ok_def Reusable_sound)
  next
    case gs: False
    let ?xs = "zip gs (answers_for cancelled judge g1 gs)"
    have s: "settle_all (ec_TTL c) now later live ?xs g1 out1 = (g', out)"
      using assms False col gs by (simp add: judge_batch_def)
    have m: "map fst ?xs = gs" by simp
    have len1: "length out1 = length events" using C(2) by (simp add: collected_def)
    have "judged_ok (?es ! i) (out ! i)" "length out = length events" if i: "i < length events" for i
    proof -
      have F: "length out = length out1" "same_evidence (out1 ! i) (out ! i)"
        "(\<forall>(x, a) \<in> set ?xs. i \<notin> set (gr_indices x)) \<longrightarrow> out ! i = out1 ! i"
        "\<forall>e. E i = Some e \<longrightarrow> (\<exists>(x, a) \<in> set ?xs. i \<in> set (gr_indices x)) \<longrightarrow> sound_verdict e (ev_Judgment (out ! i))"
        using settle_all_facts [OF s, of E i] C(1) m i len1 by simp_all
      have D: "same_evidence (fst (?es ! i)) (out1 ! i)" "snd (?es ! i) \<longrightarrow> out1 ! i = fst (?es ! i)"
        "\<not> snd (?es ! i) \<longrightarrow> (\<exists>x \<in> set gs. i \<in> set (gr_indices x)) \<or> Reusable (ev_Judgment (out1 ! i)) \<and> Eligible (fst (?es ! i))"
        using C(2) i by (simp_all add: collected_def)
      show "length out = length events" using F(1) len1 by simp
      have out: "E i = Some (fst (?es ! i)) \<or> (\<forall>(x, a) \<in> set ?xs. i \<notin> set (gr_indices x))" and rev: "snd (?es ! i) \<Longrightarrow> E i = None"
      proof -
        show "snd (?es ! i) \<Longrightarrow> E i = None" by (simp add: E_def)
        have "E i = Some e \<Longrightarrow> e = fst (?es ! i)" for e by (simp add: E_def split: if_splits)
        moreover have "x \<in> set gs \<Longrightarrow> i \<in> set (gr_indices x) \<Longrightarrow> \<exists>e. E i = Some e" for x
          using C(1) unfolding groups_saw_def by blast
        ultimately show "E i = Some (fst (?es ! i)) \<or> (\<forall>(x, a) \<in> set ?xs. i \<notin> set (gr_indices x))"
          by (fastforce dest: set_zip_leftD)
      qed
      have in_xs: "(\<exists>(x, a) \<in> set ?xs. i \<in> set (gr_indices x)) = (\<exists>x \<in> set gs. i \<in> set (gr_indices x))"
      proof -
        have "(\<exists>p \<in> set ?xs. i \<in> set (gr_indices (fst p))) = (\<exists>x \<in> set (map fst ?xs). i \<in> set (gr_indices x))"
          unfolding set_map by blast
        then show ?thesis unfolding m case_prod_beta .
      qed
      show "judged_ok (?es ! i) (out ! i)"
      proof (cases "\<exists>(x, a) \<in> set ?xs. i \<in> set (gr_indices x)")
        case True
        with out have "E i = Some (fst (?es ! i))" by blast
        with F(2,4) True rev D(1) show ?thesis by (auto simp: judged_ok_def intro: same_evidence_trans)
      next
        case False
        with F(3) have "out ! i = out1 ! i" by blast
        with D False in_xs show ?thesis by (auto simp: judged_ok_def Reusable_sound)
      qed
    qed
    moreover have "length out = length events"
      using settle_all_length [OF s] len1 by simp
    ultimately show ?thesis by blast
  qed
qed

section \<open>The teacher lane\<close>

text \<open>The lane only ever turns a verdict that is not important into an important one.\<close>

definition escalated_to :: "Judgment \<Rightarrow> bool" where
  "escalated_to j = (Importance j = ''important'' \<and> Category j \<noteq> ''routine'' \<and> Category j \<noteq> ''unknown''
     \<and> (\<exists>v. ImportanceConfidence j = Some v \<and> f64_in c_0_75 (Fin 1) v))"

definition raised :: "event \<Rightarrow> event \<Rightarrow> bool" where
  "raised a b = (b = a \<or> (Importance (ev_Judgment a) \<noteq> ''important'' \<and> escalated_to (ev_Judgment b)
     \<and> ev_Review a = None \<and> Eligible a \<and> AnalysisError (ev_Judgment a) \<noteq> ''stale template generation''
     \<and> b = a\<lparr>ev_Judgment := ev_Judgment b\<rparr>))"

definition entries_ok :: "(string, learned) gomap \<Rightarrow> bool" where
  "entries_ok m = (\<forall>(k, p) \<in> set m. (\<forall>j. ln_escalation p = Some j \<longrightarrow> escalated_to j) \<and> length (te_Samples (ln_evidence p)) \<le> 8)"

definition learning_ok :: "learning \<Rightarrow> bool" where
  "learning_ok l = (length (le_entries l) \<le> le_capacity l \<and> wf_map (le_entries l) \<and> length (le_decisions l) \<le> 1000 \<and> entries_ok (le_entries l))"

lemma Escalation_ok: "Escalation current r = Some j \<Longrightarrow> escalated_to j \<and> Importance current \<noteq> ''important''"
  by (auto simp: Escalation_def escalated_to_def verdict_def Unknown_def conf_lt_def c_0_75_def f64_lt_def f64_in_def
      dest!: Review_Validate_None split: if_splits)

lemma raised_refl [simp]: "raised a a"
  by (simp add: raised_def)

lemma raised_trans: "raised a b \<Longrightarrow> raised b c \<Longrightarrow> raised a c"
  by (auto simp: raised_def escalated_to_def)

lemma learningEligible_D: "learningEligible g e \<Longrightarrow> ev_Review e = None \<and> Eligible e \<and> AnalysisError (ev_Judgment e) \<noteq> ''stale template generation''"
  by (auto simp: learningEligible_def split: if_splits)

lemma entries_ok_mput: "entries_ok m \<Longrightarrow> (\<And>j. ln_escalation p = Some j \<Longrightarrow> escalated_to j) \<Longrightarrow> length (te_Samples (ln_evidence p)) \<le> 8
    \<Longrightarrow> entries_ok (mput k p m)"
  by (auto simp: entries_ok_def dest!: set_mputD)

lemma entries_ok_get: "entries_ok m \<Longrightarrow> mget m k = Some p \<Longrightarrow>
    (\<forall>j. ln_escalation p = Some j \<longrightarrow> escalated_to j) \<and> length (te_Samples (ln_evidence p)) \<le> 8"
  by (auto simp: entries_ok_def dest!: map_of_SomeD)

lemma learn_sample_ok [simp]: "ln_escalation (learn_sample e p) = ln_escalation p"
  "length (te_Samples (ln_evidence p)) \<le> 8 \<Longrightarrow> length (te_Samples (ln_evidence (learn_sample e p))) \<le> 8"
  by (simp_all add: learn_sample_def Let_def)

lemma observe_one_ok:
  assumes "observe_one S strategy g now e l touched = (l', t', e')" and "learning_ok l"
  shows "learning_ok l' \<and> raised e e' \<and> le_capacity l' = le_capacity l"
proof (cases "learningEligible g e")
  case False
  with assms show ?thesis by (auto simp: observe_one_def)
next
  case el: True
  show ?thesis
  proof (cases "family S strategy e")
    case None
    with assms el show ?thesis by (auto simp: observe_one_def)
  next
    case (Some kv)
    obtain key version where kv: "kv = (key, version)" by fastforce
    let ?p0 = "case mget (le_entries l) key of None \<Rightarrow> fresh_learned S now (le_ttl l) e key version | Some p \<Rightarrow> p"
    have p0: "(\<forall>j. ln_escalation ?p0 = Some j \<longrightarrow> escalated_to j) \<and> length (te_Samples (ln_evidence ?p0)) \<le> 8"
      using assms(2) entries_ok_get [of "le_entries l" key]
      by (auto simp: learning_ok_def fresh_learned_def split: option.split)
    have put: "learning_ok (l\<lparr>le_entries := mput key p (le_entries l)\<rparr>)"
      if "\<forall>j. ln_escalation p = Some j \<longrightarrow> escalated_to j" "length (te_Samples (ln_evidence p)) \<le> 8"
        "\<not> (mget (le_entries l) key = None \<and> le_capacity l \<le> length (le_entries l))" for p
      using assms(2) that by (auto simp: learning_ok_def entries_ok_mput length_mput mhas_def)
    show ?thesis
      using assms el Some kv p0 put [of ?p0] put [of "learn_sample e ?p0"] learningEligible_D [OF el]
      by (auto simp: observe_one_def Let_def apply_escalation_def raised_def split: if_splits option.splits)
  qed
qed

lemma observe_all_ok:
  "observe_all S strategy g now es l touched = (l', t', es') \<Longrightarrow> learning_ok l
    \<Longrightarrow> learning_ok l' \<and> list_all2 raised es es' \<and> le_capacity l' = le_capacity l"
proof (induction es arbitrary: l touched l' t' es')
  case Nil
  then show ?case by simp
next
  case (Cons e es)
  obtain l1 t1 e1 where one: "observe_one S strategy g now e l touched = (l1, t1, e1)" by (metis prod_cases3)
  obtain l2 t2 es2 where rest: "observe_all S strategy g now es l1 t1 = (l2, t2, es2)" by (metis prod_cases3)
  from observe_one_ok [OF one Cons.prems(2)] Cons.IH [OF rest] Cons.prems(1) one rest show ?case by auto
qed

lemma record_decision_ok: "learning_ok l \<Longrightarrow> learning_ok (record_decision d l)"
  by (auto simp: learning_ok_def record_decision_def)

lemma record_decision_capacity [simp]: "le_capacity (record_decision d l) = le_capacity l"
  by (simp add: record_decision_def)

lemma list_all2_raised_map: "(\<And>e. raised e (f e)) \<Longrightarrow> list_all2 raised es (map f es)"
  by (simp add: list_all2_conv_all_nth)

lemma escalate_family_raised: "escalated_to j \<Longrightarrow> raised e (escalate_family g k v j e)"
  by (auto simp: escalate_family_def raised_def dest: learningEligible_D)

lemma consult_review_ok: "consult_review p d a = (d', Some j) \<Longrightarrow> escalated_to j"
  by (auto simp: consult_review_def Let_def dest: Escalation_ok split: sum.splits if_splits option.splits)

lemma review_one_ok:
  assumes "review_one S strategy g T k l n es = (l', n', es')" and "learning_ok l" and "n \<le> 2"
  shows "learning_ok l' \<and> list_all2 raised es es' \<and> n' \<le> 2 \<and> n \<le> n' \<and> le_capacity l' = le_capacity l"
proof (cases "mget (le_entries l) k")
  case None
  with assms show ?thesis by (auto simp: review_one_def list_all2_refl)
next
  case (Some p0)
  show ?thesis
  proof (cases "due l n p0")
    case False
    with Some assms show ?thesis by (auto simp: review_one_def list_all2_refl)
  next
    case due: True
    let ?p = "p0\<lparr>ln_next := ln_next p0 + 1\<rparr>"
    let ?d = "\<lparr>ld_TemplateID = k, ld_VersionID = ln_version ?p, ld_Seen = te_Occurrences (ln_evidence ?p),
      ld_Outcome = ''rejected'', ld_Proposal = None, ld_Review = None\<rparr>"
    have n: "n < 2" using due by (simp add: due_def)
    have ok: "entries_ok (le_entries l)" using assms(2) by (simp add: learning_ok_def)
    have put: "learning_ok (record_decision d (l\<lparr>le_entries := mput k p (le_entries l)\<rparr>))"
      if "\<forall>j. ln_escalation p = Some j \<longrightarrow> escalated_to j" "length (te_Samples (ln_evidence p)) \<le> 8" for p d
      by (rule record_decision_ok) (use assms(2) that Some in \<open>auto simp: learning_ok_def entries_ok_mput length_mput mhas_def\<close>)
    obtain d1 c where cr: "consult_review ?p ?d (t_Review T n (ln_evidence ?p)) = (d1, c)" by fastforce
    have put0: "learning_ok (record_decision d (l\<lparr>le_entries := mput k ?p (le_entries l)\<rparr>))" for d
      using put [of ?p d] entries_ok_get [OF ok Some] by simp
    show ?thesis
    proof (cases "strategy = ''semantic''")
      case True
      with assms(1) Some due put0 n show ?thesis by (auto simp: review_one_def Let_def list_all2_refl)
    next
      case sem: False
      show ?thesis
      proof (cases c)
        case None
        with assms(1) Some due put0 n sem cr show ?thesis by (auto simp: review_one_def Let_def list_all2_refl)
      next
        case (Some j)
        then have j: "escalated_to j" using cr consult_review_ok by blast
        have "learning_ok (record_decision d1 (l\<lparr>le_entries := mput k (?p\<lparr>ln_escalation := Some j\<rparr>) (le_entries l)\<rparr>))"
          using put [of "?p\<lparr>ln_escalation := Some j\<rparr>" d1] j entries_ok_get [OF ok \<open>mget (le_entries l) k = Some p0\<close>] by simp
        with assms(1) \<open>mget (le_entries l) k = Some p0\<close> due n sem cr Some j show ?thesis
          by (auto simp: review_one_def Let_def intro!: list_all2_raised_map escalate_family_raised)
      qed
    qed
  qed
qed

lemma list_all2_raised_trans: "list_all2 raised a b \<Longrightarrow> list_all2 raised b c \<Longrightarrow> list_all2 raised a c"
  by (rule list_all2_trans [of raised raised raised]) (rule raised_trans)

lemma review_all_ok:
  "review_all S strategy g T ks l n es = (l', n', es') \<Longrightarrow> learning_ok l \<Longrightarrow> n \<le> 2
    \<Longrightarrow> learning_ok l' \<and> list_all2 raised es es' \<and> n' \<le> 2 \<and> le_capacity l' = le_capacity l"
proof (induction ks arbitrary: l n es)
  case Nil
  then show ?case by (simp add: list_all2_refl)
next
  case (Cons k ks)
  obtain l1 n1 es1 where one: "review_one S strategy g T k l n es = (l1, n1, es1)" by (metis prod_cases3)
  from review_one_ok [OF one Cons.prems(2,3)] Cons.IH [of l1 n1 es1] Cons.prems(1) one list_all2_raised_trans [of es es1 es']
  show ?case by simp
qed

lemma wf_filter: "wf_map m \<Longrightarrow> wf_map (filter P m)"
  by (induction m) auto

lemma expire_ok: "learning_ok l \<Longrightarrow> learning_ok (expire now l)"
  by (auto simp: expire_def learning_ok_def Let_def entries_ok_def wf_filter intro: le_trans [OF length_filter_le])

lemma teach_ok:
  assumes "teach S strategy g T live now lopt es = (lopt', es')" and "\<forall>l. lopt = Some l \<longrightarrow> learning_ok l"
  shows "(\<forall>l. lopt' = Some l \<longrightarrow> learning_ok l) \<and> list_all2 raised es es'"
proof (cases "lopt = None \<or> \<not> live")
  case True
  with assms show ?thesis by (auto simp: teach_def list_all2_refl split: option.splits)
next
  case False
  then obtain l where l: "lopt = Some l" "live" by auto
  obtain l1 t1 es1 where o: "observe_all S strategy g now es (expire now l) [] = (l1, t1, es1)" by (metis prod_cases3)
  obtain l2 n2 es2 where r: "review_all S strategy g T t1 l1 0 es1 = (l2, n2, es2)" by (metis prod_cases3)
  have res: "lopt' = Some l2" "es' = es2" using assms(1) l o r by (simp_all add: teach_def)
  from observe_all_ok [OF o expire_ok] assms(2) l(1) have O: "learning_ok l1" "list_all2 raised es es1" by blast+
  from review_all_ok [OF r O(1)] have "learning_ok l2" "list_all2 raised es1 es2" by simp_all
  with O(2) list_all2_raised_trans res show ?thesis by blast
qed

section \<open>Properties of the engine\<close>

lemma raised_same: "raised a b \<Longrightarrow> same_evidence a b"
proof -
  assume "raised a b"
  then obtain j where "b = a \<or> b = a\<lparr>ev_Judgment := j\<rparr>" unfolding raised_def by blast
  then show ?thesis by (elim disjE) (simp_all only: same_evidence_refl same_evidence_writes)
qed

lemma raised_sound: "raised a b \<Longrightarrow> sound_verdict e (ev_Judgment a) \<Longrightarrow> sound_verdict e (ev_Judgment b)"
  by (auto simp: raised_def sound_verdict_def escalated_to_def)

lemma Batch_cases:
  assumes "Batch S c now later last_now cancelled live judge T events st = (st', out)"
  obtains g' mid where "judge_batch S c now later cancelled live judge events (fst st) = (g', mid)"
    and "teach S (ec_Strategy c) g' T live last_now (snd st) mid = (snd st', out)" and "fst st' = g'"
  using assms by (auto simp: Batch_def split: prod.splits)

text \<open>
  C2: a batch is sound, whatever the provider and the teacher answer, however the clock moves and whether
  or not the context is cancelled: it returns one event per event given, in order, and changes nothing of
  an event but its verdict, its assessment, its reuse flag and its representative.  An event no human has
  judged is called routine only with an importance confidence between 0.7 and 1, and never when it is
  truncated, sensitive, of uncertain framing or security shaped.
\<close>

theorem batch_sound:
  assumes "Batch S c now later last_now cancelled live judge T events st = (st', out)"
    and "\<forall>l. snd st = Some l \<longrightarrow> learning_ok l" and "i < length events"
  shows "length out = length events \<and> same_evidence (fst (human_reviewed c events ! i)) (out ! i)
    \<and> (\<not> snd (human_reviewed c events ! i) \<longrightarrow> Importance (ev_Judgment (out ! i)) = ''routine'' \<longrightarrow>
        \<not> risky_event (fst (human_reviewed c events ! i))
        \<and> (\<exists>v. ImportanceConfidence (ev_Judgment (out ! i)) = Some v \<and> f64_in c_0_7 (Fin 1) v))
    \<and> (snd (human_reviewed c events ! i) \<longrightarrow> ev_Review (fst (human_reviewed c events ! i)) \<noteq> None \<longrightarrow>
        out ! i = fst (human_reviewed c events ! i))"
proof -
  obtain g' mid where j: "judge_batch S c now later cancelled live judge events (fst st) = (g', mid)"
    and t: "teach S (ec_Strategy c) g' T live last_now (snd st) mid = (snd st', out)"
    using Batch_cases [OF assms(1)] .
  have J: "length mid = length events" "judged_ok (human_reviewed c events ! i) (mid ! i)"
    using judge_batch_ok [OF j] assms(3) by blast+
  have R: "list_all2 raised mid out" using teach_ok [OF t assms(2)] by blast
  then have r: "raised (mid ! i) (out ! i)" "length out = length events"
    using J(1) assms(3) by (simp_all add: list_all2_conv_all_nth)
  show ?thesis
    using J r raised_same [OF r(1)] raised_sound [OF r(1), of "fst (human_reviewed c events ! i)"]
    by (auto simp: judged_ok_def sound_verdict_def raised_def intro: same_evidence_trans split: if_splits)
qed

text \<open>
  C37: the teacher lane only escalates: after the judging of a batch it may replace a verdict that is not
  important by an important one of concrete category with a confidence of at least 0.75, only on eligible
  evidence no human has reviewed and whose template generation was not stale, and it changes nothing else;
  it never downgrades, and its memory stays bounded.
\<close>

theorem teach_only_escalates:
  assumes "teach S strategy g T live now (Some l) es = (l', es')" and "learning_ok l"
  shows "list_all2 raised es es' \<and> (\<exists>m. l' = Some m \<and> length (le_entries m) \<le> le_capacity m \<and> length (le_decisions m) \<le> 1000)"
proof -
  have "\<exists>m. l' = Some m" using assms(1) by (auto simp: teach_def split: if_splits prod.splits)
  then obtain m where m: "l' = Some m" by blast
  have "learning_ok m" "list_all2 raised es es'" using teach_ok [OF assms(1)] assms(2) m by blast+
  then show ?thesis using m unfolding learning_ok_def by blast
qed

section \<open>Witnesses\<close>

definition sample_config :: engine_config where
  "sample_config = \<lparr>ec_HumanReview = None, ec_Teacher = True, ec_TemplateMinSamples = 2, ec_TemplateCapacity = 2,
     ec_TemplateConfidence = c_0_7, ec_TemplateTTL = 60 * second, ec_Offline = False, ec_Strategy = ''exact'',
     ec_Masking = ''strict'', ec_Capacity = 2, ec_BatchSize = 8, ec_TTL = 60 * second, ec_Adaptive = False,
     ec_NormalInterval = 32, ec_ReviewIDs = [], ec_Rules = None\<rparr>"

definition sample_teacher :: teacher where
  "sample_teacher = \<lparr>t_Propose = (\<lambda>n e. Inl ErrSchema), t_Review = (\<lambda>n e. Inr
     \<lparr>rv_Fields = [], rv_Importance = ''important'', rv_Category = ''capacity'', rv_Severity = ''outage'',
      rv_Confidence = Some (Fin (9 / 10)), rv_Explanation = ''resource_exhaustion''\<rparr>)\<rparr>"

definition routine_judgment :: Judgment where
  "routine_judgment = sample_judgment\<lparr>Importance := ''routine''\<rparr>"

definition truncated_event :: event where
  "truncated_event = sample_event\<lparr>ev_Truncated := True\<rparr>"

theorem batch_sound_witness:
  "Importance (ev_Judgment (snd (Batch sample_std sample_config (unix_time 1000) (\<lambda>n. unix_time 1001) (unix_time 1002) None True
      (\<lambda>ds. Inr (map (\<lambda>d. routine_judgment) ds)) sample_teacher [truncated_event] (sample_grouper, newLearning sample_config)) ! 0))
    \<noteq> ''routine''" (is "Importance (ev_Judgment (snd ?B ! 0)) \<noteq> _")
proof -
  obtain st' out where b: "?B = (st', out)" by fastforce
  have l: "\<forall>l. snd (sample_grouper, newLearning sample_config) = Some l \<longrightarrow> learning_ok l"
    by (simp add: newLearning_def sample_config_def learning_ok_def entries_ok_def)
  have h: "human_reviewed sample_config [truncated_event] ! 0 = (truncated_event, False)"
    by (simp add: human_reviewed_def sample_config_def)
  have "risky_event truncated_event" by (simp add: risky_event_def truncated_event_def)
  with batch_sound [OF b l, of 0] show ?thesis by (auto simp: h b)
qed

definition sample_learning :: learning where
  "sample_learning = \<lparr>le_observed = zero_time, le_entries = [(''fam'',
       \<lparr>ln_evidence = \<lparr>te_ScopeID = ''s'', te_TemplateID = ''fam'', te_Samples = [''x''], te_Occurrences = 4,
          te_Current = routine_judgment\<rparr>, ln_version = ''v'', ln_expires = unix_time 2000, ln_escalation = None, ln_next = 0\<rparr>)],
     le_decisions = [], le_minSamples = 2, le_confidence = c_0_7, le_ttl = 60 * second, le_capacity = 2\<rparr>"

definition family_event :: event where
  "family_event = sample_event\<lparr>ev_Judgment := routine_judgment, ev_Assessment := Some \<lparr>as_Dispatched = True,
     as_TemplateID = ''fam'', as_VersionID = ''v'', as_WindowOccurrences = 1, as_SampleCount = 1,
     as_EvidenceLimited = False, as_SamplesLimited = False, as_Reason = ''new_or_expired''\<rparr>\<rparr>"

theorem teach_only_escalates_witness:
  "\<exists>l' e'. teach sample_std ''exact'' sample_grouper sample_teacher True (unix_time 1000) (Some sample_learning) [family_event] = (l', [e'])
    \<and> raised family_event e'"
proof -
  obtain l' es' where t: "teach sample_std ''exact'' sample_grouper sample_teacher True (unix_time 1000) (Some sample_learning)
      [family_event] = (l', es')" by fastforce
  have "learning_ok sample_learning" by (simp add: learning_ok_def sample_learning_def entries_ok_def)
  from teach_only_escalates [OF t this] have "list_all2 raised [family_event] es'" by blast
  then obtain e' where "es' = [e']" "raised family_event e'" by (auto simp: list_all2_Cons1)
  with t show ?thesis by blast
qed

text \<open>In this run the teacher does escalate.\<close>

lemma sample_escalation:
  "map (\<lambda>e. Importance (ev_Judgment e)) (snd (teach sample_std ''exact'' sample_grouper sample_teacher True (unix_time 1000)
     (Some sample_learning) [family_event])) = [''important'']"
  by code_simp

section \<open>Replayed proposals\<close>

lemma shapeOf_nonempty: "\<forall>x. sha256hex S x \<noteq> [] \<Longrightarrow> shapeOf S s = Some (sh, vs) \<Longrightarrow> sh \<noteq> []"
  by (auto simp: shapeOf_def Hash_def split: option.splits json.splits)

lemma replay_sound:
  "replay S p first ss \<Longrightarrow> \<forall>x. sha256hex S x \<noteq> [] \<Longrightarrow>
    \<exists>shape. (first \<noteq> [] \<longrightarrow> shape = first) \<and> (\<forall>s \<in> set ss. \<exists>vals. shapeOf S s = Some (shape, vals)
      \<and> list_all (mhas vals) (pr_Required p @ pr_Protected p) \<and> list_all (normalizes_id vals) (pr_Normalize p))"
proof (induction ss arbitrary: first)
  case Nil
  then show ?case by simp
next
  case (Cons s ss)
  obtain shape vals where sv: "shapeOf S s = Some (shape, vals)" using Cons.prems(1) by (auto split: option.splits)
  have f: "first = [] \<or> shape = first" and ok: "list_all (mhas vals) (pr_Required p @ pr_Protected p)"
      "list_all (normalizes_id vals) (pr_Normalize p)" and rest: "replay S p (if first = [] then shape else first) ss"
    using Cons.prems(1) sv by (simp_all split: if_splits)
  have ne: "(if first = [] then shape else first) = shape" using f by auto
  from Cons.IH [OF rest Cons.prems(2)] ne shapeOf_nonempty [OF Cons.prems(2) sv]
  have "\<forall>s \<in> set ss. \<exists>vals. shapeOf S s = Some (shape, vals)
      \<and> list_all (mhas vals) (pr_Required p @ pr_Protected p) \<and> list_all (normalizes_id vals) (pr_Normalize p)" by auto
  with sv ok f show ?case by (intro exI [of _ shape]) auto
qed

text \<open>
  a proposal passes its replay only when it can lose nothing but identifiers: it validates, there are
  at least two samples, all of them JSON objects of one shape that carry every required and protected path,
  and each path it would normalize holds, in every sample, an opaque identifier in an unprotected identifier
  field.  The digest is never empty.
\<close>

theorem validated_proposal_ids:
  assumes "ValidateProposal S p samples" and "\<forall>x. sha256hex S x \<noteq> []"
  shows "Proposal_Validate p = None \<and> 2 \<le> length samples \<and> (\<exists>shape. \<forall>s \<in> set samples. \<exists>vals.
    shapeOf S s = Some (shape, vals) \<and> (\<forall>path \<in> set (pr_Required p) \<union> set (pr_Protected p). mhas vals path)
    \<and> (\<forall>path \<in> set (pr_Normalize p). \<exists>value. mget vals path = Some (JStr value) \<and> MatchString opaque value
         \<and> \<not> protectedField path \<and> MatchString idField (last (Split path (CHR ''/'')))))"
proof -
  have v: "Proposal_Validate p = None" "2 \<le> length samples" "replay S p [] samples"
    using assms(1) by (auto simp: ValidateProposal_def split: if_splits)
  from replay_sound [OF v(3) assms(2)] obtain shape where sh: "\<forall>s \<in> set samples. \<exists>vals. shapeOf S s = Some (shape, vals)
      \<and> list_all (mhas vals) (pr_Required p @ pr_Protected p) \<and> list_all (normalizes_id vals) (pr_Normalize p)" by auto
  have n: "normalizes_id vals path \<Longrightarrow> \<exists>value. mget vals path = Some (JStr value) \<and> MatchString opaque value
      \<and> \<not> protectedField path \<and> MatchString idField (last (Split path (CHR ''/'')))" for vals path
    by (auto simp: normalizes_id_def split: option.splits json.splits)
  show ?thesis
    using v(1,2) sh n unfolding list_all_iff by (intro conjI exI [of _ shape]) (fastforce | assumption)+
qed

definition span_proposal :: proposal where
  "span_proposal = \<lparr>pr_Name = ''span'', pr_Version = 1, pr_Required = [''/span_id''], pr_Normalize = [''/span_id''],
     pr_Protected = [], pr_Cacheable = False, pr_Confidence = Some (Fin 1), pr_Explanation = ''opaque_identifiers''\<rparr>"

definition span_text :: "char \<Rightarrow> string" where
  "span_text c = CHR 0x7B # quote ''span_id'' @ '':'' @ quote (replicate 16 c) @ [CHR 0x7D]"

lemma span_parse: "json_parse (span_text (CHR ''a'')) = Some (JObj [(''span_id'', JStr (replicate 16 (CHR ''a'')))])"
    "json_parse (span_text (CHR ''b'')) = Some (JObj [(''span_id'', JStr (replicate 16 (CHR ''b'')))])"
  by code_simp+

lemma span_ids: "Proposal_Validate span_proposal = None" "MatchString opaque (replicate 16 (CHR ''a''))"
    "MatchString opaque (replicate 16 (CHR ''b''))" "\<not> protectedField ''/span_id''" "MatchString idField ''span_id''"
    "Split ''/span_id'' (CHR ''/'') = ['''', ''span_id'']"
  by code_simp+

lemma span_shape:
  "shapeOf S (span_text c) = Some (Hash S (strmap_json [('''', ''object''), (''/span_id'', ''string'')]),
     [('''', JObj [(''span_id'', JStr (replicate 16 c))]), (''/span_id'', JStr (replicate 16 c))])"
  if "json_parse (span_text c) = Some (JObj [(''span_id'', JStr (replicate 16 c))])"
  using that by (simp add: shapeOf_def walk_shape_def walk_values_def as_map_def pointer_key_def shape_kind_def)

theorem validated_proposal_ids_witness:
  "ValidateProposal sample_std span_proposal [span_text (CHR ''a''), span_text (CHR ''b'')]
    \<and> (\<exists>shape. \<forall>s \<in> set [span_text (CHR ''a''), span_text (CHR ''b'')]. \<exists>vals. shapeOf sample_std s = Some (shape, vals))"
proof -
  have d: "\<forall>x. sha256hex sample_std x \<noteq> []" 
  proof
    fix x have "length (sha256hex sample_std x) = 64" by (simp add: sample_std_def length_sample_digest)
    then show "sha256hex sample_std x \<noteq> []" by auto
  qed
  have "ValidateProposal sample_std span_proposal [span_text (CHR ''a''), span_text (CHR ''b'')]"
    using span_ids(1)
    by (simp add: ValidateProposal_def span_shape span_parse mhas_def normalizes_id_def span_ids)
      (simp add: span_proposal_def mhas_def normalizes_id_def span_ids(2-6))
  with validated_proposal_ids [OF this d] show ?thesis by blast
qed

end
