(* ===== verification/Report.thy ===== *)
theory Report
  imports GoSort Samples Provider "HOL-Library.Product_Lexorder"
begin

text \<open>
  \<open>internal/report/report.go\<close>: the bounded collection of events and coverage gaps, the snapshot with its
  completeness verdict, and the atomic, size-bounded publication of a report file.  The \<open>uint64\<close> counters
  are naturals: each counts method calls or lines and stays far below its width.
\<close>

section \<open>Collecting\<close>

record coverage =
  cv_Source :: source
  cv_Status :: string
  cv_Warnings :: "string list"

record report =
  rp_events :: "event list"
  rp_limit :: nat
  rp_total :: nat
  rp_lines :: nat
  rp_reused :: nat
  rp_evicted :: nat
  rp_gaps :: nat
  rp_omitted :: nat
  rp_counts :: "(string, nat) gomap"
  rp_losses :: "(string, nat) gomap"
  rp_coverage :: "coverage list"
  rp_started :: gotime

definition report_New :: "gotime \<Rightarrow> int \<Rightarrow> report" where
  "report_New now limit = \<lparr>rp_events = [], rp_limit = nat (max 1 limit), rp_total = 0, rp_lines = 0, rp_reused = 0,
     rp_evicted = 0, rp_gaps = 0, rp_omitted = 0, rp_counts = [], rp_losses = [], rp_coverage = [], rp_started = now\<rparr>"

text \<open>\<open>m[k]++\<close> on a map of counters, and when a condition holds.\<close>

definition incr :: "string \<Rightarrow> (string, nat) gomap \<Rightarrow> (string, nat) gomap" where
  "incr k m = mput k (mgetd 0 m k + 1) m"

definition incr_if :: "bool \<Rightarrow> string \<Rightarrow> (string, nat) gomap \<Rightarrow> (string, nat) gomap" where
  "incr_if b k m = (if b then incr k m else m)"

definition report_Add :: "event \<Rightarrow> report \<Rightarrow> report" where
  "report_Add e r =
     (let r1 = r\<lparr>rp_total := rp_total r + 1,
                rp_losses := incr_if (ev_ParseUncertain e) ''parse_uncertain''
                  (incr_if (ev_Truncated e) ''truncated_events'' (rp_losses r)),
                rp_lines := rp_lines r + ev_LineCount e,
                rp_counts := incr (Importance (ev_Judgment e)) (rp_counts r),
                rp_reused := rp_reused r + (if ev_AnalysisReused e then 1 else 0)\<rparr>
      in if length (rp_events r) = rp_limit r then r1\<lparr>rp_events := drop 1 (rp_events r) @ [e], rp_evicted := rp_evicted r + 1\<rparr>
         else r1\<lparr>rp_events := rp_events r @ [e]\<rparr>)"

definition report_Gap :: "std \<Rightarrow> source \<Rightarrow> string \<Rightarrow> report \<Rightarrow> report" where
  "report_Gap S source status r =
     (let r1 = r\<lparr>rp_gaps := rp_gaps r + 1, rp_losses := incr (''coverage_'' @ status) (rp_losses r)\<rparr>;
          r2 = (if length (rp_coverage r) = 500 then r1\<lparr>rp_coverage := drop 1 (rp_coverage r), rp_omitted := rp_omitted r + 1\<rparr> else r1)
      in r2\<lparr>rp_coverage := rp_coverage r2 @
            [\<lparr>cv_Source = SafeSource S source, cv_Status = status, cv_Warnings = [''collection incomplete'']\<rparr>]\<rparr>)"

section \<open>Completeness\<close>

definition loss_key :: "string \<Rightarrow> bool" where
  "loss_key k = (HasPrefix k ''coverage_'' \<or> HasPrefix k ''state_'' \<and> HasSuffix k ''_evicted''
     \<or> k \<in> set [''dropped'', ''truncated_events'', ''parse_uncertain'', ''evicted_events'', ''budget_stopped'', ''outbox_backpressure''])"

definition Complete :: "bool \<Rightarrow> (string, nat) gomap \<Rightarrow> bool" where
  "Complete live metrics = (if live then False else list_all (\<lambda>(k, v). v = 0 \<or> \<not> loss_key k) metrics)"

section \<open>Snapshot\<close>

definition raise_to :: "string \<Rightarrow> nat \<Rightarrow> (string, nat) gomap \<Rightarrow> (string, nat) gomap" where
  "raise_to k v m = mput k (max (mgetd 0 m k) v) m"

definition report_metrics :: "(string, nat) gomap \<Rightarrow> report \<Rightarrow> (string, nat) gomap" where
  "report_metrics metrics r =
     raise_to ''coverage_records_omitted'' (rp_omitted r) (raise_to ''coverage_gaps'' (rp_gaps r)
       (raise_to ''evicted_events'' (rp_evicted r)
         (foldl (\<lambda>m (k, v). raise_to k v m) metrics (rp_losses r))))"

record group =
  gr_ID :: string
  gr_Source :: source
  gr_Text :: string
  gr_Severity :: string
  gr_Category :: string
  gr_Count :: nat
  gr_IDs :: "string list"

definition add_important :: "(string, group) gomap \<Rightarrow> event \<Rightarrow> (string, group) gomap" where
  "add_important by e =
     (if Importance (ev_Judgment e) \<noteq> ''important'' then by
      else let g = mgetd \<lparr>gr_ID = ev_GroupID e, gr_Source = ev_Source e, gr_Text = ev_Text e,
               gr_Severity = Severity (ev_Judgment e), gr_Category = Category (ev_Judgment e), gr_Count = 0, gr_IDs = []\<rparr> by (ev_GroupID e)
           in mput (ev_GroupID e) (g\<lparr>gr_Count := gr_Count g + 1, gr_IDs := gr_IDs g @ [ev_ID e]\<rparr>) by)"

definition group_before :: "group \<Rightarrow> group \<Rightarrow> bool" where
  "group_before a b = (if gr_Count a \<noteq> gr_Count b then gr_Count b < gr_Count a else gr_ID a < gr_ID b)"

text \<open>The groups leave the Go map in the order \<open>shuffle\<close> of this run; sorting makes that order irrelevant.\<close>

definition important_groups :: "(group list \<Rightarrow> group list) \<Rightarrow> event list \<Rightarrow> group list" where
  "important_groups shuffle es = sort_stable group_before (shuffle (map snd (foldl add_important [] es)))"

record document =
  dc_created :: gotime
  dc_mode :: string
  dc_scope :: json
  dc_events :: nat
  dc_lines :: nat
  dc_streams :: nat
  dc_important :: nat
  dc_routine :: nat
  dc_uncertain :: nat
  dc_unknown :: nat
  dc_gaps :: nat
  dc_requests :: nat
  dc_cost :: f64
  dc_reused :: nat
  dc_elapsed :: int
  dc_complete :: bool
  dc_retained :: nat
  dc_evicted :: nat
  dc_usage :: usage
  dc_metrics :: "(string, nat) gomap"
  dc_list :: "event list"
  dc_coverage :: "coverage list"
  dc_groups :: "group list"
  dc_checkpoint :: json
  dc_batches :: nat

definition report_Snapshot :: "std \<Rightarrow> (group list \<Rightarrow> group list) \<Rightarrow> gotime \<Rightarrow> string \<Rightarrow> json \<Rightarrow> bool \<Rightarrow> usage \<Rightarrow> (string, nat) gomap \<Rightarrow> json \<Rightarrow> report \<Rightarrow> document" where
  "report_Snapshot S shuffle now mode scope live usage metrics checkpoint r =
     (let m = report_metrics metrics r in
      \<lparr>dc_created = now, dc_mode = mode, dc_scope = scope, dc_events = rp_total r, dc_lines = rp_lines r,
       dc_streams = length (remdups (map (\<lambda>e. Hash S (JObj (ev_Source e))) (rp_events r) @ map (\<lambda>c. Hash S (JObj (cv_Source c))) (rp_coverage r))),
       dc_important = mgetd 0 (rp_counts r) ''important'', dc_routine = mgetd 0 (rp_counts r) ''routine'',
       dc_uncertain = mgetd 0 (rp_counts r) ''uncertain'', dc_unknown = mgetd 0 (rp_counts r) ''unknown'',
       dc_gaps = rp_gaps r, dc_requests = u_Attempts usage, dc_cost = u_Cost usage, dc_reused = rp_reused r,
       dc_elapsed = Sub now (rp_started r), dc_complete = (Complete live m \<and> mgetd 0 (rp_counts r) ''unknown'' = 0),
       dc_retained = length (rp_events r), dc_evicted = rp_evicted r, dc_usage = usage, dc_metrics = m,
       dc_list = rp_events r, dc_coverage = rp_coverage r, dc_groups = important_groups shuffle (rp_events r),
       dc_checkpoint = checkpoint, dc_batches = mgetd 0 m ''provider_batches''\<rparr>)"

section \<open>Counters\<close>

lemma mgetd_mput [simp]: "mgetd d (mput k v m) k' = (if k' = k then v else mgetd d m k')"
  by (simp add: mgetd_def)

lemma mgetd_incr: "mgetd 0 (incr k m) k' = mgetd 0 m k' + (if k' = k then 1 else 0)"
  by (simp add: incr_def)

lemma mgetd_incr_if: "mgetd 0 (incr_if b k m) k' = mgetd 0 m k' + (if b \<and> k' = k then 1 else 0)"
  by (simp add: incr_if_def mgetd_incr)

lemma wf_incr [intro, simp]: "wf_map m \<Longrightarrow> wf_map (incr k m)" "wf_map m \<Longrightarrow> wf_map (incr_if b k m)"
  by (simp_all add: incr_def incr_if_def)

lemma wf_raise_all: "wf_map m \<Longrightarrow> wf_map (foldl (\<lambda>m (k, v). raise_to k v m) m kvs)"
  by (induction kvs arbitrary: m) (simp_all add: raise_to_def case_prod_beta)

lemma mgetd_raise_to: "mgetd 0 (raise_to k v m) k' = (if k' = k then max (mgetd 0 m k) v else mgetd 0 m k')"
  by (simp add: raise_to_def)

lemma mgetd_raise_all:
  "wf_map kvs \<Longrightarrow> mgetd 0 (foldl (\<lambda>m (k, v). raise_to k v m) m kvs) k = max (mgetd 0 m k) (mgetd 0 kvs k)"
proof (induction kvs arbitrary: m)
  case Nil
  then show ?case by (simp add: mgetd_def)
next
  case (Cons p kvs)
  obtain j v where p: "p = (j, v)" by fastforce
  with Cons.prems have "j \<notin> fst ` set kvs" by simp
  then have "map_of kvs j = None" by (simp add: map_of_eq_None_iff)
  with Cons p show ?case by (simp add: mgetd_raise_to) (simp add: mgetd_def)
qed

lemma report_metrics_get:
  assumes "wf_map (rp_losses r)"
  shows "mgetd 0 (report_metrics metrics r) k = max (max (mgetd 0 metrics k) (mgetd 0 (rp_losses r) k))
     (if k = ''evicted_events'' then rp_evicted r else if k = ''coverage_gaps'' then rp_gaps r
      else if k = ''coverage_records_omitted'' then rp_omitted r else 0)"
  using assms by (simp add: report_metrics_def mgetd_raise_to mgetd_raise_all)

lemma Complete_iff: "wf_map m \<Longrightarrow> Complete live m \<longleftrightarrow> \<not> live \<and> (\<forall>k. loss_key k \<longrightarrow> mgetd 0 m k = 0)"
proof -
  assume wf: "wf_map m"
  have "list_all (\<lambda>(k, v). v = 0 \<or> \<not> loss_key k) m \<longleftrightarrow> (\<forall>k. loss_key k \<longrightarrow> mgetd 0 m k = 0)"
    using mget_in_set [OF wf] by (fastforce simp: list_all_iff mgetd_def split: option.splits)
  then show ?thesis by (simp add: Complete_def)
qed

section \<open>A run of a report\<close>

datatype report_call = Added event | Gapped source string

fun report_step :: "std \<Rightarrow> report_call \<Rightarrow> report \<Rightarrow> report" where
  "report_step S (Added e) r = report_Add e r"
| "report_step S (Gapped src st) r = report_Gap S src st r"

definition report_calls :: "std \<Rightarrow> report_call list \<Rightarrow> report \<Rightarrow> report" where
  "report_calls S cs r = foldl (\<lambda>r c. report_step S c r) r cs"

fun added :: "report_call list \<Rightarrow> event list" where
  "added [] = []"
| "added (Added e # cs) = e # added cs"
| "added (Gapped src st # cs) = added cs"

fun gapped :: "std \<Rightarrow> report_call list \<Rightarrow> coverage list" where
  "gapped S [] = []"
| "gapped S (Added e # cs) = gapped S cs"
| "gapped S (Gapped src st # cs) =
     \<lparr>cv_Source = SafeSource S src, cv_Status = st, cv_Warnings = [''collection incomplete'']\<rparr> # gapped S cs"

definition tally :: "('a \<Rightarrow> bool) \<Rightarrow> 'a list \<Rightarrow> nat" where
  "tally P xs = length (filter P xs)"

lemma tally_simps [simp]: "tally P [] = 0" "tally P (xs @ ys) = tally P xs + tally P ys" "tally P (x # xs) = (if P x then 1 else 0) + tally P xs"
  by (simp_all add: tally_def)

lemma tally_0: "tally P xs = 0 \<longleftrightarrow> (\<forall>x \<in> set xs. \<not> P x)"
  by (auto simp: tally_def filter_empty_conv)

text \<open>The newest \<open>n\<close> elements of a list.\<close>

definition newest :: "nat \<Rightarrow> 'a list \<Rightarrow> 'a list" where
  "newest n xs = drop (length xs - n) xs"

lemma length_newest: "length (newest n xs) = min n (length xs)"
  by (simp add: newest_def min_def)

lemma newest_snoc: "0 < n \<Longrightarrow> newest n (xs @ [x]) = (if length (newest n xs) = n then drop 1 (newest n xs) @ [x] else newest n xs @ [x])"
  by (auto simp: newest_def Suc_diff_le not_le)

definition report_holds :: "std \<Rightarrow> nat \<Rightarrow> event list \<Rightarrow> coverage list \<Rightarrow> report \<Rightarrow> bool" where
  "report_holds S limit es gs r =
     (rp_limit r = limit \<and> rp_events r = newest limit es \<and> rp_total r = length es \<and> rp_evicted r = length es - limit
      \<and> rp_lines r = sum_list (map ev_LineCount es) \<and> rp_reused r = tally ev_AnalysisReused es
      \<and> (\<forall>k. mgetd 0 (rp_counts r) k = tally (\<lambda>e. Importance (ev_Judgment e) = k) es)
      \<and> rp_gaps r = length gs \<and> rp_coverage r = newest 500 gs \<and> rp_omitted r = length gs - 500 \<and> wf_map (rp_losses r)
      \<and> (\<forall>k. mgetd 0 (rp_losses r) k = (if k = ''truncated_events'' then tally ev_Truncated es
           else if k = ''parse_uncertain'' then tally ev_ParseUncertain es else tally (\<lambda>g. ''coverage_'' @ cv_Status g = k) gs)))"

lemma report_New_holds: "report_holds S (nat (max 1 limit)) [] [] (report_New now limit)"
  by (simp add: report_holds_def report_New_def newest_def mgetd_def)

lemma report_Add_holds:
  assumes "report_holds S limit es gs r" and "0 < limit"
  shows "report_holds S limit (es @ [e]) gs (report_Add e r)"
proof -
  have full: "length (rp_events r) = limit \<longleftrightarrow> limit \<le> length es"
    using assms by (auto simp: report_holds_def length_newest min_def)
  have ev: "length (es @ [e]) - limit = (if limit \<le> length es then length es - limit + 1 else length es - limit)" by auto
  show ?thesis
    using assms newest_snoc [OF assms(2), of es e] full ev
    by (cases "limit \<le> length es") (auto simp: report_holds_def report_Add_def Let_def mgetd_incr mgetd_incr_if length_newest min_def)
qed

lemma report_Gap_holds:
  assumes "report_holds S limit es gs r"
  shows "report_holds S limit es (gs @ [\<lparr>cv_Source = SafeSource S src, cv_Status = st, cv_Warnings = [''collection incomplete'']\<rparr>]) (report_Gap S src st r)"
proof -
  have full: "length (rp_coverage r) = 500 \<longleftrightarrow> 500 \<le> length gs"
    using assms by (auto simp: report_holds_def length_newest min_def)
  show ?thesis
    using assms newest_snoc [of 500 gs "\<lparr>cv_Source = SafeSource S src, cv_Status = st, cv_Warnings = [''collection incomplete'']\<rparr>"] full
    by (cases "500 \<le> length gs") (auto simp: report_holds_def report_Gap_def Let_def mgetd_incr length_newest min_def)
qed

lemma report_calls_holds:
  assumes "report_holds S limit es gs r" and "0 < limit"
  shows "report_holds S limit (es @ added cs) (gs @ gapped S cs) (report_calls S cs r)"
  using assms
proof (induction cs arbitrary: es gs r)
  case Nil
  then show ?case by (simp add: report_calls_def)
next
  case (Cons c cs)
  show ?case
  proof (cases c)
    case (Added e)
    from Cons.IH [OF report_Add_holds [OF Cons.prems] Cons.prems(2), of e] Added show ?thesis by (simp add: report_calls_def)
  next
    case (Gapped src st)
    from Cons.IH [OF report_Gap_holds [OF Cons.prems(1)] Cons.prems(2), of src st] Gapped show ?thesis by (simp add: report_calls_def)
  qed
qed

text \<open>
  The report's numbers are those of the whole run, whatever was dropped from memory: it retains exactly the
  newest events up to its limit and the newest 500 coverage records, its totals count every event, line and
  gap ever added, and retained and evicted events add up to the total.
\<close>

theorem report_window:
  "let n = nat (max 1 limit); es = added cs; gs = gapped S cs;
       d = report_Snapshot S shuffle now mode scope live usage metrics checkpoint (report_calls S cs (report_New start limit))
   in dc_list d = newest n es \<and> dc_retained d = min n (length es) \<and> dc_events d = length es
    \<and> dc_retained d + dc_evicted d = dc_events d \<and> dc_lines d = sum_list (map ev_LineCount es)
    \<and> dc_important d = tally (\<lambda>e. Importance (ev_Judgment e) = ''important'') es
    \<and> dc_unknown d = tally (\<lambda>e. Importance (ev_Judgment e) = ''unknown'') es \<and> dc_reused d = tally ev_AnalysisReused es
    \<and> dc_gaps d = length gs \<and> dc_coverage d = newest 500 gs"
proof -
  have "report_holds S (nat (max 1 limit)) (added cs) (gapped S cs) (report_calls S cs (report_New start limit))"
    using report_calls_holds [OF report_New_holds [where S = S and limit = limit and now = start], of cs] by simp
  then show ?thesis
    by (auto simp: report_Snapshot_def Let_def report_holds_def length_newest min_def)
qed

lemma loss_key_coverage: "loss_key (''coverage_'' @ st)"
  by (simp add: loss_key_def HasPrefix_def)

lemma report_complete_iff:
  assumes "wf_map metrics"
  shows "dc_complete (report_Snapshot S shuffle now mode scope live usage metrics checkpoint (report_calls S cs (report_New start limit)))
    \<longleftrightarrow> \<not> live \<and> (\<forall>k. loss_key k \<longrightarrow> mgetd 0 metrics k = 0) \<and> gapped S cs = [] \<and> int (length (added cs)) \<le> max 1 limit
      \<and> (\<forall>e \<in> set (added cs). \<not> ev_Truncated e \<and> \<not> ev_ParseUncertain e \<and> Importance (ev_Judgment e) \<noteq> ''unknown'')"
proof -
  let ?r = "report_calls S cs (report_New start limit)" and ?n = "nat (max 1 limit)" and ?es = "added cs" and ?gs = "gapped S cs"
  have h: "report_holds S ?n ?es ?gs ?r"
    using report_calls_holds [OF report_New_holds [where S = S and limit = limit and now = start], of cs] by simp
  then have wf: "wf_map (rp_losses ?r)" by (simp add: report_holds_def)
  have wfm: "wf_map (report_metrics metrics ?r)"
    unfolding report_metrics_def raise_to_def [of "''coverage_records_omitted''"] raise_to_def [of "''coverage_gaps''"] raise_to_def [of "''evicted_events''"]
    by (intro wf_mput wf_raise_all assms)
  have keys: "loss_key ''truncated_events''" "loss_key ''parse_uncertain''" "loss_key ''evicted_events''"
    by (simp_all add: loss_key_def)
  have none: "(\<forall>k. loss_key k \<longrightarrow> mgetd 0 (report_metrics metrics ?r) k = 0) \<longleftrightarrow>
      (\<forall>k. loss_key k \<longrightarrow> mgetd 0 metrics k = 0) \<and> ?gs = [] \<and> length ?es \<le> ?n \<and> (\<forall>e \<in> set ?es. \<not> ev_Truncated e \<and> \<not> ev_ParseUncertain e)"
    (is "?L \<longleftrightarrow> ?R")
  proof
    assume ?L
    then have m: "\<And>k. loss_key k \<Longrightarrow> mgetd 0 metrics k = 0 \<and> mgetd 0 (rp_losses ?r) k = 0" "rp_evicted ?r = 0"
      using keys(3) by (auto simp: report_metrics_get [OF wf])
    have "?gs = []"
    proof (rule ccontr)
      assume "?gs \<noteq> []"
      then obtain g gs where g: "?gs = g # gs" by (cases ?gs) auto
      have "mgetd 0 (rp_losses ?r) (''coverage_'' @ cv_Status g) = 0" by (rule conjunct2 [OF m(1)]) (rule loss_key_coverage)
      with h g show False by (simp add: report_holds_def)
    qed
    moreover have "tally ev_Truncated ?es = 0" "tally ev_ParseUncertain ?es = 0" "length ?es \<le> ?n"
      using m(1) [OF keys(1)] m(1) [OF keys(2)] m(2) h by (simp_all add: report_holds_def)
    ultimately show ?R using m(1) by (auto simp: tally_0)
  next
    assume ?R
    then have "tally ev_Truncated ?es = 0" "tally ev_ParseUncertain ?es = 0" by (simp_all add: tally_0)
    with \<open>?R\<close> h show ?L by (auto simp: report_metrics_get [OF wf] report_holds_def)
  qed
  have unknown: "mgetd 0 (rp_counts ?r) ''unknown'' = 0 \<longleftrightarrow> (\<forall>e \<in> set ?es. Importance (ev_Judgment e) \<noteq> ''unknown'')"
    using h by (simp add: report_holds_def tally_0)
  have "length ?es \<le> ?n \<longleftrightarrow> int (length ?es) \<le> max 1 limit" by linarith
  with none unknown show ?thesis by (auto simp: report_Snapshot_def Let_def Complete_iff [OF wfm])
qed

text \<open>
  C21: a report calls its window complete exactly when nothing was lost: it is not a live report, no coverage gap
  was recorded, no event was truncated, of uncertain parse, without a verdict or evicted, and none of the
  metrics handed to it signals a loss.
\<close>

theorem report_complete_exact:
  assumes "wf_map metrics"
  shows "dc_complete (report_Snapshot S shuffle now mode scope live usage metrics checkpoint (report_calls S cs (report_New start limit)))
    \<longleftrightarrow> \<not> live \<and> (\<forall>k. loss_key k \<longrightarrow> mgetd 0 metrics k = 0) \<and> gapped S cs = [] \<and> int (length (added cs)) \<le> max 1 limit
      \<and> (\<forall>e \<in> set (added cs). \<not> ev_Truncated e \<and> \<not> ev_ParseUncertain e \<and> Importance (ev_Judgment e) \<noteq> ''unknown'')"
  using assms by (rule report_complete_iff)

theorem report_complete_exact_witness:
  "dc_complete (report_Snapshot sample_std (\<lambda>x. x) zero_time ''files'' JNull False usage0 [(''dropped'', 0), (''provider_batches'', 3)] JNull
     (report_calls sample_std [Added (empty_event\<lparr>ev_LineCount := 2\<rparr>)] (report_New zero_time 5)))"
proof -
  have "wf_map [(''dropped'', 0::nat), (''provider_batches'', 3)]" by simp
  from report_complete_exact [OF this, of sample_std "\<lambda>x. x" zero_time "''files''" JNull False usage0 JNull
      "[Added (empty_event\<lparr>ev_LineCount := 2\<rparr>)]" zero_time 5]
  show ?thesis by (simp add: loss_key_def HasPrefix_def mgetd_def empty_event_def verdict_def)
qed

section \<open>The groups of important events\<close>

interpretation report_groups: key_order "\<lambda>_. True" group_before "\<lambda>g. (- int (gr_Count g), gr_ID g)"
  by unfold_locales (auto simp: group_before_def less_prod_def')

definition is_important :: "string \<Rightarrow> event \<Rightarrow> bool" where
  "is_important k e = (Importance (ev_Judgment e) = ''important'' \<and> ev_GroupID e = k)"

definition groups_of :: "event list \<Rightarrow> (string, group) gomap \<Rightarrow> bool" where
  "groups_of es by = (wf_map by \<and> (\<forall>k. mhas by k \<longleftrightarrow> (\<exists>e \<in> set es. is_important k e))
     \<and> (\<forall>k g. map_of by k = Some g \<longrightarrow> gr_ID g = k \<and> gr_IDs g = map ev_ID (filter (is_important k) es) \<and> gr_Count g = length (gr_IDs g)))"

lemma groups_ofD: "groups_of es by \<Longrightarrow> map_of by k = Some g \<Longrightarrow>
    gr_ID g = k \<and> gr_IDs g = map ev_ID (filter (is_important k) es) \<and> gr_Count g = length (gr_IDs g)"
  unfolding groups_of_def by blast

lemma add_important_groups:
  assumes "groups_of es by"
  shows "groups_of (es @ [e]) (add_important by e)"
proof (cases "Importance (ev_Judgment e) = ''important''")
  case False
  then have "add_important by e = by" "\<And>k. \<not> is_important k e" by (simp_all add: add_important_def is_important_def)
  with assms show ?thesis by (auto simp: groups_of_def)
next
  case True
  then have imp: "is_important k e \<longleftrightarrow> k = ev_GroupID e" for k by (auto simp: is_important_def)
  have none: "filter (is_important (ev_GroupID e)) es = []" if "map_of by (ev_GroupID e) = None"
  proof -
    have "\<not> mhas by (ev_GroupID e)" using that by (simp add: mhas_def)
    with assms show ?thesis unfolding groups_of_def filter_empty_conv by blast
  qed
  from True assms imp none show ?thesis
    by (cases "map_of by (ev_GroupID e)") (auto simp: groups_of_def add_important_def Let_def mhas_def mgetd_def)
qed

lemma all_groups: "groups_of es (foldl add_important [] es)"
proof (induction es rule: rev_induct)
  case Nil
  then show ?case by (simp add: groups_of_def mhas_def)
next
  case (snoc e es)
  then show ?case by (simp add: add_important_groups)
qed

text \<open>
  The important groups of a report are exact and deterministic: whatever order the Go map yields them in, they
  come out most frequent first and then by identity, one for each group identity of a retained important
  event, with the identities of exactly those events in order and their number as count.
\<close>

theorem report_groups_exact:
  assumes "\<And>xs. mset (shuffle xs) = mset xs"
  shows "important_groups shuffle es = important_groups (\<lambda>xs. xs) es
    \<and> ordered_by group_before (important_groups shuffle es)
    \<and> distinct (map gr_ID (important_groups shuffle es))
    \<and> gr_ID ` set (important_groups shuffle es) = {ev_GroupID e | e. e \<in> set es \<and> Importance (ev_Judgment e) = ''important''}
    \<and> (\<forall>g \<in> set (important_groups shuffle es). gr_IDs g = map ev_ID (filter (is_important (gr_ID g)) es) \<and> gr_Count g = length (gr_IDs g))"
proof -
  let ?by = "foldl add_important [] es"
  have g: "groups_of es ?by" by (rule all_groups)
  then have wf: "wf_map ?by" by (simp add: groups_of_def)
  have each: "fst p = gr_ID (snd p) \<and> gr_IDs (snd p) = map ev_ID (filter (is_important (gr_ID (snd p))) es) \<and> gr_Count (snd p) = length (gr_IDs (snd p))"
    if "p \<in> set ?by" for p
  proof -
    have "map_of ?by (fst p) = Some (snd p)" using that mget_in_set [OF wf, of "fst p" "snd p"] by simp
    from groups_ofD [OF g this] show ?thesis by simp
  qed
  have ids: "map gr_ID (map snd ?by) = map fst ?by" using each by simp
  have dist: "distinct (map gr_ID (map snd ?by))" using wf unfolding ids .
  have inj: "inj_on (\<lambda>g. (- int (gr_Count g), gr_ID g)) (set (map snd ?by))"
    using dist unfolding distinct_map by (auto simp: inj_on_def)
  have m: "mset (important_groups shuffle es) = mset (map snd ?by)" using assms [of "map snd ?by"] by (simp add: important_groups_def)
  from arg_cong [OF this, of set_mset] have set: "set (important_groups shuffle es) = set (map snd ?by)" unfolding set_mset_mset .
  from m have "mset (map gr_ID (important_groups shuffle es)) = mset (map gr_ID (map snd ?by))" by (simp only: mset_map)
  then have "distinct (map gr_ID (important_groups shuffle es))" using dist by (metis mset_eq_imp_distinct_iff)
  moreover have "important_groups shuffle es = important_groups (\<lambda>xs. xs) es"
    unfolding important_groups_def
  proof (rule report_groups.sort_order_free)
    show "mset (shuffle (map snd ?by)) = mset (map snd ?by)" by (rule assms)
    from mset_eq_setD [OF this] inj show "inj_on (\<lambda>g. (- int (gr_Count g), gr_ID g)) (set (shuffle (map snd ?by)))" by simp
  qed simp
  moreover have "ordered_by group_before (important_groups shuffle es)"
    unfolding important_groups_def by (rule report_groups.sort_ordered) simp
  moreover have "gr_ID ` set (map snd ?by) = {ev_GroupID e | e. e \<in> set es \<and> Importance (ev_Judgment e) = ''important''}"
  proof -
    have "gr_ID ` set (map snd ?by) = fst ` set ?by" using ids by (metis set_map)
    also have "\<dots> = {k. mhas ?by k}" by (auto simp: mhas_iff)
    finally show ?thesis using g by (auto simp: groups_of_def is_important_def)
  qed
  moreover have "\<forall>g \<in> set (map snd ?by). gr_IDs g = map ev_ID (filter (is_important (gr_ID g)) es) \<and> gr_Count g = length (gr_IDs g)"
    using each by auto
  ultimately show ?thesis unfolding set by blast
qed

theorem report_groups_exact_witness:
  "map gr_Count (important_groups rev
     [sample_event\<lparr>ev_GroupID := ''a''\<rparr>, sample_event\<lparr>ev_GroupID := ''b''\<rparr>, sample_event\<lparr>ev_GroupID := ''b''\<rparr>]) = [2, 1]"
proof -
  let ?es = "[sample_event\<lparr>ev_GroupID := ''a''\<rparr>, sample_event\<lparr>ev_GroupID := ''b''\<rparr>, sample_event\<lparr>ev_GroupID := ''b''\<rparr>]"
  have "important_groups rev ?es = important_groups (\<lambda>xs. xs) ?es" using report_groups_exact [of rev ?es] by simp
  also have "map gr_Count \<dots> = [2, 1]"
    by (simp add: important_groups_def add_important_def sample_event_def sample_judgment_def verdict_def group_before_def mgetd_def Let_def)
  finally show ?thesis .
qed

section \<open>Publication\<close>

text \<open>
  A file system maps paths to contents.  Every call of \<open>write\<close> may fail: \<open>wf_short\<close> is the number of bytes
  after which the file write fails, the other fields are the failures of the calls they name.  \<open>name\<close> is the
  temporary name \<open>os.CreateTemp\<close> chose and \<open>encoded\<close> the indented JSON with its newline, when there is one.
\<close>

type_synonym files = "(string, string) gomap"

record write_faults =
  wf_mkdir :: bool
  wf_create :: bool
  wf_chmod :: bool
  wf_short :: "nat option"
  wf_sync :: bool
  wf_close :: bool
  wf_rename :: bool
  wf_opendir :: bool
  wf_dirsync :: bool

record boundedWriter =
  bw_w :: string
  bw_remaining :: int

definition file_write :: "nat option \<Rightarrow> string \<Rightarrow> string \<Rightarrow> string \<times> nat \<times> status" where
  "file_write short p f = (case short of
     None \<Rightarrow> (f @ p, length p, None)
   | Some k \<Rightarrow> (f @ take k p, min k (length p), Some (Err ''write'')))"

definition bounded_Write :: "nat option \<Rightarrow> string \<Rightarrow> boundedWriter \<Rightarrow> boundedWriter \<times> nat \<times> status" where
  "bounded_Write short p w =
     (if bw_remaining w < int (length p) then (w, 0, Some ErrSizeLimit)
      else case file_write short p (bw_w w) of (f, n, err) \<Rightarrow>
        (w\<lparr>bw_w := f, bw_remaining := bw_remaining w - int n\<rparr>, n, err))"

text \<open>\<open>Encode\<close> hands the whole document to its writer in one call.\<close>

definition encode_report :: "int \<Rightarrow> nat option \<Rightarrow> string option \<Rightarrow> string \<times> status" where
  "encode_report maxBytes short encoded = (case encoded of
     None \<Rightarrow> ([], Some (Err ''json''))
   | Some b \<Rightarrow>
      (if 0 < maxBytes then (case bounded_Write short b \<lparr>bw_w = [], bw_remaining = maxBytes\<rparr> of (w, _, err) \<Rightarrow> (bw_w w, err))
       else (case file_write short b [] of (f, _, err) \<Rightarrow> (f, err))))"

text \<open>The states the file system goes through, the last one with \<open>defer os.Remove(name)\<close> done.\<close>

definition report_write :: "write_faults \<Rightarrow> string \<Rightarrow> string \<Rightarrow> string option \<Rightarrow> int \<Rightarrow> files \<Rightarrow> files list \<times> status" where
  "report_write F name path encoded maxBytes fs =
     (if wf_mkdir F then ([fs], Some (Err ''cannot create report directory''))
      else if wf_create F then ([fs], Some (Err ''cannot create private report''))
      else let fs1 = mput name [] fs in
        if wf_chmod F then ([fs, fs1, mdel name fs1], Some (Err ''cannot secure report''))
        else case encode_report maxBytes (wf_short F) encoded of (content, err) \<Rightarrow>
          let fs2 = mput name content fs1 in
          if err \<noteq> None then
            ([fs, fs1, fs2, mdel name fs2], Some (if err = Some ErrSizeLimit then ErrSizeLimit else Err ''cannot write report''))
          else if wf_sync F \<or> wf_close F then ([fs, fs1, fs2, mdel name fs2], Some (Err ''cannot write report''))
          else if wf_rename F then ([fs, fs1, fs2, mdel name fs2], Some (Err ''cannot replace report''))
          else let fs3 = mput path content (mdel name fs2) in
            ([fs, fs1, fs2, fs3, mdel name fs3],
             if wf_opendir F \<or> wf_dirsync F then Some (Err ''cannot sync report directory'') else None))"

definition Write :: "write_faults \<Rightarrow> string \<Rightarrow> string \<Rightarrow> string option \<Rightarrow> files \<Rightarrow> files list \<times> status" where
  "Write F name path encoded fs = report_write F name path encoded 0 fs"

definition WriteBounded :: "write_faults \<Rightarrow> string \<Rightarrow> string \<Rightarrow> string option \<Rightarrow> int \<Rightarrow> files \<Rightarrow> files list \<times> status" where
  "WriteBounded F name path encoded maxBytes fs =
     (if maxBytes \<le> 0 then ([fs], Some ErrSizeLimit) else report_write F name path encoded maxBytes fs)"

lemma encode_report_ok:
  "encode_report maxBytes short encoded = (content, None) \<Longrightarrow> encoded = Some content \<and> (0 < maxBytes \<longrightarrow> int (length content) \<le> maxBytes)"
  by (auto simp: encode_report_def bounded_Write_def file_write_def split: option.splits if_splits)

lemma encode_report_limit:
  "encode_report maxBytes short encoded = (content, err) \<Longrightarrow>
    err = Some ErrSizeLimit \<longleftrightarrow> 0 < maxBytes \<and> (\<exists>b. encoded = Some b \<and> maxBytes < int (length b))"
  by (auto simp: encode_report_def bounded_Write_def file_write_def split: option.splits if_splits)

text \<open>What a state of the publication may look like, seen from the paths other than the temporary one.\<close>

definition old_or_new :: "string \<Rightarrow> string \<Rightarrow> string option \<Rightarrow> int \<Rightarrow> files \<Rightarrow> files \<Rightarrow> bool" where
  "old_or_new name path encoded maxBytes fs s =
     ((\<forall>p. p \<noteq> name \<longrightarrow> map_of s p = map_of fs p) \<or>
      (\<exists>b. encoded = Some b \<and> (0 < maxBytes \<longrightarrow> int (length b) \<le> maxBytes) \<and> (\<forall>p. p \<noteq> name \<longrightarrow> map_of s p = (if p = path then Some b else map_of fs p))))"

lemma report_write_cases:
  assumes "report_write F name path encoded maxBytes fs = (tr, st)" and "encode_report maxBytes (wf_short F) encoded = (content, err)"
  obtains (start) "tr = [fs]" "st \<noteq> None" "st \<noteq> Some ErrSizeLimit"
  | (chmod) "tr = [fs, mput name [] fs, mdel name (mput name [] fs)]" "st \<noteq> None" "st \<noteq> Some ErrSizeLimit"
  | (failed) "tr = [fs, mput name [] fs, mput name content (mput name [] fs), mdel name (mput name content (mput name [] fs))]"
      "st \<noteq> None" "st = Some ErrSizeLimit \<longrightarrow> err = Some ErrSizeLimit"
  | (published) fs3 where "err = None" "fs3 = mput path content (mdel name (mput name content (mput name [] fs)))"
      "tr = [fs, mput name [] fs, mput name content (mput name [] fs), fs3, mdel name fs3]" "st \<noteq> Some ErrSizeLimit"
proof (cases "wf_mkdir F \<or> wf_create F")
  case True
  with assms(1) show ?thesis by (cases "wf_mkdir F") (auto simp: report_write_def intro: start)
next
  case go: False
  show ?thesis
  proof (cases "wf_chmod F")
    case True
    with assms(1) go show ?thesis by (auto simp: report_write_def Let_def intro: chmod)
  next
    case False
    note eq = assms(1) [unfolded report_write_def Let_def assms(2) prod.case]
    show ?thesis
    proof (cases "err \<noteq> None \<or> wf_sync F \<or> wf_close F \<or> wf_rename F")
      case True
      then have "tr = [fs, mput name [] fs, mput name content (mput name [] fs), mdel name (mput name content (mput name [] fs))] \<and> st \<noteq> None
          \<and> (st = Some ErrSizeLimit \<longrightarrow> err = Some ErrSizeLimit)"
        using eq go False by (cases "err = None"; cases "wf_sync F \<or> wf_close F") (auto split: if_splits)
      then show ?thesis by (intro failed) simp_all
    next
      case ok: False
      then have "err = None \<and> tr = [fs, mput name [] fs, mput name content (mput name [] fs), mput path content (mdel name (mput name content (mput name [] fs))),
          mdel name (mput path content (mdel name (mput name content (mput name [] fs))))] \<and> st \<noteq> Some ErrSizeLimit"
        using eq go False by (auto split: if_splits)
      then show ?thesis by (intro published) simp_all
    qed
  qed
qed

lemma report_write_states:
  assumes "report_write F name path encoded maxBytes fs = (tr, st)"
  shows "\<forall>s \<in> set tr. old_or_new name path encoded maxBytes fs s"
proof -
  obtain content err where e: "encode_report maxBytes (wf_short F) encoded = (content, err)" by fastforce
  have old: "old_or_new name path encoded maxBytes fs s" if "\<forall>p. p \<noteq> name \<longrightarrow> map_of s p = map_of fs p" for s
    unfolding old_or_new_def by (rule disjI1) (rule that)
  from assms e show ?thesis
  proof (cases rule: report_write_cases)
    case (published fs3)
    then have c: "encoded = Some content \<and> (0 < maxBytes \<longrightarrow> int (length content) \<le> maxBytes)" using e encode_report_ok by blast
    have "old_or_new name path encoded maxBytes fs s"
      if "\<forall>p. p \<noteq> name \<longrightarrow> map_of s p = (if p = path then Some content else map_of fs p)" for s
      unfolding old_or_new_def by (intro disjI2 exI [of _ content]) (use c that in simp)
    with published(2) old show ?thesis unfolding published(3) by simp
  qed (use old in simp_all)
qed

text \<open>
  C29: publishing a report is atomic and bounded: at every moment, whatever call fails and wherever a crash cuts
  the run, the report path holds its old content or the complete new document, within the size limit, and no
  other file changes; the temporary file is gone at the end, success means the new document is there, and a
  document over the limit is refused with \<open>ErrSizeLimit\<close> and changes nothing.
\<close>

theorem report_write_atomic:
  assumes "WriteBounded F name path encoded maxBytes fs = (tr, st)"
    and "wf_map fs" and "\<not> mhas fs name" and "name \<noteq> path"
  shows "(\<forall>s \<in> set tr. old_or_new name path encoded maxBytes fs s) \<and> \<not> mhas (last tr) name
    \<and> (st = None \<longrightarrow> (\<exists>b. encoded = Some b \<and> int (length b) \<le> maxBytes \<and> map_of (last tr) path = Some b))
    \<and> (st = Some ErrSizeLimit \<longrightarrow> map_of (last tr) = map_of fs)
    \<and> (encoded = Some b \<and> maxBytes < int (length b) \<longrightarrow> st \<noteq> None \<and> map_of (last tr) = map_of fs)"
proof (cases "maxBytes \<le> 0")
  case True
  with assms show ?thesis by (auto simp: WriteBounded_def old_or_new_def)
next
  case False
  with assms(1) have w: "report_write F name path encoded maxBytes fs = (tr, st)" by (simp add: WriteBounded_def)
  obtain content err where e: "encode_report maxBytes (wf_short F) encoded = (content, err)" by fastforce
  have fresh: "map_of fs name = None" using assms(3) by (simp add: mhas_def)
  have rest: "\<not> mhas (last tr) name \<and> (st = None \<longrightarrow> err = None \<and> map_of (last tr) path = Some content)
      \<and> (st = Some ErrSizeLimit \<longrightarrow> err = Some ErrSizeLimit) \<and> (err \<noteq> None \<longrightarrow> st \<noteq> None \<and> map_of (last tr) = map_of fs)"
    using w e by (cases rule: report_write_cases) (use fresh assms(4) in \<open>auto simp: mhas_def fun_eq_iff\<close>)
  have ok: "st = None \<longrightarrow> (\<exists>b. encoded = Some b \<and> int (length b) \<le> maxBytes \<and> map_of (last tr) path = Some b)"
    using rest e encode_report_ok [of maxBytes "wf_short F" encoded content] False by auto
  have same: "st = Some ErrSizeLimit \<longrightarrow> map_of (last tr) = map_of fs" using rest by simp
  have over: "encoded = Some b \<and> maxBytes < int (length b) \<longrightarrow> st \<noteq> None \<and> map_of (last tr) = map_of fs"
    using rest encode_report_limit [OF e] False by auto
  from report_write_states [OF w] rest ok same over show ?thesis by blast
qed

theorem report_write_atomic_witness:
  "map_of (last (fst (WriteBounded \<lparr>wf_mkdir = False, wf_create = False, wf_chmod = False, wf_short = None, wf_sync = False,
      wf_close = False, wf_rename = False, wf_opendir = False, wf_dirsync = False\<rparr> ''.tmp'' ''out'' (Some ''{}'') 2 [(''out'', ''old'')]))) ''out'' = Some ''{}''"
    (is "map_of (last (fst ?w)) _ = _")
proof -
  have ok: "snd ?w = None"
    by (simp add: WriteBounded_def report_write_def encode_report_def bounded_Write_def file_write_def Let_def)
  have "?w = (fst ?w, snd ?w)" by simp
  from report_write_atomic [OF this] ok show ?thesis by (simp add: mhas_def)
qed

end
