(* ===== verification/Intake.thy ===== *)
theory Intake
  imports EngineSafety Report Parser Outbox
begin

text \<open>
  \<open>internal/cli/run.go\<close> with \<open>Engine.Run\<close> of \<open>internal/analysis/engine.go\<close>: the pipeline of one run.  Collectors
  admit events to a bounded queue, the engine takes them in batches, and every judged event goes through the
  callback that stores, reports and prints it.  Producers, engine and the two contexts run concurrently, so the
  pipeline is a sequence of steps.  The report is kept as the calls made to it, so its state is
  \<open>report_calls S (pl_calls s) (report_New start retain)\<close>.
\<close>

section \<open>Options and state\<close>

record run_options =
  ro_Follow :: bool
  ro_files :: bool
  ro_json :: bool
  ro_quiet :: bool
  ro_update :: bool
  ro_store :: bool
  ro_client :: bool
  ro_maxEvents :: nat
  ro_queue :: nat
  ro_retain :: nat
  ro_maxBatches :: nat
  ro_MaxAttempts :: nat
  ro_names :: "(string, string) gomap"
  ro_sprint :: "json \<Rightarrow> string"

text \<open>Where \<open>Engine.Run\<close> is: at its first \<open>select\<close>, filling a batch, emitting what \<open>Batch\<close> returned (and whether
  the channel was found closed), draining after a cancellation, or returned.\<close>

datatype engine_phase =
    Idle
  | Filling "event list"
  | Emitting "event list" bool
  | Draining
  | Ended status

text \<open>The last three fields are history: the events admitted, dropped and handed on by the callback, in order.\<close>

record pipeline =
  pl_queue :: "event list"
  pl_closed :: bool
  pl_ctx :: status
  pl_process :: status
  pl_total :: nat
  pl_metrics :: "(string, nat) gomap"
  pl_calls :: "report_call list"
  pl_pending :: "(string, event) gomap"
  pl_engine :: engine_phase
  pl_learned :: "grouper \<times> learning option"
  pl_evidence :: status
  pl_budget :: bool
  pl_admitted :: "event list"
  pl_dropped :: "event list"
  pl_emitted :: "event list"

section \<open>Shared operations\<close>

definition metric_add :: "string \<Rightarrow> nat \<Rightarrow> pipeline \<Rightarrow> pipeline" where
  "metric_add k n s = s\<lparr>pl_metrics := mput k (mgetd 0 (pl_metrics s) k + n) (pl_metrics s)\<rparr>"

definition metric_merge :: "(string, nat) gomap \<Rightarrow> pipeline \<Rightarrow> pipeline" where
  "metric_merge m s = s\<lparr>pl_metrics := foldl (\<lambda>acc (k, v). mput k v acc) (pl_metrics s) m\<rparr>"

definition run_gap :: "source \<Rightarrow> string \<Rightarrow> pipeline \<Rightarrow> pipeline" where
  "run_gap src reason s =
     metric_add (''coverage_'' @ reason) 1 (metric_add ''coverage_gaps'' 1 (s\<lparr>pl_calls := pl_calls s @ [Gapped src reason]\<rparr>))"

text \<open>\<open>cancel()\<close> ends the intake context, \<open>cancelProcess()\<close> both: the intake context is a child.\<close>

definition stop_intake :: "goerror \<Rightarrow> pipeline \<Rightarrow> pipeline" where
  "stop_intake e s = s\<lparr>pl_ctx := (case pl_ctx s of None \<Rightarrow> Some e | Some x \<Rightarrow> Some x)\<rparr>"

definition stop_process :: "goerror \<Rightarrow> pipeline \<Rightarrow> pipeline" where
  "stop_process e s = stop_intake e (s\<lparr>pl_process := (case pl_process s of None \<Rightarrow> Some e | Some x \<Rightarrow> Some x)\<rparr>)"

definition pendingView :: "run_options \<Rightarrow> string \<Rightarrow> event option \<Rightarrow> pipeline \<Rightarrow> pipeline" where
  "pendingView O' key e s =
     (if \<not> ro_update O' then s
      else case e of
        None \<Rightarrow> s\<lparr>pl_pending := mdel key (pl_pending s)\<rparr>
      | Some e \<Rightarrow>
          (if mhas (pl_pending s) key \<or> length (pl_pending s) < ro_retain O' then s\<lparr>pl_pending := mput key e (pl_pending s)\<rparr>
           else s))"

section \<open>Admission\<close>

definition source_path :: "run_options \<Rightarrow> event \<Rightarrow> string" where
  "source_path O' e = (case mget (ev_Source e) ''path'' of
     None \<Rightarrow> ''<nil>'' | Some (JStr p) \<Rightarrow> p | Some v \<Rightarrow> ro_sprint O' v)"

definition named_source :: "std \<Rightarrow> run_options \<Rightarrow> event \<Rightarrow> event" where
  "named_source S O' e = (case mget (ro_names O') (source_path O' e) of
     None \<Rightarrow> e | Some name \<Rightarrow> e\<lparr>ev_Source := mput ''path'' (JStr name) (SafeSource S (ev_Source e))\<rparr>)"

definition pending_event :: "event \<Rightarrow> event" where
  "pending_event e = e\<lparr>ev_Judgment := (ev_Judgment e)\<lparr>Importance := ''pending''\<rparr>\<rparr>"

definition enqueue_event :: "run_options \<Rightarrow> event \<Rightarrow> pipeline \<Rightarrow> pipeline \<times> status" where
  "enqueue_event O' e s0 =
     (let s = s0\<lparr>pl_queue := pl_queue s0 @ [e], pl_total := pl_total s0 + 1, pl_admitted := pl_admitted s0 @ [e]\<rparr> in
      if 0 < ro_maxEvents O' \<and> pl_total s = ro_maxEvents O'
      then (stop_intake Canceled (run_gap (ev_Source e) ''event_limit'' s), Some ErrCap)
      else (s, None))"

text \<open>
  \<open>admit\<close>, with the admission lock held.  A snapshot waits for room in the queue: \<open>None\<close> means it still waits;
  when there is room and the context has ended, \<open>pick\<close> says which case the \<open>select\<close> takes.
\<close>

definition run_admit :: "std \<Rightarrow> run_options \<Rightarrow> event \<Rightarrow> bool \<Rightarrow> bool \<Rightarrow> pipeline \<Rightarrow> (pipeline \<times> status) option" where
  "run_admit S O' e0 final pick s =
     (let e = named_source S O' e0 in
      if 0 < ro_maxEvents O' \<and> ro_maxEvents O' \<le> pl_total s then Some (s, Some ErrCap)
      else if \<not> final \<and> pl_ctx s \<noteq> None then Some (s, pl_ctx s)
      else let s1 = metric_add ''received'' 1 (pendingView O' (ev_ID e) (Some (pending_event e)) s) in
        if ro_Follow O' then
          (if length (pl_queue s1) < ro_queue O' then Some (enqueue_event O' e s1)
           else Some (pendingView O' (ev_ID e) None
             (run_gap (ev_Source e) ''queue_drop'' (metric_add ''dropped'' 1 (s1\<lparr>pl_dropped := pl_dropped s1 @ [e]\<rparr>))), None))
        else if length (pl_queue s1) < ro_queue O' \<and> (pick \<or> pl_ctx s1 = None) then Some (enqueue_event O' e s1)
        else if pl_ctx s1 \<noteq> None then Some (pendingView O' (ev_ID e) None s1, pl_ctx s1)
        else None)"

section \<open>The callback\<close>

text \<open>
  What the surroundings answer while one event goes through the callback: the engine's and the store's metrics,
  whether \<open>waitForState\<close> had to wait and what it returned, the write of the evidence, and the provider's usage.
\<close>

record callback_answers =
  ca_metrics :: "(string, nat) gomap"
  ca_store_metrics :: "(string, nat) gomap"
  ca_blocked :: bool
  ca_applied :: "applied \<times> status"
  ca_write :: status
  ca_usage :: usage

definition store_event :: "run_options \<Rightarrow> callback_answers \<Rightarrow> event \<Rightarrow> pipeline \<Rightarrow> pipeline \<times> status" where
  "store_event O' a e s =
     (if \<not> ro_store O' then (s, None)
      else let s1 = (if ca_blocked a then run_gap (ev_Source e) ''outbox_backpressure'' (metric_add ''outbox_backpressure'' 1 s) else s);
               s2 = metric_merge (ca_store_metrics a) s1 in
        case ca_applied a of
          (ap, Some err) \<Rightarrow> (stop_intake Canceled s2, Some err)
        | (ap, None) \<Rightarrow> (if ap_Enqueued ap then metric_add ''notifications_enqueued'' 1 s2 else s2, None))"

definition print_event :: "run_options \<Rightarrow> callback_answers \<Rightarrow> pipeline \<Rightarrow> pipeline" where
  "print_event O' a s =
     (if ro_json O' \<or> ro_quiet O' \<or> pl_evidence s \<noteq> None \<or> pl_process s \<noteq> None then s
      else if ca_write a \<noteq> None then stop_intake Canceled (s\<lparr>pl_evidence := ca_write a\<rparr>) else s)"

definition budget_spent :: "run_options \<Rightarrow> usage \<Rightarrow> bool" where
  "budget_spent O' u = (u_Breaker u \<noteq> [] \<or> ro_maxBatches O' \<le> u_Batches u \<or> ro_MaxAttempts O' \<le> u_Attempts u)"

definition check_budget :: "run_options \<Rightarrow> callback_answers \<Rightarrow> pipeline \<Rightarrow> pipeline" where
  "check_budget O' a s =
     (if ro_client O' \<and> \<not> ro_files O' \<and> ro_Follow O' \<and> \<not> pl_budget s \<and> budget_spent O' (ca_usage a)
      then stop_intake Canceled (metric_add ''budget_stopped'' 1
        (run_gap [(''type'', JStr ''kubernetes'')] ''provider_budget_stopped'' (s\<lparr>pl_budget := True\<rparr>)))
      else s)"

definition run_callback :: "run_options \<Rightarrow> callback_answers \<Rightarrow> event \<Rightarrow> pipeline \<Rightarrow> pipeline \<times> status" where
  "run_callback O' a e s0 =
     (case store_event O' a e (metric_merge (ca_metrics a) s0) of
        (s, Some err) \<Rightarrow> (s, Some err)
      | (s, None) \<Rightarrow>
          (let s1 = pendingView O' (ev_ID e) None (s\<lparr>pl_calls := pl_calls s @ [Added e], pl_emitted := pl_emitted s @ [e]\<rparr>);
               s2 = print_event O' a s1;
               s3 = (if ev_Truncated e then metric_add ''truncated_events'' 1 s2 else s2);
               s4 = (if ev_ParseUncertain e then metric_add ''parse_uncertain'' 1 s3 else s3) in
           (check_budget O' a s4, None)))"

section \<open>The steps\<close>

text \<open>What one call of \<open>Batch\<close> depends on besides its events.\<close>

record batch_answers =
  ba_now :: gotime
  ba_later :: "nat \<Rightarrow> gotime"
  ba_last :: gotime
  ba_cancelled :: status
  ba_live :: bool
  ba_judge :: "dossier list \<Rightarrow> Judgment list result"
  ba_teacher :: teacher

definition run_batch :: "std \<Rightarrow> engine_config \<Rightarrow> batch_answers \<Rightarrow> event list \<Rightarrow> pipeline \<Rightarrow> event list \<times> pipeline" where
  "run_batch S c b es s =
     (case Batch S c (ba_now b) (ba_later b) (ba_last b) (ba_cancelled b) (ba_live b) (ba_judge b) (ba_teacher b) es (pl_learned s) of
        (st, out) \<Rightarrow> (out, s\<lparr>pl_learned := st\<rparr>))"

datatype pipe_step =
    Admit event bool bool
  | CloseInput
  | StopIntake goerror
  | StopProcess goerror
  | Receive
  | SeeDone
  | JudgeBatch batch_answers bool
  | Emit callback_answers
  | EndPhase

text \<open>
  \<open>None\<close>: the step cannot be taken now.  \<open>Receive\<close> takes the next event at either \<open>select\<close>; a full batch
  receives no more; \<open>JudgeBatch\<close> ends the filling of a batch because it is full, its timer fired, the context ended
  or the channel was seen closed; \<open>EndPhase\<close> is the end of a batch or of the whole loop.
\<close>

fun pipe_do :: "std \<Rightarrow> run_options \<Rightarrow> engine_config \<Rightarrow> pipe_step \<Rightarrow> pipeline \<Rightarrow> pipeline option" where
  "pipe_do S O' c (Admit e final pick) s = (if pl_closed s then None else map_option fst (run_admit S O' e final pick s))"
| "pipe_do S O' c CloseInput s = (if pl_closed s then None else Some (s\<lparr>pl_closed := True\<rparr>))"
| "pipe_do S O' c (StopIntake e) s = Some (stop_intake e s)"
| "pipe_do S O' c (StopProcess e) s = Some (stop_process e s)"
| "pipe_do S O' c Receive s =
     (case (pl_engine s, pl_queue s) of
        (Idle, e # q) \<Rightarrow> Some (s\<lparr>pl_engine := Filling [e], pl_queue := q\<rparr>)
      | (Filling b, e # q) \<Rightarrow> (if length b < ec_BatchSize c then Some (s\<lparr>pl_engine := Filling (b @ [e]), pl_queue := q\<rparr>) else None)
      | _ \<Rightarrow> None)"
| "pipe_do S O' c SeeDone s =
     (case pl_engine s of Idle \<Rightarrow> (if pl_process s \<noteq> None then Some (s\<lparr>pl_engine := Draining\<rparr>) else None) | _ \<Rightarrow> None)"
| "pipe_do S O' c (JudgeBatch b saw) s =
     (case pl_engine s of
        Filling es \<Rightarrow>
          (let fin = (saw \<and> length es < ec_BatchSize c \<and> pl_closed s \<and> pl_queue s = []) in
           case run_batch S c b es s of (out, s') \<Rightarrow> Some (s'\<lparr>pl_engine := Emitting out fin\<rparr>))
      | _ \<Rightarrow> None)"
| "pipe_do S O' c (Emit a) s =
     (case pl_engine s of
        Emitting (e # es) fin \<Rightarrow>
          (case run_callback O' a e (s\<lparr>pl_engine := Emitting es fin\<rparr>) of
             (s', Some err) \<Rightarrow> Some (s'\<lparr>pl_engine := Ended (Some err)\<rparr>)
           | (s', None) \<Rightarrow> Some s')
      | Draining \<Rightarrow>
          (case pl_queue s of
             [] \<Rightarrow> None
           | e # q \<Rightarrow>
               (case run_callback O' a (e\<lparr>ev_Judgment := Unknown ''analysis cancelled''\<rparr>) (s\<lparr>pl_queue := q\<rparr>) of
                  (s', Some err) \<Rightarrow> Some (s'\<lparr>pl_engine := Ended (Some err)\<rparr>)
                | (s', None) \<Rightarrow> Some s'))
      | _ \<Rightarrow> None)"
| "pipe_do S O' c EndPhase s =
     (case pl_engine s of
        Idle \<Rightarrow> (if pl_closed s \<and> pl_queue s = [] then Some (s\<lparr>pl_engine := Ended None\<rparr>) else None)
      | Emitting [] fin \<Rightarrow> Some (s\<lparr>pl_engine := (if fin then Ended None else Idle)\<rparr>)
      | Draining \<Rightarrow> (if pl_closed s \<and> pl_queue s = [] then Some (s\<lparr>pl_engine := Ended (pl_process s)\<rparr>) else None)
      | _ \<Rightarrow> None)"

fun pipe_run :: "std \<Rightarrow> run_options \<Rightarrow> engine_config \<Rightarrow> pipe_step list \<Rightarrow> pipeline \<Rightarrow> pipeline option" where
  "pipe_run S O' c [] s = Some s"
| "pipe_run S O' c (a # as) s = Option.bind (pipe_do S O' c a s) (pipe_run S O' c as)"

text \<open>A snapshot of the cluster starts with the gap that says its history is bounded.\<close>

definition pipe_start :: "run_options \<Rightarrow> grouper \<times> learning option \<Rightarrow> pipeline" where
  "pipe_start O' st =
     (let s = \<lparr>pl_queue = [], pl_closed = False, pl_ctx = None, pl_process = None, pl_total = 0, pl_metrics = [], pl_calls = [],
          pl_pending = [], pl_engine = Idle, pl_learned = st, pl_evidence = None, pl_budget = False,
          pl_admitted = [], pl_dropped = [], pl_emitted = []\<rparr> in
      if ro_files O' then s else run_gap [(''type'', JStr ''kubernetes'')] ''bounded_history'' s)"

end
