(* ===== verification/IntakeSafety.thy ===== *)
theory IntakeSafety
  imports Intake
begin

text \<open>
  The pipeline of a run loses nothing silently: every admitted event goes through the callback exactly once and in
  order, every dropped one leaves a gap, and the queue, the pending view and the number of events stay bounded.
\<close>

section \<open>What the callback's parts leave alone\<close>

definition core :: "pipeline \<Rightarrow> event list \<times> bool \<times> nat \<times> engine_phase \<times> (grouper \<times> learning option) \<times> event list \<times> event list \<times> event list" where
  "core s = (pl_queue s, pl_closed s, pl_total s, pl_engine s, pl_learned s, pl_admitted s, pl_dropped s, pl_emitted s)"

definition drop_gaps :: "report_call list \<Rightarrow> nat" where
  "drop_gaps cs = length (filter (\<lambda>c. case c of Gapped src r \<Rightarrow> r = ''queue_drop'' | Added e \<Rightarrow> False) cs)"

lemma drop_gaps_simps [simp]:
  "drop_gaps [] = 0" "drop_gaps (xs @ ys) = drop_gaps xs + drop_gaps ys" "drop_gaps [Added e] = 0"
  "drop_gaps [Gapped src r] = (if r = ''queue_drop'' then 1 else 0)"
  by (simp_all add: drop_gaps_def)

lemma added_append [simp]: "added (xs @ ys) = added xs @ added ys"
  by (induction xs rule: added.induct) simp_all

lemma gapped_append [simp]: "gapped S (xs @ ys) = gapped S xs @ gapped S ys"
  by (induction S xs rule: gapped.induct) simp_all

text \<open>\<open>quiet s s'\<close>: nothing of the flow of events, its drops and its contexts' liveness was undone.\<close>

definition quiet :: "pipeline \<Rightarrow> pipeline \<Rightarrow> bool" where
  "quiet s s' = (core s' = core s \<and> added (pl_calls s') = added (pl_calls s) \<and> drop_gaps (pl_calls s') = drop_gaps (pl_calls s) \<and>
     (pl_ctx s \<noteq> None \<longrightarrow> pl_ctx s' \<noteq> None) \<and> pl_process s' = pl_process s)"

lemma quiet_refl [simp, intro]: "quiet s s"
  by (simp add: quiet_def)

lemma quiet_trans: "quiet a b \<Longrightarrow> quiet b c \<Longrightarrow> quiet a c"
  by (simp add: quiet_def)

lemma quiet_ops [simp]:
  "quiet s t \<Longrightarrow> quiet s (metric_add k n t)" "quiet s t \<Longrightarrow> quiet s (metric_merge m t)"
  "quiet s t \<Longrightarrow> r \<noteq> ''queue_drop'' \<Longrightarrow> quiet s (run_gap src r t)" "quiet s t \<Longrightarrow> quiet s (stop_intake e t)"
  "quiet s t \<Longrightarrow> quiet s (pendingView O' key v t)" "quiet s t \<Longrightarrow> quiet s (t\<lparr>pl_evidence := w\<rparr>)"
  "quiet s t \<Longrightarrow> quiet s (t\<lparr>pl_budget := b\<rparr>)"
  by (auto simp: quiet_def core_def metric_add_def metric_merge_def run_gap_def stop_intake_def pendingView_def split: option.splits)

lemma quiet_store: "store_event O' a e s = (s', st) \<Longrightarrow> quiet s s'"
  by (auto simp: store_event_def Let_def split: if_splits prod.splits option.splits)

lemma quiet_print [simp]: "quiet s t \<Longrightarrow> quiet s (print_event O' a t)"
  by (simp add: print_event_def)

lemma quiet_budget [simp]: "quiet s t \<Longrightarrow> quiet s (check_budget O' a t)"
  by (simp add: check_budget_def)

text \<open>A callback that succeeds hands its event on and reports it; one that fails does neither.\<close>

lemma callback_facts:
  assumes "run_callback O' a e s = (s', st)"
  shows "(pl_ctx s \<noteq> None \<longrightarrow> pl_ctx s' \<noteq> None) \<and> drop_gaps (pl_calls s') = drop_gaps (pl_calls s) \<and> pl_process s' = pl_process s \<and>
    core (s'\<lparr>pl_emitted := []\<rparr>) = core (s\<lparr>pl_emitted := []\<rparr>) \<and>
    pl_emitted s' = pl_emitted s @ (if st = None then [e] else []) \<and> added (pl_calls s') = added (pl_calls s) @ (if st = None then [e] else [])"
proof -
  obtain t r where t: "store_event O' a e (metric_merge (ca_metrics a) s) = (t, r)"
    by (cases "store_event O' a e (metric_merge (ca_metrics a) s)")
  have q: "quiet s t" using quiet_store [OF t] quiet_ops(2) [OF quiet_refl] by (rule quiet_trans [rotated])
  show ?thesis
  proof (cases r)
    case (Some err)
    with assms t q show ?thesis by (auto simp: run_callback_def quiet_def core_def)
  next
    case None
    define u where "u = t\<lparr>pl_calls := pl_calls t @ [Added e], pl_emitted := pl_emitted t @ [e]\<rparr>"
    from None assms t have "quiet u s'" "st = None"
      by (auto simp: run_callback_def u_def Let_def)
    with q show ?thesis by (auto simp: quiet_def core_def u_def)
  qed
qed

section \<open>The flow of events\<close>

definition reviewed :: "engine_config \<Rightarrow> event \<Rightarrow> event" where
  "reviewed c e = (case ec_HumanReview c of None \<Rightarrow> e | Some f \<Rightarrow> fst (f e))"

text \<open>What the callback may be given for an admitted event: the same evidence, judged, or the cancelled event.\<close>

definition settled_as :: "engine_config \<Rightarrow> event \<Rightarrow> event \<Rightarrow> bool" where
  "settled_as c e e' = (same_evidence (reviewed c e) e' \<or> e' = e\<lparr>ev_Judgment := Unknown ''analysis cancelled''\<rparr>)"

definition handed :: "engine_config \<Rightarrow> pipeline \<Rightarrow> event list \<Rightarrow> bool" where
  "handed c s rest = (\<exists>T. pl_admitted s = T @ rest \<and> list_all2 (settled_as c) T (pl_emitted s))"

definition flow_ok :: "engine_config \<Rightarrow> pipeline \<Rightarrow> bool" where
  "flow_ok c s = (case pl_engine s of
     Idle \<Rightarrow> handed c s (pl_queue s)
   | Filling b \<Rightarrow> handed c s (b @ pl_queue s)
   | Emitting es fin \<Rightarrow> (\<exists>U. handed c s (U @ pl_queue s) \<and> list_all2 (settled_as c) U es) \<and> (fin \<longrightarrow> pl_closed s \<and> pl_queue s = [])
   | Draining \<Rightarrow> handed c s (pl_queue s)
   | Ended None \<Rightarrow> pl_closed s \<and> handed c s []
   | Ended (Some e) \<Rightarrow> (\<exists>rest. handed c s rest))"

definition learned_ok :: "pipeline \<Rightarrow> bool" where
  "learned_ok s = (\<forall>l. snd (pl_learned s) = Some l \<longrightarrow> learning_ok l)"

definition pipe_ok :: "run_options \<Rightarrow> engine_config \<Rightarrow> pipeline \<Rightarrow> bool" where
  "pipe_ok O' c s = (flow_ok c s \<and> learned_ok s \<and> length (pl_queue s) \<le> ro_queue O' \<and> pl_total s = length (pl_admitted s) \<and>
     (0 < ro_maxEvents O' \<longrightarrow> pl_total s \<le> ro_maxEvents O' \<and> (pl_total s = ro_maxEvents O' \<longrightarrow> pl_ctx s \<noteq> None)) \<and>
     added (pl_calls s) = pl_emitted s \<and> drop_gaps (pl_calls s) = length (pl_dropped s))"

lemma flow_ok_cong:
  assumes "pl_queue s' = pl_queue s" "pl_closed s' = pl_closed s" "pl_engine s' = pl_engine s" "pl_admitted s' = pl_admitted s"
    "pl_emitted s' = pl_emitted s"
  shows "flow_ok c s' = flow_ok c s"
proof -
  have "handed c s' = handed c s" using assms by (intro ext) (simp add: handed_def)
  with assms show ?thesis by (simp add: flow_ok_def split: engine_phase.splits option.splits)
qed

lemma flow_ok_core: "core s' = core s \<Longrightarrow> flow_ok c s' = flow_ok c s"
  by (rule flow_ok_cong) (simp_all add: core_def)

lemma pipe_ok_quiet: "quiet s s' \<Longrightarrow> pipe_ok O' c s \<Longrightarrow> pipe_ok O' c s'"
  using flow_ok_core [of s' s c] by (auto simp: pipe_ok_def quiet_def core_def learned_ok_def)

lemma enqueue_ok:
  assumes "pipe_ok O' c s" and "\<not> pl_closed s" and "length (pl_queue s) < ro_queue O'" and "\<not> (0 < ro_maxEvents O' \<and> ro_maxEvents O' \<le> pl_total s)"
  shows "pipe_ok O' c (fst (enqueue_event O' e s))"
proof -
  define t where "t = s\<lparr>pl_queue := pl_queue s @ [e], pl_total := pl_total s + 1, pl_admitted := pl_admitted s @ [e]\<rparr>"
  have "handed c s (rest @ pl_queue s) \<Longrightarrow> handed c t (rest @ pl_queue t)" for rest by (auto simp: handed_def t_def)
  moreover from this [of "[]"] have "handed c s (pl_queue s) \<Longrightarrow> handed c t (pl_queue t)" by simp
  moreover have "handed c s rest \<Longrightarrow> handed c t (rest @ [e])" for rest by (auto simp: handed_def t_def)
  moreover have same: "pl_engine t = pl_engine s" "pl_closed t = pl_closed s" by (simp_all add: t_def)
  ultimately have flow: "flow_ok c t" using assms(1,2)
    by (auto simp: pipe_ok_def flow_ok_def split: engine_phase.splits option.splits)
  have rest: "learned_ok t" "length (pl_queue t) \<le> ro_queue O'" "pl_total t = length (pl_admitted t)"
      "added (pl_calls t) = pl_emitted t" "drop_gaps (pl_calls t) = length (pl_dropped t)"
      "0 < ro_maxEvents O' \<Longrightarrow> pl_total t \<le> ro_maxEvents O'"
    using assms by (auto simp: pipe_ok_def t_def learned_ok_def)
  show ?thesis
  proof (cases "0 < ro_maxEvents O' \<and> pl_total t = ro_maxEvents O'")
    case True
    define u where "u = stop_intake Canceled (run_gap (ev_Source e) ''event_limit'' t)"
    have "quiet t u" "pl_ctx u \<noteq> None" by (simp_all add: u_def) (simp add: stop_intake_def split: option.splits)
    with flow rest True flow_ok_core [of u t c] have "pipe_ok O' c u"
      by (auto simp: pipe_ok_def quiet_def core_def learned_ok_def)
    moreover have "fst (enqueue_event O' e s) = u"
      using True unfolding enqueue_event_def Let_def t_def [symmetric] u_def by simp
    ultimately show ?thesis by simp
  next
    case False
    then have "fst (enqueue_event O' e s) = t" unfolding enqueue_event_def Let_def t_def [symmetric] by auto
    with False flow rest show ?thesis by (auto simp: pipe_ok_def)
  qed
qed

lemma admit_ok:
  assumes "pipe_ok O' c s" and "\<not> pl_closed s" and "run_admit S O' e final pick s = Some (s', st)"
  shows "pipe_ok O' c s'"
proof (cases "(0 < ro_maxEvents O' \<and> ro_maxEvents O' \<le> pl_total s) \<or> (\<not> final \<and> pl_ctx s \<noteq> None)")
  case True
  with assms(1,3) show ?thesis by (auto simp: run_admit_def Let_def split: if_splits)
next
  case False
  define n where "n = named_source S O' e"
  define t where "t = metric_add ''received'' 1 (pendingView O' (ev_ID n) (Some (pending_event n)) s)"
  have q: "quiet s t" by (simp add: t_def)
  then have t: "pipe_ok O' c t" using assms(1) by (rule pipe_ok_quiet)
  have st: "\<not> pl_closed t" "\<not> (0 < ro_maxEvents O' \<and> ro_maxEvents O' \<le> pl_total t)" "pl_queue t = pl_queue s"
    using q assms(2) False by (auto simp: quiet_def core_def)
  have enq: "pipe_ok O' c (fst (enqueue_event O' n t))" if "length (pl_queue t) < ro_queue O'"
    using t st(1) that st(2) by (rule enqueue_ok)
  define d where "d = run_gap (ev_Source n) ''queue_drop'' (metric_add ''dropped'' 1 (t\<lparr>pl_dropped := pl_dropped t @ [n]\<rparr>))"
  have "flow_ok c d = flow_ok c t"
    by (rule flow_ok_cong) (simp_all add: d_def run_gap_def metric_add_def)
  with t have "pipe_ok O' c d" by (auto simp: pipe_ok_def d_def run_gap_def metric_add_def learned_ok_def)
  then have "pipe_ok O' c (pendingView O' k None d)" "pipe_ok O' c (pendingView O' k None t)" for k
    using t by (auto intro: pipe_ok_quiet [rotated])
  with assms(3) False enq show ?thesis
    unfolding run_admit_def Let_def n_def [symmetric] t_def [symmetric] d_def [symmetric] by (auto split: if_splits)
qed

section \<open>Every step keeps the invariant\<close>

lemma Batch_settles:
  assumes "Batch S c now later last_now cancelled live judge T es st = (st', out)" and "\<forall>l. snd st = Some l \<longrightarrow> learning_ok l"
  shows "list_all2 (settled_as c) es out \<and> (\<forall>l. snd st' = Some l \<longrightarrow> learning_ok l)"
proof -
  obtain g' mid where j: "judge_batch S c now later cancelled live judge es (fst st) = (g', mid)"
    and t: "teach S (ec_Strategy c) g' T live last_now (snd st) mid = (snd st', out)"
    using Batch_cases [OF assms(1)] .
  have J: "length mid = length es" "\<And>i. i < length es \<Longrightarrow> judged_ok (human_reviewed c es ! i) (mid ! i)"
    using judge_batch_ok [OF j] by auto
  have R: "list_all2 raised mid out" "\<forall>l. snd st' = Some l \<longrightarrow> learning_ok l" using teach_ok [OF t assms(2)] by blast+
  have "settled_as c (es ! i) (out ! i)" if "i < length es" for i
  proof -
    have "fst (human_reviewed c es ! i) = reviewed c (es ! i)"
      using that by (simp add: human_reviewed_def reviewed_def split: option.splits)
    moreover have "raised (mid ! i) (out ! i)" using R(1) J(1) that by (simp add: list_all2_conv_all_nth)
    ultimately show ?thesis using J(2) [OF that] raised_same
      by (auto simp: settled_as_def judged_ok_def intro: same_evidence_trans)
  qed
  moreover have "length out = length es" using R(1) J(1) by (simp add: list_all2_conv_all_nth)
  ultimately show ?thesis using R(2) by (simp add: list_all2_conv_all_nth)
qed

lemma callback_ok:
  assumes "pipe_ok O' c s" and cb: "run_callback O' a e t = (s', st)"
    and t: "core (t\<lparr>pl_engine := pl_engine s, pl_queue := pl_queue s\<rparr>) = core s" "pl_calls t = pl_calls s" "pl_ctx t = pl_ctx s"
    and queue: "length (pl_queue t) \<le> ro_queue O'"
    and flow: "flow_ok c (s'\<lparr>pl_engine := ph\<rparr>)"
  shows "pipe_ok O' c (s'\<lparr>pl_engine := ph\<rparr>)"
  using assms(1) callback_facts [OF cb] t queue flow
  by (cases st) (auto simp: pipe_ok_def core_def learned_ok_def)

lemma emit_ok:
  assumes ok: "pipe_ok O' c s" and "pipe_do S O' c (Emit a) s = Some s'"
  shows "pipe_ok O' c s'"
proof -
  from assms(2) consider e es fin where "pl_engine s = Emitting (e # es) fin"
    "Some s' = (case run_callback O' a e (s\<lparr>pl_engine := Emitting es fin\<rparr>) of
       (s1, Some err) \<Rightarrow> Some (s1\<lparr>pl_engine := Ended (Some err)\<rparr>) | (s1, None) \<Rightarrow> Some s1)"
  | e q where "pl_engine s = Draining" "pl_queue s = e # q"
    "Some s' = (case run_callback O' a (e\<lparr>ev_Judgment := Unknown ''analysis cancelled''\<rparr>) (s\<lparr>pl_queue := q\<rparr>) of
       (s1, Some err) \<Rightarrow> Some (s1\<lparr>pl_engine := Ended (Some err)\<rparr>) | (s1, None) \<Rightarrow> Some s1)"
    by (auto split: engine_phase.splits list.splits)
  then show ?thesis
  proof cases
    case 1
    obtain s1 st where cb: "run_callback O' a e (s\<lparr>pl_engine := Emitting es fin\<rparr>) = (s1, st)"
      by (cases "run_callback O' a e (s\<lparr>pl_engine := Emitting es fin\<rparr>)")
    note f = callback_facts [OF cb]
    from ok 1(1) obtain U where U: "handed c s (U @ pl_queue s)" "list_all2 (settled_as c) U (e # es)" "fin \<longrightarrow> pl_closed s \<and> pl_queue s = []"
      by (auto simp: pipe_ok_def flow_ok_def)
    then obtain u U' where u: "U = u # U'" "settled_as c u e" "list_all2 (settled_as c) U' es" by (auto simp: list_all2_Cons2)
    from U(1) obtain T where T: "pl_admitted s = T @ U @ pl_queue s" "list_all2 (settled_as c) T (pl_emitted s)" by (auto simp: handed_def)
    have s1: "pl_queue s1 = pl_queue s" "pl_closed s1 = pl_closed s" "pl_admitted s1 = pl_admitted s" "pl_engine s1 = Emitting es fin"
      using f by (simp_all add: core_def)
    define ph where "ph = (case st of None \<Rightarrow> Emitting es fin | Some err \<Rightarrow> Ended (Some err))"
    have s': "s' = s1\<lparr>pl_engine := ph\<rparr>" using 1(2) cb s1(4) by (cases st) (simp_all add: ph_def)
    have flow: "flow_ok c s'"
    proof (cases st)
      case None
      have "handed c s' (U' @ pl_queue s')"
        unfolding handed_def using T u f None s1 s' by (intro exI [of _ "T @ [u]"]) (simp add: list_all2_appendI)
      with u(3) U(3) s1 s' None show ?thesis by (auto simp: flow_ok_def ph_def)
    next
      case (Some err)
      have "handed c s' (U @ pl_queue s)" unfolding handed_def using T f Some s1 s' by (intro exI [of _ T]) simp
      with s' Some show ?thesis by (auto simp: flow_ok_def ph_def)
    qed
    show ?thesis unfolding s'
      by (rule callback_ok [OF ok cb]) (use flow s' ok in \<open>simp_all add: core_def pipe_ok_def\<close>)
  next
    case 2
    let ?e = "e\<lparr>ev_Judgment := Unknown ''analysis cancelled''\<rparr>"
    obtain s1 st where cb: "run_callback O' a ?e (s\<lparr>pl_queue := q\<rparr>) = (s1, st)" by (cases "run_callback O' a ?e (s\<lparr>pl_queue := q\<rparr>)")
    note f = callback_facts [OF cb]
    from ok 2(1,2) obtain T where T: "pl_admitted s = T @ e # q" "list_all2 (settled_as c) T (pl_emitted s)"
      by (auto simp: pipe_ok_def flow_ok_def handed_def)
    have s1: "pl_queue s1 = q" "pl_closed s1 = pl_closed s" "pl_admitted s1 = pl_admitted s" "pl_engine s1 = Draining"
      using f 2(1) by (simp_all add: core_def)
    define ph where "ph = (case st of None \<Rightarrow> Draining | Some err \<Rightarrow> Ended (Some err))"
    have s': "s' = s1\<lparr>pl_engine := ph\<rparr>" using 2(3) cb s1(4) by (cases st) (simp_all add: ph_def)
    have flow: "flow_ok c s'"
    proof (cases st)
      case None
      have "settled_as c e ?e" by (simp add: settled_as_def)
      then have "handed c s' (pl_queue s')"
        unfolding handed_def using T f None s1 s' by (intro exI [of _ "T @ [e]"]) (simp add: list_all2_appendI)
      with s' None show ?thesis by (simp add: flow_ok_def ph_def)
    next
      case (Some err)
      have "handed c s' (e # q)" unfolding handed_def using T f Some s1 s' by (intro exI [of _ T]) simp
      with s' Some show ?thesis by (auto simp: flow_ok_def ph_def)
    qed
    show ?thesis unfolding s'
      by (rule callback_ok [OF ok cb]) (use flow s' ok 2(2) in \<open>simp_all add: core_def pipe_ok_def\<close>)
  qed
qed

lemma handed_phase [simp]: "handed c (s\<lparr>pl_engine := ph\<rparr>) = handed c s"
  by (intro ext) (simp add: handed_def)

lemma phase_ok: "pipe_ok O' c s \<Longrightarrow> flow_ok c (s\<lparr>pl_engine := ph\<rparr>) \<Longrightarrow> pipe_ok O' c (s\<lparr>pl_engine := ph\<rparr>)"
  by (auto simp: pipe_ok_def learned_ok_def)

lemma pipe_do_ok:
  assumes ok: "pipe_ok O' c s" and "pipe_do S O' c a s = Some s'"
  shows "pipe_ok O' c s'"
proof (cases a)
  case (Admit e final pick)
  with assms show ?thesis by (auto split: if_splits intro: admit_ok)
next
  case CloseInput
  with assms have "s' = s\<lparr>pl_closed := True\<rparr>" by (simp split: if_splits)
  moreover have "handed c (s\<lparr>pl_closed := True\<rparr>) = handed c s" by (intro ext) (simp add: handed_def)
  ultimately show ?thesis using ok by (auto simp: pipe_ok_def flow_ok_def learned_ok_def split: engine_phase.splits option.splits)
next
  case (StopIntake e)
  with assms show ?thesis by (auto intro: pipe_ok_quiet [rotated])
next
  case (StopProcess e)
  with assms have s': "s' = stop_process e s" by simp
  have "flow_ok c s' = flow_ok c s" unfolding s' by (rule flow_ok_cong) (simp_all add: stop_process_def stop_intake_def)
  with ok s' show ?thesis by (auto simp: pipe_ok_def stop_process_def stop_intake_def learned_ok_def split: option.splits)
next
  case Receive
  with assms show ?thesis
    by (auto simp: pipe_ok_def flow_ok_def handed_def learned_ok_def split: engine_phase.splits list.splits if_splits)
next
  case SeeDone
  with assms show ?thesis by (auto simp: pipe_ok_def flow_ok_def handed_def learned_ok_def split: engine_phase.splits if_splits)
next
  case (JudgeBatch b saw)
  with assms(2) obtain es where ph: "pl_engine s = Filling es" by (auto split: engine_phase.splits)
  obtain st out where B: "Batch S c (ba_now b) (ba_later b) (ba_last b) (ba_cancelled b) (ba_live b) (ba_judge b) (ba_teacher b) es (pl_learned s) = (st, out)"
    by (metis surj_pair)
  have l: "\<forall>l. snd (pl_learned s) = Some l \<longrightarrow> learning_ok l" using ok by (simp add: pipe_ok_def learned_ok_def)
  define fin where "fin = (saw \<and> length es < ec_BatchSize c \<and> pl_closed s \<and> pl_queue s = [])"
  from JudgeBatch assms(2) ph B have s': "s' = s\<lparr>pl_learned := st, pl_engine := Emitting out fin\<rparr>"
    by (simp add: run_batch_def Let_def fin_def)
  from ok ph have "handed c s (es @ pl_queue s)" by (simp add: pipe_ok_def flow_ok_def)
  then have "handed c s' (es @ pl_queue s')" by (simp add: handed_def s')
  with Batch_settles [OF B l] have "flow_ok c s'" by (auto simp: flow_ok_def s' fin_def)
  with Batch_settles [OF B l] ok show ?thesis by (auto simp: pipe_ok_def learned_ok_def s')
next
  case (Emit a)
  with assms show ?thesis by (auto intro: emit_ok)
next
  case EndPhase
  have flow: "flow_ok c s" using ok by (simp add: pipe_ok_def)
  from EndPhase assms(2) obtain ph where s': "s' = s\<lparr>pl_engine := ph\<rparr>" and ph:
    "(pl_engine s = Idle \<and> pl_closed s \<and> pl_queue s = [] \<and> ph = Ended None) \<or>
     (\<exists>fin. pl_engine s = Emitting [] fin \<and> ph = (if fin then Ended None else Idle)) \<or>
     (pl_engine s = Draining \<and> pl_closed s \<and> pl_queue s = [] \<and> ph = Ended (pl_process s))"
    by (auto split: engine_phase.splits list.splits if_splits)
  have "flow_ok c (s\<lparr>pl_engine := ph\<rparr>)"
    using flow ph by (cases "pl_process s") (auto simp: flow_ok_def handed_phase)
  then show ?thesis unfolding s' by (rule phase_ok [OF ok])
qed

lemma pipe_run_ok: "pipe_ok O' c s \<Longrightarrow> pipe_run S O' c as s = Some s' \<Longrightarrow> pipe_ok O' c s'"
  by (induction as arbitrary: s) (auto simp: bind_eq_Some_conv dest: pipe_do_ok)

lemma pipe_start_ok: "\<forall>l. snd st = Some l \<longrightarrow> learning_ok l \<Longrightarrow> pipe_ok O' c (pipe_start O' st)"
  by (auto simp: pipe_ok_def pipe_start_def Let_def run_gap_def metric_add_def flow_ok_def handed_def learned_ok_def)

text \<open>
  C3: The pipeline of a run neither loses, repeats nor reorders an admitted event, however producers, engine and
  cancellations interleave and whatever store, provider and terminal answer: the queue stays within its bound, at
  most \<open>--max-events\<close> events are admitted, the callback has been given judged versions of the oldest admitted events,
  in order, these are exactly the events of the report, and when the engine has ended normally they are all of them.
  Every dropped event has left its own gap in the report.
\<close>

theorem pipeline_exactly_once:
  assumes "pipe_run S O' c steps (pipe_start O' st) = Some s" and "\<forall>l. snd st = Some l \<longrightarrow> learning_ok l"
  shows "length (pl_queue s) \<le> ro_queue O' \<and> (0 < ro_maxEvents O' \<longrightarrow> length (pl_admitted s) \<le> ro_maxEvents O') \<and>
    length (pl_emitted s) \<le> length (pl_admitted s) \<and>
    list_all2 (settled_as c) (take (length (pl_emitted s)) (pl_admitted s)) (pl_emitted s) \<and>
    added (pl_calls s) = pl_emitted s \<and> (pl_engine s = Ended None \<longrightarrow> length (pl_emitted s) = length (pl_admitted s)) \<and>
    drop_gaps (pl_calls s) = length (pl_dropped s)"
proof -
  have ok: "pipe_ok O' c s" using pipe_run_ok [OF pipe_start_ok assms(1)] assms(2) by blast
  then have "\<exists>rest. handed c s rest \<and> (pl_engine s = Ended None \<longrightarrow> rest = [])"
    by (auto simp: pipe_ok_def flow_ok_def split: engine_phase.splits option.splits)
  then obtain T rest where T: "pl_admitted s = T @ rest" "list_all2 (settled_as c) T (pl_emitted s)" "pl_engine s = Ended None \<longrightarrow> rest = []"
    by (auto simp: handed_def)
  with ok list_all2_lengthD [OF T(2)] show ?thesis by (auto simp: pipe_ok_def)
qed

text \<open>A run over two events: the second is dropped by a queue of one, the first is judged and reported.\<close>

definition sample_options :: run_options where
  "sample_options = \<lparr>ro_Follow = True, ro_files = True, ro_json = False, ro_quiet = True, ro_update = True, ro_store = False,
     ro_client = False, ro_maxEvents = 5, ro_queue = 1, ro_retain = 3, ro_maxBatches = 10, ro_MaxAttempts = 10, ro_names = [],
     ro_sprint = (\<lambda>v. [])\<rparr>"

definition sample_answers :: callback_answers where
  "sample_answers = \<lparr>ca_metrics = [], ca_store_metrics = [], ca_blocked = False, ca_applied = (applied0, None), ca_write = None, ca_usage = usage0\<rparr>"

definition sample_batch :: batch_answers where
  "sample_batch = \<lparr>ba_now = zero_time, ba_later = (\<lambda>n. zero_time), ba_last = zero_time, ba_cancelled = None, ba_live = True,
     ba_judge = (\<lambda>ds. Inl (Err '''')), ba_teacher = sample_teacher\<rparr>"

definition offline_config :: engine_config where
  "offline_config = sample_config\<lparr>ec_Offline := True, ec_BatchSize := 4\<rparr>"

definition sample_steps :: "pipe_step list" where
  "sample_steps = [Admit (empty_event\<lparr>ev_ID := ''a''\<rparr>) False True, Admit (empty_event\<lparr>ev_ID := ''b''\<rparr>) False True, Receive, CloseInput,
     JudgeBatch sample_batch True, Emit sample_answers, EndPhase]"

definition sample_end :: "pipeline option" where
  "sample_end = pipe_run sample_std sample_options offline_config sample_steps (pipe_start sample_options (sample_grouper, None))"

lemma sample_pipe_run:
  "(case sample_end of None \<Rightarrow> None | Some s \<Rightarrow> Some (case pl_engine s of Ended None \<Rightarrow> True | _ \<Rightarrow> False, length (pl_emitted s), length (pl_dropped s)))
    = Some (True, 1, 1)"
  by code_simp

theorem pipeline_exactly_once_witness:
  "\<exists>s. sample_end = Some s \<and> length (pl_emitted s) = length (pl_admitted s) \<and> drop_gaps (pl_calls s) = 1"
proof -
  obtain s where s: "sample_end = Some s" and e: "pl_engine s = Ended None" "length (pl_dropped s) = 1"
    using sample_pipe_run by (auto split: option.splits engine_phase.splits)
  have "\<forall>l. snd (sample_grouper, None :: learning option) = Some l \<longrightarrow> learning_ok l" by simp
  from pipeline_exactly_once [OF s [unfolded sample_end_def] this] e
  have "length (pl_emitted s) = length (pl_admitted s) \<and> drop_gaps (pl_calls s) = 1" by simp
  with s show ?thesis by blast
qed

end
