(* ===== verification/Runner.thy ===== *)
theory Runner
  imports IntakeSafety ParserSafety
begin

text \<open>
  The rest of \<open>internal/cli/run.go\<close>: the files a run reads, the wait for room in the outbox, the view of a run in
  progress, and what the run returns; with the exit codes of \<open>internal/cli/cli.go\<close>.
\<close>

section \<open>Waiting for the store\<close>

text \<open>
  \<open>attempt n\<close> is the \<open>n\<close>-th attempt in the state the store then has; \<open>expiry n\<close> is the context's error when it, and
  not the timer, expiry the \<open>n\<close>-th wait.  The result says in addition whether \<open>blocked\<close> was called.
\<close>

primrec wait_loop :: "nat \<Rightarrow> (nat \<Rightarrow> status) \<Rightarrow> (nat \<Rightarrow> 's \<Rightarrow> 's \<times> 'a \<times> status) \<Rightarrow> nat \<Rightarrow> 's \<Rightarrow> 'a \<Rightarrow> ('s \<times> 'a \<times> status) option" where
  "wait_loop 0 expiry attempt n s ap = None"
| "wait_loop (Suc fuel) expiry attempt n s ap =
     (case expiry n of
        Some err \<Rightarrow> Some (s, ap, Some err)
      | None \<Rightarrow> (case attempt (Suc n) s of (s', ap', st) \<Rightarrow>
          if st \<noteq> Some ErrBackpressure then Some (s', ap', st) else wait_loop fuel expiry attempt (Suc n) s' ap'))"

definition waitForState :: "nat \<Rightarrow> (nat \<Rightarrow> status) \<Rightarrow> (nat \<Rightarrow> 's \<Rightarrow> 's \<times> 'a \<times> status) \<Rightarrow> 's \<Rightarrow> ('s \<times> 'a \<times> status \<times> bool) option" where
  "waitForState fuel expiry attempt s =
     (case attempt 0 s of (s1, ap, st) \<Rightarrow>
        if st \<noteq> Some ErrBackpressure then Some (s1, ap, st, False)
        else map_option (\<lambda>(s2, ap2, st2). (s2, ap2, st2, True)) (wait_loop fuel expiry attempt 0 s1 ap))"

text \<open>
  The wait returns with the first attempt that meets no back-pressure, or with the context's error as soon as a wait
  is ended by it, and never with \<open>ErrBackpressure\<close>; \<open>n + 1\<close> rounds of fuel are enough when the \<open>n\<close>-th wait is the last.
\<close>

lemma wait_loop_returns:
  assumes "\<exists>err. expiry (k + m) = Some err" and "m < fuel"
  shows "\<exists>s' ap' st. wait_loop fuel expiry attempt k s ap = Some (s', ap', st)"
  using assms
proof (induction fuel arbitrary: k m s ap)
  case 0
  then show ?case by simp
next
  case (Suc fuel)
  show ?case
  proof (cases m)
    case 0
    with Suc.prems show ?thesis by auto
  next
    case (Suc m')
    with Suc.prems Suc.IH [of "Suc k" m'] show ?thesis
      by (auto split: option.splits prod.splits)
  qed
qed

lemma wait_loop_result:
  "wait_loop fuel expiry attempt k s ap = Some (s', ap', st) \<Longrightarrow> \<forall>n. expiry n \<noteq> Some ErrBackpressure \<Longrightarrow> st \<noteq> Some ErrBackpressure"
  by (induction fuel arbitrary: k s ap) (auto split: option.splits prod.splits if_splits)

text \<open>
  The wait for room in the outbox returns as soon as a wait is ended by the context, whatever the store answers, and
  never hands back-pressure on to its caller.
\<close>

theorem wait_for_state_returns:
  assumes "\<forall>n. expiry n \<noteq> Some ErrBackpressure" and "expiry m = Some err" and "m < fuel"
  shows "\<exists>s' ap st blocked. waitForState fuel expiry attempt s = Some (s', ap, st, blocked) \<and> st \<noteq> Some ErrBackpressure \<and>
    (blocked \<longleftrightarrow> snd (snd (attempt 0 s)) = Some ErrBackpressure)"
proof -
  obtain s1 ap1 st1 where a: "attempt 0 s = (s1, ap1, st1)" by (metis prod_cases3)
  obtain s2 ap2 st2 where w: "wait_loop fuel expiry attempt 0 s1 ap1 = Some (s2, ap2, st2)"
    using wait_loop_returns [of expiry 0 m fuel attempt s1 ap1] assms(2,3) by auto
  from wait_loop_result [OF w assms(1)] a w show ?thesis by (simp add: waitForState_def)
qed

section \<open>Files\<close>

text \<open>What \<open>safefile.Open\<close> and the check of its kind answer for a path.\<close>

datatype 'r opened = Unavailable | Unsupported | Opened 'r

record 'r file_system =
  fs_open :: "string \<Rightarrow> 'r opened"
  fs_stdin :: 'r
  fs_gunzip :: "'r \<Rightarrow> 'r option"
  fs_read :: "nat \<Rightarrow> 'r \<Rightarrow> 'r \<times> string \<times> goerror option"

text \<open>\<open>ctx n\<close> is the context's error at its \<open>n\<close>-th look: one per path, one per round of a read, one after a failed read.\<close>

record run_context =
  rc_path :: "nat \<Rightarrow> status"
  rc_read :: "nat \<Rightarrow> nat \<Rightarrow> status"
  rc_after :: "nat \<Rightarrow> status"

definition file_source :: "string \<Rightarrow> source" where
  "file_source path = [(''type'', JStr ''file''), (''path'', JStr (Console path))]"

text \<open>The reader behind a path, or why there is none.\<close>

definition open_path :: "'r file_system \<Rightarrow> bool \<Rightarrow> string \<Rightarrow> string + 'r" where
  "open_path F used path =
     (case (if path = ''-'' then (if used then Inl ''duplicate_stdin'' else Inr (fs_stdin F))
            else case fs_open F path of Unavailable \<Rightarrow> Inl ''file_unavailable'' | Unsupported \<Rightarrow> Inl ''file_type_unsupported'' | Opened r \<Rightarrow> Inr r) of
        Inl reason \<Rightarrow> Inl reason
      | Inr r \<Rightarrow> (if HasSuffix path ''.gz'' then (case fs_gunzip F r of None \<Rightarrow> Inl ''gzip_invalid'' | Some z \<Rightarrow> Inr z) else Inr r))"

fun collectFiles :: "nat \<Rightarrow> std \<Rightarrow> 'r file_system \<Rightarrow> run_context \<Rightarrow> (event \<Rightarrow> 'o \<Rightarrow> 'o \<times> status) \<Rightarrow> (source \<Rightarrow> string \<Rightarrow> 'o \<Rightarrow> 'o)
    \<Rightarrow> int \<Rightarrow> nat \<Rightarrow> bool \<Rightarrow> string list \<Rightarrow> 'o \<Rightarrow> ('o \<times> status) option" where
  "collectFiles fuel S F X emit gap maxBytes i used [] o' = Some (o', None)"
| "collectFiles fuel S F X emit gap maxBytes i used (path # paths) o' =
     (case rc_path X i of
        Some err \<Rightarrow> Some (o', Some err)
      | None \<Rightarrow>
          (let src = file_source path; used' = (used \<or> path = ''-'') in
           case open_path F used path of
             Inl reason \<Rightarrow> collectFiles fuel S F X emit gap maxBytes (Suc i) used' paths (gap src reason o')
           | Inr r \<Rightarrow>
               (case Read fuel S (fs_read F) emit (rc_read X i) src maxBytes r o' of
                  None \<Rightarrow> None
                | Some (o1, None) \<Rightarrow> collectFiles fuel S F X emit gap maxBytes (Suc i) used' paths o1
                | Some (o1, Some err) \<Rightarrow>
                    (if err = ErrCap \<or> rc_after X i \<noteq> None then Some (o1, Some err)
                     else collectFiles fuel S F X emit gap maxBytes (Suc i) used' paths (gap src ''input_incomplete'' o1)))))"

text \<open>
  The reference: with inputs that hold no private key and fit the byte limit, a live context and a sink that takes
  everything, each path in turn yields exactly the events of its whole text, or one gap that says why it has none.
\<close>

fun expected_files :: "std \<Rightarrow> string list file_system \<Rightarrow> bool \<Rightarrow> string list \<Rightarrow> event list \<times> (source \<times> string) list
    \<Rightarrow> event list \<times> (source \<times> string) list" where
  "expected_files S F used [] acc = acc"
| "expected_files S F used (path # paths) acc =
     expected_files S F (used \<or> path = ''-'') paths
       (case open_path F used path of
          Inl reason \<Rightarrow> (fst acc, snd acc @ [(file_source path, reason)])
        | Inr cs \<Rightarrow> (fst acc @ parse_all S (file_source path) (concat cs), snd acc))"

definition collect_emit :: "event \<Rightarrow> event list \<times> (source \<times> string) list \<Rightarrow> (event list \<times> (source \<times> string) list) \<times> status" where
  "collect_emit e o' = ((fst o' @ [e], snd o'), None)"

definition collect_gap :: "source \<Rightarrow> string \<Rightarrow> event list \<times> (source \<times> string) list \<Rightarrow> event list \<times> (source \<times> string) list" where
  "collect_gap src reason o' = (fst o', snd o' @ [(src, reason)])"

text \<open>A content the reading loop takes in whole.\<close>

definition plain_input :: "nat \<Rightarrow> int \<Rightarrow> string list \<Rightarrow> bool" where
  "plain_input fuel maxBytes cs = (\<not> Contains (concat cs) ''PRIVATE KEY-----'' \<and> int (length (concat cs)) \<le> maxBytes \<and> 1 \<le> maxBytes \<and>
     length cs + length (concat cs) < fuel)"

definition live_context :: run_context where
  "live_context = \<lparr>rc_path = (\<lambda>n. None), rc_read = (\<lambda>n k. None), rc_after = (\<lambda>n. None)\<rparr>"

text \<open>A sink that only adds to a state reads the same as one that collects.\<close>

lemma emit_all_collect_emit: "emit_all collect_emit es o' = ((fst o' @ es, snd o'), None)"
  by (induction es arbitrary: o') (simp_all add: emit_all_def collect_emit_def)

lemma read_loop_collect:
  "key_free (ps_marker p @ concat cs) \<Longrightarrow> n + length (concat cs) \<le> m \<Longrightarrow> length cs + length (concat cs) < fuel \<Longrightarrow>
    read_loop fuel S chunk_reader collect_emit (\<lambda>_. None) m n p cs o' =
      Some ((fst o' @ (case Feed S None (concat cs) p () of (p1, _, es) \<Rightarrow> (case Finish S None False p1 () of (_, _, fs) \<Rightarrow> es @ fs)), snd o'), None)"
proof (induction fuel arbitrary: n p cs o')
  case 0
  then show ?case by simp
next
  case (Suc fuel)
  show ?case
  proof (cases cs)
    case Nil
    with Suc.prems show ?thesis by (auto simp: Feed_end emit_all_collect_emit split: prod.splits)
  next
    case (Cons c cs')
    let ?k = "min 8192 (m - n + 1)"
    obtain ds d where rd: "chunk_reader ?k cs = (ds, d, None)" and cc: "concat cs = d @ concat ds"
      and less: "length ds + length (concat ds) < length cs + length (concat cs)"
      using chunk_reader_Cons [of ?k c cs'] Cons by (metis zero_less_Suc Suc_eq_plus1 min_less_iff_conj zero_less_numeral)
    have fit: "\<not> m < length d + n" "n + length d + length (concat ds) \<le> m"
      using Suc.prems(2) unfolding cc by simp_all
    obtain p1 u1 es where f: "Feed S None d p () = (p1, u1, es)" by (metis prod_cases3)
    have kf: "key_free (ps_marker p @ d @ concat ds)" using Suc.prems(1) unfolding cc .
    have fuel: "length ds + length (concat ds) < fuel" using less Suc.prems(3) by linarith
    note ih = Suc.IH [OF key_free_after [OF kf f] fit(2) fuel, of "(fst o' @ es, snd o')"]
    have step: "read_loop (Suc fuel) S chunk_reader collect_emit (\<lambda>_. None) m n p cs o' =
        read_loop fuel S chunk_reader collect_emit (\<lambda>_. None) m (n + length d) p1 ds (fst o' @ es, snd o')"
      using fit(1) by (simp only: read_loop.simps rd option.case prod.case if_False f emit_all_collect_emit)
    show ?thesis
      unfolding step ih cc Feed_append [OF kf] f by (simp split: prod.split)
  qed
qed

definition plain_files :: "nat \<Rightarrow> int \<Rightarrow> string list file_system \<Rightarrow> bool" where
  "plain_files fuel maxBytes F = (fs_read F = chunk_reader \<and>
     (\<forall>used path cs. open_path F used path = Inr cs \<longrightarrow> plain_input fuel maxBytes cs))"

lemma Read_collect:
  assumes "plain_input fuel maxBytes cs"
  shows "Read fuel S chunk_reader collect_emit (\<lambda>_. None) src maxBytes cs o' = Some ((fst o' @ parse_all S src (concat cs), snd o'), None)"
proof -
  have "ps_marker (NewParser S src) = []" by (simp add: NewParser_def Let_def)
  moreover have "length (concat cs) \<le> nat maxBytes" using assms unfolding plain_input_def by linarith
  ultimately show ?thesis using read_loop_collect [of "NewParser S src" cs 0 "nat maxBytes" fuel S o'] assms
    by (simp add: plain_input_def Read_def parse_all_def key_free_def key_text_def)
qed

text \<open>
  Reading the files of a run loses nothing silently: whatever paths it is given, in whatever order and with whatever
  repetitions, every readable input contributes exactly the events of its whole text and every other path exactly
  one gap with its reason, in the order of the paths, and the collection ends without an error.
\<close>

theorem collect_files_exact:
  assumes "plain_files fuel maxBytes F"
  shows "collectFiles fuel S F live_context collect_emit collect_gap maxBytes i used paths o' = Some (expected_files S F used paths o', None)"
proof (induction paths arbitrary: i used o')
  case (Cons path paths)
  show ?case
  proof (cases "open_path F used path")
    case (Inl reason)
    with Cons show ?thesis by (simp add: live_context_def collect_gap_def Let_def)
  next
    case (Inr cs)
    with assms have "fs_read F = chunk_reader" "plain_input fuel maxBytes cs" by (auto simp: plain_files_def)
    with Read_collect [of fuel maxBytes cs S "file_source path" o'] Cons Inr show ?thesis
      by (simp add: live_context_def Let_def)
  qed
qed simp

text \<open>An error of the sink ends the collection: the cap, or any error once the context has ended.\<close>

lemma collect_files_error:
  assumes "rc_path X i = None" and "open_path F used path = Inr r"
    and "Read fuel S (fs_read F) emit (rc_read X i) (file_source path) maxBytes r o' = Some (o1, Some err)" and "err = ErrCap \<or> rc_after X i \<noteq> None"
  shows "collectFiles fuel S F X emit gap maxBytes i used (path # paths) o' = Some (o1, Some err)"
  using assms by (simp add: Let_def)

definition sample_files :: "string list file_system" where
  "sample_files = \<lparr>fs_open = (\<lambda>p. if p = ''a.log'' then Opened [''bo'', ''om'' @ [CHR 0x0A]] else Unavailable),
     fs_stdin = [''x'' @ [CHR 0x0A]], fs_gunzip = (\<lambda>r. None), fs_read = chunk_reader\<rparr>"

theorem collect_files_exact_witness:
  "collectFiles 20 sample_std sample_files live_context collect_emit collect_gap 100 0 False [''-'', ''a.log'', ''-'', ''b.log''] ([], []) =
     Some ((parse_all sample_std (file_source ''-'') (''x'' @ [CHR 0x0A]) @ parse_all sample_std (file_source ''a.log'') (''boom'' @ [CHR 0x0A]),
       [(file_source ''-'', ''duplicate_stdin''), (file_source ''b.log'', ''file_unavailable'')]), None)"
proof -
  have "plain_input 20 100 [''x'' @ [CHR 0x0A]]" "plain_input 20 100 [''bo'', ''om'' @ [CHR 0x0A]]" by code_simp+
  then have "plain_files 20 100 sample_files"
    by (auto simp: plain_files_def sample_files_def open_path_def split: if_splits opened.splits)
  have paths: "open_path sample_files u ''-'' = (if u then Inl ''duplicate_stdin'' else Inr [''x'' @ [CHR 0x0A]])"
    "open_path sample_files u ''a.log'' = Inr [''bo'', ''om'' @ [CHR 0x0A]]" "open_path sample_files u ''b.log'' = Inl ''file_unavailable''" for u
    by (simp_all add: open_path_def sample_files_def HasSuffix_def)
  show ?thesis unfolding collect_files_exact [OF \<open>plain_files 20 100 sample_files\<close>] by (simp add: paths)
qed

section \<open>What a run returns\<close>

datatype run_failure = ExitCode nat | Failure goerror

text \<open>The end of \<open>runWith\<close>: how the publication, the output and the two halves of the pipeline ended.\<close>

record run_end =
  re_report :: status
  re_json :: status
  re_summary :: status
  re_command :: status
  re_collected :: status
  re_analysis :: status
  re_background :: status

definition context_error :: "goerror \<Rightarrow> bool" where
  "context_error e = (e = Canceled \<or> e = DeadlineExceeded)"

text \<open>An error that is not excused.\<close>

definition unless :: "(goerror \<Rightarrow> bool) \<Rightarrow> status \<Rightarrow> status" where
  "unless excused st = (case st of None \<Rightarrow> None | Some e \<Rightarrow> if excused e then None else Some e)"

text \<open>An error of collection or analysis is a gap of its own; it is recorded before the report is taken.\<close>

definition final_calls :: "run_end \<Rightarrow> pipeline \<Rightarrow> report_call list" where
  "final_calls r s = pl_calls s @
     (if re_collected r \<noteq> None \<or> re_analysis r \<noteq> None then [Gapped [(''type'', JStr ''collection'')] ''collection_interrupted''] else [])"

definition final_metrics :: "run_end \<Rightarrow> (string, nat) gomap \<Rightarrow> pipeline \<Rightarrow> (string, nat) gomap" where
  "final_metrics r engine_metrics s =
     (let s1 = (if re_collected r \<noteq> None \<or> re_analysis r \<noteq> None
                then run_gap [(''type'', JStr ''collection'')] ''collection_interrupted'' s else s) in
      foldl (\<lambda>m (k, v). mput k v m) (mput ''collection_stopped'' 1 (pl_metrics s1)) engine_metrics)"

definition final_document :: "std \<Rightarrow> (group list \<Rightarrow> group list) \<Rightarrow> run_options \<Rightarrow> gotime \<Rightarrow> gotime \<Rightarrow> string \<Rightarrow> json \<Rightarrow> usage \<Rightarrow> (string, nat) gomap
    \<Rightarrow> json \<Rightarrow> run_end \<Rightarrow> pipeline \<Rightarrow> document" where
  "final_document S shuffle O' start now mode scope u engine_metrics checkpoint r s =
     report_Snapshot S shuffle now mode scope (ro_Follow O' \<or> \<not> ro_files O') u (final_metrics r engine_metrics s) checkpoint
       (report_calls S (final_calls r s) (report_New start (int (ro_retain O'))))"

definition run_result :: "run_options \<Rightarrow> run_end \<Rightarrow> pipeline \<Rightarrow> document \<Rightarrow> run_failure option" where
  "run_result O' r s d =
     (let analysis = (case re_analysis r of None \<Rightarrow> re_background r | Some e \<Rightarrow> Some e) in
      if re_report r \<noteq> None then map_option Failure (re_report r)
      else if ro_json O' \<and> re_json r \<noteq> None then Some (Failure (Err ''cannot write report output''))
      else if \<not> ro_json O' \<and> pl_evidence s = None \<and> \<not> ro_quiet O' \<and> re_summary r \<noteq> None then map_option Failure (re_summary r)
      else if pl_budget s then
        Some (Failure (Err ''provider budget exhausted; collection stopped, restart under supervision after reviewing budget policy''))
      else if re_command r \<noteq> None then map_option Failure (re_command r)
      else if pl_evidence s \<noteq> None then map_option Failure (pl_evidence s)
      else case (if unless context_error analysis \<noteq> None then analysis
                 else unless (\<lambda>e. context_error e \<or> e = ErrCap) (re_collected r)) of
        Some e \<Rightarrow> Some (Failure e)
      | None \<Rightarrow> (if \<not> dc_complete d then Some (ExitCode 2) else None))"

text \<open>\<open>Execute\<close> and \<open>Main\<close>: the exit code; \<open>signalled\<close> says that the signal context has ended.\<close>

definition exit_code :: "bool \<Rightarrow> status \<Rightarrow> run_failure option \<Rightarrow> nat" where
  "exit_code signalled out res =
     (if signalled then 130
      else case res of
        None \<Rightarrow> (case out of None \<Rightarrow> 0 | Some e \<Rightarrow> if e = Canceled then 130 else 1)
      | Some (ExitCode n) \<Rightarrow> n
      | Some (Failure e) \<Rightarrow> if e = Canceled then 130 else 1)"

section \<open>Success means completeness\<close>

text \<open>The counters stay a map without duplicate keys.\<close>

definition counted :: "pipeline \<Rightarrow> bool" where
  "counted s = wf_map (pl_metrics s)"

lemma counted_ops [simp]: "counted s \<Longrightarrow> counted (metric_add k n s)" "counted s \<Longrightarrow> counted (metric_merge m s)"
  "counted s \<Longrightarrow> counted (run_gap src r s)" "counted (stop_intake e s) = counted s" "counted (stop_process e s) = counted s"
  "counted (pendingView O' key v s) = counted s" "counted (s\<lparr>pl_dropped := d\<rparr>) = counted s" "counted (s\<lparr>pl_evidence := w\<rparr>) = counted s"
  "counted (s\<lparr>pl_budget := b\<rparr>) = counted s" "counted (s\<lparr>pl_engine := ph\<rparr>) = counted s" "counted (s\<lparr>pl_queue := q\<rparr>) = counted s"
  "counted (s\<lparr>pl_closed := x\<rparr>) = counted s" "counted (s\<lparr>pl_calls := cs, pl_emitted := es\<rparr>) = counted s"
  "counted (s\<lparr>pl_learned := l\<rparr>) = counted s" "counted (s\<lparr>pl_queue := q, pl_total := n, pl_admitted := es\<rparr>) = counted s"
  by (simp_all add: counted_def metric_add_def metric_merge_def run_gap_def stop_intake_def stop_process_def pendingView_def wf_foldl_mput
    split: option.splits)

lemma counted_store: "counted s \<Longrightarrow> counted (fst (store_event O' a e s))"
  by (auto simp: store_event_def Let_def split: prod.splits option.splits)

lemma counted_print [simp]: "counted s \<Longrightarrow> counted (print_event O' a s)"
  by (simp add: print_event_def)

lemma counted_budget [simp]: "counted s \<Longrightarrow> counted (check_budget O' a s)"
  by (simp add: check_budget_def)

lemma counted_callback: "counted s \<Longrightarrow> counted (fst (run_callback O' a e s))"
  using counted_store [of "metric_merge (ca_metrics a) s" O' a e]
  by (auto simp: run_callback_def Let_def split: prod.splits option.splits)

lemma counted_admit: "counted s \<Longrightarrow> run_admit S O' e final pick s = Some (s', st) \<Longrightarrow> counted s'"
  by (auto simp: run_admit_def enqueue_event_def Let_def split: if_splits)

lemma counted_emit:
  assumes "counted s" and "(case run_callback O' a e s of (s1, Some err) \<Rightarrow> Some (s1\<lparr>pl_engine := Ended (Some err)\<rparr>) | (s1, None) \<Rightarrow> Some s1) = Some s'"
  shows "counted s'"
  using counted_callback [OF assms(1), of O' a e] assms(2) by (auto split: prod.splits option.splits)

lemma counted_do: "counted s \<Longrightarrow> pipe_do S O' c a s = Some s' \<Longrightarrow> counted s'"
proof (induction S O' c a s rule: pipe_do.induct)
  case (8 S O' c a s)
  then show ?case
    by (auto split: engine_phase.splits list.splits elim!: counted_emit [rotated])
qed (auto simp: run_batch_def Let_def split: if_splits engine_phase.splits list.splits prod.splits dest: counted_admit)

lemma counted_run: "counted s \<Longrightarrow> pipe_run S O' c as s = Some s' \<Longrightarrow> counted s'"
  by (induction as arbitrary: s) (auto simp: bind_eq_Some_conv dest: counted_do)

lemma no_gap_no_drop: "gapped S cs = [] \<Longrightarrow> drop_gaps cs = 0"
  by (induction S cs rule: gapped.induct) (simp_all add: drop_gaps_def)

text \<open>
  C7: Success is never reported over a loss: when a run returns without a failure, whatever happened on the way, it read
  files and did not follow, collection and analysis ended without an error, every admitted event went through the
  callback, none was dropped or cut off, each is in the report with a verdict, and no coverage gap was recorded.
\<close>

theorem success_means_complete:
  assumes run: "pipe_run S O' c steps (pipe_start O' st) = Some s" and learned: "\<forall>l. snd st = Some l \<longrightarrow> learning_ok l"
    and ended: "pl_engine s = Ended (re_analysis r)"
    and ok: "run_result O' r s (final_document S shuffle O' start now mode scope u engine_metrics checkpoint r s) = None"
  shows "ro_files O' \<and> \<not> ro_Follow O' \<and> re_collected r = None \<and> re_analysis r = None \<and>
    length (pl_emitted s) = length (pl_admitted s) \<and> list_all2 (settled_as c) (pl_admitted s) (pl_emitted s) \<and>
    pl_dropped s = [] \<and> gapped S (pl_calls s) = [] \<and> int (length (pl_emitted s)) \<le> max 1 (int (ro_retain O')) \<and>
    list_all (\<lambda>e. \<not> ev_Truncated e \<and> \<not> ev_ParseUncertain e \<and> Importance (ev_Judgment e) \<noteq> ''unknown'') (pl_emitted s)"
proof -
  have P: "pipe_ok O' c s" using pipe_run_ok [OF pipe_start_ok run] learned by blast
  have wf: "wf_map (final_metrics r engine_metrics s)"
  proof -
    have "counted (pipe_start O' st)" by (simp add: pipe_start_def Let_def counted_def run_gap_def metric_add_def)
    then have "counted s" using run by (rule counted_run)
    then show ?thesis
      by (auto simp: final_metrics_def Let_def counted_def run_gap_def metric_add_def intro!: wf_foldl_mput)
  qed
  from ok have "dc_complete (final_document S shuffle O' start now mode scope u engine_metrics checkpoint r s)"
    by (auto simp: run_result_def Let_def split: if_splits option.splits)
  then have full: "dc_complete (report_Snapshot S shuffle now mode scope (ro_Follow O' \<or> \<not> ro_files O') u (final_metrics r engine_metrics s) checkpoint
      (report_calls S (final_calls r s) (report_New start (int (ro_retain O')))))" by (simp only: final_document_def)
  from iffD1 [OF report_complete_iff [OF wf] full] have C: "\<not> (ro_Follow O' \<or> \<not> ro_files O')" "gapped S (final_calls r s) = []"
    "int (length (added (final_calls r s))) \<le> max 1 (int (ro_retain O'))"
    "\<forall>e \<in> set (added (final_calls r s)). \<not> ev_Truncated e \<and> \<not> ev_ParseUncertain e \<and> Importance (ev_Judgment e) \<noteq> ''unknown''"
    by blast+
  from C(2) have none: "re_collected r = None" "re_analysis r = None" "gapped S (pl_calls s) = []"
    by (auto simp: final_calls_def split: if_splits)
  then have calls: "final_calls r s = pl_calls s" by (simp add: final_calls_def)
  have drops: "drop_gaps (pl_calls s) = 0" using none(3) by (rule no_gap_no_drop)
  from P ended none have "handed c s []" by (simp add: pipe_ok_def flow_ok_def)
  then have all: "list_all2 (settled_as c) (pl_admitted s) (pl_emitted s)" by (auto simp: handed_def)
  show ?thesis using C calls none P drops all list_all2_lengthD [OF all]
    by (auto simp: pipe_ok_def list_all_iff)
qed

definition file_options :: run_options where
  "file_options = sample_options\<lparr>ro_Follow := False\<rparr>"

definition file_steps :: "pipe_step list" where
  "file_steps = [Admit (empty_event\<lparr>ev_ID := ''a''\<rparr>) False True, Receive, CloseInput, JudgeBatch sample_batch True, Emit sample_answers, EndPhase]"

definition clean_end :: run_end where
  "clean_end = \<lparr>re_report = None, re_json = None, re_summary = None, re_command = None, re_collected = None, re_analysis = None, re_background = None\<rparr>"

definition file_run :: "pipeline option" where
  "file_run = pipe_run sample_std file_options offline_config file_steps (pipe_start file_options (sample_grouper, None))"

definition file_document :: "pipeline \<Rightarrow> document" where
  "file_document s = final_document sample_std (\<lambda>x. x) file_options zero_time zero_time ''offline-rules'' JNull usage0 [] JNull clean_end s"

lemma file_run_succeeds:
  "(case file_run of None \<Rightarrow> False | Some s \<Rightarrow> (case pl_engine s of Ended None \<Rightarrow> True | _ \<Rightarrow> False) \<and>
     (case run_result file_options clean_end s (file_document s) of None \<Rightarrow> True | Some f \<Rightarrow> False))"
  by code_simp

theorem success_means_complete_witness:
  "\<exists>s. file_run = Some s \<and> length (pl_emitted s) = length (pl_admitted s) \<and> pl_dropped s = []"
proof -
  from file_run_succeeds obtain s where s: "file_run = Some s" and e: "pl_engine s = Ended (re_analysis clean_end)"
    and n: "run_result file_options clean_end s (file_document s) = None"
    by (auto split: option.splits engine_phase.splits simp: clean_end_def)
  have "\<forall>l. snd (sample_grouper, None :: learning option) = Some l \<longrightarrow> learning_ok l" by simp
  from success_means_complete [OF s [unfolded file_run_def] this e n [unfolded file_document_def]] s show ?thesis by blast
qed

theorem wait_for_state_returns_witness:
  "\<exists>s' ap st blocked. waitForState 3 (\<lambda>n. if n = 2 then Some DeadlineExceeded else None) (\<lambda>n s. (s, applied0, Some ErrBackpressure)) () =
     Some (s', ap, st, blocked) \<and> st \<noteq> Some ErrBackpressure"
proof -
  have "\<forall>n. (if n = 2 then Some DeadlineExceeded else None) \<noteq> Some ErrBackpressure" by simp
  from wait_for_state_returns [OF this, of 2 DeadlineExceeded 3 "\<lambda>n s. (s, applied0, Some ErrBackpressure)" "()"] show ?thesis by auto
qed

end
