(* ===== verification/Options.thy ===== *)
theory Options
  imports Runner Collector
begin

text \<open>
  \<open>internal/cli/cli.go\<close>: the options of a command, their validation before any input, configuration or credential is
  opened, and the configurations of the other components made from them.  Cobra's flag parsing is not modelled: a
  command has a name and the set of flags the user changed, and \<open>--since\<close>, \<open>--duration\<close> and \<open>--discovery-interval\<close> arrive as
  Cobra parsed them.
\<close>

section \<open>Durations\<close>

text \<open>\<open>strconv.ParseInt(s, 10, 64)\<close>: an optional sign and decimal digits within 64 bits.\<close>

definition digits_value :: "string \<Rightarrow> int" where
  "digits_value ds = foldl (\<lambda>n c. n * 10 + (int (byte c) - 48)) 0 ds"

definition parse_int64 :: "string \<Rightarrow> int option" where
  "parse_int64 s =
     (let neg = HasPrefix s ''-''; ds = (if neg \<or> HasPrefix s ''+'' then drop 1 s else s);
          v = (if neg then - digits_value ds else digits_value ds) in
      if ds = [] \<or> \<not> list_all is_digit ds \<or> v < - (2 ^ 63) \<or> 2 ^ 63 \<le> v then None else Some v)"

definition unit_factor :: "char \<Rightarrow> int option" where
  "unit_factor c = (if c = CHR ''s'' then Some 1 else if c = CHR ''m'' then Some 60 else if c = CHR ''h'' then Some 3600
     else if c = CHR ''d'' then Some 86400 else None)"

definition seconds :: "string \<Rightarrow> int result" where
  "seconds s0 =
     (let (s, factor) = (if s0 = [] then (s0, 1)
            else case unit_factor (last s0) of None \<Rightarrow> (s0, 1) | Some f \<Rightarrow> (butlast s0, f)) in
      case parse_int64 s of
        None \<Rightarrow> Inl (Err ''invalid --since duration'')
      | Some n \<Rightarrow> (if n < 0 \<or> 31536000 div factor < n then Inl (Err ''invalid --since duration'') else Inr (n * factor)))"

section \<open>Options\<close>

record options =
  op_workers :: int
  op_top :: int
  op_humanRules :: string
  op_templateModel :: string
  op_templateInput :: f64
  op_templateOutput :: f64
  op_templateCost :: f64
  op_templateConfidence :: f64
  op_templateRequests :: int
  op_templateSamples :: int
  op_templateCapacity :: int
  op_templateTTL :: int
  op_tui :: bool
  op_offline :: bool
  op_json :: bool
  op_noGrouping :: bool
  op_adaptive :: bool
  op_budgeted :: bool
  op_grouping :: string
  op_masking :: string
  op_risk :: string
  op_model :: string
  op_output :: string
  op_rules :: string
  op_templateProvider :: string
  op_batch :: int
  op_maxBatches :: int
  op_maxEvents :: int
  op_queue :: int
  op_retain :: int
  op_capacity :: int
  op_ttl :: int
  op_normalInterval :: int
  op_maxAttempts :: int
  op_maxCost :: f64
  op_inputPrice :: f64
  op_outputPrice :: f64
  op_reviewIDs :: "string list"
  op_k :: kube_config
  op_inspectPort :: int

record command =
  cm_Name :: string
  cm_Changed :: "string list"
  cm_discovery_interval :: int
  cm_since :: string
  cm_duration :: int
  cm_unsupported :: "string list"

text \<open>The flags kept for compatibility only; \<open>cm_unsupported\<close> is the order the map that holds them is walked in.\<close>

definition unsupported_flags :: "string list" where
  "unsupported_flags = [''drain-sample-rate'', ''drain-uncertain-ttl'', ''drain-max-cost'']"

section \<open>Configurations\<close>

text \<open>\<open>int64\<close> arithmetic: \<open>time.Duration(n) * time.Second\<close> wraps.\<close>

definition wrap64 :: "int \<Rightarrow> int" where
  "wrap64 i = (i + 2 ^ 63) mod 2 ^ 64 - 2 ^ 63"

definition providerConfig :: "options \<Rightarrow> config" where
  "providerConfig o' = \<lparr>MaxBatches = nat (op_maxBatches o'), Kind = op_risk o', Model = op_model o', InputPrice = op_inputPrice o',
     OutputPrice = op_outputPrice o', MaxCost = op_maxCost o', MaxAttempts = nat (min (op_maxAttempts o') (op_maxBatches o' * 3))\<rparr>"

definition templateConfig :: "options \<Rightarrow> config" where
  "templateConfig o' = \<lparr>MaxBatches = 0, Kind = op_templateProvider o', Model = op_templateModel o', InputPrice = op_templateInput o',
     OutputPrice = op_templateOutput o', MaxCost = op_templateCost o', MaxAttempts = nat (op_templateRequests o')\<rparr>"

text \<open>The reviewer, the rules and the teacher are filled in by \<open>runWith\<close>.\<close>

definition analysisConfig :: "options \<Rightarrow> engine_config" where
  "analysisConfig o' = \<lparr>ec_HumanReview = None, ec_Teacher = False, ec_TemplateMinSamples = nat (op_templateSamples o'),
     ec_TemplateCapacity = nat (op_templateCapacity o'), ec_TemplateConfidence = op_templateConfidence o',
     ec_TemplateTTL = wrap64 (op_templateTTL o' * second), ec_Offline = op_offline o', ec_Strategy = op_grouping o', ec_Masking = op_masking o',
     ec_Capacity = nat (op_capacity o'), ec_BatchSize = nat (min 64 (op_batch o' * op_workers o')), ec_TTL = wrap64 (op_ttl o' * second),
     ec_Adaptive = op_adaptive o', ec_NormalInterval = nat (op_normalInterval o' mod 2 ^ 64), ec_ReviewIDs = op_reviewIDs o',
     ec_Rules = None\<rparr>"

section \<open>Validation\<close>

definition finite_nonneg :: "f64 \<Rightarrow> bool" where
  "finite_nonneg v = (case v of Fin q \<Rightarrow> 0 \<le> q | _ \<Rightarrow> False)"

definition changed :: "command \<Rightarrow> string \<Rightarrow> bool" where
  "changed c flag = (flag \<in> set (cm_Changed c))"

text \<open>The aliases \<open>validate\<close> resolves in the options themselves.\<close>

definition resolve_aliases :: "options \<Rightarrow> options" where
  "resolve_aliases o' =
     (let o1 = (if op_noGrouping o' then o'\<lparr>op_grouping := ''off''\<rparr> else o');
          o2 = (if op_grouping o1 = ''learned'' then o1\<lparr>op_grouping := ''semantic''\<rparr> else o1) in
      if op_risk o2 = ''jev'' then o2\<lparr>op_risk := ''typesafe''\<rparr> else o2)"

definition validate_template :: "command \<Rightarrow> options \<Rightarrow> status" where
  "validate_template c o' =
     (if op_templateProvider o' = ''off'' then None
      else if op_templateProvider o' \<noteq> ''openai'' \<and> op_templateProvider o' \<noteq> ''anthropic'' then Some (Err ''invalid template provider'')
      else if op_grouping o' \<noteq> ''semantic'' \<and> op_grouping o' \<noteq> ''learned'' \<and> \<not> (op_grouping o' = ''drain'' \<and> op_masking o' = ''classic'')
        then Some (Err ''template learning requires semantic or classic drain grouping'')
      else if \<not> changed c ''template-model'' \<or> \<not> changed c ''template-input-price'' \<or> \<not> changed c ''template-output-price''
        then Some (Err ''template provider requires explicit model and prices'')
      else case Config_Validate (templateConfig o') of
        Some e \<Rightarrow> Some e
      | None \<Rightarrow>
          (if op_templateSamples o' < 2 \<or> 16 < op_templateSamples o' \<or> op_templateCapacity o' < 1 \<or> 256 < op_templateCapacity o' \<or>
              op_templateTTL o' < 1 \<or> 3600 < op_templateTTL o' \<or> \<not> f64_in (Fin 0) (Fin 1) (op_templateConfidence o')
           then Some (Err ''invalid template learning bounds'') else None))"

definition validate_bounds :: "command \<Rightarrow> options \<Rightarrow> status" where
  "validate_bounds c o' =
     (if op_maxEvents o' < 0 \<or> (op_maxEvents o' = 0 \<and> cm_Name c \<noteq> ''controller'') \<or> 10000000 < op_maxEvents o' \<or> op_queue o' < 1 \<or>
         65536 < op_queue o' \<or> op_retain o' < 1 \<or> 100000 < op_retain o' \<or> op_maxBatches o' < 1 \<or> 100000 < op_maxBatches o' \<or>
         kc_MaxBytes (op_k o') < 1 \<or> 2 ^ 30 < kc_MaxBytes (op_k o')
      then Some (Err ''invalid collection or queue bounds'')
      else if op_inspectPort o' < 0 \<or> 65535 < op_inspectPort o' then Some (Err ''invalid inspection port'')
      else if op_budgeted o' \<and> \<not> op_adaptive o' then Some (Err ''budgeted scheduling requires --drain-adaptive'')
      else if 0 < length (op_reviewIDs o') \<and> \<not> op_adaptive o' then Some (Err ''review veto requires adaptive scheduling'')
      else if \<not> list_all finite_nonneg [op_maxCost o', op_inputPrice o', op_outputPrice o'] then Some (Err ''invalid price or budget'')
      else if op_risk o' \<noteq> ''typesafe'' \<and> \<not> op_offline o' \<and> (\<not> changed c ''model'' \<or> \<not> changed c ''input-price'' \<or> \<not> changed c ''output-price'')
        then Some (Err ''selected provider requires explicit model and prices'')
      else case Config_Validate (providerConfig o') of
        Some e \<Rightarrow> Some e
      | None \<Rightarrow> Engine_Validate (analysisConfig o'))"

text \<open>The part of a cluster command; it writes the intervals into the collector's configuration.\<close>

definition validate_cluster :: "kube_syntax \<Rightarrow> command \<Rightarrow> options \<Rightarrow> options \<times> status" where
  "validate_cluster V c o0 =
     (if cm_discovery_interval c < 1 \<or> 3600 < cm_discovery_interval c then (o0, Some (Err ''invalid discovery interval''))
      else let o1 = o0\<lparr>op_k := (op_k o0)\<lparr>kc_DiscoveryInterval := cm_discovery_interval c * second\<rparr>\<rparr> in
        case seconds (cm_since c) of
          Inl e \<Rightarrow> (o1, Some e)
        | Inr n \<Rightarrow>
            (let o2 = o1\<lparr>op_k := (op_k o1)\<lparr>kc_Since := n\<rparr>\<rparr> in
             if cm_duration c < 0 \<or> 604800 < cm_duration c then (o2, Some (Err ''invalid duration''))
             else let o3 = o2\<lparr>op_k := (op_k o2)\<lparr>kc_Duration := cm_duration c * second\<rparr>\<rparr> in (o3, KubeConfig_Validate V (op_k o3))))"

definition options_validate :: "kube_syntax \<Rightarrow> command \<Rightarrow> bool \<Rightarrow> options \<Rightarrow> options \<times> status" where
  "options_validate V c cluster o0 =
     (if op_tui o0 \<and> (op_json o0 \<or> cm_Name c = ''controller'') then (o0, Some (Err ''--tui requires files or k8s and conflicts with --json''))
      else if op_workers o0 < 1 \<or> 16 < op_workers o0 \<or> op_batch o0 < 1 \<or> 64 < op_batch o0 \<or> op_top o0 < 0 \<or> 100000 < op_top o0
        then (o0, Some (Err ''invalid worker or display bounds''))
      else let o1 = resolve_aliases o0 in
        if op_rules o1 \<noteq> [] \<and> op_grouping o1 \<noteq> ''semantic'' then (o1, Some (Err ''reviewed rules require semantic grouping''))
        else case filter (changed c) (cm_unsupported c) of
          name # _ \<Rightarrow>
            (o1, Some (Err (''--'' @ name @ '' is available in the native dashboard; use dashboard or files/k8s --tui; see docs/usage.md'')))
        | [] \<Rightarrow> case validate_template c o1 of
          Some e \<Rightarrow> (o1, Some e)
        | None \<Rightarrow>
            (case validate_bounds c o1 of
               Some e \<Rightarrow> (o1, Some e)
             | None \<Rightarrow>
                 (case (if cluster then validate_cluster V c o1 else (o1, None)) of
                    (o2, Some e) \<Rightarrow> (o2, Some e)
                  | (o2, None) \<Rightarrow> (o2, if CHR 0x00 \<in> set (op_output o2) then Some (Err ''invalid output path'') else None))))"

text \<open>The options of a run, as \<open>runWith\<close> uses them.\<close>

definition run_options_of :: "options \<Rightarrow> bool \<Rightarrow> bool \<Rightarrow> bool \<Rightarrow> bool \<Rightarrow> (string, string) gomap \<Rightarrow> (json \<Rightarrow> string) \<Rightarrow> run_options" where
  "run_options_of o' files store update silent names sprint =
     \<lparr>ro_Follow = kc_Follow (op_k o'), ro_files = files, ro_json = op_json o', ro_quiet = silent, ro_update = update, ro_store = store,
      ro_client = (\<not> op_offline o'), ro_maxEvents = nat (op_maxEvents o'), ro_queue = nat (op_queue o'), ro_retain = nat (op_retain o'),
      ro_maxBatches = nat (op_maxBatches o'), ro_MaxAttempts = MaxAttempts (providerConfig o'), ro_names = names, ro_sprint = sprint\<rparr>"

section \<open>The view of a run in progress\<close>

text \<open>
  \<open>snapshotView\<close>: the retained events, then the pending ones that are not among them, in the order of their keys; the
  newest \<open>retain\<close> of these.
\<close>

fun add_unseen :: "event list \<Rightarrow> string list \<Rightarrow> event list \<Rightarrow> event list" where
  "add_unseen [] seen acc = acc"
| "add_unseen (e # es) seen acc =
     (if ev_ID e \<in> set seen then add_unseen es seen acc else add_unseen es (ev_ID e # seen) (acc @ [e]))"

definition pending_in_order :: "(string, event) gomap \<Rightarrow> event list" where
  "pending_in_order pending = map (\<lambda>k. the (mget pending k)) (sort (map fst pending))"

definition view_tail :: "nat \<Rightarrow> event list \<Rightarrow> (string, event) gomap \<Rightarrow> event list" where
  "view_tail retain retained pending =
     (let all = add_unseen (pending_in_order pending) (map ev_ID retained) retained in drop (length all - retain) all)"

lemma add_unseen_shape:
  "\<exists>new. add_unseen es seen acc = acc @ new \<and> set new \<subseteq> set es \<and> distinct (map ev_ID new) \<and> ev_ID ` set new \<inter> set seen = {}
    \<and> ev_ID ` set new \<union> set seen = ev_ID ` set es \<union> set seen"
proof (induction es arbitrary: seen acc)
  case Nil
  then show ?case by simp
next
  case (Cons e es)
  show ?case
  proof (cases "ev_ID e \<in> set seen")
    case True
    with Cons [of seen acc] show ?thesis by auto
  next
    case False
    from Cons [of "ev_ID e # seen" "acc @ [e]"] obtain new where
      "add_unseen es (ev_ID e # seen) (acc @ [e]) = (acc @ [e]) @ new" "set new \<subseteq> set es" "distinct (map ev_ID new)"
      "ev_ID ` set new \<inter> set (ev_ID e # seen) = {}" "ev_ID ` set new \<union> set (ev_ID e # seen) = ev_ID ` set es \<union> set (ev_ID e # seen)"
      by blast
    with False show ?thesis by (intro exI [of _ "e # new"]) auto
  qed
qed

text \<open>The view is bounded, repeats no event, and does not depend on the order the map of pending events is walked in.\<close>

lemma view_tail_bounded: "length (view_tail retain retained pending) \<le> retain"
  by (simp add: view_tail_def Let_def)

lemma view_tail_distinct:
  assumes "distinct (map ev_ID retained)"
  shows "distinct (map ev_ID (view_tail retain retained pending))"
proof -
  obtain new where "add_unseen (pending_in_order pending) (map ev_ID retained) retained = retained @ new"
    "distinct (map ev_ID new)" "ev_ID ` set new \<inter> set (map ev_ID retained) = {}"
    using add_unseen_shape [of "pending_in_order pending" "map ev_ID retained" retained] by blast
  with assms have "distinct (map ev_ID (add_unseen (pending_in_order pending) (map ev_ID retained) retained))" by auto
  then show ?thesis by (simp add: view_tail_def Let_def drop_map [symmetric] distinct_drop del: map_append)
qed

lemma pending_order_free:
  assumes "mset pending = mset pending'" and "distinct (map fst pending)"
  shows "pending_in_order pending = pending_in_order pending'"
proof -
  have "mset (map fst pending) = mset (map fst pending')" using assms(1) by simp
  then have "sort (map fst pending) = sort (map fst pending')" by (metis mset_sort properties_for_sort sorted_sort)
  moreover have "map_of pending = map_of pending'"
    using assms by (metis map_of_eqI mset_eq_imp_distinct_iff mset_map set_mset_mset map_of_inject_set)
  ultimately show ?thesis by (simp add: pending_in_order_def)
qed

section \<open>Durations are read back\<close>

lemma digits_value_append: "digits_value (a @ [c]) = digits_value a * 10 + (int (byte c) - 48)"
  by (simp add: digits_value_def)

lemma byte_digit: "n < 10 \<Longrightarrow> byte (char_of (48 + n)) = 48 + n"
  by (simp add: byte_def)

lemma show_nat_digits: "show_nat n \<noteq> [] \<and> list_all is_digit (show_nat n) \<and> digits_value (show_nat n) = int n"
proof (induction n rule: show_nat.induct)
  case (1 n)
  show ?case
  proof (cases "n < 10")
    case True
    then show ?thesis
      by (simp add: show_nat.simps [of n] digits_value_def byte_digit is_digit_def)
  next
    case False
    have "byte (char_of (48 + n mod 10)) = 48 + n mod 10" by (rule byte_digit) simp
    moreover have "int (n div 10) * 10 + int (n mod 10) = int n" by presburger
    moreover have "n mod 10 \<le> 9" by simp
    ultimately show ?thesis using 1 False by (simp add: show_nat.simps [of n] digits_value_append is_digit_def)
  qed
qed

lemma digit_sign: "is_digit c \<Longrightarrow> c \<noteq> CHR ''-'' \<and> c \<noteq> CHR ''+''"
  by (auto simp: is_digit_def byte_def)

lemma parse_int64_show: "int n < 2 ^ 63 \<Longrightarrow> parse_int64 (show_nat n) = Some (int n)"
proof -
  assume n: "int n < 2 ^ 63"
  obtain c cs where s: "show_nat n = c # cs" using show_nat_digits [of n] by (cases "show_nat n") auto
  with show_nat_digits [of n] have "c \<noteq> CHR ''-''" "c \<noteq> CHR ''+''" using digit_sign [of c] by auto
  then have "\<not> HasPrefix (show_nat n) ''-''" "\<not> HasPrefix (show_nat n) ''+''" by (simp_all add: HasPrefix_def s)
  with show_nat_digits [of n] n show ?thesis by (simp add: parse_int64_def Let_def)
qed

text \<open>
  The history window a user writes is the window that is used: a number with one of the units reads back as that many
  seconds, and a window of more than a year, which no multiplication could overflow into a smaller one, is refused.
\<close>

theorem seconds_reads_back:
  assumes "unit_factor u = Some f" and "int n < 2 ^ 63"
  shows "seconds (show_nat n @ [u]) =
    (if int n * f \<le> 31536000 \<or> int n \<le> 31536000 div f then Inr (int n * f) else Inl (Err ''invalid --since duration''))"
proof -
  have f: "f \<in> {1, 60, 3600, 86400}" using assms(1) by (auto simp: unit_factor_def split: if_splits)
  then have "int n * f \<le> 31536000 \<longleftrightarrow> int n \<le> 31536000 div f" by auto
  with assms parse_int64_show [of n] show ?thesis by (simp add: seconds_def Let_def)
qed

theorem seconds_reads_back_witness:
  "seconds (show_nat 90 @ ''m'') = Inr 5400 \<and> seconds (show_nat 400 @ ''d'') = Inl (Err ''invalid --since duration'')"
  using seconds_reads_back [of "CHR ''m''" 60 90] seconds_reads_back [of "CHR ''d''" 86400 400] by (simp add: unit_factor_def)

section \<open>Validated options bound the run\<close>

text \<open>A chain of guards that returned no error passed them all.\<close>

lemma guard_none: "(if A then Some e else R) = None \<longleftrightarrow> \<not> A \<and> R = None"
  by simp

lemma guard_status: "(case r of None \<Rightarrow> R | Some e \<Rightarrow> Some (f e)) = None \<longleftrightarrow> r = None \<and> R = None"
  by (cases r) simp_all

lemma validate_bounds_none:
  assumes "validate_bounds c o' = None"
  shows "0 \<le> op_maxEvents o'" "op_maxEvents o' \<le> 10000000" "op_maxEvents o' = 0 \<Longrightarrow> cm_Name c = ''controller''"
    "1 \<le> op_queue o'" "op_queue o' \<le> 65536" "1 \<le> op_retain o'" "op_retain o' \<le> 100000" "1 \<le> op_maxBatches o'"
    "op_maxBatches o' \<le> 100000" "Config_Validate (providerConfig o') = None" "Engine_Validate (analysisConfig o') = None"
  using assms unfolding validate_bounds_def guard_none guard_status by (simp_all only: de_Morgan_disj not_less not_le) auto

lemma Config_Validate_none:
  assumes "Config_Validate p = None"
  shows "price_ok (MaxCost p)" "price_ok (InputPrice p)" "price_ok (OutputPrice p)" "1 \<le> MaxAttempts p" "MaxAttempts p \<le> 100000"
  using assms unfolding Config_Validate_def guard_none by (simp_all add: not_less)

lemma Engine_Validate_none:
  assumes "Engine_Validate a = None"
  shows "1 \<le> ec_BatchSize a" "ec_BatchSize a \<le> 64" "0 < ec_TTL a" "ec_TTL a \<le> 7 * 24 * 3600 * second"
  using assms unfolding Engine_Validate_def guard_none by (simp_all add: not_less not_le)

lemma KubeConfig_Validate_none:
  assumes "KubeConfig_Validate V k = None"
  shows "0 \<le> kc_Since k" "kc_Since k \<le> 31536000"
  using assms unfolding KubeConfig_Validate_def guard_none by (simp_all add: not_less)

lemma options_validate_cases:
  assumes "options_validate V c cluster o0 = (o', None)"
  shows "validate_bounds c (resolve_aliases o0) = None
    \<and> (if cluster then validate_cluster V c (resolve_aliases o0) else (resolve_aliases o0, None)) = (o', None)"
  using assms by (simp add: options_validate_def Let_def split: if_split_asm option.splits prod.splits list.splits)

lemma validate_cluster_cases:
  assumes "validate_cluster V c o1 = (o', None)"
  obtains n where "seconds (cm_since c) = Inr n" "1 \<le> cm_discovery_interval c" "cm_discovery_interval c \<le> 3600" "0 \<le> cm_duration c"
    "cm_duration c \<le> 604800" "KubeConfig_Validate V (op_k o') = None"
    "o' = o1\<lparr>op_k := (op_k o1)\<lparr>kc_DiscoveryInterval := cm_discovery_interval c * second, kc_Since := n, kc_Duration := cm_duration c * second\<rparr>\<rparr>"
  using assms by (auto simp: validate_cluster_def Let_def split: if_splits sum.splits)

lemma validate_cluster_same:
  assumes "validate_cluster V c o1 = (o', None)"
  shows "providerConfig o' = providerConfig o1" "analysisConfig o' = analysisConfig o1" "op_queue o' = op_queue o1"
    "op_retain o' = op_retain o1" "op_maxEvents o' = op_maxEvents o1"
  by (rule validate_cluster_cases [OF assms]; simp add: providerConfig_def analysisConfig_def)+

lemma validate_cluster_bounds:
  assumes "validate_cluster V c o1 = (o', None)"
  shows "0 \<le> kc_Since (op_k o') \<and> kc_Since (op_k o') \<le> 31536000 \<and> 0 \<le> kc_Duration (op_k o') \<and>
    kc_Duration (op_k o') \<le> 604800 * second \<and> second \<le> kc_DiscoveryInterval (op_k o') \<and> kc_DiscoveryInterval (op_k o') \<le> hour"
proof (rule validate_cluster_cases [OF assms])
  fix n
  assume d: "1 \<le> cm_discovery_interval c" "cm_discovery_interval c \<le> 3600" "0 \<le> cm_duration c" "cm_duration c \<le> 604800"
    and k: "KubeConfig_Validate V (op_k o') = None"
    and o': "o' = o1\<lparr>op_k := (op_k o1)\<lparr>kc_DiscoveryInterval := cm_discovery_interval c * second, kc_Since := n, kc_Duration := cm_duration c * second\<rparr>\<rparr>"
  have "kc_Duration (op_k o') = cm_duration c * second" "kc_DiscoveryInterval (op_k o') = cm_discovery_interval c * second"
    by (simp_all add: o')
  with d KubeConfig_Validate_none [OF k] show ?thesis by (simp add: second_def hour_def)
qed

text \<open>
  C36: Options that pass validation bound everything a run does: the queue, the retained events, the number of events
  (without limit only for the controller), the batches and the provider's batches and attempts, finite prices and
  budget, the lifetime of verdicts, and for a cluster its history window, its duration and its discovery interval.
\<close>

theorem validated_options_bound_the_run:
  assumes "options_validate V c cluster o0 = (o', None)"
  shows "(let O' = run_options_of o' files store update silent names sprint; p = providerConfig o'; a = analysisConfig o' in
      1 \<le> ro_queue O' \<and> ro_queue O' \<le> 65536 \<and> 1 \<le> ro_retain O' \<and> ro_retain O' \<le> 100000 \<and> ro_maxEvents O' \<le> 10000000 \<and>
      (ro_maxEvents O' = 0 \<longrightarrow> cm_Name c = ''controller'') \<and>
      1 \<le> MaxBatches p \<and> MaxBatches p \<le> 100000 \<and> 1 \<le> MaxAttempts p \<and> MaxAttempts p \<le> 3 * MaxBatches p \<and> MaxAttempts p \<le> 100000 \<and>
      price_ok (MaxCost p) \<and> price_ok (InputPrice p) \<and> price_ok (OutputPrice p) \<and>
      1 \<le> ec_BatchSize a \<and> ec_BatchSize a \<le> 64 \<and> 0 < ec_TTL a \<and> ec_TTL a \<le> 7 * 24 * 3600 * second) \<and>
    (cluster \<longrightarrow> 0 \<le> kc_Since (op_k o') \<and> kc_Since (op_k o') \<le> 31536000 \<and> 0 \<le> kc_Duration (op_k o') \<and>
      kc_Duration (op_k o') \<le> 604800 * second \<and> second \<le> kc_DiscoveryInterval (op_k o') \<and> kc_DiscoveryInterval (op_k o') \<le> hour)"
proof -
  let ?o1 = "resolve_aliases o0"
  note cases = options_validate_cases [OF assms]
  note b = validate_bounds_none [OF cases [THEN conjunct1]]
  note cl = cases [THEN conjunct2]
  have same: "providerConfig o' = providerConfig ?o1" "analysisConfig o' = analysisConfig ?o1" "op_queue o' = op_queue ?o1"
    "op_retain o' = op_retain ?o1" "op_maxEvents o' = op_maxEvents ?o1"
    using validate_cluster_same [of V c ?o1 o'] cl by (simp_all split: if_splits)
  have attempts: "MaxAttempts (providerConfig ?o1) \<le> 3 * MaxBatches (providerConfig ?o1)" "1 \<le> MaxBatches (providerConfig ?o1)"
    "MaxBatches (providerConfig ?o1) \<le> 100000"
    using b(8,9) by (simp_all add: providerConfig_def)
  have run: "1 \<le> nat (op_queue ?o1)" "nat (op_queue ?o1) \<le> 65536" "1 \<le> nat (op_retain ?o1)" "nat (op_retain ?o1) \<le> 100000"
    "nat (op_maxEvents ?o1) \<le> 10000000" "nat (op_maxEvents ?o1) = 0 \<longrightarrow> cm_Name c = ''controller''"
    using b(1-7) by simp_all
  have kube: "cluster \<Longrightarrow> validate_cluster V c ?o1 = (o', None)" using cl by simp
  show ?thesis
    unfolding Let_def run_options_of_def run_options.simps same
    using run attempts Config_Validate_none [OF b(10)] Engine_Validate_none [OF b(11)] validate_cluster_bounds [OF kube] by simp
qed


text \<open>The defaults of \<open>k8s\<close>.\<close>

definition default_options :: options where
  "default_options = \<lparr>op_workers = 1, op_top = 0, op_humanRules = [], op_templateModel = [], op_templateInput = Fin 0,
     op_templateOutput = Fin 0, op_templateCost = Fin (1 / 20), op_templateConfidence = Fin (17 / 20), op_templateRequests = 10,
     op_templateSamples = 4, op_templateCapacity = 64, op_templateTTL = 300, op_tui = False, op_offline = False, op_json = False,
     op_noGrouping = False, op_adaptive = False, op_budgeted = False, op_grouping = ''exact'', op_masking = ''strict'',
     op_risk = ''typesafe'', op_model = ''jev-latest'', op_output = [], op_rules = [], op_templateProvider = ''off'', op_batch = 8,
     op_maxBatches = 500, op_maxEvents = 100000, op_queue = 1024, op_retain = 2000, op_capacity = 256, op_ttl = 300,
     op_normalInterval = 1024, op_maxAttempts = 1500, op_maxCost = Fin (1 / 4), op_inputPrice = Fin (21 / 500), op_outputPrice = Fin 0,
     op_reviewIDs = [], op_k = \<lparr>kc_SnapshotWorkers = 1, kc_DiscoveryInterval = 0, kc_Context = [], kc_Namespace = [],
       kc_Selector = [], kc_Pod = [], kc_InCluster = False, kc_Follow = False, kc_NoPrevious = False, kc_Since = 0, kc_Tail = 500,
       kc_MaxBytes = 33554432, kc_MaxStreams = 64, kc_Duration = 0\<rparr>, op_inspectPort = 0\<rparr>"

definition k8s_command :: command where
  "k8s_command = \<lparr>cm_Name = ''k8s'', cm_Changed = [], cm_discovery_interval = 5, cm_since = ''1h'', cm_duration = 0, cm_unsupported = unsupported_flags\<rparr>"

definition any_syntax :: kube_syntax where
  "any_syntax = \<lparr>is_dns_label = (\<lambda>_. True), is_dns_subdomain = (\<lambda>_. True), parses_selector = (\<lambda>_. True)\<rparr>"

lemma default_options_valid:
  "options_validate any_syntax k8s_command True default_options =
    (default_options\<lparr>op_k := (op_k default_options)\<lparr>kc_DiscoveryInterval := 5 * second, kc_Since := 3600, kc_Duration := 0\<rparr>\<rparr>, None)"
  by code_simp

theorem validated_options_bound_the_run_witness:
  "(let o' = fst (options_validate any_syntax k8s_command True default_options);
       O' = run_options_of o' False False False False [] (\<lambda>_. []); p = providerConfig o' in
      ro_queue O' \<le> 65536 \<and> ro_maxEvents O' \<le> 10000000 \<and> 1 \<le> MaxAttempts p \<and> MaxAttempts p \<le> 3 * MaxBatches p \<and>
      kc_Since (op_k o') \<le> 31536000 \<and> second \<le> kc_DiscoveryInterval (op_k o'))"
  using validated_options_bound_the_run [OF default_options_valid, of False False False False "[]" "\<lambda>_. []"]
  unfolding default_options_valid Let_def fst_conv by blast

text \<open>
  The product with \<open>time.Second\<close> is taken before its bounds are checked: a lifetime of 584 years wraps to under a third of a
  second and passes as a valid one.
\<close>

lemma ttl_overflow_accepted:
  "snd (options_validate any_syntax k8s_command True (default_options\<lparr>op_ttl := 18446744074\<rparr>)) = None \<and>
    ec_TTL (analysisConfig (default_options\<lparr>op_ttl := 18446744074\<rparr>)) = 290448384 \<and>
    snd (options_validate any_syntax k8s_command True (default_options\<lparr>op_ttl := 604801\<rparr>)) = Some (Err ''invalid analysis bounds'')"
  by code_simp

end
