(* ===== verification/Utf8.thy ===== *)
theory Utf8
  imports GoText
begin

text \<open>
  UTF-8 as the terminal and the editor rely on it: a valid rune is decoded from its own bytes whatever follows,
  so text put together from valid runes falls apart into exactly these, and decoding undoes encoding.
\<close>

text \<open>A rune with its bytes that decodes to itself in front of any text.\<close>

definition solid :: "nat \<times> string \<times> bool \<Rightarrow> bool" where
  "solid c = (case c of (r, b, v) \<Rightarrow> v \<and> b \<noteq> [] \<and> \<not> (r = RuneError \<and> length b = 1) \<and> (\<forall>t. DecodeRune (b @ t) = (r, length b)))"

lemma rune_chunks_solid_Cons: "solid (r, b, v) \<Longrightarrow> rune_chunks (b @ t) = (r, b, v) # rune_chunks t"
  by (simp add: solid_def rune_chunks.simps [of "b @ t"])

lemma rune_chunks_solid: "list_all solid cs \<Longrightarrow> rune_chunks (unchunk cs) = cs"
proof (induction cs)
  case Nil
  then show ?case by (simp add: unchunk_def)
next
  case (Cons c cs)
  obtain r b v where c: "c = (r, b, v)" by (metis prod_cases3)
  have "unchunk (c # cs) = b @ unchunk cs" by (simp add: unchunk_def c)
  moreover have "solid (r, b, v)" using Cons.prems c by simp
  ultimately show ?case using Cons c by (simp add: rune_chunks_solid_Cons [of r b v])
qed

lemma DecodeRune_prefix:
  assumes "DecodeRune s = (r, w)" and "s \<noteq> []" and "\<not> (r = RuneError \<and> w = 1)"
  shows "DecodeRune (take w s @ t) = (r, w) \<and> length (take w s) = w"
proof (cases s)
  case Nil
  with assms(2) show ?thesis by simp
next
  case s: (Cons c0 s0)
  show ?thesis
  proof (cases s0)
    case Nil
    with s assms show ?thesis by (auto simp: Let_def split: if_splits)
  next
    case s0: (Cons c1 s1)
    show ?thesis
    proof (cases s1)
      case Nil
      with s s0 assms show ?thesis by (auto simp: Let_def split: if_splits)
    next
      case s1: (Cons c2 s2)
      show ?thesis
      proof (cases s2)
        case Nil
        with s s0 s1 assms show ?thesis by (auto simp: Let_def split: if_splits)
      next
        case (Cons c3 s3)
        with s s0 s1 assms show ?thesis by (auto simp: Let_def split: if_splits)
      qed
    qed
  qed
qed

lemma rune_chunks_valid: "c \<in> set (rune_chunks s) \<Longrightarrow> snd (snd c) \<Longrightarrow> solid c"
proof (induction s rule: rune_chunks.induct)
  case (1 s)
  show ?case
  proof (cases "s = []")
    case True
    with 1 show ?thesis by simp
  next
    case False
    obtain r w where rw: "DecodeRune s = (r, w)" by (cases "DecodeRune s")
    from 1(2) False rw have "c = (r, take w s, \<not> (r = RuneError \<and> w = 1)) \<or> c \<in> set (rune_chunks (drop w s))"
      by (simp add: rune_chunks.simps [of s])
    then show ?thesis
    proof
      assume c: "c = (r, take w s, \<not> (r = RuneError \<and> w = 1))"
      with 1(3) have ok: "\<not> (r = RuneError \<and> w = 1)" by simp
      have "w \<noteq> 0" using DecodeRune_width [OF False] rw by simp
      with c ok DecodeRune_prefix [OF rw False ok] False show ?thesis by (auto simp: solid_def)
    next
      assume "c \<in> set (rune_chunks (drop w s))"
      with 1(1) [OF False rw [symmetric] refl _ 1(3)] show ?thesis by blast
    qed
  qed
qed

lemma solid_ascii: "byte c < 128 \<Longrightarrow> solid (byte c, [c], True)"
  by (simp add: solid_def RuneError_def Let_def)

lemma solid_replacement: "solid (RuneError, replacement, True)"
  by (simp add: solid_def replacement_def RuneError_def Let_def byte_def cont_byte_def)

section \<open>Encoding and decoding\<close>

text \<open>A Unicode scalar value.\<close>

definition scalar :: "nat \<Rightarrow> bool" where
  "scalar r = (r < 55296 \<or> (57343 < r \<and> r \<le> 1114111))"

lemma byte_char_of [simp]: "n < 256 \<Longrightarrow> byte (char_of n) = n"
  by (simp add: byte_def)

lemma DecodeRune_EncodeRune:
  assumes "scalar r"
  shows "DecodeRune (EncodeRune r @ t) = (r, length (EncodeRune r))"
proof -
  consider "r < 128" | "128 \<le> r" "r < 2048" | "2048 \<le> r" "r < 65536" | "65536 \<le> r" "r \<le> 1114111"
    using assms by (fastforce simp: scalar_def)
  then show ?thesis
  proof cases
    case 1
    then show ?thesis by (simp add: EncodeRune_def Let_def)
  next
    case 2
    define a c where "a = r div 64" and "c = r mod 64"
    have lt: "2 \<le> a" "a < 32" "c < 64" and r: "r = a * 64 + c" using 2 by (auto simp: a_def c_def)
    from 2 have e: "EncodeRune r = [char_of (192 + a), char_of (128 + c)]" by (simp add: EncodeRune_def a_def c_def)
    show ?thesis unfolding e using lt r by (auto simp: Let_def cont_byte_def)
  next
    case 3
    define a b c where "a = r div 4096" and "b = r div 64 mod 64" and "c = r mod 64"
    have lt: "a < 16" "b < 64" "c < 64" using 3 by (auto simp: a_def b_def c_def)
    have "r = r div 64 * 64 + c" "r div 64 = r div 64 div 64 * 64 + b"
      unfolding b_def c_def by (rule div_mod_decomp)+
    moreover have "r div 64 div 64 = a" by (simp add: a_def div_mult2_eq [symmetric])
    ultimately have r: "r = a * 4096 + b * 64 + c" by linarith
    have lo: "a = 0 \<Longrightarrow> 32 \<le> b" using r 3 lt by auto
    have hi: "a = 13 \<Longrightarrow> b < 32" using r assms lt by (auto simp: scalar_def)
    have sur: "\<not> (55296 \<le> r \<and> r \<le> 57343)" "\<not> 1114111 < r" using assms 3 by (auto simp: scalar_def)
    from 3 sur have e: "EncodeRune r = [char_of (224 + a), char_of (128 + b), char_of (128 + c)]"
      by (auto simp: EncodeRune_def a_def b_def c_def)
    show ?thesis unfolding e using lt lo hi r by (auto simp: Let_def cont_byte_def)
  next
    case 4
    define a b c d where "a = r div 262144" and "b = r div 4096 mod 64" and "c = r div 64 mod 64" and "d = r mod 64"
    have lt: "a < 5" "b < 64" "c < 64" "d < 64" using 4 by (auto simp: a_def b_def c_def d_def)
    have "r = r div 64 * 64 + d" "r div 64 = r div 64 div 64 * 64 + c" "r div 4096 = r div 4096 div 64 * 64 + b"
      unfolding b_def c_def d_def by (rule div_mod_decomp)+
    moreover have "r div 64 div 64 = r div 4096" "r div 4096 div 64 = a" by (simp_all add: a_def div_mult2_eq [symmetric])
    ultimately have r: "r = a * 262144 + b * 4096 + c * 64 + d" by linarith
    have lo: "a = 0 \<Longrightarrow> 16 \<le> b" using r 4 lt by auto
    have hi: "a = 4 \<Longrightarrow> b < 16" using r 4 lt by auto
    from 4 have e: "EncodeRune r = [char_of (240 + a), char_of (128 + b), char_of (128 + c), char_of (128 + d)]"
      by (simp add: EncodeRune_def a_def b_def c_def d_def)
    show ?thesis unfolding e using lt lo hi r by (auto simp: Let_def cont_byte_def)
  qed
qed

lemma EncodeRune_ne: "EncodeRune r \<noteq> []"
  by (simp add: EncodeRune_def)

text \<open>\<open>string(runes)\<close>, and that \<open>[]rune\<close> undoes it.\<close>

definition string_of_runes :: "nat list \<Rightarrow> string" where
  "string_of_runes rs = concat (map EncodeRune rs)"

lemma solid_EncodeRune: "scalar r \<Longrightarrow> solid (r, EncodeRune r, True)"
  using DecodeRune_EncodeRune [of r] EncodeRune_ne [of r]
  by (auto simp: solid_def RuneError_def) (simp add: EncodeRune_def)

lemma runes_string_of_runes: "list_all scalar rs \<Longrightarrow> runes (string_of_runes rs) = rs"
proof -
  assume "list_all scalar rs"
  then have "list_all solid (map (\<lambda>r. (r, EncodeRune r, True)) rs)" by (auto simp: list_all_iff solid_EncodeRune)
  from rune_chunks_solid [OF this] show ?thesis
    by (simp add: runes_def string_of_runes_def unchunk_def comp_def)
qed

section \<open>What decoding yields\<close>

lemma DecodeRune_scalar:
  assumes "DecodeRune s = (r, w)"
  shows "scalar r"
proof (cases s)
  case Nil
  with assms show ?thesis by (simp add: scalar_def RuneError_def)
next
  case s: (Cons c0 s0)
  have E: "scalar RuneError" by (simp add: scalar_def RuneError_def)
  show ?thesis
  proof (cases "byte c0 < 128 \<or> byte c0 < 194 \<or> 244 < byte c0 \<or> s0 = []")
    case True
    with assms s E show ?thesis by (auto simp: Let_def scalar_def split: if_splits)
  next
    case False
    then obtain c1 s1 where s0: "s0 = c1 # s1" by (cases s0) auto
    define b0 b1 where "b0 = byte c0" and "b1 = byte c1"
    show ?thesis
    proof (cases "b0 < 224 \<or> s1 = []")
      case True
      with False assms s s0 E show ?thesis by (auto simp: Let_def scalar_def b0_def b1_def split: if_splits)
    next
      case wide: False
      then obtain c2 s2 where s1: "s1 = c2 # s2" by (cases s1) auto
      define b2 where "b2 = byte c2"
      show ?thesis
      proof (cases "b0 < 240 \<or> s2 = []")
        case True
        with False wide assms s s0 s1 E show ?thesis
          by (auto simp: Let_def scalar_def b0_def b1_def b2_def cont_byte_def split: if_splits)
      next
        case False
        then obtain c3 s3 where "s2 = c3 # s3" by (cases s2) auto
        define x0 x1 x2 x3 where "x0 = byte c0 - 240" and "x1 = byte c1 - 128" and "x2 = byte c2 - 128" and "x3 = byte c3 - 128"
        have "r = RuneError \<or> (r = x0 * 262144 + x1 * 4096 + x2 * 64 + x3 \<and> x0 \<le> 4 \<and> (x0 = 0 \<longrightarrow> 16 \<le> x1) \<and> x1 \<le> 63 \<and>
            (x0 = 4 \<longrightarrow> x1 \<le> 15) \<and> x2 \<le> 63 \<and> x3 \<le> 63)"
          using assms False wide \<open>s2 = c3 # s3\<close> s s0 s1 unfolding x0_def x1_def x2_def x3_def b0_def
          by (auto simp: Let_def cont_byte_def split: if_splits)
        then show ?thesis
        proof
          assume x: "r = x0 * 262144 + x1 * 4096 + x2 * 64 + x3 \<and> x0 \<le> 4 \<and> (x0 = 0 \<longrightarrow> 16 \<le> x1) \<and> x1 \<le> 63 \<and>
            (x0 = 4 \<longrightarrow> x1 \<le> 15) \<and> x2 \<le> 63 \<and> x3 \<le> 63"
          then have "57343 < r" by (cases "x0 = 0") auto
          moreover from x have "r \<le> 1114111" by (cases "x0 = 4") auto
          ultimately show ?thesis by (simp add: scalar_def)
        qed (simp add: E)
      qed
    qed
  qed
qed

lemma rune_chunks_scalar: "c \<in> set (rune_chunks s) \<Longrightarrow> scalar (fst c)"
proof (induction s rule: rune_chunks.induct)
  case (1 s)
  show ?case
  proof (cases "s = []")
    case False
    obtain r w where rw: "DecodeRune s = (r, w)" by (cases "DecodeRune s")
    from 1(2) False rw have "fst c = r \<or> c \<in> set (rune_chunks (drop w s))" by (auto simp: rune_chunks.simps [of s])
    with 1(1) [OF False rw [symmetric] refl] DecodeRune_scalar [OF rw] show ?thesis by blast
  qed (use 1 in simp)
qed

lemma runes_scalar: "list_all scalar (runes s)"
  by (auto simp: runes_def list_all_iff rune_chunks_scalar)

lemma string_of_runes_valid: "list_all scalar rs \<Longrightarrow> utf8_Valid (string_of_runes rs)"
proof -
  assume "list_all scalar rs"
  then have "list_all solid (map (\<lambda>r. (r, EncodeRune r, True)) rs)" by (auto simp: list_all_iff solid_EncodeRune)
  from rune_chunks_solid [OF this] have "rune_chunks (string_of_runes rs) = map (\<lambda>r. (r, EncodeRune r, True)) rs"
    by (simp add: string_of_runes_def unchunk_def comp_def)
  then show ?thesis by (simp add: utf8_Valid_def list_all_iff)
qed

end
