(* ===== verification/Keys.thy ===== *)
theory Keys
  imports Utf8
begin

text \<open>
  \<open>internal/tui/tui.go\<close>, terminal input: \<open>nextKey\<close> splits the pending bytes into one key and the rest.  A decoder that recognises every key exactly when its last
  byte has arrived decodes the same keys however the bytes are cut into reads; that is proved once, in a
  locale, and \<open>nextKey\<close> is an instance.
\<close>

section \<open>The next key\<close>

text \<open>\<open>utf8.FullRuneInString\<close>: the bytes begin with a full rune, a wrong one included.\<close>

definition rune_need :: "nat \<Rightarrow> nat" where
  "rune_need b0 = (if b0 < 194 \<or> 244 < b0 then 1 else if b0 < 224 then 2 else if b0 < 240 then 3 else 4)"

definition FullRune :: "string \<Rightarrow> bool" where
  "FullRune s = (case s of
     [] \<Rightarrow> False
   | c0 # s1 \<Rightarrow>
       (let b0 = byte c0;
            lo = (if b0 = 224 then 160 else if b0 = 240 then 144 else 128);
            hi = (if b0 = 237 then 159 else if b0 = 244 then 143 else 191) in
        if rune_need b0 \<le> length s then True
        else case s1 of
          [] \<Rightarrow> False
        | c1 # s2 \<Rightarrow> if byte c1 < lo \<or> hi < byte c1 then True
                    else (case s2 of [] \<Rightarrow> False | c2 # s3 \<Rightarrow> \<not> cont_byte (byte c2))))"

text \<open>The loop over the bytes after \<open>ESC [\<close>: the length of the sequence with its final byte.\<close>

fun csi_end :: "nat \<Rightarrow> string \<Rightarrow> nat option" where
  "csi_end i [] = None"
| "csi_end i (c # s) = (if 64 \<le> byte c \<and> byte c \<le> 126 then Some (Suc i) else csi_end (Suc i) s)"

text \<open>\<open>None\<close> stands for \<open>("", s, false)\<close>: the key is not complete.  The callers pass a text with at least one byte.\<close>

definition nextKey :: "string \<Rightarrow> (string \<times> string) option" where
  "nextKey s =
     (if s = [] then None
      else if byte (s ! 0) \<noteq> 27 then
        (let n = snd (DecodeRune s) in
         if n = 1 \<and> 128 \<le> byte (s ! 0) \<and> \<not> FullRune s then None
         else Some (take n s, drop n s))
      else if length s = 1 then None
      else if s ! 1 \<noteq> CHR ''['' then Some (take 1 s, drop 1 s)
      else case csi_end 2 (drop 2 s) of
        Some i \<Rightarrow> Some (take i s, drop i s)
      | None \<Rightarrow> if 64 < length s then Some (take 1 s, drop 1 s) else None)"

lemma csi_end_Some: "csi_end i s = Some j \<Longrightarrow> i < j \<and> j \<le> i + length s"
  by (induction i s rule: csi_end.induct) (auto split: if_splits)

lemma nextKey_split: "nextKey s = Some (k, t) \<Longrightarrow> s = k @ t \<and> k \<noteq> []"
proof -
  assume k: "nextKey s = Some (k, t)"
  then have ne: "s \<noteq> []" by (auto simp: nextKey_def)
  have w: "1 \<le> snd (DecodeRune s)" using DecodeRune_width [OF ne] by simp
  from k ne w show ?thesis
    by (auto simp: nextKey_def Let_def split: if_splits option.splits dest!: csi_end_Some)
qed

lemma nextKey_shorter: "nextKey s = Some (k, t) \<Longrightarrow> length t < length s"
  by (drule nextKey_split) auto

section \<open>Keys as they are typed\<close>

text \<open>A complete key: one rune, or an escape sequence of at most 64 bytes with its final byte.\<close>

definition csi_param :: "char \<Rightarrow> bool" where
  "csi_param c = (byte c < 64 \<or> 126 < byte c)"

definition csi_key :: "string \<Rightarrow> bool" where
  "csi_key k = (3 \<le> length k \<and> length k \<le> 64 \<and> take 2 k = [CHR 0x1B, CHR ''[''] \<and>
     list_all csi_param (butlast (drop 2 k)) \<and> \<not> csi_param (last k))"

definition rune_key :: "string \<Rightarrow> bool" where
  "rune_key k = (length (rune_chunks k) = 1 \<and> list_all (\<lambda>(r, b, v). v \<and> r \<noteq> 27) (rune_chunks k))"

definition typed_key :: "string \<Rightarrow> bool" where
  "typed_key k = (csi_key k \<or> rune_key k)"

text \<open>The keys taken from the pending bytes until none is complete.\<close>

function take_keys :: "string \<Rightarrow> string list \<times> string" where
  "take_keys s = (case nextKey s of
     None \<Rightarrow> ([], s)
   | Some (k, t) \<Rightarrow> (let (ks, p) = take_keys t in (k # ks, p)))"
  by pat_completeness auto
termination
proof (relation "measure length", goal_cases)
  case 1
  then show ?case by simp
next
  case (2 s kt k t)
  then show ?case using nextKey_split [of s k t] by (cases k) auto
qed

declare take_keys.simps [simp del]

text \<open>Reads arrive one after the other and are appended to what is pending.\<close>

fun read_keys :: "string \<Rightarrow> string list \<Rightarrow> string list \<times> string" where
  "read_keys pending [] = ([], pending)"
| "read_keys pending (chunk # chunks) =
     (let (ks, p) = take_keys (pending @ chunk); (ks', p') = read_keys p chunks in (ks @ ks', p'))"

section \<open>Decoders that wait for the last byte\<close>

text \<open>
  \<open>dec\<close> takes a key off the front, \<open>loop\<close> takes keys while there are any.  The laws: a key is recognised
  whatever follows it, and a proper prefix of a key is not yet a key.
\<close>

locale key_decoder =
  fixes dec :: "string \<Rightarrow> (string \<times> string) option"
    and loop :: "string \<Rightarrow> string list \<times> string"
    and is_key :: "string \<Rightarrow> bool"
  assumes dec_key: "is_key k \<Longrightarrow> dec (k @ t) = Some (k, t)"
    and dec_wait: "is_key (p @ q) \<Longrightarrow> q \<noteq> [] \<Longrightarrow> dec p = None"
    and dec_Nil: "dec [] = None"
    and loop_eq: "loop s = (case dec s of None \<Rightarrow> ([], s) | Some (k, t) \<Rightarrow> (let (ks, p) = loop t in (k # ks, p)))"
begin

lemma loop_wait: "dec p = None \<Longrightarrow> loop p = ([], p)"
  by (subst loop_eq) simp

lemma loop_key: "is_key k \<Longrightarrow> loop (k @ t) = (k # fst (loop t), snd (loop t))"
  by (subst loop_eq) (simp add: dec_key split: prod.splits)

text \<open>Whatever part of the typed text has arrived, the loop takes the keys that are complete in it and keeps
  the rest.\<close>

lemma loop_prefix:
  assumes "list_all is_key ks" and "concat ks = x @ y"
  shows "\<exists>ks1 ks2 p. ks = ks1 @ ks2 \<and> loop x = (ks1, p) \<and> dec p = None \<and> concat ks2 = p @ y"
  using assms
proof (induction ks arbitrary: x)
  case Nil
  then show ?case by (simp add: loop_wait dec_Nil)
next
  case (Cons k ks)
  from Cons.prems(2) have "k @ concat ks = x @ y" by simp
  then consider q where "k = x @ q" "q \<noteq> []" | x' where "x = k @ x'" "concat ks = x' @ y"
    unfolding append_eq_append_conv2 by (metis append_Nil append_Nil2)
  then show ?case
  proof cases
    case 1
    with Cons.prems(1) have "dec x = None" by (auto intro: dec_wait)
    with Cons.prems(2) show ?thesis by (intro exI [of _ "[]"] exI [of _ "k # ks"] exI [of _ x]) (simp add: loop_wait)
  next
    case 2
    from Cons.prems(1) Cons.IH [OF _ 2(2)] obtain ks1 ks2 p
      where "ks = ks1 @ ks2" "loop x' = (ks1, p)" "dec p = None" "concat ks2 = p @ y" by auto
    with Cons.prems(1) show ?thesis
      by (intro exI [of _ "k # ks1"] exI [of _ ks2] exI [of _ p]) (simp add: 2(1) loop_key)
  qed
qed

end

section \<open>Keys are recognised at their last byte\<close>

lemma csi_end_params: "list_all csi_param ps \<Longrightarrow> \<not> csi_param f \<Longrightarrow> csi_end i (ps @ f # t) = Some (i + length ps + 1)"
  by (induction ps arbitrary: i) (auto simp: csi_param_def)

lemma csi_end_open: "list_all csi_param ps \<Longrightarrow> csi_end i ps = None"
  by (induction ps arbitrary: i) (auto simp: csi_param_def)

lemma csi_key_form:
  assumes "csi_key k"
  obtains ps f where "k = [CHR 0x1B, CHR ''['']  @ ps @ [f]" "list_all csi_param ps" "\<not> csi_param f" "length ps \<le> 61"
proof -
  define d where "d = drop 2 k"
  from assms have k: "k = [CHR 0x1B, CHR ''[''] @ d" by (metis append_take_drop_id csi_key_def d_def)
  from assms have d: "d \<noteq> []" "length d \<le> 62" by (auto simp: csi_key_def d_def)
  from k d(1) have l: "last k = last d" by simp
  show thesis
  proof (rule that)
    show "k = [CHR 0x1B, CHR ''[''] @ butlast d @ [last d]" using k d(1) by simp
    show "list_all csi_param (butlast d)" "\<not> csi_param (last d)" using assms l by (simp_all add: csi_key_def d_def [symmetric])
    show "length (butlast d) \<le> 61" using d(2) by simp
  qed
qed

lemma rune_key_solid:
  assumes "rune_key k"
  obtains r where "solid (r, k, True)" "r \<noteq> 27"
proof -
  from assms obtain r b where c: "rune_chunks k = [(r, b, True)]" and r: "r \<noteq> 27"
    by (auto simp: rune_key_def length_Suc_conv)
  from c have "b = k" using concat_rune_chunks [of k] by simp
  moreover from c have "solid (r, b, True)" by (intro rune_chunks_valid [of _ k]) simp_all
  ultimately show thesis using that r by blast
qed

lemma DecodeRune_unfinished:
  assumes "DecodeRune (p @ q) = (r, length (p @ q))" and "p \<noteq> []" and "q \<noteq> []"
  shows "snd (DecodeRune p) = 1 \<and> 128 \<le> byte (p ! 0) \<and> \<not> FullRune p"
proof -
  have "length (p @ q) \<le> 4" using DecodeRune_width_4 [of "p @ q"] assms(1) by simp
  then consider a where "p = [a]" | a b where "p = [a, b]" | a b c where "p = [a, b, c]"
    using assms(2,3) by (cases p; cases "tl p"; cases "tl (tl p)") (auto simp: neq_Nil_conv)
  then show ?thesis
    by cases (insert assms(1,3), auto simp: FullRune_def rune_need_def Let_def neq_Nil_conv cont_byte_def split: if_splits list.splits)
qed

lemma DecodeRune_one: "DecodeRune (a # t) = (r, 1) \<Longrightarrow> byte a < 128 \<or> r = RuneError"
  by (auto simp: Let_def split: if_splits list.splits)

lemma DecodeRune_esc: "byte a = 27 \<Longrightarrow> DecodeRune (a # t) = (27, 1)"
  by simp

declare DecodeRune.simps [simp del]

lemma nextKey_typed:
  assumes "typed_key k"
  shows "nextKey (k @ t) = Some (k, t)"
proof (cases "csi_key k")
  case True
  then obtain ps f where "k = [CHR 0x1B, CHR ''['']  @ ps @ [f]" "list_all csi_param ps" "\<not> csi_param f" "length ps \<le> 61"
    by (rule csi_key_form)
  then show ?thesis by (simp add: nextKey_def csi_end_params byte_def)
next
  case False
  with assms obtain r where s: "solid (r, k, True)" and r: "r \<noteq> 27"
    by (auto simp: typed_key_def elim: rune_key_solid)
  then obtain a l where k: "k = a # l" by (auto simp: solid_def neq_Nil_conv)
  from s have d: "DecodeRune (k @ t) = (r, length k)" "\<not> (r = RuneError \<and> length k = 1)" by (auto simp: solid_def)
  with k r have "byte a \<noteq> 27" by (auto simp: DecodeRune_esc)
  moreover have "\<not> (length k = 1 \<and> 128 \<le> byte a)" using d k DecodeRune_one [of a "l @ t" r] by auto
  ultimately show ?thesis using d k by (auto simp: nextKey_def)
qed

lemma nextKey_wait:
  assumes "typed_key (p @ q)" and "q \<noteq> []"
  shows "nextKey p = None"
proof (cases "csi_key (p @ q)")
  case True
  then obtain ps f where k: "p @ q = [CHR 0x1B, CHR ''['']  @ ps @ [f]" "list_all csi_param ps" "length ps \<le> 61"
    by (rule csi_key_form)
  from assms(2) obtain q' e where q: "q = q' @ [e]" by (cases q rule: rev_cases) auto
  with k(1) have pq: "p @ q' = [CHR 0x1B, CHR ''[''] @ ps" by simp
  then consider "p = []" | "p = [CHR 0x1B]" | p' where "p = [CHR 0x1B, CHR ''[''] @ p'" "ps = p' @ q'"
    by (cases p; cases "tl p") (auto simp: append_eq_Cons_conv)
  then show ?thesis
  proof cases
    case 3
    with k(2,3) show ?thesis by (simp add: nextKey_def csi_end_open byte_def)
  qed (simp_all add: nextKey_def byte_def)
next
  case False
  with assms(1) obtain r where "solid (r, p @ q, True)" "r \<noteq> 27"
    by (auto simp: typed_key_def elim: rune_key_solid)
  then have "DecodeRune ((p @ q) @ []) = (r, length (p @ q))" unfolding solid_def by blast
  then have d: "DecodeRune (p @ q) = (r, length (p @ q))" by simp
  show ?thesis
  proof (cases "p = []")
    case False
    from DecodeRune_unfinished [OF d False assms(2)] False show ?thesis by (auto simp: nextKey_def)
  qed (simp add: nextKey_def)
qed

interpretation kd: key_decoder nextKey take_keys typed_key
proof (unfold_locales, goal_cases)
  case (1 k t)
  then show ?case by (rule nextKey_typed)
next
  case (2 p q)
  then show ?case by (rule nextKey_wait)
next
  case 3
  then show ?case by (simp add: nextKey_def)
next
  case (4 s)
  then show ?case by (rule take_keys.simps)
qed

text \<open>However the bytes of typed keys are cut into reads, exactly these keys are taken and nothing is left.\<close>

lemma read_keys_typed:
  assumes "list_all typed_key ks" and "concat ks = p @ concat chunks" and "nextKey p = None"
  shows "read_keys p chunks = (ks, [])"
  using assms
proof (induction chunks arbitrary: p ks)
  case Nil
  from kd.loop_prefix [of ks p "[]"] Nil.prems obtain ks1 ks2 p'
    where k: "ks = ks1 @ ks2" "take_keys p = (ks1, p')" "concat ks2 = p'" by auto
  moreover from Nil.prems(3) have "take_keys p = ([], p)" by (rule kd.loop_wait)
  ultimately have "ks1 = []" "p' = p" by auto
  moreover have "ks2 = []"
  proof (rule ccontr)
    assume "ks2 \<noteq> []"
    then obtain k l where "ks2 = k # l" by (cases ks2) auto
    with k Nil.prems(1) have "typed_key k" "p' = k @ concat l" by auto
    with nextKey_typed [of k "concat l"] Nil.prems(3) \<open>p' = p\<close> show False by simp
  qed
  ultimately show ?case using k by simp
next
  case (Cons c cs)
  from kd.loop_prefix [of ks "p @ c" "concat cs"] Cons.prems obtain ks1 ks2 p'
    where k: "ks = ks1 @ ks2" "take_keys (p @ c) = (ks1, p')" "nextKey p' = None" "concat ks2 = p' @ concat cs" by auto
  with Cons.prems(1) have "read_keys p' cs = (ks2, [])" by (intro Cons.IH) auto
  with k show ?case by simp
qed

end
