(* ===== verification/Tui.thy ===== *)
theory Tui
  imports Keys Search
begin

text \<open>
  \<open>internal/tui/tui.go\<close>: the terminal investigation view.  The model of the view, its rows, the frame \<open>Render\<close>
  writes, the keys, and the search a submission starts.  What the terminal and other packages decide is in
  \<open>tui_env\<close>: \<open>te_wide\<close> says which runes \<open>golang.org/x/text/width\<close> calls full width or wide, \<open>te_any\<close> and
  \<open>te_fixed\<close> are \<open>fmt\<close>'s text of a value that is neither a string nor an integer and of a double with a fixed
  number of decimals.  The terminal session, raw mode and the writes themselves are not modelled.
\<close>

record tui_env =
  te_std :: std
  te_wide :: "nat \<Rightarrow> bool"
  te_any :: "f64 \<Rightarrow> string"
  te_json :: "json \<Rightarrow> string"
  te_fixed :: "nat \<Rightarrow> f64 \<Rightarrow> string"

section \<open>The model of the view\<close>

definition tabs :: "string list" where
  "tabs = [''Important'', ''Routine'', ''Needs Review'', ''All'', ''Search'']"

record row =
  rw_Event :: event
  rw_Count :: nat
  rw_IDs :: "string list"

record completion =
  cp_Err :: status
  cp_Partial :: bool

text \<open>A value of the summary: what \<open>map[string]any\<close> holds there.\<close>

datatype gval = GInt int | GFloat f64 | GStr string | GBool bool

record tui =
  md_SearchLabels :: "(string, string) gomap"
  md_Cursor :: int
  md_SearchBudget :: int
  md_FrozenDetail :: "row option"
  md_FrozenEvents :: "event list"
  md_Events :: "event list"
  md_Summary :: "(string, gval) gomap"
  md_Live :: "(string, gval) gomap option"
  md_Tab :: int
  md_Selected :: int
  md_Scroll :: int
  md_DetailScroll :: int
  md_Grouped :: bool
  md_Detail :: bool
  md_Instances :: bool
  md_Done :: bool
  md_Outcome :: completion
  md_Query :: string
  md_Editing :: string
  md_Message :: string
  md_Results :: "event list"
  md_Search :: "nat option"
  md_cache :: cache

definition tui_New :: tui where
  "tui_New = \<lparr>md_SearchLabels = [], md_Cursor = 0, md_SearchBudget = 16, md_FrozenDetail = None, md_FrozenEvents = [],
     md_Events = [], md_Summary = [], md_Live = None, md_Tab = 0, md_Selected = 0, md_Scroll = 0, md_DetailScroll = 0,
     md_Grouped = True, md_Detail = False, md_Instances = False, md_Done = False,
     md_Outcome = \<lparr>cp_Err = None, cp_Partial = False\<rparr>, md_Query = [], md_Editing = [], md_Message = [],
     md_Results = [], md_Search = None, md_cache = []\<rparr>"

text \<open>\<open>Search\<close> points at a run its worker goes on changing: the model keeps which of the started searches it is.\<close>

section \<open>Rows\<close>

definition in_tab :: "int \<Rightarrow> event \<Rightarrow> bool" where
  "in_tab tab e = (let i = Importance (ev_Judgment e) in
     3 \<le> tab \<or> (tab = 0 \<and> i = ''important'') \<or> (tab = 1 \<and> i = ''routine'') \<or>
     (tab = 2 \<and> (i = ''unknown'' \<or> i = ''uncertain'' \<or> i = ''pending'')))"

definition row_key :: "std \<Rightarrow> event \<Rightarrow> string" where
  "row_key S e = Hash S (JArr [JObj (ev_Source e), JStr (ev_Text e), JStr (Importance (ev_Judgment e)),
     JStr (Severity (ev_Judgment e)), JStr (Category (ev_Judgment e))])"

definition count_row :: "event \<Rightarrow> row \<Rightarrow> row" where
  "count_row e r = r\<lparr>rw_Count := rw_Count r + 1, rw_IDs := rw_IDs r @ [ev_ID e]\<rparr>"

definition new_row :: "event \<Rightarrow> row" where
  "new_row e = \<lparr>rw_Event = e, rw_Count = 1, rw_IDs = [ev_ID e]\<rparr>"

text \<open>One round of the loop: the rows so far and \<open>by\<close>, the index of a key's row.\<close>

definition add_row :: "std \<Rightarrow> bool \<Rightarrow> int \<Rightarrow> row list \<times> (string, nat) gomap \<Rightarrow> event \<Rightarrow> row list \<times> (string, nat) gomap" where
  "add_row S grouped tab st e =
     (case st of (out, index) \<Rightarrow>
        if \<not> in_tab tab e then (out, index)
        else if grouped then
          (case mget index (row_key S e) of
             Some i \<Rightarrow> (out[i := count_row e (out ! i)], index)
           | None \<Rightarrow> (out @ [new_row e], mput (row_key S e) (length out) index))
        else (out @ [new_row e], index))"

definition tui_events :: "tui \<Rightarrow> event list" where
  "tui_events m = (if md_Tab m = 4 then md_Results m else md_Events m)"

definition Rows :: "std \<Rightarrow> tui \<Rightarrow> row list" where
  "Rows S m = fst (foldl (add_row S (md_Grouped m) (md_Tab m)) ([], []) (tui_events m))"

definition tui_Pending :: "tui \<Rightarrow> nat" where
  "tui_Pending m = length (filter (\<lambda>e. Importance (ev_Judgment e) = ''pending'') (md_Events m))"

section \<open>Updates\<close>

text \<open>
  An update carries its events by value; \<open>Update\<close> puts them through \<open>encoding/json\<close>, which refuses a confidence
  that is not finite, writes every invalid byte as U+FFFD, drops the cache bounds and turns the numbers of
  \<open>any\<close> values into doubles.
\<close>

record tui_view =
  vw_Events :: "event list"
  vw_Tail :: "event list option"
  vw_Summary :: "(string, gval) gomap option"
  vw_Live :: "(string, gval) gomap option"

fun clean_json :: "std \<Rightarrow> json \<Rightarrow> json" where
  "clean_json S (JStr s) = JStr (sanitize s)"
| "clean_json S (JArr vs) = JArr (map (clean_json S) vs)"
| "clean_json S (JObj kvs) = JObj (map (\<lambda>(k, v). (sanitize k, clean_json S v)) (sort_key fst kvs))"
| "clean_json S v = v"

definition any_json :: "std \<Rightarrow> json \<Rightarrow> json" where
  "any_json S v = renumber S (decode_any (clean_json S v))"

definition any_object :: "std \<Rightarrow> source \<Rightarrow> source" where
  "any_object S src = (case any_json S (JObj src) of JObj kvs \<Rightarrow> kvs | v \<Rightarrow> [])"

definition finite_judgment :: "Judgment \<Rightarrow> bool" where
  "finite_judgment j = list_all (\<lambda>c. case c of Some (Fin q) \<Rightarrow> True | None \<Rightarrow> True | Some v \<Rightarrow> False) (confidences j)"

definition json_judgment :: "Judgment \<Rightarrow> Judgment" where
  "json_judgment j = j\<lparr>CacheCreatedAt := zero_time, CacheExpiresAt := zero_time, CacheObservedAt := zero_time,
     CacheDeadline := zero_time, Importance := sanitize (Importance j), Severity := sanitize (Severity j),
     Category := sanitize (Category j), AnalysisError := sanitize (AnalysisError j)\<rparr>"

definition json_event :: "std \<Rightarrow> event \<Rightarrow> event" where
  "json_event S e = e\<lparr>ev_Review := (case ev_Review e of Some (JObj (kv # kvs)) \<Rightarrow> Some (any_json S (JObj (kv # kvs))) | _ \<Rightarrow> None),
     ev_OriginalJudgment := map_option json_judgment (ev_OriginalJudgment e),
     ev_SearchOccurrences := map_option (\<lambda>o'. o'\<lparr>occ_First := map_option sanitize (occ_First o'),
       occ_Last := map_option sanitize (occ_Last o')\<rparr>) (ev_SearchOccurrences e),
     ev_ID := sanitize (ev_ID e), ev_Source := any_object S (ev_Source e), ev_Timestamp := map_option sanitize (ev_Timestamp e),
     ev_Text := sanitize (ev_Text e), ev_GroupID := sanitize (ev_GroupID e), ev_Judgment := json_judgment (ev_Judgment e),
     ev_Baseline := (ev_Baseline e)\<lparr>Signals := map sanitize (Signals (ev_Baseline e))\<rparr>,
     ev_Assessment := map_option (\<lambda>a. a\<lparr>as_TemplateID := sanitize (as_TemplateID a), as_VersionID := sanitize (as_VersionID a),
       as_Reason := sanitize (as_Reason a)\<rparr>) (ev_Assessment e),
     ev_RepresentativeID := sanitize (ev_RepresentativeID e)\<rparr>"

definition finite_event :: "event \<Rightarrow> bool" where
  "finite_event e = (finite_judgment (ev_Judgment e) \<and>
     (case ev_OriginalJudgment e of None \<Rightarrow> True | Some j \<Rightarrow> finite_judgment j))"

definition reload_events :: "std \<Rightarrow> event list \<Rightarrow> event list option" where
  "reload_events S es = (if list_all finite_event es then Some (map (json_event S) es) else None)"

text \<open>The deferred loop: the first row that holds the selected event.\<close>

definition find_row :: "string \<Rightarrow> row list \<Rightarrow> nat option" where
  "find_row selected rows = (let n = length (takeWhile (\<lambda>r. selected \<notin> set (rw_IDs r)) rows) in
     if n < length rows then Some n else None)"

definition selected_id :: "std \<Rightarrow> tui \<Rightarrow> string" where
  "selected_id S m = (let rows = Rows S m in
     if 0 \<le> md_Selected m \<and> md_Selected m < int (length rows) then ev_ID (rw_Event (rows ! nat (md_Selected m))) else [])"

definition tui_Update :: "std \<Rightarrow> tui_view \<Rightarrow> tui \<Rightarrow> tui" where
  "tui_Update S v m =
     (let selected = selected_id S m;
          value = (case vw_Tail v of Some tail \<Rightarrow> tail | None \<Rightarrow> vw_Events v);
          m1 = (case reload_events S value of Some es \<Rightarrow> m\<lparr>md_Events := es\<rparr> | None \<Rightarrow> m);
          m2 = m1\<lparr>md_Summary := (case vw_Summary v of None \<Rightarrow> [] | Some s \<Rightarrow> s), md_Live := vw_Live v\<rparr> in
      if selected = [] then m2
      else case find_row selected (Rows S m2) of None \<Rightarrow> m2 | Some i \<Rightarrow> m2\<lparr>md_Selected := int i\<rparr>)"

section \<open>Mouse reports\<close>

text \<open>
  \<open>fmt.Sscanf\<close> with \<open>%d\<close>: white space but no new line is skipped, then a sign and decimal digits within
  64 bits.  The values read before a failure stay.
\<close>

definition scan_d :: "string \<Rightarrow> (int \<times> string) option" where
  "scan_d s =
     (let s1 = unchunk (dropWhile (\<lambda>c. chunk_space c \<and> fst c \<noteq> 10) (rune_chunks s));
          neg = HasPrefix s1 ''-'';
          s2 = (if neg \<or> HasPrefix s1 ''+'' then drop 1 s1 else s1);
          digits = takeWhile is_digit s2;
          v = foldl (\<lambda>n c. n * 10 + (int (byte c) - 48)) 0 digits;
          i = (if neg then - v else v) in
      if digits = [] \<or> i < - (2 ^ 63) \<or> 2 ^ 63 \<le> i then None else Some (i, drop (length digits) s2))"

definition scan_semicolon :: "string \<Rightarrow> string option" where
  "scan_semicolon s = (if HasPrefix s '';'' then Some (drop 1 s) else None)"

text \<open>\<open>fmt.Sscanf(key, "\x1b[<%d;%d;%dM", &button, &x, &y)\<close> on a key that begins with \<open>ESC [ <\<close>.\<close>

definition scan_mouse :: "string \<Rightarrow> int \<times> int \<times> int" where
  "scan_mouse key =
     (case scan_d (drop 3 key) of
        None \<Rightarrow> (0, 0, 0)
      | Some (button, s1) \<Rightarrow>
          (case Option.bind (scan_semicolon s1) scan_d of
             None \<Rightarrow> (button, 0, 0)
           | Some (x, s2) \<Rightarrow>
               (case Option.bind (scan_semicolon s2) scan_d of None \<Rightarrow> (button, x, 0) | Some (y, s3) \<Rightarrow> (button, x, y))))"

section \<open>Text for the terminal\<close>

definition dot :: string where "dot = [CHR 0xC2, CHR 0xB7]"
definition ellipsis :: string where "ellipsis = [CHR 0xE2, CHR 0x80, CHR 0xA6]"
definition times_sign :: string where "times_sign = [CHR 0xC3, CHR 0x97]"
definition en_dash :: string where "en_dash = [CHR 0xE2, CHR 0x80, CHR 0x93]"
definition block_sign :: string where "block_sign = [CHR 0xE2, CHR 0x96, CHR 0x88]"

definition esc :: "string \<Rightarrow> string" where
  "esc s = CHR 0x1B # s"

definition cells :: "tui_env \<Rightarrow> nat \<Rightarrow> int" where
  "cells E r = (if te_wide E r then 2 else 1)"

fun fit_loop :: "tui_env \<Rightarrow> int \<Rightarrow> int \<Rightarrow> nat list \<Rightarrow> nat list" where
  "fit_loop E n used [] = []"
| "fit_loop E n used (r # rs) =
     (let w = cells E r in if n < used + w then [] else r # fit_loop E n (used + w) rs)"

definition fit :: "tui_env \<Rightarrow> string \<Rightarrow> int \<Rightarrow> string" where
  "fit E s n = string_of_runes (fit_loop E n 0 (runes (Console s)))"

fun wrap_loop :: "tui_env \<Rightarrow> int \<Rightarrow> nat list \<Rightarrow> int \<Rightarrow> nat list \<Rightarrow> string list" where
  "wrap_loop E n b used [] = [string_of_runes b]"
| "wrap_loop E n b used (r # rs) =
     (let w = cells E r in
      if n < used + w then string_of_runes b # wrap_loop E n [r] w rs else wrap_loop E n (b @ [r]) (used + w) rs)"

definition wrap :: "tui_env \<Rightarrow> string \<Rightarrow> int \<Rightarrow> string list" where
  "wrap E s n = concat (map (\<lambda>line. wrap_loop E n [] 0 (runes (Console line))) (Split s (CHR 0x0A)))"

text \<open>\<open>%v\<close> of a map entry that may be missing, and padding as \<open>fmt\<close> does it, in runes.\<close>

definition fmt_v :: "tui_env \<Rightarrow> gval option \<Rightarrow> string" where
  "fmt_v E v = (case v of None \<Rightarrow> ''<nil>'' | Some (GInt i) \<Rightarrow> show_int i | Some (GFloat f) \<Rightarrow> te_any E f
     | Some (GStr s) \<Rightarrow> s | Some (GBool b) \<Rightarrow> (if b then ''true'' else ''false''))"

definition fmt_field :: "tui_env \<Rightarrow> source \<Rightarrow> string \<Rightarrow> string" where
  "fmt_field E src k = (case mget src k of None \<Rightarrow> ''<nil>'' | Some JNull \<Rightarrow> ''<nil>'' | Some (JStr s) \<Rightarrow> s | Some v \<Rightarrow> te_json E v)"

definition pad_right :: "nat \<Rightarrow> string \<Rightarrow> string" where
  "pad_right n s = s @ replicate (n - length (runes s)) CHR '' ''"

definition lower_ascii :: "string \<Rightarrow> string" where
  "lower_ascii s = map (\<lambda>c. if 65 \<le> byte c \<and> byte c \<le> 90 then char_of (byte c + 32) else c) s"

section \<open>Labels\<close>

text \<open>\<open>filepath.Base\<close>.\<close>

definition path_Base :: "string \<Rightarrow> string" where
  "path_Base p =
     (if p = [] then ''.''
      else let q = rev (dropWhile (\<lambda>c. c = CHR ''/'') (rev p)) in
        if q = [] then ''/'' else rev (takeWhile (\<lambda>c. c \<noteq> CHR ''/'') (rev q)))"

definition sourceLabel :: "tui_env \<Rightarrow> source \<Rightarrow> string" where
  "sourceLabel E src =
     (if mget src ''type'' = Some (JStr ''kubernetes'')
      then fmt_field E src ''namespace'' @ ''/'' @ fmt_field E src ''pod'' @ ''/'' @ fmt_field E src ''container''
      else case mget src ''path'' of Some (JStr path) \<Rightarrow> path_Base path | _ \<Rightarrow> ''unknown source'')"

text \<open>The tab is one of the five, so the index is in range.\<close>

definition emptyState :: "tui_env \<Rightarrow> tui \<Rightarrow> string" where
  "emptyState E m =
     (if md_Tab m = 4 then ''No search results. Press / to ask Jev or f for exact text.''
      else if 0 < length (md_Events m) then
        ''No '' @ lower_ascii (tabs ! nat (md_Tab m)) @ '' events yet '' @ dot @ '' '' @ show_nat (length (md_Events m)) @ '' retained'' @
        (if 0 < tui_Pending m then '' '' @ dot @ '' '' @ show_nat (tui_Pending m) @ '' awaiting verdict'' else []) @
        '' '' @ dot @ '' press 4 for all events''
      else if \<not> md_Done m \<and> md_Live m \<noteq> None then
        ''Opening log streams'' @ ellipsis @ '' '' @ fmt_v E (mget (the (md_Live m)) ''active_streams'') @ '' active '' @ dot @
        '' waiting for the first log line''
      else if \<not> md_Done m then ''Collecting'' @ ellipsis @ '' no events received yet''
      else ''No events in this view. Collection coverage may be partial.'')"

definition status_text :: "tui \<Rightarrow> string" where
  "status_text m =
     (if \<not> md_Done m then ''Collecting''
      else if cp_Err (md_Outcome m) = Some Canceled then ''Collection interrupted '' @ dot @ '' browsing retained window''
      else if cp_Err (md_Outcome m) \<noteq> None then ''Collection failed '' @ dot @ '' press q for error''
      else if cp_Partial (md_Outcome m) then ''Collection stopped '' @ dot @ '' partial coverage''
      else ''Collection complete '' @ dot @ '' browsing retained window'')"

definition summary_v :: "tui_env \<Rightarrow> tui \<Rightarrow> string \<Rightarrow> string" where
  "summary_v E m k = fmt_v E (mget (md_Summary m) k)"

definition live_v :: "tui_env \<Rightarrow> tui \<Rightarrow> string \<Rightarrow> string" where
  "live_v E m k = (case md_Live m of None \<Rightarrow> [] | Some l \<Rightarrow> fmt_v E (mget l k))"

definition status_line :: "tui_env \<Rightarrow> tui \<Rightarrow> string" where
  "status_line E m = status_text m @ '' | events='' @ summary_v E m ''events'' @ '' important='' @ summary_v E m ''important'' @
     '' uncertain='' @ summary_v E m ''uncertain'' @ '' unknown='' @ summary_v E m ''unknown'' @
     (if md_Live m \<noteq> None \<and> \<not> md_Done m
      then '' | streams='' @ live_v E m ''active_streams'' @ '' queue='' @ live_v E m ''queue_depth'' @ '' dropped='' @ live_v E m ''dropped''
      else [])"

definition tab_label :: "int \<Rightarrow> nat \<Rightarrow> string" where
  "tab_label tab i = show_nat (i + 1) @ '' '' @ (if int i = tab then ''['' @ tabs ! i @ '']'' else tabs ! i)"

definition clamp :: "int \<Rightarrow> int \<Rightarrow> int \<Rightarrow> int" where
  "clamp lo hi x = max lo (min x hi)"

definition edit_line :: "tui \<Rightarrow> string" where
  "edit_line m = (let query = runes (md_Query m); c = nat (md_Cursor m) in
     md_Editing m @ '' ['' @ show_int (md_SearchBudget m) @ '' batches '' @ dot @ '' Tab mode '' @ dot @ '' Ctrl+B budget '' @ dot @
     '' Ctrl+U clear]> '' @ string_of_runes (take c query) @ block_sign @ string_of_runes (drop c query))"

section \<open>The frame\<close>

text \<open>\<open>Render\<close> first brings the selection, the cursor and the scroll positions into range.\<close>

definition head_lines :: "tui_env \<Rightarrow> tui \<Rightarrow> string list" where
  "head_lines E m =
     [''Jevernetes '' @ dot @ '' Go '' @ dot @ '' read-only log investigation'',
      status_line E m,
      Join (map (tab_label (md_Tab m)) [0..<length tabs]) ''  '',
      ''Enter details '' @ dot @ '' g group '' @ dot @ '' i instances '' @ dot @ '' / ask '' @ dot @ '' f exact '' @ dot @
        '' x stop search '' @ dot @ '' q quit'',
      (if md_Editing m \<noteq> [] then edit_line m else md_Message m)]"

definition instance_line :: "event \<Rightarrow> string" where
  "instance_line e = ev_ID e @ '' '' @ dot @ '' '' @ (case ev_Timestamp e of None \<Rightarrow> ''no timestamp'' | Some t \<Rightarrow> t) @ '' '' @ dot @
     '' lines '' @ show_nat (ev_LineStart e) @ en_dash @ show_nat (ev_LineEnd e)"

definition detail_lines :: "tui_env \<Rightarrow> int \<Rightarrow> tui \<Rightarrow> row \<Rightarrow> string list" where
  "detail_lines E w m selected =
     (let e = rw_Event selected; j = ev_Judgment e in
      [Importance j @ ''/'' @ Severity j @ ''/'' @ Category j @ '' '' @ dot @ '' '' @ show_nat (rw_Count selected) @ '' instances '' @ dot @
         '' '' @ ev_ID e,
       marshal (JObj (ev_Source e))] @
      wrap E (ev_Text e) w @
      (if md_Instances m
       then ''Occurrence IDs:'' # map instance_line (filter (\<lambda>i. ev_ID i \<in> set (rw_IDs selected)) (md_FrozenEvents m))
       else []) @
      [''Analysis: '' @ AnalysisError j])"

definition row_line :: "tui_env \<Rightarrow> int \<Rightarrow> tui \<Rightarrow> nat \<Rightarrow> row \<Rightarrow> string" where
  "row_line E w m i r =
     (let e = rw_Event r;
          found = mgetd [] (md_SearchLabels m) (Hash (te_std E) (JArr [JObj (ev_Source e), JStr (ev_Text e)]));
          label = (if md_Tab m = 4 \<and> found \<noteq> [] then found else Importance (ev_Judgment e)) in
      (if int i = md_Selected m then ''>'' else '' '') @ '' '' @ times_sign @ pad_right 4 (show_nat (rw_Count r)) @ '' '' @ pad_right 12 label @ '' '' @
      fit E (sourceLabel E (ev_Source e)) (min 30 (w div 3)) @ '' '' @ ev_Text e)"

definition foot_line :: "tui_env \<Rightarrow> tui \<Rightarrow> nat \<Rightarrow> string" where
  "foot_line E m n = show_nat n @ '' rows '' @ dot @ '' retained '' @ show_nat (length (md_Events m)) @ '' '' @ dot @ '' requests='' @
     summary_v E m ''api_requests'' @ '' cost=$'' @ summary_v E m ''total_estimated_cost_usd'' @ '' '' @ dot @ '' '' @
     (if md_Grouped m then ''grouped'' else ''instances'')"

definition settle_view :: "tui_env \<Rightarrow> int \<Rightarrow> int \<Rightarrow> tui \<Rightarrow> tui" where
  "settle_view E w height m =
     (let m1 = m\<lparr>md_Selected := max 0 (min (md_Selected m) (int (length (Rows (te_std E) m)) - 1))\<rparr>;
          m2 = (if md_Editing m1 \<noteq> [] then m1\<lparr>md_Cursor := clamp 0 (int (length (runes (md_Query m1)))) (md_Cursor m1)\<rparr> else m1) in
      case (if md_Detail m2 then md_FrozenDetail m2 else None) of
        Some r \<Rightarrow> m2\<lparr>md_DetailScroll := clamp 0 (max 0 (int (length (detail_lines E w m2 r)) - height)) (md_DetailScroll m2)\<rparr>
      | None \<Rightarrow>
          (let scroll = clamp 0 (md_Selected m2) (md_Scroll m2) in
           m2\<lparr>md_Scroll := (if scroll + height \<le> md_Selected m2 then md_Selected m2 - height + 1 else scroll)\<rparr>))"

definition body_lines :: "tui_env \<Rightarrow> int \<Rightarrow> int \<Rightarrow> tui \<Rightarrow> string list" where
  "body_lines E w height m =
     (case (if md_Detail m then md_FrozenDetail m else None) of
        Some r \<Rightarrow> take (nat height) (drop (nat (md_DetailScroll m)) (detail_lines E w m r))
      | None \<Rightarrow>
          (let rows = Rows (te_std E) m; first = nat (md_Scroll m) in
           map (\<lambda>i. row_line E w m i (rows ! i)) [first..<min (length rows) (first + nat height)] @
           (if rows = [] then [emptyState E m] else [])))"

definition pad_lines :: "nat \<Rightarrow> string list \<Rightarrow> string list" where
  "pad_lines n ls = ls @ replicate (n - length ls) []"

definition frame_lines :: "tui_env \<Rightarrow> int \<Rightarrow> int \<Rightarrow> tui \<Rightarrow> string list" where
  "frame_lines E w h m =
     pad_lines (nat (h - 1)) (head_lines E m @ body_lines E w (h - 7) m) @ [foot_line E m (length (Rows (te_std E) m))]"

definition paint :: "tui_env \<Rightarrow> int \<Rightarrow> int \<Rightarrow> string list \<Rightarrow> string" where
  "paint E w h ls = esc ''[H'' @ Join (map (\<lambda>l. esc ''[2K'' @ fit E l (w - 1)) (take (nat h) ls)) [CHR 0x0D, CHR 0x0A]"

definition Render :: "tui_env \<Rightarrow> int \<Rightarrow> int \<Rightarrow> tui \<Rightarrow> string \<times> tui" where
  "Render E w0 h0 m =
     (let w = max 20 w0; h = max 8 h0; m' = settle_view E w (h - 7) m in (paint E w h (frame_lines E w h m'), m'))"

section \<open>Keys\<close>

text \<open>Without a row under the selection the detail stays what it was.\<close>

definition freezeDetail :: "std \<Rightarrow> tui \<Rightarrow> tui" where
  "freezeDetail S m =
     (let rows = Rows S m in
      if md_Selected m < 0 \<or> int (length rows) \<le> md_Selected m then m
      else m\<lparr>md_FrozenDetail := Some (rows ! nat (md_Selected m)), md_FrozenEvents := tui_events m\<rparr>)"

definition csi :: "string \<Rightarrow> string" where
  "csi s = CHR 0x1B # CHR ''['' # s"

definition ctrl :: "nat \<Rightarrow> string" where
  "ctrl n = [char_of n]"

definition next_budget :: "int \<Rightarrow> int" where
  "next_budget b = (if b = 4 then 16 else if b = 16 then 64 else 4)"

text \<open>The editor: the query as runes with the cursor among them.\<close>

definition edit_runes :: "string \<Rightarrow> nat list \<Rightarrow> int \<Rightarrow> nat list \<times> int" where
  "edit_runes key query c =
     (if key = ctrl 21 then ([], 0)
      else if key = csi ''D'' then (query, max 0 (c - 1))
      else if key = csi ''C'' then (query, min (int (length query)) (c + 1))
      else if key = csi ''H'' \<or> key = csi ''1~'' then (query, 0)
      else if key = csi ''F'' \<or> key = csi ''4~'' then (query, int (length query))
      else if key = ctrl 127 \<or> key = ctrl 8 then
        (if 0 < c then (take (nat (c - 1)) query @ drop (nat c) query, c - 1) else (query, c))
      else if key = csi ''3~'' then
        (if c < int (length query) then take (nat c) query @ drop (nat (c + 1)) query else query, c)
      else if length query < 500 \<and> \<not> HasPrefix key (esc []) \<and> '' '' \<le> key then
        (take (nat c) query @ runes key @ drop (nat c) query, c + int (length (runes key)))
      else (query, c))"

definition edit_key :: "string \<Rightarrow> tui \<Rightarrow> tui \<times> bool \<times> bool" where
  "edit_key key m =
     (let query = runes (md_Query m); c = clamp 0 (int (length query)) (md_Cursor m); m0 = m\<lparr>md_Cursor := c\<rparr>;
          same = string_of_runes query in
      if key = esc [] then (m0\<lparr>md_Editing := [], md_Query := same\<rparr>, False, False)
      else if key = ctrl 13 \<or> key = ctrl 10 then (m0\<lparr>md_Query := same\<rparr>, False, True)
      else if key = ctrl 3 then (m0\<lparr>md_Query := same\<rparr>, True, False)
      else if key = ctrl 9 then
        (m0\<lparr>md_Editing := (if md_Editing m = ''Ask Jev'' then ''Exact text'' else ''Ask Jev''), md_Query := same\<rparr>, False, False)
      else if key = ctrl 2 then (m0\<lparr>md_SearchBudget := next_budget (md_SearchBudget m), md_Query := same\<rparr>, False, False)
      else (case edit_runes key query c of (query', c') \<Rightarrow>
        (m0\<lparr>md_Cursor := c', md_Query := string_of_runes query'\<rparr>, False, False)))"

definition move_down :: "int \<Rightarrow> tui \<Rightarrow> tui" where
  "move_down n m = (if md_Detail m then m\<lparr>md_DetailScroll := md_DetailScroll m + n\<rparr> else m\<lparr>md_Selected := md_Selected m + n\<rparr>)"

definition move_up :: "int \<Rightarrow> tui \<Rightarrow> tui" where
  "move_up n m = (if md_Detail m then m\<lparr>md_DetailScroll := max 0 (md_DetailScroll m - n)\<rparr>
     else m\<lparr>md_Selected := max 0 (md_Selected m - n)\<rparr>)"

definition go_tab :: "int \<Rightarrow> tui \<Rightarrow> tui" where
  "go_tab t m = m\<lparr>md_Tab := t, md_Selected := 0, md_Detail := False\<rparr>"

definition browse_key :: "std \<Rightarrow> string \<Rightarrow> tui \<Rightarrow> tui" where
  "browse_key S key m =
     (if key = esc [] then m\<lparr>md_Detail := False, md_Instances := False\<rparr>
      else if key = ctrl 9 \<or> key = csi ''C'' then go_tab ((md_Tab m + 1) mod 5) m
      else if key = csi ''D'' \<or> key = csi ''Z'' then go_tab ((md_Tab m + 4) mod 5) m
      else if key \<in> {''1'', ''2'', ''3'', ''4'', ''5''} then go_tab (int (byte (key ! 0)) - 49) m
      else if key = ''j'' \<or> key = csi ''B'' then move_down 1 m
      else if key = ''k'' \<or> key = csi ''A'' then move_up 1 m
      else if key = csi ''6~'' then move_down 10 m
      else if key = csi ''5~'' then move_up 10 m
      else if key = ctrl 13 \<or> key = ctrl 10 then
        (let m1 = m\<lparr>md_Detail := \<not> md_Detail m\<rparr>; m2 = (if md_Detail m1 then freezeDetail S m1 else m1) in m2\<lparr>md_DetailScroll := 0\<rparr>)
      else if key = csi ''H'' \<or> key = csi ''1~'' then m\<lparr>md_Selected := 0, md_DetailScroll := 0\<rparr>
      else if key = csi ''F'' \<or> key = csi ''4~'' then
        m\<lparr>md_Selected := max 0 (int (length (Rows S m)) - 1), md_DetailScroll := 1000000\<rparr>
      else if key = ''g'' then m\<lparr>md_Grouped := \<not> md_Grouped m, md_Selected := 0\<rparr>
      else if key = ''i'' then
        (let m1 = (if \<not> md_Detail m then freezeDetail S m else m) in m1\<lparr>md_Detail := True, md_Instances := \<not> md_Instances m1\<rparr>)
      else if key = ''f'' \<or> key = ''/'' \<or> key = ''?'' then
        m\<lparr>md_Query := [], md_Cursor := 0, md_Editing := (if key = ''f'' then ''Exact text'' else ''Ask Jev'')\<rparr>
      else m)"

text \<open>\<open>Key\<close> returns the view, \<open>quit\<close> and \<open>submit\<close>.\<close>

definition tui_Key :: "std \<Rightarrow> string \<Rightarrow> tui \<Rightarrow> tui \<times> bool \<times> bool" where
  "tui_Key S key m =
     (if md_Editing m \<noteq> [] then edit_key key m
      else if key = ''q'' \<or> key = ''Q'' \<or> key = ctrl 3 then (m, True, False)
      else (browse_key S key m, False, False))"

section \<open>The search behind the view\<close>

text \<open>
  \<open>refreshSearch\<close> reads the run several times while its worker may go on: \<open>looks n\<close> is the run as the \<open>n\<close>-th
  call of \<open>Snapshot\<close> finds it, \<open>clock n\<close> the time of that call.  The frozen events of a run never change.
\<close>

definition result_label :: "tui_env \<Rightarrow> search_result \<Rightarrow> string" where
  "result_label E r = rl_Relevance (sr_Relevance r) @
     (case rl_Confidence (sr_Relevance r) of None \<Rightarrow> [] | Some c \<Rightarrow> '' '' @ te_fixed E 0 (fmul c (Fin 100)) @ ''%'')"

definition result_pages :: "(nat \<Rightarrow> gotime) \<Rightarrow> (nat \<Rightarrow> run) \<Rightarrow> nat \<Rightarrow> search_result list" where
  "result_pages now looks n =
     concat (map (\<lambda>p. sn_results (Snapshot (now (Suc p)) (int (20 * p)) (looks (Suc p)))) [0..<(n + 19) div 20])"

definition text_key :: "std \<Rightarrow> event \<Rightarrow> string" where
  "text_key S e = Hash S (JArr [JObj (ev_Source e), JStr (ev_Text e)])"

definition search_line :: "tui_env \<Rightarrow> snapshot \<Rightarrow> string" where
  "search_line E sn = ''Search: '' @ sn_message sn @ '' '' @ dot @ '' '' @ show_nat (sn_examined sn) @ ''/'' @ show_nat (sn_total_groups sn) @
     '' groups '' @ dot @ '' '' @ show_nat (sn_hits sn) @ '' cached '' @ dot @ '' '' @ show_nat (u_Attempts (sn_usage sn)) @ '' requests '' @ dot @
     '' $'' @ te_fixed E 6 (u_Cost (sn_usage sn))"

definition refreshSearch :: "tui_env \<Rightarrow> (nat \<Rightarrow> gotime) \<Rightarrow> (nat \<Rightarrow> run) \<Rightarrow> tui \<Rightarrow> tui" where
  "refreshSearch E now looks m =
     (case md_Search m of
        None \<Rightarrow> m
      | Some i \<Rightarrow>
          (let S = te_std E; snap = Snapshot (now 0) 0 (looks 0);
               results = result_pages now looks (sn_result_count snap);
               labels = foldl (\<lambda>l r. mput (sr_EventID r) (result_label E r) l) [] results;
               events = rn_Events (looks 0);
               hits = filter (\<lambda>e. mhas labels (ev_ID e)) events;
               keys = map (text_key S) hits in
           m\<lparr>md_Message := search_line E snap,
             md_SearchLabels := foldl (\<lambda>l e. mput (text_key S e) (mgetd [] labels (ev_ID e)) l) [] hits,
             md_Results := filter (\<lambda>e. text_key S e \<in> set keys) events\<rparr>))"

section \<open>The key loop of \<open>Run\<close>\<close>

text \<open>
  \<open>ui_runs\<close> are the searches started so far with their client, \<open>ui_stop\<close> the one whose context \<open>stopSearch\<close>
  cancels and \<open>ui_stopped\<close> those it was called for.
\<close>

record 'c tui_run =
  ui_view :: tui
  ui_stop :: "nat option"
  ui_stopped :: "nat list"
  ui_runs :: "(run \<times> 'c option) list"

record 'c tui_options =
  to_Offline :: bool
  to_Client :: "(int \<Rightarrow> 'c result) option"
  to_error :: "goerror \<Rightarrow> string"

datatype pressed = Going | Quit | Interrupted | Broken

definition stop_search :: "'c tui_run \<Rightarrow> 'c tui_run" where
  "stop_search u = (case ui_stop u of None \<Rightarrow> u | Some i \<Rightarrow> u\<lparr>ui_stopped := ui_stopped u @ [i]\<rparr>)"

definition say :: "string \<Rightarrow> 'c tui_run \<Rightarrow> 'c tui_run" where
  "say t u = u\<lparr>ui_view := (ui_view u)\<lparr>md_Message := t\<rparr>\<rparr>"

definition start_search :: "run \<Rightarrow> 'c option \<Rightarrow> 'c tui_run \<Rightarrow> 'c tui_run" where
  "start_search r client u =
     u\<lparr>ui_stop := Some (length (ui_runs u)), ui_runs := ui_runs u @ [(r, client)],
       ui_view := (ui_view u)\<lparr>md_Search := Some (length (ui_runs u)), md_Tab := 4, md_Detail := False, md_Results := [],
         md_Message := ''Searching frozen retained window'' @ ellipsis\<rparr>\<rparr>"

definition submit_search :: "std \<Rightarrow> gotime \<Rightarrow> 'c tui_options \<Rightarrow> 'c tui_run \<Rightarrow> 'c tui_run" where
  "submit_search S now O' u0 =
     (let u1 = stop_search u0; mode = (if md_Editing (ui_view u1) = ''Ask Jev'' then ''jev'' else ''literal'');
          u2 = u1\<lparr>ui_view := (ui_view u1)\<lparr>md_Editing := []\<rparr>\<rparr>; m = ui_view u2 in
      if mode = ''jev'' \<and> to_Offline O' then say ''Offline: press f for exact text search'' u2
      else case Search_New S now (md_Events m) (md_Query m) mode (md_SearchBudget m) (Some (md_cache m)) of
        Inl e \<Rightarrow> say (to_error O' e) u2
      | Inr r \<Rightarrow>
          (case (if mode = ''jev'' then to_Client O' else None) of
             None \<Rightarrow> start_search r None u2
           | Some open_client \<Rightarrow> (case open_client (md_SearchBudget m) of
               Inl e \<Rightarrow> say (to_error O' e) u2
             | Inr c \<Rightarrow> start_search r (Some c) u2)))"

text \<open>The tab under column \<open>x\<close> of the third line.\<close>

fun tab_at :: "int \<Rightarrow> int \<Rightarrow> int \<Rightarrow> nat \<Rightarrow> string list \<Rightarrow> nat option" where
  "tab_at x tab start i [] = None"
| "tab_at x tab start i (label # labels) =
     (let n = int (length label) + 4 + (if int i = tab then 2 else 0) in
      if start \<le> x \<and> x < start + n then Some i else tab_at x tab (start + n) (Suc i) labels)"

definition mouse_key :: "std \<Rightarrow> string \<Rightarrow> tui \<Rightarrow> tui" where
  "mouse_key S key m =
     (if \<not> HasSuffix key ''M'' then m
      else case scan_mouse key of (button, x, y) \<Rightarrow>
        if button = 64 then fst (tui_Key S ''k'' m)
        else if button = 65 then fst (tui_Key S ''j'' m)
        else if button = 0 then
          (if y = 3 then
             (case tab_at x (md_Tab m) 1 0 tabs of None \<Rightarrow> m | Some i \<Rightarrow> fst (tui_Key S (show_nat (i + 1)) m))
           else if 6 \<le> y then m\<lparr>md_Selected := md_Scroll m + y - 6\<rparr>
           else m)
        else m)"

definition press :: "std \<Rightarrow> gotime \<Rightarrow> 'c tui_options \<Rightarrow> string \<Rightarrow> 'c tui_run \<Rightarrow> 'c tui_run \<times> pressed" where
  "press S now O' key u =
     (let m = ui_view u in
      if HasPrefix key (csi ''<'') then (u\<lparr>ui_view := mouse_key S key m\<rparr>, Going)
      else if key = ctrl 3 then (u, Interrupted)
      else if key = ''x'' \<and> md_Editing m = [] \<and> md_Tab m = 4 \<and> ui_stop u \<noteq> None then
        (say (''Stopping search'' @ ellipsis) (stop_search u), Going)
      else case tui_Key S key m of (m', quit, submit) \<Rightarrow>
        (let u' = u\<lparr>ui_view := m'\<rparr> in
         if quit then (u', Quit) else if submit then (submit_search S now O' u', Going) else (u', Going)))"

text \<open>
  The loop over the pending bytes: \<open>late n\<close> says whether more than 150 ms have passed since the last input when
  the \<open>n\<close>-th round finds no complete key; then one byte is taken and stands for the escape key.
\<close>

function drain_keys :: "std \<Rightarrow> (nat \<Rightarrow> gotime) \<Rightarrow> 'c tui_options \<Rightarrow> (nat \<Rightarrow> bool) \<Rightarrow> nat \<Rightarrow> string \<Rightarrow> 'c tui_run
    \<Rightarrow> string \<times> 'c tui_run \<times> pressed" where
  "drain_keys S now O' late n pending u =
     (if pending = [] then (pending, u, Going)
      else case nextKey pending of
        Some (key, rest) \<Rightarrow>
          (case press S (now n) O' key u of
             (u', Going) \<Rightarrow> drain_keys S now O' late (Suc n) rest u'
           | (u', p) \<Rightarrow> (rest, u', p))
      | None \<Rightarrow>
          (if late n then
             (case press S (now n) O' (esc []) u of
                (u', Going) \<Rightarrow> drain_keys S now O' late (Suc n) (drop 1 pending) u'
              | (u', p) \<Rightarrow> (drop 1 pending, u', p))
           else (pending, u, Going)))"
  by pat_completeness auto
termination
proof (relation "measure (\<lambda>(S, now, O', late, n, pending, u). length pending)", goal_cases)
  case 1
  then show ?case by simp
next
  case (2 S now O' late n pending u)
  then show ?case by (cases pending) auto
next
  case (3 S now O' late n pending u)
  have "nextKey pending = Some (k, t) \<Longrightarrow> length t < length pending" for k t by (rule nextKey_shorter)
  with 3 show ?case by auto
qed

declare drain_keys.simps [simp del]

section \<open>Rounds\<close>

text \<open>
  One round of the loop of \<open>Run\<close>: what the \<open>select\<close> received, the size of the terminal (or that it is unknown), the
  bytes read in the frame, and whether the frame failed.  A finished search the view no longer shows skips the
  rest of the round and paints nothing.
\<close>

datatype received = Updated tui_view | Finished completion | SearchDone nat | Closed | Nothing

record round_input =
  ri_received :: received
  ri_size :: "(int \<times> int) option"
  ri_read :: string
  ri_fails :: bool
  ri_late :: "nat \<Rightarrow> bool"
  ri_now :: "nat \<Rightarrow> gotime"
  ri_looks :: "nat \<Rightarrow> nat \<Rightarrow> run"

definition receive :: "std \<Rightarrow> received \<Rightarrow> tui \<Rightarrow> tui" where
  "receive S r m = (case r of
     Updated v \<Rightarrow> tui_Update S v m
   | Finished c \<Rightarrow> m\<lparr>md_Outcome := c, md_Done := True\<rparr>
   | _ \<Rightarrow> m)"

definition looks_at :: "round_input \<Rightarrow> tui \<Rightarrow> nat \<Rightarrow> run" where
  "looks_at inp m = ri_looks inp (case md_Search m of None \<Rightarrow> 0 | Some i \<Rightarrow> i)"

definition tui_frame :: "tui_env \<Rightarrow> 'c tui_options \<Rightarrow> round_input \<Rightarrow> string \<Rightarrow> tui \<Rightarrow> 'c tui_run
    \<Rightarrow> string \<times> string \<times> 'c tui_run \<times> pressed" where
  "tui_frame E O' inp pending m u =
     (let m1 = refreshSearch E (ri_now inp) (looks_at inp m) m in
      case (case ri_size inp of None \<Rightarrow> Render E 100 30 m1 | Some (w, h) \<Rightarrow> Render E w h m1) of
        (out, m2) \<Rightarrow>
          (if ri_fails inp then (out, pending, u\<lparr>ui_view := m2\<rparr>, Broken)
           else (out, drain_keys (te_std E) (ri_now inp) O' (ri_late inp) 0 (pending @ ri_read inp) (u\<lparr>ui_view := m2\<rparr>))))"

definition stale_search :: "received \<Rightarrow> tui \<Rightarrow> bool" where
  "stale_search r m = (case r of SearchDone i \<Rightarrow> md_Search m \<noteq> Some i | _ \<Rightarrow> False)"

definition tui_round :: "tui_env \<Rightarrow> 'c tui_options \<Rightarrow> round_input \<Rightarrow> string \<Rightarrow> 'c tui_run
    \<Rightarrow> string \<times> string \<times> 'c tui_run \<times> pressed" where
  "tui_round E O' inp pending u =
     (if stale_search (ri_received inp) (ui_view u) then ([], pending, u, Going)
      else tui_frame E O' inp pending (receive (te_std E) (ri_received inp) (ui_view u)) u)"

text \<open>The frames painted and the state at the end of the rounds.\<close>

fun tui_rounds :: "tui_env \<Rightarrow> 'c tui_options \<Rightarrow> round_input list \<Rightarrow> string \<Rightarrow> 'c tui_run \<Rightarrow> string list \<times> 'c tui_run \<times> pressed" where
  "tui_rounds E O' [] pending u = ([], u, Going)"
| "tui_rounds E O' (inp # inps) pending u =
     (case tui_round E O' inp pending u of
        (out, pending', u', Going) \<Rightarrow> (case tui_rounds E O' inps pending' u' of (outs, u'', p) \<Rightarrow> (out # outs, u'', p))
      | (out, pending', u', p) \<Rightarrow> ([out], u', p))"

end
