(* ===== verification/Reviews.thy ===== *)
theory Reviews
  imports Tui Report
begin

text \<open>
  \<open>internal/investigation/reviews.go\<close> and \<open>reviewer.go\<close>: reports as untyped JSON objects, the rules file of the reviewer,
  the projection of the human rules and acknowledgements onto a report, the review actions that change the rules,
  and the reviewer that applies them before a provider is asked.
\<close>

section \<open>Untyped objects\<close>

text \<open>A Go \<open>any\<close> that holds decoded JSON.\<close>

datatype govalue =
    VNil
  | VBool bool
  | VNum f64
  | VStr string
  | VArr "govalue list"
  | VObj "(string \<times> govalue) list"

type_synonym object = "(string, govalue) gomap"

definition field_value :: "object \<Rightarrow> string \<Rightarrow> govalue" where
  "field_value m k = mgetd VNil m k"

definition str_of :: "object \<Rightarrow> string \<Rightarrow> string" where
  "str_of m k = (case mget m k of Some (VStr s) \<Rightarrow> s | _ \<Rightarrow> [])"

definition obj_of :: "object \<Rightarrow> string \<Rightarrow> object" where
  "obj_of m k = (case mget m k of Some (VObj v) \<Rightarrow> v | _ \<Rightarrow> [])"

definition list_of :: "object \<Rightarrow> string \<Rightarrow> govalue list option" where
  "list_of m k = (case mget m k of Some (VArr v) \<Rightarrow> Some v | _ \<Rightarrow> None)"

definition items :: "object \<Rightarrow> string \<Rightarrow> govalue list" where
  "items m k = (case list_of m k of None \<Rightarrow> [] | Some v \<Rightarrow> v)"

definition number_of :: "object \<Rightarrow> string \<Rightarrow> f64" where
  "number_of m k = (case mget m k of Some (VNum v) \<Rightarrow> v | _ \<Rightarrow> Fin 0)"

definition as_obj :: "govalue \<Rightarrow> object" where
  "as_obj v = (case v of VObj m \<Rightarrow> m | _ \<Rightarrow> [])"

text \<open>\<open>reflect.DeepEqual\<close> on such values.\<close>

fun deep_equal :: "govalue \<Rightarrow> govalue \<Rightarrow> bool" where
  "deep_equal VNil w = (w = VNil)"
| "deep_equal (VBool a) w = (w = VBool a)"
| "deep_equal (VNum a) w = (case w of VNum b \<Rightarrow> f64_eq a b | _ \<Rightarrow> False)"
| "deep_equal (VStr a) w = (w = VStr a)"
| "deep_equal (VArr vs) w = (case w of VArr ws \<Rightarrow> list_all2 deep_equal vs ws | _ \<Rightarrow> False)"
| "deep_equal (VObj m) w = (case w of
     VObj n \<Rightarrow> length m = length n \<and> list_all (\<lambda>(k, v). case mget n k of None \<Rightarrow> False | Some u \<Rightarrow> deep_equal v u) m
   | _ \<Rightarrow> False)"

section \<open>Encoding and decoding\<close>

text \<open>A number that is no \<open>float64\<close> fails the decoding; a later member replaces an earlier one with its key.\<close>

fun of_json :: "std \<Rightarrow> json \<Rightarrow> govalue option" where
  "of_json S JNull = Some VNil"
| "of_json S (JBool b) = Some (VBool b)"
| "of_json S (JNum l) = map_option VNum (parse_f64 S l)"
| "of_json S (JStr s) = Some (VStr s)"
| "of_json S (JArr vs) = map_option VArr (those (map (of_json S) vs))"
| "of_json S (JObj kvs) = map_option (\<lambda>ps. VObj (foldl (\<lambda>m (k, v). mput k v m) [] ps))
     (those (map (\<lambda>(k, v). map_option (Pair k) (of_json S v)) kvs))"

fun to_json :: "std \<Rightarrow> govalue \<Rightarrow> json" where
  "to_json S VNil = JNull"
| "to_json S (VBool b) = JBool b"
| "to_json S (VNum x) = JNum (fmt_f64 S x)"
| "to_json S (VStr s) = JStr s"
| "to_json S (VArr vs) = JArr (map (to_json S) vs)"
| "to_json S (VObj kvs) = JObj (map (\<lambda>(k, v). (k, to_json S v)) kvs)"

fun finite_value :: "govalue \<Rightarrow> bool" where
  "finite_value (VNum x) = (case x of Fin q \<Rightarrow> True | _ \<Rightarrow> False)"
| "finite_value (VArr vs) = list_all finite_value vs"
| "finite_value (VObj kvs) = list_all (\<lambda>(k, v). finite_value v) kvs"
| "finite_value v = True"

fun clean_value :: "govalue \<Rightarrow> govalue" where
  "clean_value (VStr s) = VStr (sanitize s)"
| "clean_value (VArr vs) = VArr (map clean_value vs)"
| "clean_value (VObj kvs) =
     VObj (foldl (\<lambda>m (k, v). mput k v m) [] (map (\<lambda>(k, v). (sanitize k, clean_value v)) (sort_key fst kvs)))"
| "clean_value v = v"

text \<open>
  \<open>clone\<close> writes a value as JSON and reads it back: strings lose their invalid bytes, a \<open>float64\<close> keeps its value.
  \<open>None\<close> is the nil map left by a number that JSON cannot express.
\<close>

definition clone :: "object \<Rightarrow> object option" where
  "clone m = (if finite_value (VObj m) then Some (as_obj (clean_value (VObj m))) else None)"

section \<open>Reports\<close>

definition valid_entry :: "govalue \<Rightarrow> bool" where
  "valid_entry raw = (case raw of
     VObj e \<Rightarrow> str_of e ''id'' \<noteq> [] \<and> (case mget e ''text'' of Some (VStr _) \<Rightarrow> True | _ \<Rightarrow> False) \<and>
       (case mget e ''source'' of Some (VObj _) \<Rightarrow> True | _ \<Rightarrow> False)
   | _ \<Rightarrow> False)"

definition valid_collection :: "object \<Rightarrow> string \<Rightarrow> bool" where
  "valid_collection v key = (case mget v key of
     None \<Rightarrow> True
   | Some (VArr vs) \<Rightarrow> length vs \<le> 100000 \<and> list_all valid_entry vs
   | Some _ \<Rightarrow> False)"

definition validReport :: "object \<Rightarrow> bool" where
  "validReport v =
     ((f64_eq (number_of v ''schema_version'') (Fin 1) \<or> f64_eq (number_of v ''schema_version'') (Fin 2)) \<and>
      (case mget v ''summary'' of Some (VObj _) \<Rightarrow> True | _ \<Rightarrow> False) \<and>
      (case mget v ''events'' of Some (VArr vs) \<Rightarrow> length vs \<le> 100000 | _ \<Rightarrow> False) \<and>
      valid_collection v ''events'' \<and> valid_collection v ''tail_events'')"

definition default_to :: "govalue \<Rightarrow> string \<Rightarrow> object \<Rightarrow> object" where
  "default_to d k m = (if field_value m k = VNil then mput k d m else m)"

definition zero_fields :: "string list" where
  "zero_fields = [''events'', ''lines'', ''important'', ''routine'', ''uncertain'', ''unknown'', ''streams'', ''coverage_gaps'',
     ''api_requests'', ''reused_events'']"

text \<open>\<open>max\<close> of two numbers, the first of them zero.\<close>

definition max_zero :: "f64 \<Rightarrow> f64" where
  "max_zero x = (if x = FNaN then FNaN else if f64_le x (Fin 0) then Fin 0 else x)"

definition fsub :: "f64 \<Rightarrow> f64 \<Rightarrow> f64" where
  "fsub a b = fadd a (fneg b)"

definition put_obj :: "string \<Rightarrow> (object \<Rightarrow> object) \<Rightarrow> object \<Rightarrow> object" where
  "put_obj k f v = (case mget v k of Some (VObj m) \<Rightarrow> mput k (VObj (f m)) v | _ \<Rightarrow> v)"

definition price_field :: "object \<Rightarrow> string \<Rightarrow> string \<Rightarrow> object \<Rightarrow> object" where
  "price_field v k price u = default_to (VStr ''unknown'') k (default_to (field_value v price) k u)"

definition normalize_usage :: "object \<Rightarrow> object \<Rightarrow> object" where
  "normalize_usage v u =
     (if u = [] then u
      else let u1 = price_field v ''output_usd_per_million'' ''output_price'' (price_field v ''input_usd_per_million'' ''input_price'' u) in
        mput ''in_flight'' (VNum (max_zero (fsub (number_of u1 ''request_attempts'') (number_of u1 ''requests_finished'')))) u1)"

definition normalize_report :: "object \<Rightarrow> object" where
  "normalize_report v0 =
     (let v1 = default_to (VArr []) ''important_groups'' (default_to (VArr []) ''coverage'' v0);
          v2 = put_obj ''summary'' (\<lambda>m. foldl (\<lambda>m k. default_to (VNum (Fin 0)) k m) m zero_fields) v1;
          v3 = (if str_of v2 ''mode'' = ''typesafe'' then mput ''mode'' (VStr ''jev'') v2 else v2) in
      put_obj ''usage'' (normalize_usage v3) v3)"

text \<open>The JSON object a strict decoder reads into a map; \<open>null\<close> leaves the nil map.\<close>

definition dec_object :: "std \<Rightarrow> json \<Rightarrow> object option" where
  "dec_object S j = (case j of JNull \<Rightarrow> Some [] | JObj _ \<Rightarrow> map_option as_obj (of_json S j) | _ \<Rightarrow> None)"

text \<open>\<open>None\<close>: the file could not be read within its limit.\<close>

definition readReport :: "std \<Rightarrow> string option \<Rightarrow> object result" where
  "readReport S raw = (case raw of
     None \<Rightarrow> Inl (Err ''report unavailable'')
   | Some text \<Rightarrow> (case Strict (dec_object S) text of
        Inl e \<Rightarrow> Inl (Err ''invalid report'')
      | Inr v \<Rightarrow> if validReport v then Inr (normalize_report v) else Inl (Err ''invalid report'')))"

section \<open>The rules file\<close>

fun first_error :: "('a \<Rightarrow> status) \<Rightarrow> 'a list \<Rightarrow> status" where
  "first_error f [] = None"
| "first_error f (x # xs) = (case f x of None \<Rightarrow> first_error f xs | Some e \<Rightarrow> Some e)"

definition ack_id_ok :: "govalue \<Rightarrow> bool" where
  "ack_id_ok raw = (case raw of VStr i \<Rightarrow> i \<noteq> [] \<and> length i \<le> 256 | _ \<Rightarrow> False)"

definition ack_status :: "string \<times> govalue \<Rightarrow> status" where
  "ack_status kv = (case kv of (key, raw) \<Rightarrow> (case raw of
     VArr ids \<Rightarrow>
       (if 4096 < length key then Some (Err ''invalid acknowledgements'')
        else if \<not> list_all ack_id_ok ids then Some (Err ''invalid acknowledgement identity'') else None)
   | _ \<Rightarrow> Some (Err ''invalid acknowledgements'')))"

definition integral :: "f64 \<Rightarrow> bool" where
  "integral x = (case x of Fin q \<Rightarrow> of_int \<lfloor>q\<rfloor> = q | FNaN \<Rightarrow> False | _ \<Rightarrow> True)"

definition scope_value_ok :: "string \<times> govalue \<Rightarrow> bool" where
  "scope_value_ok kv = (case kv of (key, value) \<Rightarrow> length key \<le> 256 \<and> (case value of
     VStr s \<Rightarrow> length (runes s) \<le> 4096 | VBool _ \<Rightarrow> True | VNum x \<Rightarrow> integral x | _ \<Rightarrow> False))"

definition rule_status :: "govalue \<Rightarrow> status" where
  "rule_status raw = (case raw of
     VObj r \<Rightarrow>
       (if str_of r ''id'' = [] \<or> 256 < length (runes (str_of r ''id'')) \<or> has_control (str_of r ''id'') \<or> str_of r ''pattern'' = [] \<or>
           obj_of r ''scope'' = [] \<or> 32 < length (obj_of r ''scope'')
        then Some (Err ''invalid review rule'')
        else if \<not> (case mget r ''enabled'' of Some (VBool _) \<Rightarrow> True | _ \<Rightarrow> False) then Some (Err ''invalid rule enabled state'')
        else if 500 < length (runes (str_of r ''pattern'')) \<or> has_control (str_of r ''pattern'') then Some (Err ''invalid rule pattern'')
        else if str_of r ''match'' \<notin> {[], ''exact'', ''contains''} then Some (Err ''invalid rule match'')
        else if \<not> list_all scope_value_ok (obj_of r ''scope'') then Some (Err ''invalid literal source scope'')
        else None)
   | _ \<Rightarrow> Some (Err ''invalid review rule''))"

fun rules_status :: "govalue list \<Rightarrow> (string, object) gomap \<Rightarrow> status" where
  "rules_status [] identities = None"
| "rules_status (raw # rs) identities =
     (case rule_status raw of
        Some e \<Rightarrow> Some e
      | None \<Rightarrow>
          (let r = as_obj raw in
           if (case mget identities (str_of r ''id'') of None \<Rightarrow> False | Some prior \<Rightarrow> \<not> deep_equal (VObj prior) (VObj r))
           then Some (Err ''conflicting duplicate rule identity'')
           else rules_status rs (mput (str_of r ''id'') r identities)))"

definition check_rules :: "object \<Rightarrow> status" where
  "check_rules v =
     (if \<not> f64_eq (number_of v ''version'') (Fin 1) \<or> field_value v ''rules'' = VNil \<or> field_value v ''acknowledged'' = VNil
      then Some (Err ''invalid review rules'')
      else case (field_value v ''rules'', field_value v ''acknowledged'') of
        (VArr rs, VObj acks) \<Rightarrow>
          (case first_error ack_status acks of Some e \<Rightarrow> Some e | None \<Rightarrow> rules_status rs [])
      | _ \<Rightarrow> Some (Err ''invalid review rules''))"

text \<open>\<open>Absent\<close> is a file that does not exist, also when that shows only after the failed read.\<close>

datatype rules_file = Absent | Unreadable | Contents string

definition empty_rules :: object where
  "empty_rules = [(''version'', VNum (Fin 1)), (''rules'', VArr []), (''acknowledged'', VObj [])]"

definition load_review_rules :: "std \<Rightarrow> rules_file \<Rightarrow> object result" where
  "load_review_rules S f = (case f of
     Absent \<Rightarrow> Inr empty_rules
   | Unreadable \<Rightarrow> Inl (Err ''review rules unavailable'')
   | Contents raw \<Rightarrow> (case Strict (dec_object S) raw of
        Inl e \<Rightarrow> Inl (Err ''invalid review rules'')
      | Inr v \<Rightarrow> (case check_rules v of None \<Rightarrow> Inr v | Some e \<Rightarrow> Inl e)))"

section \<open>The projection\<close>

definition judgment_fields :: "string list" where
  "judgment_fields = [''importance'', ''severity'', ''category'', ''importance_confidence'', ''severity_confidence'', ''category_confidence'',
     ''analysis_error'']"

definition del_keys :: "string list \<Rightarrow> object \<Rightarrow> object" where
  "del_keys ks m = foldl (\<lambda>m k. mdel k m) m ks"

definition put_all :: "object \<Rightarrow> object \<Rightarrow> object" where
  "put_all kvs m = foldl (\<lambda>m (k, v). mput k v m) m kvs"

text \<open>The judgment the event had before any rule was applied to it.\<close>

definition restore_event :: "object \<Rightarrow> object" where
  "restore_event e = mdel ''review'' (case mget e ''original_judgment'' of
     Some (VObj original) \<Rightarrow> mdel ''original_judgment'' (put_all original (del_keys judgment_fields e))
   | _ \<Rightarrow> e)"

definition rule_matches :: "object \<Rightarrow> object \<Rightarrow> bool" where
  "rule_matches e r =
     (mget r ''enabled'' = Some (VBool True) \<and>
      (if str_of r ''match'' = ''exact'' then TrimSpace (str_of e ''text'') = str_of r ''pattern''
       else Contains (str_of e ''text'') (str_of r ''pattern'')) \<and>
      list_all (\<lambda>(k, v). deep_equal (field_value (obj_of e ''source'') k) v) (obj_of r ''scope''))"

definition mark_event :: "object \<Rightarrow> object \<Rightarrow> object" where
  "mark_event review e =
     (let original = concat (map (\<lambda>k. case mget e k of None \<Rightarrow> [] | Some v \<Rightarrow> [(k, v)]) judgment_fields) in
      mput ''review'' (VObj review)
        (del_keys (drop 3 judgment_fields) (mput ''importance'' (VStr ''routine'') (mput ''original_judgment'' (VObj original) e))))"

definition project_event :: "string list \<Rightarrow> object list \<Rightarrow> object \<Rightarrow> object" where
  "project_event acks rs e0 =
     (let e = restore_event e0 in
      case find (rule_matches e) rs of
        Some r \<Rightarrow> mark_event [(''status'', VStr ''expected''), (''rule_id'', field_value r ''id'')] e
      | None \<Rightarrow> (if str_of e ''id'' \<in> set acks then mark_event [(''status'', VStr ''acknowledged'')] e else e))"

text \<open>One event moves from one count of the summary to another.\<close>

definition move_count :: "string \<Rightarrow> string \<Rightarrow> object \<Rightarrow> object" where
  "move_count before after m =
     (if before = after then m
      else let m1 = mput before (VNum (max_zero (fsub (number_of m before) (Fin 1)))) m in
        mput after (VNum (fadd (number_of m1 after) (Fin 1))) m1)"

fun project_list :: "(object \<Rightarrow> object) \<Rightarrow> govalue list \<Rightarrow> object \<Rightarrow> govalue list \<times> object" where
  "project_list f [] m = ([], m)"
| "project_list f (raw # raws) m =
     (case raw of
        VObj e \<Rightarrow>
          (let e' = f e; (rest, m') = project_list f raws (move_count (str_of e ''importance'') (str_of e' ''importance'') m) in
           (VObj e' # rest, m'))
      | _ \<Rightarrow> (let (rest, m') = project_list f raws m in (raw # rest, m')))"

definition put_list :: "string \<Rightarrow> govalue list \<Rightarrow> object \<Rightarrow> object" where
  "put_list k vs v = (if list_of v k = None then v else mput k (VArr vs) v)"

text \<open>The groups of the important events: most frequent first.\<close>

definition group_id :: "std \<Rightarrow> object \<Rightarrow> string" where
  "group_id S e = Hash S (JArr [to_json S (field_value e ''source''), to_json S (field_value e ''text'')])"

definition new_group :: "string \<Rightarrow> object \<Rightarrow> object" where
  "new_group i e = [(''id'', VStr i), (''source'', field_value e ''source''), (''text'', field_value e ''text''),
     (''severity'', field_value e ''severity''), (''category'', field_value e ''category''), (''count'', VNum (Fin 0)), (''event_ids'', VArr [])]"

definition add_to_group :: "std \<Rightarrow> (string, object) gomap \<Rightarrow> govalue \<Rightarrow> (string, object) gomap" where
  "add_to_group S groups raw = (case raw of
     VObj e \<Rightarrow>
       (if str_of e ''importance'' \<noteq> ''important'' then groups
        else let i = group_id S e; g = (case mget groups i of None \<Rightarrow> new_group i e | Some g \<Rightarrow> g);
                 g1 = mput ''count'' (VNum (fadd (number_of g ''count'') (Fin 1))) g in
          mput i (mput ''event_ids'' (VArr (items g1 ''event_ids'' @ [field_value e ''id''])) g1) groups)
   | _ \<Rightarrow> groups)"

definition group_before :: "object \<Rightarrow> object \<Rightarrow> bool" where
  "group_before a b =
     (if \<not> f64_eq (number_of a ''count'') (number_of b ''count'') then f64_lt (number_of b ''count'') (number_of a ''count'')
      else str_of a ''id'' < str_of b ''id'')"

definition project_groups :: "std \<Rightarrow> govalue list \<Rightarrow> govalue list" where
  "project_groups S events = map VObj (sort_stable group_before (map snd (foldl (add_to_group S) [] events)))"

definition acknowledged :: "object \<Rightarrow> string \<Rightarrow> string list" where
  "acknowledged rules key = concat (map (\<lambda>v. case v of VStr i \<Rightarrow> [i] | _ \<Rightarrow> []) (items (obj_of rules ''acknowledged'') key))"

definition rule_list :: "object \<Rightarrow> object list" where
  "rule_list rules = map as_obj (items rules ''rules'')"

text \<open>The projection of an already cloned report.\<close>

definition project_report :: "std \<Rightarrow> object \<Rightarrow> string \<Rightarrow> object \<Rightarrow> object" where
  "project_report S v key rules =
     (let f = project_event (acknowledged rules key) (rule_list rules);
          (events, m) = project_list f (items v ''events'') (obj_of v ''summary'');
          v1 = put_obj ''summary'' (\<lambda>_. m) (put_list ''events'' events v);
          v2 = put_list ''tail_events'' (fst (project_list f (items v ''tail_events'') [])) v1;
          v3 = mput ''important_groups'' (VArr (project_groups S (items v2 ''events''))) v2 in
      if f64_lt (Fin 0) (number_of (obj_of v3 ''summary'') ''unknown'')
      then put_obj ''summary'' (mput ''complete_within_window'' (VBool False)) v3 else v3)"

text \<open>\<open>None\<close>: the write to the nil map of a failed \<open>clone\<close> panics.\<close>

definition project :: "std \<Rightarrow> object \<Rightarrow> string \<Rightarrow> object \<Rightarrow> object option" where
  "project S v key rules = map_option (\<lambda>v. project_report S v key rules) (clone v)"

section \<open>Review actions\<close>

definition available_events :: "object \<Rightarrow> (string, object) gomap" where
  "available_events v = foldl (\<lambda>m raw. case raw of VObj e \<Rightarrow> mput (str_of e ''id'') e m | _ \<Rightarrow> m) []
     (items v ''tail_events'' @ items v ''events'')"

fun select_ids :: "(string, object) gomap \<Rightarrow> govalue list \<Rightarrow> string list \<Rightarrow> string list result" where
  "select_ids av [] selected = Inr selected"
| "select_ids av (raw # ids) selected = (case raw of
     VStr i \<Rightarrow> (if mget av i = None \<or> i \<in> set selected then Inl (Err ''selected event is unavailable'') else select_ids av ids (selected @ [i]))
   | _ \<Rightarrow> Inl (Err ''selected event is unavailable''))"

definition review_selection :: "(string, object) gomap \<Rightarrow> object \<Rightarrow> string list result" where
  "review_selection av p = (case list_of p ''selected_event_ids'' of
     None \<Rightarrow> Inr []
   | Some ids \<Rightarrow> if ids = [] \<or> 100000 < length ids then Inl (Err ''invalid selection'') else select_ids av ids [])"

definition entry_event :: "(string, object) gomap \<Rightarrow> string list \<Rightarrow> string list \<Rightarrow> govalue \<Rightarrow> (string \<times> object) result" where
  "entry_event av selected seen raw =
     (case raw of
        VObj item \<Rightarrow>
          (let i = str_of item ''event_id'' in
           case mget av i of
             None \<Rightarrow> Inl (Err ''selected event is unavailable or duplicated'')
           | Some e \<Rightarrow>
               (if i = [] \<or> i \<in> set seen \<or> (selected \<noteq> [] \<and> i \<notin> set selected) then Inl (Err ''selected event is unavailable or duplicated'')
                else Inr (i, e)))
      | _ \<Rightarrow> Inl (Err ''selected event is unavailable or duplicated''))"

text \<open>A rule is known by its pattern, the way it matches, and its scope.\<close>

definition rule_scope :: "string \<Rightarrow> object \<Rightarrow> object" where
  "rule_scope mode src =
     (let keys = (if str_of src ''type'' = ''kubernetes''
                  then [''type'', ''context'', ''namespace'', ''container''] @ (if mode = ''source'' then [''pod''] else [])
                  else [''type'', ''path'']) in
      concat (map (\<lambda>k. case mget src k of None \<Rightarrow> [] | Some v \<Rightarrow> [(k, v)]) keys))"

definition rule_request :: "object \<Rightarrow> object \<Rightarrow> object \<Rightarrow> (string \<times> string \<times> object) result" where
  "rule_request p item e =
     (let pattern = TrimSpace (str_of item ''pattern''); n = length (runes pattern);
          mode = (if str_of p ''scope'' = [] then ''workload'' else str_of p ''scope'') in
      if n < 1 \<or> 500 < n \<or> has_control pattern \<or> \<not> Contains (str_of e ''text'') pattern
      then Inl (Err ''pattern must be literal text from the selected event'')
      else if n < 8 \<and> TrimSpace (str_of e ''text'') \<noteq> pattern then Inl (Err ''short pattern must match the entire event'')
      else if mode \<noteq> ''workload'' \<and> mode \<noteq> ''source'' then Inl (Err ''invalid rule scope'')
      else Inr (pattern, if n < 8 then ''exact'' else ''contains'', rule_scope mode (obj_of e ''source'')))"

definition same_rule :: "string \<times> string \<times> object \<Rightarrow> object \<Rightarrow> bool" where
  "same_rule k r = (case k of (pattern, how, scope) \<Rightarrow>
     str_of r ''pattern'' = pattern \<and> str_of r ''match'' = how \<and> deep_equal (VObj (obj_of r ''scope'')) (VObj scope))"

fun enable_rule :: "string \<times> string \<times> object \<Rightarrow> govalue list \<Rightarrow> govalue list option" where
  "enable_rule k [] = None"
| "enable_rule k (raw # rs) =
     (if same_rule k (as_obj raw) then Some (VObj (mput ''enabled'' (VBool True) (as_obj raw)) # rs)
      else map_option (Cons raw) (enable_rule k rs))"

definition new_rule :: "std \<Rightarrow> string \<times> string \<times> object \<Rightarrow> object" where
  "new_rule S k = (case k of (pattern, how, scope) \<Rightarrow>
     [(''id'', VStr (take 16 (Hash S (JArr [JStr pattern, to_json S (VObj scope), JStr how])))), (''pattern'', VStr pattern),
      (''scope'', VObj scope), (''match'', VStr how), (''enabled'', VBool True)])"

definition expect_rule :: "std \<Rightarrow> string \<times> string \<times> object \<Rightarrow> object \<Rightarrow> object" where
  "expect_rule S k rules = mput ''rules'' (VArr (case enable_rule k (items rules ''rules'') of
     Some rs \<Rightarrow> rs | None \<Rightarrow> items rules ''rules'' @ [VObj (new_rule S k)])) rules"

fun review_loop :: "std \<Rightarrow> bool \<Rightarrow> object \<Rightarrow> (string, object) gomap \<Rightarrow> string list \<Rightarrow> govalue list \<Rightarrow> string list \<Rightarrow> object
    \<Rightarrow> (string list \<times> object) result" where
  "review_loop S expected p av selected [] seen rules = Inr (seen, rules)"
| "review_loop S expected p av selected (raw # raws) seen rules =
     (case entry_event av selected seen raw of
        Inl e \<Rightarrow> Inl e
      | Inr (i, ev) \<Rightarrow>
          (if \<not> expected then review_loop S expected p av selected raws (i # seen) rules
           else case rule_request p (as_obj raw) ev of
             Inl e \<Rightarrow> Inl e
           | Inr k \<Rightarrow> review_loop S expected p av selected raws (i # seen) (expect_rule S k rules)))"

definition acknowledge_ids :: "bool \<Rightarrow> string \<Rightarrow> string list \<Rightarrow> object \<Rightarrow> object" where
  "acknowledge_ids add key seen rules =
     (let old = acknowledged rules key;
          ids = (if add then old @ seen else filter (\<lambda>i. i \<notin> set seen) old) in
      mput ''acknowledged'' (VObj (mput key (VArr (map VStr (sort (remdups ids)))) (obj_of rules ''acknowledged''))) rules)"

definition review_events :: "std \<Rightarrow> (object \<times> string) result \<Rightarrow> object \<Rightarrow> object \<Rightarrow> object result" where
  "review_events S source p rules =
     (case source of
        Inl e \<Rightarrow> Inl e
      | Inr (v, key) \<Rightarrow>
          (let av = available_events v; action = str_of p ''action'';
               entries = (case list_of p ''events'' of None \<Rightarrow> [VObj p] | Some es \<Rightarrow> es);
               limit = (if action = ''expected'' then 50 else 100000) in
           if entries = [] \<or> limit < length entries then Inl (Err ''invalid selection size'')
           else case review_selection av p of
             Inl e \<Rightarrow> Inl e
           | Inr selected \<Rightarrow>
               (case review_loop S (action = ''expected'') p av selected entries [] rules of
                  Inl e \<Rightarrow> Inl e
                | Inr (seen, rules') \<Rightarrow>
                    Inr (if action = ''expected'' then rules' else acknowledge_ids (action = ''acknowledge'') key seen rules'))))"

definition toggle_rule :: "object \<Rightarrow> object \<Rightarrow> object result" where
  "toggle_rule p rules =
     (case mget p ''enabled'' of
        Some (VBool b) \<Rightarrow>
          (let hit = (\<lambda>raw. str_of (as_obj raw) ''id'' = str_of p ''rule_id'') in
           if list_ex hit (items rules ''rules'')
           then Inr (put_list ''rules'' (map (\<lambda>raw. if hit raw then VObj (mput ''enabled'' (VBool b) (as_obj raw)) else raw) (items rules ''rules'')) rules)
           else Inl (Err ''rule not found''))
      | _ \<Rightarrow> Inl (Err ''invalid enabled value''))"

definition review_rules :: "std \<Rightarrow> (object \<times> string) result \<Rightarrow> object \<Rightarrow> object \<Rightarrow> object result" where
  "review_rules S source p rules =
     (let action = str_of p ''action'' in
      if action = ''toggle'' then toggle_rule p rules
      else if action \<in> {''acknowledge'', ''unacknowledge'', ''expected''} then review_events S source p rules
      else Inl (Err ''unknown review action''))"

text \<open>
  The whole action with the lock held; \<open>encode\<close> is the indented encoder, the other parameters are those of
  \<open>WriteBounded\<close>.
\<close>

definition review :: "std \<Rightarrow> (object \<Rightarrow> string option) \<Rightarrow> write_faults \<Rightarrow> string \<Rightarrow> string \<Rightarrow> rules_file \<Rightarrow> (object \<times> string) result \<Rightarrow> object
    \<Rightarrow> files \<Rightarrow> files list \<times> status" where
  "review S encode F name path file source p fs =
     (case load_review_rules S file of
        Inl e \<Rightarrow> ([fs], Some e)
      | Inr rules \<Rightarrow>
          (case review_rules S source p rules of
             Inl e \<Rightarrow> ([fs], Some e)
           | Inr rules' \<Rightarrow>
               (case WriteBounded F name path (encode rules') 16777216 fs of
                  (tr, st) \<Rightarrow> (tr, if st = Some ErrSizeLimit then Some (Err ''review storage limit reached'') else st))))"

section \<open>The reviewer before the provider\<close>

definition opt_number :: "string \<Rightarrow> f64 option \<Rightarrow> object" where
  "opt_number k v = (case v of None \<Rightarrow> [] | Some x \<Rightarrow> [(k, VNum x)])"

definition judgment_object :: "Judgment \<Rightarrow> object" where
  "judgment_object j =
     [(''importance'', VStr (Importance j)), (''severity'', VStr (Severity j)), (''category'', VStr (Category j))] @
     opt_number ''importance_confidence'' (ImportanceConfidence j) @ opt_number ''severity_confidence'' (SeverityConfidence j) @
     opt_number ''category_confidence'' (CategoryConfidence j) @
     (if AnalysisError j = [] then [] else [(''analysis_error'', VStr (AnalysisError j))])"

definition number_field :: "object \<Rightarrow> string \<Rightarrow> f64 option \<Rightarrow> f64 option" where
  "number_field m k old = (case mget m k of Some (VNum x) \<Rightarrow> Some x | Some VNil \<Rightarrow> None | _ \<Rightarrow> old)"

definition string_field :: "object \<Rightarrow> string \<Rightarrow> string \<Rightarrow> string" where
  "string_field m k old = (case mget m k of Some (VStr s) \<Rightarrow> s | _ \<Rightarrow> old)"

text \<open>\<open>json.Unmarshal\<close> into a judgment keeps the fields the object does not name.\<close>

definition into_judgment :: "object \<Rightarrow> Judgment \<Rightarrow> Judgment" where
  "into_judgment m j = j\<lparr>Importance := string_field m ''importance'' (Importance j), Severity := string_field m ''severity'' (Severity j),
     Category := string_field m ''category'' (Category j),
     ImportanceConfidence := number_field m ''importance_confidence'' (ImportanceConfidence j),
     SeverityConfidence := number_field m ''severity_confidence'' (SeverityConfidence j),
     CategoryConfidence := number_field m ''category_confidence'' (CategoryConfidence j),
     AnalysisError := string_field m ''analysis_error'' (AnalysisError j)\<rparr>"

definition skipped :: Judgment where
  "skipped = Unknown ''AI analysis was skipped by a local expected-event rule''"

text \<open>The members of a parsed event that the projection looks at, after their way through JSON.\<close>

definition event_object :: "std \<Rightarrow> event \<Rightarrow> object" where
  "event_object S e =
     [(''id'', VStr (sanitize (ev_ID e))),
      (''source'', case of_json S (JObj (any_object S (ev_Source e))) of None \<Rightarrow> VNil | Some v \<Rightarrow> v),
      (''text'', VStr (sanitize (ev_Text e)))] @ judgment_object (ev_Judgment e)"

text \<open>
  What the closure does with a parsed event, which has neither a review nor an original judgment; \<open>None\<close> for the
  rules is the nil map left by a failed reload, \<open>None\<close> as the result a panic.
\<close>

definition apply_review :: "std \<Rightarrow> object option \<Rightarrow> event \<Rightarrow> (event \<times> bool) option" where
  "apply_review S rules e0 = (case rules of
     None \<Rightarrow> Some (e0, False)
   | Some rules \<Rightarrow>
       (let e = e0\<lparr>ev_Judgment := skipped\<rparr> in
        case project S [(''events'', VArr [VObj (event_object S e)]), (''summary'', VObj [(''unknown'', VNum (Fin 1))])] [] rules of
          None \<Rightarrow> None
        | Some v \<Rightarrow>
            (let projected = as_obj (hd (items v ''events'')) in
             if field_value projected ''review'' = VNil then Some (e, False)
             else Some ((json_event S e)\<lparr>ev_Judgment := into_judgment projected skipped,
               ev_OriginalJudgment := Some (into_judgment (obj_of projected ''original_judgment'') (verdict [] [] [])),
               ev_Review := Some (to_json S (VObj (obj_of projected ''review'')))\<rparr>, True))))"

record reviewer =
  rv_rules :: "object option"
  rv_loaded :: gotime

definition new_reviewer :: "std \<Rightarrow> rules_file \<Rightarrow> gotime \<Rightarrow> reviewer result" where
  "new_reviewer S file now = (case load_review_rules S file of Inl e \<Rightarrow> Inl e | Inr rules \<Rightarrow> Inr \<lparr>rv_rules = Some rules, rv_loaded = now\<rparr>)"

text \<open>The rules are read again when they are older than 100 milliseconds; \<open>now\<close> and \<open>after\<close> are the clock before and after that.\<close>

definition reviewer_event :: "std \<Rightarrow> rules_file \<Rightarrow> gotime \<Rightarrow> gotime \<Rightarrow> reviewer \<Rightarrow> event \<Rightarrow> (reviewer \<times> event \<times> bool) option" where
  "reviewer_event S file now after r e =
     (let r1 = (if 100000000 < Sub now (rv_loaded r)
                then \<lparr>rv_rules = (case load_review_rules S file of Inl _ \<Rightarrow> None | Inr rules \<Rightarrow> Some rules), rv_loaded = after\<rparr> else r) in
      map_option (Pair r1) (apply_review S (rv_rules r1) e))"

end
