(* ===== verification/ReviewSafety.thy ===== *)
theory ReviewSafety
  imports Reviews
begin

text \<open>
  What the human review layer promises: rules can be applied, changed and withdrawn without ever losing the judgment
  an event had; the summary keeps counting the events; and no review action leaves a rules file that cannot be read.
\<close>

section \<open>Maps\<close>

lemma mget_del_keys: "mget (del_keys ks m) k = (if k \<in> set ks then None else mget m k)"
  by (induction ks arbitrary: m) (simp_all add: del_keys_def)

lemma mget_put_all: "distinct (map fst kvs) \<Longrightarrow> mget (put_all kvs m) k = (case mget kvs k of Some v \<Rightarrow> Some v | None \<Rightarrow> mget m k)"
proof (induction kvs arbitrary: m)
  case (Cons kv kvs)
  obtain a b where kv: "kv = (a, b)" by (cases kv)
  with Cons.prems have "mget kvs a = None" by (simp add: map_of_eq_None_iff)
  with Cons kv show ?case by (simp add: put_all_def split: option.splits)
qed (simp add: put_all_def)

definition picked :: "object \<Rightarrow> string list \<Rightarrow> object" where
  "picked e ks = concat (map (\<lambda>k. case mget e k of None \<Rightarrow> [] | Some v \<Rightarrow> [(k, v)]) ks)"

lemma mget_picked: "mget (picked e ks) k = (if k \<in> set ks then mget e k else None)"
  by (induction ks) (auto simp: picked_def map_add_def split: option.splits)

lemma keys_picked: "set (map fst (picked e ks)) \<subseteq> set ks"
  by (induction ks) (auto simp: picked_def split: option.splits)

lemma distinct_picked: "distinct ks \<Longrightarrow> distinct (map fst (picked e ks))"
proof (induction ks)
  case (Cons k ks)
  with keys_picked [of e ks] show ?case by (cases "mget e k") (auto simp: picked_def)
qed (simp add: picked_def)

section \<open>Projecting again\<close>

text \<open>Members the event did not have before it was marked.\<close>

definition unmarked :: "object \<Rightarrow> bool" where
  "unmarked e = (mget e ''original_judgment'' = None \<and> mget e ''review'' = None)"

definition sane_original :: "object \<Rightarrow> bool" where
  "sane_original e = (case mget e ''original_judgment'' of None \<Rightarrow> True | Some (VObj _) \<Rightarrow> True | _ \<Rightarrow> False)"

lemma restore_unmarked: "sane_original e \<Longrightarrow> unmarked (restore_event e)"
  by (auto simp: sane_original_def restore_event_def unmarked_def split: option.splits govalue.splits)

lemma restore_of_unmarked: "unmarked e \<Longrightarrow> mget (restore_event e) = mget e"
  by (auto simp: restore_event_def unmarked_def)

lemma mget_mark:
  "mget (mark_event rv e) k =
    (if k = ''review'' then Some (VObj rv)
     else if k \<in> set (drop 3 judgment_fields) then None
     else if k = ''importance'' then Some (VStr ''routine'')
     else if k = ''original_judgment'' then Some (VObj (picked e judgment_fields)) else mget e k)"
  by (simp add: mark_event_def Let_def mget_del_keys picked_def)

lemma restore_mark:
  assumes "unmarked e"
  shows "mget (restore_event (mark_event rv e)) = mget e"
proof
  fix k
  have o: "mget (mark_event rv e) ''original_judgment'' = Some (VObj (picked e judgment_fields))"
    by (simp add: mget_mark judgment_fields_def)
  have d: "distinct (map fst (picked e judgment_fields))" by (rule distinct_picked) (simp add: judgment_fields_def)
  have j: "''importance'' \<in> set judgment_fields" "set (drop 3 judgment_fields) \<subseteq> set judgment_fields"
    by (simp add: judgment_fields_def, rule set_drop_subset)
  show "mget (restore_event (mark_event rv e)) k = mget e k"
    using assms j unfolding restore_event_def o option.case govalue.case mget_mdel mget_put_all [OF d]
    by (auto simp: mget_picked mget_del_keys mget_mark unmarked_def split: option.splits)
qed

text \<open>The decision depends on the members of the event only, not on their order.\<close>

lemma rule_matches_cong: "mget a = mget b \<Longrightarrow> rule_matches a = rule_matches b"
  by (rule ext) (simp add: rule_matches_def str_of_def obj_of_def field_value_def)

lemma mark_cong: "mget a = mget b \<Longrightarrow> mget (mark_event rv a) = mget (mark_event rv b)"
  by (rule ext) (simp add: mget_mark picked_def)

lemma project_event_cong:
  assumes "mget (restore_event a) = mget (restore_event b)"
  shows "mget (project_event acks rs a) = mget (project_event acks rs b)"
proof -
  have "str_of (restore_event a) ''id'' = str_of (restore_event b) ''id''" using assms by (simp add: str_of_def)
  with assms rule_matches_cong [OF assms] show ?thesis
    by (auto simp: project_event_def Let_def intro: mark_cong [THEN fun_cong] split: option.splits)
qed

lemma restore_project:
  assumes "sane_original e"
  shows "mget (restore_event (project_event acks rs e)) = mget (restore_event e)"
  using restore_mark [OF restore_unmarked [OF assms]] restore_of_unmarked [OF restore_unmarked [OF assms]]
  by (simp add: project_event_def Let_def split: option.splits)

text \<open>
  C12: Human rules never cost an event its judgment: whatever rules and acknowledgements have been projected onto an event
  before, by the reviewer of the run or by an earlier view of the report, projecting the current ones gives the
  same event as projecting them onto the original, and without any rule left the original judgment is back.
\<close>

theorem projection_forgets:
  assumes "sane_original e"
  shows "mget (project_event acks' rs' (project_event acks rs e)) = mget (project_event acks' rs' e) \<and>
    mget (project_event [] [] (project_event acks rs e)) = mget (restore_event e)"
  using project_event_cong [OF restore_project [OF assms]] restore_project [OF assms] by (simp add: project_event_def Let_def)

section \<open>The summary\<close>

lemma floor_log2_nat: "0 < n \<Longrightarrow> n \<le> 2 ^ 53 - 1 \<Longrightarrow> floor_log2 (of_nat n) \<le> 52"
proof -
  assume n: "0 < n" "n \<le> 2 ^ 53 - 1"
  have "int n < 2 ^ 53" using n by simp
  then have b: "bitlen (int n) \<le> 53" using bitlen_le_iff_power [of "int n" 53] by simp
  have q: "quotient_of (of_nat n) = (int n, 1)" by (metis of_int_of_nat_eq Rat.of_int_def quotient_of_int)
  have "bitlen 1 = 1" by code_simp
  with b q show ?thesis by (auto simp: floor_log2_def Let_def)
qed

text \<open>Integers below \<open>2 ^ 53\<close> are exact.\<close>

lemma rnd64_exact: "n < 2 ^ 53 \<Longrightarrow> rnd64 (of_nat n) = Fin (of_nat n)"
proof (cases "n = 0")
  case False
  assume n: "n < 2 ^ 53"
  define e where "e = max (floor_log2 (of_nat n :: rat) - 52) (- 1074)"
  have e: "e \<le> 0" using floor_log2_nat [of n] n False by (simp add: e_def)
  have "of_nat n / pow2 e = of_int (int n * 2 ^ nat (- e))"
    using e by (cases "e = 0") (simp_all add: pow2_def)
  then have "of_int (rnd_even (of_nat n / pow2 e)) = of_nat n / pow2 e" by (simp add: rnd_even_def Let_def)
  then have v: "of_int (rnd_even (of_nat n / pow2 e)) * pow2 e = (of_nat n :: rat)" using less_imp_neq [OF pow2_pos, of e] by simp
  have "of_nat n < (2 ^ 53 :: rat)" using n by (metis of_nat_less_iff of_nat_numeral of_nat_power)
  also have "\<dots> \<le> 2 ^ 1024" by (rule power_increasing) simp_all
  finally have "\<not> 2 ^ 1024 \<le> (of_nat n :: rat)" by simp
  with v False show ?thesis by (simp add: rnd64_def Let_def e_def [symmetric])
qed (simp add: rnd64_def)

definition counts :: "object \<Rightarrow> string \<Rightarrow> nat \<Rightarrow> bool" where
  "counts m k n = (number_of m k = Fin (of_nat n))"

lemma counts_up: "counts m k n \<Longrightarrow> n + 1 < 2 ^ 53 \<Longrightarrow> fadd (number_of m k) (Fin 1) = Fin (of_nat (n + 1))"
  using rnd64_exact [of "n + 1"] by (simp add: counts_def add.commute)

lemma counts_down: "counts m k n \<Longrightarrow> 0 < n \<Longrightarrow> n < 2 ^ 53 \<Longrightarrow> max_zero (fsub (number_of m k) (Fin 1)) = Fin (of_nat (n - 1))"
proof -
  assume c: "counts m k n" "0 < n" "n < 2 ^ 53"
  have "(of_nat n :: rat) + - 1 = of_nat (n - 1)" using c(2) by (simp add: of_nat_diff)
  then have "fsub (number_of m k) (Fin 1) = Fin (of_nat (n - 1))"
    using c rnd64_exact [of "n - 1"] by (simp add: fsub_def counts_def)
  then show ?thesis by (simp add: max_zero_def)
qed

lemma number_of_mput: "number_of (mput k (VNum x) m) k' = (if k' = k then x else number_of m k')"
  by (simp add: number_of_def)

lemma move_count_counts:
  assumes "counts m k n" and "n + 1 < 2 ^ 53" and "before = k \<Longrightarrow> 0 < n"
  shows "counts (move_count before after m) k (n - (if before = k then 1 else 0) + (if after = k then 1 else 0))"
proof -
  consider "before = after" | "before = k" "before \<noteq> after" | "after = k" "before \<noteq> after" | "before \<noteq> after" "before \<noteq> k" "after \<noteq> k" by blast
  then show ?thesis
  proof cases
    case 1
    with assms show ?thesis by (auto simp: move_count_def)
  next
    case 2
    with assms counts_down [OF assms(1)] show ?thesis by (simp add: move_count_def Let_def counts_def number_of_mput)
  next
    case 3
    with counts_up [OF assms(1,2)] show ?thesis by (auto simp: move_count_def Let_def counts_def number_of_mput)
  next
    case 4
    with assms show ?thesis by (simp add: move_count_def Let_def counts_def number_of_mput)
  qed
qed

definition judged_as :: "string \<Rightarrow> govalue \<Rightarrow> bool" where
  "judged_as k raw = (case raw of VObj e \<Rightarrow> str_of e ''importance'' = k | _ \<Rightarrow> False)"

definition tally_of :: "string \<Rightarrow> govalue list \<Rightarrow> nat" where
  "tally_of k raws = length (filter (judged_as k) raws)"

lemma tally_of_simps [simp]:
  "tally_of k [] = 0" "tally_of k (raw # raws) = (if judged_as k raw then 1 else 0) + tally_of k raws"
  by (simp_all add: tally_of_def)

lemma judged_as_VObj [simp]: "judged_as k (VObj e) = (str_of e ''importance'' = k)"
  by (simp add: judged_as_def)

lemma project_list_counts:
  assumes "project_list f raws m = (out, m')" and "counts m k n" and "tally_of k raws \<le> n" and "n + length raws < 2 ^ 53"
  shows "counts m' k (n - tally_of k raws + tally_of k out)"
  using assms
proof (induction raws arbitrary: m n out m')
  case (Cons raw raws)
  show ?case
  proof (cases raw)
    case (VObj e)
    let ?b = "str_of e ''importance''" and ?a = "str_of (f e) ''importance''"
    let ?n = "n - (if ?b = k then 1 else 0) + (if ?a = k then 1 else 0)"
    obtain rest where r: "project_list f raws (move_count ?b ?a m) = (rest, m')" and out: "out = VObj (f e) # rest"
      using Cons.prems(1) VObj by (auto simp: Let_def split: prod.splits)
    have "counts (move_count ?b ?a m) k ?n"
      using Cons.prems(2,3,4) VObj by (intro move_count_counts) auto
    from Cons.IH [OF r this] have "counts m' k (?n - tally_of k raws + tally_of k rest)"
      using Cons.prems(3,4) VObj by (auto split: if_splits)
    moreover have "?n - tally_of k raws + tally_of k rest = n - tally_of k (raw # raws) + tally_of k out"
      using Cons.prems(3) VObj out by auto
    ultimately show ?thesis by simp
  qed (use Cons in \<open>auto simp: judged_as_def split: prod.splits\<close>)
qed simp

lemma length_project_list: "project_list f raws m = (out, m') \<Longrightarrow> length out = length raws"
  by (induction raws arbitrary: m out m') (auto simp: Let_def split: govalue.splits prod.splits)

lemma mget_put_list: "mget (put_list k vs v) k' = (if k' = k \<and> list_of v k \<noteq> None then Some (VArr vs) else mget v k')"
  by (auto simp: put_list_def)

lemma mget_put_obj: "mget v k = Some (VObj m) \<Longrightarrow> mget (put_obj k f v) k' = (if k' = k then Some (VObj (f m)) else mget v k')"
  by (simp add: put_obj_def)

text \<open>The lists and the summary of a projected report.\<close>

lemma project_report_parts:
  assumes "mget v ''summary'' = Some (VObj m0)" and "list_of v ''events'' = Some raws"
    and "project_list (project_event (acknowledged rules key) (rule_list rules)) raws m0 = (out, m)"
  shows "list_of (project_report S v key rules) ''events'' = Some out"
    and "mget (project_report S v key rules) ''summary'' =
      Some (VObj (if f64_lt (Fin 0) (number_of m ''unknown'') then mput ''complete_within_window'' (VBool False) m else m))"
proof -
  let ?f = "project_event (acknowledged rules key) (rule_list rules)"
  define v1 where "v1 = put_obj ''summary'' (\<lambda>_. m) (put_list ''events'' out v)"
  define v2 where "v2 = put_list ''tail_events'' (fst (project_list ?f (items v ''tail_events'') [])) v1"
  define v3 where "v3 = mput ''important_groups'' (VArr (project_groups S (items v2 ''events''))) v2"
  have "mget (put_list ''events'' out v) ''summary'' = Some (VObj m0)" using assms(1) by (simp add: mget_put_list)
  note v1 = mget_put_obj [OF this, of "\<lambda>_. m", folded v1_def]
  have s3: "mget v3 ''summary'' = Some (VObj m)" by (simp add: v3_def v2_def mget_put_list v1)
  have e3: "mget v3 ''events'' = Some (VArr out)" using assms(2) by (simp add: v3_def v2_def mget_put_list v1)
  have p: "project_report S v key rules = (if f64_lt (Fin 0) (number_of m ''unknown'')
      then put_obj ''summary'' (mput ''complete_within_window'' (VBool False)) v3 else v3)"
    using assms s3 by (simp add: project_report_def Let_def items_def obj_of_def v1_def v2_def v3_def)
  show "list_of (project_report S v key rules) ''events'' = Some out"
    unfolding p using e3 by (simp add: list_of_def mget_put_obj [OF s3])
  show "mget (project_report S v key rules) ''summary'' =
      Some (VObj (if f64_lt (Fin 0) (number_of m ''unknown'') then mput ''complete_within_window'' (VBool False) m else m))"
    unfolding p using s3 by (simp add: mget_put_obj [OF s3])
qed

text \<open>
  The summary of a report stays true under human rules: every count moves by exactly the events whose judgment the
  rules changed (or gave back), so it still counts the listed events of each importance and the ones no longer listed,
  and a report that still has unknown events is never shown as complete.
\<close>

theorem projection_keeps_count:
  assumes "mget v ''summary'' = Some (VObj m0)" and "list_of v ''events'' = Some raws" and "counts m0 k (tally_of k raws + unlisted)" and "k \<noteq> ''complete_within_window''"
    and "tally_of k raws + unlisted + length raws < 2 ^ 53"
  shows "\<exists>m out. mget (project_report S v key rules) ''summary'' = Some (VObj m) \<and> list_of (project_report S v key rules) ''events'' = Some out \<and>
    length out = length raws \<and> counts m k (tally_of k out + unlisted) \<and>
    (f64_lt (Fin 0) (number_of m ''unknown'') \<longrightarrow> mget m ''complete_within_window'' = Some (VBool False))"
proof -
  let ?f = "project_event (acknowledged rules key) (rule_list rules)"
  obtain out m where pl: "project_list ?f raws m0 = (out, m)" by (cases "project_list ?f raws m0")
  have c: "counts m k (tally_of k out + unlisted)"
    using project_list_counts [OF pl assms(3) _ assms(5)] by (simp add: add.commute)
  note l = length_project_list [OF pl]
  show ?thesis
  proof (cases "f64_lt (Fin 0) (number_of m ''unknown'')")
    case True
    have "counts (mput ''complete_within_window'' (VBool False) m) k (tally_of k out + unlisted)"
      using c assms(4) by (simp add: counts_def number_of_mput number_of_def)
    with True l project_report_parts [OF assms(1,2) pl, of S] show ?thesis by (simp add: number_of_def)
  next
    case False
    with c l project_report_parts [OF assms(1,2) pl, of S] show ?thesis by simp
  qed
qed

section \<open>Rules stay readable\<close>

lemma first_error_none: "first_error f xs = None \<longleftrightarrow> list_all (\<lambda>x. f x = None) xs"
  by (induction xs) (auto split: option.splits)

definition rule_id :: "object \<Rightarrow> string" where
  "rule_id r = str_of r ''id''"

definition rule_key :: "object \<Rightarrow> string \<times> string \<times> object" where
  "rule_key r = (str_of r ''pattern'', str_of r ''match'', obj_of r ''scope'')"

definition rules_ok :: "govalue list \<Rightarrow> bool" where
  "rules_ok rs = (list_all (\<lambda>raw. rule_status raw = None) rs \<and> distinct (map (rule_id \<circ> as_obj) rs))"

lemma rules_status_sound: "rules_status rs ids = None \<Longrightarrow> list_all (\<lambda>raw. rule_status raw = None) rs"
  by (induction rs ids rule: rules_status.induct) (auto simp: Let_def split: option.splits if_splits)

lemma rules_status_complete:
  "rules_ok rs \<Longrightarrow> rule_id ` as_obj ` set rs \<inter> fst ` set ids = {} \<Longrightarrow> rules_status rs ids = None"
proof (induction rs arbitrary: ids)
  case (Cons raw rs)
  have "mget ids (str_of (as_obj raw) ''id'') = None"
    using Cons.prems(2) by (auto simp: rule_id_def map_of_eq_None_iff)
  moreover have "rules_status rs (mput (str_of (as_obj raw) ''id'') (as_obj raw) ids) = None"
    using Cons.prems by (intro Cons.IH) (auto simp: rules_ok_def keys_mput rule_id_def comp_def image_iff)
  ultimately show ?case using Cons.prems(1) by (simp add: rules_ok_def Let_def)
qed simp

text \<open>What \<open>check_rules\<close> accepts, for documents whose rules have distinct identities.\<close>

definition readable :: "object \<Rightarrow> bool" where
  "readable v = (f64_eq (number_of v ''version'') (Fin 1) \<and> (\<exists>rs. mget v ''rules'' = Some (VArr rs) \<and> rules_ok rs) \<and>
     (\<exists>acks. mget v ''acknowledged'' = Some (VObj acks) \<and> list_all (\<lambda>kv. ack_status kv = None) acks))"

lemma readable_iff: "readable v \<longleftrightarrow> check_rules v = None \<and> distinct (map rule_id (rule_list v))"
proof
  assume r: "readable v"
  then obtain rs acks where v: "mget v ''rules'' = Some (VArr rs)" "rules_ok rs" "mget v ''acknowledged'' = Some (VObj acks)"
    "list_all (\<lambda>kv. ack_status kv = None) acks" by (auto simp: readable_def)
  from v(2) have "rules_status rs [] = None" by (rule rules_status_complete) simp
  moreover have "distinct (map rule_id (rule_list v))" using v(1,2) by (simp add: rule_list_def items_def list_of_def rules_ok_def)
  ultimately show "check_rules v = None \<and> distinct (map rule_id (rule_list v))"
    using r v first_error_none [of ack_status acks] by (simp add: check_rules_def field_value_def mgetd_def readable_def)
next
  assume c: "check_rules v = None \<and> distinct (map rule_id (rule_list v))"
  then obtain rs acks where v: "field_value v ''rules'' = VArr rs" "field_value v ''acknowledged'' = VObj acks"
    "first_error ack_status acks = None" "rules_status rs [] = None" "f64_eq (number_of v ''version'') (Fin 1)"
    by (auto simp: check_rules_def split: if_splits govalue.splits option.splits)
  from v(1,2) have m: "mget v ''rules'' = Some (VArr rs)" "mget v ''acknowledged'' = Some (VObj acks)"
    by (simp_all add: field_value_def mgetd_def split: option.splits)
  with c v rules_status_sound [OF v(4)] show "readable v"
    by (simp add: readable_def rules_ok_def first_error_none rule_list_def items_def list_of_def)
qed

text \<open>Switching a rule on or off changes neither its identity nor its validity.\<close>

lemma switch_rule:
  assumes "rule_status raw = None"
  shows "rule_status (VObj (mput ''enabled'' (VBool b) (as_obj raw))) = None \<and> rule_id (mput ''enabled'' (VBool b) (as_obj raw)) = rule_id (as_obj raw) \<and>
    rule_key (mput ''enabled'' (VBool b) (as_obj raw)) = rule_key (as_obj raw)"
  using assms by (cases raw) (auto simp: rule_status_def as_obj_def str_of_def obj_of_def rule_id_def rule_key_def split: if_splits)

definition plain_char :: "char \<Rightarrow> bool" where
  "plain_char c = (32 \<le> byte c \<and> byte c < 127)"

lemma plain_chunks: "list_all plain_char s \<Longrightarrow> rune_chunks s = map (\<lambda>c. (byte c, [c], True)) s"
proof -
  assume p: "list_all plain_char s"
  have "solid (byte c, [c], True)" if "plain_char c" for c
  proof -
    have "EncodeRune (byte c) = [c]" using that by (simp add: plain_char_def EncodeRune_def byte_def)
    with solid_EncodeRune [of "byte c"] that show ?thesis by (simp add: plain_char_def scalar_def)
  qed
  with p have "list_all solid (map (\<lambda>c. (byte c, [c], True)) s)" by (auto simp: list_all_iff)
  from rune_chunks_solid [OF this] show ?thesis by (simp add: unchunk_def comp_def)
qed

lemma plain_runes: "list_all plain_char s \<Longrightarrow> length (runes s) = length s" "list_all plain_char s \<Longrightarrow> \<not> has_control s"
  by (simp_all add: runes_def plain_chunks has_control_def) (auto simp: list_ex_iff list_all_iff plain_char_def IsControl_def)

text \<open>A digest is 64 hexadecimal digits.\<close>

definition printed_digests :: "std \<Rightarrow> bool" where
  "printed_digests S = (\<forall>t. length (sha256hex S t) = 64 \<and> list_all plain_char (sha256hex S t))"

text \<open>The sources a rule can be made from: named by a type, and of literal values.\<close>

definition literal_source :: "object \<Rightarrow> bool" where
  "literal_source src = (mget src ''type'' \<noteq> None \<and> list_all scope_value_ok src)"

lemma rule_scope_ok:
  assumes "literal_source src"
  shows "rule_scope mode src \<noteq> [] \<and> length (rule_scope mode src) \<le> 32 \<and> list_all scope_value_ok (rule_scope mode src)"
proof -
  define keys where "keys = (if str_of src ''type'' = ''kubernetes''
    then [''type'', ''context'', ''namespace'', ''container''] @ (if mode = ''source'' then [''pod''] else []) else [''type'', ''path''])"
  have s: "rule_scope mode src = picked src keys" by (simp add: rule_scope_def picked_def keys_def Let_def)
  have "''type'' \<in> set keys" by (simp add: keys_def)
  then have "mget (picked src keys) ''type'' \<noteq> None" using assms by (simp add: mget_picked literal_source_def)
  moreover have "length (picked src keys) \<le> length keys" by (induction keys) (auto simp: picked_def split: option.splits)
  moreover have "length keys \<le> 32" by (simp add: keys_def)
  moreover have "set (picked src keys) \<subseteq> set src" by (auto simp: picked_def split: option.splits dest!: map_of_SomeD [OF sym])
  ultimately show ?thesis using assms unfolding s literal_source_def by (auto simp: list_all_iff)
qed

text \<open>A new rule is valid.\<close>

lemma new_rule_ok:
  assumes "rule_request p item e = Inr k" and "literal_source (obj_of e ''source'')" and "printed_digests S"
  shows "rule_status (VObj (new_rule S k)) = None \<and> rule_key (new_rule S k) = k"
proof -
  obtain pattern how scope where k: "k = (pattern, how, scope)" by (cases k)
  have "runes pattern \<noteq> [] \<and> length (runes pattern) \<le> 500 \<and> \<not> has_control pattern \<and> how \<in> {''exact'', ''contains''} \<and>
    (\<exists>mode. scope = rule_scope mode (obj_of e ''source''))"
    using assms(1) unfolding k rule_request_def by (auto simp: Let_def split: if_splits)
  then obtain mode where r: "runes pattern \<noteq> []" "length (runes pattern) \<le> 500" "\<not> has_control pattern" "how \<in> {''exact'', ''contains''}"
    "scope = rule_scope mode (obj_of e ''source'')" by blast
  from r(1) have "pattern \<noteq> []" by (auto simp: runes_def)
  have "list_all plain_char (take 16 (Hash S v)) \<and> length (take 16 (Hash S v)) = 16" for v
    using assms(3) set_take_subset [of 16 "Hash S v"] by (auto simp: printed_digests_def Hash_def list_all_iff)
  then have "length (runes (take 16 (Hash S v))) = 16 \<and> \<not> has_control (take 16 (Hash S v)) \<and> take 16 (Hash S v) \<noteq> []" for v
    by (metis plain_runes(1) plain_runes(2) length_0_conv zero_neq_numeral)
  with r \<open>pattern \<noteq> []\<close> rule_scope_ok [OF assms(2), of mode] show ?thesis
    by (auto simp: k new_rule_def rule_status_def str_of_def obj_of_def rule_key_def)
qed

text \<open>What identifies a rule, and that no rule repeats an earlier one under the same identity.\<close>

type_synonym rule_tag = "string \<times> string \<times> string \<times> object"

definition tag :: "govalue \<Rightarrow> rule_tag" where
  "tag raw = (rule_id (as_obj raw), rule_key (as_obj raw))"

definition same_key :: "string \<times> string \<times> object \<Rightarrow> string \<times> string \<times> object \<Rightarrow> bool" where
  "same_key k k' = (fst k' = fst k \<and> fst (snd k') = fst (snd k) \<and> deep_equal (VObj (snd (snd k'))) (VObj (snd (snd k))))"

lemma same_rule_key: "same_rule k r \<longleftrightarrow> same_key k (rule_key r)"
  by (cases k) (simp add: same_rule_def same_key_def rule_key_def)

definition apart :: "govalue list \<Rightarrow> bool" where
  "apart rs = sorted_wrt (\<lambda>t t'. fst t = fst t' \<longrightarrow> \<not> same_key (snd t') (snd t)) (map tag rs)"

text \<open>The digests of two different rules have not collided.\<close>

definition no_collision :: "object \<Rightarrow> bool" where
  "no_collision v = sorted_wrt (\<lambda>t t'. fst t = fst t' \<longrightarrow> same_key (snd t') (snd t)) (map tag (items v ''rules''))"

definition valid_rules :: "govalue list \<Rightarrow> bool" where
  "valid_rules rs = list_all (\<lambda>raw. rule_status raw = None) rs"

definition acks_ok :: "object \<Rightarrow> bool" where
  "acks_ok v = (\<exists>acks. mget v ''acknowledged'' = Some (VObj acks) \<and> list_all (\<lambda>kv. ack_status kv = None) acks)"

definition kept :: "object \<Rightarrow> bool" where
  "kept v = (f64_eq (number_of v ''version'') (Fin 1) \<and> (\<exists>rs. mget v ''rules'' = Some (VArr rs) \<and> valid_rules rs \<and> apart rs) \<and> acks_ok v)"

lemma apart_distinct: "distinct (map (rule_id \<circ> as_obj) rs) \<Longrightarrow> apart rs"
  by (induction rs) (auto simp: apart_def tag_def image_iff)

lemma distinct_apart:
  "sorted_wrt (\<lambda>t t'. fst t = fst t' \<longrightarrow> same_key (snd t') (snd t)) (map tag rs) \<Longrightarrow> apart rs \<Longrightarrow> distinct (map (rule_id \<circ> as_obj) rs)"
  by (induction rs) (auto simp: apart_def tag_def)

lemma readable_kept: "readable v \<Longrightarrow> kept v"
  by (auto simp: readable_def kept_def rules_ok_def valid_rules_def acks_ok_def intro: apart_distinct)

lemma kept_readable:
  assumes "kept v" and "no_collision v"
  shows "readable v"
proof -
  obtain rs where rs: "mget v ''rules'' = Some (VArr rs)" "valid_rules rs" "apart rs" using assms(1) by (auto simp: kept_def)
  with assms(2) distinct_apart [of rs] have "rules_ok rs"
    by (simp add: no_collision_def items_def list_of_def rules_ok_def valid_rules_def)
  with assms(1) rs show ?thesis by (auto simp: kept_def readable_def acks_ok_def)
qed

lemma enable_rule_cases:
  "valid_rules rs \<Longrightarrow> (case enable_rule k rs of
     Some rs' \<Rightarrow> valid_rules rs' \<and> map tag rs' = map tag rs
   | None \<Rightarrow> list_all (\<lambda>raw. \<not> same_key k (rule_key (as_obj raw))) rs)"
proof (induction rs)
  case (Cons raw rs)
  then have "rule_status raw = None" by (simp add: valid_rules_def)
  from switch_rule [OF this, of True] Cons show ?case
    by (cases "enable_rule k rs") (simp_all add: same_rule_key valid_rules_def tag_def as_obj_def)
qed (simp add: valid_rules_def)

lemma expect_rule_kept:
  assumes "kept v" and "rule_status (VObj (new_rule S k)) = None" and "rule_key (new_rule S k) = k"
  shows "kept (expect_rule S k v)"
proof -
  obtain rs where rs: "mget v ''rules'' = Some (VArr rs)" "valid_rules rs" "apart rs" using assms(1) by (auto simp: kept_def)
  define rs' where "rs' = (case enable_rule k rs of Some rs' \<Rightarrow> rs' | None \<Rightarrow> rs @ [VObj (new_rule S k)])"
  have "valid_rules rs' \<and> apart rs'"
    using rs(2,3) assms(2,3) enable_rule_cases [OF rs(2), of k]
    by (auto simp: rs'_def apart_def valid_rules_def sorted_wrt_append tag_def as_obj_def list_all_iff split: option.splits)
  moreover have it: "items v ''rules'' = rs" by (simp add: items_def list_of_def rs)
  have "mget (expect_rule S k v) = (mget v)(''rules'' \<mapsto> VArr rs')"
    by (rule ext) (simp add: expect_rule_def it rs'_def split: option.split)
  ultimately show ?thesis using assms(1) by (auto simp: kept_def acks_ok_def number_of_def)
qed

text \<open>The events a report offers for review: identities of bounded length, literal sources.\<close>

definition reviewable :: "object \<Rightarrow> string \<Rightarrow> bool" where
  "reviewable v key = (length key \<le> 4096 \<and>
     list_all (\<lambda>(i, e). length i \<le> 256 \<and> literal_source (obj_of e ''source'')) (available_events v))"

lemma entry_event_Inr:
  "entry_event av selected seen raw = Inr (i, e) \<Longrightarrow> mget av i = Some e \<and> i \<noteq> []"
  by (auto simp: entry_event_def Let_def split: govalue.splits option.splits if_splits)

lemma review_loop_kept:
  assumes "review_loop S expected p (available_events v) selected raws seen rules = Inr (seen', rules')" and "kept rules"
    and "reviewable v key" and "printed_digests S" and "list_all (\<lambda>i. i \<noteq> [] \<and> length i \<le> 256) seen"
  shows "kept rules' \<and> list_all (\<lambda>i. i \<noteq> [] \<and> length i \<le> 256) seen' \<and> (\<not> expected \<longrightarrow> rules' = rules)"
  using assms
proof (induction raws arbitrary: seen rules)
  case (Cons raw raws)
  obtain i e where ie: "entry_event (available_events v) selected seen raw = Inr (i, e)"
    using Cons.prems(1) by (auto split: sum.splits)
  from entry_event_Inr [OF ie] have i: "i \<noteq> []" "(i, e) \<in> set (available_events v)" by (auto dest: map_of_SomeD)
  with Cons.prems(3) have ok: "length i \<le> 256" "literal_source (obj_of e ''source'')" by (auto simp: reviewable_def list_all_iff)
  show ?case
  proof (cases expected)
    case False
    with Cons ie i ok show ?thesis by simp
  next
    case True
    then obtain k where k: "rule_request p (as_obj raw) e = Inr k"
      "review_loop S expected p (available_events v) selected raws (i # seen) (expect_rule S k rules) = Inr (seen', rules')"
      using Cons.prems(1) ie by (auto split: sum.splits)
    from new_rule_ok [OF k(1) ok(2) Cons.prems(4)] have "kept (expect_rule S k rules)"
      using expect_rule_kept [OF Cons.prems(2)] by blast
    from Cons.IH [OF k(2) this Cons.prems(3,4)] Cons.prems(5) i ok True show ?thesis by simp
  qed
qed simp

lemma acknowledged_ok:
  assumes "acks_ok v"
  shows "list_all (\<lambda>i. i \<noteq> [] \<and> length i \<le> 256) (acknowledged v key)"
proof -
  obtain acks where a: "mget v ''acknowledged'' = Some (VObj acks)" "list_all (\<lambda>kv. ack_status kv = None) acks"
    using assms by (auto simp: acks_ok_def)
  show ?thesis
  proof (cases "mget acks key")
    case (Some raw)
    then have "(key, raw) \<in> set acks" by (rule map_of_SomeD)
    with a(2) have "ack_status (key, raw) = None" by (auto simp: list_all_iff)
    then obtain ids where "raw = VArr ids" "list_all ack_id_ok ids" by (auto simp: ack_status_def split: govalue.splits if_splits)
    with a(1) Some show ?thesis
      by (auto simp: acknowledged_def obj_of_def items_def list_of_def list_all_iff ack_id_ok_def split: govalue.splits)
  qed (use a in \<open>simp add: acknowledged_def obj_of_def items_def list_of_def\<close>)
qed

lemma acknowledge_kept:
  assumes "readable rules" and "list_all (\<lambda>i. i \<noteq> [] \<and> length i \<le> 256) seen" and "length key \<le> 4096"
  shows "readable (acknowledge_ids add key seen rules)"
proof -
  obtain acks where a: "mget rules ''acknowledged'' = Some (VObj acks)" "list_all (\<lambda>kv. ack_status kv = None) acks"
    using assms(1) by (auto simp: readable_def)
  have old: "list_all (\<lambda>i. i \<noteq> [] \<and> length i \<le> 256) (acknowledged rules key)"
    by (rule acknowledged_ok) (use a in \<open>auto simp: acks_ok_def\<close>)
  define ids where "ids = sort (remdups (if add then acknowledged rules key @ seen else filter (\<lambda>i. i \<notin> set seen) (acknowledged rules key)))"
  have "list_all (\<lambda>i. i \<noteq> [] \<and> length i \<le> 256) ids"
    using old assms(2) by (auto simp: ids_def list_all_iff split: if_splits)
  then have "ack_status (key, VArr (map VStr ids)) = None"
    using assms(3) by (auto simp: ack_status_def list_all_iff ack_id_ok_def)
  with a(2) have "list_all (\<lambda>kv. ack_status kv = None) (mput key (VArr (map VStr ids)) acks)"
    by (auto simp: list_all_iff dest!: set_mputD)
  moreover have "mget (acknowledge_ids add key seen rules) = (mget rules)(''acknowledged'' \<mapsto> VObj (mput key (VArr (map VStr ids)) acks))"
    by (rule ext) (simp add: acknowledge_ids_def Let_def ids_def obj_of_def a)
  ultimately show ?thesis using assms(1) by (auto simp: readable_def number_of_def)
qed

lemma toggle_kept:
  assumes "readable rules" and "toggle_rule p rules = Inr rules'"
  shows "readable rules'"
proof -
  obtain rs where rs: "mget rules ''rules'' = Some (VArr rs)" "rules_ok rs" using assms(1) by (auto simp: readable_def)
  define flip where "flip b raw = (if str_of (as_obj raw) ''id'' = str_of p ''rule_id'' then VObj (mput ''enabled'' (VBool b) (as_obj raw)) else raw)" for b raw
  have it: "items rules ''rules'' = rs" "list_of rules ''rules'' \<noteq> None" by (simp_all add: items_def list_of_def rs)
  from assms(2) obtain b where b: "rules' = put_list ''rules'' (map (flip b) rs) rules"
    by (auto simp: toggle_rule_def it flip_def [abs_def] Let_def split: option.splits govalue.splits if_splits)
  have "rule_status (flip b raw) = None \<and> rule_id (as_obj (flip b raw)) = rule_id (as_obj raw)" if "raw \<in> set rs" for raw
    using that rs(2) switch_rule [of raw b] by (auto simp: flip_def rules_ok_def list_all_iff as_obj_def)
  then have "rules_ok (map (flip b) rs)"
    using rs(2) by (auto simp: rules_ok_def list_all_iff distinct_map inj_on_def)
  then show ?thesis using assms(1) b it(2) by (auto simp: readable_def mget_put_list number_of_def)
qed

text \<open>
  C8: No review action can leave the reviewer without rules: from a rules file that can be read, every action that succeeds
  (switching a rule, acknowledging events, withdrawing an acknowledgement, expecting events) writes a rules file that
  can be read again and whose rules have distinct identities, for reports whose events have identities and sources
  that rules can express, as long as the digests of two different rules do not collide.
\<close>

theorem review_keeps_rules_readable:
  assumes "check_rules rules = None" and "distinct (map rule_id (rule_list rules))" and "source = Inr (v, key)" and "reviewable v key"
    and "printed_digests S" and "review_rules S source p rules = Inr rules'" and "no_collision rules'"
  shows "check_rules rules' = None \<and> distinct (map rule_id (rule_list rules'))"
proof -
  have r: "readable rules" using assms(1,2) by (simp add: readable_iff)
  have "readable rules'"
  proof (cases "str_of p ''action'' = ''toggle''")
    case True
    with assms(6) toggle_kept [OF r] show ?thesis by (simp add: review_rules_def)
  next
    case False
    with assms(3,6) obtain selected raws seen rules1 where l: "review_loop S (str_of p ''action'' = ''expected'') p (available_events v) selected raws [] rules = Inr (seen, rules1)"
      and r': "rules' = (if str_of p ''action'' = ''expected'' then rules1 else acknowledge_ids (str_of p ''action'' = ''acknowledge'') key seen rules1)"
      by (auto simp: review_rules_def review_events_def Let_def simp del: review_loop.simps split: if_splits sum.splits option.splits)
    from review_loop_kept [OF l readable_kept [OF r] assms(4,5)]
    have k: "kept rules1" "list_all (\<lambda>i. i \<noteq> [] \<and> length i \<le> 256) seen" "str_of p ''action'' \<noteq> ''expected'' \<longrightarrow> rules1 = rules" by simp_all
    show ?thesis
    proof (cases "str_of p ''action'' = ''expected''")
      case True
      with k(1) r' assms(7) show ?thesis by (auto intro: kept_readable)
    next
      case False
      with k r r' assms(4) show ?thesis by (auto simp: reviewable_def intro: acknowledge_kept)
    qed
  qed
  then show ?thesis by (simp add: readable_iff)
qed

section \<open>The reviewer\<close>

lemma mget_foldl_mput:
  fixes ps m :: object
  shows "distinct (map fst ps) \<Longrightarrow> mget (foldl (\<lambda>m (k, v). mput k v m) m ps) k = (case mget ps k of Some v \<Rightarrow> Some v | None \<Rightarrow> mget m k)"
  using mget_put_all [of ps m k] by (simp add: put_all_def)

lemma mget_clean:
  assumes "distinct (map fst kvs)" and "list_all (\<lambda>(k, v). sanitize k = k) kvs"
  shows "mget (as_obj (clean_value (VObj kvs))) k = map_option clean_value (mget kvs k)"
proof -
  let ?ps = "sort_key fst kvs"
  have keys: "map (\<lambda>(k, v). (sanitize k, clean_value v)) ?ps = map (\<lambda>(k, v). (k, clean_value v)) ?ps"
    using assms(2) by (auto simp: list_all_iff)
  have "distinct (map fst ?ps)" using assms(1) by (simp add: distinct_map inj_on_def) 
  then have d: "distinct (map fst (map (\<lambda>(k, v). (k, clean_value v)) ?ps))" by (simp add: comp_def case_prod_beta)
  have "mget ?ps = mget kvs" using assms(1) \<open>distinct (map fst ?ps)\<close> by (intro map_of_eqI) auto
  then show ?thesis unfolding clean_value.simps as_obj_def govalue.case keys mget_foldl_mput [OF d]
    by (auto simp: map_of_map split: option.splits)
qed

lemma sanitize_plain: "list_all plain_char s \<Longrightarrow> sanitize s = s"
  by (simp add: sanitize_def plain_chunks comp_def)

text \<open>The event as the projection sees it: through JSON, with its judgment still open.\<close>

definition wire_event :: "std \<Rightarrow> event \<Rightarrow> object" where
  "wire_event S e = as_obj (clean_value (VObj (event_object S (e\<lparr>ev_Judgment := skipped\<rparr>))))"

lemma mget_wire:
  "mget (wire_event S e) k = map_option clean_value (mget (event_object S (e\<lparr>ev_Judgment := skipped\<rparr>)) k)"
proof -
  have "judgment_object skipped = [(''importance'', VStr ''unknown''), (''severity'', VStr ''unknown''), (''category'', VStr ''unknown''),
      (''analysis_error'', VStr ''AI analysis was skipped by a local expected-event rule'')]"
    by (simp add: judgment_object_def skipped_def Unknown_def opt_number_def)
  then have o: "event_object S (e\<lparr>ev_Judgment := skipped\<rparr>) = [(''id'', VStr (sanitize (ev_ID e))),
      (''source'', case of_json S (JObj (any_object S (ev_Source e))) of None \<Rightarrow> VNil | Some v \<Rightarrow> v), (''text'', VStr (sanitize (ev_Text e))),
      (''importance'', VStr ''unknown''), (''severity'', VStr ''unknown''), (''category'', VStr ''unknown''),
      (''analysis_error'', VStr ''AI analysis was skipped by a local expected-event rule'')]"
    by (simp add: event_object_def)
  have "list_all (\<lambda>(k, v). sanitize k = k) (event_object S (e\<lparr>ev_Judgment := skipped\<rparr>))"
    unfolding o by (simp add: sanitize_plain plain_char_def byte_def)
  moreover have "distinct (map fst (event_object S (e\<lparr>ev_Judgment := skipped\<rparr>)))" unfolding o by simp
  ultimately show ?thesis unfolding wire_event_def by (rule mget_clean [rotated])
qed

lemma wire_fields:
  "unmarked (wire_event S e)" "picked (wire_event S e) judgment_fields = judgment_object skipped"
  by (simp_all add: unmarked_def mget_wire event_object_def judgment_object_def skipped_def Unknown_def opt_number_def picked_def judgment_fields_def
      sanitize_plain plain_char_def byte_def)

lemma into_judgment_skipped: "into_judgment (judgment_object skipped) (verdict [] [] []) = skipped"
  by (simp add: into_judgment_def judgment_object_def skipped_def Unknown_def opt_number_def string_field_def number_field_def verdict_def)

lemma project_list_one:
  "project_list f [VObj e] m = ([VObj (f e)], move_count (str_of e ''importance'') (str_of (f e) ''importance'') m)"
  by (simp add: Let_def)

lemma project_event_cases:
  obtains "project_event acks rs e = restore_event e"
  | rv where "project_event acks rs e = mark_event rv (restore_event e)"
      "list_ex (rule_matches (restore_event e)) rs \<or> str_of (restore_event e) ''id'' \<in> set acks"
proof (cases "find (rule_matches (restore_event e)) rs")
  case None
  then show thesis using that by (cases "str_of (restore_event e) ''id'' \<in> set acks") (auto simp: project_event_def Let_def)
next
  case (Some r)
  then have "list_ex (rule_matches (restore_event e)) rs" by (auto simp: find_Some_iff list_ex_iff)
  with Some show thesis using that(2) by (simp add: project_event_def)
qed

text \<open>The single projected event of the reviewer.\<close>

lemma reviewer_project:
  assumes "project S [(''events'', VArr [VObj (event_object S (e\<lparr>ev_Judgment := skipped\<rparr>))]), (''summary'', VObj [(''unknown'', VNum (Fin 1))])] [] rules = Some v"
  shows "items v ''events'' = [VObj (project_event (acknowledged rules []) (rule_list rules) (wire_event S e))]"
proof -
  let ?o = "event_object S (e\<lparr>ev_Judgment := skipped\<rparr>)"
  let ?kvs = "[(''events'', VArr [VObj ?o]), (''summary'', VObj [(''unknown'', VNum (Fin 1))])]"
  define w where "w = as_obj (clean_value (VObj ?kvs))"
  have v: "v = project_report S w [] rules" using assms by (simp add: project_def clone_def w_def split: if_splits)
  have m: "mget w k = map_option clean_value (mget ?kvs k)" for k
    unfolding w_def by (rule mget_clean) (simp_all add: sanitize_plain plain_char_def byte_def)
  have "mget w ''events'' = Some (VArr [VObj (wire_event S e)])"
    unfolding m wire_event_def by (simp add: as_obj_def)
  then have e: "list_of w ''events'' = Some [VObj (wire_event S e)]" by (simp add: list_of_def)
  obtain m0 where s: "mget w ''summary'' = Some (VObj m0)" unfolding m by simp
  let ?f = "project_event (acknowledged rules []) (rule_list rules)"
  show ?thesis unfolding v items_def project_report_parts(1) [OF s e project_list_one] by simp
qed

text \<open>
  The reviewer decides before the provider is asked, and its decision can always be taken back: it calls an event routine
  only if an enabled rule of the current file matches it or it has been acknowledged, keeps the text and identity of
  the event, and records as the original judgment that no judgment was made, so that without the rule the event is
  unknown again and not routine; otherwise the event goes on unjudged.
\<close>

theorem reviewer_restorable:
  assumes "apply_review S (Some rules) e = Some (e', reviewed)"
  shows "if reviewed then
      Importance (ev_Judgment e') = ''routine'' \<and> ev_OriginalJudgment e' = Some skipped \<and> ev_ID e' = sanitize (ev_ID e) \<and>
      ev_Text e' = sanitize (ev_Text e) \<and>
      (list_ex (rule_matches (wire_event S e)) (rule_list rules) \<or> str_of (wire_event S e) ''id'' \<in> set (acknowledged rules []))
    else e' = e\<lparr>ev_Judgment := skipped\<rparr>"
proof -
  let ?w = "wire_event S e"
  obtain v where v: "project S [(''events'', VArr [VObj (event_object S (e\<lparr>ev_Judgment := skipped\<rparr>))]), (''summary'', VObj [(''unknown'', VNum (Fin 1))])] [] rules = Some v"
    using assms by (auto simp: apply_review_def Let_def split: option.splits)
  define projected where "projected = project_event (acknowledged rules []) (rule_list rules) ?w"
  have it: "as_obj (hd (items v ''events'')) = projected" using reviewer_project [OF v] by (simp add: projected_def as_obj_def)
  have r: "mget (restore_event ?w) = mget ?w" by (rule restore_of_unmarked) (rule wire_fields)
  have p: "picked (restore_event ?w) judgment_fields = judgment_object skipped"
    using wire_fields(2) [of S e] by (simp add: picked_def r)
  show ?thesis
  proof (cases rule: project_event_cases [of "acknowledged rules []" "rule_list rules" ?w])
    case 1
    then have "field_value projected ''review'' = VNil"
      using wire_fields(1) [of S e] by (simp add: projected_def field_value_def mgetd_def r unmarked_def)
    with assms v it show ?thesis by (auto simp: apply_review_def Let_def)
  next
    case (2 rv)
    then have m: "projected = mark_event rv (restore_event ?w)" by (simp add: projected_def)
    have why: "list_ex (rule_matches ?w) (rule_list rules) \<or> str_of ?w ''id'' \<in> set (acknowledged rules [])"
      using 2(2) rule_matches_cong [OF r] by (simp add: str_of_def r)
    have f: "field_value projected ''review'' \<noteq> VNil" "string_field projected ''importance'' (Importance skipped) = ''routine''"
      "obj_of projected ''original_judgment'' = judgment_object skipped"
      by (simp_all add: m field_value_def mgetd_def mget_mark obj_of_def string_field_def judgment_fields_def p [unfolded judgment_fields_def])
    have "reviewed" "e' = (json_event S (e\<lparr>ev_Judgment := skipped\<rparr>))\<lparr>ev_Judgment := into_judgment projected skipped,
        ev_OriginalJudgment := Some skipped, ev_Review := Some (to_json S (VObj (obj_of projected ''review'')))\<rparr>"
      using assms f(1) by (simp_all add: apply_review_def Let_def v it f(3) into_judgment_skipped)
    with why f(2) show ?thesis by (simp add: into_judgment_def json_event_def)
  qed
qed

section \<open>Concrete reviews\<close>

definition quick_std :: std where
  "quick_std = sample_std\<lparr>sha256hex := (\<lambda>s. replicate 64 CHR ''0'')\<rparr>"

definition sample_entry :: object where
  "sample_entry = [(''id'', VStr ''a''), (''text'', VStr ''disk is full''), (''source'', VObj [(''type'', VStr ''file''), (''path'', VStr ''x.log'')]),
     (''importance'', VStr ''important''), (''severity'', VStr ''outage'')]"

definition sample_report :: object where
  "sample_report = [(''schema_version'', VNum (Fin 2)), (''summary'', VObj [(''important'', VNum (Fin 1)), (''unknown'', VNum (Fin 0))]),
     (''events'', VArr [VObj sample_entry])]"

definition sample_request :: object where
  "sample_request = [(''event_id'', VStr ''a''), (''action'', VStr ''expected''), (''pattern'', VStr ''disk is full'')]"

definition sample_rule :: object where
  "sample_rule = new_rule quick_std (''disk is full'', ''contains'', [(''type'', VStr ''file''), (''path'', VStr ''x.log'')])"

definition sample_rules :: object where
  "sample_rules = [(''version'', VNum (Fin 1)), (''rules'', VArr [VObj sample_rule]), (''acknowledged'', VObj [])]"

lemma projection_forgets_witness:
  "mget (project_event [''a''] [] (project_event [] [sample_rule] sample_entry)) = mget (project_event [''a''] [] sample_entry) \<and>
    mget (project_event [] [] (project_event [] [sample_rule] sample_entry)) = mget sample_entry"
proof -
  have "sane_original sample_entry" by code_simp
  moreover have "restore_event sample_entry = sample_entry" by code_simp
  ultimately show ?thesis using projection_forgets [of sample_entry "[''a'']" "[]" "[]" "[sample_rule]"] by simp
qed

lemma sample_rule_matches: "str_of (project_event [] [sample_rule] sample_entry) ''importance'' = ''routine''"
  by code_simp

lemma projection_keeps_count_witness:
  "\<exists>m out. mget (project_report quick_std sample_report ''r.json'' sample_rules) ''summary'' = Some (VObj m) \<and>
    list_of (project_report quick_std sample_report ''r.json'' sample_rules) ''events'' = Some out \<and> length out = length [VObj sample_entry] \<and>
    counts m ''important'' (tally_of ''important'' out + 0) \<and>
    (f64_lt (Fin 0) (number_of m ''unknown'') \<longrightarrow> mget m ''complete_within_window'' = Some (VBool False))"
proof (rule projection_keeps_count)
  show "mget sample_report ''summary'' = Some (VObj [(''important'', VNum (Fin 1)), (''unknown'', VNum (Fin 0))])"
    "list_of sample_report ''events'' = Some [VObj sample_entry]" by code_simp+
  show "counts [(''important'', VNum (Fin 1)), (''unknown'', VNum (Fin 0))] ''important'' (tally_of ''important'' [VObj sample_entry] + 0)"
    by (simp add: counts_def number_of_def sample_entry_def str_of_def)
qed simp_all

lemma quick_digests: "printed_digests quick_std"
  by (simp add: printed_digests_def quick_std_def plain_char_def byte_def list_all_iff)

theorem review_keeps_rules_readable_witness:
  "review_rules quick_std (Inr (sample_report, ''r.json'')) sample_request empty_rules = Inr sample_rules \<and> check_rules sample_rules = None"
proof -
  have "check_rules empty_rules = None" "distinct (map rule_id (rule_list empty_rules))" "reviewable sample_report ''r.json''" "no_collision sample_rules"
    by code_simp+
  moreover have r: "review_rules quick_std (Inr (sample_report, ''r.json'')) sample_request empty_rules = Inr sample_rules" by code_simp
  ultimately show ?thesis using review_keeps_rules_readable [OF _ _ refl _ quick_digests r] by blast
qed

definition acked_rules :: object where
  "acked_rules = acknowledge_ids True [] [''e1''] empty_rules"

theorem reviewer_restorable_witness:
  "\<exists>e'. apply_review quick_std (Some acked_rules) sample_event = Some (e', True) \<and>
    Importance (ev_Judgment e') = ''routine'' \<and> ev_OriginalJudgment e' = Some skipped"
proof -
  let ?o = "[(''events'', VArr [VObj (event_object quick_std (sample_event\<lparr>ev_Judgment := skipped\<rparr>))]), (''summary'', VObj [(''unknown'', VNum (Fin 1))])]"
  have "finite_value (VObj ?o)" by code_simp
  then obtain v where v: "project quick_std ?o [] acked_rules = Some v" by (auto simp: project_def clone_def)
  have "field_value (project_event (acknowledged acked_rules []) (rule_list acked_rules) (wire_event quick_std sample_event)) ''review'' \<noteq> VNil"
    by code_simp
  then obtain e' where "apply_review quick_std (Some acked_rules) sample_event = Some (e', True)"
    by (simp add: apply_review_def Let_def v reviewer_project [OF v] as_obj_def)
  with reviewer_restorable [OF this] show ?thesis by simp
qed

text \<open>
  The conditions of \<open>review_keeps_rules_readable\<close> are needed: a report is accepted with an event whose source is empty, or whose
  identity is longer than 256 bytes, but expecting or acknowledging it writes rules that cannot be read again, and
  expecting an event whose rule stands twice in the file enables one copy only, which makes the two conflict.
\<close>

definition bare_report :: "string \<Rightarrow> object" where
  "bare_report i = [(''schema_version'', VNum (Fin 2)), (''summary'', VObj []),
     (''events'', VArr [VObj [(''id'', VStr i), (''text'', VStr ''disk is full''), (''source'', VObj [])]])]"

lemma empty_source_breaks_rules:
  "validReport (bare_report ''a'') \<and>
    (case review_rules quick_std (Inr (bare_report ''a'', ''r.json'')) sample_request empty_rules of
       Inr rules \<Rightarrow> check_rules rules = Some (Err ''invalid review rule'') | Inl e \<Rightarrow> False)"
  by code_simp

lemma long_identity_breaks_rules:
  "let i = replicate 257 CHR ''a'' in
   validReport (bare_report i) \<and>
    (case review_rules quick_std (Inr (bare_report i, ''r.json'')) [(''event_id'', VStr i), (''action'', VStr ''acknowledge'')] empty_rules of
       Inr rules \<Rightarrow> check_rules rules = Some (Err ''invalid acknowledgement identity'') | Inl e \<Rightarrow> False)"
  by code_simp

lemma duplicate_rule_breaks_rules:
  "let off = mput ''enabled'' (VBool False) sample_rule;
       twice = [(''version'', VNum (Fin 1)), (''rules'', VArr [VObj off, VObj off]), (''acknowledged'', VObj [])] in
   check_rules twice = None \<and>
    (case review_rules quick_std (Inr (sample_report, ''r.json'')) sample_request twice of
       Inr rules \<Rightarrow> check_rules rules = Some (Err ''conflicting duplicate rule identity'') | Inl e \<Rightarrow> False)"
  by code_simp

end
