(* ===== verification/Investigation.thy ===== *)
theory Investigation
  imports Options ReviewSafety
begin

text \<open>
  \<open>internal/investigation/server.go\<close> without the sockets: which request reaches which operation, how a browser's report
  identity finds a report, what a scan request must look like, and the life of the one scan and the one search.
\<close>

section \<open>Requests\<close>

text \<open>
  What the handler reads of a request; \<open>rq_Body\<close> is \<open>None\<close> when the body cannot be read within 16 MiB, and the two query
  fields are the first values of \<open>id\<close> and \<open>offset\<close>.
\<close>

record http_request =
  rq_Method :: string
  rq_Host :: string
  rq_Origin :: string
  rq_FetchSite :: string
  rq_RawPath :: string
  rq_RawQuery :: string
  rq_Path :: string
  rq_id :: string
  rq_offset :: string
  rq_Token :: string
  rq_ContentType :: string
  rq_Body :: "string option"

datatype route =
    Refused nat string
  | StaticFile string
  | ShowState
  | ShowReport string
  | ShowLive
  | ShowRules
  | ShowSearch string int
  | Analyze object
  | StopScan
  | ReviewEvents object
  | FetchContext object
  | StartSearch object
  | StopSearch string

definition static_paths :: "string list" where
  "static_paths = [''/'', ''/index.html'', ''/app.js'', ''/search.js'', ''/context.js'', ''/prompt.js'', ''/style.css'', ''/favicon.svg'']"

definition get_route :: "http_request \<Rightarrow> route" where
  "get_route r =
     (let path = rq_Path r in
      if path \<in> set static_paths then StaticFile path
      else if path = ''/api/state'' then ShowState
      else if path = ''/api/report'' then ShowReport (rq_id r)
      else if path = ''/api/live'' then ShowLive
      else if path = ''/api/rules'' then ShowRules
      else if path = ''/api/search'' then
        (case (if rq_offset r = [] then Some 0 else parse_int64 (rq_offset r)) of
           None \<Rightarrow> Refused 400 ''invalid offset''
         | Some n \<Rightarrow> if n < 0 \<or> 100000 < n then Refused 400 ''invalid offset'' else ShowSearch (rq_id r) n)
      else Refused 404 ''not found'')"

definition post_route :: "std \<Rightarrow> string \<Rightarrow> http_request \<Rightarrow> route" where
  "post_route S token r =
     (if rq_Token r \<noteq> token then Refused 403 ''request not authorized''
      else if rq_ContentType r \<noteq> ''application/json'' then Refused 415 ''JSON required''
      else case map_option (Strict (of_json S)) (rq_Body r) of
        Some (Inr (VObj p)) \<Rightarrow>
          (let path = rq_Path r in
           if path = ''/api/analyze'' then Analyze p
           else if path = ''/api/live/stop'' then StopScan
           else if path = ''/api/review'' then ReviewEvents p
           else if path = ''/api/context'' then FetchContext p
           else if path = ''/api/search'' then StartSearch p
           else if path = ''/api/search/stop'' then StopSearch (str_of p ''id'')
           else Refused 404 ''not found'')
      | _ \<Rightarrow> Refused 400 ''invalid JSON request'')"

definition same_origin :: "string \<Rightarrow> http_request \<Rightarrow> bool" where
  "same_origin host r = (rq_Host r = host \<and> (rq_Origin r = [] \<or> rq_Origin r = ''http://'' @ host) \<and> rq_FetchSite r \<noteq> ''cross-site'')"

definition route_request :: "std \<Rightarrow> string \<Rightarrow> string \<Rightarrow> http_request \<Rightarrow> route" where
  "route_request S host token r =
     (if \<not> same_origin host r then Refused 403 ''local origin required''
      else if rq_RawPath r \<noteq> [] \<or> 4096 < length (rq_RawQuery r) then Refused 400 ''invalid path''
      else if rq_Method r \<noteq> ''GET'' \<and> rq_Method r \<noteq> ''POST'' then Refused 405 ''method unavailable''
      else if rq_Method r = ''GET'' then get_route r else post_route S token r)"

section \<open>Reports by identity\<close>

text \<open>
  The report directory as \<open>os.ReadDir\<close> lists it: the name, whether it is a regular file, its modification time when that is
  known, and the contents as the bounded reader returns them.
\<close>

record dir_entry =
  de_Name :: string
  de_regular :: bool
  de_ModTime :: "gotime option"
  de_contents :: "string option"

definition clone_or_nil :: "object \<Rightarrow> object" where
  "clone_or_nil v = (case clone v of None \<Rightarrow> [] | Some w \<Rightarrow> w)"

definition valid_report_id :: "string \<Rightarrow> bool" where
  "valid_report_id i = (i \<noteq> [] \<and> path_Base i = i \<and> \<not> HasPrefix i ''.'' \<and> HasSuffix i ''.json'')"

definition report_by_id :: "std \<Rightarrow> (string \<times> object) option \<Rightarrow> dir_entry list option \<Rightarrow> string \<Rightarrow> object result" where
  "report_by_id S initial dir i =
     (if \<not> valid_report_id i then Inl (Err ''invalid report id'')
      else case (case initial of Some (k, v) \<Rightarrow> if k = i then Some v else None | None \<Rightarrow> None) of
        Some v \<Rightarrow> Inr (clone_or_nil v)
      | None \<Rightarrow>
          (case dir of
             None \<Rightarrow> Inl (Err ''report directory unavailable'')
           | Some es \<Rightarrow>
               (case find (\<lambda>e. de_Name e = i \<and> de_regular e) es of
                  None \<Rightarrow> Inl (Err ''report unavailable'')
                | Some e \<Rightarrow> readReport S (de_contents e))))"

section \<open>Scan requests\<close>

text \<open>\<open>base64.StdEncoding.Strict()\<close>: line breaks are skipped, padding is required, the bits behind it are zero.\<close>

definition base64_value :: "char \<Rightarrow> nat option" where
  "base64_value c =
     (let b = byte c in
      if 65 \<le> b \<and> b \<le> 90 then Some (b - 65)
      else if 97 \<le> b \<and> b \<le> 122 then Some (b - 71)
      else if 48 \<le> b \<and> b \<le> 57 then Some (b + 4)
      else if c = CHR ''+'' then Some 62 else if c = CHR ''/'' then Some 63 else None)"

fun base64_groups :: "string \<Rightarrow> string option" where
  "base64_groups [] = Some []"
| "base64_groups (a # b # c # d # rest) =
     (case (base64_value a, base64_value b) of
        (Some x, Some y) \<Rightarrow>
          (if c = CHR ''='' then (if d = CHR ''='' \<and> rest = [] \<and> y mod 16 = 0 then Some [char_of (x * 4 + y div 16)] else None)
           else case base64_value c of
             None \<Rightarrow> None
           | Some z \<Rightarrow>
               (if d = CHR ''='' then
                  (if rest = [] \<and> z mod 4 = 0 then Some [char_of (x * 4 + y div 16), char_of (y mod 16 * 16 + z div 4)] else None)
                else case base64_value d of
                  None \<Rightarrow> None
                | Some u \<Rightarrow>
                    map_option (\<lambda>t. [char_of (x * 4 + y div 16), char_of (y mod 16 * 16 + z div 4), char_of (z mod 4 * 64 + u)] @ t)
                      (base64_groups rest)))
      | _ \<Rightarrow> None)"
| "base64_groups _ = None"

definition base64_decode :: "string \<Rightarrow> string option" where
  "base64_decode s = base64_groups (filter (\<lambda>c. c \<noteq> CHR 0x0A \<and> c \<noteq> CHR 0x0D) s)"

definition scan_limits :: "(string \<times> f64 \<times> f64) list" where
  "scan_limits = [(''max_batches'', Fin 1, Fin 12500), (''tail'', Fin 0, Fin 10000), (''max_streams'', Fin 1, Fin 256),
     (''retain_events'', Fin 1, Fin 5000), (''max_cost'', Fin (4722366482869645 / 4722366482869645213696), Fin 100)]"

definition limit_ok :: "object \<Rightarrow> string \<times> f64 \<times> f64 \<Rightarrow> bool" where
  "limit_ok p l = (case l of (k, lo, hi) \<Rightarrow>
     mget p k = None \<or>
     (let v = number_of p k in \<not> (f64_lt v lo \<or> f64_lt hi v) \<and> (k = ''max_cost'' \<or> integral v)))"

definition scope_text_ok :: "object \<Rightarrow> string \<Rightarrow> bool" where
  "scope_text_ok p k = (case mget p k of
     None \<Rightarrow> True
   | Some (VStr t) \<Rightarrow> length t \<le> 256 \<and> \<not> HasPrefix t ''-'' \<and> \<not> has_control t
   | Some _ \<Rightarrow> False)"

definition is_flag :: "object \<Rightarrow> string \<Rightarrow> bool" where
  "is_flag p k = (case mget p k of None \<Rightarrow> True | Some (VBool _) \<Rightarrow> True | _ \<Rightarrow> False)"

text \<open>An upload: its display name and its bytes.\<close>

definition read_upload :: "govalue \<Rightarrow> (string \<times> string) option" where
  "read_upload raw = (case raw of
     VObj file \<Rightarrow>
       (let name = str_of file ''name'' in
        case base64_decode (str_of file ''data'') of
          None \<Rightarrow> None
        | Some bytes \<Rightarrow>
            (if name = [] \<or> path_Base name \<noteq> name \<or> name = ''.'' \<or> name = ''..'' \<or> 180 < length name \<or> has_control name then None
             else Some (name, bytes)))
   | _ \<Rightarrow> None)"

fun read_uploads :: "nat \<Rightarrow> govalue list \<Rightarrow> (string \<times> string) list result" where
  "read_uploads used [] = Inr []"
| "read_uploads used (raw # raws) =
     (case read_upload raw of
        None \<Rightarrow> Inl (Err ''invalid upload'')
      | Some (name, bytes) \<Rightarrow>
          (if 10485760 < used + length bytes then Inl (Err ''uploads exceed 10 MiB'')
           else case read_uploads (used + length bytes) raws of Inl e \<Rightarrow> Inl e | Inr us \<Rightarrow> Inr ((name, bytes) # us)))"

text \<open>The checks of \<open>start\<close> before it takes the lock: the completed request and its uploads.\<close>

definition completed_request :: "bool \<Rightarrow> string \<Rightarrow> object \<Rightarrow> object" where
  "completed_request offline rulesPath p =
     (let p1 = mput ''_review_rules'' (VStr rulesPath) p in if offline then mput ''offline'' (VBool True) p1 else p1)"

definition check_scan :: "bool \<Rightarrow> bool \<Rightarrow> string \<Rightarrow> object \<Rightarrow> (object \<times> (string \<times> string) list) result" where
  "check_scan can_scan offline rulesPath p0 =
     (if \<not> can_scan then Inl (Err ''collection unavailable'')
      else let kind = str_of p0 ''kind''; p = completed_request offline rulesPath p0 in
        if kind \<noteq> ''files'' \<and> kind \<noteq> ''kubernetes'' then Inl (Err ''choose files or Kubernetes'')
        else if \<not> list_all (is_flag p) [''offline'', ''grouping'', ''live''] then Inl (Err ''invalid scan mode'')
        else if mget p ''live'' = Some (VBool True) \<and> kind \<noteq> ''kubernetes'' then Inl (Err ''live requires Kubernetes'')
        else if \<not> list_all (limit_ok p) scan_limits then Inl (Err ''invalid scan limit'')
        else if \<not> list_all (scope_text_ok p) [''context'', ''namespace'', ''selector'', ''since''] then Inl (Err ''invalid Kubernetes scope'')
        else if kind \<noteq> ''files'' then Inr (p, [])
        else if items p ''files'' = [] \<or> 20 < length (items p ''files'') then Inl (Err ''choose 1 to 20 files'')
        else case read_uploads 0 (items p ''files'') of Inl e \<Rightarrow> Inl e | Inr us \<Rightarrow> Inr (p, us))"

section \<open>Scans\<close>

text \<open>
  The server's state.  \<open>sv_scans\<close> is what runs in the background: the identity of every scan whose goroutine has not
  ended, and whether its context has been cancelled; \<open>sv_searches\<close> likewise the searches being executed, and \<open>sv_halt\<close> whether
  the context of the last search has been cancelled.
\<close>

record server =
  sv_initial :: "(string \<times> object) option"
  sv_job :: "object option"
  sv_live :: "object option"
  sv_stop :: bool
  sv_scans :: "(string \<times> bool) list"
  sv_search :: "run option"
  sv_halt :: bool
  sv_searches :: "string list"
  sv_cache :: cache
  sv_slots :: nat

definition new_server :: server where
  "new_server = \<lparr>sv_initial = None, sv_job = None, sv_live = None, sv_stop = False, sv_scans = [], sv_search = None, sv_halt = False,
     sv_searches = [], sv_cache = [], sv_slots = 0\<rparr>"

definition job_status :: "server \<Rightarrow> string" where
  "job_status s = (case sv_job s of None \<Rightarrow> [] | Some j \<Rightarrow> str_of j ''status'')"

definition busy :: "server \<Rightarrow> bool" where
  "busy s = (sv_job s \<noteq> None \<and> (job_status s = ''running'' \<or> job_status s = ''stopping''))"

definition starting_job :: "string \<Rightarrow> object \<Rightarrow> object" where
  "starting_job i p = [(''id'', VStr i), (''status'', VStr ''running''), (''message'', VStr (''Starting analysis'' @ [CHR 0xE2, CHR 0x80, CHR 0xA6])),
     (''report_id'', VNil), (''live'', VBool (mget p ''live'' = Some (VBool True)))]"

definition starting_view :: object where
  "starting_view = normalize_report [(''schema_version'', VNum (Fin 2)), (''mode'', VStr ''offline-rules''), (''summary'', VObj []),
     (''events'', VArr []), (''tail_events'', VArr []), (''live'', VObj [(''status'', VStr ''running''), (''message'', VStr ''Starting collection'')])]"

text \<open>\<open>i\<close> is the identity made from the time of the request.\<close>

definition start_scan :: "string \<Rightarrow> object \<Rightarrow> server \<Rightarrow> server \<times> object result" where
  "start_scan i p s =
     (if busy s then (s, Inl (Err ''a scan is already running''))
      else (s\<lparr>sv_stop := True, sv_job := Some (starting_job i p), sv_live := Some starting_view, sv_scans := sv_scans s @ [(i, False)]\<rparr>,
            Inr [(''id'', VStr i)]))"

definition stop_scan :: "server \<Rightarrow> server \<times> object result" where
  "stop_scan s =
     (if \<not> sv_stop s \<or> sv_job s = None \<or> job_status s \<noteq> ''running'' then (s, Inl (Err ''no active collection''))
      else (s\<lparr>sv_scans := (case sv_scans s of [] \<Rightarrow> [] | _ \<Rightarrow> butlast (sv_scans s) @ [(fst (last (sv_scans s)), True)]),
              sv_job := map_option (mput ''status'' (VStr ''stopping'')) (sv_job s)\<rparr>, Inr [(''status'', VStr ''stopping'')]))"

text \<open>\<open>rename\<close>: the paths of the stored uploads become the names the user gave them.\<close>

definition rename_source :: "(string, string) gomap \<Rightarrow> govalue \<Rightarrow> govalue" where
  "rename_source names raw = (case raw of
     VObj e \<Rightarrow> VObj (put_obj ''source'' (\<lambda>src. case mget names (str_of src ''path'') of
       None \<Rightarrow> src | Some name \<Rightarrow> mput ''path'' (VStr name) src) e)
   | _ \<Rightarrow> raw)"

definition rename_report :: "(string, string) gomap \<Rightarrow> string list \<Rightarrow> object \<Rightarrow> object option" where
  "rename_report names paths v0 =
     (case clone v0 of
        None \<Rightarrow> (if names = [] then Some (normalize_report []) else None)
      | Some v \<Rightarrow>
          (let v1 = foldl (\<lambda>v k. put_list k (map (rename_source names) (items v k)) v) v
                 [''events'', ''tail_events'', ''coverage'', ''important_groups''];
               v2 = (if names = [] then v1
                     else mput ''scope'' (VObj [(''files'', VArr (map (\<lambda>p. VStr (mgetd [] names p)) paths))]) v1) in
           Some (normalize_report v2)))"

text \<open>
  How the goroutine of a scan ends: the error of its directory, its value already renamed, its error, and the error of
  writing the report.
\<close>

record scan_end =
  se_setup :: status
  se_value :: "object option"
  se_error :: status
  se_write :: status

definition scan_status :: "scan_end \<Rightarrow> status" where
  "scan_status r = (if se_setup r \<noteq> None then se_setup r
     else if se_value r \<noteq> None \<and> se_write r \<noteq> None then se_write r else se_error r)"

definition scan_value :: "scan_end \<Rightarrow> object option" where
  "scan_value r = (if se_setup r \<noteq> None then None else se_value r)"

definition failed_scan :: "status \<Rightarrow> bool" where
  "failed_scan st = (case st of None \<Rightarrow> False | Some e \<Rightarrow> e \<noteq> Canceled)"

definition ended_job :: "string \<Rightarrow> scan_end \<Rightarrow> object \<Rightarrow> object" where
  "ended_job i r j =
     (let j1 = mput ''report_id'' (VStr (i @ ''.json'')) (mput ''message'' (VStr ''Analysis complete; review coverage and unknown events'')
            (mput ''status'' (VStr ''complete'') j)) in
      if failed_scan (scan_status r)
      then mput ''message'' (VStr ''Analysis failed; check collection configuration and provider credentials'') (mput ''status'' (VStr ''error'') j1)
      else j1)"

definition end_scan :: "string \<Rightarrow> scan_end \<Rightarrow> server \<Rightarrow> server" where
  "end_scan i r s = s\<lparr>sv_live := (case scan_value r of None \<Rightarrow> sv_live s | Some v \<Rightarrow> Some v),
     sv_job := map_option (ended_job i r) (sv_job s), sv_stop := False, sv_scans := filter (\<lambda>x. fst x \<noteq> i) (sv_scans s)\<rparr>"

section \<open>Sources\<close>

text \<open>\<open>sourceLocked\<close> and \<open>source\<close>; the outer option is the panic of \<open>project\<close>.\<close>

definition live_or_report :: "std \<Rightarrow> dir_entry list option \<Rightarrow> object \<Rightarrow> server \<Rightarrow> (object \<times> string) result" where
  "live_or_report S dir p s =
     (let live_id = str_of p ''live_id''; report_id = str_of p ''report_id'' in
      if live_id \<noteq> [] \<and> report_id \<noteq> [] then Inl (Err ''choose one report'')
      else if live_id \<noteq> [] then
        (case (sv_job s, sv_live s) of
           (Some j, Some v) \<Rightarrow>
             (if str_of j ''id'' \<noteq> live_id then Inl (Err ''live session changed'') else Inr (clone_or_nil v, live_id @ ''.json''))
         | _ \<Rightarrow> Inl (Err ''live session changed''))
      else case report_by_id S (sv_initial s) dir report_id of Inl e \<Rightarrow> Inl e | Inr v \<Rightarrow> Inr (v, report_id))"

definition projected_source :: "std \<Rightarrow> dir_entry list option \<Rightarrow> rules_file \<Rightarrow> object \<Rightarrow> server \<Rightarrow> (object \<times> string) result option" where
  "projected_source S dir file p s =
     (case live_or_report S dir p s of
        Inl e \<Rightarrow> Some (Inl e)
      | Inr (v, key) \<Rightarrow>
          (case load_review_rules S file of
             Inl e \<Rightarrow> Some (Inl e)
           | Inr rules \<Rightarrow> map_option (\<lambda>v. Inr (v, key)) (project S v key rules)))"

end
