(* ===== verification/Server.thy ===== *)
theory Server
  imports Investigation
begin

text \<open>
  The rest of \<open>internal/investigation/server.go\<close>: the listing of the reports, the searches, the context lookups, and the
  handler that dispatches a request to them; then every operation the server can perform as one step relation.
\<close>

section \<open>The state of the dashboard\<close>

definition listed :: "dir_entry \<Rightarrow> bool" where
  "listed e = (de_regular e \<and> HasSuffix (de_Name e) ''.json'' \<and> \<not> HasPrefix (de_Name e) ''.'' \<and> de_ModTime e \<noteq> None)"

definition mod_time :: "dir_entry \<Rightarrow> gotime" where
  "mod_time e = (case de_ModTime e of None \<Rightarrow> zero_time | Some t \<Rightarrow> t)"

text \<open>The hundred newest reports, after the imported one.\<close>

definition report_names :: "(string \<times> object) option \<Rightarrow> dir_entry list \<Rightarrow> string list" where
  "report_names initial es = (let newest = take 100 (sort_stable (\<lambda>a b. Before (mod_time b) (mod_time a)) (filter listed es)) in
     rev (remdups (rev ((case initial of None \<Rightarrow> [] | Some (i, v) \<Rightarrow> [i]) @ map de_Name newest))))"

definition listed_report :: "std \<Rightarrow> (string \<times> object) option \<Rightarrow> dir_entry list \<Rightarrow> string \<Rightarrow> object option" where
  "listed_report S initial es name =
     (case (case initial of Some (k, v) \<Rightarrow> if k = name then Some v else None | None \<Rightarrow> None) of
        Some v \<Rightarrow> Some (clone_or_nil v)
      | None \<Rightarrow>
          (case find (\<lambda>e. de_Name e = name) es of
             None \<Rightarrow> None
           | Some e \<Rightarrow> (case readReport S (de_contents e) of Inl _ \<Rightarrow> None | Inr v \<Rightarrow> Some v)))"

definition report_row :: "string \<Rightarrow> object \<Rightarrow> govalue" where
  "report_row name v = VObj [(''id'', VStr name), (''created_at'', field_value v ''created_at''), (''mode'', field_value v ''mode''),
     (''scope'', field_value v ''scope''), (''summary'', field_value v ''summary'')]"

text \<open>\<open>None\<close> is the panic of \<open>project\<close>; a report that cannot be read is left out.\<close>

fun report_rows :: "std \<Rightarrow> (string \<times> object) option \<Rightarrow> dir_entry list \<Rightarrow> object \<Rightarrow> string list \<Rightarrow> govalue list option" where
  "report_rows S initial es rules [] = Some []"
| "report_rows S initial es rules (n # ns) =
     (case listed_report S initial es n of
        None \<Rightarrow> report_rows S initial es rules ns
      | Some v \<Rightarrow> (case project S v n rules of
          None \<Rightarrow> None
        | Some v' \<Rightarrow> map_option (Cons (report_row n v')) (report_rows S initial es rules ns)))"

definition job_value :: "server \<Rightarrow> govalue" where
  "job_value s = (case sv_job s of None \<Rightarrow> VNil | Some j \<Rightarrow> (case clone j of None \<Rightarrow> VNil | Some c \<Rightarrow> VObj c))"

definition server_state :: "std \<Rightarrow> string \<Rightarrow> bool \<Rightarrow> dir_entry list option \<Rightarrow> rules_file \<Rightarrow> server \<Rightarrow> object result option" where
  "server_state S token available dir file s =
     (case load_review_rules S file of
        Inl e \<Rightarrow> Some (Inl e)
      | Inr rules \<Rightarrow>
          (case dir of
             None \<Rightarrow> Some (Inl (Err ''report directory unavailable''))
           | Some es \<Rightarrow>
               map_option (\<lambda>rows. Inr [(''csrf'', VStr token), (''jev_available'', VBool available), (''job'', job_value s), (''reports'', VArr rows)])
                 (report_rows S (sv_initial s) es rules (report_names (sv_initial s) es))))"

section \<open>Searches\<close>

definition source_name :: "object \<Rightarrow> string" where
  "source_name src = (if str_of src ''type'' = ''kubernetes''
     then str_of src ''namespace'' @ ''/'' @ str_of src ''pod'' @ ''/'' @ str_of src ''container'' else str_of src ''path'')"

definition filter_ok :: "string \<times> govalue \<Rightarrow> bool" where
  "filter_ok kv = (case kv of (k, v) \<Rightarrow> (case v of
     VStr t \<Rightarrow> length t \<le> 1000 \<and> k \<in> set [''namespace'', ''pod'', ''container''] | _ \<Rightarrow> False))"

definition in_filters :: "object \<Rightarrow> string \<Rightarrow> object \<Rightarrow> bool" where
  "in_filters scope source e =
     (let src = obj_of e ''source'' in
      list_all (\<lambda>(k, v). v = VStr [] \<or> field_value src k = v) scope \<and> (source = [] \<or> source = ''all'' \<or> source = source_name src))"

text \<open>\<open>into\<close> is \<open>json.Unmarshal\<close> of the object's JSON into an event: what it leaves there and whether it succeeded.\<close>

type_synonym into_event = "object \<Rightarrow> event \<Rightarrow> event \<times> bool"

fun select_events :: "into_event \<Rightarrow> (object \<Rightarrow> bool) \<Rightarrow> govalue list \<Rightarrow> string list \<Rightarrow> (event \<times> object) list" where
  "select_events into ok [] seen = []"
| "select_events into ok (raw # raws) seen =
     (case raw of
        VObj e \<Rightarrow>
          (if str_of e ''id'' \<in> set seen then select_events into ok raws seen
           else (case into e empty_event of
             (typed, decoded) \<Rightarrow>
               (if ok e \<and> decoded then [(typed, e)] else []) @ select_events into ok raws (str_of e ''id'' # seen)))
      | _ \<Rightarrow> select_events into ok raws seen)"

text \<open>\<open>n == float64(int(n))\<close> on a machine where a conversion out of range gives the least integer.\<close>

definition search_budget :: "object \<Rightarrow> int option" where
  "search_budget p =
     (if field_value p ''max_batches'' = VNil then Some 16
      else case number_of p ''max_batches'' of
        Fin q \<Rightarrow> if of_int \<lfloor>q\<rfloor> = q \<and> - (2 ^ 63) \<le> q \<and> q < 2 ^ 63 then Some \<lfloor>q\<rfloor> else None
      | _ \<Rightarrow> None)"

definition search_mode :: "object \<Rightarrow> string" where
  "search_mode p = (if str_of p ''mode'' = [] then ''jev'' else str_of p ''mode'')"

definition searching :: "server \<Rightarrow> bool" where
  "searching s = (case sv_search s of None \<Rightarrow> False | Some r \<Rightarrow> rn_status r = ''running'')"

text \<open>
  What \<open>startSearch\<close> prepares without the lock: the run and the events it covers.  \<open>credential\<close> is the error of finding a
  key and making a client of it.
\<close>

definition prepare_search :: "std \<Rightarrow> into_event \<Rightarrow> bool \<Rightarrow> status \<Rightarrow> gotime \<Rightarrow> cache \<Rightarrow> object \<Rightarrow> object \<Rightarrow> (run \<times> govalue list) result" where
  "prepare_search S into offline credential now cache p v =
     (if offline \<and> search_mode p \<noteq> ''literal'' then Inl (Err ''dashboard is offline; use exact text filtering'')
      else case search_budget p of
        None \<Rightarrow> Inl (Err ''invalid search budget'')
      | Some limit \<Rightarrow>
          (if \<not> list_all filter_ok (obj_of p ''scope'') then Inl (Err ''invalid source filter'')
           else let chosen = select_events into (in_filters (obj_of p ''scope'') (str_of p ''source'')) (items v ''events'' @ items v ''tail_events'') [] in
             if chosen = [] then Inl (Err ''no retained events in these filters'')
             else case Search_New S now (map fst chosen) (str_of p ''query'') (search_mode p) limit (Some cache) of
               Inl e \<Rightarrow> Inl e
             | Inr r \<Rightarrow> (case (if search_mode p = ''jev'' then credential else None) of
                 Some e \<Rightarrow> Inl e | None \<Rightarrow> Inr (r, map (\<lambda>x. VObj (snd x)) chosen))))"

definition start_search :: "std \<Rightarrow> into_event \<Rightarrow> bool \<Rightarrow> status \<Rightarrow> gotime \<Rightarrow> (object \<times> string) result \<Rightarrow> object \<Rightarrow> server
    \<Rightarrow> server \<times> object result" where
  "start_search S into offline credential now source p s =
     (case source of
        Inl e \<Rightarrow> (s, Inl e)
      | Inr (v, key) \<Rightarrow>
          (case prepare_search S into offline credential now (sv_cache s) p v of
             Inl e \<Rightarrow> (s, Inl e)
           | Inr (r, chosen) \<Rightarrow>
               (if searching s then (s, Inl (Err ''a search is already running''))
                else (s\<lparr>sv_search := Some r, sv_halt := False, sv_searches := sv_searches s @ [rn_ID r]\<rparr>,
                      Inr [(''id'', VStr (rn_ID r)),
                           (''report'', VObj (mput ''tail_events'' (VArr []) (mput ''events'' (VArr chosen) v)))]))))"

definition stop_search :: "string \<Rightarrow> server \<Rightarrow> server \<times> object result" where
  "stop_search i s =
     (case sv_search s of
        None \<Rightarrow> (s, Inl (Err ''search expired''))
      | Some r \<Rightarrow> if rn_ID r \<noteq> i then (s, Inl (Err ''search expired'')) else (s\<lparr>sv_halt := True\<rparr>, Inr [(''status'', VStr ''stopping'')]))"

text \<open>\<open>Execute\<close> changes the run it was given and the cache; its goroutine is over when it returns.\<close>

definition search_progress :: "run \<Rightarrow> server \<Rightarrow> server" where
  "search_progress r s = s\<lparr>sv_search := (case sv_search s of Some q \<Rightarrow> Some (if rn_ID q = rn_ID r then r else q) | None \<Rightarrow> None),
     sv_cache := rn_cache r\<rparr>"

definition end_search :: "run \<Rightarrow> server \<Rightarrow> server" where
  "end_search r s = (search_progress r s)\<lparr>sv_searches := filter (\<lambda>i. i \<noteq> rn_ID r) (sv_searches s)\<rparr>"

definition search_page :: "gotime \<Rightarrow> string \<Rightarrow> int \<Rightarrow> server \<Rightarrow> snapshot result" where
  "search_page now i offset s = (case sv_search s of
     None \<Rightarrow> Inl (Err ''search expired'')
   | Some r \<Rightarrow> if rn_ID r \<noteq> i then Inl (Err ''search expired'') else Inr (Snapshot now offset r))"

section \<open>Context lookups\<close>

definition context_windows :: "(f64 \<times> int) list" where
  "context_windows = [(Fin 30, 30), (Fin 120, 120), (Fin 300, 300), (Fin 900, 900)]"

definition context_window :: "object \<Rightarrow> int option" where
  "context_window p = map_option snd (find (\<lambda>w. f64_eq (number_of p ''window_seconds'') (fst w)) context_windows)"

definition selected_event :: "into_event \<Rightarrow> string \<Rightarrow> object \<Rightarrow> event" where
  "selected_event into i v = foldl (\<lambda>sel raw. case raw of VObj e \<Rightarrow> if str_of e ''id'' = i then fst (into e sel) else sel | _ \<Rightarrow> sel)
     empty_event (items v ''events'' @ items v ''tail_events'')"

text \<open>The lookup that may begin; its end gives the slot back.\<close>

definition open_context :: "into_event \<Rightarrow> bool \<Rightarrow> (object \<times> string) result \<Rightarrow> object \<Rightarrow> server \<Rightarrow> server \<times> (event \<times> int) result" where
  "open_context into can_context source p s =
     (if \<not> can_context then (s, Inl (Err ''context unavailable''))
      else case context_window p of
        None \<Rightarrow> (s, Inl (Err ''choose a context window of 30, 120, 300 or 900 seconds''))
      | Some n \<Rightarrow>
          (case source of
             Inl e \<Rightarrow> (s, Inl e)
           | Inr (v, key) \<Rightarrow>
               (let e = selected_event into (str_of p ''event_id'') v in
                if ev_ID e = [] then (s, Inl (Err ''selected event is unavailable''))
                else if 2 \<le> sv_slots s then (s, Inl (Err ''context lookups busy''))
                else (s\<lparr>sv_slots := sv_slots s + 1\<rparr>, Inr (e, n)))))"

definition close_context :: "server \<Rightarrow> server" where
  "close_context s = s\<lparr>sv_slots := sv_slots s - 1\<rparr>"

section \<open>The handler\<close>

text \<open>What the server was started with; \<open>into\<close> is the decoder of events.\<close>

record site =
  st_host :: string
  st_token :: string
  st_offline :: bool
  st_can_scan :: bool
  st_can_context :: bool
  st_rulesPath :: string
  st_into :: into_event

text \<open>
  What a request finds outside: the directory, the rules file and the outcome of replacing it, the clock, the identity a
  scan would get, and whether there is a credential.
\<close>

record world =
  w_dir :: "dir_entry list option"
  w_rules :: rules_file
  w_write :: "object \<Rightarrow> status"
  w_now :: gotime
  w_scan_id :: string
  w_available :: bool
  w_credential :: status

text \<open>What a request does to the world.\<close>

datatype effect =
    NoEffect
  | WriteRules object
  | RunScan string object "(string \<times> string) list"
  | RunSearch run
  | LookUp event int

text \<open>
  The reply is a status with a document or with the message of an error, a page of results, a file, or, for a lookup that
  has begun, not there yet.
\<close>

datatype reply = Document nat object | Failure nat goerror | Page snapshot | Served string | Pending

definition reply_of :: "nat \<Rightarrow> object result \<Rightarrow> reply" where
  "reply_of code r = (case r of Inr v \<Rightarrow> Document code v | Inl e \<Rightarrow> Failure 400 e)"

definition baselineRules :: govalue where
  "baselineRules = VArr [
     VObj [(''id'', VStr ''errors''), (''name'', VStr ''Errors and failures''),
       (''description'', VStr ''Errors, fatal failures, panics, exceptions and HTTP 5xx responses require review.'')],
     VObj [(''id'', VStr ''warnings''), (''name'', VStr ''Warnings''),
       (''description'', VStr ''Warnings remain visible for operational review.'')]]"

definition request_source :: "std \<Rightarrow> world \<Rightarrow> object \<Rightarrow> server \<Rightarrow> (object \<times> string) result option" where
  "request_source S w p s = projected_source S (w_dir w) (w_rules w) p s"

definition show_source :: "std \<Rightarrow> world \<Rightarrow> object \<Rightarrow> server \<Rightarrow> (server \<times> effect \<times> reply) option" where
  "show_source S w p s = map_option (\<lambda>r. (s, NoEffect, reply_of 200 (case r of Inl e \<Rightarrow> Inl e | Inr (v, key) \<Rightarrow> Inr v))) (request_source S w p s)"

definition analyze :: "site \<Rightarrow> world \<Rightarrow> object \<Rightarrow> server \<Rightarrow> server \<times> effect \<times> reply" where
  "analyze st w p s =
     (case check_scan (st_can_scan st) (st_offline st) (st_rulesPath st) p of
        Inl e \<Rightarrow> (s, NoEffect, reply_of 202 (Inl e))
      | Inr (p', uploads) \<Rightarrow>
          (case start_scan (w_scan_id w) p' s of
             (s', Inl e) \<Rightarrow> (s', NoEffect, reply_of 202 (Inl e))
           | (s', Inr v) \<Rightarrow> (s', RunScan (w_scan_id w) p' uploads, reply_of 202 (Inr v))))"

definition review_request :: "std \<Rightarrow> world \<Rightarrow> object \<Rightarrow> server \<Rightarrow> effect \<times> reply" where
  "review_request S w p s =
     (case load_review_rules S (w_rules w) of
        Inl e \<Rightarrow> (NoEffect, reply_of 200 (Inl e))
      | Inr rules \<Rightarrow>
          (case review_rules S (live_or_report S (w_dir w) p s) p rules of
             Inl e \<Rightarrow> (NoEffect, reply_of 200 (Inl e))
           | Inr rules' \<Rightarrow> (WriteRules rules', reply_of 200 (case w_write w rules' of
               Some e \<Rightarrow> Inl e | None \<Rightarrow> Inr [(''status'', VStr ''saved'')]))))"

definition context_request :: "std \<Rightarrow> site \<Rightarrow> (object \<times> string) result \<Rightarrow> object \<Rightarrow> server \<Rightarrow> server \<times> effect \<times> reply" where
  "context_request S st source p s =
     (case open_context (st_into st) (st_can_context st) source p s of
        (s', Inl e) \<Rightarrow> (s', NoEffect, reply_of 200 (Inl e))
      | (s', Inr (e, n)) \<Rightarrow> (s', LookUp e n, Pending))"

definition search_request :: "std \<Rightarrow> site \<Rightarrow> world \<Rightarrow> (object \<times> string) result \<Rightarrow> object \<Rightarrow> server \<Rightarrow> server \<times> effect \<times> reply" where
  "search_request S st w source p s =
     (case start_search S (st_into st) (st_offline st) (w_credential w) (w_now w) source p s of
        (s', Inl e) \<Rightarrow> (s', NoEffect, reply_of 202 (Inl e))
      | (s', Inr v) \<Rightarrow> (s', (case sv_search s' of None \<Rightarrow> NoEffect | Some r \<Rightarrow> RunSearch r), reply_of 202 (Inr v)))"

definition show_rules :: "std \<Rightarrow> world \<Rightarrow> reply" where
  "show_rules S w = reply_of 200 (case load_review_rules S (w_rules w) of
     Inl e \<Rightarrow> Inl e | Inr rules \<Rightarrow> Inr [(''expected'', field_value rules ''rules''), (''baseline'', baselineRules)])"

text \<open>\<open>None\<close> is a request whose handler panics; the server answers it with a closed connection.\<close>

definition handle :: "std \<Rightarrow> site \<Rightarrow> world \<Rightarrow> http_request \<Rightarrow> server \<Rightarrow> (server \<times> effect \<times> reply) option" where
  "handle S st w r s = (case route_request S (st_host st) (st_token st) r of
     Refused code m \<Rightarrow> Some (s, NoEffect, Failure code (Err m))
   | StaticFile path \<Rightarrow> Some (s, NoEffect, Served path)
   | ShowState \<Rightarrow> map_option (\<lambda>v. (s, NoEffect, reply_of 200 v)) (server_state S (st_token st) (w_available w) (w_dir w) (w_rules w) s)
   | ShowReport i \<Rightarrow> show_source S w [(''report_id'', VStr i)] s
   | ShowLive \<Rightarrow> show_source S w [(''live_id'', VStr (case sv_job s of None \<Rightarrow> [] | Some j \<Rightarrow> str_of j ''id''))] s
   | ShowRules \<Rightarrow> Some (s, NoEffect, show_rules S w)
   | ShowSearch i n \<Rightarrow> Some (s, NoEffect, (case search_page (w_now w) i n s of Inl e \<Rightarrow> Failure 400 e | Inr pg \<Rightarrow> Page pg))
   | Analyze p \<Rightarrow> Some (analyze st w p s)
   | StopScan \<Rightarrow> (case stop_scan s of (s', v) \<Rightarrow> Some (s', NoEffect, reply_of 200 v))
   | ReviewEvents p \<Rightarrow> Some (s, review_request S w p s)
   | FetchContext p \<Rightarrow>
       (if st_can_context st \<and> context_window p \<noteq> None
        then map_option (\<lambda>src. context_request S st src p s) (request_source S w p s)
        else Some (context_request S st (Inl Canceled) p s))
   | StartSearch p \<Rightarrow> map_option (\<lambda>src. search_request S st w src p s) (request_source S w p s)
   | StopSearch i \<Rightarrow> (case stop_search i s of (s', v) \<Rightarrow> Some (s', NoEffect, reply_of 200 v)))"

text \<open>\<open>jsonResponse\<close>: \<open>None\<close> is a value that cannot be encoded.\<close>

definition jsonResponse :: "nat \<Rightarrow> string option \<Rightarrow> nat \<times> string" where
  "jsonResponse code raw = (case raw of
     Some body \<Rightarrow> if 134217728 < length body then (413, marshal (JObj [(''error'', JStr ''response exceeds limit'')])) else (code, body)
   | None \<Rightarrow> (413, marshal (JObj [(''error'', JStr ''response exceeds limit'')])))"

section \<open>Everything that can happen\<close>

text \<open>
  Requests come in any order while scans, searches and lookups run: a scan publishes views and ends, a search changes its
  run and ends as \<open>Execute\<close> leaves it (\<open>execute_ends\<close>), a lookup gives its slot back.
\<close>

inductive server_step :: "std \<Rightarrow> site \<Rightarrow> server \<Rightarrow> server \<Rightarrow> bool" for S st where
  request: "handle S st w r s = Some (s', eff, rep) \<Longrightarrow> server_step S st s s'"
| progress: "(i, c) \<in> set (sv_scans s) \<Longrightarrow> server_step S st s (s\<lparr>sv_live := Some v\<rparr>)"
| scan_ends: "(i, c) \<in> set (sv_scans s) \<Longrightarrow> server_step S st s (end_scan i e s)"
| searches: "sv_search s = Some q \<Longrightarrow> rn_ID q \<in> set (sv_searches s) \<Longrightarrow> rn_ID r = rn_ID q \<Longrightarrow> rn_status r = rn_status q \<Longrightarrow>
    server_step S st s (search_progress r s)"
| search_ends: "sv_search s = Some q \<Longrightarrow> rn_ID q \<in> set (sv_searches s) \<Longrightarrow> rn_ID r = rn_ID q \<Longrightarrow> rn_status r \<noteq> ''running'' \<Longrightarrow>
    server_step S st s (end_search r s)"
| context_ends: "0 < sv_slots s \<Longrightarrow> server_step S st s (close_context s)"

inductive_cases server_stepE: "server_step S st s s'"

definition server_run :: "std \<Rightarrow> site \<Rightarrow> server \<Rightarrow> server \<Rightarrow> bool" where
  "server_run S st = (server_step S st)\<^sup>*\<^sup>*"

end
