(* ===== verification/Steps.thy ===== *)
theory Steps
  imports Prelude
begin

text \<open>
  Invariants of step relations: what every step keeps holds after every run.  Each component with a step relation
  interprets \<open>kept_by_steps\<close> on its own relation and invariant.
\<close>

locale kept_by_steps =
  fixes step :: "'s \<Rightarrow> 's \<Rightarrow> bool" and keeps :: "'s \<Rightarrow> bool"
  assumes step_keeps: "step s s' \<Longrightarrow> keeps s \<Longrightarrow> keeps s'"
begin

lemma run_keeps: "step\<^sup>*\<^sup>* s s' \<Longrightarrow> keeps s \<Longrightarrow> keeps s'"
  by (induction rule: rtranclp_induct) (auto intro: step_keeps)

end

text \<open>A step relation given by a function on an alphabet of operations.\<close>

locale kept_by_operations =
  fixes apply_op :: "'o \<Rightarrow> 's \<Rightarrow> 's" and keeps :: "'s \<Rightarrow> bool"
  assumes op_keeps: "keeps s \<Longrightarrow> keeps (apply_op a s)"
begin

lemma ops_keep: "keeps s \<Longrightarrow> keeps (foldl (\<lambda>s a. apply_op a s) s as)"
  by (induction as arbitrary: s) (auto intro: op_keeps)

lemma ops_keep_along: "keeps s \<Longrightarrow> keeps (foldl (\<lambda>s a. apply_op a s) s (take n as))"
  by (rule ops_keep)

end

sublocale kept_by_operations \<subseteq> kept_by_steps "\<lambda>s s'. \<exists>a. s' = apply_op a s" keeps
  by unfold_locales (auto intro: op_keeps)

end
