(* ===== verification/Dashboard.thy ===== *)
theory Dashboard
  imports Server Steps
begin

text \<open>
  \<open>internal/dashboard\<close>: the index of a retained report with its pages (\<open>report.go\<close>), and the polling of the controller
  with its caches and limits (\<open>dashboard.go\<close>).
\<close>

section \<open>Raw messages\<close>

text \<open>
  \<open>json.RawMessage\<close> is the text of a value as it stands in the document; \<open>json.Marshal\<close> of it drops the white space
  outside strings and escapes the HTML characters, U+2028 and U+2029.  The flags say whether the text is inside a string
  and behind a backslash.
\<close>

fun compact :: "bool \<Rightarrow> bool \<Rightarrow> string \<Rightarrow> string" where
  "compact q e [] = []"
| "compact q e (c # s) =
     (if c \<in> {CHR ''<'', CHR ''>'', CHR ''&''} then CHR 0x5C # ''u00'' @ [hexdigit (byte c div 16), hexdigit (byte c mod 16)] @ compact q False s
      else if c = CHR 0xE2 \<and> (take 2 s = [CHR 0x80, CHR 0xA8] \<or> take 2 s = [CHR 0x80, CHR 0xA9])
      then CHR 0x5C # ''u202'' @ [hexdigit (byte (s ! 1) mod 16)] @ compact q False (drop 2 s)
      else if \<not> q \<and> json_space c then compact q e s
      else c # compact (if c = CHR 0x22 \<and> \<not> e then \<not> q else q) (q \<and> c = CHR 0x5C \<and> \<not> e) s)"

definition raw_value :: "string \<Rightarrow> (json \<times> string \<times> string) option" where
  "raw_value s = (case scan (2 * length s + 2) PVal 10000 s of
     None \<Rightarrow> None
   | Some (v, r) \<Rightarrow> (let t = skip_ws s in Some (v, take (length t - length r) t, r)))"

text \<open>The members of an object and the elements of an array after the opening bracket, of a document that has been accepted.\<close>

primrec raw_members :: "nat \<Rightarrow> string \<Rightarrow> (string \<times> json \<times> string) list" where
  "raw_members 0 s = []"
| "raw_members (Suc n) s = (case skip_ws s of
     q # r \<Rightarrow> (case scan_str r of
       Some (k, r1) \<Rightarrow> (case raw_value (drop 1 (skip_ws r1)) of
         Some (v, t, r2) \<Rightarrow> (sanitize k, v, t) # (case skip_ws r2 of c # r3 \<Rightarrow> if c = CHR '','' then raw_members n r3 else [] | [] \<Rightarrow> [])
       | None \<Rightarrow> [])
     | None \<Rightarrow> [])
   | [] \<Rightarrow> [])"

primrec raw_elements :: "nat \<Rightarrow> string \<Rightarrow> (json \<times> string) list" where
  "raw_elements 0 s = []"
| "raw_elements (Suc n) s = (case raw_value s of
     Some (v, t, r) \<Rightarrow> (v, t) # (case skip_ws r of c # r1 \<Rightarrow> if c = CHR '','' then raw_elements n r1 else [] | [] \<Rightarrow> [])
   | None \<Rightarrow> [])"

text \<open>A document that \<open>Strict\<close> accepts as a map of raw messages; \<open>null\<close> is the nil map.\<close>

definition raw_map :: "string \<Rightarrow> (string, json \<times> string) gomap option" where
  "raw_map raw = (case Strict (\<lambda>v. case v of JObj kvs \<Rightarrow> Some kvs | JNull \<Rightarrow> Some [] | _ \<Rightarrow> None) raw of
     Inl e \<Rightarrow> None
   | Inr kvs \<Rightarrow> Some (if kvs = [] then [] else raw_members (length raw) (drop 1 (skip_ws raw))))"

section \<open>Loading a report\<close>

record report_view =
  rp_schema :: int
  rp_summary :: string
  rp_events :: "string list"
  rp_texts :: "string list"
  rp_complete :: bool

text \<open>\<open>Text *string\<close>: the outer option is the failed decoding.\<close>

definition text_member :: "string option \<Rightarrow> string \<Rightarrow> json \<Rightarrow> string option option" where
  "text_member old k v = (if is_field ''text'' k then (case v of JStr s \<Rightarrow> Some (Some s) | JNull \<Rightarrow> Some None | _ \<Rightarrow> None) else Some old)"

definition event_text :: "json \<Rightarrow> string option" where
  "event_text v = (case dec_struct text_member None v of Some (Some s) \<Rightarrow> Some s | _ \<Rightarrow> None)"

definition summary_map :: "std \<Rightarrow> json \<times> string \<Rightarrow> object option" where
  "summary_map S m = (case m of (v, raw) \<Rightarrow> (case v of
     JObj _ \<Rightarrow> (if 32768 < length raw then None else map_option as_obj (of_json S v))
   | _ \<Rightarrow> None))"

definition LoadReport :: "std \<Rightarrow> string \<Rightarrow> report_view result" where
  "LoadReport S raw =
     (case (if 67108864 < length raw then None else raw_map raw) of
        None \<Rightarrow> Inl (Err ''invalid report'')
      | Some value \<Rightarrow>
          (case (case mget value ''schema_version'' of None \<Rightarrow> None | Some (v, _) \<Rightarrow> dec_int 0 v) of
             None \<Rightarrow> Inl (Err ''dashboard requires schema-1 or schema-2 report'')
           | Some schema \<Rightarrow>
               (if schema \<noteq> 1 \<and> schema \<noteq> 2 then Inl (Err ''dashboard requires schema-1 or schema-2 report'')
                else case (case mget value ''summary'' of None \<Rightarrow> None | Some m \<Rightarrow> summary_map S m) of
                  None \<Rightarrow> Inl (Err ''invalid or oversized report summary'')
                | Some m \<Rightarrow>
                    (let summary = marshal (to_json S (VObj m)) in
                     if 32768 < length summary then Inl (Err ''escaped report summary exceeds limit'')
                     else case mget value ''events'' of
                       Some (JArr vs, raw) \<Rightarrow>
                         (let es = (if vs = [] then [] else raw_elements (length raw) (drop 1 raw)) in
                          if 100000 < length es then Inl (Err ''invalid report events'')
                          else case those (map event_text (map fst es)) of
                            None \<Rightarrow> Inl (Err ''invalid report event'')
                          | Some texts \<Rightarrow> Inr \<lparr>rp_schema = schema, rp_summary = summary, rp_events = map snd es,
                                rp_texts = map (ToLower S) texts,
                                rp_complete = (schema = 2 \<and> mget m ''complete_within_window'' = Some (VBool True))\<rparr>)
                     | _ \<Rightarrow> Inl (Err ''invalid report events'')))))"

section \<open>Pages\<close>

definition MaxResponse :: nat where
  "MaxResponse = 262144"

definition page_room :: nat where
  "page_room = MaxResponse - 40960"

definition unavailable_event :: "nat \<Rightarrow> string" where
  "unavailable_event i = marshal (JObj [(''text'', JStr ''Event exceeds dashboard page limit; inspect the original report''),
     (''importance'', JStr ''unknown''), (''event_unavailable'', JBool True), (''report_index'', JNat i)])"

definition shown_event :: "string list \<Rightarrow> nat \<Rightarrow> string \<times> bool" where
  "shown_event es i = (let raw = compact False False (es ! i) in
     if page_room < length raw then (unavailable_event i, True) else (raw, False))"

text \<open>The loop: the matches from the offset on, how many more the page may hold, and the bytes used.\<close>

fun fill_page :: "string list \<Rightarrow> nat list \<Rightarrow> nat \<Rightarrow> nat \<Rightarrow> (string \<times> bool) list" where
  "fill_page es [] limit used = []"
| "fill_page es (m # ms) 0 used = []"
| "fill_page es (m # ms) (Suc limit) used =
     (let x = shown_event es m in
      if page_room < used + length (fst x) + 1 then [] else x # fill_page es ms limit (used + length (fst x) + 1))"

record report_page =
  pg_schema :: int
  pg_summary :: string
  pg_events :: "string list"
  pg_offset :: nat
  pg_next :: "nat option"
  pg_matched :: nat
  pg_retained :: nat
  pg_unavailable :: nat
  pg_all :: bool
  pg_complete :: bool

definition matching :: "report_view option \<Rightarrow> string \<Rightarrow> nat list" where
  "matching view query = (case view of None \<Rightarrow> []
     | Some v \<Rightarrow> filter (\<lambda>i. Contains (rp_texts v ! i) query) [0..<length (rp_texts v)])"

definition page_at :: "report_view option \<Rightarrow> string \<Rightarrow> nat \<Rightarrow> nat \<Rightarrow> report_page" where
  "page_at view query limit offset =
     (let matches = matching view query;
          es = (case view of None \<Rightarrow> [] | Some v \<Rightarrow> rp_events v);
          shown = fill_page es (drop offset matches) limit 0;
          next_offset = offset + length shown; unavailable = length (filter snd shown) in
      \<lparr>pg_schema = (case view of None \<Rightarrow> 2 | Some v \<Rightarrow> rp_schema v),
       pg_summary = (case view of None \<Rightarrow> marshal (JObj [(''events'', JNat 0)]) | Some v \<Rightarrow> rp_summary v),
       pg_events = map fst shown, pg_offset = offset, pg_next = (if next_offset < length matches then Some next_offset else None),
       pg_matched = length matches, pg_retained = length es, pg_unavailable = unavailable,
       pg_all = (offset = 0 \<and> next_offset = length matches \<and> unavailable = 0),
       pg_complete = (case view of None \<Rightarrow> False | Some v \<Rightarrow> rp_complete v)\<rparr>)"

text \<open>The parsed query: \<open>None\<close> is a query that \<open>url.ParseQuery\<close> refuses.\<close>

definition bounded_field :: "(string, string list) gomap \<Rightarrow> string \<Rightarrow> int \<Rightarrow> int \<Rightarrow> nat \<Rightarrow> nat option" where
  "bounded_field q k lo hi d = (case mget q k of
     None \<Rightarrow> Some d
   | Some vs \<Rightarrow> (case parse_int64 (case vs of [] \<Rightarrow> [] | v # _ \<Rightarrow> v) of
       None \<Rightarrow> None | Some n \<Rightarrow> if n < lo \<or> hi < n then None else Some (nat n)))"

definition query_ok :: "string \<times> string list \<Rightarrow> bool" where
  "query_ok kv = (fst kv \<in> set [''offset'', ''limit'', ''q''] \<and> length (snd kv) = 1)"

definition report_page :: "std \<Rightarrow> report_view option \<Rightarrow> nat \<Rightarrow> (string, string list) gomap option \<Rightarrow> report_page result" where
  "report_page S view rawLength query =
     (case query of
        None \<Rightarrow> Inl (Err ''invalid report query'')
      | Some q \<Rightarrow>
          (if 2048 < rawLength \<or> \<not> list_all query_ok q then Inl (Err ''invalid report query'')
           else case bounded_field q ''offset'' 0 100000 0 of
             None \<Rightarrow> Inl (Err ''invalid offset'')
           | Some offset \<Rightarrow>
               (case bounded_field q ''limit'' 1 200 50 of
                  None \<Rightarrow> Inl (Err ''invalid limit'')
                | Some limit \<Rightarrow>
                    (let text = ToLower S (case mget q ''q'' of Some (v # _) \<Rightarrow> v | _ \<Rightarrow> []) in
                     if 1024 < length text then Inl (Err ''query too long'')
                     else if length (matching view text) < offset then Inl (Err ''offset beyond matched events'')
                     else Inr (page_at view text limit offset)))))"

text \<open>The document of a page, with its keys in the order of \<open>json.Marshal\<close>.\<close>

definition page_body :: "report_page \<Rightarrow> string" where
  "page_body p = [CHR 0x7B] @ quote ''events'' @ '':['' @ Join (pg_events p) '','' @ ''],'' @ quote ''page'' @ '':'' @
     marshal (JObj [(''all_matches_in_page'', JBool (pg_all p)), (''coverage_complete'', JBool (pg_complete p)),
       (''matched_events'', JNat (pg_matched p)), (''next_offset'', case pg_next p of None \<Rightarrow> JNull | Some n \<Rightarrow> JNat n),
       (''offset'', JNat (pg_offset p)), (''retained_events'', JNat (pg_retained p)), (''returned_events'', JNat (length (pg_events p))),
       (''scope'', JStr ''retained report events; full metadata remains in the original report''),
       (''unavailable_events'', JNat (pg_unavailable p))]) @
     '','' @ quote ''schema_version'' @ '':'' @ show_int (pg_schema p) @ '','' @ quote ''summary'' @ '':'' @ pg_summary p @ [CHR 0x7D]"

text \<open>\<open>inspect.JSON\<close>: \<open>None\<close> is a value that cannot be encoded.\<close>

definition inspect_JSON :: "nat \<Rightarrow> string option \<Rightarrow> nat \<times> string" where
  "inspect_JSON code raw = (case raw of
     Some body \<Rightarrow> if MaxResponse < length body then (503, marshal (JObj [(''error'', JStr ''response unavailable'')])) else (code, body)
   | None \<Rightarrow> (503, marshal (JObj [(''error'', JStr ''response unavailable'')])))"

section \<open>Polling the controller\<close>

text \<open>A cache entry is its identity, its time and its value; \<open>None\<close> is the zero \<open>cache\<close>, which is never served.\<close>

record 'v poller =
  db_busy :: bool
  db_status :: "(string \<times> gotime \<times> 'v) option"
  db_detail :: "(string \<times> gotime \<times> 'v) option"
  db_attemptStatus :: gotime
  db_attemptDetail :: gotime

definition new_poller :: "'v poller" where
  "new_poller = \<lparr>db_busy = False, db_status = None, db_detail = None, db_attemptStatus = zero_time, db_attemptDetail = zero_time\<rparr>"

datatype 'v sampled = Cached 'v | TooMany | Asked

definition poll_interval :: "int \<Rightarrow> int" where
  "poll_interval interval = max interval (2 * second)"

definition cached_answer :: "int \<Rightarrow> gotime \<Rightarrow> string \<Rightarrow> 'v poller \<Rightarrow> 'v option" where
  "cached_answer interval now i d = (case (if i \<noteq> [] then db_detail d else db_status d) of
     None \<Rightarrow> None
   | Some (k, t, v) \<Rightarrow> if k = i \<and> \<not> IsZero t \<and> Sub now t < poll_interval interval then Some v else None)"

definition last_attempt :: "string \<Rightarrow> 'v poller \<Rightarrow> gotime" where
  "last_attempt i d = (if i \<noteq> [] then db_attemptDetail d else db_attemptStatus d)"

definition begin_sample :: "int \<Rightarrow> gotime \<Rightarrow> string \<Rightarrow> 'v poller \<Rightarrow> 'v poller \<times> 'v sampled" where
  "begin_sample interval now i d =
     (case cached_answer interval now i d of
        Some v \<Rightarrow> (d, Cached v)
      | None \<Rightarrow>
          (if db_busy d \<or> Sub now (last_attempt i d) < 2 * second then (d, TooMany)
           else (if i = [] then d\<lparr>db_busy := True, db_attemptStatus := now\<rparr> else d\<lparr>db_busy := True, db_attemptDetail := now\<rparr>, Asked)))"

text \<open>\<open>after\<close> is the clock when the sample has come back; \<open>None\<close> is a sample that failed.\<close>

definition end_sample :: "gotime \<Rightarrow> string \<Rightarrow> 'v option \<Rightarrow> 'v poller \<Rightarrow> 'v poller \<times> nat" where
  "end_sample after i r d = (case r of
     None \<Rightarrow> (d\<lparr>db_busy := False, db_detail := None, db_status := None\<rparr>, 503)
   | Some v \<Rightarrow> (if i = [] then d\<lparr>db_busy := False, db_status := Some (i, after, v)\<rparr> else d\<lparr>db_busy := False, db_detail := Some (i, after, v)\<rparr>, 200))"

section \<open>Requests of the compact dashboard\<close>

text \<open>A request with a body and a query that is empty but marked are those fields of the handler's request.\<close>

datatype compact_route =
    CompactRefused nat string
  | CompactNotFound
  | CompactReport
  | CompactConfig
  | CompactFile string
  | CompactSample string

definition compact_route :: "string \<Rightarrow> bool \<Rightarrow> bool \<Rightarrow> bool \<Rightarrow> http_request \<Rightarrow> compact_route" where
  "compact_route host remote has_body force_query r =
     (let path = rq_Path r; prefix = ''/api/controller/incidents/'' in
      if \<not> same_origin host r then CompactRefused 403 ''local origin required''
      else if rq_Method r \<noteq> ''GET'' \<or> has_body then CompactRefused 405 ''read-only dashboard''
      else if ((rq_RawQuery r \<noteq> [] \<or> force_query) \<and> path \<noteq> ''/api/report'') \<or> rq_RawPath r \<noteq> [] then CompactNotFound
      else if path = ''/api/report'' then CompactReport
      else if path = ''/api/controller/config'' then CompactConfig
      else if path \<in> set [''/'', ''/index.html'', ''/app.js'', ''/style.css''] then CompactFile path
      else if path \<noteq> ''/api/controller/status'' \<and> \<not> HasPrefix path prefix
      then CompactRefused 501 ''dashboard operation unsupported in Go runtime''
      else let i = (if path = ''/api/controller/status'' then [] else drop (length prefix) path) in
        if path \<noteq> ''/api/controller/status'' \<and> \<not> ValidID i then CompactNotFound
        else if \<not> remote then CompactRefused 503 ''controller inspection not configured''
        else CompactSample i)"

end
