(* ===== verification/ServerSafety.thy ===== *)
theory ServerSafety
  imports Server Steps
begin

text \<open>
  What the server of the dashboard promises: one scan and one search at a time and two lookups, whatever the requests and
  in whatever order scans, searches and lookups end; no effect of a request that is not authorised; scan requests that
  keep within their bounds; and every report it lists can be opened.
\<close>

section \<open>One scan, one search, two lookups\<close>

definition scan_inv :: "server \<Rightarrow> bool" where
  "scan_inv s = (case sv_scans s of
     [] \<Rightarrow> \<not> busy s \<and> \<not> sv_stop s
   | x # others \<Rightarrow> others = [] \<and> sv_stop s \<and> (case sv_job s of None \<Rightarrow> False | Some j \<Rightarrow>
       str_of j ''id'' = fst x \<and> str_of j ''status'' = (if snd x then ''stopping'' else ''running'')))"

definition search_inv :: "server \<Rightarrow> bool" where
  "search_inv s = (case sv_search s of
     None \<Rightarrow> sv_searches s = []
   | Some r \<Rightarrow> sv_searches s = (if rn_status r = ''running'' then [rn_ID r] else []))"

definition server_inv :: "server \<Rightarrow> bool" where
  "server_inv s = (scan_inv s \<and> search_inv s \<and> sv_slots s \<le> 2)"

lemma new_server_inv: "server_inv new_server"
  by (simp add: server_inv_def scan_inv_def search_inv_def new_server_def busy_def job_status_def)

lemma scan_inv_cases:
  assumes "scan_inv s"
  obtains (idle) "sv_scans s = []" "\<not> busy s" "\<not> sv_stop s"
  | (active) i c j where "sv_scans s = [(i, c)]" "sv_stop s" "sv_job s = Some j" "str_of j ''id'' = i"
      "str_of j ''status'' = (if c then ''stopping'' else ''running'')"
  using assms unfolding scan_inv_def by (cases "sv_scans s"; cases "sv_job s") auto

lemma str_of_mput [simp]: "str_of (mput k v m) k' = (if k = k' then (case v of VStr t \<Rightarrow> t | _ \<Rightarrow> []) else str_of m k')"
  by (auto simp: str_of_def split: govalue.splits)

lemma start_scan_inv: "scan_inv s \<Longrightarrow> scan_inv (fst (start_scan i p s))"
  by (erule scan_inv_cases) (auto simp: start_scan_def scan_inv_def starting_job_def str_of_def busy_def job_status_def)

lemma stop_scan_inv: "scan_inv s \<Longrightarrow> scan_inv (fst (stop_scan s))"
  by (erule scan_inv_cases) (auto simp: stop_scan_def scan_inv_def job_status_def)

lemma ended_job_status: "str_of (ended_job i r j) ''status'' \<in> {''complete'', ''error''}"
  by (simp add: ended_job_def Let_def)

lemma end_scan_inv:
  assumes "scan_inv s" "(i, c) \<in> set (sv_scans s)"
  shows "scan_inv (end_scan i r s)"
  using assms(1)
proof (cases rule: scan_inv_cases)
  case idle
  with assms(2) show ?thesis by simp
next
  case (active k d j)
  with assms(2) ended_job_status [of i r j] show ?thesis
    by (auto simp: end_scan_def scan_inv_def busy_def job_status_def)
qed

lemma scan_inv_irrelevant:
  "sv_scans s' = sv_scans s \<Longrightarrow> sv_job s' = sv_job s \<Longrightarrow> sv_stop s' = sv_stop s \<Longrightarrow> scan_inv s' = scan_inv s"
  unfolding scan_inv_def busy_def job_status_def by (simp only:)

lemma search_inv_irrelevant: "sv_search s' = sv_search s \<Longrightarrow> sv_searches s' = sv_searches s \<Longrightarrow> search_inv s' = search_inv s"
  unfolding search_inv_def by (simp only:)

lemma Search_New_status: "Search_New S now es q m b c = Inr r \<Longrightarrow> rn_status r = ''running''"
  by (auto simp: Search_New_def Let_def split: if_splits)

lemma prepare_search_status: "prepare_search S into offline cred now c p v = Inr (r, chosen) \<Longrightarrow> rn_status r = ''running''"
  by (auto simp: prepare_search_def Let_def split: if_splits option.splits sum.splits dest: Search_New_status)

lemma start_search_inv:
  assumes "search_inv s"
  shows "search_inv (fst (start_search S into offline cred now source p s))"
  using assms prepare_search_status
  by (auto simp: start_search_def search_inv_def searching_def split: sum.splits option.splits)

lemma start_search_scans:
  "sv_scans (fst (start_search S into offline cred now source p s)) = sv_scans s \<and>
   sv_job (fst (start_search S into offline cred now source p s)) = sv_job s \<and>
   sv_stop (fst (start_search S into offline cred now source p s)) = sv_stop s \<and>
   sv_slots (fst (start_search S into offline cred now source p s)) = sv_slots s"
  by (simp add: start_search_def split: sum.split prod.split)

lemma open_context_fields:
  "sv_scans (fst (open_context into can source p s)) = sv_scans s \<and> sv_job (fst (open_context into can source p s)) = sv_job s \<and>
   sv_stop (fst (open_context into can source p s)) = sv_stop s \<and> sv_search (fst (open_context into can source p s)) = sv_search s \<and>
   sv_searches (fst (open_context into can source p s)) = sv_searches s"
  by (simp add: open_context_def Let_def split: sum.split prod.split option.split)

lemma open_context_slots: "sv_slots s \<le> 2 \<Longrightarrow> sv_slots (fst (open_context into can source p s)) \<le> 2"
  by (simp add: open_context_def Let_def split: sum.split prod.split option.split)

lemma start_scan_fields:
  "sv_search (fst (start_scan i p s)) = sv_search s \<and> sv_searches (fst (start_scan i p s)) = sv_searches s \<and>
   sv_slots (fst (start_scan i p s)) = sv_slots s"
  by (simp add: start_scan_def)

lemma stop_scan_fields:
  "sv_search (fst (stop_scan s)) = sv_search s \<and> sv_searches (fst (stop_scan s)) = sv_searches s \<and> sv_slots (fst (stop_scan s)) = sv_slots s"
  by (simp add: stop_scan_def)

lemma stop_search_fields:
  "sv_scans (fst (stop_search i s)) = sv_scans s \<and> sv_job (fst (stop_search i s)) = sv_job s \<and> sv_stop (fst (stop_search i s)) = sv_stop s \<and>
   sv_search (fst (stop_search i s)) = sv_search s \<and> sv_searches (fst (stop_search i s)) = sv_searches s \<and> sv_slots (fst (stop_search i s)) = sv_slots s"
  by (simp add: stop_search_def split: option.split)

lemma start_scan_server_inv: "server_inv s \<Longrightarrow> server_inv (fst (start_scan i p s))"
  using start_scan_inv [of s] start_scan_fields [of i p s] search_inv_irrelevant [of "fst (start_scan i p s)" s] by (simp add: server_inv_def)

lemma stop_scan_server_inv: "server_inv s \<Longrightarrow> server_inv (fst (stop_scan s))"
  using stop_scan_inv [of s] stop_scan_fields [of s] search_inv_irrelevant [of "fst (stop_scan s)" s] by (simp add: server_inv_def)

lemma stop_search_server_inv: "server_inv s \<Longrightarrow> server_inv (fst (stop_search i s))"
  using stop_search_fields [of i s] scan_inv_irrelevant [of "fst (stop_search i s)" s] search_inv_irrelevant [of "fst (stop_search i s)" s]
  by (simp add: server_inv_def)

lemma start_search_server_inv: "server_inv s \<Longrightarrow> server_inv (fst (start_search S into offline cred now source p s))"
  using start_search_inv [of s S into offline cred now source p] start_search_scans [of S into offline cred now source p s]
    scan_inv_irrelevant [of "fst (start_search S into offline cred now source p s)" s]
  by (simp add: server_inv_def)

lemma open_context_server_inv: "server_inv s \<Longrightarrow> server_inv (fst (open_context into can source p s))"
  using open_context_fields [of into can source p s] open_context_slots [of s into can source p]
    scan_inv_irrelevant [of "fst (open_context into can source p s)" s] search_inv_irrelevant [of "fst (open_context into can source p s)" s]
  by (simp add: server_inv_def)

text \<open>Which operation a request performs on the server.\<close>

lemma fst_analyze: "fst (analyze st w p s) = (case check_scan (st_can_scan st) (st_offline st) (st_rulesPath st) p of
    Inl e \<Rightarrow> s | Inr (p', uploads) \<Rightarrow> fst (start_scan (w_scan_id w) p' s))"
  by (simp add: analyze_def split: sum.split prod.split)

lemma fst_search_request: "fst (search_request S st w source p s) =
    fst (start_search S (st_into st) (st_offline st) (w_credential w) (w_now w) source p s)"
  by (simp add: search_request_def split: sum.split prod.split)

lemma fst_context_request: "fst (context_request S st source p s) = fst (open_context (st_into st) (st_can_context st) source p s)"
  by (simp add: context_request_def split: sum.split prod.split)

lemmas request_operations = fst_analyze fst_search_request fst_context_request

lemmas operations_inv = start_scan_server_inv stop_scan_server_inv stop_search_server_inv start_search_server_inv open_context_server_inv

lemma analyze_inv: "server_inv s \<Longrightarrow> server_inv (fst (analyze st w p s))"
  by (simp add: fst_analyze operations_inv split: sum.split prod.split)

lemma search_request_inv: "server_inv s \<Longrightarrow> server_inv (fst (search_request S st w source p s))"
  by (simp add: fst_search_request operations_inv)

lemma context_request_inv: "server_inv s \<Longrightarrow> server_inv (fst (context_request S st source p s))"
  by (simp add: fst_context_request operations_inv)

lemma handle_inv:
  assumes "handle S st w r s = Some (s', eff, rep)" "server_inv s"
  shows "server_inv s'"
proof (cases "route_request S (st_host st) (st_token st) r")
  case (Analyze p)
  with assms analyze_inv [of s st w p] show ?thesis by (simp add: handle_def)
next
  case StopScan
  with assms stop_scan_server_inv [of s] show ?thesis by (simp add: handle_def split: prod.splits)
next
  case (FetchContext p)
  with assms context_request_inv [of s S st _ p] show ?thesis by (auto simp: handle_def split: if_splits dest!: sym [of _ "context_request _ _ _ _ _"]) (metis fst_conv)+
next
  case (StartSearch p)
  with assms search_request_inv [of s S st w _ p] show ?thesis by (auto simp: handle_def) (metis fst_conv)
next
  case (StopSearch i)
  with assms stop_search_server_inv [of s i] show ?thesis by (simp add: handle_def split: prod.splits)
qed (use assms in \<open>auto simp: handle_def show_source_def\<close>)

lemma search_progress_fields:
  "sv_scans (search_progress r s) = sv_scans s \<and> sv_job (search_progress r s) = sv_job s \<and> sv_stop (search_progress r s) = sv_stop s \<and>
   sv_slots (search_progress r s) = sv_slots s"
  by (simp add: search_progress_def)

lemma server_step_inv: "server_step S st s s' \<Longrightarrow> server_inv s \<Longrightarrow> server_inv s'"
proof (erule server_stepE)
  fix w r eff rep
  assume "handle S st w r s = Some (s', eff, rep)" "server_inv s"
  then show "server_inv s'" by (rule handle_inv)
next
  fix i c v
  assume "s' = s\<lparr>sv_live := Some v\<rparr>" "server_inv s"
  then show "server_inv s'" using scan_inv_irrelevant [of s' s] search_inv_irrelevant [of s' s] by (simp add: server_inv_def)
next
  fix i c e
  assume "s' = end_scan i e s" "(i, c) \<in> set (sv_scans s)" "server_inv s"
  then show "server_inv s'" using end_scan_inv [of s i c e] search_inv_irrelevant [of s' s] by (simp add: server_inv_def end_scan_def)
next
  fix q r
  assume "s' = search_progress r s" "sv_search s = Some q" "rn_ID r = rn_ID q" "rn_status r = rn_status q" "server_inv s"
  then show "server_inv s'" using search_progress_fields [of r s] scan_inv_irrelevant [of s' s]
    by (simp add: server_inv_def search_inv_def search_progress_def)
next
  fix q r
  assume "s' = end_search r s" "sv_search s = Some q" "rn_ID q \<in> set (sv_searches s)" "rn_ID r = rn_ID q" "rn_status r \<noteq> ''running''" "server_inv s"
  then show "server_inv s'" using search_progress_fields [of r s] scan_inv_irrelevant [of s' s]
    by (auto simp: server_inv_def search_inv_def search_progress_def end_search_def split: if_splits)
next
  assume "s' = close_context s" "server_inv s"
  then show "server_inv s'" using scan_inv_irrelevant [of s' s] search_inv_irrelevant [of s' s] by (auto simp: server_inv_def close_context_def)
qed

interpretation server_steps: kept_by_steps "server_step S st" server_inv for S st
  by unfold_locales (rule server_step_inv)

lemma server_invD:
  assumes "server_inv s"
  shows "length (sv_scans s) \<le> 1" "sv_scans s \<noteq> [] \<longleftrightarrow> busy s" "length (sv_searches s) \<le> 1" "sv_searches s \<noteq> [] \<longleftrightarrow> searching s" "sv_slots s \<le> 2"
    "list_all (\<lambda>(i, c). map_option (\<lambda>j. str_of j ''id'') (sv_job s) = Some i \<and> c = (job_status s = ''stopping'')) (sv_scans s)"
proof -
  from assms have "scan_inv s" "search_inv s" "sv_slots s \<le> 2" by (simp_all add: server_inv_def)
  then show "sv_slots s \<le> 2" "length (sv_searches s) \<le> 1" "sv_searches s \<noteq> [] \<longleftrightarrow> searching s"
    by (auto simp: search_inv_def searching_def split: option.splits)
  from \<open>scan_inv s\<close> show "length (sv_scans s) \<le> 1" "sv_scans s \<noteq> [] \<longleftrightarrow> busy s"
      "list_all (\<lambda>(i, c). map_option (\<lambda>j. str_of j ''id'') (sv_job s) = Some i \<and> c = (job_status s = ''stopping'')) (sv_scans s)"
    by (cases rule: scan_inv_cases; auto simp: busy_def job_status_def)+
qed

text \<open>\<open>Execute\<close> ends a run as the step \<open>search_ends\<close> asks.\<close>

lemma record_result_id [simp]: "rn_ID (record_result e v c r) = rn_ID r"
  by (simp add: record_result_def)

lemma record_batch_id [simp]: "rn_ID (record_batch S tick i evs r) = rn_ID r"
  by (induction S tick i evs r rule: record_batch.induct) (simp_all add: Let_def)

lemma first_pass_id: "rn_ID (fst (first_pass S live tick i es r pending)) = rn_ID r"
  by (induction S live tick i es r pending rule: first_pass.induct) (simp_all split: prod.split option.split)

lemma second_pass_id: "rn_ID (snd (second_pass S live tick i client pending r)) = rn_ID r"
  by (induction S live tick i client pending r rule: second_pass.induct) (simp_all add: Let_def split: prod.split option.split)

lemma execute_ends:
  "rn_ID (snd (Execute S lives tick now alive client r)) = rn_ID r \<and> rn_status (snd (Execute S lives tick now alive client r)) \<noteq> ''running''"
  using first_pass_id [of S lives tick 0 "rn_groups r" r "[]"] second_pass_id [of S lives tick "length (rn_groups r)" client]
  by (auto simp: Execute_def finish_run_def Let_def split: prod.split) (metis snd_conv run.select_convs(1) run.ext_inject run.surjective run.update_convs(12))+

text \<open>
  C4: In every order of requests, published views and ends of scans, searches and lookups, the server runs at most one scan
  and one search and two lookups; its job is running or stopping exactly while the scan of that identity runs, cancelled
  exactly when it is stopping, and its search is running exactly while one is executed.
\<close>

theorem server_runs_once:
  assumes "server_run S st (new_server\<lparr>sv_initial := initial\<rparr>) s"
  shows "length (sv_scans s) \<le> 1 \<and> (busy s \<longleftrightarrow> sv_scans s \<noteq> [])
    \<and> list_all (\<lambda>(i, c). map_option (\<lambda>j. str_of j ''id'') (sv_job s) = Some i \<and> c = (job_status s = ''stopping'')) (sv_scans s)
    \<and> length (sv_searches s) \<le> 1 \<and> (searching s \<longleftrightarrow> sv_searches s \<noteq> []) \<and> sv_slots s \<le> 2"
proof -
  have "server_inv (new_server\<lparr>sv_initial := initial\<rparr>)"
    by (simp add: server_inv_def scan_inv_def search_inv_def new_server_def busy_def job_status_def)
  with server_steps.run_keeps [of S st] assms have "server_inv s" by (simp add: server_run_def)
  from server_invD [OF this] show ?thesis by simp
qed

definition quick_site :: site where
  "quick_site = \<lparr>st_host = ''127.0.0.1:8765'', st_token = ''secret'', st_offline = True, st_can_scan = True, st_can_context = True,
     st_rulesPath = ''.runs/.review-rules.json'', st_into = (\<lambda>m e. (e\<lparr>ev_ID := str_of m ''id'', ev_Text := str_of m ''text''\<rparr>, True))\<rparr>"

definition quick_world :: world where
  "quick_world = \<lparr>w_dir = Some [], w_rules = Absent, w_write = (\<lambda>v. None), w_now = zero_time, w_scan_id = ''scan'', w_available = False,
     w_credential = None\<rparr>"

definition post_request :: "string \<Rightarrow> string \<Rightarrow> http_request" where
  "post_request path body = \<lparr>rq_Method = ''POST'', rq_Host = ''127.0.0.1:8765'', rq_Origin = [], rq_FetchSite = [], rq_RawPath = [], rq_RawQuery = [],
     rq_Path = path, rq_id = [], rq_offset = [], rq_Token = ''secret'', rq_ContentType = ''application/json'', rq_Body = Some body\<rparr>"

definition scan_request :: http_request where
  "scan_request = post_request ''/api/analyze'' (marshal (JObj [(''kind'', JStr ''kubernetes'')]))"

lemma scan_request_handled:
  "map_option (\<lambda>x. (sv_scans (fst x), sv_searches (fst x))) (handle quick_std quick_site quick_world scan_request new_server)
    = Some ([(''scan'', False)], [])"
  by code_simp

lemma server_runs_once_witness:
  "\<exists>s. server_run quick_std quick_site (new_server\<lparr>sv_initial := None\<rparr>) s \<and> sv_scans s = [(''scan'', False)] \<and> busy s \<and> \<not> searching s"
proof -
  from scan_request_handled obtain s eff rep where h: "handle quick_std quick_site quick_world scan_request new_server = Some (s, eff, rep)"
    and s: "sv_scans s = [(''scan'', False)]" "sv_searches s = []" by (auto simp: map_option_case split: option.splits)
  have "new_server = new_server\<lparr>sv_initial := None\<rparr>" by (simp add: new_server_def)
  with server_step.request [OF h] have r: "server_run quick_std quick_site (new_server\<lparr>sv_initial := None\<rparr>) s"
    unfolding server_run_def by (metis r_into_rtranclp)
  with server_runs_once [OF r] s show ?thesis by auto
qed

section \<open>Requests that are not authorised\<close>

definition authorised :: "site \<Rightarrow> http_request \<Rightarrow> bool" where
  "authorised st r = (same_origin (st_host st) r \<and> rq_Method r = ''POST'' \<and> rq_Token r = st_token st \<and> rq_ContentType r = ''application/json'')"

definition shows_only :: "route \<Rightarrow> bool" where
  "shows_only rt = (case rt of Analyze p \<Rightarrow> False | StopScan \<Rightarrow> False | ReviewEvents p \<Rightarrow> False | FetchContext p \<Rightarrow> False
     | StartSearch p \<Rightarrow> False | StopSearch i \<Rightarrow> False | _ \<Rightarrow> True)"

lemma get_route_shows: "shows_only (get_route r)"
  by (simp add: get_route_def Let_def shows_only_def split: option.split)

lemma unauthorised_post: "rq_Token r \<noteq> token \<or> rq_ContentType r \<noteq> ''application/json'' \<Longrightarrow> shows_only (post_route S token r)"
  by (auto simp: post_route_def shows_only_def)

lemma unauthorised_route: "\<not> authorised st r \<Longrightarrow> shows_only (route_request S (st_host st) (st_token st) r)"
  using get_route_shows [of r] unauthorised_post [of r "st_token st" S]
  by (auto simp: route_request_def authorised_def shows_only_def [of "Refused c m" for c m])

text \<open>
  C10: Only a \<open>POST\<close> of JSON from the server's own origin that carries the session's token changes anything: any other
  request leaves the server, its scans, searches and the rules file as they are.  A request of another origin is
  answered with status 403 alone, so that it never reads the token.
\<close>

theorem unauthorised_request_harmless:
  assumes "\<not> authorised st r" "handle S st w r s = Some (s', eff, rep)"
  shows "s' = s \<and> eff = NoEffect \<and> (same_origin (st_host st) r \<or> rep = Failure 403 (Err ''local origin required''))"
proof -
  have "s' = s \<and> eff = NoEffect"
    using unauthorised_route [OF assms(1), of S] assms(2)
    by (cases "route_request S (st_host st) (st_token st) r") (auto simp: handle_def show_source_def shows_only_def)
  moreover have "rep = Failure 403 (Err ''local origin required'')" if "\<not> same_origin (st_host st) r"
    using assms(2) that by (simp add: handle_def route_request_def)
  ultimately show ?thesis by blast
qed

definition foreign_request :: http_request where
  "foreign_request = scan_request\<lparr>rq_Origin := ''http://evil.example''\<rparr>"

lemma unauthorised_request_harmless_witness:
  "\<exists>rep. handle quick_std quick_site quick_world foreign_request new_server = Some (new_server, NoEffect, rep)
    \<and> rep = Failure 403 (Err ''local origin required'')"
proof -
  have u: "\<not> authorised quick_site foreign_request" and o: "\<not> same_origin (st_host quick_site) foreign_request" by code_simp+
  then obtain s' eff rep where h: "handle quick_std quick_site quick_world foreign_request new_server = Some (s', eff, rep)"
    by (simp add: handle_def route_request_def)
  from unauthorised_request_harmless [OF u h] o h show ?thesis by auto
qed

section \<open>Scan requests\<close>

lemma read_uploads_bounds:
  "read_uploads used raws = Inr us \<Longrightarrow> used \<le> 10485760 \<Longrightarrow>
    length us = length raws \<and> used + sum_list (map (length \<circ> snd) us) \<le> 10485760 \<and>
    list_all (\<lambda>(n, b). n \<noteq> [] \<and> path_Base n = n \<and> n \<noteq> ''.'' \<and> n \<noteq> ''..'' \<and> length n \<le> 180 \<and> \<not> has_control n) us"
proof (induction used raws arbitrary: us rule: read_uploads.induct)
  case (1 used)
  then show ?case by simp
next
  case (2 used raw raws)
  from 2(2) obtain n b vs where r: "read_upload raw = Some (n, b)" "\<not> 10485760 < used + length b"
    "read_uploads (used + length b) raws = Inr vs" "us = (n, b) # vs" by (auto split: option.splits if_splits sum.splits)
  from r(1) have "n \<noteq> [] \<and> path_Base n = n \<and> n \<noteq> ''.'' \<and> n \<noteq> ''..'' \<and> length n \<le> 180 \<and> \<not> has_control n"
    by (auto simp: read_upload_def Let_def split: govalue.splits option.splits if_splits)
  with 2(1) [of "(n, b)"] r show ?case by (auto simp: ac_simps)
qed

lemma path_Base_no_slash: "path_Base n = n \<Longrightarrow> n \<noteq> ''/'' \<Longrightarrow> CHR ''/'' \<notin> set n"
  by (auto simp: path_Base_def Let_def split: if_splits dest!: arg_cong [of _ n set] set_takeWhileD)

definition plain_name :: "string \<Rightarrow> bool" where
  "plain_name n = (n \<noteq> [] \<and> length n \<le> 180 \<and> \<not> has_control n \<and> n \<notin> {''.'', ''..''} \<and> (CHR ''/'' \<notin> set n \<or> n = ''/''))"

lemma plain_uploads:
  "list_all (\<lambda>(n, b). n \<noteq> [] \<and> path_Base n = n \<and> n \<noteq> ''.'' \<and> n \<noteq> ''..'' \<and> length n \<le> 180 \<and> \<not> has_control n) us
    \<Longrightarrow> list_all (\<lambda>(n, b). plain_name n) us"
  using path_Base_no_slash by (auto simp: list_all_iff plain_name_def)

lemma mget_mput_same [simp]: "mget (mput k v m) k = Some v"
  by (simp add: mget_mput)

lemma finite_mput [simp]: "finite_value (VObj m) \<Longrightarrow> finite_value v \<Longrightarrow> finite_value (VObj (mput k v m))"
  by (auto simp: list_all_iff dest!: set_mputD)

lemma finite_number: "finite_value (VObj m) \<Longrightarrow> \<exists>q. number_of m k = Fin q"
  by (auto simp: number_of_def list_all_iff split: option.splits govalue.splits f64.splits dest!: map_of_SomeD)

lemma limit_ok_range:
  assumes "limit_ok p (k, Fin lo, Fin hi)" "finite_value (VObj p)" "mget p k \<noteq> None"
  shows "\<exists>q. number_of p k = Fin q \<and> lo \<le> q \<and> q \<le> hi"
  using assms finite_number [of p k] by (auto simp: limit_ok_def Let_def f64_lt_def)

text \<open>The completed request, by the kind of the scan.\<close>

lemma completed_kind: "str_of (completed_request offline path p) ''kind'' = str_of p ''kind''"
  by (simp add: completed_request_def Let_def)

lemma check_scan_accepts:
  assumes "check_scan can offline path p = Inr (p', us)"
  shows "can" "p' = completed_request offline path p" "list_all (limit_ok p') scan_limits"
    "mget p' ''live'' = Some (VBool True) \<longrightarrow> str_of p' ''kind'' = ''kubernetes''"
    "us = [] \<or> length (items p' ''files'') \<le> 20 \<and> read_uploads 0 (items p' ''files'') = Inr us"
proof -
  obtain q where q: "q = completed_request offline path p" by blast
  note unfolded = assms [unfolded check_scan_def Let_def, folded q]
  show "can" "p' = completed_request offline path p" "list_all (limit_ok p') scan_limits"
    "mget p' ''live'' = Some (VBool True) \<longrightarrow> str_of p' ''kind'' = ''kubernetes''"
    "us = [] \<or> length (items p' ''files'') \<le> 20 \<and> read_uploads 0 (items p' ''files'') = Inr us"
    using unfolded q completed_kind [of offline path p]
    by (simp_all split: if_split_asm sum.split_asm)
qed

text \<open>
  A scan that a browser may start keeps within its bounds, whatever the browser sends: at most twenty uploads with 10 MiB
  in all whose names are no paths, batches, tail, streams, retained events and cost in their ranges; it uses the
  server's rules file, follows only a cluster, and is an offline scan when the dashboard is offline.
\<close>

theorem accepted_scan_bounded:
  assumes "check_scan can offline path p = Inr (p', us)" "finite_value (VObj p)"
  shows "length us \<le> 20 \<and> sum_list (map (length \<circ> snd) us) \<le> 10485760 \<and> list_all (\<lambda>(n, b). plain_name n) us
    \<and> list_all (\<lambda>(k, lo, hi). mget p' k = None \<or> f64_le lo (number_of p' k) \<and> f64_le (number_of p' k) hi) scan_limits
    \<and> mget p' ''_review_rules'' = Some (VStr path) \<and> (offline \<longrightarrow> mget p' ''offline'' = Some (VBool True))
    \<and> (mget p' ''live'' = Some (VBool True) \<longrightarrow> str_of p' ''kind'' = ''kubernetes'')"
proof -
  note c = check_scan_accepts [OF assms(1)]
  have fin: "finite_value (VObj p')" using assms(2) by (simp add: c(2) completed_request_def Let_def del: finite_value.simps(3))
  have uploads: "length us \<le> 20 \<and> sum_list (map (length \<circ> snd) us) \<le> 10485760 \<and> list_all (\<lambda>(n, b). plain_name n) us"
    using c(5) read_uploads_bounds [of 0 _ us] plain_uploads [of us] by auto
  have ranges: "mget p' k = None \<or> f64_le lo (number_of p' k) \<and> f64_le (number_of p' k) hi" if "(k, lo, hi) \<in> set scan_limits" for k lo hi
  proof -
    from that obtain a b where ab: "lo = Fin a" "hi = Fin b" by (auto simp: scan_limits_def)
    from that c(3) have "limit_ok p' (k, lo, hi)" by (auto simp: list_all_iff)
    with limit_ok_range [OF _ fin] show ?thesis unfolding ab by (cases "mget p' k = None") fastforce+
  qed
  have "list_all (\<lambda>(k, lo, hi). mget p' k = None \<or> f64_le lo (number_of p' k) \<and> f64_le (number_of p' k) hi) scan_limits"
    unfolding list_all_iff using ranges by blast
  moreover have "mget p' ''_review_rules'' = Some (VStr path)" "offline \<longrightarrow> mget p' ''offline'' = Some (VBool True)"
    by (simp_all add: c(2) completed_request_def Let_def mget_mput)
  ultimately show ?thesis using c(4) uploads by blast
qed

definition upload_scan :: object where
  "upload_scan = [(''kind'', VStr ''files''), (''tail'', VNum (Fin 5)), (''files'', VArr [VObj [(''name'', VStr ''app.log''), (''data'', VStr ''aGk='')]])]"

lemma accepted_scan_bounded_witness:
  "check_scan True True ''rules'' upload_scan = Inr (mput ''offline'' (VBool True) (mput ''_review_rules'' (VStr ''rules'') upload_scan), [(''app.log'', ''hi'')])
    \<and> plain_name ''app.log''"
proof -
  have c: "check_scan True True ''rules'' upload_scan = Inr (mput ''offline'' (VBool True) (mput ''_review_rules'' (VStr ''rules'') upload_scan), [(''app.log'', ''hi'')])"
    by code_simp
  have "finite_value (VObj upload_scan)" by code_simp
  from accepted_scan_bounded [OF c this] c show ?thesis by simp
qed

section \<open>Listed reports can be opened\<close>

lemma path_Base_plain: "n \<noteq> [] \<Longrightarrow> CHR ''/'' \<notin> set n \<Longrightarrow> path_Base n = n"
proof -
  assume n: "n \<noteq> []" "CHR ''/'' \<notin> set n"
  then have "dropWhile (\<lambda>c. c = CHR ''/'') (rev n) = rev n" by (cases "rev n") (auto simp: dropWhile_eq_self_iff)
  moreover have "takeWhile (\<lambda>c. c \<noteq> CHR ''/'') (rev n) = rev n" using n by (auto simp: takeWhile_eq_all_conv)
  ultimately show ?thesis using n by (simp add: path_Base_def del: takeWhile_eq_all_conv)
qed

lemma listed_valid: "listed e \<Longrightarrow> CHR ''/'' \<notin> set (de_Name e) \<Longrightarrow> valid_report_id (de_Name e)"
  using path_Base_plain [of "de_Name e"] by (cases "de_Name e = []") (auto simp: listed_def valid_report_id_def HasSuffix_def)

lemma report_names_origin:
  assumes "n \<in> set (report_names initial es)"
  shows "(\<exists>v. initial = Some (n, v)) \<or> (\<exists>e \<in> set es. listed e \<and> de_Name e = n)"
  using assms by (auto simp: report_names_def Let_def split: option.splits dest!: in_set_takeD)

lemma report_rows_origin:
  "report_rows S initial es rules ns = Some rows \<Longrightarrow> row \<in> set rows \<Longrightarrow>
    \<exists>n \<in> set ns. \<exists>v v'. listed_report S initial es n = Some v \<and> project S v n rules = Some v' \<and> row = report_row n v'"
  by (induction ns arbitrary: rows) (fastforce split: option.splits)+

text \<open>Names of a directory are distinct and hold no slash.\<close>

definition directory_ok :: "dir_entry list \<Rightarrow> bool" where
  "directory_ok es = (distinct (map de_Name es) \<and> list_all (\<lambda>e. CHR ''/'' \<notin> set (de_Name e)) es)"

lemma find_by_name: "distinct (map de_Name es) \<Longrightarrow> e \<in> set es \<Longrightarrow> find (\<lambda>x. de_Name x = de_Name e) es = Some e"
  by (induction es) auto

lemma find_regular_by_name:
  "distinct (map de_Name es) \<Longrightarrow> e \<in> set es \<Longrightarrow> de_regular e \<Longrightarrow> find (\<lambda>x. de_Name x = de_Name e \<and> de_regular x) es = Some e"
  by (induction es) auto

lemma listed_report_opens:
  assumes "directory_ok es" "n \<in> set (report_names initial es)" "listed_report S initial es n = Some v"
    "\<And>i x. initial = Some (i, x) \<Longrightarrow> valid_report_id i"
  shows "report_by_id S initial (Some es) n = Inr v"
proof (cases "\<exists>x. initial = Some (n, x)")
  case True
  with assms show ?thesis by (auto simp: report_by_id_def listed_report_def)
next
  case False
  with report_names_origin [OF assms(2)] obtain e where e: "e \<in> set es" "listed e" "de_Name e = n" by blast
  with assms(1) have "valid_report_id n" using listed_valid by (auto simp: directory_ok_def list_all_iff)
  moreover have "find (\<lambda>x. de_Name x = n) es = Some e" "find (\<lambda>x. de_Name x = n \<and> de_regular x) es = Some e"
    using find_by_name [of es e] find_regular_by_name [of es e] e assms(1) by (auto simp: directory_ok_def listed_def)
  moreover have "(case initial of None \<Rightarrow> None | Some (k, v) \<Rightarrow> if k = n then Some v else None) = None"
    using False by (auto split: option.splits)
  ultimately show ?thesis using assms(3) by (auto simp: report_by_id_def listed_report_def split: option.splits sum.splits)
qed

definition shows_report :: "server \<Rightarrow> object \<Rightarrow> string \<Rightarrow> (server \<times> effect \<times> reply) option \<Rightarrow> bool" where
  "shows_report s row key answer = (case answer of
     Some (s', NoEffect, Document code v) \<Rightarrow> code = 200 \<and> s' = s \<and> field_value row ''summary'' = field_value v ''summary'' \<and> field_value row ''id'' = VStr key
   | _ \<Rightarrow> False)"

lemma valid_report_id_nonempty: "valid_report_id i \<Longrightarrow> i \<noteq> []"
  by (simp add: valid_report_id_def)

lemma row_fields: "report_row n v = VObj row \<Longrightarrow> str_of row ''id'' = n \<and> field_value row ''id'' = VStr n \<and> field_value row ''summary'' = field_value v ''summary''"
  by (auto simp: report_row_def str_of_def field_value_def mgetd_def)

text \<open>
  C32: Every report the dashboard lists can be opened: the request for its identity is answered with the projected report
  whose summary the list shows.
\<close>

theorem listed_reports_open:
  assumes "server_state S (st_token st) (w_available w) (Some es) (w_rules w) s = Some (Inr v)"
    "VObj row \<in> set (items v ''reports'')" "w_dir w = Some es" "directory_ok es"
    "list_all (\<lambda>(i, x). valid_report_id i) (case sv_initial s of None \<Rightarrow> [] | Some k \<Rightarrow> [k])"
    "route_request S (st_host st) (st_token st) r = ShowReport (str_of row ''id'')"
  shows "shows_report s row (str_of row ''id'') (handle S st w r s)"
proof -
  have init: "valid_report_id i" if "sv_initial s = Some (i, x)" for i x using assms(5) that by simp
  from assms(1) obtain rules rows where rules: "load_review_rules S (w_rules w) = Inr rules"
    and rows: "report_rows S (sv_initial s) es rules (report_names (sv_initial s) es) = Some rows" and v: "items v ''reports'' = rows"
    by (auto simp: server_state_def items_def list_of_def split: sum.splits)
  from report_rows_origin [OF rows] assms(2) v obtain n x y where n: "n \<in> set (report_names (sv_initial s) es)"
    "listed_report S (sv_initial s) es n = Some x" "project S x n rules = Some y" "VObj row = report_row n y" by blast
  from row_fields n(4) have row: "str_of row ''id'' = n" "field_value row ''id'' = VStr n" "field_value row ''summary'' = field_value y ''summary''"
    by metis+
  from listed_report_opens [OF assms(4) n(1,2)] init have opened: "report_by_id S (sv_initial s) (Some es) n = Inr x" by blast
  have "live_or_report S (Some es) [(''report_id'', VStr n)] s = Inr (x, n)"
    using opened by (simp add: live_or_report_def str_of_def)
  then have "projected_source S (Some es) (w_rules w) [(''report_id'', VStr n)] s = Some (Inr (y, n))"
    using rules n(3) by (simp add: projected_source_def)
  with assms(3,6) row show ?thesis
    by (simp add: handle_def show_source_def request_source_def reply_of_def shows_report_def)
qed

text \<open>
  Without the hypothesis on the imported report the list offers what cannot be opened: \<open>Import\<close> keeps the base name of any
  file, but the handler only accepts names that end in \<open>.json\<close> and do not begin with a dot.
\<close>

definition imported :: server where
  "imported = new_server\<lparr>sv_initial := Some (''audit.txt'', normalize_report [(''summary'', VObj []), (''events'', VArr [])])\<rparr>"

lemma imported_report_unreachable:
  "(case server_state quick_std [] False (Some []) Absent imported of
      Some (Inr v) \<Rightarrow> map (\<lambda>row. str_of (as_obj row) ''id'') (items v ''reports'') | _ \<Rightarrow> []) = [''audit.txt''] \<and>
   report_by_id quick_std (sv_initial imported) (Some []) ''audit.txt'' = Inl (Err ''invalid report id'')"
  by (rule conjI) code_simp+

definition one_report :: "dir_entry list" where
  "one_report = [\<lparr>de_Name = ''a.json'', de_regular = True, de_ModTime = Some zero_time, de_contents = Some (marshal
     (JObj [(''schema_version'', JNum ''1''), (''summary'', JObj []), (''events'', JArr [])]))\<rparr>]"

definition open_request :: http_request where
  "open_request = (post_request ''/api/report'' [])\<lparr>rq_Method := ''GET'', rq_id := ''a.json''\<rparr>"

lemma listed_reports_open_witness:
  "\<exists>row. str_of row ''id'' = ''a.json'' \<and>
    shows_report new_server row ''a.json'' (handle quick_std quick_site (quick_world\<lparr>w_dir := Some one_report\<rparr>) open_request new_server)"
proof -
  have "(case server_state quick_std (st_token quick_site) (w_available (quick_world\<lparr>w_dir := Some one_report\<rparr>)) (Some one_report)
      (w_rules (quick_world\<lparr>w_dir := Some one_report\<rparr>)) new_server of
        Some (Inr v) \<Rightarrow> (case items v ''reports'' of VObj row # _ \<Rightarrow> str_of row ''id'' = ''a.json'' | _ \<Rightarrow> False) | _ \<Rightarrow> False)" by code_simp
  then obtain v row where v: "server_state quick_std (st_token quick_site) (w_available (quick_world\<lparr>w_dir := Some one_report\<rparr>)) (Some one_report)
      (w_rules (quick_world\<lparr>w_dir := Some one_report\<rparr>)) new_server = Some (Inr v)" and row: "VObj row \<in> set (items v ''reports'')" "str_of row ''id'' = ''a.json''"
    by (auto split: option.splits sum.splits list.splits govalue.splits) (metis list.set_intros(1))
  have "directory_ok one_report" "route_request quick_std (st_host quick_site) (st_token quick_site) open_request = ShowReport ''a.json''" by code_simp+
  with listed_reports_open [OF v row(1)] row(2) show ?thesis by (auto simp: new_server_def)
qed

end
