(* ===== verification/DashboardSafety.thy ===== *)
theory DashboardSafety
  imports Dashboard ServerSafety
begin

text \<open>
  What the compact dashboard promises: its pages show every matching event once and always fit the response limit, and the
  controller is asked by one request at a time and at most once in two seconds for each kind of answer.
\<close>

section \<open>The size of a page\<close>

lemma Join_length: "length (Join xs [c]) = sum_list (map length xs) + (length xs - 1)"
  by (induction xs "[c]" rule: Join.induct) simp_all

lemma fill_page_room:
  "used \<le> page_room \<Longrightarrow> used + sum_list (map (\<lambda>x. length (fst x) + 1) (fill_page es ms limit used)) \<le> page_room"
  by (induction es ms limit used rule: fill_page.induct) (auto simp: Let_def)

lemma fill_page_length: "length (fill_page es ms limit used) \<le> min limit (length ms)"
  by (induction es ms limit used rule: fill_page.induct) (auto simp: Let_def)

lemma show_nat_length: "n < 10 ^ Suc k \<Longrightarrow> length (show_nat n) \<le> Suc k"
proof (induction k arbitrary: n)
  case 0
  then show ?case by (subst show_nat.simps) simp
next
  case (Suc k)
  then have "n div 10 < 10 ^ Suc k" by (simp add: less_mult_imp_div_less mult.commute)
  from Suc.IH [OF this] show ?case by (subst show_nat.simps) simp
qed

lemma quote_literals:
  "quote ''text'' = [CHR 0x22] @ ''text'' @ [CHR 0x22]"
  "quote ''importance'' = [CHR 0x22] @ ''importance'' @ [CHR 0x22]"
  "quote ''event_unavailable'' = [CHR 0x22] @ ''event_unavailable'' @ [CHR 0x22]"
  "quote ''report_index'' = [CHR 0x22] @ ''report_index'' @ [CHR 0x22]"
  "quote ''unknown'' = [CHR 0x22] @ ''unknown'' @ [CHR 0x22]"
  "length (quote ''Event exceeds dashboard page limit; inspect the original report'') = 65"
  by code_simp+

lemma unavailable_event_length: "length (unavailable_event i) = 138 + length (show_nat i)"
  by (simp add: unavailable_event_def quote_literals)

lemma shown_event_fits:
  assumes "length (compact False False (es ! i)) \<noteq> page_room" "i < 100000"
  shows "length (fst (shown_event es i)) + 1 \<le> page_room"
proof -
  have "length (show_nat i) \<le> 5" using show_nat_length [of i 4] assms(2) by simp
  with assms(1) unavailable_event_length [of i] show ?thesis by (auto simp: shown_event_def Let_def page_room_def MaxResponse_def)
qed

lemma fill_page_prefix: "\<exists>n. fill_page es ms limit used = map (shown_event es) (take n ms)"
proof (induction es ms limit used rule: fill_page.induct)
  case (3 es m ms limit used)
  show ?case
  proof (cases "page_room < used + length (fst (shown_event es m)) + 1")
    case True
    then show ?thesis by (intro exI [of _ 0]) (simp add: Let_def)
  next
    case False
    with 3 obtain n where "fill_page es ms limit (used + length (fst (shown_event es m)) + 1) = map (shown_event es) (take n ms)" by blast
    with False show ?thesis by (intro exI [of _ "Suc n"]) (simp add: Let_def)
  qed
qed (auto intro: exI [of _ 0])

lemma fill_page_progress:
  assumes "length (compact False False (es ! m)) \<noteq> page_room" "m < 100000" "0 < limit"
  shows "fill_page es (m # ms) limit 0 \<noteq> []"
  using shown_event_fits [OF assms(1,2)] assms(3) by (cases limit) (simp_all add: Let_def)

section \<open>Following the pages\<close>

text \<open>What a reader collects who asks for page after page; the fuel is the number of pages asked for.\<close>

primrec read_pages :: "nat \<Rightarrow> (nat \<Rightarrow> report_page) \<Rightarrow> nat \<Rightarrow> string list option" where
  "read_pages 0 f offset = None"
| "read_pages (Suc n) f offset = (case pg_next (f offset) of
     None \<Rightarrow> Some (pg_events (f offset))
   | Some k \<Rightarrow> map_option (append (pg_events (f offset))) (read_pages n f k))"

definition view_events :: "report_view option \<Rightarrow> string list" where
  "view_events view = (case view of None \<Rightarrow> [] | Some v \<Rightarrow> rp_events v)"

text \<open>What a reader is shown of the matching events.\<close>

definition shown_matches :: "report_view option \<Rightarrow> string \<Rightarrow> string list" where
  "shown_matches view query = map (\<lambda>i. fst (shown_event (view_events view) i)) (matching view query)"

text \<open>No matching event is as long as the room of a page to the byte.\<close>

definition no_exact_event :: "report_view option \<Rightarrow> string \<Rightarrow> bool" where
  "no_exact_event view query = list_all (\<lambda>i. length (compact False False (view_events view ! i)) \<noteq> page_room) (matching view query)"

lemma matching_bound: "i \<in> set (matching view query) \<Longrightarrow> i < (case view of None \<Rightarrow> 0 | Some v \<Rightarrow> length (rp_texts v))"
  by (auto simp: matching_def split: option.splits)

lemma page_at_prefix:
  "\<exists>n. map fst (fill_page (view_events view) (drop offset (matching view query)) limit 0) = take n (drop offset (shown_matches view query))"
proof -
  from fill_page_prefix obtain n where
    "fill_page (view_events view) (drop offset (matching view query)) limit 0 = map (shown_event (view_events view)) (take n (drop offset (matching view query)))" by blast
  then show ?thesis by (auto simp: shown_matches_def drop_map take_map intro!: exI [of _ n])
qed

lemma page_at_simps:
  "pg_events (page_at view query limit offset) = map fst (fill_page (view_events view) (drop offset (matching view query)) limit 0)"
  "pg_next (page_at view query limit offset) =
    (let k = offset + length (pg_events (page_at view query limit offset)) in if k < length (matching view query) then Some k else None)"
  by (simp_all add: page_at_def Let_def view_events_def)

lemma page_events: "pg_events (page_at view query limit offset) =
    take (length (pg_events (page_at view query limit offset))) (drop offset (shown_matches view query))"
proof -
  from page_at_prefix [of view offset query limit] obtain n where "pg_events (page_at view query limit offset) = take n (drop offset (shown_matches view query))"
    by (auto simp: page_at_simps(1))
  then show ?thesis by (metis append_eq_conv_conj append_take_drop_id)
qed

lemma page_progress:
  assumes "no_exact_event view query" "0 < limit" "offset < length (matching view query)" "length (matching view query) \<le> 100000"
    "list_all (\<lambda>i. i < 100000) (matching view query)"
  shows "0 < length (pg_events (page_at view query limit offset))"
proof -
  let ?m = "matching view query ! offset"
  have "drop offset (matching view query) = ?m # drop (Suc offset) (matching view query)" using assms(3) by (rule Cons_nth_drop_Suc [symmetric])
  moreover from assms(1,3,5) have "length (compact False False (view_events view ! ?m)) \<noteq> page_room" "?m < 100000"
    by (auto simp: no_exact_event_def list_all_iff)
  ultimately show ?thesis using fill_page_progress [OF _ _ assms(2)] by (simp add: page_at_simps(1))
qed

lemma read_pages_from:
  assumes "no_exact_event view query" "0 < limit" "list_all (\<lambda>i. i < 100000) (matching view query)" "length (matching view query) \<le> 100000"
    "length (matching view query) < offset + fuel" "offset \<le> length (matching view query)" "0 < fuel"
  shows "read_pages fuel (page_at view query limit) offset = Some (drop offset (shown_matches view query))"
  using assms(5-)
proof (induction fuel arbitrary: offset)
  case 0
  then show ?case by simp
next
  case (Suc n)
  let ?p = "page_at view query limit offset"
  let ?k = "offset + length (pg_events ?p)"
  have len: "length (shown_matches view query) = length (matching view query)" by (simp add: shown_matches_def)
  show ?case
  proof (cases "?k < length (matching view query)")
    case True
    then have "offset < length (matching view query)" by simp
    with page_progress [OF assms(1,2) _ assms(4,3)] have "0 < length (pg_events ?p)" by blast
    with Suc.prems(1) have "length (matching view query) < ?k + n" by linarith
    with True have "read_pages n (page_at view query limit) ?k = Some (drop ?k (shown_matches view query))"
      by (intro Suc.IH) simp_all
    with True page_events [of view query limit offset] show ?thesis
      by (simp add: page_at_simps(2) Let_def) (metis add.commute append_take_drop_id drop_drop)
  next
    case False
    with page_events [of view query limit offset] len have "pg_events ?p = drop offset (shown_matches view query)"
      by (metis append_take_drop_id drop_all drop_drop length_drop le_diff_conv add.commute not_less take_all)
    with False show ?thesis by (simp add: page_at_simps(2) Let_def)
  qed
qed

section \<open>Loaded reports\<close>

lemma those_length: "those xs = Some ys \<Longrightarrow> length ys = length xs"
  by (induction xs arbitrary: ys) (auto split: option.splits)

lemma loaded_bounds:
  assumes "LoadReport S raw = Inr v"
  shows "length (rp_texts v) \<le> 100000" "length (rp_events v) = length (rp_texts v)" "length (rp_summary v) \<le> 32768" "rp_schema v \<in> {1, 2}"
  using assms by (auto simp: LoadReport_def Let_def dest!: those_length split: option.splits json.splits prod.splits if_split_asm)

lemma loaded_matching:
  assumes "LoadReport S raw = Inr v"
  shows "list_all (\<lambda>i. i < 100000) (matching (Some v) query)" "length (matching (Some v) query) \<le> 100000"
proof -
  note b = loaded_bounds(1) [OF assms]
  show "list_all (\<lambda>i. i < 100000) (matching (Some v) query)"
    using matching_bound [of _ "Some v" query] b by (force simp: list_all_iff)
  show "length (matching (Some v) query) \<le> 100000"
    using b length_filter_le [of "\<lambda>i. Contains (rp_texts v ! i) query" "[0..<length (rp_texts v)]"] by (simp add: matching_def)
qed

text \<open>
  C16: A reader who follows \<open>next_offset\<close> from page to page is shown every matching event of the report, once and in order,
  within one request more than there are matches: the text of the event, or a note in its place when it is longer than a
  page.  It fails exactly for an event that fills a page to the byte (\<open>exact_event_stuck\<close>).
\<close>

theorem pages_complete:
  assumes "LoadReport S raw = Inr v" "0 < limit" "no_exact_event (Some v) query"
  shows "read_pages (length (matching (Some v) query) + 1) (page_at (Some v) query limit) 0 = Some (shown_matches (Some v) query)"
  using read_pages_from [OF assms(3,2) loaded_matching [OF assms(1)], where fuel = "length (matching (Some v) query) + 1" and offset = 0] by simp

text \<open>
  An event whose text is exactly as long as the room of a page is neither replaced, because it is not longer, nor shown,
  because the byte of its separator does not fit: its page is empty and names itself as the next one for ever.
\<close>

lemma exact_event_stuck:
  assumes "length (compact False False (view_events view ! (matching view query ! offset))) = page_room" "offset < length (matching view query)"
  shows "pg_events (page_at view query limit offset) = [] \<and> pg_next (page_at view query limit offset) = Some offset"
proof -
  have d: "drop offset (matching view query) = (matching view query ! offset) # drop (Suc offset) (matching view query)"
    using assms(2) by (rule Cons_nth_drop_Suc [symmetric])
  have "fill_page (view_events view) (drop offset (matching view query)) limit 0 = []"
    using assms(1) unfolding d by (cases limit) (simp_all add: shown_event_def Let_def)
  then show ?thesis using assms(2) by (simp add: page_at_simps)
qed

lemma exact_event_never_ends:
  assumes "length (compact False False (view_events view ! (matching view query ! offset))) = page_room" "offset < length (matching view query)"
  shows "read_pages fuel (page_at view query limit) offset = None"
  using exact_event_stuck [OF assms, of limit] by (induction fuel) simp_all

definition small_report :: string where
  "small_report = ''{  ''  @ quote ''schema_version'' @ '': 2,'' @ quote ''summary'' @ '': {},'' @ quote ''events'' @ '': [ {'' @ quote ''text'' @ '': '' @
     quote ''disk failed'' @ '' }, {'' @ quote ''text'' @ '':'' @ quote ''disk ok'' @ ''}]}''"

lemma pages_complete_witness:
  "\<exists>v. LoadReport quick_std small_report = Inr v \<and> read_pages 3 (page_at (Some v) ''disk'' 1) 0 = Some (shown_matches (Some v) ''disk'')
    \<and> length (shown_matches (Some v) ''disk'') = 2"
proof -
  have "(case LoadReport quick_std small_report of Inl e \<Rightarrow> False | Inr v \<Rightarrow> matching (Some v) ''disk'' = [0, 1] \<and> no_exact_event (Some v) ''disk'')"
    by code_simp
  then obtain v where v: "LoadReport quick_std small_report = Inr v" "matching (Some v) ''disk'' = [0, 1]" "no_exact_event (Some v) ''disk''"
    by (auto split: sum.splits)
  from pages_complete [OF v(1) _ v(3), of 1] v(2) have "read_pages 3 (page_at (Some v) ''disk'' 1) 0 = Some (shown_matches (Some v) ''disk'')"
    by (simp add: numeral_3_eq_3)
  with v show ?thesis by (auto simp: shown_matches_def)
qed

lemma quote_keys:
  "length (quote ''all_matches_in_page'') = 21" "length (quote ''coverage_complete'') = 19" "length (quote ''matched_events'') = 16"
  "length (quote ''next_offset'') = 13" "length (quote ''offset'') = 8" "length (quote ''retained_events'') = 17" "length (quote ''returned_events'') = 17"
  "length (quote ''scope'') = 7" "length (quote ''unavailable_events'') = 20" "length (quote ''events'') = 8" "length (quote ''page'') = 6"
  "length (quote ''schema_version'') = 16" "length (quote ''summary'') = 9"
  "length (quote ''retained report events; full metadata remains in the original report'') = 70"
  by code_simp+

definition page_metadata :: "report_page \<Rightarrow> json" where
  "page_metadata p = JObj [(''all_matches_in_page'', JBool (pg_all p)), (''coverage_complete'', JBool (pg_complete p)),
     (''matched_events'', JNat (pg_matched p)), (''next_offset'', case pg_next p of None \<Rightarrow> JNull | Some n \<Rightarrow> JNat n),
     (''offset'', JNat (pg_offset p)), (''retained_events'', JNat (pg_retained p)), (''returned_events'', JNat (length (pg_events p))),
     (''scope'', JStr ''retained report events; full metadata remains in the original report''),
     (''unavailable_events'', JNat (pg_unavailable p))]"

lemma metadata_length:
  assumes "pg_matched p < 1000000" "pg_offset p < 1000000" "pg_retained p < 1000000" "length (pg_events p) < 1000000" "pg_unavailable p < 1000000"
    "list_all (\<lambda>n. n < 1000000) (case pg_next p of None \<Rightarrow> [] | Some n \<Rightarrow> [n])"
  shows "length (marshal (page_metadata p)) \<le> 400"
proof -
  have n: "length (show_nat k) \<le> 6" if "k < 1000000" for k using show_nat_length [of k 5] that by simp
  have next_len: "length (marshal (case pg_next p of None \<Rightarrow> JNull | Some n \<Rightarrow> JNat n)) \<le> 6"
    using assms(6) n by (cases "pg_next p") auto
  have "length (marshal (JBool b)) \<le> 5" for b by simp
  note bools = this [of "pg_all p"] this [of "pg_complete p"]
  show ?thesis
    using n [OF assms(1)] n [OF assms(2)] n [OF assms(3)] n [OF assms(4)] n [OF assms(5)] next_len bools
    by (simp add: page_metadata_def quote_keys del: marshal.simps(2))
qed

lemma page_body_length:
  "length (page_body p) = 50 + length (Join (pg_events p) '','') + length (marshal (page_metadata p)) + length (show_int (pg_schema p)) + length (pg_summary p)"
  by (simp add: page_body_def page_metadata_def quote_keys del: marshal.simps)

lemma page_at_bounds:
  assumes "length (matching view query) \<le> 100000" "offset \<le> 100000" "length (view_events view) \<le> 100000" "limit \<le> 200"
  shows "length (marshal (page_metadata (page_at view query limit offset))) \<le> 400"
    "length (Join (pg_events (page_at view query limit offset)) '','') \<le> page_room"
proof -
  let ?f = "fill_page (view_events view) (drop offset (matching view query)) limit 0"
  have l: "length ?f \<le> 200" using fill_page_length [of "view_events view" "drop offset (matching view query)" limit 0] assms(4) by simp
  have "length (filter snd ?f) \<le> 200" using length_filter_le [of snd ?f] l by linarith
  with l assms show "length (marshal (page_metadata (page_at view query limit offset))) \<le> 400"
    by (intro metadata_length) (auto simp: page_at_def Let_def view_events_def split: if_splits)
  have "sum_list (map (\<lambda>x. length (fst x)) ?f) + length ?f \<le> page_room"
    using fill_page_room [of 0 "view_events view" "drop offset (matching view query)" limit] by (simp add: sum_list_addf sum_list_Suc)
  then show "length (Join (pg_events (page_at view query limit offset)) '','') \<le> page_room"
    by (simp add: Join_length page_at_simps(1) comp_def)
qed

text \<open>
  Every page the dashboard answers with fits the response limit, so that no page of a loaded report is ever replaced by
  an error: the events take at most 216 KiB, the summary 32 KiB, and the rest fits what is left.
\<close>

lemma page_fits:
  assumes "LoadReport S raw = Inr v" "report_page S (Some v) rawLength query = Inr p"
  shows "inspect_JSON 200 (Some (page_body p)) = (200, page_body p) \<and> length (pg_events p) \<le> 200"
proof -
  from assms(2) obtain t limit offset where p: "p = page_at (Some v) t limit offset" "limit \<le> 200" "offset \<le> 100000"
    by (auto simp: report_page_def bounded_field_def Let_def split: option.splits if_splits)
  note b = loaded_bounds [OF assms(1)]
  have "length (view_events (Some v)) \<le> 100000" using b by (simp add: view_events_def)
  note q = page_at_bounds [OF loaded_matching(2) [OF assms(1)] p(3) this p(2), of t, folded p(1)]
  have "length (show_int 1) = 1" "length (show_int 2) = 1" by code_simp+
  with b(4) have "length (show_int (pg_schema p)) = 1" by (auto simp: p(1) page_at_def Let_def)
  moreover have "length (pg_summary p) \<le> 32768" using b(3) by (simp add: p(1) page_at_def Let_def)
  moreover have "length (pg_events p) \<le> 200"
    using fill_page_length [of "view_events (Some v)" "drop offset (matching (Some v) t)" limit 0] p(2) by (simp add: p(1) page_at_simps(1))
  ultimately show ?thesis using q page_body_length [of p] by (simp add: inspect_JSON_def MaxResponse_def page_room_def)
qed

lemma page_fits_witness:
  "\<exists>v p. LoadReport quick_std small_report = Inr v \<and> report_page quick_std (Some v) 7 (Some [(''limit'', [''1''])]) = Inr p
    \<and> inspect_JSON 200 (Some (page_body p)) = (200, page_body p)"
proof -
  have "(case LoadReport quick_std small_report of Inl e \<Rightarrow> False | Inr v \<Rightarrow>
      (case report_page quick_std (Some v) 7 (Some [(''limit'', [''1''])]) of Inl e \<Rightarrow> False | Inr p \<Rightarrow> True))" by code_simp
  then obtain v p where v: "LoadReport quick_std small_report = Inr v" "report_page quick_std (Some v) 7 (Some [(''limit'', [''1''])]) = Inr p"
    by (auto split: sum.splits)
  with page_fits [OF v] show ?thesis by blast
qed

section \<open>Polling\<close>

text \<open>
  What happens over time: requests ask, and the sample under way settles.  Beside the dashboard's state the run keeps what
  it is judged by: the requests under way, the attempts so far, the answers received since the last failure, and what was
  served from a cache, newest first.
\<close>

datatype 'v poll_op = Ask int int string | Settle int int string "'v option"

text \<open>\<open>time.Now()\<close>: a wall clock, which may be set, and a monotonic reading.\<close>

abbreviation reading :: "int \<Rightarrow> int \<Rightarrow> gotime" where
  "reading w m \<equiv> \<lparr>wall = w, mono_ns = Some m\<rparr>"

record 'v polling =
  po_state :: "'v poller"
  po_open :: "string list"
  po_attempts :: "(bool \<times> gotime) list"
  po_answers :: "(string \<times> gotime \<times> 'v) list"
  po_served :: "(string \<times> gotime \<times> (string \<times> gotime \<times> 'v) list \<times> 'v) list"

definition start_polling :: "'v polling" where
  "start_polling = \<lparr>po_state = new_poller, po_open = [], po_attempts = [], po_answers = [], po_served = []\<rparr>"

definition poll_step :: "int \<Rightarrow> 'v poll_op \<Rightarrow> 'v polling \<Rightarrow> 'v polling" where
  "poll_step interval a s = (case a of
     Ask w m i \<Rightarrow>
       (case begin_sample interval (reading w m) i (po_state s) of
          (d, Cached v) \<Rightarrow> s\<lparr>po_state := d, po_served := (i, reading w m, po_answers s, v) # po_served s\<rparr>
        | (d, TooMany) \<Rightarrow> s\<lparr>po_state := d\<rparr>
        | (d, Asked) \<Rightarrow> s\<lparr>po_state := d, po_open := i # po_open s, po_attempts := (i = [], reading w m) # po_attempts s\<rparr>)
   | Settle w m i r \<Rightarrow>
       (if i \<notin> set (po_open s) then s
        else s\<lparr>po_state := fst (end_sample (reading w m) i r (po_state s)), po_open := remove1 i (po_open s),
               po_answers := (case r of None \<Rightarrow> [] | Some v \<Rightarrow> (i, reading w m, v) # po_answers s)\<rparr>))"

definition poll_run :: "int \<Rightarrow> 'v poll_op list \<Rightarrow> 'v polling" where
  "poll_run interval as = foldl (\<lambda>s a. poll_step interval a s) start_polling as"

text \<open>Newest first: two attempts of one kind are two seconds apart.\<close>

definition spaced :: "(bool \<times> gotime) list \<Rightarrow> bool" where
  "spaced as = sorted_wrt (\<lambda>(k, t) (k', t'). k = k' \<longrightarrow> 2 * second \<le> Sub t t') as"

definition not_after :: "gotime \<Rightarrow> gotime \<Rightarrow> bool" where
  "not_after t u = (mono_ns u \<noteq> None \<and> 0 \<le> Sub u t)"

definition fresh :: "int \<Rightarrow> string \<times> gotime \<times> (string \<times> gotime \<times> 'v) list \<times> 'v \<Rightarrow> bool" where
  "fresh interval x = (case x of (i, now, answers, v) \<Rightarrow> list_ex (\<lambda>(k, t, u). k = i \<and> u = v \<and> Sub now t < poll_interval interval) answers)"

definition attempts_before :: "gotime \<Rightarrow> gotime \<Rightarrow> (bool \<times> gotime) list \<Rightarrow> bool" where
  "attempts_before st dt as = list_all (\<lambda>(k, t). mono_ns t \<noteq> None \<and> not_after t (if k then st else dt)) as"

definition poll_inv :: "int \<Rightarrow> 'v polling \<Rightarrow> bool" where
  "poll_inv interval s =
     (length (po_open s) = (if db_busy (po_state s) then 1 else 0) \<and>
      spaced (po_attempts s) \<and>
      attempts_before (db_attemptStatus (po_state s)) (db_attemptDetail (po_state s)) (po_attempts s) \<and>
      set_option (db_status (po_state s)) \<union> set_option (db_detail (po_state s)) \<subseteq> set (po_answers s) \<and>
      list_all (fresh interval) (po_served s))"

lemma begin_sample_cases:
  obtains (cached) t v where "begin_sample interval now i d = (d, Cached v)" "(i = [] \<and> db_status d = Some (i, t, v)) \<or> (i \<noteq> [] \<and> db_detail d = Some (i, t, v))"
      "Sub now t < poll_interval interval"
  | (many) "begin_sample interval now i d = (d, TooMany)"
  | (status) "i = []" "\<not> db_busy d" "2 * second \<le> Sub now (db_attemptStatus d)"
      "begin_sample interval now i d = (d\<lparr>db_busy := True, db_attemptStatus := now\<rparr>, Asked)"
  | (detail) "i \<noteq> []" "\<not> db_busy d" "2 * second \<le> Sub now (db_attemptDetail d)"
      "begin_sample interval now i d = (d\<lparr>db_busy := True, db_attemptDetail := now\<rparr>, Asked)"
proof -
  show thesis
  proof (cases "cached_answer interval now i d")
    case None
    then show thesis using that(2) that(3) that(4)
      by (cases "i = []"; cases "db_busy d \<or> Sub now (last_attempt i d) < 2 * second") (auto simp: begin_sample_def last_attempt_def)
  next
    case (Some v)
    with that(1) [of v] show thesis by (auto simp: cached_answer_def begin_sample_def split: option.splits if_splits)
  qed
qed

lemma not_after_later: "not_after t u \<Longrightarrow> mono_ns t \<noteq> None \<Longrightarrow> 2 * second \<le> Sub (reading w m) u \<Longrightarrow> 2 * second \<le> Sub (reading w m) t \<and> not_after t (reading w m)"
  by (auto simp: not_after_def Sub_def second_def split: option.splits)

lemma not_after_self: "not_after (reading w m) (reading w m)"
  by (simp add: not_after_def Sub_def)

lemma fresh_now: "(i, t, v) \<in> set answers \<Longrightarrow> Sub now t < poll_interval interval \<Longrightarrow> fresh interval (i, now, answers, v)"
  by (auto simp: fresh_def list_ex_iff)

lemma attempt_recorded:
  assumes "spaced as" "attempts_before st dt as" "2 * second \<le> Sub (reading w m) (if k then st else dt)"
  shows "spaced ((k, reading w m) # as)" "attempts_before (if k then reading w m else st) (if k then dt else reading w m) ((k, reading w m) # as)"
proof -
  have b: "mono_ns t \<noteq> None \<and> not_after t (if q then st else dt)" if "(q, t) \<in> set as" for q t
    using assms(2) that by (auto simp: attempts_before_def list_all_iff)
  then have l: "2 * second \<le> Sub (reading w m) t \<and> not_after t (reading w m)" if "(k, t) \<in> set as" for t
    using not_after_later [of t "if k then st else dt" w m] assms(3) that by blast
  show "spaced ((k, reading w m) # as)" using assms(1) l by (auto simp: spaced_def)
  have n: "not_after t (if q then (if k then reading w m else st) else (if k then dt else reading w m))" if "(q, t) \<in> set as" for q t
    using b [OF that] l [of t] that by (cases "q = k") (auto split: if_splits)
  have "attempts_before (if k then reading w m else st) (if k then dt else reading w m) as"
    unfolding attempts_before_def list_all_iff by (clarify, rule conjI, use b in blast, rule n)
  then show "attempts_before (if k then reading w m else st) (if k then dt else reading w m) ((k, reading w m) # as)"
    by (simp add: attempts_before_def not_after_self)
qed

lemma poll_ask_inv:
  assumes "poll_inv interval s"
  shows "poll_inv interval (poll_step interval (Ask w m i) s)"
proof (cases rule: begin_sample_cases [of interval "reading w m" i "po_state s"])
  case (cached t v)
  then have "(i, t, v) \<in> set (po_answers s)" using assms by (auto simp: poll_inv_def)
  with cached fresh_now [of i t v "po_answers s"] assms show ?thesis by (simp add: poll_step_def poll_inv_def)
next
  case many
  with assms show ?thesis by (simp add: poll_step_def poll_inv_def)
next
  case status
  with assms attempt_recorded [of "po_attempts s" "db_attemptStatus (po_state s)" "db_attemptDetail (po_state s)" w m True] show ?thesis
    by (simp add: poll_step_def poll_inv_def)
next
  case detail
  with assms attempt_recorded [of "po_attempts s" "db_attemptStatus (po_state s)" "db_attemptDetail (po_state s)" w m False] show ?thesis
    by (simp add: poll_step_def poll_inv_def)
qed

lemma poll_settle_inv:
  assumes "poll_inv interval s"
  shows "poll_inv interval (poll_step interval (Settle w m i r) s)"
proof (cases "i \<in> set (po_open s)")
  case True
  with assms have "remove1 i (po_open s) = []" "db_busy (po_state s)"
    by (auto simp: poll_inv_def length_Suc_conv split: if_splits)
  with True assms show ?thesis by (cases r) (auto simp: poll_step_def poll_inv_def end_sample_def)
next
  case False
  with assms show ?thesis by (simp add: poll_step_def)
qed

interpretation dashboard_polls: kept_by_operations "poll_step interval" "poll_inv interval" for interval
proof
  fix s :: "'a polling" and a
  assume "poll_inv interval s"
  then show "poll_inv interval (poll_step interval a s)" by (cases a) (simp_all add: poll_ask_inv poll_settle_inv)
qed

text \<open>
  C31: However many browsers ask, the dashboard has at most one request to the controller under way and makes two requests of
  one kind at least two seconds apart; what it serves from its caches is an answer to the same question that is younger
  than the interval and was received after the last failure.
\<close>

theorem polling_bounded:
  "length (po_open (poll_run interval as)) \<le> 1 \<and> spaced (po_attempts (poll_run interval as)) \<and> list_all (fresh interval) (po_served (poll_run interval as))"
proof -
  have "poll_inv interval start_polling"
    by (simp add: poll_inv_def start_polling_def new_poller_def spaced_def attempts_before_def)
  from dashboard_polls.ops_keep [OF this, of as] have "poll_inv interval (poll_run interval as)" by (simp add: poll_run_def)
  then show ?thesis by (simp add: poll_inv_def)
qed

end
