(* ===== verification/TuiSafety.thy ===== *)
theory TuiSafety
  imports Tui
begin

text \<open>
  What the terminal view promises: log text cannot reach the terminal as anything but printable cells inside
  the window, the rows account for every event of the tab, the keys are exactly the keys typed, and no input
  drives the editor, the tabs or the searches out of their bounds.
\<close>

section \<open>Text without control runes\<close>

definition printable :: "string \<Rightarrow> bool" where
  "printable s = (utf8_Valid s \<and> list_all (\<lambda>r. \<not> IsControl r) (runes s))"

definition text_width :: "tui_env \<Rightarrow> string \<Rightarrow> int" where
  "text_width E s = sum_list (map (cells E) (runes s))"

definition console_chunk :: "nat \<times> string \<times> bool \<Rightarrow> nat \<times> string \<times> bool" where
  "console_chunk c = (case c of (r, b, v) \<Rightarrow>
     if IsControl r then (32, '' '', True) else if v then c else (RuneError, replacement, True))"

lemma solid_space: "solid (32, '' '', True)"
  using solid_ascii [of "CHR '' ''"] by (simp add: byte_def)

lemma console_chunk_solid: "c \<in> set (rune_chunks s) \<Longrightarrow> solid (console_chunk c) \<and> \<not> IsControl (fst (console_chunk c))"
  using rune_chunks_valid [of c s] solid_space solid_replacement
  by (auto simp: console_chunk_def IsControl_def RuneError_def split: prod.splits)

lemma runes_Console_chunks:
  "rune_chunks (Console s) = map console_chunk (rune_chunks (ReplaceAll ansi (\<lambda>_. []) s))"
proof -
  let ?cs = "rune_chunks (ReplaceAll ansi (\<lambda>_. []) s)"
  have "Console s = unchunk (map console_chunk ?cs)"
    unfolding Console_def unchunk_def map_map by (rule arg_cong [where f = concat]) (auto simp: console_chunk_def)
  moreover have "list_all solid (map console_chunk ?cs)" by (auto simp: list_all_iff console_chunk_solid)
  ultimately show ?thesis by (simp add: rune_chunks_solid)
qed

lemma Console_no_control: "list_all (\<lambda>r. \<not> IsControl r) (runes (Console s))"
  by (auto simp: runes_def runes_Console_chunks list_all_iff console_chunk_solid)

lemma fit_loop_set: "set (fit_loop E n u rs) \<subseteq> set rs"
  by (induction E n u rs rule: fit_loop.induct) (auto simp: Let_def)

lemma fit_loop_width: "u \<le> n \<Longrightarrow> u + sum_list (map (cells E) (fit_loop E n u rs)) \<le> n"
  by (induction E n u rs rule: fit_loop.induct) (auto simp: Let_def)

lemma runes_fit: "runes (fit E s n) = fit_loop E n 0 (runes (Console s))"
proof -
  have "list_all scalar (fit_loop E n 0 (runes (Console s)))"
    using fit_loop_set [of E n 0 "runes (Console s)"] runes_scalar [of "Console s"] by (auto simp: list_all_iff)
  then show ?thesis by (simp add: fit_def runes_string_of_runes)
qed

lemma fit_printable: "printable (fit E s n)"
proof -
  have "list_all scalar (fit_loop E n 0 (runes (Console s)))"
    using fit_loop_set [of E n 0 "runes (Console s)"] runes_scalar [of "Console s"] by (auto simp: list_all_iff)
  then have "utf8_Valid (fit E s n)" by (simp add: fit_def string_of_runes_valid)
  moreover have "list_all (\<lambda>r. \<not> IsControl r) (runes (fit E s n))"
    using fit_loop_set [of E n 0 "runes (Console s)"] Console_no_control [of s] by (auto simp: runes_fit list_all_iff)
  ultimately show ?thesis by (simp add: printable_def)
qed

lemma fit_width: "0 \<le> n \<Longrightarrow> text_width E (fit E s n) \<le> n"
  using fit_loop_width [of 0 n E "runes (Console s)"] by (simp add: text_width_def runes_fit)

section \<open>Frames\<close>

lemma length_head_lines: "length (head_lines E m) = 5"
  by (simp add: head_lines_def)

lemma length_body_lines: "1 \<le> height \<Longrightarrow> length (body_lines E w height m) \<le> nat height"
  by (auto simp: body_lines_def Let_def split: option.splits)

lemma length_frame_lines: "8 \<le> h \<Longrightarrow> length (frame_lines E w h m) = nat h"
  using length_body_lines [of "h - 7" E w m]
  by (simp add: frame_lines_def pad_lines_def length_head_lines)

text \<open>
  C17: A frame is the cursor-home sequence and exactly the lines of the window, each cleared first and separated by CR LF;
  whatever the logs, the summary, the query and the messages contain, every line is valid UTF-8 without a control
  rune and fits the window, so evidence can neither move the cursor nor send an escape sequence to the terminal.
\<close>

theorem render_confined:
  "\<exists>ls. fst (Render E w h m) = esc ''[H'' @ Join (map (\<lambda>l. esc ''[2K'' @ l) ls) [CHR 0x0D, CHR 0x0A] \<and>
     length ls = nat (max 8 h) \<and> list_all (\<lambda>l. printable l \<and> text_width E l \<le> max 20 w - 1) ls"
proof -
  define ls where "ls = map (\<lambda>l. fit E l (max 20 w - 1)) (frame_lines E (max 20 w) (max 8 h) (settle_view E (max 20 w) (max 8 h - 7) m))"
  have "fst (Render E w h m) = esc ''[H'' @ Join (map (\<lambda>l. esc ''[2K'' @ l) ls) [CHR 0x0D, CHR 0x0A]"
    by (simp add: Render_def Let_def paint_def ls_def comp_def length_frame_lines)
  moreover have "length ls = nat (max 8 h)" by (simp add: ls_def length_frame_lines)
  moreover have "list_all (\<lambda>l. printable l \<and> text_width E l \<le> max 20 w - 1) ls"
    using fit_width [of "max 20 w - 1" E] by (simp add: ls_def list_all_iff fit_printable) 
  ultimately show ?thesis by blast
qed

text \<open>The positions of the view are in range once it has been drawn.\<close>

lemma render_in_range:
  assumes "snd (Render E w h m) = m'"
  shows "0 \<le> md_Selected m' \<and> (Rows (te_std E) m \<noteq> [] \<longrightarrow> md_Selected m' < int (length (Rows (te_std E) m)))"
  using assms by (auto simp: Render_def Let_def settle_view_def split: option.splits if_splits)

section \<open>Rows\<close>

text \<open>The loop's map points at the row of every key seen.\<close>

definition rows_hold :: "std \<Rightarrow> event list \<Rightarrow> row list \<times> (string, nat) gomap \<Rightarrow> bool" where
  "rows_hold S es st = (case st of (out, index) \<Rightarrow>
     distinct (map (row_key S \<circ> rw_Event) out) \<and> set (map (row_key S \<circ> rw_Event) out) = set (map (row_key S) es) \<and>
     (\<forall>k i. mget index k = Some i \<longleftrightarrow> i < length out \<and> row_key S (rw_Event (out ! i)) = k) \<and>
     list_all (\<lambda>r. rw_IDs r = map ev_ID (filter (\<lambda>e. row_key S e = row_key S (rw_Event r)) es) \<and>
       rw_Count r = length (rw_IDs r)) out)"

lemma rows_hold_old:
  assumes h: "rows_hold S es (out, index)" and i: "mget index (row_key S e) = Some i"
  shows "rows_hold S (es @ [e]) (out[i := count_row e (out ! i)], index)"
proof -
  from h i have i': "i < length out" "row_key S (rw_Event (out ! i)) = row_key S e" by (auto simp: rows_hold_def)
  have keys: "map (row_key S \<circ> rw_Event) (out[i := count_row e (out ! i)]) = map (row_key S \<circ> rw_Event) out"
    by (rule nth_equalityI) (auto simp: nth_list_update count_row_def i')
  have ev: "rw_Event (out[i := count_row e (out ! i)] ! j) = rw_Event (out ! j)" if "j < length out" for j
    using that by (cases "j = i") (simp_all add: count_row_def)
  have other: "row_key S (rw_Event (out ! j)) \<noteq> row_key S e" if "j < length out" "j \<noteq> i" for j
  proof -
    from h have "distinct (map (row_key S \<circ> rw_Event) out)" by (simp add: rows_hold_def)
    from nth_eq_iff_index_eq [OF this, of j i] that i' show ?thesis by auto
  qed
  have mem: "row_key S e \<in> set (map (row_key S \<circ> rw_Event) out)" using i' by (metis comp_apply length_map nth_map nth_mem)
  have each: "rw_IDs r = map ev_ID (filter (\<lambda>x. row_key S x = row_key S (rw_Event r)) (es @ [e])) \<and> rw_Count r = length (rw_IDs r)"
    if r: "r \<in> set (out[i := count_row e (out ! i)])" for r
  proof -
    from r obtain j where j: "j < length out" "r = out[i := count_row e (out ! i)] ! j" by (auto simp: in_set_conv_nth)
    from h have old: "rw_IDs (out ! j) = map ev_ID (filter (\<lambda>x. row_key S x = row_key S (rw_Event (out ! j))) es)"
      "rw_Count (out ! j) = length (rw_IDs (out ! j))"
      using j(1) by (simp_all add: rows_hold_def list_all_iff)
    show ?thesis
    proof (cases "j = i")
      case True
      with j old i' show ?thesis by (simp add: count_row_def)
    next
      case False
      with j old other [OF j(1) False] show ?thesis by simp
    qed
  qed
  from h have h': "distinct (map (row_key S \<circ> rw_Event) out)" "set (map (row_key S \<circ> rw_Event) out) = set (map (row_key S) es)"
    "\<forall>k i. mget index k = Some i \<longleftrightarrow> i < length out \<and> row_key S (rw_Event (out ! i)) = k"
    by (simp_all add: rows_hold_def)
  show ?thesis unfolding rows_hold_def prod.case keys
  proof (intro conjI)
    show "set (map (row_key S \<circ> rw_Event) out) = set (map (row_key S) (es @ [e]))" using h'(2) mem by (simp add: insert_absorb)
    show "\<forall>k j. mget index k = Some j \<longleftrightarrow> j < length (out[i := count_row e (out ! i)]) \<and>
        row_key S (rw_Event (out[i := count_row e (out ! i)] ! j)) = k"
      using h'(3) by (metis ev length_list_update)
  qed (use h'(1) each in \<open>auto simp: list_all_iff\<close>)
qed

lemma rows_hold_new:
  assumes h: "rows_hold S es (out, index)" and i: "mget index (row_key S e) = None"
  shows "rows_hold S (es @ [e]) (out @ [new_row e], mput (row_key S e) (length out) index)"
proof -
  have new: "row_key S (rw_Event (out ! j)) \<noteq> row_key S e" if "j < length out" for j
  proof
    assume "row_key S (rw_Event (out ! j)) = row_key S e"
    with h that have "mget index (row_key S e) = Some j" by (simp add: rows_hold_def)
    with i show False by simp
  qed
  have old: "row_key S e \<noteq> row_key S (rw_Event r)" if "r \<in> set out" for r
    using that new by (metis in_set_conv_nth)
  then have fresh: "row_key S e \<notin> set (map (row_key S \<circ> rw_Event) out)" by auto
  with h have "row_key S e \<notin> row_key S ` set es" by (simp add: rows_hold_def)
  then have none: "filter (\<lambda>x. row_key S x = row_key S e) es = []" unfolding filter_empty_conv by (metis image_eqI)
  from h have h': "distinct (map (row_key S \<circ> rw_Event) out)" "set (map (row_key S \<circ> rw_Event) out) = set (map (row_key S) es)"
    "\<And>k j. mget index k = Some j \<longleftrightarrow> j < length out \<and> row_key S (rw_Event (out ! j)) = k"
    "\<And>r. r \<in> set out \<Longrightarrow> rw_IDs r = map ev_ID (filter (\<lambda>e. row_key S e = row_key S (rw_Event r)) es) \<and> rw_Count r = length (rw_IDs r)"
    by (simp_all add: rows_hold_def list_all_iff)
  show ?thesis unfolding rows_hold_def prod.case
  proof (intro conjI allI)
    show "distinct (map (row_key S \<circ> rw_Event) (out @ [new_row e]))" using h'(1) fresh by (simp add: new_row_def)
    show "set (map (row_key S \<circ> rw_Event) (out @ [new_row e])) = set (map (row_key S) (es @ [e]))"
      using h'(2) by (simp add: new_row_def)
    show "mget (mput (row_key S e) (length out) index) k = Some j \<longleftrightarrow>
        j < length (out @ [new_row e]) \<and> row_key S (rw_Event ((out @ [new_row e]) ! j)) = k" for k j
      using h'(3) [of k j] new [of j] by (auto simp: nth_append new_row_def less_Suc_eq)
    show "list_all (\<lambda>r. rw_IDs r = map ev_ID (filter (\<lambda>x. row_key S x = row_key S (rw_Event r)) (es @ [e])) \<and>
        rw_Count r = length (rw_IDs r)) (out @ [new_row e])"
      using h'(4) none old by (simp add: list_all_iff new_row_def)
  qed
qed

lemma rows_hold_fold:
  assumes "rows_hold S es st" and "list_all (in_tab tab) es'"
  shows "rows_hold S (es @ es') (foldl (add_row S True tab) st es')"
  using assms
proof (induction es' arbitrary: es st)
  case (Cons e es')
  obtain out index where st: "st = (out, index)" by (cases st)
  have "rows_hold S (es @ [e]) (add_row S True tab st e)"
    using Cons.prems rows_hold_old [of S es out index e] rows_hold_new [of S es out index e]
    by (cases "mget index (row_key S e)") (simp_all add: st add_row_def)
  from Cons.IH [OF this] Cons.prems(2) show ?case by simp
qed simp

lemma add_row_outside: "foldl (add_row S g tab) st es = foldl (add_row S g tab) st (filter (in_tab tab) es)"
  by (induction es arbitrary: st) (auto simp: add_row_def split: prod.splits)

lemma add_row_ungrouped:
  "list_all (in_tab tab) es \<Longrightarrow> foldl (add_row S False tab) (out, index) es = (out @ map new_row es, index)"
  by (induction es arbitrary: out) (auto simp: add_row_def)

text \<open>
  The rows of a tab account for its events exactly: ungrouped there is one row per event of the tab in their order;
  grouped there is one row per distinct evidence and verdict, and it lists, in order, the identity of every
  event with that evidence and verdict and counts them.
\<close>

theorem rows_exact:
  "let es = filter (in_tab (md_Tab m)) (tui_events m); rows = Rows S m in
   if md_Grouped m
   then distinct (map (row_key S \<circ> rw_Event) rows) \<and> set (map (row_key S \<circ> rw_Event) rows) = set (map (row_key S) es) \<and>
     list_all (\<lambda>r. rw_IDs r = map ev_ID (filter (\<lambda>e. row_key S e = row_key S (rw_Event r)) es) \<and>
       rw_Count r = length (rw_IDs r)) rows
   else rows = map new_row es"
proof (cases "md_Grouped m")
  case True
  let ?es = "filter (in_tab (md_Tab m)) (tui_events m)"
  have "rows_hold S ([] @ ?es) (foldl (add_row S True (md_Tab m)) ([], []) ?es)"
    by (rule rows_hold_fold) (auto simp: rows_hold_def list_all_iff)
  with True show ?thesis
    by (simp add: Rows_def add_row_outside [of S True _ _ "tui_events m"] rows_hold_def split: prod.splits)
next
  case False
  have "foldl (add_row S False (md_Tab m)) ([], []) (filter (in_tab (md_Tab m)) (tui_events m)) =
      ([] @ map new_row (filter (in_tab (md_Tab m)) (tui_events m)), [])"
    by (rule add_row_ungrouped) (simp add: list_all_iff)
  with False show ?thesis by (simp add: Rows_def add_row_outside [of S False _ _ "tui_events m"])
qed

section \<open>The selection survives an update\<close>

lemma find_row_Some: "find_row i rows = Some n \<Longrightarrow> n < length rows \<and> i \<in> set (rw_IDs (rows ! n))"
  by (auto simp: find_row_def Let_def split: if_splits dest: nth_length_takeWhile)

lemma find_row_None: "find_row i rows = None \<Longrightarrow> r \<in> set rows \<Longrightarrow> i \<notin> set (rw_IDs r)"
  by (auto simp: find_row_def Let_def split: if_splits) (metis length_takeWhile_le nat_less_le not_le takeWhile_eq_all_conv takeWhile_eq_take take_all_iff)

lemma Rows_Selected [simp]: "Rows S (m\<lparr>md_Selected := i\<rparr>) = Rows S m"
  by (simp add: Rows_def tui_events_def)

lemma update_keeps_selection:
  assumes "selected_id S m = i" and "i \<noteq> []" and "m' = tui_Update S v m" and "r \<in> set (Rows S m')" and "i \<in> set (rw_IDs r)"
  shows "0 \<le> md_Selected m' \<and> md_Selected m' < int (length (Rows S m')) \<and> i \<in> set (rw_IDs (Rows S m' ! nat (md_Selected m')))"
  using assms by (auto simp: tui_Update_def Let_def dest: find_row_None find_row_Some split: option.splits)

section \<open>Whatever is typed\<close>

text \<open>A key that is not an escape sequence is one rune.\<close>

lemma one_rune: "k \<noteq> [] \<Longrightarrow> snd (DecodeRune k) = length k \<Longrightarrow> length (runes k) = 1"
  by (cases "DecodeRune k") (simp add: runes_def rune_chunks.simps [of k])

lemma nextKey_one_rune:
  assumes k: "nextKey s = Some (k, t)" and esc: "\<not> HasPrefix k (esc [])"
  shows "length (runes k) = 1"
proof -
  from k have ne: "s \<noteq> []" by (auto simp: nextKey_def)
  then obtain c s' where s: "s = c # s'" by (cases s) auto
  from nextKey_split [OF k] s obtain k' where "k = c # k'" by (cases k) auto
  with esc have "c \<noteq> CHR 0x1B" by (auto simp: HasPrefix_def esc_def)
  moreover have "c = CHR 0x1B" if "byte c = 27"
  proof -
    have "c = char_of (byte c)" by (simp add: byte_def)
    also have "\<dots> = CHR 0x1B" unfolding that by code_simp
    finally show ?thesis .
  qed
  moreover have "s ! 0 = c" using s by simp
  ultimately have first: "byte (s ! 0) \<noteq> 27" by metis
  have kt: "k = take (snd (DecodeRune s)) s"
    using k unfolding nextKey_def Let_def if_not_P [OF ne] if_P [OF first] by (simp split: if_splits)
  obtain r w where d: "DecodeRune s = (r, w)" by (cases "DecodeRune s")
  show ?thesis
  proof (cases "r = RuneError \<and> w = 1")
    case True
    with kt d s have k1: "k = [c]" by simp
    then have "snd (DecodeRune k) = length k" using DecodeRune_width [of k] by simp
    with k1 show ?thesis by (intro one_rune) simp_all
  next
    case False
    have "k = take w s" using kt d by simp
    with DecodeRune_prefix [OF d ne False, of "[]"] have "DecodeRune k = (r, w)" "length k = w" by simp_all
    moreover have "k \<noteq> []" using nextKey_split [OF k] by blast
    ultimately show ?thesis by (intro one_rune) simp_all
  qed
qed

definition query_ok :: "tui \<Rightarrow> bool" where
  "query_ok m = (length (runes (md_Query m)) \<le> 500 \<and> 0 \<le> md_Tab m \<and> md_Tab m < 5 \<and> md_SearchBudget m \<in> {4, 16, 64})"

lemma edit_runes_bound:
  assumes "edit_runes k q c = (q', c')" and "length q \<le> 500" and "list_all scalar q"
    and "HasPrefix k (esc []) \<or> length (runes k) = 1"
  shows "length q' \<le> 500 \<and> list_all scalar q'"
proof -
  have "list_all scalar (take n q)" "list_all scalar (drop n q)" for n
    using assms(3) by (auto simp: list_all_iff dest: in_set_takeD in_set_dropD)
  with assms runes_scalar [of k] show ?thesis by (auto simp: edit_runes_def split: if_splits)
qed

lemma edit_key_query_ok:
  assumes "query_ok m" and "HasPrefix k (esc []) \<or> length (runes k) = 1"
  shows "query_ok (fst (edit_key k m))"
proof -
  have same: "runes (string_of_runes (runes s)) = runes s" for s by (rule runes_string_of_runes [OF runes_scalar])
  obtain q c where e: "edit_runes k (runes (md_Query m)) (clamp 0 (int (length (runes (md_Query m)))) (md_Cursor m)) = (q, c)"
    by (cases "edit_runes k (runes (md_Query m)) (clamp 0 (int (length (runes (md_Query m)))) (md_Cursor m))")
  with assms have q: "length q \<le> 500 \<and> list_all scalar q" by (intro edit_runes_bound [OF e]) (simp_all add: query_ok_def runes_scalar)
  then have "runes (string_of_runes q) = q" by (intro runes_string_of_runes) simp
  with q assms(1) e show ?thesis by (simp add: edit_key_def Let_def query_ok_def same next_budget_def)
qed

lemma freezeDetail_query_ok: "query_ok (freezeDetail S m) = query_ok m"
  by (simp add: freezeDetail_def query_ok_def Let_def)

lemma browse_key_query_ok:
  assumes "query_ok m"
  shows "query_ok (browse_key S k m)"
proof -
  have t: "0 \<le> (md_Tab m + 1) mod 5" "(md_Tab m + 1) mod 5 < 5" "0 \<le> (md_Tab m + 4) mod 5" "(md_Tab m + 4) mod 5 < 5" by simp_all
  have d: "k \<in> {''1'', ''2'', ''3'', ''4'', ''5''} \<Longrightarrow> 49 \<le> byte (k ! 0) \<and> byte (k ! 0) < 54" by (auto simp: byte_def)
  have f: "query_ok (freezeDetail S m')" if "query_ok m'" for m' using that by (simp add: freezeDetail_query_ok)
  have up: "query_ok (move_up n m)" "query_ok (move_down n m)" for n
    using assms by (simp_all add: move_up_def move_down_def query_ok_def)
  have go: "0 \<le> i \<Longrightarrow> i < 5 \<Longrightarrow> query_ok (go_tab i m)" for i using assms by (simp add: go_tab_def query_ok_def)
  have enter: "query_ok (m'\<lparr>md_DetailScroll := 0\<rparr>)" "query_ok (m'\<lparr>md_Detail := b\<rparr>)" "query_ok (m'\<lparr>md_Instances := b\<rparr>)"
    "query_ok (m'\<lparr>md_Detail := b, md_Instances := b'\<rparr>)" if "query_ok m'" for m' b b' using that by (simp_all add: query_ok_def)
  note dist = if_distrib [where f = query_ok]
  have other: "query_ok (m\<lparr>md_Detail := False, md_Instances := False\<rparr>)" "query_ok (m\<lparr>md_Selected := i, md_DetailScroll := i'\<rparr>)"
    "query_ok (m\<lparr>md_Grouped := b, md_Selected := i\<rparr>)" "query_ok (m\<lparr>md_Query := [], md_Cursor := i, md_Editing := ed\<rparr>)" for i i' b ed
    using assms by (simp_all add: query_ok_def runes_def)
  show ?thesis unfolding browse_key_def Let_def dist using assms d t
    by (simp add: f up go enter other)
qed

lemma key_keeps_query_ok:
  assumes "query_ok m" and "HasPrefix k (esc []) \<or> length (runes k) = 1"
  shows "query_ok (fst (tui_Key S k m))"
  using edit_key_query_ok [OF assms] browse_key_query_ok [OF assms(1)] assms(1) by (simp add: tui_Key_def)

section \<open>The loop over the keys\<close>

text \<open>Every search but the one \<open>stopSearch\<close> belongs to has been cancelled, and the view shows a started one.\<close>

definition searches_ok :: "'c tui_run \<Rightarrow> bool" where
  "searches_ok u = (list_all (\<lambda>i. ui_stop u = Some i \<or> i \<in> set (ui_stopped u)) [0..<length (ui_runs u)] \<and>
     list_all (\<lambda>(r, c). rn_budget r \<in> {4, 16, 64}) (ui_runs u) \<and>
     (case ui_stop u of None \<Rightarrow> ui_runs u = [] | Some i \<Rightarrow> i + 1 = length (ui_runs u)))"

definition ui_ok :: "'c tui_run \<Rightarrow> bool" where
  "ui_ok u = (query_ok (ui_view u) \<and> searches_ok u)"

lemma searches_ok_view [simp]: "searches_ok (u\<lparr>ui_view := m\<rparr>) = searches_ok u"
  by (simp add: searches_ok_def split: option.splits)

lemma searches_ok_stop: "searches_ok u \<Longrightarrow> searches_ok (stop_search u)"
  by (auto simp: searches_ok_def stop_search_def list_all_iff split: option.splits)

lemma stop_search_all: "searches_ok u \<Longrightarrow> list_all (\<lambda>i. i \<in> set (ui_stopped (stop_search u))) [0..<length (ui_runs u)]"
  by (auto simp: searches_ok_def stop_search_def list_all_iff split: option.splits)

lemma ui_ok_say: "ui_ok u \<Longrightarrow> ui_ok (say t u)"
  by (simp add: ui_ok_def say_def query_ok_def)

lemma ui_ok_start:
  assumes "query_ok (ui_view u)" and "list_all (\<lambda>i. i \<in> set (ui_stopped u)) [0..<length (ui_runs u)]"
    and "list_all (\<lambda>(r, c). rn_budget r \<in> {4, 16, 64}) (ui_runs u)" and "rn_budget r \<in> {4, 16, 64}"
  shows "ui_ok (start_search r c u)"
  using assms by (auto simp: ui_ok_def start_search_def query_ok_def searches_ok_def list_all_iff less_Suc_eq)

lemma Search_New_budget: "Search_New S now es q mode b c = Inr r \<Longrightarrow> rn_budget r = nat b"
  by (auto simp: Search_New_def Let_def split: if_splits)

lemma submit_keeps_ok:
  assumes ok: "ui_ok u"
  shows "ui_ok (submit_search S now O' u)"
proof -
  define v where "v = (stop_search u)\<lparr>ui_view := (ui_view (stop_search u))\<lparr>md_Editing := []\<rparr>\<rparr>"
  have view: "ui_view (stop_search u) = ui_view u" "ui_runs (stop_search u) = ui_runs u"
    by (simp_all add: stop_search_def split: option.splits)
  from ok have vo: "ui_ok v" by (simp add: ui_ok_def v_def view query_ok_def searches_ok_stop)
  have all: "list_all (\<lambda>i. i \<in> set (ui_stopped v)) [0..<length (ui_runs v)]"
    using ok stop_search_all [of u] by (simp add: v_def view ui_ok_def)
  have start: "ui_ok (start_search r c v)" if "Search_New S now es q mode (md_SearchBudget (ui_view v)) ca = Inr r" for r c es q mode ca
    using that vo all by (intro ui_ok_start) (auto simp: ui_ok_def searches_ok_def query_ok_def dest!: Search_New_budget)
  show ?thesis unfolding submit_search_def Let_def v_def [symmetric]
    using vo by (auto simp: ui_ok_say start split: sum.splits option.splits if_splits)
qed

lemma mouse_key_ok: "query_ok m \<Longrightarrow> query_ok (mouse_key S k m)"
proof -
  assume m: "query_ok m"
  have "length (runes (show_nat (i + 1))) = 1" if "tab_at x t 1 0 tabs = Some i" for i x t
  proof -
    from that have "i \<in> {0, 1, 2, 3, 4}" by (auto simp: tabs_def Let_def split: if_splits)
    moreover have "list_all (\<lambda>i. length (runes (show_nat (i + 1))) = 1) [0, 1, 2, 3, 4]" by code_simp
    ultimately show ?thesis by auto
  qed
  moreover have "length (runes ''k'') = 1" "length (runes ''j'') = 1" by code_simp+
  moreover have "query_ok (m\<lparr>md_Selected := i\<rparr>)" for i using m by (simp add: query_ok_def)
  ultimately show ?thesis using m
    by (auto simp: mouse_key_def key_keeps_query_ok split: prod.splits option.splits)
qed

lemma press_keeps_ok:
  assumes "ui_ok u" and "HasPrefix k (esc []) \<or> length (runes k) = 1"
  shows "ui_ok (fst (press S now O' k u))"
proof -
  obtain m q s where k: "tui_Key S k (ui_view u) = (m, q, s)" by (cases "tui_Key S k (ui_view u)")
  with key_keeps_query_ok [of "ui_view u" k S] assms have "query_ok m" by (simp add: ui_ok_def)
  then have "ui_ok (u\<lparr>ui_view := m\<rparr>)" using assms(1) by (simp add: ui_ok_def)
  moreover have "ui_ok (u\<lparr>ui_view := mouse_key S k (ui_view u)\<rparr>)" using assms(1) by (simp add: ui_ok_def mouse_key_ok)
  moreover have "ui_ok (stop_search u)"
    using assms(1) by (auto simp: ui_ok_def searches_ok_stop) (simp add: stop_search_def split: option.splits)
  ultimately show ?thesis using assms(1) k by (simp add: press_def Let_def submit_keeps_ok ui_ok_say)
qed

lemma drain_keeps_ok: "ui_ok u \<Longrightarrow> ui_ok (fst (snd (drain_keys S now O' late n pending u)))"
proof (induction S now O' late n pending u rule: drain_keys.induct)
  case (1 S now O' late n pending u)
  show ?case
  proof (cases "pending = []")
    case True
    with 1 show ?thesis by (simp add: drain_keys.simps [of S now O' late n "[]"])
  next
    case False
    show ?thesis
    proof (cases "nextKey pending")
      case None
      have ok: "ui_ok (fst (press S (now n) O' (esc []) u))"
        using 1(3) by (rule press_keeps_ok) (simp add: HasPrefix_def esc_def)
      obtain u' p where p: "press S (now n) O' (esc []) u = (u', p)" by (cases "press S (now n) O' (esc []) u")
      with 1 None False ok show ?thesis
        by (cases p) (auto simp: drain_keys.simps [of S now O' late n pending])
    next
      case (Some kt)
      obtain key rest where kt: "kt = (key, rest)" by (cases kt)
      have ok: "ui_ok (fst (press S (now n) O' key u))"
        using 1(3) nextKey_one_rune [of pending key rest] Some kt by (intro press_keeps_ok) auto
      obtain u' p where p: "press S (now n) O' key u = (u', p)" by (cases "press S (now n) O' key u")
      with 1 Some kt False ok show ?thesis
        by (cases p) (auto simp: drain_keys.simps [of S now O' late n pending])
    qed
  qed
qed

lemma query_ok_cong: "md_Query m = md_Query m' \<Longrightarrow> md_Tab m = md_Tab m' \<Longrightarrow> md_SearchBudget m = md_SearchBudget m' \<Longrightarrow> query_ok m = query_ok m'"
  by (simp add: query_ok_def)

lemma receive_query_ok: "query_ok (receive S r m) = query_ok m"
  by (rule query_ok_cong) (simp_all add: receive_def tui_Update_def Let_def split: received.splits option.splits)

lemma refreshSearch_query_ok: "query_ok (refreshSearch E now looks m) = query_ok m"
  by (rule query_ok_cong) (simp_all add: refreshSearch_def Let_def split: option.splits)

lemma Render_query_ok: "query_ok (snd (Render E w h m)) = query_ok m"
  by (rule query_ok_cong) (simp_all add: Render_def settle_view_def Let_def split: option.splits)

lemma round_keeps_ok:
  assumes "ui_ok u"
  shows "ui_ok (fst (snd (snd (tui_round E O' inp pending u))))"
proof -
  have "query_ok (ui_view u)" "searches_ok u" using assms by (simp_all add: ui_ok_def)
  then have painted: "ui_ok (u\<lparr>ui_view := m'\<rparr>)"
    if "Render E w h (refreshSearch E now looks (receive S r (ui_view u))) = (out, m')" for w h now looks S r out m'
    using Render_query_ok [of E w h "refreshSearch E now looks (receive S r (ui_view u))"] that
    by (simp add: ui_ok_def refreshSearch_query_ok receive_query_ok)
  show ?thesis
    by (cases "ri_size inp") (auto simp: tui_round_def tui_frame_def Let_def assms split: prod.splits dest!: painted intro: drain_keeps_ok)
qed

lemma rounds_keep_ok: "ui_ok u \<Longrightarrow> ui_ok (fst (snd (tui_rounds E O' inps pending u)))"
proof (induction inps arbitrary: pending u)
  case (Cons inp inps)
  obtain out pending' u' p where r: "tui_round E O' inp pending u = (out, pending', u', p)"
    by (cases "tui_round E O' inp pending u")
  with round_keeps_ok [OF Cons.prems, of E O' inp pending] have "ui_ok u'" by simp
  with Cons.IH [of u' pending'] r show ?case by (cases p) (auto split: prod.splits)
qed simp

definition fresh_ui :: "'c tui_run" where
  "fresh_ui = \<lparr>ui_view = tui_New, ui_stop = None, ui_stopped = [], ui_runs = []\<rparr>"

text \<open>
  Whatever bytes arrive from the terminal, in whatever chunks and with whatever delays, interleaved with whatever
  updates, the view stays within its bounds: the tab is one of the five, the query has at most 500 runes, a search is
  started with a budget of 4, 16 or 64 batches only, and every search but the latest has been cancelled, so no two
  searches spend money at once.
\<close>

theorem terminal_session_bounded:
  "ui_ok (fst (snd (tui_rounds E O' inps [] fresh_ui)))"
  by (rule rounds_keep_ok) (simp add: ui_ok_def fresh_ui_def query_ok_def tui_New_def searches_ok_def runes_def)



section \<open>Editing\<close>

text \<open>Typing a printable rune and erasing it again leaves the view as it was.\<close>

lemma type_then_erase:
  assumes ed: "md_Editing m \<noteq> []" and q: "string_of_runes (runes (md_Query m)) = md_Query m"
    and c: "0 \<le> md_Cursor m" "md_Cursor m \<le> int (length (runes (md_Query m)))" and room: "length (runes (md_Query m)) < 500"
    and k: "runes k = [r]" "\<not> HasPrefix k (esc [])" "'' '' \<le> k" "k \<notin> {ctrl 127, ctrl 8}"
  shows "fst (tui_Key S (ctrl 127) (fst (tui_Key S k m))) = m"
proof -
  define n where "n = nat (md_Cursor m)"
  have n: "md_Cursor m = int n" "n \<le> length (runes (md_Query m))" using c by (simp_all add: n_def)
  have ctrl_low: "\<not> '' '' \<le> ctrl 21" "\<not> '' '' \<le> ctrl 13" "\<not> '' '' \<le> ctrl 10" "\<not> '' '' \<le> ctrl 3" "\<not> '' '' \<le> ctrl 9" "\<not> '' '' \<le> ctrl 2"
    by code_simp+
  with k(3) have ks: "k \<noteq> ctrl 21" "k \<noteq> ctrl 13" "k \<noteq> ctrl 10" "k \<noteq> ctrl 3" "k \<noteq> ctrl 9" "k \<noteq> ctrl 2" by metis+
  from k(2) have ke: "k \<noteq> esc []" "k \<noteq> csi s" for s by (auto simp: HasPrefix_def esc_def csi_def)
  define q' where "q' = take n (runes (md_Query m)) @ r # drop n (runes (md_Query m))"
  have typed: "fst (tui_Key S k m) = m\<lparr>md_Cursor := int n + 1, md_Query := string_of_runes q'\<rparr>"
    using ed n room k ks ke by (simp add: tui_Key_def edit_key_def edit_runes_def Let_def clamp_def q'_def)
  have "scalar r" using runes_scalar [of k] k(1) by simp
  then have "list_all scalar q'" using runes_scalar [of "md_Query m"]
    by (auto simp: q'_def list_all_iff dest: in_set_takeD in_set_dropD)
  then have rq: "runes (string_of_runes q') = q'" by (rule runes_string_of_runes)
  have lq: "length q' = length (runes (md_Query m)) + 1" using n by (simp add: q'_def)
  have undo: "take n q' @ drop (Suc n) q' = runes (md_Query m)" using n by (simp add: q'_def)
  have del: "ctrl 127 \<noteq> esc []" "ctrl 127 \<noteq> ctrl 2" "ctrl 127 \<noteq> ctrl 3" "ctrl 127 \<noteq> ctrl 9" "ctrl 127 \<noteq> ctrl 10"
    "ctrl 127 \<noteq> ctrl 13" "ctrl 127 \<noteq> ctrl 21" by code_simp+
  have del_csi: "ctrl 127 \<noteq> csi s" for s by (simp add: ctrl_def csi_def)
  have clamp: "clamp 0 (int (length q')) (int n + 1) = int n + 1" using n lq by (simp add: clamp_def)
  show ?thesis unfolding typed using ed rq lq undo del clamp q n
    by (simp add: tui_Key_def edit_key_def edit_runes_def Let_def del_csi nat_add_distrib)
qed

section \<open>What the view gets wrong\<close>

text \<open>
  With no row under the selection the detail key still opens the detail view, and it shows the row that was frozen
  last, which may belong to another tab.
\<close>

lemma detail_without_row_is_stale:
  assumes "md_Editing m = []" and "Rows S m = []" and "\<not> md_Detail m" and "md_FrozenDetail m = Some r"
  shows "let m' = fst (tui_Key S (ctrl 13) m) in md_Detail m' \<and> md_FrozenDetail m' = Some r"
proof -
  have "ctrl 13 \<noteq> esc []" "ctrl 13 \<noteq> ctrl 9" "ctrl 13 \<noteq> ctrl 3" by code_simp+
  moreover have "ctrl 13 \<noteq> csi s" for s by (simp add: ctrl_def csi_def)
  moreover have "ctrl 13 \<notin> {''q'', ''Q'', ''j'', ''k''}" "ctrl 13 \<notin> {''1'', ''2'', ''3'', ''4'', ''5''}" by code_simp+
  moreover have "Rows S (m\<lparr>md_Detail := True\<rparr>) = []" using assms(2) by (auto simp: Rows_def tui_events_def split: if_splits)
  ultimately show ?thesis using assms by (auto simp: tui_Key_def browse_key_def freezeDetail_def Let_def)
qed

text \<open>The mouse wheel is passed on as the key \<open>k\<close> or \<open>j\<close> while a query is edited too, where it is typed text.\<close>

lemma wheel_types_into_query:
  assumes "md_Editing m \<noteq> []" and "runes (md_Query m) = q" and "length q < 500" and "md_Cursor m = int (length q)"
  shows "md_Query (mouse_key S (csi ''<64;1;1M'') m) = string_of_runes (q @ [107])"
proof -
  have "scan_mouse (csi ''<64;1;1M'') = (64, 1, 1)" "HasSuffix (csi ''<64;1;1M'') ''M''" by code_simp+
  moreover have "runes ''k'' = [107]" "\<not> HasPrefix ''k'' (esc [])" "'' '' \<le> ''k''" by code_simp+
  moreover have "''k'' \<notin> {esc [], ctrl 13, ctrl 10, ctrl 3, ctrl 9, ctrl 2, ctrl 21, ctrl 127, ctrl 8}" by code_simp
  moreover have "''k'' \<noteq> csi s" for s by (simp add: csi_def)
  ultimately show ?thesis using assms by (simp add: mouse_key_def tui_Key_def edit_key_def edit_runes_def Let_def clamp_def)
qed

end
