(* ===== verification/Output.thy ===== *)
theory Output
  imports Steps "HOL-Library.Multiset"
begin

text \<open>
  \<open>internal/output/output.go\<close>: cancellable writes to the descriptors of the command, and the gates that give a file one
  writer at a time, whatever descriptors it is reached by.
\<close>

section \<open>One write\<close>

datatype errno = EINTR | EAGAIN | Errno goerror

definition errno_error :: "errno \<Rightarrow> goerror" where
  "errno_error e = (case e of EINTR \<Rightarrow> Err ''interrupted system call'' | EAGAIN \<Rightarrow> Err ''resource temporarily unavailable'' | Errno x \<Rightarrow> x)"

definition ErrShortWrite :: goerror where
  "ErrShortWrite = Err ''short write''"

text \<open>
  What the system answers in the rounds of the loop: the context, the write of so many bytes (what it took, and its error)
  and the poll.
\<close>

record kernel =
  kn_ctx :: "nat \<Rightarrow> status"
  kn_write :: "nat \<Rightarrow> nat \<Rightarrow> nat \<times> errno option"
  kn_poll :: "nat \<Rightarrow> errno option"

text \<open>One round of the loop: \<open>out\<close> is what the descriptor has taken; a finished write has its count, \<open>out\<close> and its error.\<close>

datatype round = Finished nat string status | Again nat string

definition write_round :: "kernel \<Rightarrow> nat \<Rightarrow> string \<Rightarrow> nat \<Rightarrow> string \<Rightarrow> round" where
  "write_round K k p n out =
     (if \<not> n < length p then Finished n out None
      else case kn_ctx K k of
        Some e \<Rightarrow> Finished n out (Some e)
      | None \<Rightarrow>
          (case kn_write K k (length p - n) of
             (got, e) \<Rightarrow>
               (let n1 = n + got; out1 = out @ take got (drop n p) in
                if e = Some EINTR then Again n1 out1
                else if e \<noteq> None \<and> e \<noteq> Some EAGAIN then Finished n1 out1 (map_option errno_error e)
                else if e = None \<and> got = 0 then Finished n1 out1 (Some ErrShortWrite)
                else if n1 = length p then Finished n1 out1 None
                else if kn_poll K k \<noteq> None \<and> kn_poll K k \<noteq> Some EINTR then Finished n1 out1 (map_option errno_error (kn_poll K k))
                else Again n1 out1)))"

primrec write_loop :: "nat \<Rightarrow> kernel \<Rightarrow> nat \<Rightarrow> string \<Rightarrow> nat \<Rightarrow> string \<Rightarrow> (nat \<times> string \<times> status) option" where
  "write_loop 0 K k p n out = None"
| "write_loop (Suc f) K k p n out = (case write_round K k p n out of
     Finished n' out' st \<Rightarrow> Some (n', out', st)
   | Again n' out' \<Rightarrow> write_loop f K (Suc k) p n' out')"

text \<open>
  The calls around the loop: the raw connection, ownership of the file, reading the flags of the descriptor, making it
  nonblocking and restoring them, and the error of \<open>Control\<close> itself.
\<close>

record file_calls =
  fc_conn :: status
  fc_own :: status
  fc_getfl :: status
  fc_setfl :: status
  fc_restore :: status
  fc_control :: status

text \<open>\<open>nonblocking\<close> is the flag of the descriptor, before and in the result.\<close>

definition write_file :: "nat \<Rightarrow> kernel \<Rightarrow> file_calls \<Rightarrow> bool \<Rightarrow> string \<Rightarrow> (nat \<times> string \<times> status \<times> bool) option" where
  "write_file f K C nonblocking p =
     (if fc_conn C \<noteq> None then Some (0, [], fc_conn C, nonblocking)
      else if fc_own C \<noteq> None then Some (0, [], fc_own C, nonblocking)
      else if fc_getfl C \<noteq> None then Some (0, [], fc_getfl C, nonblocking)
      else if fc_setfl C \<noteq> None then Some (0, [], fc_setfl C, nonblocking)
      else case write_loop f K 0 p 0 [] of
        None \<Rightarrow> None
      | Some (n, out, st) \<Rightarrow>
          (let st1 = (if st = None then fc_restore C else st) in
           Some (n, out, if st1 = None then fc_control C else st1, if fc_restore C = None then nonblocking else True)))"

text \<open>A writer of its own context, a library's writer with what it answers, or a file.\<close>

datatype sink = Contextual nat status | Library nat status | File kernel file_calls bool

definition checked_count :: "nat \<Rightarrow> status \<Rightarrow> string \<Rightarrow> nat \<times> status" where
  "checked_count n st p = (n, if st = None \<and> n \<noteq> length p then Some ErrShortWrite else st)"

definition output_Write :: "nat \<Rightarrow> status \<Rightarrow> sink \<Rightarrow> string \<Rightarrow> (nat \<times> status) option" where
  "output_Write f ctx w p =
     (if ctx \<noteq> None then Some (0, ctx)
      else case w of
        Contextual n st \<Rightarrow> Some (checked_count n st p)
      | Library n st \<Rightarrow> Some (checked_count n st p)
      | File K C fl \<Rightarrow> map_option (\<lambda>(n, out, st, fl'). (n, st)) (write_file f K C fl p))"

section \<open>What a write promises\<close>

text \<open>A write never takes more than it is offered.\<close>

definition kernel_ok :: "kernel \<Rightarrow> bool" where
  "kernel_ok K = (\<forall>k m. fst (kn_write K k m) \<le> m)"

lemma write_round_exact:
  assumes "kernel_ok K" "n \<le> length p"
  shows "case write_round K k p n (take n p) of
      Finished n' out' st \<Rightarrow> n' \<le> length p \<and> out' = take n' p \<and> (st = None \<longrightarrow> n' = length p)
    | Again n' out' \<Rightarrow> n' \<le> length p \<and> out' = take n' p"
proof -
  obtain got e where w: "kn_write K k (length p - n) = (got, e)" by fastforce
  with assms(1) have "got \<le> length p - n" unfolding kernel_ok_def by (metis fst_conv)
  then have "n + got \<le> length p" using assms(2) by linarith
  moreover have "take n p @ take got (drop n p) = take (n + got) p" by (simp add: take_add)
  ultimately show ?thesis using w assms(2) by (cases e) (simp_all add: write_round_def Let_def split: option.split)
qed

lemma write_loop_exact:
  assumes "kernel_ok K"
  shows "write_loop f K k p n out = Some (n', out', st) \<Longrightarrow> n \<le> length p \<Longrightarrow> out = take n p \<Longrightarrow>
    n' \<le> length p \<and> out' = take n' p \<and> (st = None \<longrightarrow> n' = length p)"
proof (induction f arbitrary: k n out)
  case 0
  then show ?case by simp
next
  case (Suc f)
  from write_round_exact [OF assms Suc.prems(2), of k] Suc.prems Suc.IH show ?case
    by (auto split: round.splits)
qed

lemma write_loop_more: "write_loop f K k p n out = Some r \<Longrightarrow> f \<le> g \<Longrightarrow> write_loop g K k p n out = Some r"
proof (induction f arbitrary: g k n out)
  case 0
  then show ?case by simp
next
  case (Suc f)
  from Suc.prems(2) obtain h where "g = Suc h" "f \<le> h" by (cases g) auto
  with Suc show ?case by (simp split: round.splits)
qed

text \<open>Once the context has ended, the next round does.\<close>

lemma write_loop_cancelled: "kn_ctx K (k + j) \<noteq> None \<Longrightarrow> write_loop (Suc j) K k p n out \<noteq> None"
proof (induction j arbitrary: k n out)
  case 0
  then show ?case by (auto simp: write_round_def)
next
  case (Suc j)
  have "kn_ctx K (Suc k + j) \<noteq> None" using Suc.prems by simp
  note later = Suc.IH [OF this]
  show ?case
    unfolding write_loop.simps(2) [of "Suc j" K k p n out] using later by (cases "write_round K k p n out") (simp_all del: write_loop.simps)
qed

lemma write_file_exact:
  assumes "kernel_ok K" "write_file f K C fl p = Some (n, out, st, fl')"
  shows "n \<le> length p \<and> out = take n p \<and> (st = None \<longrightarrow> n = length p) \<and> (fl' = fl \<or> st \<noteq> None)"
  using assms(2) write_loop_exact [OF assms(1), of f 0 p 0 "[]"]
  by (auto simp: write_file_def Let_def split: if_splits option.splits)

text \<open>
  C19: A write to a descriptor of the command gives it exactly the bytes it reports, from the front and in order, and all of
  them when it reports no error; it leaves the descriptor's blocking mode as it was unless it reports an error; and it
  returns, at the latest in the round in which its context has ended, however the descriptor answers.
\<close>

theorem output_exact:
  assumes "kernel_ok K" "kn_ctx K j \<noteq> None"
  shows "\<exists>n st fl'. write_file (Suc j) K C fl p = Some (n, take n p, st, fl') \<and> n \<le> length p \<and> (st = None \<longrightarrow> n = length p \<and> fl' = fl)"
proof -
  from write_loop_cancelled [of K 0 j p 0 "[]"] assms(2) obtain r where "write_loop (Suc j) K 0 p 0 [] = Some r" by auto
  then have "write_file (Suc j) K C fl p \<noteq> None" by (cases r) (auto simp: write_file_def Let_def simp del: write_loop.simps)
  then obtain n out st fl' where w: "write_file (Suc j) K C fl p = Some (n, out, st, fl')" by (metis not_None_eq prod_cases4)
  from write_file_exact [OF assms(1) w] w show ?thesis by blast
qed

definition slow_pipe :: kernel where
  "slow_pipe = \<lparr>kn_ctx = (\<lambda>k. if k < 5 then None else Some Canceled),
     kn_write = (\<lambda>k m. if k = 1 then (0, Some EAGAIN) else if k = 2 then (0, Some EINTR) else (min 2 m, None)), kn_poll = (\<lambda>k. None)\<rparr>"

definition sound_calls :: file_calls where
  "sound_calls = \<lparr>fc_conn = None, fc_own = None, fc_getfl = None, fc_setfl = None, fc_restore = None, fc_control = None\<rparr>"

lemma output_exact_witness:
  "write_file 6 slow_pipe sound_calls False ''alert'' = Some (5, ''alert'', None, False)
    \<and> (\<exists>n st fl'. write_file 6 slow_pipe sound_calls False ''alert'' = Some (n, take n ''alert'', st, fl') \<and> n \<le> 5)"
proof -
  have k: "kernel_ok slow_pipe" "kn_ctx slow_pipe 5 \<noteq> None" by (simp_all add: kernel_ok_def slow_pipe_def)
  have "write_file 6 slow_pipe sound_calls False ''alert'' = Some (5, ''alert'', None, False)" by code_simp
  with output_exact [OF k, of sound_calls False "''alert''"] show ?thesis by (auto simp: eval_nat_numeral)
qed

section \<open>Gates\<close>

text \<open>
  \<open>own\<close> with the table of gates: a gate is an object of its own, known by an address, and the table leads from the identity
  of a file to it as long as somebody refers to it.  A writer waits with the address it found, owns the file, and after
  it has given the gate free still has to drop its reference.
\<close>

datatype stage = Waiting | Owning | Leaving

record 'k file_gates =
  og_table :: "('k, nat) gomap"
  og_ready :: "(nat, bool) gomap"
  og_refs :: "(nat, nat) gomap"
  og_next :: nat
  og_writers :: "(nat \<times> 'k \<times> nat \<times> stage) list"

definition no_gates :: "'k file_gates" where
  "no_gates = \<lparr>og_table = [], og_ready = [], og_refs = [], og_next = 0, og_writers = []\<rparr>"

text \<open>A writer arrives: it finds the gate of the file or makes one.\<close>

definition gate_arrive :: "nat \<Rightarrow> 'k \<Rightarrow> 'k file_gates \<Rightarrow> 'k file_gates" where
  "gate_arrive t k s = (case mget (og_table s) k of
     None \<Rightarrow> s\<lparr>og_table := mput k (og_next s) (og_table s), og_ready := mput (og_next s) True (og_ready s),
       og_refs := mput (og_next s) 1 (og_refs s), og_next := og_next s + 1, og_writers := (t, k, og_next s, Waiting) # og_writers s\<rparr>
   | Some a \<Rightarrow> s\<lparr>og_refs := mput a (mgetd 0 (og_refs s) a + 1) (og_refs s), og_writers := (t, k, a, Waiting) # og_writers s\<rparr>)"

definition gate_drop :: "'k \<Rightarrow> nat \<Rightarrow> 'k file_gates \<Rightarrow> 'k file_gates" where
  "gate_drop k a s = (let refs = mgetd 0 (og_refs s) a - 1 in
     s\<lparr>og_refs := mput a refs (og_refs s), og_table := (if refs = 0 then mdel k (og_table s) else og_table s)\<rparr>)"

text \<open>The writer \<open>t\<close> with its stage replaced, or gone.\<close>

definition set_stage :: "nat \<Rightarrow> stage \<Rightarrow> 'k file_gates \<Rightarrow> 'k file_gates" where
  "set_stage t st s = s\<lparr>og_writers := map (\<lambda>(u, k, a, x). if u = t then (u, k, a, st) else (u, k, a, x)) (og_writers s)\<rparr>"

definition forget_writer :: "nat \<Rightarrow> 'k file_gates \<Rightarrow> 'k file_gates" where
  "forget_writer t s = s\<lparr>og_writers := filter (\<lambda>w. fst w \<noteq> t) (og_writers s)\<rparr>"

definition set_ready :: "nat \<Rightarrow> bool \<Rightarrow> 'k file_gates \<Rightarrow> 'k file_gates" where
  "set_ready a b s = s\<lparr>og_ready := mput a b (og_ready s)\<rparr>"

text \<open>
  The steps of any number of writers: arriving, taking a free gate, giving up with the context, giving the gate free after
  the write, and dropping the reference.
\<close>

inductive gate_step :: "'k file_gates \<Rightarrow> 'k file_gates \<Rightarrow> bool" where
  arrives: "t \<notin> fst ` set (og_writers s) \<Longrightarrow> gate_step s (gate_arrive t k s)"
| takes: "(t, k, a, Waiting) \<in> set (og_writers s) \<Longrightarrow> mget (og_ready s) a = Some True \<Longrightarrow> gate_step s (set_ready a False (set_stage t Owning s))"
| gives_up: "(t, k, a, Waiting) \<in> set (og_writers s) \<Longrightarrow> gate_step s (gate_drop k a (forget_writer t s))"
| frees: "(t, k, a, Owning) \<in> set (og_writers s) \<Longrightarrow> gate_step s (set_ready a True (set_stage t Leaving s))"
| drops: "(t, k, a, Leaving) \<in> set (og_writers s) \<Longrightarrow> gate_step s (gate_drop k a (forget_writer t s))"

inductive_cases gate_stepE: "gate_step s s'"

text \<open>The writers that refer to a gate, and among them those at a stage.\<close>

definition referring :: "nat \<Rightarrow> 'k file_gates \<Rightarrow> (nat \<times> 'k \<times> nat \<times> stage) list" where
  "referring a s = filter (\<lambda>(u, k, b, x). b = a) (og_writers s)"

definition owners :: "nat \<Rightarrow> 'k file_gates \<Rightarrow> (nat \<times> 'k \<times> nat \<times> stage) list" where
  "owners a s = filter (\<lambda>(u, k, b, x). b = a \<and> x = Owning) (og_writers s)"

definition gates_inv :: "'k file_gates \<Rightarrow> bool" where
  "gates_inv s =
     (wf_map (og_table s) \<and> distinct (map fst (og_writers s)) \<and>
      (\<forall>(u, k, a, x) \<in> set (og_writers s). mget (og_table s) k = Some a) \<and>
      (\<forall>k a. mget (og_table s) k = Some a \<longrightarrow> a < og_next s \<and> mgetd 0 (og_refs s) a = length (referring a s) \<and> referring a s \<noteq> [] \<and>
         length (owners a s) = (if mget (og_ready s) a = Some True then 0 else 1)) \<and>
      (\<forall>k k' a. mget (og_table s) k = Some a \<longrightarrow> mget (og_table s) k' = Some a \<longrightarrow> k = k'))"

lemma count_restaged:
  "distinct (map fst ws) \<Longrightarrow> (t, k, a, x) \<in> set ws \<Longrightarrow>
    length (filter P (map (\<lambda>(u, k, a, x). if u = t then (u, k, a, st) else (u, k, a, x)) ws)) + (if P (t, k, a, x) then 1 else 0)
      = length (filter P ws) + (if P (t, k, a, st) then 1 else 0)"
proof (induction ws)
  case Nil
  then show ?case by simp
next
  case (Cons w ws)
  obtain u k' a' x' where w: "w = (u, k', a', x')" by (metis prod_cases4)
  show ?case
  proof (cases "u = t")
    case True
    with Cons.prems w have e: "k' = k" "a' = a" "x' = x" "t \<notin> fst ` set ws" by (force simp: image_iff)+
    then have "map (\<lambda>(u, k, a, x). if u = t then (u, k, a, st) else (u, k, a, x)) ws = ws" by (force intro: map_idI)
    with True w e show ?thesis by simp
  next
    case False
    with Cons w show ?thesis by auto
  qed
qed

lemma count_forgotten:
  "distinct (map fst ws) \<Longrightarrow> (t, k, a, x) \<in> set ws \<Longrightarrow>
    length (filter P (filter (\<lambda>w. fst w \<noteq> t) ws)) + (if P (t, k, a, x) then 1 else 0) = length (filter P ws)"
proof (induction ws)
  case Nil
  then show ?case by simp
next
  case (Cons w ws)
  obtain u k' a' x' where w: "w = (u, k', a', x')" by (metis prod_cases4)
  show ?case
  proof (cases "u = t")
    case True
    with Cons.prems w have e: "k' = k" "a' = a" "x' = x" "t \<notin> fst ` set ws" by (force simp: image_iff)+
    then have "filter (\<lambda>w. fst w \<noteq> t) ws = ws" by (force simp: filter_id_conv)
    with True w e show ?thesis by simp
  next
    case False
    with Cons w show ?thesis by auto
  qed
qed

lemma gates_invD:
  assumes "gates_inv s"
  shows "wf_map (og_table s)" "distinct (map fst (og_writers s))"
    "(u, k, a, x) \<in> set (og_writers s) \<Longrightarrow> mget (og_table s) k = Some a"
    "mget (og_table s) k = Some a \<Longrightarrow> a < og_next s \<and> mgetd 0 (og_refs s) a = length (referring a s) \<and> referring a s \<noteq> [] \<and>
       length (owners a s) = (if mget (og_ready s) a = Some True then 0 else 1)"
    "mget (og_table s) k = Some a \<Longrightarrow> mget (og_table s) k' = Some a \<Longrightarrow> k = k'"
  using assms unfolding gates_inv_def by blast+

lemma gates_invI:
  assumes "wf_map (og_table s)" "distinct (map fst (og_writers s))"
    "\<And>u k a x. (u, k, a, x) \<in> set (og_writers s) \<Longrightarrow> mget (og_table s) k = Some a"
    "\<And>k a. mget (og_table s) k = Some a \<Longrightarrow> a < og_next s \<and> mgetd 0 (og_refs s) a = length (referring a s) \<and> referring a s \<noteq> [] \<and>
       length (owners a s) = (if mget (og_ready s) a = Some True then 0 else 1)"
    "\<And>k k' a. mget (og_table s) k = Some a \<Longrightarrow> mget (og_table s) k' = Some a \<Longrightarrow> k = k'"
  shows "gates_inv s"
  unfolding gates_inv_def using assms by blast

lemma arrive_new_inv:
  assumes i: "gates_inv s" and t: "t \<notin> fst ` set (og_writers s)" and k: "mget (og_table s) k = None"
  shows "gates_inv (gate_arrive t k s)"
proof -
  let ?n = "og_next s" and ?s = "gate_arrive t k s"
  have table: "mget (og_table ?s) k' = (if k' = k then Some ?n else mget (og_table s) k')" for k' using k by (simp add: gate_arrive_def mget_mput)
  have old: "mget (og_table s) k' = Some c \<Longrightarrow> c \<noteq> ?n" for k' c using gates_invD(4) [OF i, of k' c] by auto
  have used: "(u, k', c, x) \<in> set (og_writers s) \<Longrightarrow> c \<noteq> ?n" for u k' c x using gates_invD(3) [OF i] old by blast
  have ws: "og_writers ?s = (t, k, ?n, Waiting) # og_writers s" using k by (simp add: gate_arrive_def)
  have r: "referring c ?s = (if c = ?n then [(t, k, ?n, Waiting)] else referring c s)" for c
    using used by (auto simp: referring_def ws filter_empty_conv)
  have o: "owners c ?s = owners c s" "owners ?n s = []" for c using used by (auto simp: owners_def ws filter_empty_conv)
  have refs: "mgetd 0 (og_refs ?s) c = (if c = ?n then 1 else mgetd 0 (og_refs s) c)" for c using k by (simp add: gate_arrive_def mgetd_def mget_mput)
  have ready: "mget (og_ready ?s) c = (if c = ?n then Some True else mget (og_ready s) c)" for c using k by (simp add: gate_arrive_def mget_mput)
  have nx: "og_next ?s = ?n + 1" using k by (simp add: gate_arrive_def)
  show ?thesis
  proof (rule gates_invI)
    show "wf_map (og_table ?s)" using k gates_invD(1) [OF i] by (simp add: gate_arrive_def)
    show "distinct (map fst (og_writers ?s))" using t gates_invD(2) [OF i] by (simp add: ws)
    show "mget (og_table ?s) k' = Some c" if "(u, k', c, x) \<in> set (og_writers ?s)" for u k' c x
      using that gates_invD(3) [OF i, of u k' c x] k unfolding table ws by (auto simp del: mget_in_set)
    show "c < og_next ?s \<and> mgetd 0 (og_refs ?s) c = length (referring c ?s) \<and> referring c ?s \<noteq> [] \<and>
       length (owners c ?s) = (if mget (og_ready ?s) c = Some True then 0 else 1)" if "mget (og_table ?s) k' = Some c" for k' c
    proof (cases "k' = k")
      case True
      with that table have "c = ?n" by simp
      then show ?thesis by (simp add: nx refs r ready o)
    next
      case False
      with that table have c: "mget (og_table s) k' = Some c" by simp
      from old [OF c] gates_invD(4) [OF i c] show ?thesis by (simp add: nx refs r ready o(1))
    qed
    show "k1 = k2" if "mget (og_table ?s) k1 = Some c" "mget (og_table ?s) k2 = Some c" for k1 k2 c
      using that old gates_invD(5) [OF i, of k1 c k2] unfolding table by (metis option.inject)
  qed
qed

lemma arrive_known_inv:
  assumes i: "gates_inv s" and t: "t \<notin> fst ` set (og_writers s)" and k: "mget (og_table s) k = Some a"
  shows "gates_inv (gate_arrive t k s)"
proof -
  let ?s = "gate_arrive t k s"
  have same: "og_table ?s = og_table s" "og_next ?s = og_next s" "og_ready ?s = og_ready s" using k by (simp_all add: gate_arrive_def)
  have ws: "og_writers ?s = (t, k, a, Waiting) # og_writers s" using k by (simp add: gate_arrive_def)
  have r: "referring c ?s = (if c = a then [(t, k, a, Waiting)] else []) @ referring c s" for c by (simp add: referring_def ws)
  have o: "owners c ?s = owners c s" for c by (simp add: owners_def ws)
  have refs: "mgetd 0 (og_refs ?s) c = mgetd 0 (og_refs s) c + (if c = a then 1 else 0)" for c using k by (simp add: gate_arrive_def mgetd_def mget_mput)
  show ?thesis
  proof (rule gates_invI, unfold same)
    show "wf_map (og_table s)" using gates_invD(1) [OF i] .
    show "distinct (map fst (og_writers ?s))" using t gates_invD(2) [OF i] by (simp add: ws)
    show "mget (og_table s) k' = Some c" if "(u, k', c, x) \<in> set (og_writers ?s)" for u k' c x
      using that k gates_invD(3) [OF i, of u k' c x] unfolding ws by auto
    show "c < og_next s \<and> mgetd 0 (og_refs ?s) c = length (referring c ?s) \<and> referring c ?s \<noteq> [] \<and>
       length (owners c ?s) = (if mget (og_ready s) c = Some True then 0 else 1)" if "mget (og_table s) k' = Some c" for k' c
      using gates_invD(4) [OF i that] by (simp add: refs r o)
    show "k1 = k2" if "mget (og_table s) k1 = Some c" "mget (og_table s) k2 = Some c" for k1 k2 c
      using gates_invD(5) [OF i that] .
  qed
qed

lemma restage_inv:
  assumes i: "gates_inv s" and w: "(t, k, a, x) \<in> set (og_writers s)"
    and b: "(if b then 0 else 1) + (if x = Owning then 1 else 0) = (if mget (og_ready s) a = Some True then 0 else 1) + (if st = Owning then 1 else (0::nat))"
  shows "gates_inv (set_ready a b (set_stage t st s))"
proof -
  let ?s = "set_ready a b (set_stage t st s)"
  have d: "distinct (map fst (og_writers s))" using gates_invD(2) [OF i] .
  have ws: "og_writers ?s = map (\<lambda>(u, k, a, x). if u = t then (u, k, a, st) else (u, k, a, x)) (og_writers s)" by (simp add: set_ready_def set_stage_def)
  have keep: "map fst (og_writers ?s) = map fst (og_writers s)" by (auto simp: ws)
  have mem: "\<exists>x'. (u, k', a', x') \<in> set (og_writers s)" if "(u, k', a', y) \<in> set (og_writers ?s)" for u k' a' y
    using that unfolding ws by (auto split: if_splits)
  have r: "length (referring c ?s) = length (referring c s)" for c
    using count_restaged [OF d w, of "\<lambda>(u, k, b, x). b = c" st] unfolding referring_def ws by (simp split: if_splits)
  have o: "length (owners c ?s) + (if a = c \<and> x = Owning then 1 else 0) = length (owners c s) + (if a = c \<and> st = Owning then 1 else 0)" for c
    using count_restaged [OF d w, of "\<lambda>(u, k, b, x). b = c \<and> x = Owning" st] unfolding owners_def ws by simp
  have ready: "mget (og_ready ?s) c = (if c = a then Some b else mget (og_ready s) c)" for c
    by (simp add: set_ready_def set_stage_def mget_mput)
  have same: "og_table ?s = og_table s" "og_next ?s = og_next s" "og_refs ?s = og_refs s" by (simp_all add: set_ready_def set_stage_def)
  show ?thesis
  proof (rule gates_invI, unfold same keep)
    show "wf_map (og_table s)" "distinct (map fst (og_writers s))" using gates_invD(1,2) [OF i] by blast+
    show "mget (og_table s) k' = Some c" if "(u, k', c, y) \<in> set (og_writers ?s)" for u k' c y
      using mem [OF that] gates_invD(3) [OF i] by blast
    show "c < og_next s \<and> mgetd 0 (og_refs s) c = length (referring c ?s) \<and> referring c ?s \<noteq> [] \<and>
       length (owners c ?s) = (if mget (og_ready ?s) c = Some True then 0 else 1)" if "mget (og_table s) k' = Some c" for k' c
    proof -
      note e = gates_invD(4) [OF i that]
      have "referring c ?s \<noteq> []" using r [of c] e by (metis length_0_conv)
      moreover have "length (owners c ?s) = (if mget (og_ready ?s) c = Some True then 0 else 1)"
        using o [of c] e b unfolding ready by (cases "c = a"; cases b; cases "x = Owning"; cases "st = Owning") (auto split: if_splits)
      ultimately show ?thesis using e r [of c] by simp
    qed
    show "k1 = k2" if "mget (og_table s) k1 = Some c" "mget (og_table s) k2 = Some c" for k1 k2 c
      using gates_invD(5) [OF i that] .
  qed
qed

lemma drop_inv:
  assumes i: "gates_inv s" and w: "(t, k, a, x) \<in> set (og_writers s)" and x: "x \<noteq> Owning"
  shows "gates_inv (gate_drop k a (forget_writer t s))"
proof -
  let ?s = "gate_drop k a (forget_writer t s)"
  have d: "distinct (map fst (og_writers s))" using gates_invD(2) [OF i] .
  have ka: "mget (og_table s) k = Some a" using gates_invD(3) [OF i w] .
  have ws: "og_writers ?s = filter (\<lambda>w. fst w \<noteq> t) (og_writers s)" by (simp add: gate_drop_def forget_writer_def Let_def)
  have r: "length (referring c ?s) + (if a = c then 1 else 0) = length (referring c s)" for c
    using count_forgotten [OF d w, of "\<lambda>(u, k, b, x). b = c"] by (simp add: referring_def ws)
  have o: "length (owners c ?s) = length (owners c s)" for c
    using count_forgotten [OF d w, of "\<lambda>(u, k, b, x). b = c \<and> x = Owning"] x by (simp add: owners_def ws)
  have refs: "mgetd 0 (og_refs ?s) c = mgetd 0 (og_refs s) c - (if c = a then 1 else 0)" for c
    by (simp add: gate_drop_def forget_writer_def Let_def mgetd_def mget_mput)
  have drops: "og_table ?s = (if mgetd 0 (og_refs s) a - 1 = 0 then mdel k (og_table s) else og_table s)"
    by (simp add: gate_drop_def forget_writer_def Let_def)
  have gone: "mgetd 0 (og_refs s) a - 1 = length (referring a ?s)" using r [of a] gates_invD(4) [OF i ka] by simp
  have table: "mget (og_table ?s) k' = (if k' = k \<and> referring a ?s = [] then None else mget (og_table s) k')" for k'
    unfolding drops gone by simp
  have same: "og_ready ?s = og_ready s" "og_next ?s = og_next s" by (simp_all add: gate_drop_def forget_writer_def Let_def)
  have writers: "mget (og_table ?s) k' = Some a'" if "(u, k', a', y) \<in> set (og_writers ?s)" for u k' a' y
  proof -
    from that have m: "(u, k', a', y) \<in> set (og_writers s)" by (simp add: ws)
    then have "mget (og_table s) k' = Some a'" by (rule gates_invD(3) [OF i])
    moreover have "referring a' ?s \<noteq> []" using that by (auto simp: referring_def filter_empty_conv)
    ultimately show ?thesis using table [of k'] ka by (auto split: if_splits)
  qed
  have entries: "c < og_next s \<and> mgetd 0 (og_refs ?s) c = length (referring c ?s) \<and> referring c ?s \<noteq> [] \<and>
      length (owners c ?s) = (if mget (og_ready s) c = Some True then 0 else 1)" if "mget (og_table ?s) k' = Some c" for k' c
  proof -
    from that table have kc: "mget (og_table s) k' = Some c" "\<not> (k' = k \<and> referring a ?s = [])" by (auto split: if_splits)
    then have "referring c ?s \<noteq> []" using r [of c] gates_invD(4) [OF i kc(1)] gates_invD(5) [OF i ka, of k'] by (cases "c = a") auto
    with gates_invD(4) [OF i kc(1)] r [of c] o [of c] refs [of c] show ?thesis by (auto split: if_splits)
  qed
  have "wf_map (og_table ?s)" using gates_invD(1) [OF i] by (simp add: gate_drop_def forget_writer_def Let_def)
  moreover have "distinct (map fst (og_writers ?s))" using d by (simp add: ws distinct_map_filter)
  moreover have "k1 = k2" if "mget (og_table ?s) k1 = Some c" "mget (og_table ?s) k2 = Some c" for k1 k2 c
    using that table gates_invD(5) [OF i, of k1 c k2] by (auto split: if_splits)
  ultimately show ?thesis using writers entries by (intro gates_invI) (unfold same, blast+)
qed

lemma gate_step_inv: "gate_step s s' \<Longrightarrow> gates_inv s \<Longrightarrow> gates_inv s'"
proof (erule gate_stepE)
  fix t k
  assume "s' = gate_arrive t k s" "t \<notin> fst ` set (og_writers s)" "gates_inv s"
  then show "gates_inv s'" using arrive_new_inv arrive_known_inv by (metis option.exhaust)
next
  fix t k a
  assume "s' = set_ready a False (set_stage t Owning s)" "(t, k, a, Waiting) \<in> set (og_writers s)" "mget (og_ready s) a = Some True" "gates_inv s"
  then show "gates_inv s'" using restage_inv [of s t k a Waiting False Owning] by simp
next
  fix t k a
  assume "s' = gate_drop k a (forget_writer t s)" "(t, k, a, Waiting) \<in> set (og_writers s)" "gates_inv s"
  then show "gates_inv s'" using drop_inv [of s t k a Waiting] by simp
next
  fix t k a
  assume w: "s' = set_ready a True (set_stage t Leaving s)" "(t, k, a, Owning) \<in> set (og_writers s)" "gates_inv s"
  have "(t, k, a, Owning) \<in> set (owners a s)" using w(2) by (simp add: owners_def)
  then have "owners a s \<noteq> []" by auto
  with gates_invD(4) [OF w(3) gates_invD(3) [OF w(3,2)]] have "mget (og_ready s) a \<noteq> Some True" by auto
  with w restage_inv [of s t k a Owning True Leaving] show "gates_inv s'" by simp
next
  fix t k a
  assume "s' = gate_drop k a (forget_writer t s)" "(t, k, a, Leaving) \<in> set (og_writers s)" "gates_inv s"
  then show "gates_inv s'" using drop_inv [of s t k a Leaving] by simp
qed

interpretation output_gates: kept_by_steps gate_step gates_inv
  by unfold_locales (rule gate_step_inv)

definition writers_of :: "'k \<Rightarrow> stage \<Rightarrow> 'k file_gates \<Rightarrow> (nat \<times> 'k \<times> nat \<times> stage) list" where
  "writers_of k st s = filter (\<lambda>(u, k', a, x). k' = k \<and> x = st) (og_writers s)"

lemma owners_of_file:
  assumes "gates_inv s" "mget (og_table s) k = Some a"
  shows "writers_of k Owning s = owners a s"
proof -
  have same: "k' = k \<longleftrightarrow> c = a" if "(u, k', c, x) \<in> set (og_writers s)" for u k' c x
  proof
    assume "k' = k"
    with gates_invD(3) [OF assms(1) that] assms(2) show "c = a" by simp
  next
    assume "c = a"
    with gates_invD(5) [OF assms(1,2), of k'] gates_invD(3) [OF assms(1) that] show "k' = k" by simp
  qed
  show ?thesis unfolding writers_of_def owners_def
  proof (rule filter_cong [OF refl])
    fix w
    assume w: "w \<in> set (og_writers s)"
    obtain u k' c x where e: "w = (u, k', c, x)" by (metis prod_cases4)
    from same [of u k' c x] w show "(case w of (u, k', a, x) \<Rightarrow> k' = k \<and> x = Owning) = (case w of (u, k, b, x) \<Rightarrow> b = a \<and> x = Owning)"
      unfolding e by simp
  qed
qed

lemma unknown_file: "gates_inv s \<Longrightarrow> mget (og_table s) k = None \<Longrightarrow> (u, k, a, x) \<notin> set (og_writers s)"
  using gates_invD(3) [of s u k a x] by auto

text \<open>Nobody is at the file \<open>k\<close>, at any stage.\<close>

definition unwatched :: "'k \<Rightarrow> 'k file_gates \<Rightarrow> bool" where
  "unwatched k s = list_all (\<lambda>(u, k', a, x). k' \<noteq> k) (og_writers s)"

definition free_gate :: "'k \<Rightarrow> 'k file_gates \<Rightarrow> bool" where
  "free_gate k s = (case mget (og_table s) k of None \<Rightarrow> False | Some a \<Rightarrow> mget (og_ready s) a = Some True)"

text \<open>
  C18: Whatever the order in which any number of writers arrive, take gates, give up and leave, a file has at most one writer
  that owns it; its gate is free for those who wait exactly when nobody owns it; and the table keeps a gate exactly as
  long as somebody refers to it, so that it neither grows nor loses a gate in use.
\<close>

theorem gates_exclusive:
  assumes "gate_step\<^sup>*\<^sup>* no_gates s"
  shows "length (writers_of k Owning s) \<le> 1 \<and> (mget (og_table s) k = None \<longleftrightarrow> unwatched k s)
    \<and> (unwatched k s \<or> (free_gate k s \<longleftrightarrow> writers_of k Owning s = []))"
proof -
  have "gates_inv (no_gates :: 'a file_gates)" by (simp add: gates_inv_def no_gates_def)
  with output_gates.run_keeps assms have i: "gates_inv s" by blast
  show ?thesis
  proof (cases "mget (og_table s) k")
    case None
    with unknown_file [OF i None] have "unwatched k s" by (auto simp: unwatched_def list_all_iff)
    moreover have "writers_of k Owning s = []" using unknown_file [OF i None] by (auto simp: writers_of_def filter_empty_conv)
    ultimately show ?thesis using None by simp
  next
    case (Some a)
    note e = gates_invD(4) [OF i Some]
    from e obtain u k' x where w: "(u, k', a, x) \<in> set (og_writers s)" by (auto simp: referring_def filter_empty_conv)
    have "k' = k" using gates_invD(5) [OF i Some gates_invD(3) [OF i w]] by simp
    with w have "\<not> unwatched k s" unfolding unwatched_def list_all_iff by blast
    moreover have "length (writers_of k Owning s) \<le> 1" "free_gate k s \<longleftrightarrow> writers_of k Owning s = []"
      using e Some owners_of_file [OF i Some] by (auto simp: free_gate_def split: if_splits)
    ultimately show ?thesis using Some by simp
  qed
qed

lemma gates_exclusive_witness:
  "\<exists>s. gate_step\<^sup>*\<^sup>* (no_gates :: nat file_gates) s \<and> map fst (og_writers s) = [2, 1] \<and> writers_of 7 Owning s = [(1, 7, 0, Owning)] \<and> \<not> free_gate 7 s"
proof -
  let ?s1 = "gate_arrive 1 7 (no_gates :: nat file_gates)" and ?s2 = "gate_arrive 2 7 (gate_arrive 1 7 (no_gates :: nat file_gates))"
  let ?s = "set_ready 0 False (set_stage 1 Owning ?s2)"
  have "gate_step no_gates ?s1" by (rule gate_step.arrives) (simp add: no_gates_def)
  moreover have "gate_step ?s1 ?s2" by (rule gate_step.arrives) (simp add: no_gates_def gate_arrive_def)
  moreover have "gate_step ?s2 ?s"
    by (rule gate_step.takes [where k = 7]) (simp_all add: no_gates_def gate_arrive_def)
  ultimately have r: "gate_step\<^sup>*\<^sup>* no_gates ?s" by (meson r_into_rtranclp rtranclp_trans)
  have w: "map fst (og_writers ?s) = [2, 1]" "writers_of 7 Owning ?s = [(1, 7, 0, Owning)]"
    by (simp_all add: no_gates_def gate_arrive_def set_ready_def set_stage_def writers_of_def)
  moreover have "\<not> unwatched 7 ?s" by (simp add: no_gates_def gate_arrive_def set_ready_def set_stage_def unwatched_def)
  ultimately show ?thesis using gates_exclusive [OF r, of 7] r by auto
qed

end
