(* ===== verification/Terminal.thy ===== *)
theory Terminal
  imports Steps
begin

text \<open>
  \<open>internal/terminal/terminal.go\<close>: full-screen frames and interactive credential helpers share one terminal under a lease.
  What the callbacks of a session do to the screen is part of the state; whether a callback fails is an argument.
\<close>

datatype screen = Cooked | FullScreen | Unsure

text \<open>
  \<open>ls_holder\<close> is the helper that holds the gate between \<open>Interactive\<close> and its release, with the session it has suspended;
  the other operations hold the gate for their whole body and are atomic.  Sessions are known by number.
\<close>

record lease =
  ls_holder :: "nat option option"
  ls_active :: "nat option"
  ls_err :: "(nat, status) gomap"
  ls_next :: nat
  ls_screen :: screen

definition new_lease :: lease where
  "new_lease = \<lparr>ls_holder = None, ls_active = None, ls_err = [], ls_next = 0, ls_screen = Cooked\<rparr>"

definition suspended :: "status \<Rightarrow> lease \<Rightarrow> lease" where
  "suspended st s = s\<lparr>ls_screen := (if st = None then Cooked else Unsure)\<rparr>"

definition resumed :: "status \<Rightarrow> lease \<Rightarrow> lease" where
  "resumed st s = s\<lparr>ls_screen := (if st = None then FullScreen else Unsure)\<rparr>"

definition session_err :: "lease \<Rightarrow> nat \<Rightarrow> status" where
  "session_err s k = mgetd None (ls_err s) k"

text \<open>\<open>Start\<close>: the last component is the session, if there is one.\<close>

definition start_session :: "status \<Rightarrow> status \<Rightarrow> lease \<Rightarrow> lease \<times> nat result" where
  "start_session resume suspend s =
     (if ls_active s \<noteq> None then (s, Inl (Err ''terminal already has an active UI''))
      else case resume of
        Some e \<Rightarrow> (suspended suspend (resumed resume s), Inl e)
      | None \<Rightarrow> ((resumed None s)\<lparr>ls_active := Some (ls_next s), ls_err := mput (ls_next s) None (ls_err s), ls_next := ls_next s + 1\<rparr>, Inr (ls_next s)))"

text \<open>\<open>Frame\<close>: \<open>None\<close> means that the frame is drawn.\<close>

definition frame_refused :: "nat \<Rightarrow> lease \<Rightarrow> status" where
  "frame_refused k s = (if ls_active s \<noteq> Some k then Some (Err ''terminal UI is closed'') else session_err s k)"

definition close_session :: "status \<Rightarrow> nat \<Rightarrow> lease \<Rightarrow> lease \<times> status" where
  "close_session suspend k s = (if ls_active s \<noteq> Some k then (s, None) else (suspended suspend (s\<lparr>ls_active := None\<rparr>), suspend))"

definition begin_interactive :: "status \<Rightarrow> lease \<Rightarrow> lease \<times> status" where
  "begin_interactive suspend s =
     (case ls_active s of
        None \<Rightarrow> (s\<lparr>ls_holder := Some None\<rparr>, None)
      | Some k \<Rightarrow>
          (case suspend of
             Some e \<Rightarrow> ((suspended suspend s)\<lparr>ls_err := mput k (Some e) (ls_err s)\<rparr>, Some e)
           | None \<Rightarrow> ((suspended None s)\<lparr>ls_holder := Some (Some k)\<rparr>, None)))"

definition end_interactive :: "status \<Rightarrow> lease \<Rightarrow> lease \<times> status" where
  "end_interactive resume s =
     (case ls_holder s of
        Some (Some k) \<Rightarrow> ((resumed resume s)\<lparr>ls_err := mput k resume (ls_err s), ls_holder := None\<rparr>, resume)
      | _ \<Rightarrow> (s\<lparr>ls_holder := None\<rparr>, None))"

section \<open>All interleavings\<close>

text \<open>
  The operations of any number of goroutines in the order in which they get the gate; one that finds it taken waits or
  gives up with its context, and changes nothing.
\<close>

datatype lease_op = Start status status | Frame nat | CloseUI status nat | Interactive status | Released status

definition lease_step :: "lease_op \<Rightarrow> lease \<Rightarrow> lease" where
  "lease_step a s = (case a of
     Released resume \<Rightarrow> if ls_holder s = None then s else fst (end_interactive resume s)
   | Start resume suspend \<Rightarrow> if ls_holder s \<noteq> None then s else fst (start_session resume suspend s)
   | Frame k \<Rightarrow> s
   | CloseUI suspend k \<Rightarrow> if ls_holder s \<noteq> None then s else fst (close_session suspend k s)
   | Interactive suspend \<Rightarrow> if ls_holder s \<noteq> None then s else fst (begin_interactive suspend s))"

definition lease_run :: "lease_op list \<Rightarrow> lease" where
  "lease_run as = foldl (\<lambda>s a. lease_step a s) new_lease as"

definition draws :: "nat \<Rightarrow> lease \<Rightarrow> bool" where
  "draws k s = (ls_holder s = None \<and> frame_refused k s = None)"

definition lease_inv :: "lease \<Rightarrow> bool" where
  "lease_inv s =
     (list_all (\<lambda>k. k < ls_next s) (case ls_active s of None \<Rightarrow> [] | Some k \<Rightarrow> [k]) \<and>
      (case ls_holder s of
         None \<Rightarrow> (case ls_active s of None \<Rightarrow> ls_screen s \<noteq> FullScreen | Some k \<Rightarrow> session_err s k = None \<longrightarrow> ls_screen s = FullScreen)
       | Some None \<Rightarrow> ls_active s = None \<and> ls_screen s \<noteq> FullScreen
       | Some (Some k) \<Rightarrow> ls_active s = Some k \<and> ls_screen s = Cooked))"

lemma lease_step_inv: "lease_inv s \<Longrightarrow> lease_inv (lease_step a s)"
proof (cases a)
  case (Start resume suspend)
  assume "lease_inv s"
  with Start show ?thesis
    by (cases resume; cases "ls_active s"; cases "ls_holder s")
      (simp_all add: lease_step_def start_session_def lease_inv_def resumed_def suspended_def session_err_def mgetd_def)
next
  case (Frame k)
  assume "lease_inv s"
  with Frame show ?thesis by (simp add: lease_step_def)
next
  case (CloseUI suspend k)
  assume "lease_inv s"
  with CloseUI show ?thesis
    by (cases "ls_holder s"; cases "ls_active s = Some k")
      (simp_all add: lease_step_def close_session_def lease_inv_def suspended_def)
next
  case (Interactive suspend)
  assume "lease_inv s"
  with Interactive show ?thesis
    by (cases "ls_holder s"; cases "ls_active s"; cases suspend)
      (simp_all add: lease_step_def begin_interactive_def lease_inv_def suspended_def session_err_def mgetd_def)
next
  case (Released resume)
  assume i: "lease_inv s"
  show ?thesis
  proof (cases "ls_holder s")
    case None
    with i Released show ?thesis by (simp add: lease_step_def)
  next
    case (Some h)
    with i Released show ?thesis
      by (cases h; cases "ls_active s")
        (simp_all add: lease_step_def end_interactive_def lease_inv_def resumed_def session_err_def mgetd_def)
  qed
qed

interpretation lease_ops: kept_by_operations lease_step lease_inv
  by unfold_locales (rule lease_step_inv)

lemma lease_run_inv: "lease_inv (lease_run as)"
  unfolding lease_run_def by (rule lease_ops.ops_keep) (simp add: lease_inv_def new_lease_def)

text \<open>
  C22: In every interleaving of sessions, frames and credential helpers at most one of them has the terminal: a frame is
  drawn only on the full screen while no helper runs, a helper runs only on a terminal that has left the full screen,
  restored when a session is active, and when neither is there the terminal is not left in full-screen mode.
\<close>

theorem terminal_exclusive:
  "(draws k (lease_run as) \<longrightarrow> ls_screen (lease_run as) = FullScreen \<and> ls_active (lease_run as) = Some k)
    \<and> (ls_holder (lease_run as) \<noteq> None \<longrightarrow> ls_screen (lease_run as) \<noteq> FullScreen \<and> \<not> draws k (lease_run as))
    \<and> (ls_holder (lease_run as) = Some (Some j) \<longrightarrow> ls_screen (lease_run as) = Cooked)
    \<and> (ls_active (lease_run as) = None \<longrightarrow> ls_screen (lease_run as) \<noteq> FullScreen)"
  using lease_run_inv [of as]
  by (auto simp: lease_inv_def draws_def frame_refused_def split: option.splits if_splits)

lemma terminal_exclusive_witness:
  "draws 0 (lease_run [Start None None]) \<and> ls_screen (lease_run [Start None None]) = FullScreen \<and>
    ls_holder (lease_run [Start None None, Interactive None]) = Some (Some 0) \<and> ls_screen (lease_run [Start None None, Interactive None]) = Cooked \<and>
    ls_active (lease_run [Start None None, CloseUI None 0]) = None \<and> ls_screen (lease_run [Start None None, CloseUI None 0]) \<noteq> FullScreen"
proof -
  have "draws 0 (lease_run [Start None None])" "ls_holder (lease_run [Start None None, Interactive None]) = Some (Some 0)"
    "ls_active (lease_run [Start None None, CloseUI None 0]) = None" by code_simp+
  then show ?thesis
    using terminal_exclusive [of 0 "[Start None None]" 0] terminal_exclusive [of 0 "[Start None None, Interactive None]" 0]
      terminal_exclusive [of 0 "[Start None None, CloseUI None 0]" 0] by blast
qed

end
