(* ===== verification/Exec.thy ===== *)
theory Exec
  imports Terminal Samples
begin

text \<open>
  \<open>internal/kube/exec.go\<close>: which authentication a client of the cluster uses, the credential helper it may run, what it
  accepts from it, and how credentials are cached, used and renewed.  The certificate of a credential is a value of a type
  variable: \<open>X509KeyPair\<close>, the decoder of the client library's \<open>ExecCredential\<close> and the search path are parameters.
\<close>

section \<open>Choosing the authentication\<close>

datatype plugin_policy = AllowAll | Allowlist "string list" | OtherPolicy

datatype interactive_mode = NeverInteractive | IfAvailable | AlwaysInteractive | OtherMode

record exec_config =
  ec_Command :: string
  ec_APIVersion :: string
  ec_Policy :: plugin_policy
  ec_Mode :: interactive_mode
  ec_StdinUnavailable :: bool
  ec_ProvideClusterInfo :: bool

text \<open>
  The parts of the client's configuration that decide: the named provider and the plugin, and what the library finds wrong
  with the rest, with the OIDC settings, with the policy and with the description of the cluster; \<open>rc_static\<close> is a token,
  password or certificate of the configuration itself.
\<close>

record rest_config =
  rc_AuthProvider :: "string option"
  rc_Exec :: "exec_config option"
  rc_static :: bool
  rc_config_error :: status
  rc_oidc_error :: status
  rc_policy_error :: status
  rc_cluster_error :: status

datatype auth_plan = PlainTransport | OidcTransport | ExecTransport exec_config

definition errExecAuth :: goerror where
  "errExecAuth = Err ''Kubernetes credential helper unavailable''"

definition errOIDC :: goerror where
  "errOIDC = Err ''Kubernetes OIDC credentials unavailable''"

definition known_versions :: "string list" where
  "known_versions = [''client.authentication.k8s.io/v1'', ''client.authentication.k8s.io/v1beta1'']"

definition transportConfig :: "rest_config \<Rightarrow> auth_plan result" where
  "transportConfig c =
     (let oidc = (rc_AuthProvider c = Some ''oidc'') in
      if oidc \<and> rc_Exec c \<noteq> None then Inl errOIDC
      else case rc_config_error c of
        Some e \<Rightarrow> Inl e
      | None \<Rightarrow>
          (case (if oidc then rc_oidc_error c else None) of
             Some e \<Rightarrow> Inl e
           | None \<Rightarrow>
               (case rc_Exec c of
                  None \<Rightarrow> Inr (if oidc then OidcTransport else PlainTransport)
                | Some plugin \<Rightarrow>
                    (if rc_AuthProvider c \<noteq> None then Inl errExecAuth
                     else if rc_policy_error c \<noteq> None then Inl errExecAuth
                     else if ec_APIVersion plugin \<notin> set known_versions then Inl errExecAuth
                     else if rc_static c then Inr PlainTransport
                     else if ec_ProvideClusterInfo plugin \<and> rc_cluster_error c \<noteq> None then Inl errExecAuth
                     else Inr (ExecTransport plugin)))))"

text \<open>\<open>look\<close> is \<open>exec.LookPath\<close>; \<open>resolved\<close> the path the command was found at.\<close>

definition allowedExec :: "(string \<Rightarrow> string option) \<Rightarrow> exec_config \<Rightarrow> string \<Rightarrow> string \<Rightarrow> bool" where
  "allowedExec look c command resolved = (case ec_Policy c of
     AllowAll \<Rightarrow> True
   | Allowlist names \<Rightarrow> list_ex (\<lambda>n. n = command \<or> n = resolved \<or> look n = Some resolved) names
   | OtherPolicy \<Rightarrow> False)"

section \<open>What a helper may answer\<close>

text \<open>\<open>ExecCredential\<close> of the client library, as its decoder fills it.\<close>

record exec_status =
  es_token :: string
  es_certificate :: string
  es_key :: string
  es_expires :: "gotime option"

record exec_credential =
  ex_APIVersion :: string
  ex_Kind :: string
  ex_Status :: "exec_status option"

record 'cert credential =
  cr_token :: string
  cr_cert :: "'cert option"
  cr_expires :: "gotime option"

definition boundedOutput_Write :: "string \<Rightarrow> string \<Rightarrow> string result" where
  "boundedOutput_Write b p = (if 1048576 - length b < length p then Inl errExecAuth else Inr (b @ p))"

fun bounded_output :: "string \<Rightarrow> string list \<Rightarrow> string result" where
  "bounded_output b [] = Inr b"
| "bounded_output b (p # ps) = (case boundedOutput_Write b p of Inl e \<Rightarrow> Inl e | Inr b' \<Rightarrow> bounded_output b' ps)"

definition token_ok :: "string \<Rightarrow> bool" where
  "token_ok t = (length t \<le> 16384 \<and> list_all (\<lambda>r. 32 < r \<and> r \<noteq> 127) (runes t))"

text \<open>A zero expiry counts as no expiry in the cache, but is refused here like any other time that has passed.\<close>

definition check_credential :: "(string \<Rightarrow> exec_credential option) \<Rightarrow> (string \<Rightarrow> string \<Rightarrow> 'cert option) \<Rightarrow> exec_config \<Rightarrow> gotime \<Rightarrow> string
    \<Rightarrow> 'cert credential result" where
  "check_credential decode pair c now out =
     (case decode out of
        None \<Rightarrow> Inl errExecAuth
      | Some cred \<Rightarrow>
          (if ex_APIVersion cred \<noteq> ec_APIVersion c \<or> ex_Kind cred \<noteq> ''ExecCredential'' then Inl errExecAuth
           else case ex_Status cred of
             None \<Rightarrow> Inl errExecAuth
           | Some s \<Rightarrow>
               (if (es_certificate s = []) \<noteq> (es_key s = []) \<or> (es_token s = [] \<and> es_certificate s = []) then Inl errExecAuth
                else if \<not> token_ok (es_token s) then Inl errExecAuth
                else if (case es_expires s of None \<Rightarrow> False | Some e \<Rightarrow> \<not> Before now e) then Inl errExecAuth
                else if es_certificate s = [] then Inr \<lparr>cr_token = es_token s, cr_cert = None, cr_expires = es_expires s\<rparr>
                else case pair (es_certificate s) (es_key s) of
                  None \<Rightarrow> Inl errExecAuth
                | Some crt \<Rightarrow> Inr \<lparr>cr_token = es_token s, cr_cert = Some crt, cr_expires = es_expires s\<rparr>)))"

section \<open>Running the helper\<close>

datatype helper_end = Succeeded | Interrupted | Failed

text \<open>
  What the system answers: whether standard input is a terminal, the encoding of the request, the resolved command, the
  lease of the terminal and its release, the foreground group and the attributes of the terminal before and their
  restoration, the output of the helper in the pieces it comes in, how it ended, and the context and clock after it.
\<close>

record helper_world =
  hw_terminal :: bool
  hw_encodes :: bool
  hw_resolved :: string
  hw_lease :: status
  hw_release :: status
  hw_group :: bool
  hw_state :: bool
  hw_group_restored :: bool
  hw_state_restored :: bool
  hw_chunks :: "string list"
  hw_end :: helper_end
  hw_ctx :: status
  hw_now :: gotime

definition wants_terminal :: "exec_config \<Rightarrow> helper_world \<Rightarrow> bool result" where
  "wants_terminal c w = (case ec_Mode c of
     NeverInteractive \<Rightarrow> Inr False
   | IfAvailable \<Rightarrow> Inr (\<not> ec_StdinUnavailable c \<and> hw_terminal w)
   | AlwaysInteractive \<Rightarrow> if ec_StdinUnavailable c \<or> \<not> hw_terminal w then Inl errExecAuth else Inr True
   | OtherMode \<Rightarrow> Inl errExecAuth)"

text \<open>The helper itself: a failed write of its output is a failed run.\<close>

definition helper_output :: "helper_world \<Rightarrow> bool \<Rightarrow> string result" where
  "helper_output w interactive =
     (if hw_ctx w \<noteq> None then Inl (case hw_ctx w of Some e \<Rightarrow> e | None \<Rightarrow> errExecAuth)
      else if hw_end w = Interrupted \<and> interactive then Inl Canceled
      else if hw_end w \<noteq> Succeeded then Inl errExecAuth
      else case bounded_output [] (hw_chunks w) of Inl e \<Rightarrow> Inl errExecAuth | Inr out \<Rightarrow> Inr out)"

text \<open>
  \<open>run\<close>: the result, and whether the lease was taken and given back.  On a terminal the restorations run after the helper
  and before the release, and each may turn the result into an error.
\<close>

definition run_helper :: "(string \<Rightarrow> exec_credential option) \<Rightarrow> (string \<Rightarrow> string \<Rightarrow> 'cert option) \<Rightarrow> (string \<Rightarrow> string option) \<Rightarrow> exec_config \<Rightarrow> string
    \<Rightarrow> helper_world \<Rightarrow> 'cert credential result \<times> bool" where
  "run_helper decode pair look c command w =
     (case wants_terminal c w of
        Inl e \<Rightarrow> (Inl e, False)
      | Inr interactive \<Rightarrow>
          (if \<not> hw_encodes w \<or> \<not> allowedExec look c command (hw_resolved w) then (Inl errExecAuth, False)
           else let answer = (case helper_output w interactive of Inl e \<Rightarrow> Inl e | Inr out \<Rightarrow> check_credential decode pair c (hw_now w) out) in
             if \<not> interactive then (answer, False)
             else if hw_lease w \<noteq> None then (Inl (case hw_lease w of Some e \<Rightarrow> e | None \<Rightarrow> errExecAuth), False)
             else if \<not> hw_group w \<or> \<not> hw_state w then (Inl errExecAuth, True)
             else if \<not> hw_group_restored w \<or> \<not> hw_state_restored w \<or> hw_release w \<noteq> None then (Inl errExecAuth, True)
             else (answer, True)))"

section \<open>The cache\<close>

text \<open>
  Credentials are compared by identity: each has a number.  \<open>ea_cert\<close> is what the TLS callback presents, \<open>ea_closed\<close> how
  often the connections have been closed, \<open>ea_runs\<close> the successful runs of the helper.
\<close>

record 'cert exec_auth =
  ea_cached :: "(nat \<times> 'cert credential) option"
  ea_cert :: "'cert option"
  ea_closed :: nat
  ea_runs :: nat

definition new_exec_auth :: "'cert exec_auth" where
  "new_exec_auth = \<lparr>ea_cached = None, ea_cert = None, ea_closed = 0, ea_runs = 0\<rparr>"

definition unexpired :: "gotime \<Rightarrow> 'cert credential \<Rightarrow> bool" where
  "unexpired now c = (case cr_expires c of None \<Rightarrow> True | Some e \<Rightarrow> IsZero e \<or> Before now e)"

definition serves :: "gotime \<Rightarrow> nat option \<Rightarrow> nat \<times> 'cert credential \<Rightarrow> bool" where
  "serves now previous x = (case previous of Some p \<Rightarrow> p \<noteq> fst x | None \<Rightarrow> unexpired now (snd x))"

definition servable :: "gotime \<Rightarrow> nat option \<Rightarrow> 'cert exec_auth \<Rightarrow> (nat \<times> 'cert credential) option" where
  "servable now previous a = (case ea_cached a of None \<Rightarrow> None | Some x \<Rightarrow> if serves now previous x then Some x else None)"

text \<open>\<open>ctx\<close> is the context once the gate is held, \<open>fresh\<close> what a run of the helper gives.\<close>

definition credentials :: "status \<Rightarrow> gotime \<Rightarrow> nat option \<Rightarrow> 'cert credential result \<Rightarrow> 'cert exec_auth
    \<Rightarrow> 'cert exec_auth \<times> (nat \<times> 'cert credential) result" where
  "credentials ctx now previous fresh a =
     (case ctx of Some e \<Rightarrow> (a, Inl e) | None \<Rightarrow>
      (case servable now previous a of
        Some x \<Rightarrow> (a, Inr x)
      | None \<Rightarrow>
          (case fresh of
             Inl e \<Rightarrow> (a, Inl e)
           | Inr c \<Rightarrow>
               (let x = (ea_runs a, c) in
                (a\<lparr>ea_cached := Some x, ea_cert := cr_cert c, ea_runs := ea_runs a + 1,
                   ea_closed := ea_closed a + (case ea_cached a of None \<Rightarrow> 0 | Some (i, old) \<Rightarrow> if cr_cert old \<noteq> cr_cert c then 1 else 0)\<rparr>,
                 Inr x)))))"

section \<open>A request\<close>

text \<open>
  \<open>base\<close> sends a request with an authorisation header and answers with a status code or an error.  The result lists what
  was sent; \<open>use\<close> and \<open>renew\<close> are what the two consultations of the cache find (context, clock and helper), \<open>ended\<close> the
  context of the request at the end.
\<close>

type_synonym 'cert consultation = "status \<times> gotime \<times> 'cert credential result"

definition exec_RoundTrip :: "(string \<Rightarrow> nat result) \<Rightarrow> string \<Rightarrow> 'cert consultation \<Rightarrow> 'cert consultation \<Rightarrow> status \<Rightarrow> 'cert exec_auth
    \<Rightarrow> 'cert exec_auth \<times> string list \<times> nat result" where
  "exec_RoundTrip base authorization use renew ended a =
     (if authorization \<noteq> [] then (a, [authorization], base authorization)
      else case use of (ctx, now, fresh) \<Rightarrow>
        (case credentials ctx now None fresh a of
           (a1, Inl e) \<Rightarrow> (a1, [], Inl e)
         | (a1, Inr (i, c)) \<Rightarrow>
             (let header = (if cr_token c = [] then [] else ''Bearer '' @ cr_token c) in
              case base header of
                Inl e \<Rightarrow> (a1, [header], Inl e)
              | Inr code \<Rightarrow>
                  (if code \<noteq> 401 then (a1, [header], Inr code)
                   else case renew of (ctx', now', fresh') \<Rightarrow>
                     (case credentials ctx' now' (Some i) fresh' a1 of
                        (a2, Inl e) \<Rightarrow> (a2, [header], if ended \<noteq> None then Inl (case ended of Some e' \<Rightarrow> e' | None \<Rightarrow> e) else Inr code)
                      | (a2, Inr x) \<Rightarrow> (a2, [header], Inr code))))))"

section \<open>What a helper's credential is\<close>

definition sound :: "gotime \<Rightarrow> 'cert credential \<Rightarrow> bool" where
  "sound now c = (token_ok (cr_token c) \<and> (cr_token c \<noteq> [] \<or> cr_cert c \<noteq> None) \<and> unexpired now c)"

lemma check_credential_sound: "check_credential decode pair c now out = Inr x \<Longrightarrow> sound now x"
  by (auto simp: check_credential_def sound_def unexpired_def split: option.splits if_split_asm)

lemma run_helper_sound: "fst (run_helper decode pair look c command w) = Inr x \<Longrightarrow> sound (hw_now w) x"
  by (auto simp: run_helper_def Let_def split: sum.splits if_split_asm intro: check_credential_sound)

text \<open>
  A credential is accepted from a helper only when it can be used as it is: its token fits a header, it has a token or a
  certificate, and it has not expired; the helper was allowed by the policy, ended by itself and wrote at most 1 MiB; and
  one that talks to the user did so on a terminal it held under the lease, which was restored and given back.
\<close>

theorem helper_credential_sound:
  assumes "run_helper decode pair look c command w = (Inr x, leased)"
  shows "sound (hw_now w) x \<and> allowedExec look c command (hw_resolved w) \<and> hw_end w = Succeeded \<and> hw_ctx w = None
    \<and> sum_list (map length (hw_chunks w)) \<le> 1048576
    \<and> leased = (ec_Mode c = AlwaysInteractive \<or> (ec_Mode c = IfAvailable \<and> hw_terminal w \<and> \<not> ec_StdinUnavailable c))
    \<and> (leased \<longrightarrow> hw_terminal w \<and> hw_lease w = None \<and> hw_group_restored w \<and> hw_state_restored w \<and> hw_release w = None)"
proof -
  have chunks: "length b + sum_list (map length ps) \<le> 1048576" if "bounded_output b ps = Inr out" "length b \<le> 1048576" for b ps out
    using that
  proof (induction ps arbitrary: b)
    case (Cons p ps)
    from Cons.prems have "length p \<le> 1048576 - length b" "bounded_output (b @ p) ps = Inr out"
      by (auto simp: boundedOutput_Write_def split: if_splits)
    moreover from this(1) Cons.prems(2) have "length (b @ p) \<le> 1048576" by simp
    ultimately show ?case using Cons.IH [of "b @ p"] by simp
  qed simp
  from assms obtain interactive out where w: "wants_terminal c w = Inr interactive" "allowedExec look c command (hw_resolved w)"
    "helper_output w interactive = Inr out" "check_credential decode pair c (hw_now w) out = Inr x" "leased = interactive"
    "interactive \<longrightarrow> hw_lease w = None \<and> hw_group_restored w \<and> hw_state_restored w \<and> hw_release w = None"
    by (auto simp: run_helper_def Let_def split: sum.splits if_split_asm)
  have "leased = (ec_Mode c = AlwaysInteractive \<or> (ec_Mode c = IfAvailable \<and> hw_terminal w \<and> \<not> ec_StdinUnavailable c)) \<and> (leased \<longrightarrow> hw_terminal w)"
    using w(1,5) by (auto simp: wants_terminal_def split: interactive_mode.splits if_split_asm)
  moreover have "hw_end w = Succeeded \<and> hw_ctx w = None \<and> bounded_output [] (hw_chunks w) = Inr out"
    using w(3) by (auto simp: helper_output_def split: if_split_asm sum.splits)
  ultimately show ?thesis using w check_credential_sound [OF w(4)] chunks [of "[]" "hw_chunks w" out] by auto
qed

definition sample_plugin :: exec_config where
  "sample_plugin = \<lparr>ec_Command = ''aws'', ec_APIVersion = ''client.authentication.k8s.io/v1'', ec_Policy = Allowlist [''aws''], ec_Mode = IfAvailable,
     ec_StdinUnavailable = False, ec_ProvideClusterInfo = False\<rparr>"

definition sample_helper :: helper_world where
  "sample_helper = \<lparr>hw_terminal = True, hw_encodes = True, hw_resolved = ''/bin/aws'', hw_lease = None, hw_release = None, hw_group = True,
     hw_state = True, hw_group_restored = True, hw_state_restored = True, hw_chunks = [''to'', ''ken''], hw_end = Succeeded, hw_ctx = None,
     hw_now = zero_time\<rparr>"

text \<open>A decoder that takes the whole output as the token.\<close>

definition plain_token :: "string \<Rightarrow> exec_credential option" where
  "plain_token out = Some \<lparr>ex_APIVersion = ''client.authentication.k8s.io/v1'', ex_Kind = ''ExecCredential'',
     ex_Status = Some \<lparr>es_token = out, es_certificate = [], es_key = [], es_expires = None\<rparr>\<rparr>"

lemma helper_credential_sound_witness:
  "run_helper plain_token (\<lambda>a b. Some a) (\<lambda>n. None) sample_plugin ''aws'' sample_helper = (Inr \<lparr>cr_token = ''token'', cr_cert = None, cr_expires = None\<rparr>, True)
    \<and> sound (hw_now sample_helper) \<lparr>cr_token = ''token'', cr_cert = None :: string option, cr_expires = None\<rparr>"
proof -
  have "run_helper plain_token (\<lambda>a b. Some a) (\<lambda>n. None) sample_plugin ''aws'' sample_helper
      = (Inr \<lparr>cr_token = ''token'', cr_cert = None, cr_expires = None\<rparr>, True)" by code_simp
  from helper_credential_sound [OF this] this show ?thesis by blast
qed

section \<open>Credentials over time\<close>

text \<open>
  Requests consult the cache in the order in which they get its gate: to be sent, or, with the credential they were sent
  with, after it was refused.  A request has only credentials that have been given out.  The log has, newest first, every
  credential given out with its consultation: the refused credential, whether the helper ran, and the clock.
\<close>

record consult =
  cn_ctx :: status
  cn_now :: gotime
  cn_previous :: "nat option"
  cn_world :: helper_world

type_synonym 'cert exec_log = "(nat option \<times> bool \<times> gotime \<times> nat \<times> 'cert credential) list"

definition consult_step :: "(helper_world \<Rightarrow> 'cert credential result) \<Rightarrow> consult \<Rightarrow> 'cert exec_auth \<times> 'cert exec_log \<Rightarrow> 'cert exec_auth \<times> 'cert exec_log" where
  "consult_step run q s = (case s of (a, lg) \<Rightarrow>
     (if \<not> list_all (\<lambda>i. i < ea_runs a) (case cn_previous q of None \<Rightarrow> [] | Some i \<Rightarrow> [i]) then (a, lg)
      else case credentials (cn_ctx q) (cn_now q) (cn_previous q) (run (cn_world q)) a of
        (a', Inl e) \<Rightarrow> (a', lg)
      | (a', Inr (i, c)) \<Rightarrow>
          (let new_run = (ea_runs a' \<noteq> ea_runs a) in
           (a', (cn_previous q, new_run, if new_run then hw_now (cn_world q) else cn_now q, i, c) # lg))))"

definition exec_run :: "(helper_world \<Rightarrow> 'cert credential result) \<Rightarrow> consult list \<Rightarrow> 'cert exec_auth \<times> 'cert exec_log" where
  "exec_run run qs = foldl (\<lambda>s q. consult_step run q s) (new_exec_auth, []) qs"

text \<open>The run of the helper that replaced the credential \<open>i\<close>.\<close>

definition replaces :: "nat \<Rightarrow> nat option \<times> bool \<times> gotime \<times> nat \<times> 'cert credential \<Rightarrow> bool" where
  "replaces i x = (case x of (previous, new_run, clock, k, c) \<Rightarrow> new_run \<and> previous = Some i)"

definition given_sound :: "nat option \<times> bool \<times> gotime \<times> nat \<times> 'cert credential \<Rightarrow> bool" where
  "given_sound x = (case x of (previous, new_run, clock, k, c) \<Rightarrow>
     token_ok (cr_token c) \<and> (cr_token c \<noteq> [] \<or> cr_cert c \<noteq> None) \<and> (previous = None \<longrightarrow> unexpired clock c))"

definition exec_inv :: "'cert exec_auth \<times> 'cert exec_log \<Rightarrow> bool" where
  "exec_inv s = (case s of (a, lg) \<Rightarrow>
     list_all given_sound lg \<and>
     (case ea_cached a of
        None \<Rightarrow> ea_cert a = None \<and> ea_runs a = 0 \<and> lg = []
      | Some (i, c) \<Rightarrow> ea_cert a = cr_cert c \<and> Suc i = ea_runs a \<and> token_ok (cr_token c) \<and> (cr_token c \<noteq> [] \<or> cr_cert c \<noteq> None)) \<and>
     (\<forall>i. length (filter (replaces i) lg) \<le> (if Suc i < ea_runs a then 1 else 0)))"

lemma credentials_cases:
  obtains (refused) e where "credentials ctx now previous fresh a = (a, Inl e)"
  | (cached) i c where "ea_cached a = Some (i, c)" "serves now previous (i, c)" "credentials ctx now previous fresh a = (a, Inr (i, c))"
  | (ran) c a' where "fresh = Inr c" "credentials ctx now previous fresh a = (a', Inr (ea_runs a, c))" "ea_cached a' = Some (ea_runs a, c)"
      "ea_cert a' = cr_cert c" "ea_runs a' = ea_runs a + 1" "\<And>i d. ea_cached a = Some (i, d) \<Longrightarrow> \<not> serves now previous (i, d)"
proof -
  consider e where "ctx = Some e" | i c where "ctx = None" "servable now previous a = Some (i, c)"
    | e where "ctx = None" "servable now previous a = None" "fresh = Inl e" | c where "ctx = None" "servable now previous a = None" "fresh = Inr c"
    by (cases ctx; cases "servable now previous a"; cases fresh) auto
  then show thesis
  proof cases
    case 1
    then show ?thesis using refused by (simp add: credentials_def)
  next
    case 2
    then show ?thesis using cached by (auto simp: credentials_def servable_def split: option.splits if_splits)
  next
    case 3
    then show ?thesis using refused by (simp add: credentials_def)
  next
    case 4
    then have "\<And>i d. ea_cached a = Some (i, d) \<Longrightarrow> \<not> serves now previous (i, d)" by (auto simp: servable_def split: if_splits)
    with 4 show ?thesis using ran by (simp add: credentials_def Let_def)
  qed
qed

lemma replaced_after_run:
  assumes "\<And>i. length (filter (replaces i) lg) \<le> (if Suc i < n then 1 else 0)" "\<And>p. previous = Some p \<Longrightarrow> Suc p = n"
  shows "length (filter (replaces i) ((previous, True, clock, k, c) # lg)) \<le> (if Suc i < n + 1 then 1 else 0)"
proof (cases "previous = Some i")
  case True
  with assms(2) have "Suc i = n" by simp
  with assms(1) [of i] True show ?thesis by (simp add: replaces_def)
next
  case False
  with assms(1) [of i] show ?thesis by (auto simp: replaces_def split: if_splits)
qed

lemma consult_step_inv:
  assumes run: "\<And>w c. run w = Inr c \<Longrightarrow> sound (hw_now w) c" and s: "exec_inv s"
  shows "exec_inv (consult_step run q s)"
proof -
  obtain a lg where al: "s = (a, lg)" by fastforce
  note s = s [unfolded al exec_inv_def prod.case]
  show ?thesis
  proof (cases "list_all (\<lambda>i. i < ea_runs a) (case cn_previous q of None \<Rightarrow> [] | Some i \<Rightarrow> [i])")
    case False
    with s show ?thesis by (simp add: al consult_step_def exec_inv_def)
  next
    case True
    show ?thesis
    proof (cases rule: credentials_cases [of "cn_ctx q" "cn_now q" "cn_previous q" "run (cn_world q)" a])
      case (refused e)
      with True s show ?thesis by (simp add: al consult_step_def exec_inv_def)
    next
      case (cached i c)
      then have "given_sound (cn_previous q, False, cn_now q, i, c)" using s by (auto simp: given_sound_def serves_def)
      moreover have "filter (replaces j) ((cn_previous q, False, cn_now q, i, c) # lg) = filter (replaces j) lg" for j by (simp add: replaces_def)
      ultimately show ?thesis using True s cached by (simp add: al consult_step_def exec_inv_def)
    next
      case (ran c a')
      from run [OF ran(1)] have snd: "token_ok (cr_token c)" "cr_token c \<noteq> [] \<or> cr_cert c \<noteq> None" "unexpired (hw_now (cn_world q)) c"
        by (simp_all add: sound_def)
      have n: "Suc p = ea_runs a" if "cn_previous q = Some p" for p
      proof (cases "ea_cached a")
        case None
        with s True that show ?thesis by simp
      next
        case (Some x)
        with s ran(6) [of "fst x" "snd x"] that show ?thesis by (cases x) (auto simp: serves_def)
      qed
      have "length (filter (replaces j) ((cn_previous q, True, hw_now (cn_world q), ea_runs a, c) # lg)) \<le> (if Suc j < ea_runs a' then 1 else 0)" for j
        using replaced_after_run [of lg "ea_runs a" "cn_previous q"] s n ran(5) by simp
      moreover have "given_sound (cn_previous q, True, hw_now (cn_world q), ea_runs a, c)" using snd by (simp add: given_sound_def)
      ultimately show ?thesis using True s snd ran(2-5) by (simp add: al consult_step_def exec_inv_def)
    qed
  qed
qed

text \<open>The invariant needs of the helper's run only that it checks what it accepts.\<close>

interpretation exec_consultations: kept_by_operations "consult_step (\<lambda>w. fst (run_helper decode pair look c command w))" exec_inv
  for decode pair look c command
  by unfold_locales (auto intro: consult_step_inv run_helper_sound)


text \<open>A request is sent at most once, and one with an authorisation of its own as it is.\<close>

lemma exec_request_sent_once:
  "length (fst (snd (exec_RoundTrip base authorization use renew ended a))) \<le> 1"
  by (simp add: exec_RoundTrip_def Let_def split: prod.split sum.split)

lemma own_authorization_kept:
  "authorization \<noteq> [] \<Longrightarrow> exec_RoundTrip base authorization use renew ended a = (a, [authorization], base authorization)"
  by (simp add: exec_RoundTrip_def)

end
