(* ===== verification/Oidc.thy ===== *)
theory Oidc
  imports Exec Investigation
begin

text \<open>
  \<open>internal/kube/oidc.go\<close> and the transaction of \<open>oidc_store.go\<close>: when an identity token of the configuration is used, how
  one is refreshed, and how the refreshed settings replace the old ones under the lock of the configuration file.  The
  URL parser and the certificate pool are parameters; the provider of identities is a function from requests to responses.
\<close>

section \<open>Identity tokens\<close>

type_synonym settings = "(string, string) gomap"

definition setting :: "settings \<Rightarrow> string \<Rightarrow> string" where
  "setting c k = mgetd [] c k"

text \<open>\<open>base64.RawURLEncoding\<close>: no padding, line breaks are skipped, and the bits behind the last byte are not looked at.\<close>

definition url_value :: "char \<Rightarrow> nat option" where
  "url_value c = (if c = CHR ''-'' then Some 62 else if c = CHR ''_'' then Some 63
     else if c = CHR ''+'' \<or> c = CHR ''/'' then None else base64_value c)"

fun raw_url_groups :: "nat list \<Rightarrow> string option" where
  "raw_url_groups [] = Some []"
| "raw_url_groups [x] = None"
| "raw_url_groups [x, y] = Some [char_of (x * 4 + y div 16)]"
| "raw_url_groups [x, y, z] = Some [char_of (x * 4 + y div 16), char_of (y mod 16 * 16 + z div 4)]"
| "raw_url_groups (x # y # z # u # rest) =
     map_option (append [char_of (x * 4 + y div 16), char_of (y mod 16 * 16 + z div 4), char_of (z mod 4 * 64 + u)]) (raw_url_groups rest)"

definition raw_url_decode :: "string \<Rightarrow> string option" where
  "raw_url_decode s = Option.bind (those (map url_value (filter (\<lambda>c. c \<noteq> CHR 0x0A \<and> c \<noteq> CHR 0x0D) s))) raw_url_groups"

text \<open>The claims of a token: only \<open>exp\<close> is read, and zero when it is missing or null.\<close>

definition exp_member :: "std \<Rightarrow> f64 \<Rightarrow> string \<Rightarrow> json \<Rightarrow> f64 option" where
  "exp_member S old k v = (if is_field ''exp'' k then (case v of JNum l \<Rightarrow> parse_f64 S l | JNull \<Rightarrow> Some old | _ \<Rightarrow> None) else Some old)"

definition token_expiry :: "std \<Rightarrow> string \<Rightarrow> f64 option" where
  "token_expiry S token =
     (if 1048576 < length token \<or> list_ex (\<lambda>c. c \<in> set [CHR '' '', CHR 0x0D, CHR 0x0A, CHR 0x09]) token then None
      else case Split token CHR ''.'' of
        [a, b, c] \<Rightarrow>
          (case raw_url_decode b of
             None \<Rightarrow> None
           | Some claims \<Rightarrow> (case json_parse claims of None \<Rightarrow> None | Some j \<Rightarrow> dec_struct (exp_member S) (Fin 0) j))
      | _ \<Rightarrow> None)"

definition validIDToken :: "std \<Rightarrow> gotime \<Rightarrow> string \<Rightarrow> bool" where
  "validIDToken S now token = (case token_expiry S token of
     None \<Rightarrow> False | Some e \<Rightarrow> f64_lt (Fin (of_int (Unix (Add now (10 * second))))) e)"

section \<open>Settings\<close>

definition configureOIDC :: "string option \<Rightarrow> settings \<Rightarrow> status" where
  "configureOIDC name c = (if name \<noteq> Some ''oidc'' \<or> setting c ''idp-issuer-url'' = [] \<or> setting c ''client-id'' = [] then Some errOIDC else None)"

text \<open>\<open>maps.Equal\<close>.\<close>

definition maps_Equal :: "settings \<Rightarrow> settings \<Rightarrow> bool" where
  "maps_Equal a b = (length a = length b \<and> list_all (\<lambda>(k, v). mget b k = Some v) a)"

definition without_tokens :: "settings \<Rightarrow> settings" where
  "without_tokens c = mdel ''refresh-token'' (mdel ''id-token'' c)"

definition sameOIDCSettings :: "settings \<Rightarrow> settings \<Rightarrow> bool" where
  "sameOIDCSettings a b = maps_Equal (without_tokens a) (without_tokens b)"

record url =
  url_Scheme :: string
  url_Hostname :: string
  url_User :: bool
  url_Fragment :: string

definition oidcURL :: "(string \<Rightarrow> url option) \<Rightarrow> string \<Rightarrow> bool" where
  "oidcURL parse raw = (case parse raw of None \<Rightarrow> False
     | Some u \<Rightarrow> (url_Scheme u = ''https'' \<or> url_Scheme u = ''http'') \<and> url_Hostname u \<noteq> [] \<and> \<not> url_User u \<and> url_Fragment u = [])"

section \<open>Refreshing\<close>

text \<open>
  A request to the provider of identities: reading its metadata, or presenting the refresh token, with the client's
  credentials in the header or in the form.  The response is a status and a body of at most 1 MiB.
\<close>

datatype idp_request = Discover string | Exchange string string bool "(string \<times> string) list"

type_synonym issuer = "idp_request \<Rightarrow> (string \<times> nat) result"

record metadata =
  md_Issuer :: string
  md_Endpoint :: string
  md_AuthMethods :: "string list option"

definition metadata_member :: "metadata \<Rightarrow> string \<Rightarrow> json \<Rightarrow> metadata option" where
  "metadata_member m k v =
     (if is_field ''issuer'' k then map_option (\<lambda>x. m\<lparr>md_Issuer := x\<rparr>) (dec_string (md_Issuer m) v)
      else if is_field ''token_endpoint'' k then map_option (\<lambda>x. m\<lparr>md_Endpoint := x\<rparr>) (dec_string (md_Endpoint m) v)
      else if is_field ''token_endpoint_auth_methods_supported'' k then
        (case v of
           JNull \<Rightarrow> Some (m\<lparr>md_AuthMethods := None\<rparr>)
         | JArr vs \<Rightarrow> map_option (\<lambda>ms. m\<lparr>md_AuthMethods := Some ms\<rparr>) (those (map (dec_string []) vs))
         | _ \<Rightarrow> None)
      else Some m)"

definition unmarshal :: "('a \<Rightarrow> string \<Rightarrow> json \<Rightarrow> 'a option) \<Rightarrow> 'a \<Rightarrow> string \<Rightarrow> 'a option" where
  "unmarshal f zero raw = (case json_parse raw of None \<Rightarrow> None | Some j \<Rightarrow> dec_struct f zero j)"

definition read_metadata :: "(string \<Rightarrow> url option) \<Rightarrow> string \<Rightarrow> string \<Rightarrow> metadata option" where
  "read_metadata parse issuer body =
     (case unmarshal metadata_member \<lparr>md_Issuer = [], md_Endpoint = [], md_AuthMethods = None\<rparr> body of
        None \<Rightarrow> None
      | Some m \<Rightarrow>
          (if (md_Issuer m \<noteq> [] \<and> md_Issuer m \<noteq> issuer) \<or> \<not> oidcURL parse (md_Endpoint m) then None
           else if HasPrefix issuer ''https:'' \<and> \<not> HasPrefix (md_Endpoint m) ''https:'' then None
           else Some m))"

definition string_member :: "string \<Rightarrow> string \<Rightarrow> string \<Rightarrow> json \<Rightarrow> string option" where
  "string_member name old k v = (if is_field name k then dec_string old v else Some old)"

definition explicit_auth_failure :: "(string \<times> nat) result \<Rightarrow> bool" where
  "explicit_auth_failure r = (case r of
     Inl e \<Rightarrow> False
   | Inr (body, code) \<Rightarrow> code = 401 \<or> (code = 400 \<and> unmarshal (string_member ''error'') [] body = Some ''invalid_client''))"

text \<open>The methods of authentication: in the header, or in the form; \<open>None\<close> when the metadata offers neither.\<close>

definition basic_method :: "metadata \<Rightarrow> bool option" where
  "basic_method m = (case md_AuthMethods m of
     None \<Rightarrow> Some True
   | Some ms \<Rightarrow> if ''client_secret_basic'' \<in> set ms then Some True else if ''client_secret_post'' \<in> set ms then Some False else None)"

definition exchange :: "settings \<Rightarrow> string \<Rightarrow> bool \<Rightarrow> idp_request" where
  "exchange c endpoint basic = Exchange endpoint (setting c ''refresh-token'') basic
     (if basic then [] else (''client_id'', setting c ''client-id'') #
        (if setting c ''client-secret'' = [] then [] else [(''client_secret'', setting c ''client-secret'')]))"

text \<open>The token of the answer: an identity and, when it is rotated, a refresh token.\<close>

definition answer_member :: "string \<times> string \<Rightarrow> string \<Rightarrow> json \<Rightarrow> (string \<times> string) option" where
  "answer_member t k v =
     (if is_field ''id_token'' k then map_option (\<lambda>x. (x, snd t)) (dec_string (fst t) v)
      else if is_field ''refresh_token'' k then map_option (\<lambda>x. (fst t, x)) (dec_string (snd t) v)
      else Some t)"

definition accept_answer :: "std \<Rightarrow> gotime \<Rightarrow> settings \<Rightarrow> string \<Rightarrow> settings option" where
  "accept_answer S now c body = (case unmarshal answer_member ([], []) body of
     None \<Rightarrow> None
   | Some (identity, rotated) \<Rightarrow>
       (if \<not> validIDToken S now identity \<or> list_ex (\<lambda>x. x \<in> set [CHR 0x0D, CHR 0x0A, CHR 0x00]) rotated then None
        else let next_c = mput ''id-token'' identity c in Some (if rotated = [] then next_c else mput ''refresh-token'' rotated next_c)))"

text \<open>Presenting the refresh token, once or, after an explicit refusal of a method the metadata does not name, twice.\<close>

definition exchange_again :: "issuer \<Rightarrow> settings \<Rightarrow> metadata \<Rightarrow> bool \<Rightarrow> bool" where
  "exchange_again idp c m basic = (md_AuthMethods m = None \<and> explicit_auth_failure (idp (exchange c (md_Endpoint m) basic)))"

definition exchange_token :: "std \<Rightarrow> issuer \<Rightarrow> gotime \<Rightarrow> settings \<Rightarrow> metadata \<Rightarrow> bool \<Rightarrow> settings result" where
  "exchange_token S idp now c m basic =
     (case idp (exchange c (md_Endpoint m) (if exchange_again idp c m basic then False else basic)) of
        Inl e \<Rightarrow> Inl errOIDC
      | Inr (body, code) \<Rightarrow>
          (if code \<noteq> 200 then Inl errOIDC
           else case accept_answer S now c body of None \<Rightarrow> Inl errOIDC | Some next_c \<Rightarrow> Inr next_c))"

text \<open>
  \<open>refreshOIDC\<close>: the new settings and the requests that were made.  \<open>transport_error\<close> is whatever keeps the client from being
  made: no default transport, or certificates that cannot be read or parsed.
\<close>

definition discovery :: "settings \<Rightarrow> idp_request" where
  "discovery c = Discover (TrimRightSet (setting c ''idp-issuer-url'') {CHR ''/''} @ ''/.well-known/openid-configuration'')"

definition discovered :: "(string \<Rightarrow> url option) \<Rightarrow> settings \<Rightarrow> (string \<times> nat) result \<Rightarrow> (metadata \<times> bool) option" where
  "discovered parse c r = (case r of
     Inl e \<Rightarrow> None
   | Inr (body, code) \<Rightarrow>
       (if code \<noteq> 200 then None
        else case read_metadata parse (setting c ''idp-issuer-url'') body of
          None \<Rightarrow> None | Some m \<Rightarrow> map_option (Pair m) (basic_method m)))"

definition refreshOIDC :: "std \<Rightarrow> (string \<Rightarrow> url option) \<Rightarrow> bool \<Rightarrow> issuer \<Rightarrow> gotime \<Rightarrow> settings \<Rightarrow> settings result \<times> idp_request list" where
  "refreshOIDC S parse transport_error idp now c =
     (if \<not> oidcURL parse (setting c ''idp-issuer-url'') \<or> transport_error then (Inl errOIDC, [])
      else case discovered parse c (idp (discovery c)) of
        None \<Rightarrow> (Inl errOIDC, [discovery c])
      | Some (m, basic) \<Rightarrow>
          (exchange_token S idp now c m basic,
           [discovery c, exchange c (md_Endpoint m) basic] @ (if exchange_again idp c m basic then [exchange c (md_Endpoint m) False] else [])))"

section \<open>The transaction\<close>

text \<open>
  What a transaction finds: whether the lock was taken, the settings it reads from the file, and whether the file could be
  replaced; \<open>persist\<close> refuses when the file's settings are no longer those that were read.
\<close>

record store_world =
  ow_begin :: status
  ow_read :: "settings option"
  ow_reread :: "settings option"
  ow_replace :: bool

definition persist :: "store_world \<Rightarrow> settings \<Rightarrow> status" where
  "persist w previous = (case ow_reread w of
     None \<Rightarrow> Some errOIDC
   | Some current \<Rightarrow> if \<not> maps_Equal previous current \<or> \<not> ow_replace w then Some errOIDC else None)"

text \<open>\<open>token\<close>: the token, the requests made, and the settings the file is left with when it is replaced.\<close>

definition oidc_token :: "std \<Rightarrow> (string \<Rightarrow> url option) \<Rightarrow> bool \<Rightarrow> issuer \<Rightarrow> gotime \<Rightarrow> bool \<Rightarrow> settings \<Rightarrow> store_world
    \<Rightarrow> string result \<times> idp_request list \<times> settings option" where
  "oidc_token S parse transport_error idp now has_store config w =
     (if validIDToken S now (setting config ''id-token'') then (Inr (setting config ''id-token''), [], None)
      else if \<not> has_store then (Inl errOIDC, [], None)
      else case ow_begin w of
        Some e \<Rightarrow> (Inl e, [], None)
      | None \<Rightarrow>
          (case ow_read w of
             None \<Rightarrow> (Inl errOIDC, [], None)
           | Some c \<Rightarrow>
               (if \<not> sameOIDCSettings config c then (Inl errOIDC, [], None)
                else if validIDToken S now (setting c ''id-token'') then (Inr (setting c ''id-token''), [], None)
                else if setting c ''refresh-token'' = [] then (Inl errOIDC, [], None)
                else case refreshOIDC S parse transport_error idp now c of
                  (Inl e, sent) \<Rightarrow> (Inl e, sent, None)
                | (Inr next_c, sent) \<Rightarrow>
                    (case persist w c of
                       Some e \<Rightarrow> (Inl e, sent, None)
                     | None \<Rightarrow> (Inr (setting next_c ''id-token''), sent, Some next_c)))))"

text \<open>The transport of a request: the header it is sent with, or the error it fails with.\<close>

definition oidc_RoundTrip :: "string \<Rightarrow> string result \<Rightarrow> status \<Rightarrow> string result" where
  "oidc_RoundTrip authorization token ctx =
     (if authorization \<noteq> [] then Inr authorization
      else case token of
        Inl e \<Rightarrow> Inl (case ctx of Some c \<Rightarrow> c | None \<Rightarrow> errOIDC)
      | Inr t \<Rightarrow> Inr (''Bearer '' @ t))"

section \<open>What a refresh promises\<close>

text \<open>A request keeps the refresh token from others than the endpoint it belongs to.\<close>

definition request_ok :: "(string \<Rightarrow> url option) \<Rightarrow> settings \<Rightarrow> idp_request \<Rightarrow> bool" where
  "request_ok parse c q = (case q of
     Discover u \<Rightarrow> True
   | Exchange endpoint token basic form \<Rightarrow> token = setting c ''refresh-token'' \<and> oidcURL parse endpoint \<and>
       (\<not> HasPrefix (setting c ''idp-issuer-url'') ''https:'' \<or> HasPrefix endpoint ''https:''))"

definition exchanges :: "idp_request list \<Rightarrow> idp_request list" where
  "exchanges qs = filter (\<lambda>q. case q of Exchange e t b f \<Rightarrow> True | _ \<Rightarrow> False) qs"

text \<open>A second exchange only after the first, with the header, has been refused as such.\<close>

definition repeated_ok :: "issuer \<Rightarrow> idp_request list \<Rightarrow> bool" where
  "repeated_ok idp qs = (case qs of
     [] \<Rightarrow> True | [q] \<Rightarrow> True
   | [q, q'] \<Rightarrow> explicit_auth_failure (idp q) \<and> (case (q, q') of (Exchange e t b f, Exchange e' t' b' f') \<Rightarrow> e' = e \<and> b \<and> \<not> b' | _ \<Rightarrow> False)
   | _ \<Rightarrow> False)"

lemma setting_mput [simp]: "setting (mput k v c) k' = (if k' = k then v else setting c k')"
  by (simp add: setting_def mgetd_def)

lemma without_tokens_kept: "without_tokens (mput ''id-token'' i c) = without_tokens c" "without_tokens (mput ''refresh-token'' r c) = without_tokens c"
  by (simp_all add: without_tokens_def AList.delete_update_same AList.delete_update AList.delete_twist [of "''id-token''"])

lemma accept_answer_sound:
  "accept_answer S now c body = Some n \<Longrightarrow> validIDToken S now (setting n ''id-token'') \<and> without_tokens n = without_tokens c"
  by (auto simp: accept_answer_def Let_def without_tokens_kept split: option.splits if_splits)

lemma read_metadata_endpoint:
  "read_metadata parse issuer body = Some m \<Longrightarrow> oidcURL parse (md_Endpoint m) \<and> (\<not> HasPrefix issuer ''https:'' \<or> HasPrefix (md_Endpoint m) ''https:'')"
  by (auto simp: read_metadata_def split: option.splits if_splits)

lemma discovered_metadata:
  "discovered parse c r = Some (m, basic) \<Longrightarrow> \<exists>body. read_metadata parse (setting c ''idp-issuer-url'') body = Some m \<and> basic_method m = Some basic"
  by (auto simp: discovered_def split: sum.splits option.splits if_splits)

lemma exchange_token_sound:
  "case exchange_token S idp now c m basic of
     Inl e \<Rightarrow> e = errOIDC | Inr n \<Rightarrow> validIDToken S now (setting n ''id-token'') \<and> without_tokens n = without_tokens c"
  by (auto simp: exchange_token_def split: sum.split option.split dest: accept_answer_sound)

lemma exchanges_simps [simp]:
  "exchanges (exchange c e b # qs) = exchange c e b # exchanges qs" "exchanges (discovery c # qs) = exchanges qs" "exchanges [] = []"
  by (simp_all add: exchanges_def exchange_def discovery_def)

lemma exchanges_ok:
  assumes "basic_method m = Some basic"
  shows "repeated_ok idp (exchange c (md_Endpoint m) basic # (if exchange_again idp c m basic then [exchange c (md_Endpoint m) False] else []))"
proof (cases "exchange_again idp c m basic")
  case True
  with assms have "basic" "explicit_auth_failure (idp (exchange c (md_Endpoint m) True))" by (auto simp: exchange_again_def basic_method_def)
  with True show ?thesis by (simp add: repeated_ok_def exchange_def [of c "md_Endpoint m" True] exchange_def [of c "md_Endpoint m" False])
next
  case False
  then show ?thesis by (simp add: repeated_ok_def)
qed

text \<open>
  A refresh token is presented only to the token endpoint that the configured provider names in its metadata, over HTTPS
  when the provider is reached over HTTPS; it is presented twice only when the first, with the credentials in the header,
  was refused as such and the metadata names no method; and what is accepted is a token that is valid for ten seconds
  more, in settings that are otherwise unchanged.
\<close>

lemma refresh_disciplined:
  assumes "refreshOIDC S parse te idp now c = (r, sent)"
  shows "list_all (request_ok parse c) sent \<and> repeated_ok idp (exchanges sent)
    \<and> (case r of Inl e \<Rightarrow> e = errOIDC | Inr n \<Rightarrow> validIDToken S now (setting n ''id-token'') \<and> without_tokens n = without_tokens c)"
proof -
  show ?thesis
  proof (cases "\<not> oidcURL parse (setting c ''idp-issuer-url'') \<or> te \<or> discovered parse c (idp (discovery c)) = None")
    case True
    with assms have "r = Inl errOIDC" "sent = [] \<or> sent = [discovery c]" by (auto simp: refreshOIDC_def split: if_split_asm)
    then show ?thesis by (auto simp: request_ok_def discovery_def exchanges_def repeated_ok_def)
  next
    case False
    then obtain m basic where d: "discovered parse c (idp (discovery c)) = Some (m, basic)" by auto
    with assms False have r: "r = exchange_token S idp now c m basic"
      and sent: "sent = [discovery c, exchange c (md_Endpoint m) basic] @ (if exchange_again idp c m basic then [exchange c (md_Endpoint m) False] else [])"
      by (auto simp: refreshOIDC_def)
    from discovered_metadata [OF d] read_metadata_endpoint have ok: "request_ok parse c (exchange c (md_Endpoint m) b)" "request_ok parse c (discovery c)" for b
      by (auto simp: request_ok_def exchange_def discovery_def)
    then have "list_all (request_ok parse c) sent" by (simp add: sent)
    moreover have "repeated_ok idp (exchanges sent)"
      using discovered_metadata [OF d] exchanges_ok [of m basic idp c] by (auto simp: sent)
    ultimately show ?thesis using exchange_token_sound r by blast
  qed
qed

definition https_url :: "string \<Rightarrow> url option" where
  "https_url s = Some \<lparr>url_Scheme = ''https'', url_Hostname = ''id.example'', url_User = False, url_Fragment = []\<rparr>"

definition old_settings :: settings where
  "old_settings = [(''idp-issuer-url'', ''https://id.example/''), (''client-id'', ''jev''), (''refresh-token'', ''r1''), (''id-token'', ''stale'')]"

definition short_token :: string where
  "short_token = ''h.eyJleHAiOjF9.s''"

text \<open>A provider of identities that names no method and knows the credentials in the form only.\<close>

definition form_issuer :: issuer where
  "form_issuer q = (case q of
     Discover u \<Rightarrow> Inr (marshal (JObj [(''token_endpoint'', JStr ''https://id.example/token'')]), 200)
   | Exchange e t basic form \<Rightarrow> if basic then Inr ([], 401) else Inr (marshal (JObj [(''id_token'', JStr short_token), (''refresh_token'', JStr ''r2'')]), 200))"

definition before_expiry :: gotime where
  "before_expiry = \<lparr>wall = unix_epoch - 20 * second, mono_ns = None\<rparr>"

lemma refreshed_once:
  "map_sum (\<lambda>e. True) (\<lambda>n. (setting n ''id-token'', setting n ''refresh-token'', setting n ''client-id''))
      (fst (refreshOIDC quick_std https_url False form_issuer before_expiry old_settings)) = Inr (short_token, ''r2'', ''jev'') \<and>
    length (snd (refreshOIDC quick_std https_url False form_issuer before_expiry old_settings)) = 3"
  by code_simp

lemma refresh_disciplined_witness:
  "\<exists>n sent. refreshOIDC quick_std https_url False form_issuer before_expiry old_settings = (Inr n, sent) \<and> length sent = 3 \<and>
    list_all (request_ok https_url old_settings) sent \<and> repeated_ok form_issuer (exchanges sent) \<and> without_tokens n = without_tokens old_settings"
proof -
  from refreshed_once obtain n sent where r: "refreshOIDC quick_std https_url False form_issuer before_expiry old_settings = (Inr n, sent)" "length sent = 3"
    by (cases "refreshOIDC quick_std https_url False form_issuer before_expiry old_settings") (auto split: sum.splits simp: map_sum_def)
  from refresh_disciplined [OF r(1)] r show ?thesis by auto
qed

section \<open>What a token promises\<close>

definition read_settings :: "settings \<Rightarrow> store_world \<Rightarrow> settings \<Rightarrow> bool" where
  "read_settings config w c = (ow_begin w = None \<and> ow_read w = Some c \<and> sameOIDCSettings config c)"

lemma oidc_token_cases:
  assumes "oidc_token S parse te idp now has_store config w = (r, sent, file)"
  obtains (configured) "r = Inr (setting config ''id-token'')" "validIDToken S now (setting config ''id-token'')" "sent = []" "file = None"
  | (failed) e where "r = Inl e" "sent = []" "file = None"
  | (stored) c where "r = Inr (setting c ''id-token'')" "validIDToken S now (setting c ''id-token'')" "sent = []" "file = None"
  | (refused) c e where "\<not> validIDToken S now (setting config ''id-token'')" "read_settings config w c" "\<not> validIDToken S now (setting c ''id-token'')"
      "sent = snd (refreshOIDC S parse te idp now c)" "r = Inl e" "file = None"
  | (refreshed) c n where "\<not> validIDToken S now (setting config ''id-token'')" "read_settings config w c" "\<not> validIDToken S now (setting c ''id-token'')"
      "refreshOIDC S parse te idp now c = (Inr n, sent)" "persist w c = None" "r = Inr (setting n ''id-token'')" "file = Some n"
proof (cases "validIDToken S now (setting config ''id-token'')")
  case True
  with assms configured show thesis by (auto simp: oidc_token_def)
next
  case config: False
  show thesis
  proof (cases "has_store \<and> ow_begin w = None \<and> ow_read w \<noteq> None")
    case False
    with assms config failed show thesis by (auto simp: oidc_token_def split: if_split_asm option.split_asm)
  next
    case True
    then obtain c where c: "has_store" "ow_begin w = None" "ow_read w = Some c" by auto
    show thesis
    proof (cases "sameOIDCSettings config c \<and> \<not> validIDToken S now (setting c ''id-token'') \<and> setting c ''refresh-token'' \<noteq> []")
      case False
      with assms config c failed stored show thesis by (auto simp: oidc_token_def split: if_split_asm)
    next
      case True
      with c have rs: "read_settings config w c" by (simp add: read_settings_def)
      show thesis
      proof (cases "fst (refreshOIDC S parse te idp now c)")
        case (Inl e)
        with assms config c True refused [OF config rs] show thesis by (cases "refreshOIDC S parse te idp now c") (auto simp: oidc_token_def)
      next
        case (Inr n)
        then obtain q where q: "refreshOIDC S parse te idp now c = (Inr n, q)" by (cases "refreshOIDC S parse te idp now c") auto
        with assms config c True refused [OF config rs] refreshed [OF config rs] show thesis
          by (cases "persist w c") (auto simp: oidc_token_def)
      qed
    qed
  qed
qed


definition quiet_store :: store_world where
  "quiet_store = \<lparr>ow_begin = None, ow_read = Some old_settings, ow_reread = Some old_settings, ow_replace = True\<rparr>"

lemma token_refreshed:
  "map_sum (\<lambda>e. True) (\<lambda>t. t) (fst (oidc_token quick_std https_url False form_issuer before_expiry True old_settings quiet_store)) = Inr short_token"
  by code_simp


text \<open>
  The guard against a downgrade compares the spelling of the scheme, which the parser ignores: a provider configured with
  a scheme in capitals is reached over HTTPS and may name an endpoint without it.
\<close>

definition parse_scheme :: "string \<Rightarrow> url option" where
  "parse_scheme s = (case Split s CHR '':'' of
     scheme # rest # _ \<Rightarrow> Some \<lparr>url_Scheme = lower_ascii scheme, url_Hostname = drop 2 rest, url_User = False, url_Fragment = []\<rparr>
   | _ \<Rightarrow> None)"

lemma capital_scheme_downgraded:
  "map_option url_Scheme (parse_scheme ''HTTPS://id.example'') = Some ''https'' \<and>
   map_option md_Endpoint (read_metadata parse_scheme ''HTTPS://id.example'' (marshal (JObj [(''token_endpoint'', JStr ''http://id.example'')])))
     = Some ''http://id.example'' \<and>
   read_metadata parse_scheme ''https://id.example'' (marshal (JObj [(''token_endpoint'', JStr ''http://id.example'')])) = None"
  by (intro conjI) code_simp+

end
