(* ===== verification/Volume.thy ===== *)
theory Volume
  imports Prelude GoText
begin

text \<open>
  \<open>internal/controller/volume.go\<close>: the offline preparation of the state volume.  The volume is its root directory with the two
  directories the code knows; every system call may fail (\<open>fails\<close> is asked with the call and what it is applied to), and a
  failing call ends the preparation.  A crash between two calls leaves the same volume as a failure of the second one, so
  the theorems cover interruption at every point.  What a directory has not yet synced is part of the volume.
\<close>

section \<open>The volume\<close>

datatype place = Root | Private | Staging

record leaf =
  lf_regular :: bool
  lf_owned :: bool
  lf_links :: nat
  lf_mode :: nat
  lf_data :: string

record folder =
  fo_owned :: bool
  fo_mode :: nat
  fo_files :: "(string, leaf) gomap"

text \<open>A directory of another name, a link or a device in the root is a leaf that is not regular.\<close>

record volume =
  vo_directory :: bool
  vo_rooted :: bool
  vo_grouped :: bool
  vo_mode :: nat
  vo_files :: "(string, leaf) gomap"
  vo_private :: "folder option"
  vo_staging :: "folder option"
  vo_unsynced :: "(place \<times> string) list"

type_synonym vcall = "string list"

definition volumeState :: string where "volumeState = ''private''"

definition volumeStaging :: string where "volumeStaging = ''.private-migration''"

definition volumeFiles :: "string list" where
  "volumeFiles = [''state.db.lock'', ''state.db-journal'', ''state.db-wal'', ''state.db-shm'', ''state.db'']"

definition errVolume :: goerror where
  "errVolume = Err ''state volume preparation failed: stop all volume users, preserve the volume, and follow deploy/README.md recovery instructions''"

fun place_name :: "place \<Rightarrow> string" where
  "place_name Root = ''.''"
| "place_name Private = volumeState"
| "place_name Staging = volumeStaging"

fun folder_at :: "place \<Rightarrow> volume \<Rightarrow> folder option" where
  "folder_at Root v = None"
| "folder_at Private v = vo_private v"
| "folder_at Staging v = vo_staging v"

fun set_folder :: "place \<Rightarrow> folder option \<Rightarrow> volume \<Rightarrow> volume" where
  "set_folder Root d v = v"
| "set_folder Private d v = v\<lparr>vo_private := d\<rparr>"
| "set_folder Staging d v = v\<lparr>vo_staging := d\<rparr>"

definition files_at :: "place \<Rightarrow> volume \<Rightarrow> (string, leaf) gomap" where
  "files_at p v = (if p = Root then vo_files v else case folder_at p v of None \<Rightarrow> [] | Some d \<Rightarrow> fo_files d)"

definition set_files :: "place \<Rightarrow> (string, leaf) gomap \<Rightarrow> volume \<Rightarrow> volume" where
  "set_files p fs v = (if p = Root then v\<lparr>vo_files := fs\<rparr> else set_folder p (map_option (fo_files_update (\<lambda>_. fs)) (folder_at p v)) v)"

definition unsynced :: "(place \<times> string) list \<Rightarrow> volume \<Rightarrow> volume" where
  "unsynced xs v = v\<lparr>vo_unsynced := xs @ vo_unsynced v\<rparr>"

text \<open>A call whose failure ends the preparation, and a step that needs the one before it.\<close>

type_synonym 'a vstep = "volume \<times> 'a result"

definition needs :: "bool \<Rightarrow> volume \<Rightarrow> unit vstep" where
  "needs ok v = (v, if ok then Inr () else Inl errVolume)"

definition after :: "'a vstep \<Rightarrow> (volume \<Rightarrow> 'a \<Rightarrow> 'b vstep) \<Rightarrow> 'b vstep" where
  "after x f = (case x of (v, Inl e) \<Rightarrow> (v, Inl e) | (v, Inr a) \<Rightarrow> f v a)"

section \<open>Files and directories\<close>

definition volumeRegular :: "leaf \<Rightarrow> bool" where
  "volumeRegular f = (lf_regular f \<and> lf_owned f \<and> lf_links f = 1)"

definition new_leaf :: leaf where
  "new_leaf = \<lparr>lf_regular = True, lf_owned = True, lf_links = 1, lf_mode = 384, lf_data = []\<rparr>"

text \<open>\<open>openat\<close> with or without \<open>O_CREAT\<close>, then the checks and the mode 0600.\<close>

definition open_leaf :: "(vcall \<Rightarrow> bool) \<Rightarrow> place \<Rightarrow> string \<Rightarrow> bool \<Rightarrow> volume \<Rightarrow> leaf vstep" where
  "open_leaf fails p name create v =
     (if fails [''openat'', place_name p, name, if create then ''create'' else ''''] then (v, Inl errVolume)
      else case mget (files_at p v) name of
        Some f \<Rightarrow> (v, Inr f)
      | None \<Rightarrow> if create then (unsynced [(p, name)] (set_files p (mput name new_leaf (files_at p v)) v), Inr new_leaf)
                else (v, Inl errVolume))"

definition volumeFile :: "(vcall \<Rightarrow> bool) \<Rightarrow> place \<Rightarrow> string \<Rightarrow> bool \<Rightarrow> volume \<Rightarrow> unit vstep" where
  "volumeFile fails p name create v = after (open_leaf fails p name create v) (\<lambda>v1 f.
     if fails [''fstat'', place_name p, name] \<or> \<not> volumeRegular f \<or> fails [''fchmod'', place_name p, name] then (v1, Inl errVolume)
     else (set_files p (mput name (f\<lparr>lf_mode := 384\<rparr>) (files_at p v1)) v1, Inr ()))"

definition new_folder :: folder where
  "new_folder = \<lparr>fo_owned = True, fo_mode = 448, fo_files = []\<rparr>"

text \<open>The answer says whether the directory is there; it never is the root.\<close>

definition make_folder :: "(vcall \<Rightarrow> bool) \<Rightarrow> place \<Rightarrow> volume \<Rightarrow> unit vstep" where
  "make_folder fails p v =
     (if fails [''mkdirat'', place_name p] \<or> mhas (vo_files v) (place_name p) \<or> folder_at p v \<noteq> None then (v, Inl errVolume)
      else (unsynced [(Root, place_name p)] (set_folder p (Some new_folder) v), Inr ()))"

definition open_folder :: "(vcall \<Rightarrow> bool) \<Rightarrow> place \<Rightarrow> bool \<Rightarrow> volume \<Rightarrow> bool vstep" where
  "open_folder fails p create v =
     (if fails [''openat'', place_name p, if create then ''create'' else ''''] \<or> mhas (vo_files v) (place_name p) then (v, Inl errVolume)
      else case folder_at p v of
        None \<Rightarrow> (v, if create then Inl errVolume else Inr False)
      | Some d \<Rightarrow>
          if fails [''fstat'', place_name p] \<or> \<not> fo_owned d \<or> fails [''fchmod'', place_name p] then (v, Inl errVolume)
          else (set_folder p (Some (d\<lparr>fo_mode := 448\<rparr>)) v, Inr True))"

definition volumeDirectory :: "(vcall \<Rightarrow> bool) \<Rightarrow> place \<Rightarrow> bool \<Rightarrow> volume \<Rightarrow> bool vstep" where
  "volumeDirectory fails p create v =
     after (if create then make_folder fails p v else (v, Inr ())) (\<lambda>v1 _. open_folder fails p create v1)"

definition entry_ok :: "(vcall \<Rightarrow> bool) \<Rightarrow> place \<Rightarrow> string \<times> leaf \<Rightarrow> bool" where
  "entry_ok fails p x = (fst x \<in> set volumeFiles \<and> \<not> fails [''fstatat'', place_name p, fst x] \<and> volumeRegular (snd x))"

definition volumeEntries :: "(vcall \<Rightarrow> bool) \<Rightarrow> place \<Rightarrow> volume \<Rightarrow> string list result" where
  "volumeEntries fails p v =
     (let xs = filter (\<lambda>x. p \<noteq> Root \<or> HasPrefix (fst x) ''state.db'') (files_at p v) in
      if fails [''readdir'', place_name p] \<or> \<not> list_all (entry_ok fails p) xs then Inl errVolume else Inr (map fst xs))"

section \<open>Preparation\<close>

definition sync_folder :: "(vcall \<Rightarrow> bool) \<Rightarrow> place \<Rightarrow> string \<Rightarrow> volume \<Rightarrow> unit vstep" where
  "sync_folder fails p site v =
     (if fails [''fsync'', place_name p, site] then (v, Inl errVolume)
      else (v\<lparr>vo_unsynced := filter (\<lambda>x. fst x \<noteq> p) (vo_unsynced v)\<rparr>, Inr ()))"

definition sync_leaf :: "(vcall \<Rightarrow> bool) \<Rightarrow> place \<Rightarrow> string \<Rightarrow> volume \<Rightarrow> unit vstep" where
  "sync_leaf fails p name v = after (volumeFile fails p name False v) (\<lambda>v1 _. needs (\<not> fails [''fsync'', place_name p, ''file'', name]) v1)"

fun each :: "('a \<Rightarrow> volume \<Rightarrow> unit vstep) \<Rightarrow> 'a list \<Rightarrow> volume \<Rightarrow> unit vstep" where
  "each f [] v = (v, Inr ())"
| "each f (x # xs) v = after (f x v) (\<lambda>v1 _. each f xs v1)"

definition take_lock :: "(vcall \<Rightarrow> bool) \<Rightarrow> place \<Rightarrow> string \<Rightarrow> volume \<Rightarrow> unit vstep" where
  "take_lock fails p name v = after (volumeFile fails p name True v) (\<lambda>v1 _. needs (\<not> fails [''flock'', place_name p, name]) v1)"

definition normalizeVolumeState :: "(vcall \<Rightarrow> bool) \<Rightarrow> string list \<Rightarrow> volume \<Rightarrow> unit vstep" where
  "normalizeVolumeState fails entries v =
     (if entries = [] then sync_folder fails Private ''empty'' v
      else if ''state.db'' \<notin> set entries then (v, Inl errVolume)
      else after (take_lock fails Private ''state.db.lock'' v) (\<lambda>v1 _.
           after (each (sync_leaf fails Private) entries v1) (\<lambda>v2 _. sync_folder fails Private ''files'' v2)))"

text \<open>Moving one file: it leaves the root and appears in the staging directory, and both directories are synced.\<close>

definition rename_leaf :: "(vcall \<Rightarrow> bool) \<Rightarrow> string \<Rightarrow> volume \<Rightarrow> unit vstep" where
  "rename_leaf fails name v =
     (case mget (vo_files v) name of
        None \<Rightarrow> (v, Inl errVolume)
      | Some f \<Rightarrow>
          if fails [''renameat'', name] then (v, Inl errVolume)
          else (unsynced [(Root, name), (Staging, name)]
                  (set_files Root (mdel name (vo_files v)) (set_files Staging (mput name f (files_at Staging v)) v)), Inr ()))"

definition move_file :: "(vcall \<Rightarrow> bool) \<Rightarrow> string \<Rightarrow> volume \<Rightarrow> unit vstep" where
  "move_file fails name v =
     after (sync_leaf fails Root name v) (\<lambda>v1 _. after (rename_leaf fails name v1) (\<lambda>v2 _.
     after (sync_folder fails Staging name v2) (\<lambda>v3 _. sync_folder fails Root name v3)))"

text \<open>The rename of a directory replaces an empty one; its entries keep what they have not synced.\<close>

definition rename_staging :: "(vcall \<Rightarrow> bool) \<Rightarrow> volume \<Rightarrow> unit vstep" where
  "rename_staging fails v =
     (if fails [''renameat'', volumeStaging] \<or> mhas (vo_files v) volumeState \<or> files_at Private v \<noteq> [] \<or> vo_staging v = None then (v, Inl errVolume)
      else (unsynced [(Root, volumeStaging), (Root, volumeState)]
              (v\<lparr>vo_private := vo_staging v, vo_staging := None,
                 vo_unsynced := map (\<lambda>(p, n). (if p = Staging then Private else p, n)) (filter (\<lambda>x. fst x \<noteq> Private) (vo_unsynced v))\<rparr>), Inr ()))"

definition publish :: "(vcall \<Rightarrow> bool) \<Rightarrow> volume \<Rightarrow> unit vstep" where
  "publish fails v = after (sync_folder fails Staging ''publish'' v) (\<lambda>v1 _.
     after (rename_staging fails v1) (\<lambda>v2 _. sync_folder fails Root ''publish'' v2))"

definition migrate_volume :: "(vcall \<Rightarrow> bool) \<Rightarrow> string list \<Rightarrow> volume \<Rightarrow> unit vstep" where
  "migrate_volume fails legacy v =
     (if ''state.db'' \<notin> set legacy then (v, Inl errVolume)
      else after (take_lock fails Root ''state.db.lock'' v) (\<lambda>v1 _.
           after (volumeDirectory fails Staging True v1) (\<lambda>v2 _.
           after (sync_folder fails Root ''staging'' v2) (\<lambda>v3 _.
           after (each (move_file fails) (filter (\<lambda>n. n = ''state.db.lock'' \<or> n \<in> set legacy) volumeFiles) v3) (\<lambda>v4 _.
             publish fails v4)))))"

definition fresh_volume :: "(vcall \<Rightarrow> bool) \<Rightarrow> bool \<Rightarrow> string list \<Rightarrow> volume \<Rightarrow> unit vstep" where
  "fresh_volume fails present entries v =
     after (if present then (v, Inr True) else volumeDirectory fails Private True v) (\<lambda>v1 _.
     after (normalizeVolumeState fails entries v1) (\<lambda>v2 _. sync_folder fails Root ''fresh'' v2))"

definition root_ok :: "(vcall \<Rightarrow> bool) \<Rightarrow> volume \<Rightarrow> bool" where
  "root_ok fails v = (\<not> fails [''open''] \<and> vo_directory v \<and> \<not> fails [''fstat''] \<and> vo_rooted v \<and> vo_grouped v \<and> even (vo_mode v div 2))"

definition private_entries :: "(vcall \<Rightarrow> bool) \<Rightarrow> bool \<Rightarrow> volume \<Rightarrow> string list result" where
  "private_entries fails present v = (if present then volumeEntries fails Private v else Inr [])"

definition inspect_volume :: "(vcall \<Rightarrow> bool) \<Rightarrow> volume \<Rightarrow> (string list \<times> bool \<times> string list) vstep" where
  "inspect_volume fails v =
     after (needs (root_ok fails v) v) (\<lambda>v0 _.
     after (take_lock fails Root ''.prepare.lock'' v0) (\<lambda>v1 _.
     after (v1, volumeEntries fails Root v1) (\<lambda>v2 legacy.
     after (volumeDirectory fails Private False v2) (\<lambda>v3 present.
     after (volumeDirectory fails Staging False v3) (\<lambda>v4 staged.
     after (needs (\<not> staged) v4) (\<lambda>v5 _.
     after (v5, private_entries fails present v5) (\<lambda>v6 entries.
     after (needs (entries = [] \<or> legacy = []) v6) (\<lambda>v7 _. (v7, Inr (legacy, present, entries))))))))))"

definition prepareVolume :: "(vcall \<Rightarrow> bool) \<Rightarrow> volume \<Rightarrow> unit vstep" where
  "prepareVolume fails v = after (inspect_volume fails v) (\<lambda>v1 (legacy, present, entries).
     if legacy = [] then fresh_volume fails present entries v1 else migrate_volume fails legacy v1)"

section \<open>What a step may change\<close>

definition held :: "place \<Rightarrow> volume \<Rightarrow> string \<Rightarrow> string option" where
  "held p v n = map_option lf_data (mget (files_at p v) n)"

definition is_lock :: "string \<Rightarrow> bool" where
  "is_lock n = (n = ''state.db.lock'' \<or> n = ''.prepare.lock'')"

text \<open>Everything is where it was; a lock file may have been created.\<close>

definition keeps_files :: "volume \<Rightarrow> volume \<Rightarrow> bool" where
  "keeps_files v v' = (\<forall>p n. held p v' n = held p v n \<or> is_lock n \<and> held p v n = None \<and> held p v' n = Some [])"

lemma keeps_files_refl [simp]: "keeps_files v v"
  by (simp add: keeps_files_def)

lemma keeps_files_trans: "keeps_files u v \<Longrightarrow> keeps_files v w \<Longrightarrow> keeps_files u w"
  unfolding keeps_files_def by (metis option.distinct(1))

lemma after_keeps:
  "keeps_files u (fst x) \<Longrightarrow> (\<And>v a. keeps_files v (fst (f v a))) \<Longrightarrow> keeps_files u (fst (after x f))"
  by (cases x; cases "snd x") (auto simp: after_def intro: keeps_files_trans)

lemma folder_at_set: "folder_at q (set_folder p d v) = (if p = q \<and> p \<noteq> Root then d else folder_at q v)"
  by (cases p; cases q) simp_all

lemma vo_files_set [simp]: "vo_files (set_folder p d v) = vo_files v" "vo_unsynced (set_folder p d v) = vo_unsynced v"
  by (cases p; simp)+

lemma folder_at_other [simp]: "folder_at p (v\<lparr>vo_files := fs\<rparr>) = folder_at p v" "folder_at p (v\<lparr>vo_unsynced := xs\<rparr>) = folder_at p v"
  by (cases p; simp)+

lemma files_at_unsynced [simp]: "files_at p (unsynced xs v) = files_at p v" "files_at p (v\<lparr>vo_unsynced := ys\<rparr>) = files_at p v"
  "folder_at p (unsynced xs v) = folder_at p v" "vo_files (unsynced xs v) = vo_files v"
  by (simp_all add: files_at_def unsynced_def)

lemma held_unsynced [simp]: "held p (unsynced xs v) n = held p v n" "held p (v\<lparr>vo_unsynced := ys\<rparr>) n = held p v n"
  by (simp_all add: held_def)

lemma files_at_set_files: "files_at q (set_files p fs v) = (if q = p \<and> (p = Root \<or> folder_at p v \<noteq> None) then fs else files_at q v)"
  by (cases "folder_at p v") (auto simp: files_at_def set_files_def folder_at_set split: option.split)

lemma folder_at_set_files: "folder_at q (set_files p fs v) = None \<longleftrightarrow> folder_at q v = None"
  by (auto simp: set_files_def folder_at_set)

lemma files_at_absent: "p \<noteq> Root \<Longrightarrow> folder_at p v = None \<Longrightarrow> files_at p v = []"
  by (simp add: files_at_def)

lemma held_put_same: "mget (files_at p v) name = Some f \<Longrightarrow> lf_data g = lf_data f \<Longrightarrow>
    held q (set_files p (mput name g (files_at p v)) v) n = held q v n"
  by (simp add: held_def files_at_set_files)

lemma open_leaf_keeps: "is_lock name \<or> \<not> create \<Longrightarrow> keeps_files v (fst (open_leaf fails p name create v))"
  by (auto simp: open_leaf_def keeps_files_def held_def files_at_set_files new_leaf_def split: option.split)

lemma open_leaf_there: "open_leaf fails p name create v = (v1, Inr f) \<Longrightarrow> mget (files_at p v1) name = Some f \<or> p \<noteq> Root \<and> folder_at p v1 = None"
  by (auto simp: open_leaf_def files_at_set_files folder_at_set_files split: if_splits option.splits)

lemma volumeFile_keeps:
  assumes "is_lock name \<or> \<not> create"
  shows "keeps_files v (fst (volumeFile fails p name create v))"
proof (cases "open_leaf fails p name create v")
  case (Pair v1 x)
  with open_leaf_keeps [OF assms, of v fails p] have k: "keeps_files v v1" by simp
  show ?thesis
  proof (cases x)
    case (Inl e)
    with Pair k show ?thesis by (simp add: volumeFile_def after_def)
  next
    case (Inr f)
    have "held q (set_files p (mput name (f\<lparr>lf_mode := 384\<rparr>) (files_at p v1)) v1) n = held q v1 n" for q n
      using open_leaf_there [OF Pair [unfolded Inr]] by (auto simp: held_put_same) (simp add: held_def files_at_set_files)
    then have "keeps_files v1 (set_files p (mput name (f\<lparr>lf_mode := 384\<rparr>) (files_at p v1)) v1)" by (simp add: keeps_files_def)
    with k Pair Inr show ?thesis by (auto simp: volumeFile_def after_def intro: keeps_files_trans)
  qed
qed

lemma needs_fst [simp]: "fst (needs ok v) = v"
  by (simp add: needs_def)

lemma take_lock_keeps: "is_lock name \<Longrightarrow> keeps_files v (fst (take_lock fails p name v))"
  unfolding take_lock_def by (intro after_keeps volumeFile_keeps) simp_all

lemma sync_leaf_keeps: "keeps_files v (fst (sync_leaf fails p name v))"
  unfolding sync_leaf_def by (intro after_keeps volumeFile_keeps) simp_all

lemma sync_folder_keeps: "keeps_files v (fst (sync_folder fails p site v))"
  by (simp add: sync_folder_def keeps_files_def)

lemma each_keeps: "(\<And>x v. keeps_files v (fst (f x v))) \<Longrightarrow> keeps_files v (fst (each f xs v))"
  by (induction xs arbitrary: v) (auto intro!: after_keeps)

lemma make_folder_keeps: "keeps_files v (fst (make_folder fails p v))"
  by (auto simp: make_folder_def keeps_files_def held_def files_at_def folder_at_set new_folder_def)

lemma open_folder_keeps: "keeps_files v (fst (open_folder fails p create v))"
  by (auto simp: open_folder_def keeps_files_def held_def files_at_def folder_at_set split: option.split)

lemma volumeDirectory_keeps: "keeps_files v (fst (volumeDirectory fails p create v))"
  unfolding volumeDirectory_def by (intro after_keeps) (simp_all add: make_folder_keeps open_folder_keeps)

lemmas step_keeps_files = take_lock_keeps sync_leaf_keeps sync_folder_keeps volumeDirectory_keeps each_keeps

lemma normalize_keeps: "keeps_files v (fst (normalizeVolumeState fails entries v))"
  unfolding normalizeVolumeState_def by (auto intro!: after_keeps step_keeps_files simp: is_lock_def)

lemma fresh_keeps: "keeps_files v (fst (fresh_volume fails present entries v))"
  unfolding fresh_volume_def by (auto intro!: after_keeps step_keeps_files normalize_keeps)

section \<open>Moving the files\<close>

lemma afterE:
  assumes "after x f = (v', r)"
  obtains e where "x = (v', Inl e)" "r = Inl e" | v1 a where "x = (v1, Inr a)" "f v1 a = (v', r)"
  using assms by (cases x; cases "snd x") (auto simp: after_def)

definition same_files :: "volume \<Rightarrow> volume \<Rightarrow> bool" where
  "same_files v v' = ((\<forall>p n. held p v' n = held p v n) \<and> vo_unsynced v' = vo_unsynced v \<and> (vo_staging v' = None \<longleftrightarrow> vo_staging v = None) \<and>
     (vo_private v' = None \<longleftrightarrow> vo_private v = None))"

lemma set_files_fields: "vo_private (set_files p fs v) = None \<longleftrightarrow> vo_private v = None" "vo_unsynced (set_files p fs v) = vo_unsynced v" "vo_staging (set_files p fs v) = None \<longleftrightarrow> vo_staging v = None"
  "p \<noteq> Private \<Longrightarrow> vo_private (set_files p fs v) = vo_private v" "p \<noteq> Root \<Longrightarrow> vo_files (set_files p fs v) = vo_files v"
  by (cases p; simp add: set_files_def)+

lemma volumeFile_same: "volumeFile fails p name False v = (v', r) \<Longrightarrow> same_files v v'"
  unfolding volumeFile_def
  by (erule afterE) (auto simp: open_leaf_def same_files_def set_files_fields held_put_same split: if_splits option.splits)

lemma sync_leaf_same: "sync_leaf fails p name v = (v', r) \<Longrightarrow> same_files v v'"
  unfolding sync_leaf_def by (erule afterE) (auto simp: needs_def dest: volumeFile_same)

text \<open>The files \<open>S\<close> of the volume \<open>u\<close> are in the staging directory, the others are still in the root.\<close>

definition split_at :: "string set \<Rightarrow> volume \<Rightarrow> volume \<Rightarrow> bool" where
  "split_at S u v = (\<forall>n. held Private v n = None \<and> held Root v n = (if n \<in> S then None else held Root u n) \<and>
     held Staging v n = (if n \<in> S then held Root u n else None))"

lemma split_at_cong: "(\<And>p n. held p v' n = held p v n) \<Longrightarrow> split_at S u v' = split_at S u v"
  by (simp add: split_at_def)

lemma rename_leaf_moves:
  assumes "split_at S u v" "n \<notin> S" "vo_staging v \<noteq> None" "rename_leaf fails n v = (v', Inr ())"
  shows "split_at (insert n S) u v'" "vo_staging v' \<noteq> None" "vo_unsynced v' = (Root, n) # (Staging, n) # vo_unsynced v"
proof -
  from assms(4) obtain f where f: "mget (vo_files v) n = Some f"
    and v': "v' = unsynced [(Root, n), (Staging, n)] (set_files Root (mdel n (vo_files v)) (set_files Staging (mput n f (files_at Staging v)) v))"
    by (auto simp: rename_leaf_def split: option.splits if_splits)
  show "vo_staging v' \<noteq> None" using assms(3) by (simp add: v' unsynced_def set_files_fields)
  show "vo_unsynced v' = (Root, n) # (Staging, n) # vo_unsynced v" by (simp add: v' unsynced_def set_files_fields)
  have "held Root v n = Some (lf_data f)" using f by (simp add: held_def files_at_def)
  then have u: "held Root u n = Some (lf_data f)" using assms(1,2) by (simp add: split_at_def)
  have h: "held Root v' m = (if m = n then None else held Root v m)" "held Private v' m = held Private v m"
    "held Staging v' m = (if m = n then Some (lf_data f) else held Staging v m)" for m
    using assms(3) by (auto simp: v' held_def files_at_set_files folder_at_set_files) (simp_all add: files_at_def)
  show "split_at (insert n S) u v'" using assms(1) u by (auto simp: split_at_def h)
qed

lemma rename_leaf_fails: "rename_leaf fails n v = (v', Inl e) \<Longrightarrow> v' = v"
  by (auto simp: rename_leaf_def split: option.splits if_splits)

lemma sync_folder_same: "sync_folder fails p site v = (v', r) \<Longrightarrow> held q v' n = held q v n" "sync_folder fails p site v = (v', r) \<Longrightarrow> vo_staging v' = vo_staging v"
  by (auto simp: sync_folder_def split: if_splits)

lemma sync_folder_unsynced: "sync_folder fails p site v = (v', r) \<Longrightarrow>
    vo_unsynced v' = (if r = Inr () then filter (\<lambda>x. fst x \<noteq> p) (vo_unsynced v) else vo_unsynced v)"
  by (auto simp: sync_folder_def split: if_splits)

lemma move_file_splits:
  assumes s: "split_at S u v" "n \<notin> S" "vo_staging v \<noteq> None" "vo_unsynced v = []" and m: "move_file fails n v = (v', r)"
  shows "vo_staging v' \<noteq> None \<and> (if r = Inr () then split_at (insert n S) u v' \<and> vo_unsynced v' = []
    else split_at S u v' \<and> vo_unsynced v' = [] \<or> split_at (insert n S) u v' \<and> snd ` set (vo_unsynced v') \<subseteq> {n})"
  using m [unfolded move_file_def]
proof (cases rule: afterE)
  case (1 e)
  from sync_leaf_same [OF 1(1)] s 1(2) show ?thesis by (auto simp: same_files_def split_at_def)
next
  case (2 v1 a)
  from sync_leaf_same [OF 2(1)] s have s1: "split_at S u v1" "vo_staging v1 \<noteq> None" "vo_unsynced v1 = []"
    by (auto simp: same_files_def split_at_def)
  from 2(2) show ?thesis
  proof (cases rule: afterE)
    case (1 e)
    with rename_leaf_fails [OF 1(1)] s1 show ?thesis by simp
  next
    case (2 v2 b)
    note m2 = rename_leaf_moves [OF s1(1) s(2) s1(2), of fails v2]
    with 2(1) s1(3) have s2: "split_at (insert n S) u v2" "vo_staging v2 \<noteq> None" "vo_unsynced v2 = [(Root, n), (Staging, n)]" by auto
    from 2(2) show ?thesis
    proof (cases rule: afterE)
      case (1 e)
      with s2 sync_folder_same [OF 1(1)] sync_folder_unsynced [OF 1(1)] show ?thesis by (auto simp: split_at_def)
    next
      case (2 v3 c)
      note a = sync_folder_same [OF 2(1)] sync_folder_unsynced [OF 2(1)]
      note b = sync_folder_same [OF 2(2)] sync_folder_unsynced [OF 2(2)]
      from a b s2 2(1) show ?thesis by (auto simp: split_at_def)
    qed
  qed
qed

lemma moves_split:
  assumes "split_at S u v" "distinct ns" "S \<inter> set ns = {}" "vo_staging v \<noteq> None" "vo_unsynced v = []" "each (move_file fails) ns v = (v', r)"
  shows "vo_staging v' \<noteq> None \<and> (\<exists>xs ys. ns = xs @ ys \<and> split_at (S \<union> set xs) u v' \<and>
    snd ` set (vo_unsynced v') \<subseteq> (if xs = [] then {} else {last xs}) \<and> (r = Inr () \<longrightarrow> ys = [] \<and> vo_unsynced v' = []))"
  using assms
proof (induction ns arbitrary: S v)
  case Nil
  then show ?case by auto
next
  case (Cons n ns)
  from Cons.prems(6) have "after (move_file fails n v) (\<lambda>v1 _. each (move_file fails) ns v1) = (v', r)" by simp
  then show ?case
  proof (cases rule: afterE)
    case (1 e)
    note m = move_file_splits [OF Cons.prems(1) _ Cons.prems(4,5) 1(1)]
    have st: "vo_staging v' \<noteq> None" using m Cons.prems(3) by auto
    from m Cons.prems(3) 1 consider "split_at S u v'" "vo_unsynced v' = []" | "split_at (insert n S) u v'" "snd ` set (vo_unsynced v') \<subseteq> {n}" by auto
    then show ?thesis
    proof cases
      case 1
      with st \<open>r = Inl e\<close> show ?thesis by (intro conjI exI [of _ "[]"] exI [of _ "n # ns"]) auto
    next
      case 2
      with st \<open>r = Inl e\<close> show ?thesis by (intro conjI exI [of _ "[n]"] exI [of _ ns]) auto
    qed
  next
    case (2 v1 a)
    from move_file_splits [OF Cons.prems(1) _ Cons.prems(4,5) 2(1)] Cons.prems(3)
    have s1: "split_at (insert n S) u v1" "vo_staging v1 \<noteq> None" "vo_unsynced v1 = []" by auto
    from Cons.IH [OF s1(1) _ _ s1(2,3) 2(2)] Cons.prems(2,3)
    obtain xs ys where x: "vo_staging v' \<noteq> None" "ns = xs @ ys" "split_at (insert n S \<union> set xs) u v'"
      "snd ` set (vo_unsynced v') \<subseteq> (if xs = [] then {} else {last xs})" "r = Inr () \<longrightarrow> ys = [] \<and> vo_unsynced v' = []" by auto
    then show ?thesis by (intro conjI exI [of _ "n # xs"] exI [of _ ys]) (auto split: if_splits)
  qed
qed

text \<open>Interrupted between two moves, or published: the directory was renamed with all files in it.\<close>

definition under_way :: "string list \<Rightarrow> volume \<Rightarrow> volume \<Rightarrow> bool" where
  "under_way names u v' = (\<exists>xs ys. names = xs @ ys \<and> split_at (set xs) u v' \<and> (xs = [] \<or> snd ` set (vo_unsynced v') \<subseteq> {last xs}))"

definition published :: "string list \<Rightarrow> volume \<Rightarrow> volume \<Rightarrow> bool" where
  "published names u v' = (vo_staging v' = None \<and>
     (\<forall>n. held Private v' n = (if n \<in> set names then held Root u n else None) \<and> held Root v' n = (if n \<in> set names then None else held Root u n)))"

definition outcome :: "string list \<Rightarrow> volume \<Rightarrow> volume \<Rightarrow> unit result \<Rightarrow> bool" where
  "outcome names u v' r = (under_way names u v' \<and> r \<noteq> Inr () \<or> published names u v' \<and> (r = Inr () \<longrightarrow> vo_unsynced v' = []))"

lemma all_moved: "split_at (set names) u v \<Longrightarrow> vo_unsynced v = [] \<Longrightarrow> under_way names u v"
  unfolding under_way_def by (rule exI [of _ names], rule exI [of _ "[]"]) simp

lemma publish_outcome:
  assumes "split_at (set names) u v" "vo_unsynced v = []" "publish fails v = (v', r)"
  shows "outcome names u v' r"
  using assms(3) [unfolded publish_def]
proof (cases rule: afterE)
  case (1 e)
  with assms(1,2) sync_folder_same [OF 1(1)] sync_folder_unsynced [OF 1(1)]
  have "split_at (set names) u v'" "vo_unsynced v' = []" by (auto simp: split_at_def)
  with 1 show ?thesis by (simp add: outcome_def all_moved)
next
  case (2 v1 a)
  with assms(1,2) sync_folder_same [OF 2(1)] sync_folder_unsynced [OF 2(1)]
  have s1: "split_at (set names) u v1" "vo_unsynced v1 = []" by (auto simp: split_at_def)
  from 2(2) show ?thesis
  proof (cases rule: afterE)
    case (1 e)
    then have "v' = v1" by (auto simp: rename_staging_def split: if_splits)
    with 1 s1 show ?thesis by (simp add: outcome_def all_moved)
  next
    case (2 v2 b)
    then have v2: "v2 = unsynced [(Root, volumeStaging), (Root, volumeState)] (v1\<lparr>vo_private := vo_staging v1, vo_staging := None, vo_unsynced := []\<rparr>)"
      using s1(2) by (auto simp: rename_staging_def split: if_splits)
    have "vo_staging v2 = None" "held Private v2 n = held Staging v1 n" "held Root v2 n = held Root v1 n" for n
      by (simp_all add: v2 held_def files_at_def unsynced_def)
    with s1(1) have p: "published names u v2" by (auto simp: published_def split_at_def)
    have "r = Inr () \<longrightarrow> vo_unsynced v' = []" using sync_folder_unsynced [OF 2(2)] by (simp add: v2 unsynced_def)
    moreover have "published names u v'" using p sync_folder_same [OF 2(2)] by (simp add: published_def)
    ultimately show ?thesis by (simp add: outcome_def)
  qed
qed

text \<open>The staging directory is made empty.\<close>

lemma staging_made:
  assumes "volumeDirectory fails Staging True v = (v', r)" "\<And>n. held Staging v n = None"
  shows "held p v' n = held p v n" "r = Inr a \<Longrightarrow> vo_staging v' \<noteq> None"
    "vo_unsynced v' = vo_unsynced v \<or> vo_unsynced v' = (Root, volumeStaging) # vo_unsynced v"
  using assms(1) unfolding volumeDirectory_def
  by (cases p; auto elim!: afterE simp: make_folder_def open_folder_def held_def files_at_def folder_at_set new_folder_def unsynced_def
      split: if_splits option.splits)+

lemma take_lock_unsynced:
  assumes "take_lock fails p name v = (v', r)"
  shows "vo_unsynced v' = vo_unsynced v \<or> vo_unsynced v' = (p, name) # vo_unsynced v"
    "p \<noteq> Private \<Longrightarrow> vo_private v' = vo_private v" "p \<noteq> Staging \<Longrightarrow> vo_staging v' = vo_staging v"
  using assms unfolding take_lock_def volumeFile_def
  by (cases p; auto elim!: afterE simp: open_leaf_def needs_def set_files_def unsynced_def split: if_splits option.splits)+

section \<open>The preparation\<close>

definition moved_names :: "string list \<Rightarrow> string list" where
  "moved_names legacy = filter (\<lambda>n. n = ''state.db.lock'' \<or> n \<in> set legacy) volumeFiles"

lemma volumeFiles_distinct: "distinct volumeFiles" "distinct (moved_names legacy)"
  by (simp_all add: volumeFiles_def moved_names_def)

lemma migrate_outcome:
  assumes m: "migrate_volume fails legacy v = (v', r)"
    and v: "\<And>n. held Private v n = None" "\<And>n. held Staging v n = None"
      "list_all (\<lambda>x. fst x = Root) (vo_unsynced v)"
  shows "\<exists>u. keeps_files v u \<and> (\<forall>n. held Private u n = None \<and> held Staging u n = None) \<and> outcome (moved_names legacy) u v' r"
proof (cases "''state.db'' \<in> set legacy")
  case False
  with m v have "v' = v" "r = Inl errVolume" "split_at {} v v" by (auto simp: migrate_volume_def split_at_def)
  then have "outcome (moved_names legacy) v v' r"
    unfolding outcome_def under_way_def by (intro disjI1 conjI exI [of _ "[]"] exI [of _ "moved_names legacy"]) simp_all
  with v show ?thesis by (intro exI [of _ v]) simp
next
  case True
  let ?ns = "moved_names legacy"
  have start: "outcome ?ns u w (Inl e)" if "split_at {} u w" for u w e
    unfolding outcome_def under_way_def using that by (intro disjI1 conjI exI [of _ "[]"] exI [of _ ?ns]) simp_all
  have quiet_start: "\<exists>u. keeps_files v u \<and> (\<forall>n. held Private u n = None \<and> held Staging u n = None) \<and> outcome ?ns u w (Inl e)"
    if "keeps_files v w" "\<And>n. held Private w n = None" "\<And>n. held Staging w n = None" for w e
    using that start [of w w] by (intro exI [of _ w]) (simp add: split_at_def)
  from m True have "after (take_lock fails Root ''state.db.lock'' v) (\<lambda>v1 _.
           after (volumeDirectory fails Staging True v1) (\<lambda>v2 _.
           after (sync_folder fails Root ''staging'' v2) (\<lambda>v3 _.
           after (each (move_file fails) ?ns v3) (\<lambda>v4 _. publish fails v4)))) = (v', r)"
    by (simp add: migrate_volume_def moved_names_def)
  moreover have locked: "keeps_files v v1 \<and> (\<forall>n. held Private v1 n = None \<and> held Staging v1 n = None) \<and> list_all (\<lambda>x. fst x = Root) (vo_unsynced v1)"
    if "take_lock fails Root ''state.db.lock'' v = (v1, q)" for v1 q
    using take_lock_keeps [of "''state.db.lock''" v fails Root] that take_lock_unsynced [OF that] v
    by (auto simp: is_lock_def held_def files_at_def)
  ultimately show ?thesis
  proof (cases rule: afterE)
    case (1 e)
    with locked [OF 1(1)] quiet_start show ?thesis by simp
  next
    case (2 v1 a)
    from locked [OF 2(1)] have v1: "keeps_files v v1" "\<And>n. held Private v1 n = None" "\<And>n. held Staging v1 n = None"
      "list_all (\<lambda>x. fst x = Root) (vo_unsynced v1)" by auto
    from 2(2) show ?thesis
    proof (cases rule: afterE)
      case (1 e)
      note d = staging_made [OF 1(1) v1(3)]
      have "keeps_files v v'" using v1(1) d(1) by (simp add: keeps_files_def)
      with 1(2) d(1) v1 quiet_start show ?thesis by simp
    next
      case (2 v2 b)
      note d = staging_made [OF 2(1) v1(3)]
      have k2: "keeps_files v v2" using v1(1) d(1) by (simp add: keeps_files_def)
      have n2: "held Private v2 n = None" "held Staging v2 n = None" for n using d(1) v1 by simp_all
      have u2: "list_all (\<lambda>x. fst x = Root) (vo_unsynced v2)" using d(3) v1(4) by auto
      from 2(2) show ?thesis
      proof (cases rule: afterE)
        case (1 e)
        with sync_folder_same [OF 1(1)] k2 n2 quiet_start show ?thesis by (simp add: keeps_files_def)
      next
        case (2 v3 c)
        have u3: "vo_unsynced v3 = []" using sync_folder_unsynced [OF 2(1)] u2 2(1) by (auto simp: filter_empty_conv list_all_iff)
        have k3: "keeps_files v v3" "\<And>n. held Private v3 n = None" "\<And>n. held Staging v3 n = None" "vo_staging v3 \<noteq> None"
          using sync_folder_same [OF 2(1)] k2 n2 d(2) [OF refl] by (simp_all add: keeps_files_def) 
        have s3: "split_at {} v3 v3" using k3 by (simp add: split_at_def)
        from 2(2) have "outcome ?ns v3 v' r"
        proof (cases rule: afterE)
          case (1 e)
          note m = moves_split [OF s3 volumeFiles_distinct(2) _ k3(4) u3 1(1)]
          then obtain xs ys where x: "?ns = xs @ ys" "split_at ({} \<union> set xs) v3 v'"
            "snd ` set (vo_unsynced v') \<subseteq> (if xs = [] then {} else {last xs})" by blast
          from x(2) have "split_at (set xs) v3 v'" by simp
          moreover have "xs = [] \<or> snd ` set (vo_unsynced v') \<subseteq> {last xs}" using x(3) by (cases "xs = []") simp_all
          ultimately have "under_way ?ns v3 v'" using x(1) unfolding under_way_def by blast
          with 1(2) show ?thesis by (simp add: outcome_def)
        next
          case (2 v4 d)
          from moves_split [OF s3 volumeFiles_distinct(2) _ k3(4) u3 2(1)] 2(1)
          have "split_at (set ?ns) v3 v4" "vo_unsynced v4 = []" by auto
          then show ?thesis using 2(2) by (rule publish_outcome)
        qed
        with k3 show ?thesis by (intro exI [of _ v3]) simp
      qed
    qed
  qed
qed

lemma looked_at:
  assumes "volumeDirectory fails p False v = (v', Inr b)"
  shows "\<not> b \<and> folder_at p v = None \<and> v' = v \<or> b \<and> (\<exists>d. folder_at p v = Some d \<and> v' = set_folder p (Some (d\<lparr>fo_mode := 448\<rparr>)) v)"
  using assms by (auto simp: volumeDirectory_def open_folder_def after_def split: if_splits option.splits)

lemma after_pair: "after (v, x) f = (case x of Inl e \<Rightarrow> (v, Inl e) | Inr a \<Rightarrow> f v a)"
  by (simp add: after_def split: sum.split)

definition legacy_names :: "volume \<Rightarrow> string list" where
  "legacy_names v = map fst (filter (\<lambda>x. HasPrefix (fst x) ''state.db'') (vo_files v))"

lemma volumeEntries_root: "volumeEntries fails Root v = Inr xs \<Longrightarrow> xs = legacy_names v \<and> set xs \<subseteq> set volumeFiles"
  by (auto simp: volumeEntries_def Let_def files_at_def legacy_names_def entry_ok_def list_all_iff split: if_splits)

lemma volumeEntries_private: "volumeEntries fails Private v = Inr xs \<Longrightarrow> xs = map fst (files_at Private v) \<and> set xs \<subseteq> set volumeFiles"
  by (auto simp: volumeEntries_def Let_def entry_ok_def list_all_iff split: if_splits)

lemma inspect_volume_keeps: "keeps_files v (fst (inspect_volume fails v))"
  unfolding inspect_volume_def
  by (intro after_keeps) (simp_all add: take_lock_keeps is_lock_def volumeDirectory_keeps)

lemma inspected:
  assumes "inspect_volume fails v = (w, Inr (legacy, present, entries))"
  shows "vo_staging v = None \<and> vo_staging w = None \<and> legacy = legacy_names w \<and> set legacy \<subseteq> set volumeFiles \<and> (entries = [] \<or> legacy = []) \<and>
    present = (vo_private w \<noteq> None) \<and> entries = (if present then map fst (files_at Private w) else []) \<and>
    (vo_unsynced w = vo_unsynced v \<or> vo_unsynced w = (Root, ''.prepare.lock'') # vo_unsynced v)"
proof -
  from assms obtain v1 v2 where l: "take_lock fails Root ''.prepare.lock'' v = (v1, Inr ())"
    and e: "volumeEntries fails Root v1 = Inr legacy"
    and p: "volumeDirectory fails Private False v1 = (v2, Inr present)"
    and s: "volumeDirectory fails Staging False v2 = (w, Inr False)"
    and x: "private_entries fails present w = Inr entries" "entries = [] \<or> legacy = []"
    unfolding inspect_volume_def
    by (auto elim!: afterE simp: needs_def split: if_splits)
  note u = take_lock_unsynced [OF l]
  from looked_at [OF s] have w: "vo_staging v2 = None" "w = v2" by auto
  from looked_at [OF p] have v2: "vo_staging v2 = vo_staging v1" "vo_files v2 = vo_files v1" "present = (vo_private v2 \<noteq> None)"
    "vo_unsynced v2 = vo_unsynced v1" by auto
  from volumeEntries_root [OF e] v2 w x u volumeEntries_private [of fails w entries] show ?thesis
    by (auto simp: legacy_names_def private_entries_def split: if_splits)
qed

lemma legacy_held: "n \<in> set volumeFiles \<Longrightarrow> n \<in> set (legacy_names v) \<longleftrightarrow> held Root v n \<noteq> None"
proof -
  assume "n \<in> set volumeFiles"
  then have "HasPrefix n ''state.db''" by (auto simp: volumeFiles_def HasPrefix_def)
  then have "n \<in> set (legacy_names v) \<longleftrightarrow> n \<in> fst ` set (vo_files v)" by (force simp: legacy_names_def)
  then show ?thesis by (simp add: held_def files_at_def map_of_eq_None_iff)
qed

definition data_files :: "string list" where
  "data_files = filter (\<lambda>n. n \<noteq> ''state.db.lock'') volumeFiles"

text \<open>Where the contents of a file are: in the root, in the private and in the staging directory.\<close>

definition copies :: "string \<Rightarrow> volume \<Rightarrow> string list" where
  "copies n v = List.map_filter (\<lambda>p. held p v n) [Root, Private, Staging]"

lemma copies_keep: "(\<And>p. held p v' n = held p v n) \<Longrightarrow> copies n v' = copies n v"
  by (simp add: copies_def)

lemma data_files_keep: "keeps_files v v' \<Longrightarrow> n \<in> set data_files \<Longrightarrow> held p v' n = held p v n"
  unfolding keeps_files_def by (auto simp: data_files_def volumeFiles_def is_lock_def)

lemma private_absent: "vo_private w = None \<or> map fst (files_at Private w) = [] \<Longrightarrow> held Private w n = None"
  by (auto simp: held_def files_at_def)

lemma prepare_cases:
  assumes "prepareVolume fails v = (v', r)" "list_all (\<lambda>x. fst x = Root) (vo_unsynced v)"
  obtains "keeps_files v v'" "vo_staging v = None \<or> r \<noteq> Inr ()"
    | w u where "vo_staging v = None" "keeps_files v w" "keeps_files w u" "\<And>n. held Private u n = None" "\<And>n. held Staging u n = None"
      "\<And>n. held Private w n = None" "\<And>n. held Staging w n = None"
      "set (legacy_names w) \<subseteq> set volumeFiles" "outcome (moved_names (legacy_names w)) u v' r"
  using assms(1) [unfolded prepareVolume_def]
proof (cases rule: afterE)
  case (1 e)
  with inspect_volume_keeps [of v fails] that(1) show ?thesis by simp
next
  case (2 w a)
  obtain legacy present entries where a: "a = (legacy, present, entries)" by (cases a)
  note i = inspected [OF 2(1) [unfolded a]]
  have k: "keeps_files v w" using inspect_volume_keeps [of v fails] 2(1) by simp
  show ?thesis
  proof (cases "legacy = []")
    case True
    with 2(2) a have "fresh_volume fails present entries w = (v', r)" by simp
    with fresh_keeps [of w fails present entries] k have "keeps_files v v'" by (auto intro: keeps_files_trans)
    with that(1) i show ?thesis by blast
  next
    case False
    with 2(2) a have m: "migrate_volume fails legacy w = (v', r)" by simp
    have n: "held Private w n = None" "held Staging w n = None" for n
      using i False by (auto intro!: private_absent split: if_splits) (simp_all add: held_def files_at_def)
    have "list_all (\<lambda>x. fst x = Root) (vo_unsynced w)" using i assms(2) by auto
    from migrate_outcome [OF m n this] i k n that(2) show ?thesis by blast
  qed
qed

text \<open>The database is the last file that moves.\<close>

lemma database_last:
  assumes "moved_names legacy = xs @ ys" "''state.db'' \<in> set xs"
  shows "xs = moved_names legacy" "last xs = ''state.db''"
proof -
  have "''state.db'' \<in> set (moved_names legacy)" using assms by simp
  then have "moved_names legacy = filter (\<lambda>n. n = ''state.db.lock'' \<or> n \<in> set legacy) (butlast volumeFiles) @ [''state.db'']"
    by (simp add: moved_names_def volumeFiles_def split: if_splits)
  then obtain zs where zs: "moved_names legacy = zs @ [''state.db'']" by blast
  have "ys = []"
  proof (cases ys rule: rev_cases)
    case (snoc ws y)
    with assms(1) zs have "y = ''state.db''" by simp
    with snoc volumeFiles_distinct(2) [of legacy] assms show ?thesis by simp
  qed
  with assms(1) show "xs = moved_names legacy" by simp
  with zs show "last xs = ''state.db''" by simp
qed

lemma copies_simps: "copies n v = (case held Root v n of None \<Rightarrow> [] | Some d \<Rightarrow> [d]) @
    (case held Private v n of None \<Rightarrow> [] | Some d \<Rightarrow> [d]) @ (case held Staging v n of None \<Rightarrow> [] | Some d \<Rightarrow> [d])"
  by (simp add: copies_def List.map_filter_def split: option.split)

lemma held_staging_absent: "vo_staging v = None \<Longrightarrow> held Staging v n = None"
  by (simp add: held_def files_at_def)

lemma outcome_copies:
  assumes "outcome names u v' r" "\<And>n. held Private u n = None" "\<And>n. held Staging u n = None"
  shows "copies n v' = copies n u"
  using assms unfolding outcome_def under_way_def published_def split_at_def
  by (elim disjE conjE exE) (auto simp: copies_simps held_staging_absent)

lemma moved_held: "keeps_files w u \<Longrightarrow> set (legacy_names w) \<subseteq> set volumeFiles \<Longrightarrow> n \<in> set data_files \<Longrightarrow>
    n \<notin> set (moved_names (legacy_names w)) \<Longrightarrow> held Root u n = None"
  using legacy_held [of n w] data_files_keep [of w u n Root] by (auto simp: moved_names_def data_files_def)

lemma prepare_copies:
  assumes "prepareVolume fails v = (v', r)" "list_all (\<lambda>x. fst x = Root) (vo_unsynced v)"
  shows "list_all (\<lambda>n. copies n v' = copies n v) data_files"
  using assms
proof (cases rule: prepare_cases)
  case 1
  then show ?thesis by (simp add: list_all_iff copies_simps data_files_keep)
next
  case (2 w u)
  have "copies n u = copies n v" if "n \<in> set data_files" for n
    using data_files_keep [OF 2(2) that] data_files_keep [OF 2(3) that] by (simp add: copies_simps)
  with outcome_copies [OF 2(9) 2(4,5)] show ?thesis by (simp add: list_all_iff)
qed

definition whole :: "volume \<Rightarrow> volume \<Rightarrow> bool" where
  "whole v v' = (vo_staging v' = None \<and> list_all (\<lambda>n. held Root v' n = None \<and> held Private v' n = held Root v n) data_files)"

lemma prepare_whole:
  assumes "prepareVolume fails v = (v', r)" "list_all (\<lambda>x. fst x = Root) (vo_unsynced v)"
  shows "list_all (\<lambda>n. held Private v' n = held Private v n) data_files \<or> whole v v'"
  using assms
proof (cases rule: prepare_cases)
  case 1
  then show ?thesis by (simp add: list_all_iff data_files_keep)
next
  case (2 w u)
  have k: "held q u n = held q v n" if "n \<in> set data_files" for q n
    using data_files_keep [OF 2(2) that] data_files_keep [OF 2(3) that] by simp
  from 2(9) consider "under_way (moved_names (legacy_names w)) u v'" | "published (moved_names (legacy_names w)) u v'"
    unfolding outcome_def by blast
  then show ?thesis
  proof cases
    case 1
    then have "held Private v' n = None" for n by (auto simp: under_way_def split_at_def)
    moreover have "held Private v n = None" if "n \<in> set data_files" for n using k [OF that, of Private] 2(4) by simp
    ultimately show ?thesis by (simp add: list_all_iff)
  next
    case p: 2
    have "held Root v' n = None \<and> held Private v' n = held Root v n" if n: "n \<in> set data_files" for n
      using p k [OF n, of Root] moved_held [OF 2(3,8) n] by (auto simp: published_def)
    with p show ?thesis by (simp add: whole_def list_all_iff published_def)
  qed
qed

lemma prepare_last:
  assumes "prepareVolume fails v = (v', r)" "list_all (\<lambda>x. fst x = Root) (vo_unsynced v)"
    and s: "vo_staging v = None" "held Staging v' ''state.db'' \<noteq> None"
  shows "list_all (\<lambda>n. held Root v' n = None) data_files \<and> snd ` set (vo_unsynced v') \<subseteq> {''state.db''}"
  using assms(1,2)
proof (cases rule: prepare_cases)
  case 1
  have "''state.db'' \<in> set data_files" by (simp add: data_files_def volumeFiles_def)
  from data_files_keep [OF 1(1) this, of Staging] s show ?thesis by (simp add: held_staging_absent)
next
  case (2 w u)
  from s(2) 2(9) have "under_way (moved_names (legacy_names w)) u v'"
    unfolding outcome_def by (auto simp: published_def held_staging_absent)
  then obtain xs ys where x: "moved_names (legacy_names w) = xs @ ys" "split_at (set xs) u v'"
    "xs = [] \<or> snd ` set (vo_unsynced v') \<subseteq> {last xs}" by (auto simp: under_way_def)
  from x(2) s(2) have db: "''state.db'' \<in> set xs" by (auto simp: split_at_def split: if_splits)
  note l = database_last [OF x(1) db]
  have "held Root v' n = None" if "n \<in> set data_files" for n
    using moved_held [OF 2(3,8) that] x(2) l(1) by (auto simp: split_at_def)
  moreover have "snd ` set (vo_unsynced v') \<subseteq> {''state.db''}" using x(3) db l(2) by (cases "xs = []") simp_all
  ultimately show ?thesis by (simp add: list_all_iff)
qed

lemma prepare_refused:
  assumes "prepareVolume fails v = (v', r)" "list_all (\<lambda>x. fst x = Root) (vo_unsynced v)" "vo_staging v \<noteq> None"
  shows "r \<noteq> Inr () \<and> list_all (\<lambda>n. held p v' n = held p v n) data_files"
  using assms(1,2) by (cases rule: prepare_cases) (use assms(3) in \<open>auto simp: list_all_iff data_files_keep\<close>)

text \<open>A volume after a success: everything is in the private directory and known to be on disk.\<close>

definition prepared :: "volume \<Rightarrow> bool" where
  "prepared v = (vo_staging v = None \<and> list_all (\<lambda>n. held Root v n = None) data_files \<and> vo_private v \<noteq> None \<and> vo_unsynced v = [])"

lemma each_same: "(\<And>x v v' r. f x v = (v', r) \<Longrightarrow> same_files v v') \<Longrightarrow> each f xs v = (v', r) \<Longrightarrow> same_files v v'"
proof (induction xs arbitrary: v)
  case Nil
  then show ?case by (simp add: same_files_def)
next
  case (Cons x xs)
  from Cons.prems(2) have "after (f x v) (\<lambda>v1 _. each f xs v1) = (v', r)" by simp
  then show ?case
  proof (cases rule: afterE)
    case (1 e)
    with Cons.prems(1) show ?thesis by blast
  next
    case (2 v1 a)
    from Cons.prems(1) [OF 2(1)] Cons.IH [OF Cons.prems(1) 2(2)] show ?thesis by (simp add: same_files_def)
  qed
qed

definition near :: "volume \<Rightarrow> bool" where
  "near v = (vo_private v \<noteq> None \<and> vo_staging v = None \<and> list_all (\<lambda>x. fst x \<noteq> Staging) (vo_unsynced v))"

lemma near_same: "same_files v v' \<Longrightarrow> near v \<Longrightarrow> near v'"
  by (simp add: near_def same_files_def)

lemma near_sync: "sync_folder fails p site v = (v', r) \<Longrightarrow> near v \<Longrightarrow> near v'"
  by (auto simp: sync_folder_def near_def list_all_iff split: if_splits)

lemma near_lock: "take_lock fails Private name v = (v', r) \<Longrightarrow> near v \<Longrightarrow> near v'"
  unfolding take_lock_def volumeFile_def
  by (auto elim!: afterE simp: open_leaf_def needs_def set_files_def unsynced_def near_def split: if_splits option.splits)

lemma normalize_near:
  assumes "normalizeVolumeState fails entries v = (v', Inr ())" "near v"
  shows "near v' \<and> list_all (\<lambda>x. fst x = Root) (vo_unsynced v')"
proof -
  have all: "near w' \<and> list_all (\<lambda>x. fst x = Root) (vo_unsynced w')" if "sync_folder fails Private site w = (w', Inr ())" "near w" for site w w'
  proof -
    have "p = Root" if "p \<noteq> Private" "p \<noteq> Staging" for p using that by (cases p) simp_all
    then show ?thesis using near_sync [OF that] that(2) sync_folder_unsynced [OF that(1)] by (auto simp: near_def list_all_iff)
  qed
  show ?thesis
  proof (cases "entries = []")
    case True
    with assms all show ?thesis by (simp add: normalizeVolumeState_def)
  next
    case False
    with assms(1) obtain v1 v2 where "take_lock fails Private ''state.db.lock'' v = (v1, Inr ())"
      "each (sync_leaf fails Private) entries v1 = (v2, Inr ())" "sync_folder fails Private ''files'' v2 = (v', Inr ())"
      by (auto simp: normalizeVolumeState_def elim!: afterE split: if_splits)
    note st = this
    have "same_files v1 v2" by (rule each_same [OF _ st(2)]) (rule sync_leaf_same)
    then have "near v2" using near_lock [OF st(1) assms(2)] by (rule near_same)
    with all [OF st(3)] show ?thesis by blast
  qed
qed

lemma fresh_prepared:
  assumes "fresh_volume fails present entries w = (v', Inr ())" "present = (vo_private w \<noteq> None)" "vo_staging w = None"
    "list_all (\<lambda>x. fst x = Root) (vo_unsynced w)"
  shows "vo_private v' \<noteq> None \<and> vo_staging v' = None \<and> vo_unsynced v' = []"
proof -
  from assms(1) obtain v1 v2 a where 1: "(if present then (w, Inr True) else volumeDirectory fails Private True w) = (v1, Inr a)"
    and 2: "normalizeVolumeState fails entries v1 = (v2, Inr ())" and 3: "sync_folder fails Root ''fresh'' v2 = (v', Inr ())"
    by (auto simp: fresh_volume_def elim!: afterE)
  have "near v1"
  proof (cases present)
    case True
    with 1 assms(2-4) show ?thesis by (auto simp: near_def list_all_iff)
  next
    case False
    with 1 have "volumeDirectory fails Private True w = (v1, Inr a)" by simp
    then have "vo_private v1 \<noteq> None" "vo_staging v1 = vo_staging w" "vo_unsynced v1 = (Root, volumeState) # vo_unsynced w"
      by (auto simp: volumeDirectory_def make_folder_def open_folder_def unsynced_def elim!: afterE split: if_splits option.splits)
    with assms(3,4) show ?thesis by (auto simp: near_def list_all_iff)
  qed
  from normalize_near [OF 2 this] near_sync [OF 3] sync_folder_unsynced [OF 3] show ?thesis
    by (auto simp: near_def list_all_iff filter_empty_conv)
qed

text \<open>A success leaves everything in the private directory and known to be on disk.\<close>

lemma volume_prepared:
  assumes "prepareVolume fails v = (v', Inr ())" "list_all (\<lambda>x. fst x = Root) (vo_unsynced v)"
  shows "prepared v'"
  using assms(1) [unfolded prepareVolume_def]
proof (cases rule: afterE)
  case (2 w a)
  obtain legacy present entries where a: "a = (legacy, present, entries)" by (cases a)
  note i = inspected [OF 2(1) [unfolded a]]
  have u: "list_all (\<lambda>x. fst x = Root) (vo_unsynced w)" using i assms(2) by auto
  show ?thesis
  proof (cases "legacy = []")
    case True
    with 2(2) a have f: "fresh_volume fails present entries w = (v', Inr ())" by simp
    have "held Root v' n = None" if "n \<in> set data_files" for n
      using data_files_keep [of w v' n Root] fresh_keeps [of w fails present entries] f legacy_held [of n w] i True that
      by (auto simp: data_files_def)
    with fresh_prepared [OF f _ _ u] i show ?thesis by (auto simp: prepared_def list_all_iff)
  next
    case False
    with 2(2) a have m: "migrate_volume fails legacy w = (v', Inr ())" by simp
    have n: "held Private w n = None" "held Staging w n = None" for n
      using i False by (auto intro!: private_absent split: if_splits) (simp_all add: held_def files_at_def)
    from migrate_outcome [OF m n u] obtain x where x: "keeps_files w x" "published (moved_names legacy) x v'" "vo_unsynced v' = []"
      by (auto simp: outcome_def)
    have "''state.db'' \<in> set legacy" using m by (auto simp: migrate_volume_def split: if_splits)
    then have "held Root x ''state.db'' \<noteq> None"
      using data_files_keep [OF x(1), of "''state.db''" Root] legacy_held [of "''state.db''" w] i by (auto simp: data_files_def volumeFiles_def)
    with x(2) \<open>''state.db'' \<in> set legacy\<close> have "held Private v' ''state.db'' \<noteq> None" by (simp add: published_def moved_names_def volumeFiles_def)
    then have p: "vo_private v' \<noteq> None" by (cases "vo_private v'") (simp_all add: held_def files_at_def)
    have "held Root v' n = None" if "n \<in> set data_files" for n
      using x(2) moved_held [OF x(1) _ that] i by (auto simp: published_def)
    with p x show ?thesis by (simp add: prepared_def published_def list_all_iff)
  qed
qed simp

text \<open>
  C6: Whatever system call fails, and so wherever a crash interrupts the preparation, no database or recovery file is lost,
  copied or changed.  The private directory either is as it was or holds all the files at once, with none left behind; the
  database leaves the root only when every other file has left it for good; and an interrupted migration is refused and
  left alone.  After a success every file is in the private directory and every directory is synced.
\<close>

theorem volume_migration_safe:
  assumes "prepareVolume fails v = (v', r)" "list_all (\<lambda>x. fst x = Root) (vo_unsynced v)"
  shows "list_all (\<lambda>n. copies n v' = copies n v) data_files \<and>
    (list_all (\<lambda>n. held Private v' n = held Private v n) data_files \<or> whole v v') \<and>
    (vo_staging v = None \<and> held Staging v' ''state.db'' \<noteq> None \<longrightarrow>
      list_all (\<lambda>n. held Root v' n = None) data_files \<and> snd ` set (vo_unsynced v') \<subseteq> {''state.db''}) \<and>
    (vo_staging v \<noteq> None \<longrightarrow> r \<noteq> Inr () \<and> list_all (\<lambda>n. held p v' n = held p v n) data_files) \<and>
    (r = Inr () \<longrightarrow> prepared v')"
  using volume_prepared [of fails v v'] assms prepare_copies [OF assms] prepare_whole [OF assms] prepare_last [OF assms] prepare_refused [OF assms, of p] by simp

definition legacy_volume :: volume where
  "legacy_volume = \<lparr>vo_directory = True, vo_rooted = True, vo_grouped = True, vo_mode = 448,
     vo_files = [(''lost+found'', new_leaf\<lparr>lf_regular := False\<rparr>), (''state.db'', new_leaf\<lparr>lf_data := ''rows''\<rparr>),
       (''state.db-wal'', new_leaf\<lparr>lf_data := ''log''\<rparr>)],
     vo_private = None, vo_staging = None, vo_unsynced = []\<rparr>"

lemma volume_migration_safe_witness:
  "whole legacy_volume (fst (prepareVolume (\<lambda>c. False) legacy_volume)) \<and>
   copies ''state.db'' (fst (prepareVolume (\<lambda>c. c = [''renameat'', ''state.db'']) legacy_volume)) = [''rows'']"
proof -
  have e: "list_all (\<lambda>x. fst x = Root) (vo_unsynced legacy_volume)" by (simp add: legacy_volume_def)
  have c: "held Private (fst (prepareVolume (\<lambda>c. False) legacy_volume)) ''state.db'' \<noteq> held Private legacy_volume ''state.db''" by code_simp
  have d: "copies ''state.db'' legacy_volume = [''rows'']" by code_simp
  show ?thesis
    using volume_migration_safe [OF prod.collapse [symmetric] e, of "\<lambda>c. False" Root] c
      volume_migration_safe [OF prod.collapse [symmetric] e, of "\<lambda>c. c = [''renameat'', ''state.db'']" Root] d
    by (simp add: data_files_def volumeFiles_def)
qed

end
