(* ===== verification/Lookup.thy ===== *)
theory Lookup
  imports Collector Options GoSort "HOL-Library.Product_Lexorder"
begin

text \<open>
  \<open>internal/kube/context.go\<close>: the surrounding evidence of one event.  The container is identified before and after its log
  is read, the events in the window are collected, and the nearest are returned in the order of time.  \<open>time.Format\<close> is
  a parameter; a parsed time has no monotonic reading.
\<close>

section \<open>The recorded instance\<close>

definition text_of :: "source \<Rightarrow> string \<Rightarrow> string" where
  "text_of src k = (case mget src k of Some (JStr s) \<Rightarrow> s | _ \<Rightarrow> [])"

definition flag_of :: "source \<Rightarrow> string \<Rightarrow> bool" where
  "flag_of src k = (case mget src k of Some (JBool b) \<Rightarrow> b | _ \<Rightarrow> False)"

definition stamp_of :: "std \<Rightarrow> event \<Rightarrow> gotime option" where
  "stamp_of S e = (case ev_Timestamp e of None \<Rightarrow> None | Some s \<Rightarrow> map_option Round0 (parse_time S s))"

text \<open>A number of the source marshalled and read back into an \<open>int32\<close>; \<open>null\<close> leaves the variable zero.\<close>

definition recorded_count :: "std \<Rightarrow> json \<Rightarrow> int option" where
  "recorded_count S v = (case v of
     JNum s \<Rightarrow> (case parse_int64 (renum S s) of
        Some n \<Rightarrow> if - (2 ^ 31) \<le> n \<and> n < 2 ^ 31 then Some n else None | None \<Rightarrow> None)
   | JNull \<Rightarrow> Some 0
   | _ \<Rightarrow> None)"

record instance_id =
  in_UID :: string
  in_restarts :: int
  in_current :: string
  in_old :: string

definition container_identity :: "('w, 'r) cluster \<Rightarrow> string \<Rightarrow> string \<Rightarrow> string \<Rightarrow> 'w \<Rightarrow> 'w \<times> instance_id result" where
  "container_identity L ns pod name w =
     (case cl_get L ns pod w of
        (w1, Found p) \<Rightarrow>
          (w1, case find (\<lambda>s. cs_Name s = name) (pd_Containers p @ pd_Init p @ pd_Ephemeral p) of
             None \<Rightarrow> Inl (Err ''recorded container unavailable'')
           | Some s \<Rightarrow> Inr \<lparr>in_UID = pd_UID p, in_restarts = cs_RestartCount s, in_current = cs_ContainerID s, in_old = previousID s\<rparr>)
      | (w1, _) \<Rightarrow> (w1, Inl (Err ''recorded container unavailable'')))"

text \<open>Which of the two retained instances the event came from.\<close>

definition recorded_previous :: "std \<Rightarrow> source \<Rightarrow> instance_id \<Rightarrow> bool result" where
  "recorded_previous S src i = (case mget src ''restart_count'' of
     None \<Rightarrow> Inr (flag_of src ''previous'')
   | Some raw \<Rightarrow>
       (case recorded_count S raw of
          None \<Rightarrow> Inl (Err ''invalid recorded restart count'')
        | Some n \<Rightarrow>
            (if n = in_restarts i then Inr False
             else if n = in_restarts i - 1 then Inr True
             else Inl (Err ''recorded container instance is no longer retained''))))"

definition identity_warnings :: "source \<Rightarrow> string list" where
  "identity_warnings src =
     (if mhas src ''restart_count'' then [] else [''Older report has no restart identity; instance cannot be verified.''])
     @ (if text_of src ''pod_uid'' = [] then [''Older report has no pod UID; replacement cannot be distinguished.''] else [])"

definition instance_log :: "std \<Rightarrow> string \<Rightarrow> source \<Rightarrow> instance_id \<Rightarrow> bool result" where
  "instance_log S cluster_id src i =
     (if text_of src ''pod_uid'' \<noteq> [] \<and> text_of src ''pod_uid'' \<noteq> in_UID i then Inl (Err ''recorded pod was replaced'')
      else case recorded_previous S src i of
        Inl e \<Rightarrow> Inl e
      | Inr previous \<Rightarrow>
          (if text_of src ''container_id'' \<noteq> [] \<and> text_of src ''container_id'' \<noteq> (if previous then in_old i else in_current i)
           then Inl (Err ''recorded container identity changed'')
           else if text_of src ''cluster_id'' \<noteq> [] \<and> cluster_id \<noteq> [] \<and> text_of src ''cluster_id'' \<noteq> cluster_id
           then Inl (Err ''recorded cluster identity changed'')
           else Inr previous))"

section \<open>The window\<close>

record window =
  wi_stamp :: gotime
  wi_start :: gotime
  wi_end :: gotime

definition context_range :: "gotime \<Rightarrow> int \<Rightarrow> window" where
  "context_range centre n = \<lparr>wi_stamp = centre, wi_start = Add centre (- n * second), wi_end = Add centre (n * second)\<rparr>"

definition in_window :: "std \<Rightarrow> window \<Rightarrow> event \<Rightarrow> bool" where
  "in_window S r v = (case stamp_of S v of None \<Rightarrow> False | Some t \<Rightarrow> \<not> Before t (wi_start r) \<and> \<not> After t (wi_end r))"

definition unclassified :: "event \<Rightarrow> event" where
  "unclassified v = v\<lparr>ev_Judgment := verdict ''unclassified'' [] []\<rparr>"

definition collect_context :: "std \<Rightarrow> window \<Rightarrow> event \<Rightarrow> nat \<times> event list \<Rightarrow> (nat \<times> event list) \<times> status" where
  "collect_context S r v x =
     (let n = fst x + 1 in
      if 2000 < n then ((n, snd x), Some (Err ''context event limit''))
      else ((n, if in_window S r v then snd x @ [unclassified v] else snd x), None))"

definition parsed_stamp :: "std \<Rightarrow> event \<Rightarrow> gotime" where
  "parsed_stamp S e = (case stamp_of S e of None \<Rightarrow> zero_time | Some t \<Rightarrow> t)"

definition absDuration :: "int \<Rightarrow> int" where
  "absDuration d = (if d < 0 then - d else d)"

definition nearer :: "std \<Rightarrow> gotime \<Rightarrow> event \<Rightarrow> event \<Rightarrow> bool" where
  "nearer S centre x y = (absDuration (Sub (parsed_stamp S x) centre) < absDuration (Sub (parsed_stamp S y) centre))"

definition earlier :: "std \<Rightarrow> event \<Rightarrow> event \<Rightarrow> bool" where
  "earlier S x y =
     (let a = parsed_stamp S x; b = parsed_stamp S y in
      if wall a = wall b then ev_LineStart x < ev_LineStart y else Before a b)"

definition nearest :: "std \<Rightarrow> gotime \<Rightarrow> event list \<Rightarrow> event list" where
  "nearest S centre es = (if 500 < length es then take 500 (sort_stable (nearer S centre) es) else es)"

record surroundings =
  su_events :: "event list"
  su_warnings :: "string list"
  su_source :: source
  su_start :: string
  su_end :: string
  su_previous :: bool

definition read_warnings :: "status \<Rightarrow> event list \<Rightarrow> string list" where
  "read_warnings readErr es =
     (if readErr \<noteq> None then [''Context byte/event limit or read interruption; surrounding evidence may be missing.''] else [])
     @ (if 500 < length es then [''Showing nearest 500 events.''] else [])
     @ [''Kubernetes returns retained logs only; future and rotated logs may be unavailable.'']
     @ (if es = [] then [''No retained logs returned in this window.''] else [])"

definition surrounding :: "std \<Rightarrow> (gotime \<Rightarrow> string) \<Rightarrow> source \<Rightarrow> window \<Rightarrow> bool \<Rightarrow> status \<Rightarrow> event list \<Rightarrow> surroundings" where
  "surrounding S format src r previous readErr es =
     \<lparr>su_events = sort_stable (earlier S) (nearest S (wi_stamp r) es), su_warnings = identity_warnings src @ read_warnings readErr es,
      su_source = src, su_start = format (wi_start r), su_end = format (wi_end r), su_previous = previous\<rparr>"

section \<open>The lookup\<close>

definition context_options :: "string \<Rightarrow> bool \<Rightarrow> gotime \<Rightarrow> log_options" where
  "context_options name previous start = \<lparr>lo_Container = name, lo_Previous = previous, lo_Follow = False,
     lo_SinceSeconds = None, lo_SinceTime = Some start, lo_TailLines = Some (- 1)\<rparr>"

definition context_limit :: int where "context_limit = 2 ^ 20"

text \<open>The event a lookup can be made for, with its time.\<close>

definition context_target :: "kube_syntax \<Rightarrow> std \<Rightarrow> event \<Rightarrow> int \<Rightarrow> gotime result" where
  "context_target V S e n =
     (let src = ev_Source e in
      if n \<notin> {30, 120, 300, 900} then Inl (Err ''invalid context window'')
      else if text_of src ''type'' \<noteq> ''kubernetes'' \<or> ev_Timestamp e = None then Inl (Err ''context requires a timestamped Kubernetes event'')
      else case stamp_of S e of
        None \<Rightarrow> Inl (Err ''invalid event timestamp'')
      | Some centre \<Rightarrow>
          (if \<not> is_dns_label V (text_of src ''namespace'') \<or> \<not> is_dns_subdomain V (text_of src ''pod'')
              \<or> \<not> is_dns_subdomain V (text_of src ''container'')
           then Inl (Err ''invalid recorded source'') else Inr centre))"

text \<open>The log is read and the container identified again.\<close>

definition read_context :: "nat \<Rightarrow> std \<Rightarrow> ('w, 'r) cluster \<Rightarrow> (gotime \<Rightarrow> string) \<Rightarrow> source \<Rightarrow> instance_id \<Rightarrow> window \<Rightarrow> bool \<Rightarrow> 'r \<Rightarrow> 'w
    \<Rightarrow> ('w \<times> surroundings result) option" where
  "read_context fuel S L format src i r previous rd w =
     (case Read fuel S (cl_read L) (collect_context S r) (cl_reading L w) src context_limit rd (0, []) of
        None \<Rightarrow> None
      | Some ((n, es), readErr) \<Rightarrow>
          (case container_identity L (text_of src ''namespace'') (text_of src ''pod'') (text_of src ''container'') (cl_read_done L w) of
             (w1, j) \<Rightarrow> Some (w1, if j \<noteq> Inr i then Inl (Err ''container changed while fetching context'')
                                 else Inr (surrounding S format src r previous readErr es))))"

definition collector_Context :: "nat \<Rightarrow> kube_syntax \<Rightarrow> std \<Rightarrow> ('w, 'r) cluster \<Rightarrow> (gotime \<Rightarrow> string) \<Rightarrow> collector \<Rightarrow> event \<Rightarrow> int \<Rightarrow> 'w
    \<Rightarrow> ('w \<times> surroundings result) option" where
  "collector_Context fuel V S L format c e n w =
     (let src = ev_Source e; ns = text_of src ''namespace''; pod = text_of src ''pod''; name = text_of src ''container'' in
      case context_target V S e n of
        Inl err \<Rightarrow> Some (w, Inl err)
      | Inr centre \<Rightarrow>
          (case container_identity L ns pod name w of
             (w1, Inl err) \<Rightarrow> Some (w1, Inl err)
           | (w1, Inr i) \<Rightarrow>
               (case instance_log S (co_clusterID c) src i of
                  Inl err \<Rightarrow> Some (w1, Inl err)
                | Inr previous \<Rightarrow>
                    (case cl_open L ns pod (context_options name previous (wi_start (context_range centre n))) w1 of
                       (w2, None) \<Rightarrow> Some (w2, Inl (Err ''context logs unavailable''))
                     | (w2, Some rd) \<Rightarrow> read_context fuel S L format src i (context_range centre n) previous rd w2))))"

definition FetchContext_config :: "event \<Rightarrow> kube_config result" where
  "FetchContext_config e =
     (if text_of (ev_Source e) ''context'' = [] then Inl (Err ''recorded Kubernetes context is missing'')
      else Inr \<lparr>kc_SnapshotWorkers = 0, kc_DiscoveryInterval = 0, kc_Context = text_of (ev_Source e) ''context'', kc_Namespace = [],
        kc_Selector = [], kc_Pod = [], kc_InCluster = False, kc_Follow = False, kc_NoPrevious = False, kc_Since = 0, kc_Tail = 0,
        kc_MaxBytes = context_limit, kc_MaxStreams = 1, kc_Duration = 0\<rparr>)"

section \<open>What a lookup returns\<close>

interpretation nearest_order: key_order "\<lambda>_. True" "nearer S centre" "\<lambda>e. absDuration (Sub (parsed_stamp S e) centre)" for S centre
  by unfold_locales (simp add: nearer_def)

lemma stamp_no_mono: "mono_ns (parsed_stamp S e) = None"
  by (auto simp: parsed_stamp_def stamp_of_def zero_time_def split: option.split)

interpretation time_order: key_order "\<lambda>_. True" "earlier S" "\<lambda>e. (wall (parsed_stamp S e), ev_LineStart e)" for S
  by unfold_locales (auto simp: earlier_def Let_def Before_wall stamp_no_mono)

text \<open>What the sink collects: unclassified events inside the window, at most 2000.\<close>

definition shown_in :: "std \<Rightarrow> window \<Rightarrow> event \<Rightarrow> bool" where
  "shown_in S r v = (in_window S r v \<and> Importance (ev_Judgment v) = ''unclassified'')"

lemma shown_unclassified [simp]: "shown_in S r (unclassified v) = in_window S r v"
  by (simp add: shown_in_def in_window_def stamp_of_def unclassified_def verdict_def)

definition collected :: "std \<Rightarrow> window \<Rightarrow> nat \<times> event list \<Rightarrow> bool" where
  "collected S r x = (length (snd x) \<le> fst x \<and> length (snd x) \<le> 2000 \<and> list_all (shown_in S r) (snd x))"

lemma collect_context_keeps: "collected S r x \<Longrightarrow> collected S r (fst (collect_context S r v x))"
  by (auto simp: collected_def collect_context_def Let_def)

lemma emit_all_keeps: "(\<And>e o'. P o' \<Longrightarrow> P (fst (emit e o'))) \<Longrightarrow> P o' \<Longrightarrow> emit_all emit es o' = (o1, st) \<Longrightarrow> P o1"
  unfolding emit_all_def by (erule range_err_inv [where P = P, rotated 2]) (metis fst_conv)+

lemma read_loop_keeps:
  assumes "\<And>e o'. P o' \<Longrightarrow> P (fst (emit e o'))"
  shows "read_loop fuel S rd emit ctx m n p r o' = Some (o1, st) \<Longrightarrow> P o' \<Longrightarrow> P o1"
proof (induction fuel arbitrary: n p r o')
  case 0
  then show ?case by simp
next
  case (Suc fuel)
  note k = emit_all_keeps [of P emit, OF assms]
  from Suc.prems Suc.IH show ?case
    by (auto split: option.splits prod.splits if_splits dest: k [rotated])
qed

definition time_away :: "std \<Rightarrow> gotime \<Rightarrow> event \<Rightarrow> int" where
  "time_away S centre v = absDuration (Sub (parsed_stamp S v) centre)"

text \<open>The chosen events, and none of the others is nearer.\<close>

definition chosen_from :: "std \<Rightarrow> gotime \<Rightarrow> event list \<Rightarrow> event list \<Rightarrow> bool" where
  "chosen_from S centre es xs = (\<exists>rest. mset es = mset xs + mset rest \<and> (rest = [] \<or> length xs = 500) \<and>
     (\<forall>x \<in> set xs. \<forall>y \<in> set rest. time_away S centre x \<le> time_away S centre y))"

lemma nearest_chosen: "chosen_from S centre es (nearest S centre es)" "length (nearest S centre es) \<le> 500"
proof -
  show "length (nearest S centre es) \<le> 500" by (simp add: nearest_def)
  show "chosen_from S centre es (nearest S centre es)"
  proof (cases "500 < length es")
    case False
    then show ?thesis unfolding chosen_from_def by (intro exI [of _ "[]"]) (simp add: nearest_def)
  next
    case True
    let ?s = "sort_stable (nearer S centre) es"
    have "sorted (map (time_away S centre) ?s)" using nearest_order.sort_sorted_keys [of es S centre] unfolding time_away_def by simp
    then have "sorted (map (time_away S centre) (take 500 ?s) @ map (time_away S centre) (drop 500 ?s))" by (metis append_take_drop_id map_append)
    then have "\<forall>x \<in> set (take 500 ?s). \<forall>y \<in> set (drop 500 ?s). time_away S centre x \<le> time_away S centre y"
      by (simp add: sorted_append)
    moreover have "mset es = mset (take 500 ?s) + mset (drop 500 ?s)" by (metis append_take_drop_id mset_append mset_sort_stable)
    ultimately show ?thesis using True unfolding chosen_from_def by (intro exI [of _ "drop 500 ?s"]) (simp add: nearest_def)
  qed
qed

lemma chosen_from_mset: "mset ys = mset xs \<Longrightarrow> chosen_from S centre es xs \<Longrightarrow> chosen_from S centre es ys"
  unfolding chosen_from_def by (metis mset_eq_setD mset_eq_length)

lemma read_context_result:
  assumes "read_context fuel S L format src i r previous rd w = Some (w', Inr su)"
  obtains es w1 where "collected S r (length es, es)" "su_previous su = previous"
    "su_events su = sort_stable (earlier S) (nearest S (wi_stamp r) es)"
    "container_identity L (text_of src ''namespace'') (text_of src ''pod'') (text_of src ''container'') w1 = (w', Inr i)"
proof -
  from assms obtain n es err where rd: "Read fuel S (cl_read L) (collect_context S r) (cl_reading L w) src context_limit rd (0, []) = Some ((n, es), err)"
    by (auto simp: read_context_def split: option.splits)
  then have l: "read_loop fuel S (cl_read L) (collect_context S r) (cl_reading L w) (nat context_limit) 0 (NewParser S src) rd (0, []) = Some ((n, es), err)"
    by (simp add: Read_def context_limit_def)
  have "collected S r (n, es)" by (rule read_loop_keeps [where P = "collected S r", OF _ l]) (erule collect_context_keeps, simp add: collected_def)
  with assms rd show thesis
    by (intro that [of es "cl_read_done L w"]) (auto simp: read_context_def surrounding_def collected_def split: prod.splits if_splits)
qed


definition lookup_std :: std where
  "lookup_std = sample_std\<lparr>sha256hex := (\<lambda>s. replicate 64 (CHR ''a'')), parse_time := (\<lambda>s. if s = ''2024-01-01T00:00:00Z'' then Some \<lparr>wall = 10 ^ 18, mono_ns = None\<rparr> else None)\<rparr>"

definition lookup_event :: event where
  "lookup_event = empty_event\<lparr>ev_Timestamp := Some ''2024-01-01T00:00:00Z'',
     ev_Source := collector_source sample_collector (hd (streams sample_pod False False))\<rparr>"

definition lookup_cluster :: "(nat, string list) cluster" where
  "lookup_cluster = \<lparr>cl_get = (\<lambda>_ _ w. (w + 1, Found sample_pod)), cl_list = (\<lambda>_ _ _ w. (w + 1, None)),
     cl_open = (\<lambda>_ _ _ w. (w + 1, Some [''2024-01-01T00:00:00Z boom'' @ [CHR 0x0A]])), cl_read = chunk_reader, cl_ctx = (\<lambda>_. None),
     cl_reading = (\<lambda>_ _. None), cl_read_done = (\<lambda>w. w)\<rparr>"

definition lookup_syntax :: kube_syntax where
  "lookup_syntax = \<lparr>is_dns_label = (\<lambda>s. s \<noteq> []), is_dns_subdomain = (\<lambda>s. s \<noteq> []), parses_selector = (\<lambda>s. True)\<rparr>"

definition lookup_answer :: "(nat \<times> surroundings result) option" where
  "lookup_answer = collector_Context 5 lookup_syntax lookup_std lookup_cluster (\<lambda>t. []) sample_collector lookup_event 30 0"

lemma lookup_answered: "map_option (\<lambda>x. (fst x, map_sum (\<lambda>e. ()) (\<lambda>su. map ev_Text (su_events su)) (snd x))) lookup_answer = Some (3, Inr [''boom''])"
  by code_simp


end
