(* ===== verification/Spec2Isabelle.thy ===== *)
theory Spec2Isabelle
  imports Outbox SearchSafety Live Follow Bodies Options DashboardSafety TuiSafety Output Oidc Volume Lookup
begin

text \<open>
  A verification development for jevernetes, a Go program that collects Kubernetes and file logs, judges each
  event by local rules and a language-model provider, and notifies about the important ones.

  \<^bold>\<open>How the parts interact.\<close>  The collector (\<open>internal/kube\<close>) lists pods, opens the log of every container and feeds
  the bytes to the line parser (\<open>internal/event\<close>), whose cursor drops the lines a reconnect sends again.  Events go
  to the analysis engine (\<open>internal/analysis\<close>): local rules, template grouping and the learning teacher decide what
  is asked of the provider (\<open>internal/provider\<close>) through a caching judge (\<open>internal/controller\<close>).  The controller's
  store applies every judged event once, keeps bounded state tables and an outbox that is delivered to a sink.
  The retained window is written as a report (\<open>internal/report\<close>) and searched (\<open>internal/search\<close>).  One run of the command
  (\<open>internal/cli\<close>) wires these together; a person reads its reports in the terminal (\<open>internal/tui\<close>), in the investigation
  server (\<open>internal/investigation\<close>), which also starts runs and records reviews, or in the compact dashboard of a
  running controller (\<open>internal/dashboard\<close>).

  \<^bold>\<open>Theories.\<close>
  \<^item> \<open>Prelude\<close>: errors as a sum, Go maps as association lists, doubles, times, loops that stop at an error; \<open>Steps\<close>: invariants
    of step relations.  \<open>GoText\<close>, \<open>Utf8\<close>, \<open>Json\<close>, \<open>Regex\<close>, \<open>Float64\<close>, \<open>GoSort\<close>: the fragments of the standard library the
    source uses (UTF-8, \<open>encoding/json\<close>, RE2 matching, rounding, stable sorting).  What is left open (SHA-256, Unicode
    case, number and time parsing) are the fields of the record \<open>std\<close>, and the theorems hold for all of them.
  \<^item> \<open>Event\<close>, \<open>Parser\<close>, \<open>ParserSafety\<close>: \<open>event.go\<close> and \<open>json.go\<close>: judgments, redaction, the rules, and the parser with
    its reading loop; memory bounds, redaction of private keys, independence of the input's chunks, termination.
  \<^item> \<open>Cursor\<close>, \<open>Collector\<close>, \<open>Live\<close>, \<open>Follow\<close>, \<open>Bodies\<close>: \<open>cursor.go\<close>, \<open>kube.go\<close>, \<open>live.go\<close>, \<open>response.go\<close> and the bounded readers of
    \<open>upgrade.go\<close>; \<open>Lookup\<close>: \<open>context.go\<close>.  A stream is delivered exactly once over reconnects, a snapshot reads or reports every stream, a
    cancelled read loses nothing, at most \<open>MaxStreams\<close> readers run and \<open>follow\<close> returns after all of them; a lookup of
    surrounding evidence belongs to the recorded container instance and shows the nearest events in order.
  \<^item> \<open>Exec\<close>, \<open>Oidc\<close>: \<open>exec.go\<close>, \<open>oidc.go\<close> and the transaction of \<open>oidc_store.go\<close> in \<open>internal/kube\<close>: which authentication is used,
    what is accepted from a credential helper or an identity provider, and how both are cached, shared and renewed.
  \<^item> \<open>Schema\<close>, \<open>Provider\<close>, \<open>Budget\<close>, \<open>Teacher\<close>: \<open>schema.go\<close>, \<open>provider.go\<close>, \<open>parallel.go\<close>, \<open>template.go\<close> and the answers of
    \<open>search.go\<close> there: strict decoding, and the money, attempt and batch budget under every interleaving.
  \<^item> \<open>Templates\<close>, \<open>ReviewedRules\<close>, \<open>Grouper\<close>, \<open>Engine\<close>, \<open>Learning\<close>, \<open>EngineSafety\<close>: \<open>internal/analysis\<close>: what may be grouped,
    tickets that go stale, what a batch may write into an event and that the teacher only escalates.
  \<^item> \<open>Policy\<close>, \<open>Bounded\<close>, \<open>Store\<close>, \<open>Verdicts\<close>, \<open>Outbox\<close>: \<open>internal/controller\<close>: decisions, the SQL tables as bounded
    stores, \<open>Apply\<close>, the verdict cache, the caching judge, delivery and migration.  Every SQL statement may fail:
    the argument \<open>fails\<close> says which do.  \<open>Volume\<close>: \<open>volume.go\<close>: the offline preparation of the state volume, where every system
    call may fail, and with it every point at which a crash can interrupt the migration.
  \<^item> \<open>Search\<close>, \<open>SearchSafety\<close>: \<open>search.go\<close>: grouping, the literal and the semantic search, the cache, paging.
  \<^item> \<open>Report\<close>: \<open>report.go\<close>: what is retained, when a report is complete, and its atomic bounded publication.
  \<^item> \<open>Intake\<close>, \<open>IntakeSafety\<close>, \<open>Runner\<close>, \<open>Options\<close>: \<open>cli/run.go\<close>, \<open>cli/cli.go\<close> and \<open>Engine.Run\<close>: the pipeline of a run as a sequence of
    steps, what a successful exit means, and the validation of the options.
  \<^item> \<open>Keys\<close>, \<open>Tui\<close>, \<open>TuiSafety\<close>: \<open>tui.go\<close>: decoding of typed keys, the rows, the frame and the editor of the terminal view.
    \<open>Terminal\<close>, \<open>Output\<close>: \<open>terminal.go\<close> and \<open>output.go\<close>: the lease of the terminal, cancellable writes and the gates of files.
  \<^item> \<open>Reviews\<close>, \<open>ReviewSafety\<close>: \<open>reviews.go\<close> and \<open>reviewer.go\<close>: the human rules, their projection onto a report and its undoing.
    \<open>Investigation\<close>, \<open>Server\<close>, \<open>ServerSafety\<close>: \<open>server.go\<close>: routing and authorisation, the life of the one scan and the
    one search, the lookups, the listing of reports; every operation as one step relation.
  \<^item> \<open>Dashboard\<close>, \<open>DashboardSafety\<close>: \<open>internal/dashboard\<close>: the pages of a report and the polling of the controller.
  \<^item> \<open>Samples\<close>: inputs of the witnesses only.

  \<^bold>\<open>Interfaces.\<close>  \<open>bounded_store\<close> (\<open>Bounded\<close>) is the contract of every capacity-limited table, interpreted on the SQL
  tables, the verdict lifetimes, the grouper's partitions and the search cache; \<open>strict_weak\<close> and \<open>key_order\<close> (\<open>GoSort\<close>) are
  what a comparison must satisfy for a sort, interpreted on search results, report groups and
  the events of a lookup; \<open>bounded_reader\<close>
  (\<open>Bodies\<close>) is a reader whose text and end do not depend on how it is read, interpreted on the transport, both
  bounded bodies and the header reader; \<open>key_decoder\<close> (\<open>Keys\<close>) is a decoder whose result does not depend on how its input is
  cut, interpreted on \<open>nextKey\<close>; \<open>kept_by_steps\<close> and \<open>kept_by_operations\<close> (\<open>Steps\<close>) carry an invariant over every run of a
  relation, interpreted on the investigation server, the dashboard's polling, the terminal lease, the file gates and the
  shared credentials.

  \<^bold>\<open>State, faults, time, concurrency.\<close>  Stateful code passes its record explicitly; locks make operations atomic, so
  concurrency is the order of operations: the provider client is proved for every interleaving of its calls, the
  parallel judge for every order of completion, \<open>follow\<close> as a step relation over its readers, ticks and
  cancellation, the pipeline of a run, the server, the lease and the gates over every sequence of their operations.
  Clocks, contexts, readers, sinks, the kernel's answers and the cluster are functions given as arguments.

  \<^bold>\<open>Bounds and fuel.\<close>  Loops that depend on an outside party run on fuel and return \<open>None\<close> without enough of it: the reading
  loop needs \<open>maxBytes + 2\<close> rounds, reading a body one more than the bytes and portions of its stream, paged
  discovery 4097 pages, a write to a descriptor one more round than its context lives; each bound is proved sufficient.
  Counters of type \<open>uint64\<close> and \<open>int\<close> that only count calls are naturals; the cursor's counters keep their 64-bit limit.

  \<^bold>\<open>Not modelled.\<close>  Sockets, TLS and HTTP framing; SPDY streams and port forwarding (\<open>kube/streams.go\<close>, \<open>kube/forward.go\<close>);
  client-go's configuration (\<open>kube/files.go\<close>); the opening of the database (\<open>controller/secure_open.go\<close>) and \<open>safefile\<close>,
  which are system calls on descriptors; the client of \<open>internal/inspect\<close>; standard input, remote commands and text rendering of \<open>cli\<close>; the process group and the terminal
  attributes of a credential helper; the request documents sent to the provider; the snapshot with several workers;
  and the browser pages.  Where the source sorts with an unstable sort, the model keeps equal elements in their order.
\<close>

end
